(* ===== verification/Jobguard_Prelude.thy ===== *)
theory Jobguard_Prelude
  imports Main "HOL-Library.AList" "HOL-Library.Char_ord" "HOL-Library.List_Lexorder"
begin

text \<open>
  Shared vocabulary of the development. A function of the source that may throw returns
  \<^typ>\<open>'e + 'a\<close>: \<open>Inl\<close> holds the error code, \<open>Inr\<close> the value. \<open>bind_r\<close> sequences two such
  steps (the second one runs only if the first did not throw), \<open>fold_r\<close> is a
  \<^verbatim>\<open>for\<close> loop over a list whose body may throw, and \<open>map_r\<close> is
  \<^verbatim>\<open>Array.map\<close> with a callback that may throw. JavaScript \<^verbatim>\<open>Map\<close>s are
  association lists: \<^verbatim>\<open>set\<close> is \<^const>\<open>AList.update\<close>, which keeps the insertion
  order. Identifiers, hashes and ISO dates are strings; strings are compared
  lexicographically, as JavaScript does on the ASCII strings the schemas admit.
\<close>

named_theorems result_simps \<open>inversion of successful computations\<close>

text \<open>\<^const>\<open>pred_option\<close> reads optional fields; these equations make it executable.\<close>

lemma pred_option_code [code]: "pred_option P None \<longleftrightarrow> True" "pred_option P (Some x) \<longleftrightarrow> P x"
  by simp_all

section \<open>Computations that may throw\<close>

definition bind_r :: "'e + 'a \<Rightarrow> ('a \<Rightarrow> 'e + 'b) \<Rightarrow> 'e + 'b" where
  "bind_r m f = (case m of Inl e \<Rightarrow> Inl e | Inr v \<Rightarrow> f v)"

definition guard_r :: "bool \<Rightarrow> 'e \<Rightarrow> 'e + unit" where
  "guard_r ok e = (if ok then Inr () else Inl e)"

definition map_err :: "('e \<Rightarrow> 'f) \<Rightarrow> 'e + 'a \<Rightarrow> 'f + 'a" where
  "map_err g m = (case m of Inl e \<Rightarrow> Inl (g e) | Inr v \<Rightarrow> Inr v)"

definition of_option :: "'e \<Rightarrow> 'a option \<Rightarrow> 'e + 'a" where
  "of_option e m = (case m of None \<Rightarrow> Inl e | Some v \<Rightarrow> Inr v)"

fun fold_r :: "('s \<Rightarrow> 'x \<Rightarrow> 'e + 's) \<Rightarrow> 's \<Rightarrow> 'x list \<Rightarrow> 'e + 's" where
  "fold_r f s [] = Inr s"
| "fold_r f s (x # xs) = bind_r (f s x) (\<lambda>s'. fold_r f s' xs)"

fun map_r :: "('x \<Rightarrow> 'e + 'y) \<Rightarrow> 'x list \<Rightarrow> 'e + 'y list" where
  "map_r f [] = Inr []"
| "map_r f (x # xs) = bind_r (f x) (\<lambda>y. bind_r (map_r f xs) (\<lambda>ys. Inr (y # ys)))"

fun filter_r :: "('x \<Rightarrow> 'e + bool) \<Rightarrow> 'x list \<Rightarrow> 'e + 'x list" where
  "filter_r f [] = Inr []"
| "filter_r f (x # xs) = bind_r (f x) (\<lambda>b. bind_r (filter_r f xs) (\<lambda>ys. Inr (if b then x # ys else ys)))"

lemma bind_r_simps [simp]:
  "bind_r (Inl e) f = Inl e" "bind_r (Inr v) f = f v"
  by (simp_all add: bind_r_def)

lemma bind_r_Inr_iff [result_simps]:
  "bind_r m f = Inr y \<longleftrightarrow> (\<exists>v. m = Inr v \<and> f v = Inr y)"
  by (cases m) auto

lemma guard_r_simps [simp]: "guard_r True e = Inr ()" "guard_r False e = Inl e"
  by (simp_all add: guard_r_def)

lemma guard_r_Inr_iff [result_simps]: "guard_r P e = Inr u \<longleftrightarrow> P"
  by (simp add: guard_r_def)

lemma map_err_simps [simp]: "map_err g (Inl e) = Inl (g e)" "map_err g (Inr v) = Inr v"
  by (simp_all add: map_err_def)

lemma map_err_Inr_iff [result_simps]: "map_err g m = Inr v \<longleftrightarrow> m = Inr v"
  by (cases m) auto

lemma of_option_simps [simp]: "of_option e None = Inl e" "of_option e (Some v) = Inr v"
  by (simp_all add: of_option_def)

lemma of_option_Inr_iff [result_simps]: "of_option e m = Inr v \<longleftrightarrow> m = Some v"
  by (cases m) auto

lemma if_Inl_Inr_iff [result_simps]:
  "(if P then Inl e else m) = Inr y \<longleftrightarrow> \<not> P \<and> m = Inr y"
  "(if P then m else Inl e) = Inr y \<longleftrightarrow> P \<and> m = Inr y"
  by auto

lemma fold_r_append: "fold_r f s (xs @ ys) = bind_r (fold_r f s xs) (\<lambda>s'. fold_r f s' ys)"
proof (induction xs arbitrary: s)
  case (Cons x xs)
  then show ?case by (cases "f s x") auto
qed simp

text \<open>An invariant of the loop body is an invariant of the loop.\<close>

lemma fold_r_invariant:
  assumes "fold_r f s xs = Inr t" and "I s"
    and "\<And>s x s'. x \<in> set xs \<Longrightarrow> I s \<Longrightarrow> f s x = Inr s' \<Longrightarrow> I s'"
  shows "I t"
  using assms
proof (induction xs arbitrary: s)
  case (Cons x xs)
  from Cons.prems(1) obtain s' where "f s x = Inr s'" "fold_r f s' xs = Inr t"
    by (auto simp: bind_r_Inr_iff)
  with Cons show ?case by (metis list.set_intros(1) list.set_intros(2))
qed simp

lemma fold_r_prefix:
  "fold_r f s (xs @ ys) = Inr t \<Longrightarrow> \<exists>u. fold_r f s xs = Inr u \<and> fold_r f u ys = Inr t"
  by (simp add: fold_r_append bind_r_Inr_iff)

text \<open>A relation between the state before and after, indexed by the items consumed.\<close>

lemma fold_r_relates:
  assumes "fold_r f s xs = Inr t" and "\<And>s. R s [] s"
    and "\<And>s x s' ys t. f s x = Inr s' \<Longrightarrow> R s' ys t \<Longrightarrow> R s (x # ys) t"
  shows "R s xs t"
  using assms(1)
proof (induction xs arbitrary: s)
  case Nil
  then show ?case using assms(2) by simp
next
  case (Cons x xs)
  then obtain s' where "f s x = Inr s'" "fold_r f s' xs = Inr t"
    by (auto simp: bind_r_Inr_iff)
  with Cons.IH assms(3) show ?case by blast
qed

lemma map_r_Inr_length: "map_r f xs = Inr ys \<Longrightarrow> length ys = length xs"
  by (induction xs arbitrary: ys) (auto simp: bind_r_Inr_iff)

lemma map_r_Inr_list_all2:
  "map_r f xs = Inr ys \<longleftrightarrow> list_all2 (\<lambda>x y. f x = Inr y) xs ys"
  by (induction xs arbitrary: ys) (auto simp: bind_r_Inr_iff list_all2_Cons1)

lemma map_r_all_Inr: "\<forall>x\<in>set xs. f x = Inr (g x) \<Longrightarrow> map_r f xs = Inr (map g xs)"
  by (induction xs) simp_all

lemma map_r_InrD: "map_r f xs = Inr ys \<Longrightarrow> y \<in> set ys \<Longrightarrow> \<exists>x\<in>set xs. f x = Inr y"
  by (induction xs arbitrary: ys) (auto simp: bind_r_Inr_iff)

lemma map_r_Inr_sum:
  assumes "map_r f xs = Inr ys" and "\<And>x y. x \<in> set xs \<Longrightarrow> f x = Inr y \<Longrightarrow> h y = g x"
  shows "map h ys = map g xs"
  using assms by (induction xs arbitrary: ys) (auto simp: bind_r_Inr_iff)

lemma list_all2_map_eq: "list_all2 (\<lambda>x y. f x = g y) xs ys \<longleftrightarrow> map f xs = map g ys"
  by (induction xs arbitrary: ys) (auto simp: list_all2_Cons1 Cons_eq_map_conv)

lemma filter_r_all_Inr: "\<forall>x\<in>set xs. f x = Inr (P x) \<Longrightarrow> filter_r f xs = Inr (filter P xs)"
  by (induction xs) simp_all

section \<open>Maps with insertion order\<close>

lemma map_of_update [simp]: "map_of (AList.update k v m) = (map_of m)(k \<mapsto> v)"
  by (simp add: update_conv')

lemma distinct_keys_update:
  "distinct (map fst m) \<Longrightarrow> distinct (map fst (AList.update k v m))"
  by (rule distinct_update)

text \<open>
  The sum of the values of a map after one \<^verbatim>\<open>set\<close>, where a missing key counts as zero.
\<close>

definition get0 :: "('k \<times> int) list \<Rightarrow> 'k \<Rightarrow> int" where
  "get0 m k = (case map_of m k of None \<Rightarrow> 0 | Some v \<Rightarrow> v)"

definition sum_values :: "('k \<times> int) list \<Rightarrow> int" where
  "sum_values m = sum_list (map snd m)"

lemma get0_Nil [simp]: "get0 [] k = 0"
  by (simp add: get0_def)

lemma get0_update [simp]: "get0 (AList.update k v m) j = (if j = k then v else get0 m j)"
  by (simp add: get0_def)

lemma sum_values_Nil [simp]: "sum_values [] = 0"
  by (simp add: sum_values_def)

lemma sum_values_Cons [simp]: "sum_values (p # m) = snd p + sum_values m"
  by (simp add: sum_values_def)

lemma get0_notin: "k \<notin> fst ` set m \<Longrightarrow> get0 m k = 0"
  by (simp add: get0_def map_of_eq_None_iff [THEN iffD2])

lemma sum_values_update:
  "distinct (map fst m) \<Longrightarrow> sum_values (AList.update k v m) = sum_values m - get0 m k + v"
proof (induction m)
  case (Cons p m)
  show ?case
  proof (cases "fst p = k")
    case True
    with Cons show ?thesis by (cases p) (auto simp: get0_def)
  next
    case False
    with Cons have "get0 (p # m) k = get0 m k" by (cases p) (auto simp: get0_def)
    with Cons False show ?thesis by (cases p) simp
  qed
qed simp

section \<open>Sorting with a comparator\<close>

text \<open>
  \<^verbatim>\<open>Array.prototype.sort\<close> is stable: an element moves in front of another only if the
  comparator says it is strictly smaller.
\<close>

fun insert_by :: "('a \<Rightarrow> 'a \<Rightarrow> bool) \<Rightarrow> 'a \<Rightarrow> 'a list \<Rightarrow> 'a list" where
  "insert_by lt x [] = [x]"
| "insert_by lt x (y # ys) = (if lt y x then y # insert_by lt x ys else x # y # ys)"

definition sort_by :: "('a \<Rightarrow> 'a \<Rightarrow> bool) \<Rightarrow> 'a list \<Rightarrow> 'a list" where
  "sort_by lt xs = foldr (insert_by lt) xs []"

lemma sort_by_simps [simp]:
  "sort_by lt [] = []" "sort_by lt (x # xs) = insert_by lt x (sort_by lt xs)"
  by (simp_all add: sort_by_def)

lemma set_insert_by [simp]: "set (insert_by lt x ys) = insert x (set ys)"
  by (induction ys) auto

lemma set_sort_by [simp]: "set (sort_by lt xs) = set xs"
  by (induction xs) auto

lemma length_insert_by [simp]: "length (insert_by lt x ys) = Suc (length ys)"
  by (induction ys) auto

lemma length_sort_by [simp]: "length (sort_by lt xs) = length xs"
  by (induction xs) auto

lemma distinct_map_insert_by:
  "distinct (map f (insert_by lt x ys)) \<longleftrightarrow> f x \<notin> f ` set ys \<and> distinct (map f ys)"
  by (induction ys) auto

lemma distinct_map_sort_by [simp]: "distinct (map f (sort_by lt xs)) = distinct (map f xs)"
  by (induction xs) (auto simp: distinct_map_insert_by)

lemma distinct_sort_by [simp]: "distinct (sort_by lt xs) = distinct xs"
  using distinct_map_sort_by [of id lt xs] by simp

lemma sum_list_insert_by: "sum_list (map f (insert_by lt x ys)) = (f x :: int) + sum_list (map f ys)"
  by (induction ys) auto

lemma sum_list_sort_by [simp]: "sum_list (map f (sort_by lt xs)) = (sum_list (map f xs) :: int)"
  by (induction xs) (auto simp: sum_list_insert_by)

lemma sorted_wrt_insert_by:
  assumes "\<And>a b. lt a b \<Longrightarrow> \<not> lt b a"
    and trans: "\<And>a b c. \<not> lt b a \<Longrightarrow> \<not> lt c b \<Longrightarrow> \<not> lt c a"
    and "sorted_wrt (\<lambda>a b. \<not> lt b a) ys"
  shows "sorted_wrt (\<lambda>a b. \<not> lt b a) (insert_by lt x ys)"
  using assms(3)
proof (induction ys)
  case (Cons y ys)
  show ?case
  proof (cases "lt y x")
    case True
    then have "\<not> lt x y" by (rule assms(1))
    with True Cons show ?thesis by simp
  next
    case False
    then have "\<forall>z\<in>set ys. \<not> lt z x" using Cons.prems trans [OF False] by auto
    with False Cons.prems show ?thesis by simp
  qed
qed simp

lemma sorted_wrt_sort_by:
  assumes "\<And>a b. lt a b \<Longrightarrow> \<not> lt b a"
    and "\<And>a b c. \<not> lt b a \<Longrightarrow> \<not> lt c b \<Longrightarrow> \<not> lt c a"
  shows "sorted_wrt (\<lambda>a b. \<not> lt b a) (sort_by lt xs)"
proof (induction xs)
  case (Cons x xs)
  then show ?case using sorted_wrt_insert_by [of lt, OF assms] by simp
qed simp

section \<open>Sums over lists\<close>

lemma sum_list_nonneg_int: "\<forall>x\<in>set xs. 0 \<le> f x \<Longrightarrow> (0::int) \<le> sum_list (map f xs)"
  by (induction xs) auto

lemma member_le_sum_list_int:
  "x \<in> set xs \<Longrightarrow> \<forall>y\<in>set xs. (0::int) \<le> f y \<Longrightarrow> f x \<le> sum_list (map f xs)"
proof (induction xs)
  case (Cons a xs)
  then have "0 \<le> sum_list (map f xs)" by (simp add: sum_list_nonneg_int)
  with Cons show ?case by auto
qed simp

end
