(* ===== verification/Rounding.thy ===== *)
theory Rounding
  imports Jobguard_Prelude
begin

text \<open>
  Model of \<^verbatim>\<open>packages/core/src/rational.ts\<close>: exact ratios of big integers, rounded once.
  The locale \<open>rounding\<close> is the contract every money component relies on; it is interpreted on
  both modes of the code's own \<open>divideRounded\<close>.
\<close>

datatype rounding_mode = Half_even | Half_up

datatype range_error =
    Denominator_must_be_positive
  | Allocation_targets_needed
  | Allocation_ids_or_weights
  | Allocation_weight_total
  | Fee_inputs_negative
  | Discount_range
  | Quantity_not_canonical
  | Negative_quantity
  | Unsupported_tax_treatment

text \<open>The arithmetic of \<open>divideRounded\<close> once the denominator is known to be positive.\<close>

definition round_div :: "rounding_mode \<Rightarrow> int \<Rightarrow> int \<Rightarrow> int" where
  "round_div mode numerator denominator =
     (let sign = (if numerator < 0 then - 1 else 1);
          absolute = (if numerator < 0 then - numerator else numerator);
          quotient = absolute div denominator;
          remainder = absolute mod denominator;
          doubled = remainder * 2;
          increment = (doubled > denominator \<or>
            doubled = denominator \<and> (mode = Half_up \<or> quotient mod 2 = 1))
      in sign * (if increment then quotient + 1 else quotient))"

definition divideRounded :: "int \<Rightarrow> int \<Rightarrow> rounding_mode \<Rightarrow> range_error + int" where
  "divideRounded numerator denominator mode =
     (if denominator \<le> 0 then Inl Denominator_must_be_positive
      else Inr (round_div mode numerator denominator))"

definition multiplyRatio :: "int \<Rightarrow> int \<Rightarrow> int \<Rightarrow> rounding_mode \<Rightarrow> range_error + int" where
  "multiplyRatio v numerator denominator mode =
     (if denominator \<le> 0 then Inl Denominator_must_be_positive
      else divideRounded (v * numerator) denominator mode)"

fun ratio_step :: "int \<times> int \<Rightarrow> int \<times> int \<Rightarrow> range_error + int \<times> int" where
  "ratio_step (numerator, denominator) (fn, fd) =
     (if fd \<le> 0 then Inl Denominator_must_be_positive
      else Inr (numerator * fn, denominator * fd))"

definition multiplyRatios :: "int \<Rightarrow> (int \<times> int) list \<Rightarrow> rounding_mode \<Rightarrow> range_error + int" where
  "multiplyRatios v factors mode =
     bind_r (fold_r ratio_step (v, 1) factors)
      (\<lambda>(numerator, denominator). divideRounded numerator denominator mode)"

section \<open>The contract of a rounding\<close>

locale rounding =
  fixes rnd :: "int \<Rightarrow> int \<Rightarrow> int"
  assumes nearest: "0 < d \<Longrightarrow> \<bar>2 * (n - d * rnd n d)\<bar> \<le> d"
    and odd_symmetric: "0 < d \<Longrightarrow> rnd (- n) d = - rnd n d"
begin

lemma rnd_exact:
  assumes "0 < d"
  shows "rnd (d * k) d = k"
proof -
  have "\<bar>2 * (d * (k - rnd (d * k) d))\<bar> \<le> d"
    using nearest [OF assms, of "d * k"] by (simp add: algebra_simps)
  then have "2 * (d * \<bar>k - rnd (d * k) d\<bar>) \<le> d * 1"
    using assms by (simp add: abs_mult)
  then have "2 * \<bar>k - rnd (d * k) d\<bar> \<le> 1"
    using assms by (metis mult.left_commute mult_le_cancel_left_pos)
  then show ?thesis by presburger
qed

lemma rnd_mono:
  assumes "0 < d" and "n \<le> m"
  shows "rnd n d \<le> rnd m d"
proof (rule ccontr)
  assume "\<not> rnd n d \<le> rnd m d"
  then have "rnd m d + 1 \<le> rnd n d" and "n < m" using assms(2) by (auto simp: order_less_le)
  then have "d * (rnd m d + 1) \<le> d * rnd n d" using assms(1) by simp
  moreover have "2 * (d * rnd n d) \<le> 2 * n + d" "2 * m - d \<le> 2 * (d * rnd m d)"
    using nearest [OF assms(1), of n] nearest [OF assms(1), of m] by (auto simp: abs_le_iff)
  ultimately show False using \<open>n < m\<close> by (simp add: distrib_left)
qed

lemma rnd_zero: "0 < d \<Longrightarrow> rnd 0 d = 0"
  using rnd_exact [of d 0] by simp

lemma rnd_nonneg: "0 < d \<Longrightarrow> 0 \<le> n \<Longrightarrow> 0 \<le> rnd n d"
  using rnd_mono [of d 0 n] by (simp add: rnd_zero)

lemma rnd_le:
  assumes "0 < d" and "n \<le> d * k"
  shows "rnd n d \<le> k"
  using rnd_mono [OF assms] rnd_exact [OF assms(1)] by simp

lemma rnd_ge:
  assumes "0 < d" and "d * k \<le> n"
  shows "k \<le> rnd n d"
  using rnd_mono [OF assms] rnd_exact [OF assms(1)] by simp

text \<open>A rate between zero and one never takes more than the amount it is taken of.\<close>

lemma rnd_fraction_bounds:
  assumes "0 < d" and "0 \<le> a" and "a \<le> d" and "0 \<le> v"
  shows "0 \<le> rnd (v * a) d \<and> rnd (v * a) d \<le> v"
proof -
  have "v * a \<le> v * d" using assms by (simp add: mult_left_mono)
  then have "rnd (v * a) d \<le> v" by (intro rnd_le assms) (simp add: mult.commute)
  moreover have "0 \<le> rnd (v * a) d" using assms by (intro rnd_nonneg) auto
  ultimately show ?thesis by simp
qed

end

section \<open>Both modes of the code satisfy it\<close>

lemma round_div_pos:
  assumes "0 < d" and "0 \<le> n"
  shows "round_div mode n d = (if 2 * (n mod d) > d \<or> 2 * (n mod d) = d \<and> (mode = Half_up \<or> odd (n div d))
           then n div d + 1 else n div d)"
  using assms by (simp add: round_div_def Let_def mult.commute odd_iff_mod_2_eq_one)

lemma round_div_neg: "n < 0 \<Longrightarrow> round_div mode n d = - round_div mode (- n) d"
  by (simp add: round_div_def Let_def)

lemma round_div_uminus:
  assumes "0 < d"
  shows "round_div mode (- n) d = - round_div mode n d"
proof (cases "n = 0")
  case True
  with assms show ?thesis by (simp add: round_div_def)
next
  case False
  then show ?thesis
  proof (cases "n < 0")
    case True
    then show ?thesis using round_div_neg [of n mode d] by simp
  next
    case f: False
    with False have "- n < 0" by simp
    then show ?thesis using round_div_neg [of "- n" mode d] by simp
  qed
qed

lemma round_div_split:
  assumes "0 < d" and "0 \<le> n"
  obtains q r where "n = d * q + r" and "0 \<le> r" and "r < d"
    and "round_div mode n d = (if 2 * r > d \<or> 2 * r = d \<and> (mode = Half_up \<or> odd q) then q + 1 else q)"
proof
  show "n = d * (n div d) + n mod d" by simp
  show "0 \<le> n mod d" "n mod d < d" using assms(1) by simp_all
qed (rule round_div_pos [OF assms])

lemma round_div_nearest_nonneg:
  assumes "0 < d" and "0 \<le> n"
  shows "\<bar>2 * (n - d * round_div mode n d)\<bar> \<le> d"
  by (rule round_div_split [OF assms, of mode]) (auto simp: distrib_left abs_le_iff)

lemma round_div_nearest:
  assumes "0 < d"
  shows "\<bar>2 * (n - d * round_div mode n d)\<bar> \<le> d"
proof (cases "0 \<le> n")
  case True
  with assms show ?thesis by (rule round_div_nearest_nonneg)
next
  case False
  then have "\<bar>2 * (- n - d * round_div mode (- n) d)\<bar> \<le> d"
    using assms by (intro round_div_nearest_nonneg) auto
  then show ?thesis using assms by (simp add: round_div_uminus abs_le_iff)
qed

interpretation rd: rounding "round_div mode" for mode
  by unfold_locales (simp_all only: round_div_nearest round_div_uminus)

text \<open>What tells the two modes apart: an exact half.\<close>

lemma round_div_tie:
  assumes "0 < d" and "0 \<le> n" and "\<bar>2 * (n - d * round_div mode n d)\<bar> = d"
  shows "if mode = Half_even then even (round_div mode n d) else n \<le> d * round_div mode n d"
proof -
  obtain q r where s: "n = d * q + r" "0 \<le> r" "r < d"
    "round_div mode n d = (if 2 * r > d \<or> 2 * r = d \<and> (mode = Half_up \<or> odd q) then q + 1 else q)"
    by (rule round_div_split [OF assms(1,2), of mode]) blast
  have "2 * r = d"
    using assms(3) s by (auto simp: distrib_left split: if_splits)
  with s show ?thesis by (cases mode) (auto simp: distrib_left)
qed

lemma multiplyRatio_pos:
  "0 < d \<Longrightarrow> multiplyRatio v n d mode = Inr (round_div mode (v * n) d)"
  by (simp add: multiplyRatio_def divideRounded_def)

lemma multiplyRatio_Inr_iff [result_simps]:
  "multiplyRatio v n d mode = Inr r \<longleftrightarrow> 0 < d \<and> r = round_div mode (v * n) d"
  by (auto simp: multiplyRatio_def divideRounded_def)

lemma divideRounded_Inr_iff [result_simps]:
  "divideRounded n d mode = Inr r \<longleftrightarrow> 0 < d \<and> r = round_div mode n d"
  by (auto simp: divideRounded_def)

lemma fold_ratios:
  "\<forall>f\<in>set factors. 0 < snd f \<Longrightarrow>
   fold_r ratio_step (n, d) factors = Inr (n * prod_list (map fst factors), d * prod_list (map snd factors))"
  by (induction factors arbitrary: n d) (auto simp: mult.assoc not_le [symmetric])

lemma prod_list_pos: "\<forall>x\<in>set xs. 0 < f x \<Longrightarrow> (0::int) < prod_list (map f xs)"
  by (induction xs) auto

lemma multiplyRatios_pos:
  assumes "\<forall>f\<in>set factors. 0 < snd f"
  shows "multiplyRatios v factors mode =
    Inr (round_div mode (v * prod_list (map fst factors)) (prod_list (map snd factors)))"
proof -
  have "0 < prod_list (map snd factors)" using assms by (rule prod_list_pos)
  with assms show ?thesis by (simp add: multiplyRatios_def fold_ratios divideRounded_def not_le [symmetric])
qed

text \<open>
  \<^verbatim>\<open>divideRounded\<close> throws exactly on a non-positive denominator; otherwise the result
  is a nearest integer to the quotient, it is symmetric in the sign, it is exact on multiples, it is
  monotone in the numerator, and on an exact half it is the even neighbour (\<open>half_even\<close>) or the
  larger magnitude (\<open>half_up\<close>).
\<close>

lemma divideRounded_correct:
  "(d \<le> 0 \<longrightarrow> divideRounded n d mode = Inl Denominator_must_be_positive) \<and>
   (0 < d \<longrightarrow> (\<exists>r. divideRounded n d mode = Inr r \<and> \<bar>2 * (n - d * r)\<bar> \<le> d \<and>
      divideRounded (- n) d mode = Inr (- r) \<and>
      (\<forall>m\<ge>n. \<exists>s\<ge>r. divideRounded m d mode = Inr s) \<and>
      (\<bar>2 * (n - d * r)\<bar> = d \<longrightarrow> (if mode = Half_even then even r else \<bar>n\<bar> \<le> d * \<bar>r\<bar>))))"
proof (cases "d \<le> 0")
  case True
  then show ?thesis by (simp add: divideRounded_def)
next
  case False
  then have d: "0 < d" by simp
  let ?r = "round_div mode n d"
  note tie = round_div_tie [OF d]
  have neg: "if mode = Half_even then even ?r else \<bar>n\<bar> \<le> d * \<bar>?r\<bar>"
    if t: "\<bar>2 * (n - d * ?r)\<bar> = d"
  proof (cases "0 \<le> n")
    case True
    with tie [OF True t] d show ?thesis
      by (auto simp: rd.rnd_nonneg)
  next
    case False
    then have n: "0 \<le> - n" by simp
    have "\<bar>2 * (- n - d * round_div mode (- n) d)\<bar> = d"
      using t d by (simp add: round_div_uminus abs_minus_commute algebra_simps)
    from tie [OF n this] rd.rnd_nonneg [OF d n, of mode] d False show ?thesis
      by (auto simp: round_div_uminus)
  qed
  have mono: "\<forall>m\<ge>n. \<exists>s\<ge>?r. divideRounded m d mode = Inr s"
    using d by (auto simp: divideRounded_def rd.rnd_mono)
  have vals: "divideRounded n d mode = Inr ?r" "divideRounded (- n) d mode = Inr (- ?r)"
    using d by (simp_all add: divideRounded_def round_div_uminus)
  show ?thesis
    by (intro conjI impI exI [of _ ?r] vals mono neg round_div_nearest d) (use False in simp_all)
qed

lemma divideRounded_correct_witness:
  "divideRounded 25 10 Half_even = Inr 2 \<and> divideRounded 25 10 Half_up = Inr 3 \<and>
   divideRounded (- 25) 10 Half_up = Inr (- 3) \<and> divideRounded 1 0 Half_up = Inl Denominator_must_be_positive"
  using divideRounded_correct [of 0 1 Half_up]
  by (simp add: divideRounded_def round_div_def)

end
