(* ===== verification/Money.thy ===== *)
theory Money
  imports Rounding
begin

text \<open>
  Model of \<^verbatim>\<open>packages/core/src/money.ts\<close>, of the invoice balance of
  \<^verbatim>\<open>customer-billing.ts\<close> and of the pounds formatter of \<^verbatim>\<open>recovery-message.ts\<close>.
  A JavaScript number is an integer or one of the values no integer check accepts
  (fractions, infinities, NaN); big integers are \<^typ>\<open>int\<close>. A money value carries its currency
  string, as the interfaces of the source do.
\<close>

datatype js_number = JInt int | JNotInteger

datatype json =
    JNull | JBool bool | JNumber js_number | JString string
  | JArray "json list" | JObject "(string \<times> json) list"

definition is_safe_integer :: "js_number \<Rightarrow> bool" where
  "is_safe_integer n = (case n of JInt i \<Rightarrow> \<bar>i\<bar> \<le> 2 ^ 53 - 1 | JNotInteger \<Rightarrow> False)"

definition MAX_MONEY_PENCE :: int where
  "MAX_MONEY_PENCE = 1000000000000"

record money =
  pence :: int
  currency :: string

record money_v1 =
  schemaVersion :: int
  v1_pence :: int
  v1_currency :: string

datatype money_error = Invalid_pence | Magnitude_exceeded | Currency_mismatch | Overflow

definition money_of :: "js_number \<Rightarrow> money_error + money" where
  "money_of p = (case p of JNotInteger \<Rightarrow> Inl Invalid_pence | JInt i \<Rightarrow>
     (if \<not> is_safe_integer p then Inl Invalid_pence
      else if \<bar>i\<bar> > MAX_MONEY_PENCE then Inl Magnitude_exceeded
      else Inr \<lparr>pence = i, currency = ''GBP''\<rparr>))"

definition moneyFromBigInt :: "int \<Rightarrow> money_error + money" where
  "moneyFromBigInt p =
     (if p < - MAX_MONEY_PENCE \<or> p > MAX_MONEY_PENCE then Inl Overflow else money_of (JInt p))"

definition serializeMoney :: "money \<Rightarrow> money_v1" where
  "serializeMoney m = \<lparr>schemaVersion = 1, v1_pence = pence m, v1_currency = currency m\<rparr>"

text \<open>The serialized record as the JSON object a reader of the wire format sees.\<close>

definition money_v1_json :: "money_v1 \<Rightarrow> json" where
  "money_v1_json m = JObject [(''schemaVersion'', JNumber (JInt (schemaVersion m))),
     (''pence'', JNumber (JInt (v1_pence m))), (''currency'', JString (v1_currency m))]"

definition json_field :: "json \<Rightarrow> string \<Rightarrow> json option" where
  "json_field v k = (case v of JObject kvs \<Rightarrow> map_of kvs k | _ \<Rightarrow> None)"

definition parseMoneyV1 :: "json \<Rightarrow> money_error + money" where
  "parseMoneyV1 v =
     (if \<not> (case v of JObject _ \<Rightarrow> True | JArray _ \<Rightarrow> True | _ \<Rightarrow> False) then Inl Invalid_pence
      else (case json_field v ''pence'' of
          Some (JNumber n) \<Rightarrow>
            (if json_field v ''schemaVersion'' \<noteq> Some (JNumber (JInt 1)) \<or>
                json_field v ''currency'' \<noteq> Some (JString ''GBP'')
             then Inl (if json_field v ''currency'' = Some (JString ''GBP'') then Invalid_pence else Currency_mismatch)
             else money_of n)
        | _ \<Rightarrow> Inl (if json_field v ''currency'' = Some (JString ''GBP'') then Invalid_pence else Currency_mismatch)))"

definition assertSameCurrency :: "string \<Rightarrow> string \<Rightarrow> money_error + unit" where
  "assertSameCurrency l r = (if l \<noteq> r \<or> l \<noteq> ''GBP'' then Inl Currency_mismatch else Inr ())"

definition addMoney :: "money \<Rightarrow> money \<Rightarrow> money_error + money" where
  "addMoney l r = bind_r (assertSameCurrency (currency l) (currency r))
     (\<lambda>_. moneyFromBigInt (pence l + pence r))"

definition subtractMoney :: "money \<Rightarrow> money \<Rightarrow> money_error + money" where
  "subtractMoney l r = bind_r (assertSameCurrency (currency l) (currency r))
     (\<lambda>_. moneyFromBigInt (pence l - pence r))"

section \<open>Decimal text\<close>

definition is_digit :: "char \<Rightarrow> bool" where
  "is_digit c \<longleftrightarrow> CHR ''0'' \<le> c \<and> c \<le> CHR ''9''"

definition digit_val :: "char \<Rightarrow> int" where
  "digit_val c = int (of_char c) - 48"

text \<open>\<^verbatim>\<open>BigInt(text)\<close> on a string of digits.\<close>

definition digits_val :: "string \<Rightarrow> int" where
  "digits_val s = foldl (\<lambda>n c. 10 * n + digit_val c) 0 s"

text \<open>\<^verbatim>\<open>toString()\<close> of a non-negative big integer.\<close>

fun nat_text :: "nat \<Rightarrow> string" where
  "nat_text n = (if n < 10 then [char_of (48 + n)] else nat_text (n div 10) @ [char_of (48 + n mod 10)])"

declare nat_text.simps [simp del]

definition canonical_whole :: "string \<Rightarrow> bool" where
  "canonical_whole s \<longleftrightarrow> s = ''0'' \<or>
     (s \<noteq> [] \<and> hd s \<noteq> CHR ''0'' \<and> list_all is_digit s)"

definition pad_end :: "nat \<Rightarrow> string \<Rightarrow> string" where
  "pad_end w s = s @ replicate (w - length s) (CHR ''0'')"

definition pad_start :: "nat \<Rightarrow> string \<Rightarrow> string" where
  "pad_start w s = replicate (w - length s) (CHR ''0'') @ s"

definition parsePoundsToPence :: "string \<Rightarrow> money_error + int" where
  "parsePoundsToPence input =
     (let whole = takeWhile (\<lambda>c. c \<noteq> CHR ''.'') input;
          rest = dropWhile (\<lambda>c. c \<noteq> CHR ''.'') input;
          fraction = (case rest of [] \<Rightarrow> [] | _ # f \<Rightarrow> f)
      in if \<not> (canonical_whole whole \<and>
               (rest = [] \<or> (fraction \<noteq> [] \<and> length fraction \<le> 2 \<and> list_all is_digit fraction)))
         then Inl Invalid_pence
         else let p = digits_val (whole @ pad_end 2 fraction)
              in if p > MAX_MONEY_PENCE then Inl Magnitude_exceeded
                 else bind_r (money_of (JInt p)) (\<lambda>m. Inr (pence m)))"

text \<open>
  \<^verbatim>\<open>formatRecoveryMessagePounds\<close>: a comma before every group of three digits counted from
  the right, then the two digits of the pence.
\<close>

fun group_thousands :: "string \<Rightarrow> string" where
  "group_thousands s = (if length s \<le> 3 then s
     else group_thousands (take (length s - 3) s) @ '','' @ drop (length s - 3) s)"

declare group_thousands.simps [simp del]

definition formatRecoveryMessagePounds :: "js_number \<Rightarrow> string option" where
  "formatRecoveryMessagePounds p = (case p of JNotInteger \<Rightarrow> None | JInt i \<Rightarrow>
     (if \<not> is_safe_integer p \<or> i < 0 then None
      else Some (group_thousands (nat_text (nat i div 100)) @ ''.'' @ pad_start 2 (nat_text (nat i mod 100)))))"

section \<open>The invoice balance\<close>

datatype customer_invoice_status = Unpaid | Partial | Paid | Credited

record invoice_balance =
  ib_total :: money
  ib_credited :: money
  ib_received :: money
  ib_allocated :: money
  ib_unappliedCredit :: money
  ib_balance :: money
  ib_status :: customer_invoice_status

datatype balance_error = Balance_money money_error | Invalid_customer_balance_history

definition money_b :: "int \<Rightarrow> balance_error + money" where
  "money_b i = map_err Balance_money (money_of (JInt i))"

definition projectInvoiceBalance ::
    "int \<Rightarrow> int option \<Rightarrow> int option \<Rightarrow> int option \<Rightarrow> balance_error + invoice_balance" where
  "projectInvoiceBalance totalPence creditPence receiptPence reversedReceiptPence =
     bind_r (money_b totalPence) (\<lambda>total.
     bind_r (money_b (case creditPence of None \<Rightarrow> 0 | Some v \<Rightarrow> v)) (\<lambda>credited.
     bind_r (money_b (case receiptPence of None \<Rightarrow> 0 | Some v \<Rightarrow> v)) (\<lambda>received.
     bind_r (money_b (case reversedReceiptPence of None \<Rightarrow> 0 | Some v \<Rightarrow> v)) (\<lambda>reversed.
     if pence credited > pence total \<or> pence reversed > pence received
     then Inl Invalid_customer_balance_history else
     bind_r (map_err Balance_money (subtractMoney total credited)) (\<lambda>effectiveDebt.
     bind_r (map_err Balance_money (subtractMoney received reversed)) (\<lambda>netReceived.
     bind_r (money_b (min (pence effectiveDebt) (pence netReceived))) (\<lambda>allocated.
     bind_r (map_err Balance_money (subtractMoney netReceived allocated)) (\<lambda>unappliedCredit.
     bind_r (map_err Balance_money (subtractMoney effectiveDebt allocated)) (\<lambda>bal.
       Inr \<lparr>ib_total = total, ib_credited = credited, ib_received = netReceived,
            ib_allocated = allocated, ib_unappliedCredit = unappliedCredit, ib_balance = bal,
            ib_status = (if pence effectiveDebt = 0 then Credited else if pence bal = 0 then Paid
              else if pence allocated > 0 then Partial else Unpaid)\<rparr>)))))))))"

section \<open>Lemmas\<close>

definition money_ok :: "money \<Rightarrow> bool" where
  "money_ok m \<longleftrightarrow> \<bar>pence m\<bar> \<le> MAX_MONEY_PENCE \<and> currency m = ''GBP''"

definition gbp :: "int \<Rightarrow> money" where
  "gbp i = \<lparr>pence = i, currency = ''GBP''\<rparr>"

lemma gbp_simps [simp]: "pence (gbp i) = i" "currency (gbp i) = ''GBP''"
  by (simp_all add: gbp_def)

lemma money_of_JInt: "money_of (JInt i) = (if \<bar>i\<bar> \<le> MAX_MONEY_PENCE then Inr (gbp i)
    else if \<bar>i\<bar> \<le> 2 ^ 53 - 1 then Inl Magnitude_exceeded else Inl Invalid_pence)"
  by (auto simp: money_of_def is_safe_integer_def MAX_MONEY_PENCE_def gbp_def)

lemma moneyFromBigInt_eq: "moneyFromBigInt i = (if \<bar>i\<bar> \<le> MAX_MONEY_PENCE then Inr (gbp i) else Inl Overflow)"
  by (auto simp: moneyFromBigInt_def money_of_JInt)

lemma moneyFromBigInt_Inr_iff [result_simps]:
  "moneyFromBigInt i = Inr m \<longleftrightarrow> \<bar>i\<bar> \<le> MAX_MONEY_PENCE \<and> m = gbp i"
  by (auto simp: moneyFromBigInt_eq)

lemma money_of_Inr_iff [result_simps]:
  "money_of (JInt i) = Inr m \<longleftrightarrow> \<bar>i\<bar> \<le> MAX_MONEY_PENCE \<and> m = gbp i"
  by (auto simp: money_of_JInt)

lemma money_of_ok: "money_of p = Inr m \<Longrightarrow> money_ok m \<and> p = JInt (pence m)"
  by (cases p) (auto simp: money_of_JInt money_ok_def money_of_def [of JNotInteger] split: if_splits)

lemma money_ok_gbp: "money_ok m \<Longrightarrow> m = gbp (pence m)"
  by (simp add: money_ok_def gbp_def)

lemma addMoney_ok: "money_ok a \<Longrightarrow> money_ok b \<Longrightarrow> addMoney a b = moneyFromBigInt (pence a + pence b)"
  by (simp add: addMoney_def assertSameCurrency_def money_ok_def)

lemma subtractMoney_ok:
  "money_ok a \<Longrightarrow> money_ok b \<Longrightarrow> subtractMoney a b = moneyFromBigInt (pence a - pence b)"
  by (simp add: subtractMoney_def assertSameCurrency_def money_ok_def)

lemma money_ok_gbp_iff [simp]: "money_ok (gbp i) \<longleftrightarrow> \<bar>i\<bar> \<le> MAX_MONEY_PENCE"
  by (simp add: money_ok_def)

lemma money_b_Inr_iff [result_simps]: "money_b i = Inr m \<longleftrightarrow> \<bar>i\<bar> \<le> MAX_MONEY_PENCE \<and> m = gbp i"
  by (auto simp: money_b_def result_simps)

subsection \<open>Decimal text\<close>

lemma digits_val_snoc [simp]: "digits_val (s @ [c]) = 10 * digits_val s + digit_val c"
  by (simp add: digits_val_def)

lemma digits_val_Nil [simp]: "digits_val [] = 0"
  by (simp add: digits_val_def)

lemma digit_val_char_of: "(n::nat) < 10 \<Longrightarrow> digit_val (char_of (48 + n)) = int n"
  by (simp add: digit_val_def)

lemma is_digit_char_of: "(n::nat) < 10 \<Longrightarrow> is_digit (char_of (48 + n))"
  by (auto simp: is_digit_def less_eq_char_def)

lemma digits_val_nat_text: "digits_val (nat_text n) = int n"
proof (induction n rule: nat_text.induct)
  case (1 n)
  show ?case
  proof (cases "n < 10")
    case True
    then show ?thesis using digits_val_snoc [of "[]"]
      by (subst nat_text.simps) (simp add: digit_val_char_of)
  next
    case False
    have "10 * int (n div 10) + int (n mod 10) = int n" by presburger
    with False 1 show ?thesis by (subst nat_text.simps) (simp add: digit_val_char_of)
  qed
qed

lemma digits_nat_text: "list_all is_digit (nat_text n)"
proof (induction n rule: nat_text.induct)
  case (1 n)
  then show ?case by (subst nat_text.simps) (auto simp: is_digit_char_of)
qed

lemma nat_text_neq_Nil [simp]: "nat_text n \<noteq> []"
  by (subst nat_text.simps) simp

lemma hd_nat_text: "n \<noteq> 0 \<Longrightarrow> hd (nat_text n) \<noteq> CHR ''0''"
proof (induction n rule: nat_text.induct)
  case (1 n)
  show ?case
  proof (cases "n < 10")
    case True
    then have "digit_val (char_of (48 + n)) \<noteq> digit_val (CHR ''0'')"
      using 1(2) by (simp add: digit_val_char_of) (simp add: digit_val_def)
    then have "char_of (48 + n) \<noteq> CHR ''0''" by auto
    with True show ?thesis by (subst nat_text.simps) simp
  next
    case False
    with 1 show ?thesis by (subst nat_text.simps) (simp add: hd_append)
  qed
qed

lemma canonical_whole_nat_text: "canonical_whole (nat_text n)"
proof (cases "n = 0")
  case True
  have "nat_text 0 = ''0''" by code_simp
  with True show ?thesis by (simp add: canonical_whole_def)
next
  case False
  then show ?thesis by (simp add: canonical_whole_def hd_nat_text digits_nat_text)
qed

lemma digits_val_append_two:
  "length f = 2 \<Longrightarrow> digits_val (w @ f) = 100 * digits_val w + digits_val f"
  by (cases f; cases "tl f") (auto simp: digits_val_def)

lemma length_nat_text_1: "n < 10 \<Longrightarrow> length (nat_text n) = 1"
  by (subst nat_text.simps) simp

lemma length_nat_text_2: "n < 100 \<Longrightarrow> length (nat_text n) \<le> 2"
  by (subst nat_text.simps) (auto simp: length_nat_text_1)

lemma pad_start_2:
  assumes "n < 100"
  shows "length (pad_start 2 (nat_text n)) = 2" "digits_val (pad_start 2 (nat_text n)) = int n"
    "list_all is_digit (pad_start 2 (nat_text n))"
proof -
  show "length (pad_start 2 (nat_text n)) = 2" using length_nat_text_2 [OF assms] by (simp add: pad_start_def)
  have z: "digits_val (replicate k (CHR ''0'') @ s) = digits_val s" for k s
    by (induction s rule: rev_induct; induction k) (auto simp: digits_val_def digit_val_def)
  show "digits_val (pad_start 2 (nat_text n)) = int n" by (simp add: pad_start_def z digits_val_nat_text)
  show "list_all is_digit (pad_start 2 (nat_text n))"
    using digits_nat_text by (auto simp: pad_start_def list_all_iff is_digit_def less_eq_char_def)
qed

lemma remove_commas_group:
  "CHR '','' \<notin> set s \<Longrightarrow> filter (\<lambda>c. c \<noteq> CHR '','') (group_thousands s) = s"
proof (induction s rule: group_thousands.induct)
  case (1 s)
  show ?case
  proof (cases "length s \<le> 3")
    case True
    with 1(2) show ?thesis by (subst group_thousands.simps) (auto intro!: filter_True)
  next
    case False
    have "CHR '','' \<notin> set (take (length s - 3) s)" "CHR '','' \<notin> set (drop (length s - 3) s)"
      using 1(2) by (auto dest: in_set_takeD in_set_dropD)
    moreover from this(2) have "filter (\<lambda>c. c \<noteq> CHR '','') (drop (length s - 3) s) = drop (length s - 3) s"
      by (auto intro!: filter_True)
    ultimately show ?thesis using 1(1) False by (subst group_thousands.simps) simp
  qed
qed

lemma digit_not_punctuation: "is_digit c \<Longrightarrow> c \<noteq> CHR ''.'' \<and> c \<noteq> CHR '',''"
  by (auto simp: is_digit_def less_eq_char_def)

lemma takeWhile_dot: "list_all is_digit w \<Longrightarrow> takeWhile (\<lambda>c. c \<noteq> CHR ''.'') (w @ CHR ''.'' # f) = w"
  "list_all is_digit w \<Longrightarrow> dropWhile (\<lambda>c. c \<noteq> CHR ''.'') (w @ CHR ''.'' # f) = CHR ''.'' # f"
  by (induction w) (auto dest: digit_not_punctuation)

section \<open>Properties\<close>

text \<open>
  Money arithmetic never leaves the application limit and never mixes currencies: addition and
  subtraction of two valid amounts return the exact sum or difference as a valid amount, or the
  \<open>overflow\<close> error exactly when it exceeds the limit; amounts of another currency are refused;
  and a serialized amount parses back to itself.
\<close>

lemma money_arithmetic_closed:
  "(\<forall>a b. money_ok a \<longrightarrow> money_ok b \<longrightarrow>
      (case addMoney a b of Inr m \<Rightarrow> money_ok m \<and> pence m = pence a + pence b
        | Inl e \<Rightarrow> e = Overflow \<and> \<bar>pence a + pence b\<bar> > MAX_MONEY_PENCE) \<and>
      (case subtractMoney a b of Inr m \<Rightarrow> money_ok m \<and> pence m = pence a - pence b
       | Inl e \<Rightarrow> e = Overflow \<and> \<bar>pence a - pence b\<bar> > MAX_MONEY_PENCE) \<and>
      parseMoneyV1 (money_v1_json (serializeMoney a)) = Inr a) \<and>
   (\<forall>a b. currency a \<noteq> currency b \<longrightarrow> addMoney a b = Inl Currency_mismatch)"
proof (intro conjI allI impI)
  fix a b assume a: "money_ok a" and b: "money_ok b"
  show "case addMoney a b of Inr m \<Rightarrow> money_ok m \<and> pence m = pence a + pence b
        | Inl e \<Rightarrow> e = Overflow \<and> \<bar>pence a + pence b\<bar> > MAX_MONEY_PENCE"
    using a b by (simp add: addMoney_ok moneyFromBigInt_eq)
  show "case subtractMoney a b of Inr m \<Rightarrow> money_ok m \<and> pence m = pence a - pence b
        | Inl e \<Rightarrow> e = Overflow \<and> \<bar>pence a - pence b\<bar> > MAX_MONEY_PENCE"
    using a b by (simp add: subtractMoney_ok moneyFromBigInt_eq)
  show "parseMoneyV1 (money_v1_json (serializeMoney a)) = Inr a"
    using a by (simp add: parseMoneyV1_def money_v1_json_def serializeMoney_def json_field_def
        money_of_JInt money_ok_def gbp_def)
next
  fix a b :: money assume "currency a \<noteq> currency b"
  then show "addMoney a b = Inl Currency_mismatch" by (simp add: addMoney_def assertSameCurrency_def)
qed

lemma money_arithmetic_closed_witness:
  "addMoney (gbp 250) (gbp 100) = Inr (gbp 350) \<and>
   addMoney (gbp MAX_MONEY_PENCE) (gbp 1) = Inl Overflow"
  using money_arithmetic_closed by (simp add: addMoney_ok moneyFromBigInt_eq MAX_MONEY_PENCE_def)

text \<open>The commas stand at every fourth place counted from the right.\<close>

lemma group_thousands_places:
  assumes "CHR '','' \<notin> set s" and "s \<noteq> []"
  shows "(\<forall>i<length (group_thousands s). group_thousands s ! i = CHR '','' \<longleftrightarrow> (length (group_thousands s) - i) mod 4 = 0) \<and>
    group_thousands s \<noteq> [] \<and> hd (group_thousands s) \<noteq> CHR '',''"
  using assms
proof (induction s rule: group_thousands.induct)
  case (1 s)
  show ?case
  proof (cases "length s \<le> 3")
    case True
    have "s ! i \<noteq> CHR '','' \<and> (length s - i) mod 4 \<noteq> 0" if "i < length s" for i
      using that True 1(2) nth_mem [OF that] by (auto simp del: nth_mem)
    moreover have "hd s \<noteq> CHR '',''" using 1(2,3) by (metis hd_in_set)
    ultimately show ?thesis using True 1(3) by (subst (1 2 3 4 5) group_thousands.simps) auto
  next
    case False
    let ?g = "group_thousands (take (length s - 3) s)" and ?d = "drop (length s - 3) s"
    have t: "take (length s - 3) s \<noteq> []" "CHR '','' \<notin> set (take (length s - 3) s)" "CHR '','' \<notin> set ?d" "length ?d = 3"
      using 1(2) False by (auto dest: in_set_takeD in_set_dropD)
    note IH' = 1(1) [OF False t(2,1)]
    have IH: "?g \<noteq> []" "hd ?g \<noteq> CHR '',''" using IH' by simp_all
    have places: "?g ! i = CHR '','' \<longleftrightarrow> (length ?g - i) mod 4 = 0" if "i < length ?g" for i
      using IH' that by simp
    have e: "group_thousands s = ?g @ CHR '','' # ?d" using False by (subst group_thousands.simps) simp
    have "(?g @ CHR '','' # ?d) ! i = CHR '','' \<longleftrightarrow> (length ?g + 4 - i) mod 4 = 0" if i: "i < length ?g + 4" for i
    proof (cases "i < length ?g")
      case True
      then have "length ?g + 4 - i = (length ?g - i) + 4" by simp
      then have "(length ?g + 4 - i) mod 4 = (length ?g - i) mod 4" by (simp only: mod_add_self2)
      with True places [OF True] show ?thesis by (simp only: nth_append if_True)
    next
      case high: False
      show ?thesis
      proof (cases "i = length ?g")
        case False
        with high obtain j where j: "i = length ?g + Suc j" by (metis add_Suc_right less_imp_Suc_add linorder_neqE_nat)
        then have "j < length ?d" using i t(4) by simp
        then have "?d ! j \<in> set ?d" by (rule nth_mem)
        moreover have "(length ?g + 4 - i) mod 4 \<noteq> 0" using i j by simp
        ultimately show ?thesis using t(3) j by (auto simp: nth_append)
      qed simp
    qed
    then show ?thesis unfolding e using t(4) IH by simp
  qed
qed

text \<open>
  C40. The pounds formatter prints exactly the safe non-negative integers. Its text is a whole part
  whose commas stand at every fourth place from the right and nowhere else, a point and two digits;
  without the commas the parser reads it back as the same number of pence, nothing rounded, if that
  is within the application limit, and refuses it as too large otherwise.
\<close>

theorem format_parse_pounds:
  "((\<exists>t. formatRecoveryMessagePounds n = Some t) \<longleftrightarrow> (\<exists>p. n = JInt p \<and> 0 \<le> p \<and> p \<le> 2 ^ 53 - 1)) \<and>
   (\<forall>p t. formatRecoveryMessagePounds (JInt p) = Some t \<longrightarrow>
      (\<exists>w f. t = w @ ''.'' @ f \<and> length f = 2 \<and> list_all is_digit f \<and> w \<noteq> [] \<and> hd w \<noteq> CHR '','' \<and>
         (\<forall>i<length w. w ! i = CHR '','' \<longleftrightarrow> (length w - i) mod 4 = 0)) \<and>
      parsePoundsToPence (filter (\<lambda>c. c \<noteq> CHR '','') t) = (if p \<le> MAX_MONEY_PENCE then Inr p else Inl Magnitude_exceeded))"
proof (intro conjI allI impI)
  show "(\<exists>t. formatRecoveryMessagePounds n = Some t) \<longleftrightarrow> (\<exists>p. n = JInt p \<and> 0 \<le> p \<and> p \<le> 2 ^ 53 - 1)"
    by (cases n) (auto simp: formatRecoveryMessagePounds_def is_safe_integer_def)
next
  fix p t assume fmt: "formatRecoveryMessagePounds (JInt p) = Some t"
  let ?w = "nat_text (nat p div 100)" and ?f = "pad_start 2 (nat_text (nat p mod 100))"
  from fmt have p: "0 \<le> p" and t: "t = group_thousands ?w @ ''.'' @ ?f"
    by (auto simp: formatRecoveryMessagePounds_def split: if_splits)
  have f: "length ?f = 2" "digits_val ?f = int (nat p mod 100)" "list_all is_digit ?f"
    by (simp_all add: pad_start_2)
  have w: "list_all is_digit ?w" by (rule digits_nat_text)
  have nc: "CHR '','' \<notin> set ?w" "\<forall>c\<in>set ?f. c \<noteq> CHR '',''"
    using w f(3) by (auto simp: list_all_iff dest: digit_not_punctuation)
  have strip: "filter (\<lambda>c. c \<noteq> CHR '','') t = ?w @ CHR ''.'' # ?f"
    using nc by (simp add: t remove_commas_group filter_id_conv)
  have "?f \<noteq> []" using f(1) by auto
  then have "parsePoundsToPence (?w @ CHR ''.'' # ?f) =
      (let q = digits_val (?w @ ?f) in if q > MAX_MONEY_PENCE then Inl Magnitude_exceeded
        else bind_r (money_of (JInt q)) (\<lambda>m. Inr (pence m)))"
    using w f by (simp add: parsePoundsToPence_def takeWhile_dot canonical_whole_nat_text pad_end_def)
  moreover have "digits_val (?w @ ?f) = p"
    using p f by (simp add: digits_val_append_two digits_val_nat_text)
      (metis int_nat_eq mult_div_mod_eq of_nat_div of_nat_mod of_nat_numeral)
  ultimately have "parsePoundsToPence (?w @ CHR ''.'' # ?f) = (if p \<le> MAX_MONEY_PENCE then Inr p else Inl Magnitude_exceeded)"
    using p by (simp add: money_of_JInt)
  with strip show "parsePoundsToPence (filter (\<lambda>c. c \<noteq> CHR '','') t) = (if p \<le> MAX_MONEY_PENCE then Inr p else Inl Magnitude_exceeded)"
    by simp
  show "\<exists>w f. t = w @ ''.'' @ f \<and> length f = 2 \<and> list_all is_digit f \<and> w \<noteq> [] \<and> hd w \<noteq> CHR '','' \<and>
         (\<forall>i<length w. w ! i = CHR '','' \<longleftrightarrow> (length w - i) mod 4 = 0)"
    using f(1,3) group_thousands_places [OF nc(1) nat_text_neq_Nil]
    by (intro exI [of _ "group_thousands ?w"] exI [of _ ?f]) (simp add: t)
qed

theorem format_parse_pounds_witness:
  "\<exists>t. formatRecoveryMessagePounds (JInt 123456705) = Some t \<and>
    parsePoundsToPence (filter (\<lambda>c. c \<noteq> CHR '','') t) = Inr 123456705"
proof -
  obtain t where t: "formatRecoveryMessagePounds (JInt 123456705) = Some t"
    using format_parse_pounds [of "JInt 123456705"] by auto
  from format_parse_pounds [THEN conjunct2, rule_format, OF t] t show ?thesis by (simp add: MAX_MONEY_PENCE_def)
qed

text \<open>
  The invoice balance conserves money: on non-negative totals, credits and receipts it fails
  exactly when the credit exceeds the total or the reversals exceed the receipts; otherwise credit,
  allocation and balance add up to the total, allocation and unapplied credit add up to the net
  cash, an unpaid balance and unapplied cash never coexist, and the status says so.
\<close>

lemma projectInvoiceBalance_conserves:
  assumes "0 \<le> t" "t \<le> MAX_MONEY_PENCE" "0 \<le> c" "c \<le> MAX_MONEY_PENCE"
    "0 \<le> r" "r \<le> MAX_MONEY_PENCE" "0 \<le> v" "v \<le> MAX_MONEY_PENCE"
  shows "if c > t \<or> v > r
    then projectInvoiceBalance t (Some c) (Some r) (Some v) = Inl Invalid_customer_balance_history
    else \<exists>b. projectInvoiceBalance t (Some c) (Some r) (Some v) = Inr b \<and>
      c + pence (ib_allocated b) + pence (ib_balance b) = t \<and>
      pence (ib_allocated b) + pence (ib_unappliedCredit b) = r - v \<and>
      pence (ib_received b) = r - v \<and>
      0 \<le> pence (ib_allocated b) \<and> 0 \<le> pence (ib_balance b) \<and> 0 \<le> pence (ib_unappliedCredit b) \<and>
      (pence (ib_balance b) = 0 \<or> pence (ib_unappliedCredit b) = 0) \<and>
      (ib_status b = Credited \<longleftrightarrow> c = t) \<and>
      (ib_status b = Paid \<longleftrightarrow> c < t \<and> t - c \<le> r - v) \<and>
      (ib_status b = Partial \<longleftrightarrow> c < t \<and> 0 < r - v \<and> r - v < t - c)"
  using assms
  by (auto simp: projectInvoiceBalance_def money_b_def money_of_JInt subtractMoney_ok moneyFromBigInt_eq)

lemma projectInvoiceBalance_conserves_witness:
  "\<exists>b. projectInvoiceBalance 1000 (Some 100) (Some 700) (Some 50) = Inr b \<and>
     pence (ib_balance b) = 250 \<and> ib_status b = Partial"
proof -
  obtain b where "projectInvoiceBalance 1000 (Some 100) (Some 700) (Some 50) = Inr b"
    "100 + pence (ib_allocated b) + pence (ib_balance b) = 1000"
    "pence (ib_allocated b) + pence (ib_unappliedCredit b) = 650"
    "pence (ib_balance b) = 0 \<or> pence (ib_unappliedCredit b) = 0"
    "0 \<le> pence (ib_balance b)" "0 \<le> pence (ib_unappliedCredit b)" "ib_status b = Partial"
  proof -
    have "0 \<le> (n :: int) \<and> n \<le> MAX_MONEY_PENCE" if "n \<in> {1000, 100, 700, 50}" for n using that by (auto simp: MAX_MONEY_PENCE_def)
    then have "\<exists>b. projectInvoiceBalance 1000 (Some 100) (Some 700) (Some 50) = Inr b \<and>
      100 + pence (ib_allocated b) + pence (ib_balance b) = 1000 \<and> pence (ib_allocated b) + pence (ib_unappliedCredit b) = 650 \<and>
      (pence (ib_balance b) = 0 \<or> pence (ib_unappliedCredit b) = 0) \<and> 0 \<le> pence (ib_balance b) \<and>
      0 \<le> pence (ib_unappliedCredit b) \<and> ib_status b = Partial"
      using projectInvoiceBalance_conserves [of 1000 100 700 50] by simp blast
    with that show ?thesis by (elim exE conjE)
  qed
  then show ?thesis by auto
qed

end
