(* ===== verification/Allocation.thy ===== *)
theory Allocation
  imports Money
begin

text \<open>
  Models of \<^verbatim>\<open>allocation.ts\<close> (largest-remainder split of an amount of money),
  \<^verbatim>\<open>quantity.ts\<close>, \<^verbatim>\<open>fee.ts\<close> and \<^verbatim>\<open>tax.ts\<close>. The order
  \<^verbatim>\<open>localeCompare\<close> puts on identifiers depends on the host's locale, so it is a
  parameter (\<open>before\<close>) of the allocation; no property below depends on it.
\<close>

section \<open>Errors shared by the money policies\<close>

datatype policy_error = Range range_error | Money_limit money_error

definition big_money :: "int \<Rightarrow> policy_error + money" where
  "big_money i = map_err Money_limit (moneyFromBigInt i)"

definition ratio :: "int \<Rightarrow> int \<Rightarrow> int \<Rightarrow> rounding_mode \<Rightarrow> policy_error + int" where
  "ratio v n d mode = map_err Range (multiplyRatio v n d mode)"

lemma big_money_eq: "big_money i = (if \<bar>i\<bar> \<le> MAX_MONEY_PENCE then Inr (gbp i) else Inl (Money_limit Overflow))"
  by (simp add: big_money_def moneyFromBigInt_eq)

lemma big_money_Inr_iff [result_simps]: "big_money i = Inr m \<longleftrightarrow> \<bar>i\<bar> \<le> MAX_MONEY_PENCE \<and> m = gbp i"
  by (auto simp: big_money_eq)

lemma ratio_pos [simp]: "0 < d \<Longrightarrow> ratio v n d mode = Inr (round_div mode (v * n) d)"
  by (simp add: ratio_def multiplyRatio_pos)

section \<open>allocateMoney\<close>

record weight =
  w_id :: string
  w_weight :: int

record alloc_row =
  r_id :: string
  r_weight :: int
  r_allocated :: int
  r_remainder :: int

definition alloc_rows :: "int \<Rightarrow> int \<Rightarrow> weight list \<Rightarrow> alloc_row list" where
  "alloc_rows absolute weightTotal weights = map (\<lambda>w.
     let product = absolute * w_weight w
     in \<lparr>r_id = w_id w, r_weight = w_weight w, r_allocated = product div weightTotal,
         r_remainder = product mod weightTotal\<rparr>) weights"

definition ranked_before :: "(string \<Rightarrow> string \<Rightarrow> bool) \<Rightarrow> alloc_row \<Rightarrow> alloc_row \<Rightarrow> bool" where
  "ranked_before before a b =
     (if r_remainder a = r_remainder b then before (r_id a) (r_id b) else r_remainder a > r_remainder b)"

text \<open>
  The loop that hands out the left-over pennies. The ranked array holds the same row objects as
  \<open>rows\<close>, so the increment is seen there; rows are identified by their (unique) id.
\<close>

fun hand_out :: "alloc_row list \<Rightarrow> int \<Rightarrow> alloc_row list \<Rightarrow> alloc_row list" where
  "hand_out [] penniesLeft rows = rows"
| "hand_out (row # ranked) penniesLeft rows =
     (if penniesLeft = 0 then rows
      else hand_out ranked (penniesLeft - 1)
        (map (\<lambda>r. if r_id r = r_id row then r\<lparr>r_allocated := r_allocated r + 1\<rparr> else r) rows))"

definition allocateMoney ::
    "(string \<Rightarrow> string \<Rightarrow> bool) \<Rightarrow> money \<Rightarrow> weight list \<Rightarrow> policy_error + (string \<times> money) list" where
  "allocateMoney before amount weights =
     (if weights = [] then
        (if pence amount \<noteq> 0 then Inl (Range Allocation_targets_needed) else Inr [])
      else if \<not> distinct (map w_id weights) \<or> list_ex (\<lambda>w. w_weight w < 0) weights
        then Inl (Range Allocation_ids_or_weights)
      else let weightTotal = sum_list (map w_weight weights) in
        if weightTotal = 0 then Inl (Range Allocation_weight_total)
        else
          let sign = (if pence amount < 0 then - 1 else 1);
              absolute = \<bar>pence amount\<bar>;
              rows = alloc_rows absolute weightTotal weights;
              penniesLeft = absolute - sum_list (map r_allocated rows);
              ranked = sort_by (ranked_before before) rows
          in map_r (\<lambda>row. bind_r (if r_allocated row = 0 then map_err Money_limit (money_of (JInt 0))
                                  else big_money (sign * r_allocated row))
                       (\<lambda>m. Inr (r_id row, m))) (hand_out ranked penniesLeft rows))"

section \<open>quantity.ts\<close>

record quantity =
  q_scaled :: int
  q_scale :: int
  q_decimal :: string

definition parseQuantity :: "string \<Rightarrow> bool \<Rightarrow> policy_error + quantity" where
  "parseQuantity input adjustment =
     (let negative = (case input of c # _ \<Rightarrow> c = CHR ''-'' | [] \<Rightarrow> False);
          body = (if negative then tl input else input);
          whole = takeWhile (\<lambda>c. c \<noteq> CHR ''.'') body;
          rest = dropWhile (\<lambda>c. c \<noteq> CHR ''.'') body;
          fraction = (case rest of [] \<Rightarrow> [] | _ # f \<Rightarrow> f)
      in if \<not> (canonical_whole whole \<and>
               (rest = [] \<or> (fraction \<noteq> [] \<and> length fraction \<le> 6 \<and> list_all is_digit fraction)))
         then Inl (Range Quantity_not_canonical)
         else if negative \<and> \<not> adjustment then Inl (Range Negative_quantity)
         else let scale = 10 ^ length fraction;
                  scaled = digits_val whole * scale + digits_val fraction
              in Inr \<lparr>q_scaled = (if negative then - scaled else scaled), q_scale = scale, q_decimal = input\<rparr>)"

definition calculateNetLine :: "quantity \<Rightarrow> money \<Rightarrow> int \<times> int \<Rightarrow> policy_error + money" where
  "calculateNetLine q unitRate discount =
     (let (num, den) = discount in
      if den \<le> 0 \<or> num < 0 \<or> num > den then Inl (Range Discount_range)
      else bind_r (map_err Range (multiplyRatios (pence unitRate)
                 [(q_scaled q, q_scale q), (den - num, den)] Half_even)) big_money)"

section \<open>fee.ts and tax.ts\<close>

definition BASE_PLAN_PRINCIPAL :: int where
  "BASE_PLAN_PRINCIPAL = 7900"

record fee_calculation =
  fc_cap :: money
  fc_cappedFee :: money
  fc_creditUsed :: money
  fc_additionalLiability :: money
  fc_postingDelta :: money

definition calculateReferenceFee ::
    "money \<Rightarrow> money \<Rightarrow> money \<Rightarrow> money \<Rightarrow> policy_error + fee_calculation" where
  "calculateReferenceFee acceptedNet cumulativeEligibleLanded settledPlanPrincipal priorPosted =
     (let accepted = pence acceptedNet; landed = pence cumulativeEligibleLanded;
          settled = pence settledPlanPrincipal in
      if accepted < 0 \<or> landed < 0 \<or> settled < 0 then Inl (Range Fee_inputs_negative) else
      bind_r (ratio accepted 15 1000 Half_even) (\<lambda>cap.
      bind_r (ratio landed 1 10 Half_even) (\<lambda>uncappedFee.
      let cappedFee = (if uncappedFee < cap then uncappedFee else cap);
          eligibleSettlement = (if settled < BASE_PLAN_PRINCIPAL then settled else BASE_PLAN_PRINCIPAL);
          creditUsed = (if eligibleSettlement < cappedFee then eligibleSettlement else cappedFee);
          additionalLiability = cappedFee - creditUsed;
          postingDelta = additionalLiability - pence priorPosted in
      bind_r (big_money cap) (\<lambda>c. bind_r (big_money cappedFee) (\<lambda>f.
      bind_r (big_money creditUsed) (\<lambda>u. bind_r (big_money additionalLiability) (\<lambda>l.
      bind_r (big_money postingDelta) (\<lambda>d.
        Inr \<lparr>fc_cap = c, fc_cappedFee = f, fc_creditUsed = u, fc_additionalLiability = l,
             fc_postingDelta = d\<rparr>))))))))"

definition calculateGroup :: "money \<Rightarrow> string \<Rightarrow> policy_error + money" where
  "calculateGroup net treatment =
     (if treatment \<noteq> ''standard_rate_20'' then Inl (Range Unsupported_tax_treatment)
      else bind_r (ratio (pence net) 1 5 Half_up) big_money)"

definition allocateGroupTax ::
    "(string \<Rightarrow> string \<Rightarrow> bool) \<Rightarrow> money \<Rightarrow> (string \<times> money) list \<Rightarrow> policy_error + (string \<times> money) list" where
  "allocateGroupTax before groupTax lineNets =
     allocateMoney before groupTax (map (\<lambda>(i, net). \<lparr>w_id = i, w_weight = \<bar>pence net\<bar>\<rparr>) lineNets)"

section \<open>Lemmas on the allocation\<close>

lemma map_r_id_alloc_rows [simp]: "map r_id (alloc_rows a t ws) = map w_id ws"
  by (simp add: alloc_rows_def comp_def Let_def)

lemma map_r_id_hand_out [simp]: "map r_id (hand_out ranked n rows) = map r_id rows"
proof (induction ranked n rows rule: hand_out.induct)
  case (2 row ranked n rows)
  then show ?case by (simp add: comp_def if_distrib cong: if_cong)
qed simp

lemma sum_bump_one:
  assumes "distinct (map r_id rows)" and "i \<in> r_id ` set rows"
  shows "sum_list (map r_allocated
    (map (\<lambda>r. if r_id r = i then r\<lparr>r_allocated := r_allocated r + 1\<rparr> else r) rows))
    = sum_list (map r_allocated rows) + 1"
  using assms
proof (induction rows)
  case (Cons a rows)
  show ?case
  proof (cases "r_id a = i")
    case True
    with Cons have "i \<notin> r_id ` set rows" by auto
    then have "map (\<lambda>r. if r_id r = i then r\<lparr>r_allocated := r_allocated r + 1\<rparr> else r) rows = rows"
      by (auto intro!: map_idI)
    with True show ?thesis by simp
  next
    case False
    with Cons show ?thesis by auto
  qed
qed simp

lemma bump_ids: "map r_id (map (\<lambda>r. if r_id r = i then r\<lparr>r_allocated := r_allocated r + 1\<rparr> else r) rows)
    = map r_id rows"
  by (induction rows) auto

lemma sum_hand_out:
  "distinct (map r_id rows) \<Longrightarrow> r_id ` set ranked \<subseteq> r_id ` set rows \<Longrightarrow>
   0 \<le> n \<Longrightarrow> n \<le> int (length ranked) \<Longrightarrow>
   sum_list (map r_allocated (hand_out ranked n rows)) = sum_list (map r_allocated rows) + n"
proof (induction ranked n rows rule: hand_out.induct)
  case (2 row ranked n rows)
  show ?case
  proof (cases "n = 0")
    case False
    let ?rows = "map (\<lambda>r. if r_id r = r_id row then r\<lparr>r_allocated := r_allocated r + 1\<rparr> else r) rows"
    have ids: "map r_id ?rows = map r_id rows" by (rule bump_ids)
    then have "distinct (map r_id ?rows)" "r_id ` set ?rows = r_id ` set rows"
      using 2(2) by (simp only:, metis list.set_map)
    with 2 False have "sum_list (map r_allocated (hand_out ranked (n - 1) ?rows)) =
        sum_list (map r_allocated ?rows) + (n - 1)" by auto
    moreover have "sum_list (map r_allocated ?rows) = sum_list (map r_allocated rows) + 1"
      using 2(2,3) by (intro sum_bump_one) auto
    ultimately show ?thesis using False by simp
  qed simp
qed simp

text \<open>Each row gains at most one penny: the ranked rows have distinct ids.\<close>

lemma hand_out_row:
  "distinct (map r_id ranked) \<Longrightarrow> r \<in> set (hand_out ranked n rows) \<Longrightarrow>
   \<exists>s\<in>set rows. r_id r = r_id s \<and> r_weight r = r_weight s \<and> r_remainder r = r_remainder s \<and>
     (r_allocated r = r_allocated s \<or>
      r_allocated r = r_allocated s + 1 \<and> r_id s \<in> r_id ` set ranked)"
proof (induction ranked n rows rule: hand_out.induct)
  case (2 row ranked n rows)
  show ?case
  proof (cases "n = 0")
    case True
    with 2 show ?thesis by auto
  next
    case False
    with 2 obtain s where s: "s \<in> set (map (\<lambda>r. if r_id r = r_id row then r\<lparr>r_allocated := r_allocated r + 1\<rparr> else r) rows)"
      "r_id r = r_id s" "r_weight r = r_weight s" "r_remainder r = r_remainder s"
      "r_allocated r = r_allocated s \<or> r_allocated r = r_allocated s + 1 \<and> r_id s \<in> r_id ` set ranked"
      by auto
    then obtain u where u: "u \<in> set rows"
      "s = (if r_id u = r_id row then u\<lparr>r_allocated := r_allocated u + 1\<rparr> else u)" by auto
    have "r_id row \<notin> r_id ` set ranked" using 2(2) by auto
    with s u show ?thesis by (intro bexI [of _ u]) (auto split: if_splits)
  qed
qed auto

lemma sum_div_mod:
  "sum_list (map (\<lambda>x. f x div t) xs) * t + sum_list (map (\<lambda>x. f x mod t) xs) = (sum_list (map f xs) :: int)"
  by (induction xs) (auto simp: algebra_simps)

lemma sum_list_const_mult_int: "sum_list (map (\<lambda>x. (a::int) * f x) xs) = a * sum_list (map f xs)"
  by (induction xs) (auto simp: algebra_simps)

lemma sum_mod_less:
  "0 < (t::int) \<Longrightarrow> sum_list (map (\<lambda>x. f x mod t) xs) \<le> int (length xs) * (t - 1)"
proof (induction xs)
  case (Cons x xs)
  then have "f x mod t \<le> t - 1" by simp
  with Cons show ?case by (simp add: algebra_simps)
qed simp

lemma sum_mod_nonneg: "0 < (t::int) \<Longrightarrow> 0 \<le> sum_list (map (\<lambda>x. f x mod t) xs)"
  by (rule sum_list_nonneg_int) simp

text \<open>The pennies left over fit the number of rows, so the loop hands all of them out.\<close>

lemma pennies_left_bounds:
  fixes a :: int
  assumes t: "t = sum_list (map w_weight ws)" and "0 < t"
  defines "left \<equiv> a - sum_list (map r_allocated (alloc_rows a t ws))"
  shows "0 \<le> left" and "left \<le> int (length ws)"
proof -
  let ?r = "sum_list (map (\<lambda>w. (a * w_weight w) mod t) ws)"
  have s: "sum_list (map r_allocated (alloc_rows a t ws)) = sum_list (map (\<lambda>w. (a * w_weight w) div t) ws)"
    by (simp add: alloc_rows_def comp_def Let_def)
  have "sum_list (map (\<lambda>w. a * w_weight w) ws) = a * t" by (simp add: t sum_list_const_mult_int)
  then have "left * t = ?r"
    using sum_div_mod [of "\<lambda>w. a * w_weight w" t ws] by (simp add: left_def s left_diff_distrib)
  moreover have "0 \<le> ?r" using \<open>0 < t\<close> by (rule sum_mod_nonneg)
  moreover have "?r \<le> int (length ws) * (t - 1)" using \<open>0 < t\<close> by (rule sum_mod_less)
  ultimately have l: "0 \<le> left * t" "left * t \<le> int (length ws) * t" using \<open>0 < t\<close> by (auto simp: algebra_simps)
  from l(1) \<open>0 < t\<close> show "0 \<le> left" by (simp add: zero_le_mult_iff)
  from l(2) \<open>0 < t\<close> show "left \<le> int (length ws)" by simp
qed

lemma alloc_rows_member:
  "s \<in> set (alloc_rows a t ws) \<Longrightarrow> \<exists>w\<in>set ws. r_id s = w_id w \<and>
     r_allocated s = (a * w_weight w) div t \<and> r_remainder s = (a * w_weight w) mod t"
  by (auto simp: alloc_rows_def Let_def)

lemma div_within_one:
  assumes "0 < (t::int)" and "q = x div t \<or> q = x div t + 1"
  shows "\<bar>q * t - x\<bar> \<le> t"
proof -
  define d m where "d = x div t" and "m = x mod t"
  have "x = t * d + m" "0 \<le> m" "m < t" using assms(1) by (simp_all add: d_def m_def)
  then show ?thesis using assms(2) by (auto simp: d_def [symmetric] algebra_simps abs_le_iff)
qed

text \<open>The rows after the loop, as one statement the theorem reads off.\<close>

lemma final_rows:
  fixes a :: int and lt :: "alloc_row \<Rightarrow> alloc_row \<Rightarrow> bool"
  assumes t: "t = sum_list (map w_weight ws)" "0 < t" and d: "distinct (map w_id ws)"
    and w: "\<forall>w\<in>set ws. 0 \<le> w_weight w" and a: "0 \<le> a"
  defines "rows \<equiv> alloc_rows a t ws"
  defines "final \<equiv> hand_out (sort_by lt rows) (a - sum_list (map r_allocated rows)) rows"
  shows "map r_id final = map w_id ws" and "sum_list (map r_allocated final) = a"
    and "r \<in> set final \<Longrightarrow> 0 \<le> r_allocated r \<and> r_allocated r \<le> a \<and>
      (\<exists>w\<in>set ws. w_id w = r_id r \<and> \<bar>r_allocated r * t - a * w_weight w\<bar> \<le> t)"
proof -
  have ids: "map r_id rows = map w_id ws" by (simp add: rows_def)
  show "map r_id final = map w_id ws" by (simp add: final_def ids)
  have len: "length (sort_by lt rows) = length ws" by (metis ids length_map length_sort_by)
  show sum: "sum_list (map r_allocated final) = a"
    unfolding final_def using pennies_left_bounds [OF t, of a] d ids len
    by (subst sum_hand_out) (auto simp: rows_def [symmetric])
  have nonneg: "0 \<le> r_allocated s" if "s \<in> set final" for s
  proof -
    from that hand_out_row [of "sort_by lt rows" s "a - sum_list (map r_allocated rows)" rows] d ids
    obtain u where "u \<in> set rows" "r_allocated s = r_allocated u \<or> r_allocated s = r_allocated u + 1"
      by (auto simp: final_def)
    moreover from this(1) have "0 \<le> r_allocated u"
      using alloc_rows_member [of u a t ws] a w t(2) by (auto simp: rows_def pos_imp_zdiv_nonneg_iff)
    ultimately show ?thesis by auto
  qed
  assume r: "r \<in> set final"
  from r have "r_allocated r \<le> a" using member_le_sum_list_int [of r final r_allocated] nonneg sum by auto
  moreover from r hand_out_row [of "sort_by lt rows" r "a - sum_list (map r_allocated rows)" rows] d ids
  obtain u where u: "u \<in> set rows" "r_id r = r_id u"
      "r_allocated r = r_allocated u \<or> r_allocated r = r_allocated u + 1"
    by (auto simp: final_def)
  then obtain v where "v \<in> set ws" "r_id u = w_id v" "r_allocated u = (a * w_weight v) div t"
    using alloc_rows_member [of u a t ws] by (auto simp: rows_def)
  with u div_within_one [OF t(2), of "r_allocated r" "a * w_weight v"]
  have "\<exists>w\<in>set ws. w_id w = r_id r \<and> \<bar>r_allocated r * t - a * w_weight w\<bar> \<le> t"
    by (intro bexI [of _ v]) auto
  ultimately show "0 \<le> r_allocated r \<and> r_allocated r \<le> a \<and>
      (\<exists>w\<in>set ws. w_id w = r_id r \<and> \<bar>r_allocated r * t - a * w_weight w\<bar> \<le> t)"
    using nonneg [OF r] by blast
qed

lemma map_r_pure: "\<forall>x\<in>set xs. f x = Inr (g x) \<Longrightarrow> map_r f xs = Inr (map g xs)"
  by (induction xs) auto

section \<open>The shares\<close>

lemma allocateMoney_shares:
  assumes "money_ok amount" and "distinct (map w_id ws)" and "\<forall>w\<in>set ws. 0 \<le> w_weight w"
    and pos: "0 < sum_list (map w_weight ws)"
  shows "\<exists>out. allocateMoney before amount ws = Inr out \<and> map fst out = map w_id ws \<and>
     sum_list (map (pence \<circ> snd) out) = pence amount \<and>
     (\<forall>(i, m)\<in>set out. money_ok m \<and> 0 \<le> pence m * pence amount \<and>
        (\<exists>w\<in>set ws. w_id w = i \<and>
          \<bar>pence m * sum_list (map w_weight ws) - pence amount * w_weight w\<bar> \<le> sum_list (map w_weight ws)))"
proof -
  let ?t = "sum_list (map w_weight ws)" and ?a = "\<bar>pence amount\<bar>"
  let ?s = "if pence amount < 0 then - 1 else (1::int)"
  let ?rows = "alloc_rows ?a ?t ws"
  let ?final = "hand_out (sort_by (ranked_before before) ?rows) (?a - sum_list (map r_allocated ?rows)) ?rows"
  let ?g = "\<lambda>row. (r_id row, gbp (?s * r_allocated row))"
  note final = final_rows [OF refl pos assms(2,3) abs_ge_zero, where lt = "ranked_before before"]
  have ne: "ws \<noteq> []" using pos by auto
  have a: "?a \<le> MAX_MONEY_PENCE" using assms(1) by (simp add: money_ok_def)
  have bound: "\<bar>?s * r_allocated r\<bar> \<le> MAX_MONEY_PENCE" if "r \<in> set ?final" for r
    using final(3) [OF that] a by auto
  have out: "allocateMoney before amount ws = Inr (map ?g ?final)"
    unfolding allocateMoney_def Let_def using ne assms(2,3) pos bound
    by (auto simp: list_ex_iff intro!: map_r_pure)
      (auto simp: big_money_eq money_of_JInt MAX_MONEY_PENCE_def not_less [symmetric])
  have sum: "sum_list (map (pence \<circ> snd) (map ?g ?final)) = pence amount"
    using final(2) by (simp add: comp_def sum_list_const_mult_int)
  have each: "money_ok (gbp (?s * r_allocated r)) \<and> 0 \<le> ?s * r_allocated r * pence amount \<and>
      (\<exists>w\<in>set ws. w_id w = r_id r \<and> \<bar>?s * r_allocated r * ?t - pence amount * w_weight w\<bar> \<le> ?t)"
    if r: "r \<in> set ?final" for r
  proof -
    from final(3) [OF r] obtain w where w: "w \<in> set ws" "w_id w = r_id r" "0 \<le> r_allocated r"
      "\<bar>r_allocated r * ?t - ?a * w_weight w\<bar> \<le> ?t" by blast
    have "\<bar>?s * r_allocated r * ?t - pence amount * w_weight w\<bar> = \<bar>r_allocated r * ?t - ?a * w_weight w\<bar>"
      by (auto simp: abs_minus_commute algebra_simps)
    with w bound [OF r] show ?thesis by (auto simp: mult_nonneg_nonpos)
  qed
  show ?thesis
  proof (intro exI conjI)
    show "allocateMoney before amount ws = Inr (map ?g ?final)" by (rule out)
    show "map fst (map ?g ?final) = map w_id ws" using final(1) by (simp add: comp_def)
    show "sum_list (map (pence \<circ> snd) (map ?g ?final)) = pence amount" by (rule sum)
    show "\<forall>(i, m)\<in>set (map ?g ?final). money_ok m \<and> 0 \<le> pence m * pence amount \<and>
        (\<exists>w\<in>set ws. w_id w = i \<and> \<bar>pence m * ?t - pence amount * w_weight w\<bar> \<le> ?t)"
      using each by (auto simp del: money_ok_gbp_iff)
  qed
qed

section \<open>Properties\<close>

text \<open>
  C39. Splitting money loses no penny and is fair to within a penny: for a valid amount and targets
  with distinct ids, non-negative weights and a positive total weight, \<open>allocateMoney\<close> returns one
  share per target in the order given, the shares add up to the amount exactly, none has the
  opposite sign, and each differs from the exact proportional share by at most one penny,
  whatever order the locale puts on ids.
\<close>

theorem allocateMoney_exact:
  assumes "money_ok amount" and "distinct (map w_id ws)" and "\<forall>w\<in>set ws. 0 \<le> w_weight w"
    and pos: "0 < sum_list (map w_weight ws)"
  shows "\<exists>out. allocateMoney before amount ws = Inr out \<and> map fst out = map w_id ws \<and>
     sum_list (map (pence \<circ> snd) out) = pence amount \<and>
     (\<forall>(i, m)\<in>set out. money_ok m \<and> 0 \<le> pence m * pence amount \<and>
        (\<exists>w\<in>set ws. w_id w = i \<and>
          \<bar>pence m * sum_list (map w_weight ws) - pence amount * w_weight w\<bar> \<le> sum_list (map w_weight ws)))"
  by (rule allocateMoney_shares [OF assms])

theorem allocateMoney_exact_witness:
  "\<exists>out. allocateMoney (<) (gbp 100) [\<lparr>w_id = ''a'', w_weight = 1\<rparr>, \<lparr>w_id = ''b'', w_weight = 2\<rparr>] = Inr out \<and>
     sum_list (map (pence \<circ> snd) out) = 100"
  using allocateMoney_exact [of "gbp 100" "[\<lparr>w_id = ''a'', w_weight = 1\<rparr>, \<lparr>w_id = ''b'', w_weight = 2\<rparr>]" "(<)"]
  by (auto simp: MAX_MONEY_PENCE_def)

text \<open>
  The reference recovery fee respects its cap and its credit: with non-negative inputs within
  the money limit the calculation succeeds, the capped fee is at most the cap and at most the
  rounded tenth of what landed, the plan credit used is at most 79 pounds, at most what was settled
  and at most the fee, fee = credit + additional liability, and posting the delta brings the posted
  total to exactly the liability.
\<close>

lemma calculateReferenceFee_bounds:
  assumes "0 \<le> pence a" "0 \<le> pence l" "0 \<le> pence s" "0 \<le> pence p"
    and "money_ok a" "money_ok l" "money_ok s" "money_ok p"
  shows "\<exists>f. calculateReferenceFee a l s p = Inr f \<and>
    \<bar>2 * (15 * pence a - 1000 * pence (fc_cap f))\<bar> \<le> 1000 \<and>
    0 \<le> pence (fc_cappedFee f) \<and> pence (fc_cappedFee f) \<le> pence (fc_cap f) \<and>
    2 * (10 * pence (fc_cappedFee f) - pence l) \<le> 10 \<and> pence (fc_cappedFee f) \<le> pence l \<and>
    0 \<le> pence (fc_creditUsed f) \<and> pence (fc_creditUsed f) \<le> BASE_PLAN_PRINCIPAL \<and>
    pence (fc_creditUsed f) \<le> pence s \<and>
    pence (fc_creditUsed f) + pence (fc_additionalLiability f) = pence (fc_cappedFee f) \<and>
    0 \<le> pence (fc_additionalLiability f) \<and>
    pence p + pence (fc_postingDelta f) = pence (fc_additionalLiability f)"
proof -
  let ?cap = "round_div Half_even (pence a * 15) 1000" and ?fee = "round_div Half_even (pence l) 10"
  have cap: "0 \<le> ?cap \<and> ?cap \<le> pence a" using assms rd.rnd_fraction_bounds [of 1000 15 "pence a" Half_even] by simp
  have fee: "0 \<le> ?fee \<and> ?fee \<le> pence l" using assms rd.rnd_fraction_bounds [of 10 1 "pence l" Half_even] by simp
  have n1: "\<bar>2 * (15 * pence a - 1000 * ?cap)\<bar> \<le> 1000"
    using round_div_nearest [of 1000 "pence a * 15" Half_even] by (simp add: mult.commute)
  have n2: "\<bar>2 * (pence l - 10 * ?fee)\<bar> \<le> 10"
    using round_div_nearest [of 10 "pence l" Half_even] by simp
  have lim: "pence a \<le> MAX_MONEY_PENCE" "pence l \<le> MAX_MONEY_PENCE" "pence p \<le> MAX_MONEY_PENCE"
    using assms by (auto simp: money_ok_def)
  define capped where "capped = min ?fee ?cap"
  define credit where "credit = min (min (pence s) BASE_PLAN_PRINCIPAL) capped"
  have b: "0 \<le> capped" "capped \<le> ?cap" "capped \<le> ?fee" "0 \<le> credit" "credit \<le> capped"
      "credit \<le> pence s" "credit \<le> BASE_PLAN_PRINCIPAL"
    using assms cap fee by (auto simp: capped_def credit_def BASE_PLAN_PRINCIPAL_def)
  have min_if: "(if x < y then x else y) = min x y" for x y :: int by auto
  have ratios: "ratio (pence a) 15 1000 Half_even = Inr ?cap" "ratio (pence l) 1 10 Half_even = Inr ?fee"
    by simp_all
  have "calculateReferenceFee a l s p = Inr \<lparr>fc_cap = gbp ?cap, fc_cappedFee = gbp capped,
      fc_creditUsed = gbp credit, fc_additionalLiability = gbp (capped - credit),
      fc_postingDelta = gbp (capped - credit - pence p)\<rparr>"
    unfolding calculateReferenceFee_def Let_def min_if ratios bind_r_simps
      capped_def [symmetric] credit_def [symmetric]
    using assms(1-4) cap fee b lim by (simp add: big_money_eq)
  then show ?thesis using b n1 n2 fee by auto
qed

lemma calculateReferenceFee_bounds_witness:
  "\<exists>f. calculateReferenceFee (gbp 1000000) (gbp 200000) (gbp 7900) (gbp 0) = Inr f \<and>
     pence (fc_cappedFee f) \<le> pence (fc_cap f) \<and>
     pence (fc_creditUsed f) + pence (fc_additionalLiability f) = pence (fc_cappedFee f)"
  using calculateReferenceFee_bounds [of "gbp 1000000" "gbp 200000" "gbp 7900" "gbp 0"]
  by (auto simp: MAX_MONEY_PENCE_def)

end
