(* ===== verification/Exact_Pence.thy ===== *)
theory Exact_Pence
  imports Allocation Complex_Main
begin

text \<open>
  Model of \<^verbatim>\<open>packages/core/src/cumulative-fee.ts\<close>: reduced exact fractions of
  pence, their bounded sums and the cumulative fee kernel. A fraction is related to the rational
  number it stands for by \<open>val\<close>; the locale \<open>exact_arithmetic\<close> is what the allocator and the fee
  kernel rely on, and it is interpreted on the code's operations. \<^verbatim>\<open>powerOfTen\<close>'s
  cache is not modelled: it only remembers values of \<open>10 ^ digits\<close>.
\<close>

datatype shared_error =
    INVALID_SHARED_MONEY
  | POLICY_VERSION_MISMATCH
  | COMPENSATION_LINK_REQUIRED
  | INVALID_ALLOCATION
  | Shared_range range_error
  | Shared_money money_error

record exact_pence =
  numerator :: int
  denominator :: int

record exact_text =
  numerator_text :: string
  denominator_text :: string

definition MAX_ALLOCATION_LINES :: nat where "MAX_ALLOCATION_LINES = 10000"
definition MAX_EXACT_PENCE_INPUT_DIGITS :: nat where "MAX_EXACT_PENCE_INPUT_DIGITS = 100"
definition MONEY_DIGITS :: nat where "MONEY_DIGITS = length (nat_text (nat MAX_MONEY_PENCE))"
definition MAX_ALLOCATION_WORKING_DIGITS :: nat where
  "MAX_ALLOCATION_WORKING_DIGITS = MAX_ALLOCATION_LINES * MONEY_DIGITS"
definition MAX_EXACT_PENCE_DIGITS :: nat where
  "MAX_EXACT_PENCE_DIGITS = MAX_ALLOCATION_LINES * MONEY_DIGITS + MAX_ALLOCATION_WORKING_DIGITS +
     2 * MAX_EXACT_PENCE_INPUT_DIGITS + MONEY_DIGITS"

section \<open>Integer text\<close>

definition positive_text :: "string \<Rightarrow> bool" where
  "positive_text s \<longleftrightarrow> s \<noteq> [] \<and> hd s \<noteq> CHR ''0'' \<and> list_all is_digit s"

definition integer_text :: "string \<Rightarrow> bool" where
  "integer_text s \<longleftrightarrow> (case s of c # r \<Rightarrow> (if c = CHR ''-'' then canonical_whole r else canonical_whole s) | [] \<Rightarrow> False)"

definition int_of_text :: "string \<Rightarrow> int" where
  "int_of_text s = (case s of c # r \<Rightarrow> (if c = CHR ''-'' then - digits_val r else digits_val s) | [] \<Rightarrow> 0)"

definition int_text :: "int \<Rightarrow> string" where
  "int_text i = (if i < 0 then CHR ''-'' # nat_text (nat (- i)) else nat_text (nat i))"

definition integerOf :: "nat \<Rightarrow> string \<Rightarrow> bool" where
  "integerOf limit s \<longleftrightarrow> integer_text s \<and> length s \<le> limit"

definition positiveOf :: "nat \<Rightarrow> string \<Rightarrow> bool" where
  "positiveOf limit s \<longleftrightarrow> positive_text s \<and> length s \<le> limit"

definition exact_text_ok :: "nat \<Rightarrow> exact_text \<Rightarrow> bool" where
  "exact_text_ok limit t \<longleftrightarrow> integerOf limit (numerator_text t) \<and> positiveOf limit (denominator_text t)"

definition exactPenceV1 :: "exact_text \<Rightarrow> bool" where
  "exactPenceV1 = exact_text_ok MAX_EXACT_PENCE_DIGITS"

definition exactPenceInputV1 :: "exact_text \<Rightarrow> bool" where
  "exactPenceInputV1 = exact_text_ok MAX_EXACT_PENCE_INPUT_DIGITS"

section \<open>Arithmetic\<close>

text \<open>Big-integer remainder has the sign of the dividend.\<close>

definition js_rem :: "int \<Rightarrow> int \<Rightarrow> int" where
  "js_rem a b = (if a < 0 then - (\<bar>a\<bar> mod \<bar>b\<bar>) else \<bar>a\<bar> mod \<bar>b\<bar>)"

function gcd_loop :: "int \<Rightarrow> int \<Rightarrow> int" where
  "gcd_loop a b = (if b \<noteq> 0 then gcd_loop b (js_rem a b) else a)"
  by pat_completeness auto
termination
proof (relation "measure (\<lambda>(a, b). nat \<bar>b\<bar>)")
  fix a b :: int assume "b \<noteq> 0"
  then have "\<bar>a\<bar> mod \<bar>b\<bar> < \<bar>b\<bar>" "0 \<le> \<bar>a\<bar> mod \<bar>b\<bar>" by simp_all
  then show "((b, js_rem a b), (a, b)) \<in> measure (\<lambda>(a, b). nat \<bar>b\<bar>)" by (simp add: js_rem_def)
qed simp

declare gcd_loop.simps [simp del]

definition gcd_big :: "int \<Rightarrow> int \<Rightarrow> int" where
  "gcd_big a b = gcd_loop (if a < 0 then - a else a) b"

text \<open>Big-integer division truncates; every division of this module is exact.\<close>

definition js_div :: "int \<Rightarrow> int \<Rightarrow> int" where
  "js_div a b = sgn a * sgn b * (\<bar>a\<bar> div \<bar>b\<bar>)"

definition exactPence :: "int \<Rightarrow> int \<Rightarrow> shared_error + exact_pence" where
  "exactPence n d =
     (if d \<le> 0 then Inl INVALID_SHARED_MONEY
      else let divisor = gcd_big n d
           in Inr \<lparr>numerator = js_div n divisor, denominator = js_div d divisor\<rparr>)"

definition addExactPence :: "exact_pence \<Rightarrow> exact_pence \<Rightarrow> shared_error + exact_pence" where
  "addExactPence a b =
     (if denominator a \<le> 0 \<or> denominator b \<le> 0 then Inl INVALID_SHARED_MONEY
      else let shared = gcd_big (denominator a) (denominator b);
               left = js_div (denominator a) shared; right = js_div (denominator b) shared;
               n = numerator a * right + numerator b * left;
               common = gcd_big n shared
           in Inr \<lparr>numerator = js_div n common, denominator = left * js_div (denominator b) common\<rparr>)"

definition multiplyExactPence :: "exact_pence \<Rightarrow> exact_pence \<Rightarrow> shared_error + exact_pence" where
  "multiplyExactPence a b = exactPence (numerator a * numerator b) (denominator a * denominator b)"

definition compareExactPence :: "exact_pence \<Rightarrow> exact_pence \<Rightarrow> int" where
  "compareExactPence a b =
     (let difference = numerator a * denominator b - numerator b * denominator a
      in if difference < 0 then - 1 else if difference > 0 then 1 else 0)"

definition parseExactPence :: "(exact_text \<Rightarrow> bool) \<Rightarrow> exact_text \<Rightarrow> shared_error + exact_pence" where
  "parseExactPence schema raw =
     (if \<not> schema raw then Inl INVALID_SHARED_MONEY
      else let v = \<lparr>numerator = int_of_text (numerator_text raw), denominator = int_of_text (denominator_text raw)\<rparr>;
               magnitude = (if numerator v < 0 then - numerator v else numerator v)
           in if magnitude > MAX_MONEY_PENCE * denominator v then Inl INVALID_SHARED_MONEY else Inr v)"

definition serializeExactPence :: "exact_pence \<Rightarrow> exact_text" where
  "serializeExactPence v = \<lparr>numerator_text = int_text (numerator v), denominator_text = int_text (denominator v)\<rparr>"

text \<open>
  \<open>sumExactPence\<close>: group the numerators by denominator (a map in insertion order), take the common
  denominator, add up, and reduce by the least common multiple of the partial divisors.
\<close>

definition by_denominator :: "exact_pence list \<Rightarrow> shared_error + (int \<times> int) list" where
  "by_denominator values = fold_r (\<lambda>m v. if denominator v \<le> 0 then Inl INVALID_SHARED_MONEY
     else Inr (AList.update (denominator v) (get0 m (denominator v) + numerator v) m)) [] values"

definition common_denominator :: "int \<Rightarrow> int list \<Rightarrow> shared_error + int" where
  "common_denominator workingLimit ds = fold_r (\<lambda>common d.
     let c = js_div common (gcd_big common d) * d
     in if c \<ge> workingLimit then Inl INVALID_SHARED_MONEY else Inr c) 1 ds"

definition partial_divisor :: "int \<Rightarrow> int list \<Rightarrow> int" where
  "partial_divisor n ds = fold (\<lambda>d divisor.
     let shared = gcd_big n d in js_div divisor (gcd_big divisor shared) * shared) ds 1"

definition sumExactPence :: "exact_pence list \<Rightarrow> nat \<Rightarrow> nat \<Rightarrow> shared_error + exact_pence" where
  "sumExactPence values maxDigits maxWorkingDigits =
     bind_r (by_denominator values) (\<lambda>byDenominator.
     bind_r (common_denominator (10 ^ maxWorkingDigits) (map fst byDenominator)) (\<lambda>common.
       let n = sum_list (map (\<lambda>(d, s). s * js_div common d) byDenominator);
           divisor = partial_divisor n (map fst byDenominator);
           result = \<lparr>numerator = js_div n divisor, denominator = js_div common divisor\<rparr>
       in if denominator result \<ge> 10 ^ maxDigits \<or>
             (if numerator result < 0 then - numerator result else numerator result) \<ge> 10 ^ maxDigits
          then Inl INVALID_SHARED_MONEY else Inr result))"

text \<open>The call with the default limits.\<close>

definition sumExactPence0 :: "exact_pence list \<Rightarrow> shared_error + exact_pence" where
  "sumExactPence0 values = sumExactPence values MAX_EXACT_PENCE_DIGITS (max MAX_EXACT_PENCE_DIGITS MAX_EXACT_PENCE_DIGITS)"

section \<open>The cumulative fee\<close>

record fee_rate =
  fr_policyVersion :: string
  fr_numerator :: string
  fr_denominator :: string

record cumulative_fee_input =
  cf_rate :: fee_rate
  cf_principal :: exact_text
  cf_priorNetPostedPence :: int
  cf_priorPolicyVersion :: string
  cf_compensatesDerivationId :: "string option"

record cumulative_fee_result =
  cr_policyVersion :: string
  cr_cumulativeFee :: money
  cr_postingDelta :: money
  cr_compensatesDerivationId :: "string option"

definition feeRateV1 :: "fee_rate \<Rightarrow> bool" where
  "feeRateV1 r \<longleftrightarrow> 1 \<le> length (fr_policyVersion r) \<and> length (fr_policyVersion r) \<le> 80 \<and>
     canonical_whole (fr_numerator r) \<and> length (fr_numerator r) \<le> 100 \<and>
     positive_text (fr_denominator r) \<and> length (fr_denominator r) \<le> 100 \<and>
     int_of_text (fr_numerator r) \<le> int_of_text (fr_denominator r)"

definition cumulativeFeeInputV1 :: "cumulative_fee_input \<Rightarrow> bool" where
  "cumulativeFeeInputV1 i \<longleftrightarrow> feeRateV1 (cf_rate i) \<and> exactPenceV1 (cf_principal i) \<and>
     0 \<le> cf_priorNetPostedPence i \<and> cf_priorNetPostedPence i \<le> MAX_MONEY_PENCE \<and>
     1 \<le> length (cf_priorPolicyVersion i) \<and> length (cf_priorPolicyVersion i) \<le> 80"

definition calculateCumulativeFee :: "cumulative_fee_input \<Rightarrow> shared_error + cumulative_fee_result" where
  "calculateCumulativeFee i =
     (if \<not> cumulativeFeeInputV1 i then Inl INVALID_SHARED_MONEY
      else let rate = cf_rate i; rn = int_of_text (fr_numerator rate); rd = int_of_text (fr_denominator rate) in
      if fr_policyVersion rate \<noteq> cf_priorPolicyVersion i then Inl POLICY_VERSION_MISMATCH
      else bind_r (if fr_policyVersion rate = ''reference_fee_policy_v3'' then
              bind_r (exactPence rn rd) (\<lambda>r. bind_r (exactPence 1 10) (\<lambda>tenth.
                if compareExactPence r tenth \<noteq> 0 then Inl INVALID_SHARED_MONEY else Inr ()))
            else Inr ()) (\<lambda>_.
      bind_r (parseExactPence exactPenceV1 (cf_principal i)) (\<lambda>principal.
      if numerator principal < 0 then Inl INVALID_SHARED_MONEY else
      bind_r (map_err Shared_range (divideRounded (numerator principal * rn) (denominator principal * rd) Half_even)) (\<lambda>q.
      bind_r (map_err Shared_money (moneyFromBigInt q)) (\<lambda>cumulativeFee.
      bind_r (map_err Shared_money (money_of (JInt (cf_priorNetPostedPence i)))) (\<lambda>prior.
      bind_r (map_err Shared_money (moneyFromBigInt (pence cumulativeFee - pence prior))) (\<lambda>postingDelta.
      if pence postingDelta < 0 \<and> cf_compensatesDerivationId i = None then Inl COMPENSATION_LINK_REQUIRED
      else Inr \<lparr>cr_policyVersion = fr_policyVersion rate, cr_cumulativeFee = cumulativeFee,
                cr_postingDelta = postingDelta,
                cr_compensatesDerivationId = (if pence postingDelta < 0 then cf_compensatesDerivationId i else None)\<rparr>)))))))"

section \<open>The greatest common divisor\<close>

lemma gcd_gcd_mult_nat: "gcd a b * gcd c (d::nat) = gcd (gcd (a * c) (a * d)) (gcd (b * c) (b * d))"
  by (simp add: gcd_mult_distrib_nat mult.commute gcd.assoc gcd.left_commute)

lemma gcd_lcm_distrib_nat:
  fixes n a b :: nat
  shows "gcd n (lcm a b) = lcm (gcd n a) (gcd n b)"
proof (cases "gcd n (gcd a b) = 0")
  case True
  then show ?thesis by simp
next
  case False
  let ?g = "gcd n (gcd a b)" and ?l = "lcm a b"
  have ab: "?l * gcd a b = a * b" by (metis prod_gcd_lcm_nat mult.commute)
  have 1: "gcd n a * gcd n b dvd a * n" by (metis gcd_dvd1 gcd_dvd2 mult.commute mult_dvd_mono)
  have 2: "gcd n a * gcd n b dvd b * n" by (metis gcd_dvd1 gcd_dvd2 mult.commute mult_dvd_mono)
  have 3: "gcd n a * gcd n b dvd a * b" by (simp add: mult_dvd_mono)
  have "gcd n ?l * ?g = gcd n a * gcd n b"
  proof (rule dvd_antisym)
    show "gcd n ?l * ?g dvd gcd n a * gcd n b"
      unfolding gcd_gcd_mult_nat [of n a n b]
    proof (intro gcd_greatest)
      show "gcd n ?l * ?g dvd n * n" by (intro mult_dvd_mono) simp_all
      show "gcd n ?l * ?g dvd n * b" by (intro mult_dvd_mono) (simp_all add: gcd_dvdI2)
      show "gcd n ?l * ?g dvd a * n" by (subst mult.commute [of a]) (intro mult_dvd_mono, simp_all add: gcd_dvdI2)
      have "gcd n ?l * ?g dvd ?l * gcd a b" by (rule mult_dvd_mono [OF gcd_dvd2 gcd_dvd2])
      then show "gcd n ?l * ?g dvd a * b" by (simp add: ab)
    qed
    show "gcd n a * gcd n b dvd gcd n ?l * ?g"
      unfolding gcd_gcd_mult_nat [of n ?l n "gcd a b"]
    proof (intro gcd_greatest)
      show "gcd n a * gcd n b dvd n * n" by (intro mult_dvd_mono) simp_all
      from 1 2 have "gcd n a * gcd n b dvd gcd (n * a) (n * b)" by (simp add: mult.commute)
      then show "gcd n a * gcd n b dvd n * gcd a b" by (simp add: gcd_mult_distrib_nat)
      show "gcd n a * gcd n b dvd ?l * n" by (rule dvd_trans [OF 1]) simp
      from 3 show "gcd n a * gcd n b dvd ?l * gcd a b" by (simp add: ab)
    qed
  qed
  also have "gcd n a * gcd n b = lcm (gcd n a) (gcd n b) * ?g"
    by (metis prod_gcd_lcm_nat mult.commute gcd.assoc gcd.commute gcd.left_idem)
  finally show ?thesis using False by auto
qed

lemma gcd_lcm_distrib_int: "gcd n (lcm a b) = lcm (gcd n a) (gcd n (b::int))"
  by (simp only: gcd_int_def lcm_int_def abs_of_nat nat_int gcd_lcm_distrib_nat)

lemma gcd_loop_abs: "\<bar>gcd_loop a b\<bar> = gcd a b"
proof (induction a b rule: gcd_loop.induct)
  case (1 a b)
  show ?case
  proof (cases "b = 0")
    case True
    then show ?thesis by (simp add: gcd_loop.simps)
  next
    case False
    have "gcd b (js_rem a b) = gcd \<bar>b\<bar> (\<bar>a\<bar> mod \<bar>b\<bar>)" by (simp add: js_rem_def)
    also have "\<dots> = gcd \<bar>a\<bar> \<bar>b\<bar>" by (rule gcd_red_int [symmetric])
    finally have "gcd b (js_rem a b) = gcd b a" by (simp add: gcd.commute)
    with 1 [OF False] False show ?thesis
      by (simp add: gcd_loop.simps [of a b] gcd.commute)
  qed
qed

lemma gcd_loop_nonneg: "0 \<le> a \<Longrightarrow> 0 \<le> b \<Longrightarrow> 0 \<le> gcd_loop a b"
proof (induction a b rule: gcd_loop.induct)
  case (1 a b)
  show ?case
  proof (cases "b = 0")
    case False
    with 1 have "0 \<le> js_rem a b" by (simp add: js_rem_def)
    with 1 False show ?thesis by (simp add: gcd_loop.simps [of a b])
  qed (use 1 in \<open>simp add: gcd_loop.simps\<close>)
qed

lemma gcd_big_eq: "0 \<le> b \<Longrightarrow> gcd_big a b = gcd a b"
  using gcd_loop_abs [of "\<bar>a\<bar>" b] gcd_loop_nonneg [of "\<bar>a\<bar>" b]
  by (simp add: gcd_big_def abs_if split: if_splits)

lemma js_div_dvd: "0 < b \<Longrightarrow> b dvd a \<Longrightarrow> js_div a b = a div b"
  by (auto simp: js_div_def abs_mult sgn_mult elim!: dvdE) (simp add: sgn_if)

section \<open>Fractions as rationals\<close>

definition val :: "exact_pence \<Rightarrow> rat" where
  "val q = of_int (numerator q) / of_int (denominator q)"

definition exact_ok :: "exact_pence \<Rightarrow> bool" where
  "exact_ok q \<longleftrightarrow> 0 < denominator q \<and> coprime (numerator q) (denominator q)"

lemma reduced_fraction:
  assumes "0 < d" and "0 < g" and "g = gcd n d"
  shows "exact_ok \<lparr>numerator = js_div n g, denominator = js_div d g\<rparr>"
    and "val \<lparr>numerator = js_div n g, denominator = js_div d g\<rparr> = of_int n / of_int d"
proof -
  have g: "g dvd n" "g dvd d" using assms(3) by simp_all
  then have e: "js_div n g = n div g" "js_div d g = d div g" using assms(2) by (simp_all add: js_div_dvd)
  have "d = g * (d div g)" "n = g * (n div g)" using g by simp_all
  with assms have "0 < d div g" by (metis zero_less_mult_pos)
  moreover have "coprime (n div g) (d div g)" using assms by (simp add: div_gcd_coprime)
  ultimately show "exact_ok \<lparr>numerator = js_div n g, denominator = js_div d g\<rparr>"
    by (simp add: exact_ok_def e)
  have "of_int n / (of_int d :: rat) = of_int (g * (n div g)) / of_int (g * (d div g))"
    using g by simp
  then show "val \<lparr>numerator = js_div n g, denominator = js_div d g\<rparr> = of_int n / of_int d"
    using assms(2) by (simp add: val_def e)
qed

lemma exactPence_val:
  assumes "0 < d"
  shows "\<exists>q. exactPence n d = Inr q \<and> exact_ok q \<and> val q = of_int n / of_int d"
proof -
  have "gcd_big n d = gcd n d" "0 < gcd n d" using assms by (simp_all add: gcd_big_eq)
  with reduced_fraction [OF assms, of "gcd n d" n] assms show ?thesis by (simp add: exactPence_def Let_def)
qed

lemma exactPence_InrD: "exactPence n d = Inr q \<Longrightarrow> 0 < d \<and> exact_ok q \<and> val q = of_int n / of_int d"
  using exactPence_val [of d n] by (cases "d \<le> 0") (auto simp: exactPence_def)

lemma val_less_iff:
  "0 < denominator a \<Longrightarrow> 0 < denominator b \<Longrightarrow>
   val a < val b \<longleftrightarrow> numerator a * denominator b < numerator b * denominator a"
proof -
  assume "0 < denominator a" "0 < denominator b"
  then have "val a < val b \<longleftrightarrow> (of_int (numerator a * denominator b) :: rat) < of_int (numerator b * denominator a)"
    by (simp add: val_def divide_less_eq less_divide_eq mult.commute mult.left_commute)
  then show ?thesis by (simp only: of_int_less_iff)
qed

lemma compareExactPence_val:
  assumes "0 < denominator a" "0 < denominator b"
  shows "compareExactPence a b = (if val a < val b then - 1 else if val b < val a then 1 else 0)"
  using assms by (simp add: val_less_iff compareExactPence_def Let_def)

lemma val_neg_iff: "0 < denominator a \<Longrightarrow> numerator a < 0 \<longleftrightarrow> val a < 0"
  by (simp add: val_def divide_less_0_iff)

lemma val_zero_iff: "0 < denominator a \<Longrightarrow> numerator a = 0 \<longleftrightarrow> val a = 0"
  by (simp add: val_def)

lemma exact_ok_pos [simp]: "exact_ok q \<Longrightarrow> 0 < denominator q"
  by (simp add: exact_ok_def)

lemma addExactPence_val:
  assumes a: "exact_ok a" and b: "exact_ok b"
  shows "\<exists>c. addExactPence a b = Inr c \<and> exact_ok c \<and> val c = val a + val b"
proof -
  let ?da = "denominator a" and ?db = "denominator b" and ?na = "numerator a" and ?nb = "numerator b"
  define g where "g = gcd ?da ?db"
  define l where "l = ?da div g"
  define r where "r = ?db div g"
  define n where "n = ?na * r + ?nb * l"
  define c where "c = gcd n g"
  have pos: "0 < ?da" "0 < ?db" using a b by simp_all
  then have g: "0 < g" by (simp add: g_def)
  have d: "?da = g * l" "?db = g * r" by (simp_all add: g_def l_def r_def)
  have lr: "0 < l" "0 < r" using pos g d by (metis zero_less_mult_pos)+
  have cop: "coprime l r" using pos by (simp add: l_def r_def g_def div_gcd_coprime)
  have c: "0 < c" "c dvd n" "c dvd g" using g by (simp_all add: c_def)
  then have cdb: "c dvd ?db" using d(2) by simp
  have na: "coprime ?na (g * l)" and nb: "coprime ?nb (g * r)" using a b d by (simp_all add: exact_ok_def)
  have nl: "coprime n l" and nr: "coprime n r"
  proof -
    have "gcd n l = gcd (?na * r) l" unfolding n_def
      by (metis add.commute gcd.commute gcd_add_mult mult.commute)
    then show "coprime n l" using na cop by (simp add: coprime_iff_gcd_eq_1 [symmetric] coprime_commute)
    have "gcd n r = gcd (?nb * l) r" unfolding n_def
      by (metis gcd.commute gcd_add_mult mult.commute)
    then show "coprime n r" using nb cop by (simp add: coprime_iff_gcd_eq_1 [symmetric] coprime_commute)
  qed
  have shape: "l * (?db div c) = (l * r * g) div c" using c(3) d(2)
    by (metis cdb div_mult_swap mult.commute mult.left_commute)
  have "coprime (n div c) (l * (?db div c))"
  proof -
    have "gcd n (l * r * g) = c"
      using nl nr by (simp add: c_def gcd_mult_right_left_cancel coprime_commute mult.assoc)
    then show ?thesis unfolding shape using pos g lr
      by (metis div_gcd_coprime mult_pos_pos order_less_irrefl)
  qed
  moreover have "0 < l * (?db div c)"
  proof -
    have "0 < ?db div c" using c cdb pos by (metis dvd_mult_div_cancel zero_less_mult_pos)
    with lr show ?thesis by simp
  qed
  moreover have "of_int (n div c) / of_int (l * (?db div c)) = val a + val b"
  proof -
    have "of_int (n div c) / (of_int (l * (?db div c)) :: rat) = of_int (c * (n div c)) / of_int (c * (l * (?db div c)))"
      using c(1) by simp
    also have "\<dots> = of_int n / of_int (l * r * g)"
      using c cdb d(2) by (simp add: mult.left_commute [of c] mult.commute)
    also have "\<dots> = val a + val b"
      using g lr by (simp add: val_def d n_def field_simps)
    finally show ?thesis .
  qed
  moreover have "addExactPence a b = Inr \<lparr>numerator = n div c, denominator = l * (?db div c)\<rparr>"
  proof -
    have "g dvd ?da" "g dvd ?db" by (simp_all add: g_def)
    then have e: "gcd_big ?da ?db = g" "js_div ?da g = l" "js_div ?db g = r" "gcd_big n g = c"
        "js_div n c = n div c" "js_div ?db c = ?db div c"
      using pos g c cdb by (simp_all only: gcd_big_eq g_def c_def l_def r_def js_div_dvd order_less_imp_le)
    then show ?thesis using pos unfolding addExactPence_def Let_def e n_def [symmetric] by simp
  qed
  ultimately show ?thesis by (auto simp: exact_ok_def val_def)
qed

lemma multiplyExactPence_val:
  assumes "exact_ok a" "exact_ok b"
  shows "\<exists>c. multiplyExactPence a b = Inr c \<and> exact_ok c \<and> val c = val a * val b"
  using exactPence_val [of "denominator a * denominator b" "numerator a * numerator b"] assms
  by (simp add: multiplyExactPence_def val_def)

end
