(* ===== verification/Exact_Sum.thy ===== *)
theory Exact_Sum
  imports Exact_Pence
begin

text \<open>
  The contract of exact arithmetic (locale \<open>exact_arithmetic\<close>), its interpretation on the code's
  \<open>addExactPence\<close>, \<open>multiplyExactPence\<close> and \<open>compareExactPence\<close>, and the correctness of the bounded
  sum and of the cumulative fee of \<^verbatim>\<open>cumulative-fee.ts\<close>.
\<close>

section \<open>The arithmetic contract\<close>

locale exact_arithmetic =
  fixes ok :: "'q \<Rightarrow> bool" and value_of :: "'q \<Rightarrow> rat"
    and add mul :: "'q \<Rightarrow> 'q \<Rightarrow> 'e + 'q" and cmp :: "'q \<Rightarrow> 'q \<Rightarrow> int"
  assumes add_value: "ok a \<Longrightarrow> ok b \<Longrightarrow> \<exists>c. add a b = Inr c \<and> ok c \<and> value_of c = value_of a + value_of b"
    and mul_value: "ok a \<Longrightarrow> ok b \<Longrightarrow> \<exists>c. mul a b = Inr c \<and> ok c \<and> value_of c = value_of a * value_of b"
    and cmp_value: "ok a \<Longrightarrow> ok b \<Longrightarrow>
      cmp a b = (if value_of a < value_of b then - 1 else if value_of b < value_of a then 1 else 0)"
    and canonical: "ok a \<Longrightarrow> ok b \<Longrightarrow> value_of a = value_of b \<Longrightarrow> a = b"
begin

lemma add_InrD: "add a b = Inr c \<Longrightarrow> ok a \<Longrightarrow> ok b \<Longrightarrow> ok c \<and> value_of c = value_of a + value_of b"
  using add_value by fastforce

lemma mul_InrD: "mul a b = Inr c \<Longrightarrow> ok a \<Longrightarrow> ok b \<Longrightarrow> ok c \<and> value_of c = value_of a * value_of b"
  using mul_value by fastforce

lemma cmp_iff:
  assumes "ok a" "ok b"
  shows "0 < cmp a b \<longleftrightarrow> value_of b < value_of a" and "cmp a b < 0 \<longleftrightarrow> value_of a < value_of b"
    and "cmp a b = 0 \<longleftrightarrow> value_of a = value_of b" and "cmp a b \<le> 0 \<longleftrightarrow> value_of a \<le> value_of b"
  using assms by (auto simp: cmp_value)

lemma add_all_value:
  "ok z \<Longrightarrow> \<forall>x\<in>set xs. ok x \<Longrightarrow>
   \<exists>c. fold_r add z xs = Inr c \<and> ok c \<and> value_of c = value_of z + sum_list (map value_of xs)"
proof (induction xs arbitrary: z)
  case (Cons x xs)
  then obtain c where c: "add z x = Inr c" "ok c" "value_of c = value_of z + value_of x"
    using add_value [of z x] by auto
  with Cons.IH [of c] Cons.prems show ?case by (auto simp: add.assoc)
qed simp

text \<open>Adding in either order or grouping gives the very same representation.\<close>

lemma add_commutes: "ok a \<Longrightarrow> ok b \<Longrightarrow> add a b = add b a"
  using add_value [of a b] add_value [of b a] canonical by (metis add.commute)

lemma add_assoc_r:
  "ok a \<Longrightarrow> ok b \<Longrightarrow> ok c \<Longrightarrow> bind_r (add a b) (\<lambda>x. add x c) = bind_r (add b c) (add a)"
proof -
  assume o: "ok a" "ok b" "ok c"
  obtain x y where x: "add a b = Inr x" "ok x" "value_of x = value_of a + value_of b"
    and y: "add b c = Inr y" "ok y" "value_of y = value_of b + value_of c"
    using add_value o by meson
  obtain u v where "add x c = Inr u" "ok u" "value_of u = value_of x + value_of c"
    and "add a y = Inr v" "ok v" "value_of v = value_of a + value_of y"
    using add_value o x y by meson
  with x y canonical [of u v] show ?thesis by (simp add: add.assoc)
qed

end

lemma exact_ok_unique:
  assumes "exact_ok a" "exact_ok b" "val a = val b"
  shows "a = b"
proof -
  have "numerator a * denominator b = numerator b * denominator a"
    using val_less_iff [of a b] val_less_iff [of b a] assms by (metis exact_ok_pos linorder_neqE_linordered_idom order_less_irrefl)
  moreover have "coprime (numerator a) (denominator a)" "coprime (numerator b) (denominator b)"
    "0 < denominator a" "0 < denominator b" using assms by (simp_all add: exact_ok_def)
  ultimately have "denominator a dvd denominator b" "denominator b dvd denominator a"
    by (metis coprime_commute coprime_dvd_mult_right_iff dvd_triv_right)+
  then have d: "denominator a = denominator b"
    using \<open>0 < denominator a\<close> \<open>0 < denominator b\<close> by (simp add: zdvd_antisym_nonneg)
  with \<open>numerator a * denominator b = _\<close> \<open>0 < denominator b\<close> have "numerator a = numerator b" by simp
  with d show ?thesis by simp
qed

interpretation ex: exact_arithmetic exact_ok val addExactPence multiplyExactPence compareExactPence
  by unfold_locales
    (simp_all add: addExactPence_val multiplyExactPence_val compareExactPence_val exact_ok_unique)

section \<open>The bounded sum\<close>

definition group_value :: "(int \<times> int) list \<Rightarrow> rat" where
  "group_value m = sum_list (map (\<lambda>(d, s). of_int s / of_int d) m)"

lemma group_value_simps [simp]:
  "group_value [] = 0" "group_value ((d, s) # m) = of_int s / of_int d + group_value m"
  by (simp_all add: group_value_def)

lemma group_value_update:
  "distinct (map fst m) \<Longrightarrow>
   group_value (AList.update d (get0 m d + n) m) = group_value m + of_int n / of_int d"
proof (induction m)
  case (Cons p m)
  obtain k s where p: "p = (k, s)" by (cases p)
  show ?case
  proof (cases "k = d")
    case True
    then show ?thesis by (simp add: p get0_def add_divide_distrib)
  next
    case False
    then have "get0 (p # m) d = get0 m d" by (simp add: p get0_def)
    with Cons False show ?thesis by (simp add: p)
  qed
qed (simp add: get0_def)

lemma by_denominator_gen:
  fixes vs :: "exact_pence list"
  defines "step \<equiv> \<lambda>m v. if denominator v \<le> 0 then Inl INVALID_SHARED_MONEY
     else Inr (AList.update (denominator v) (get0 m (denominator v) + numerator v) m)"
  assumes "\<forall>v\<in>set vs. 0 < denominator v" and "distinct (map fst m)"
  shows "\<exists>m'. fold_r step m vs = Inr m' \<and> distinct (map fst m') \<and>
     fst ` set m' = fst ` set m \<union> denominator ` set vs \<and>
     group_value m' = group_value m + sum_list (map val vs)"
  using assms(2,3)
proof (induction vs arbitrary: m)
  case (Cons v vs)
  let ?m = "AList.update (denominator v) (get0 m (denominator v) + numerator v) m"
  have "distinct (map fst ?m)" using Cons.prems(2) by (rule distinct_keys_update)
  with Cons.IH [of ?m] Cons.prems obtain m' where "fold_r step ?m vs = Inr m'" "distinct (map fst m')"
    "fst ` set m' = fst ` set ?m \<union> denominator ` set vs"
    "group_value m' = group_value ?m + sum_list (map val vs)" by auto
  moreover have "step m v = Inr ?m" using Cons.prems(1) by (simp add: step_def)
  moreover have "fst ` set ?m = insert (denominator v) (fst ` set m)"
    by (metis dom_map_of_conv_image_fst dom_fun_upd map_of_update option.distinct(1))
  moreover have "group_value ?m = group_value m + val v"
    using Cons.prems(2) by (simp add: group_value_update val_def)
  ultimately show ?case by (intro exI [of _ m']) auto
qed simp

lemma by_denominator_ok:
  "\<forall>v\<in>set vs. 0 < denominator v \<Longrightarrow> \<exists>m. by_denominator vs = Inr m \<and> distinct (map fst m) \<and>
     fst ` set m = denominator ` set vs \<and> group_value m = sum_list (map val vs)"
  using by_denominator_gen [of vs "[]"] by (simp add: by_denominator_def)

lemma by_denominator_bad:
  "\<exists>v\<in>set vs. denominator v \<le> 0 \<Longrightarrow> by_denominator vs = Inl INVALID_SHARED_MONEY"
  unfolding by_denominator_def
proof -
  assume "\<exists>v\<in>set vs. denominator v \<le> 0"
  then show "fold_r (\<lambda>m v. if denominator v \<le> 0 then Inl INVALID_SHARED_MONEY
     else Inr (AList.update (denominator v) (get0 m (denominator v) + numerator v) m)) m vs = Inl INVALID_SHARED_MONEY" for m
    by (induction vs arbitrary: m) auto
qed

lemma lcm_step: "0 < c \<Longrightarrow> 0 < d \<Longrightarrow> js_div c (gcd_big c d) * d = lcm c (d::int)"
proof -
  assume cd: "0 < c" "0 < d"
  then have "js_div c (gcd_big c d) = c div gcd c d" by (simp add: gcd_big_eq js_div_dvd)
  moreover have "lcm c d = c div gcd c d * d"
    using cd by (simp add: lcm_gcd div_mult_swap mult.commute pos_imp_zdiv_nonneg_iff)
  ultimately show ?thesis by simp
qed

lemma lcm_pos: "0 < c \<Longrightarrow> 0 < d \<Longrightarrow> 0 < lcm c (d::int)"
  by (simp add: order_less_le)

lemma common_denominator_gen:
  fixes ds :: "int list" and w :: int
  defines "step \<equiv> \<lambda>common d. let c = js_div common (gcd_big common d) * d
     in if c \<ge> w then Inl INVALID_SHARED_MONEY else Inr c"
  assumes "\<forall>d\<in>set ds. 0 < d" and "0 < c"
  shows "fold_r step c ds =
    (if ds \<noteq> [] \<and> w \<le> lcm c (Lcm (set ds)) then Inl INVALID_SHARED_MONEY else Inr (lcm c (Lcm (set ds))))"
  using assms(2,3)
proof (induction ds arbitrary: c)
  case Nil
  then show ?case by simp
next
  case (Cons d ds)
  let ?l = "lcm c d"
  have d: "0 < d" using Cons.prems by simp
  then have step: "step c d = (if w \<le> ?l then Inl INVALID_SHARED_MONEY else Inr ?l)"
    using Cons.prems by (simp add: step_def Let_def lcm_step)
  have l: "0 < ?l" using d Cons.prems by (simp add: lcm_pos)
  have IH: "fold_r step ?l ds = (if ds \<noteq> [] \<and> w \<le> lcm ?l (Lcm (set ds)) then Inl INVALID_SHARED_MONEY
      else Inr (lcm ?l (Lcm (set ds))))" using Cons l by simp
  have all: "lcm ?l (Lcm (set ds)) = lcm c (Lcm (set (d # ds)))" by (simp add: lcm.assoc)
  have "0 < lcm ?l (Lcm (set ds))" using l Cons.prems(1)
    by (metis abs_lcm_int abs_of_nonneg finite_set in_set_conv_nth lcm_eq_0_iff Lcm_0_iff less_le
        list.set_intros(2) abs_ge_zero order_less_irrefl)
  then have ge: "?l \<le> lcm ?l (Lcm (set ds))" using l by (intro zdvd_imp_le) simp_all
  show ?case
  proof (cases "w \<le> ?l")
    case True
    with ge step all show ?thesis by simp
  next
    case False
    then show ?thesis using step IH all by (cases "ds = []") auto
  qed
qed

lemma common_denominator_eq:
  "\<forall>d\<in>set ds. 0 < d \<Longrightarrow> common_denominator w ds =
     (if ds \<noteq> [] \<and> w \<le> Lcm (set ds) then Inl INVALID_SHARED_MONEY else Inr (Lcm (set ds)))"
  using common_denominator_gen [of ds 1 w] by (simp add: common_denominator_def)

lemma partial_divisor_eq:
  assumes "\<forall>d\<in>set ds. 0 < d"
  shows "partial_divisor n ds = gcd n (Lcm (set ds))"
proof -
  let ?f = "\<lambda>d divisor. let shared = gcd_big n d in js_div divisor (gcd_big divisor shared) * shared"
  have "fold ?f ds g = lcm g (gcd n (Lcm (set ds)))" if "0 < g" for g
    using assms that
  proof (induction ds arbitrary: g)
    case (Cons d ds)
    then have "0 < d" by simp
    then have "0 < gcd n d" by simp
    then have "?f d g = lcm g (gcd n d)" using Cons.prems(2) \<open>0 < d\<close>
      by (simp only: gcd_big_eq Let_def lcm_step [symmetric] order_less_imp_le)
    moreover have "0 < lcm g (gcd n d)" using \<open>0 < gcd n d\<close> Cons.prems(2) by (rule lcm_pos [rotated])
    ultimately show ?case using Cons by (simp add: lcm.assoc gcd_lcm_distrib_int del: Let_def)
  qed simp
  from this [of 1] show ?thesis by (simp add: partial_divisor_def)
qed

lemma common_numerator:
  assumes "0 < (c::int)" and "\<forall>p\<in>set m. fst p dvd c \<and> 0 < fst p"
  shows "of_int (sum_list (map (\<lambda>(d, s). s * js_div c d) m)) / (of_int c :: rat) = group_value m"
  using assms(2)
proof (induction m)
  case (Cons p m)
  obtain d s where p: "p = (d, s)" by (cases p)
  with Cons.prems have d: "0 < d" "d dvd c" by simp_all
  then have "of_int (s * js_div c d) / (of_int c :: rat) = of_int s / of_int d"
    using assms(1) by (auto simp: js_div_dvd elim!: dvdE)
  with Cons show ?case by (simp add: p add_divide_distrib)
qed simp

lemma sumExactPence_unfold:
  assumes "\<forall>v\<in>set vs. 0 < denominator v"
  shows "\<exists>q. exact_ok q \<and> val q = sum_list (map val vs) \<and> sumExactPence vs maxD maxW =
     (if vs \<noteq> [] \<and> 10 ^ maxW \<le> Lcm (denominator ` set vs) then Inl INVALID_SHARED_MONEY
      else if denominator q \<ge> 10 ^ maxD \<or> \<bar>numerator q\<bar> \<ge> 10 ^ maxD then Inl INVALID_SHARED_MONEY
      else Inr q)"
proof -
  obtain m where m: "by_denominator vs = Inr m" "distinct (map fst m)"
    "fst ` set m = denominator ` set vs" "group_value m = sum_list (map val vs)"
    using by_denominator_ok [OF assms] by blast
  let ?L = "Lcm (denominator ` set vs)"
  have ds: "set (map fst m) = denominator ` set vs" using m(3) by simp
  then have pos: "\<forall>d\<in>set (map fst m). 0 < d" using assms by auto
  have "?L \<noteq> 0" using assms by (auto simp: Lcm_0_iff)
  moreover have "0 \<le> ?L" by simp
  ultimately have L: "0 < ?L" by (simp add: order_less_le)
  have ne: "map fst m \<noteq> [] \<longleftrightarrow> vs \<noteq> []" using ds by (metis image_is_empty list.map_disc_iff set_empty)
  let ?n = "sum_list (map (\<lambda>(d, s). s * js_div ?L d) m)"
  let ?g = "gcd ?n ?L"
  let ?q = "\<lparr>numerator = js_div ?n ?g, denominator = js_div ?L ?g\<rparr>"
  have "\<forall>p\<in>set m. fst p dvd ?L \<and> 0 < fst p"
  proof
    fix p assume "p \<in> set m"
    then have "fst p \<in> denominator ` set vs" using m(3) by blast
    then show "fst p dvd ?L \<and> 0 < fst p" using assms by (auto intro!: dvd_Lcm)
  qed
  then have "of_int ?n / (of_int ?L :: rat) = sum_list (map val vs)"
    using common_numerator [OF L] m(4) by simp
  moreover have "0 < ?g" using L by simp
  ultimately have q: "exact_ok ?q" "val ?q = sum_list (map val vs)"
    using reduced_fraction [OF L _ refl, of ?n] by simp_all
  have "sumExactPence vs maxD maxW = (if vs \<noteq> [] \<and> 10 ^ maxW \<le> ?L then Inl INVALID_SHARED_MONEY
      else if denominator ?q \<ge> 10 ^ maxD \<or> \<bar>numerator ?q\<bar> \<ge> 10 ^ maxD then Inl INVALID_SHARED_MONEY
      else Inr ?q)"
  proof (cases "vs \<noteq> [] \<and> 10 ^ maxW \<le> ?L")
    case True
    then show ?thesis unfolding sumExactPence_def m(1) bind_r_simps common_denominator_eq [OF pos] ds ne by simp
  next
    case False
    have abs: "(if x < 0 then - x else x) = \<bar>x\<bar>" for x :: int by simp
    show ?thesis
      unfolding sumExactPence_def m(1) bind_r_simps common_denominator_eq [OF pos] ds ne if_not_P [OF False]
        Let_def partial_divisor_eq [OF pos] exact_pence.simps abs by (rule refl)
  qed
  with q show ?thesis by blast
qed

text \<open>
  C14. The bounded sum is exact: with positive denominators, whatever \<open>sumExactPence\<close> returns is the
  reduced fraction of the mathematical sum and within the digit limit, and it refuses only when the
  common denominator reaches the working limit or the reduced sum itself has more digits than
  allowed; a non-positive denominator is always refused.
\<close>

theorem sumExactPence_exact:
  "(if \<exists>v\<in>set vs. denominator v \<le> 0 then sumExactPence vs maxD maxW = Inl INVALID_SHARED_MONEY
    else case sumExactPence vs maxD maxW of
      Inr q \<Rightarrow> exact_ok q \<and> val q = sum_list (map val vs) \<and>
        denominator q < 10 ^ maxD \<and> \<bar>numerator q\<bar> < 10 ^ maxD
    | Inl e \<Rightarrow> e = INVALID_SHARED_MONEY \<and> (10 ^ maxW \<le> Lcm (denominator ` set vs) \<or>
        (\<forall>q. exact_ok q \<longrightarrow> val q = sum_list (map val vs) \<longrightarrow>
          10 ^ maxD \<le> denominator q \<or> 10 ^ maxD \<le> \<bar>numerator q\<bar>)))"
proof (cases "\<exists>v\<in>set vs. denominator v \<le> 0")
  case True
  then show ?thesis using by_denominator_bad [OF True] by (simp add: sumExactPence_def)
next
  case False
  then have "\<forall>v\<in>set vs. 0 < denominator v" by (auto simp: not_le)
  from sumExactPence_unfold [OF this, of maxD maxW] obtain q where q: "exact_ok q"
    "val q = sum_list (map val vs)" and eq: "sumExactPence vs maxD maxW =
     (if vs \<noteq> [] \<and> 10 ^ maxW \<le> Lcm (denominator ` set vs) then Inl INVALID_SHARED_MONEY
      else if denominator q \<ge> 10 ^ maxD \<or> \<bar>numerator q\<bar> \<ge> 10 ^ maxD then Inl INVALID_SHARED_MONEY
      else Inr q)" by blast
  have uniq: "q' = q" if "exact_ok q'" "val q' = sum_list (map val vs)" for q'
    using that q by (intro exact_ok_unique) simp_all
  show ?thesis
  proof (cases "sumExactPence vs maxD maxW")
    case (Inl e)
    with eq have "e = INVALID_SHARED_MONEY"
      "10 ^ maxW \<le> Lcm (denominator ` set vs) \<or> 10 ^ maxD \<le> denominator q \<or> 10 ^ maxD \<le> \<bar>numerator q\<bar>"
      by (simp_all split: if_splits)
    then have "e = INVALID_SHARED_MONEY \<and> (10 ^ maxW \<le> Lcm (denominator ` set vs) \<or>
        (\<forall>q. exact_ok q \<longrightarrow> val q = sum_list (map val vs) \<longrightarrow>
          10 ^ maxD \<le> denominator q \<or> 10 ^ maxD \<le> \<bar>numerator q\<bar>))"
      using uniq by blast
    with False Inl show ?thesis by (simp only: if_False sum.case)
  next
    case (Inr r)
    with eq have "r = q" "\<not> 10 ^ maxD \<le> denominator q" "\<not> 10 ^ maxD \<le> \<bar>numerator q\<bar>"
      by (simp_all split: if_splits)
    with q False Inr show ?thesis by (simp only: if_False sum.case not_le simp_thms)
  qed
qed

theorem sumExactPence_exact_witness:
  "\<exists>q. sumExactPence [\<lparr>numerator = 1, denominator = 6\<rparr>, \<lparr>numerator = 1, denominator = 3\<rparr>] 3 3 = Inr q \<and>
     val q = 1 / 2"
proof -
  have "Lcm (denominator ` set [\<lparr>numerator = 1, denominator = 6\<rparr>, \<lparr>numerator = 1, denominator = 3\<rparr>]) = 6"
    by simp
  moreover have "exact_ok \<lparr>numerator = 1, denominator = 2\<rparr>" "val \<lparr>numerator = 1, denominator = 2\<rparr> = 1 / 2"
    by (simp_all add: exact_ok_def val_def)
  ultimately show ?thesis
    using sumExactPence_exact [of "[\<lparr>numerator = 1, denominator = 6\<rparr>, \<lparr>numerator = 1, denominator = 3\<rparr>]" 3 3]
    by (auto simp: val_def split: sum.splits)
qed

section \<open>Integer text round trip\<close>

lemma digit_val_nonneg: "is_digit c \<Longrightarrow> 0 \<le> digit_val c"
  by (auto simp: is_digit_def digit_val_def less_eq_char_def)

lemma digits_val_mono: "list_all is_digit (s @ t) \<Longrightarrow> 0 \<le> digits_val s \<and> digits_val s \<le> digits_val (s @ t)"
proof (induction t rule: rev_induct)
  case Nil
  then show ?case by (induction s rule: rev_induct) (auto simp: digit_val_nonneg)
next
  case (snoc c t)
  then have "0 \<le> digits_val s" "digits_val s \<le> digits_val (s @ t)" "0 \<le> digit_val c"
    by (auto simp: digit_val_nonneg)
  then show ?case using digits_val_snoc [of "s @ t" c] by simp
qed

lemma digits_val_nonneg: "list_all is_digit s \<Longrightarrow> 0 \<le> digits_val s"
  using digits_val_mono [of s "[]"] by simp

lemma digit_val_pos: "is_digit c \<Longrightarrow> c \<noteq> CHR ''0'' \<Longrightarrow> 0 < digit_val c"
proof -
  assume d: "is_digit c" and n: "c \<noteq> CHR ''0''"
  have "of_char c \<noteq> (of_char (CHR ''0'') :: nat)" using n of_char_eq_iff by metis
  with d show ?thesis by (auto simp: is_digit_def digit_val_def less_eq_char_def)
qed

lemma positive_text_pos: "positive_text s \<Longrightarrow> 0 < digits_val s"
proof -
  assume s: "positive_text s"
  then obtain c r where cr: "s = [c] @ r" by (cases s) (auto simp: positive_text_def)
  have "0 < digits_val [c]" using s cr digits_val_snoc [of "[]" c] by (simp add: positive_text_def digit_val_pos)
  also have "\<dots> \<le> digits_val s" using digits_val_mono [of "[c]" r] s by (simp add: positive_text_def cr)
  finally show ?thesis .
qed

lemma digit_not_minus: "is_digit c \<Longrightarrow> c \<noteq> CHR ''-''"
  by (auto simp: is_digit_def less_eq_char_def)

lemma int_of_text_digits: "list_all is_digit s \<Longrightarrow> int_of_text s = digits_val s"
  by (cases s) (auto simp: int_of_text_def dest: digit_not_minus)

lemma int_of_text_positive: "positive_text s \<Longrightarrow> 0 < int_of_text s"
  by (metis int_of_text_digits positive_text_def positive_text_pos)

lemma int_of_text_canonical: "canonical_whole s \<Longrightarrow> 0 \<le> int_of_text s"
  by (auto simp: canonical_whole_def int_of_text_digits digits_val_nonneg)
    (simp add: int_of_text_def digits_val_def digit_val_def)

lemma int_of_int_text: "int_of_text (int_text i) = i"
proof (cases "i < 0")
  case False
  then show ?thesis by (simp add: int_text_def int_of_text_digits digits_nat_text digits_val_nat_text)
qed (simp add: int_text_def int_of_text_def digits_val_nat_text)

lemma integer_text_int_text: "integer_text (int_text i)"
proof -
  have "canonical_whole (nat_text n) \<Longrightarrow> nat_text n \<noteq> [] \<Longrightarrow> integer_text (nat_text n)" for n
    using digits_nat_text [of n] by (cases "nat_text n") (auto simp: integer_text_def dest: digit_not_minus)
  then show ?thesis by (auto simp: int_text_def canonical_whole_nat_text integer_text_def)
qed

lemma positive_text_int_text: "0 < i \<Longrightarrow> positive_text (int_text i)"
  by (simp add: int_text_def positive_text_def hd_nat_text digits_nat_text)

text \<open>
  Exact amounts survive the wire: a reduced (or any) fraction with a positive denominator whose
  magnitude is within the money limit and whose text fits the schema is read back unchanged.
\<close>

lemma exact_pence_roundtrip:
  assumes "0 < denominator q" and "\<bar>numerator q\<bar> \<le> MAX_MONEY_PENCE * denominator q"
    and "length (int_text (numerator q)) \<le> limit" "length (int_text (denominator q)) \<le> limit"
  shows "parseExactPence (exact_text_ok limit) (serializeExactPence q) = Inr q"
  using assms
  by (auto simp: parseExactPence_def serializeExactPence_def exact_text_ok_def integerOf_def positiveOf_def
      integer_text_int_text positive_text_int_text int_of_int_text Let_def)

lemma exact_pence_roundtrip_witness:
  "parseExactPence (exact_text_ok 100) (serializeExactPence \<lparr>numerator = - 7, denominator = 3\<rparr>) =
     Inr \<lparr>numerator = - 7, denominator = 3\<rparr>"
proof -
  have "nat_text 7 = ''7''" "nat_text 3 = ''3''" by code_simp+
  then show ?thesis
    by (intro exact_pence_roundtrip) (simp_all add: int_text_def MAX_MONEY_PENCE_def)
qed

section \<open>The fee kernel\<close>

lemma feeRateV1_bounds:
  "feeRateV1 r \<Longrightarrow> 0 \<le> int_of_text (fr_numerator r) \<and> 0 < int_of_text (fr_denominator r) \<and>
     int_of_text (fr_numerator r) \<le> int_of_text (fr_denominator r)"
  by (simp add: feeRateV1_def int_of_text_canonical int_of_text_positive)

definition fee_of :: "int \<Rightarrow> int \<Rightarrow> fee_rate \<Rightarrow> int" where
  "fee_of n d r = round_div Half_even (n * int_of_text (fr_numerator r)) (d * int_of_text (fr_denominator r))"

lemma fee_of_bounds:
  assumes "feeRateV1 r" "0 \<le> n" "0 < d" "n \<le> k * d"
  shows "0 \<le> fee_of n d r" "fee_of n d r \<le> k"
proof -
  let ?rn = "int_of_text (fr_numerator r)" and ?rd = "int_of_text (fr_denominator r)"
  have r: "0 \<le> ?rn" "0 < ?rd" "?rn \<le> ?rd" using feeRateV1_bounds [OF assms(1)] by simp_all
  then have pos: "0 < d * ?rd" using assms(3) by simp
  show "0 \<le> fee_of n d r" unfolding fee_of_def using pos r assms(2) by (intro rd.rnd_nonneg) simp_all
  have "n * ?rn \<le> n * ?rd" using r assms(2) by (simp add: mult_left_mono)
  also have "\<dots> \<le> (k * d) * ?rd" using assms(4) r by (simp add: mult_right_mono)
  finally show "fee_of n d r \<le> k" unfolding fee_of_def by (intro rd.rnd_le pos) (simp add: ac_simps)
qed

text \<open>On a valid input the kernel fails in the four ways named here and in no other.\<close>

lemma calculateCumulativeFee_valid:
  assumes v: "cumulativeFeeInputV1 i" and same: "fr_policyVersion (cf_rate i) = cf_priorPolicyVersion i"
  defines "n \<equiv> int_of_text (numerator_text (cf_principal i))"
    and "d \<equiv> int_of_text (denominator_text (cf_principal i))"
    and "rn \<equiv> int_of_text (fr_numerator (cf_rate i))" and "rd \<equiv> int_of_text (fr_denominator (cf_rate i))"
  shows "calculateCumulativeFee i =
    (if fr_policyVersion (cf_rate i) = ''reference_fee_policy_v3'' \<and> 10 * rn \<noteq> rd then Inl INVALID_SHARED_MONEY
     else if \<bar>n\<bar> > MAX_MONEY_PENCE * d \<or> n < 0 then Inl INVALID_SHARED_MONEY
     else let fee = fee_of n d (cf_rate i); delta = fee - cf_priorNetPostedPence i in
       if delta < 0 \<and> cf_compensatesDerivationId i = None then Inl COMPENSATION_LINK_REQUIRED
       else Inr \<lparr>cr_policyVersion = fr_policyVersion (cf_rate i), cr_cumulativeFee = gbp fee,
         cr_postingDelta = gbp delta,
         cr_compensatesDerivationId = (if delta < 0 then cf_compensatesDerivationId i else None)\<rparr>)"
proof -
  have rate: "feeRateV1 (cf_rate i)" and prin: "exactPenceV1 (cf_principal i)"
    and prior: "0 \<le> cf_priorNetPostedPence i" "cf_priorNetPostedPence i \<le> MAX_MONEY_PENCE"
    using v by (simp_all add: cumulativeFeeInputV1_def)
  have r: "0 \<le> rn" "0 < rd" "rn \<le> rd" using feeRateV1_bounds [OF rate] by (simp_all add: rn_def rd_def)
  have d: "0 < d" using prin
    by (simp add: d_def exactPenceV1_def exact_text_ok_def positiveOf_def int_of_text_positive)
  have tenth: "bind_r (exactPence rn rd) (\<lambda>r. bind_r (exactPence 1 10) (\<lambda>tenth.
      if compareExactPence r tenth \<noteq> 0 then Inl INVALID_SHARED_MONEY else Inr ())) =
      (if 10 * rn \<noteq> rd then Inl INVALID_SHARED_MONEY else Inr ())"
  proof -
    obtain q where q: "exactPence rn rd = Inr q" "exact_ok q" "val q = of_int rn / of_int rd"
      using exactPence_val [OF r(2)] by blast
    obtain t where t: "exactPence 1 10 = Inr t" "exact_ok t" "val t = 1 / 10"
      using exactPence_val [of 10 1] by auto
    have "compareExactPence q t = 0 \<longleftrightarrow> of_int rn / (of_int rd :: rat) = 1 / 10"
      using ex.cmp_iff(3) [OF q(2) t(2)] q(3) t(3) by simp
    also have "\<dots> \<longleftrightarrow> (of_int (10 * rn) :: rat) = of_int rd" using r(2) by (auto simp: field_simps)
    also have "\<dots> \<longleftrightarrow> 10 * rn = rd" by (simp only: of_int_eq_iff)
    finally show ?thesis using q(1) t(1) by simp
  qed
  have parse: "parseExactPence exactPenceV1 (cf_principal i) =
      (if \<bar>n\<bar> > MAX_MONEY_PENCE * d then Inl INVALID_SHARED_MONEY else Inr \<lparr>numerator = n, denominator = d\<rparr>)"
    using prin by (simp add: parseExactPence_def n_def d_def Let_def abs_if)
  show ?thesis
  proof (cases "(fr_policyVersion (cf_rate i) = ''reference_fee_policy_v3'' \<and> 10 * rn \<noteq> rd) \<or>
      \<bar>n\<bar> > MAX_MONEY_PENCE * d \<or> n < 0")
    case True
    then show ?thesis
      using v same by (auto simp: calculateCumulativeFee_def Let_def rn_def [symmetric] rd_def [symmetric] tenth parse)
  next
    case False
    then have n: "0 \<le> n" "n \<le> MAX_MONEY_PENCE * d" by auto
    define fee where "fee = fee_of n d (cf_rate i)"
    have fee: "0 \<le> fee" "fee \<le> MAX_MONEY_PENCE" using fee_of_bounds [OF rate n(1) d n(2)] by (simp_all add: fee_def)
    have "divideRounded (n * rn) (d * rd) Half_even = Inr fee"
      using d r by (simp add: divideRounded_def fee_def fee_of_def rn_def rd_def not_le mult_pos_pos)
    then show ?thesis using v same False n fee prior
      by (simp add: calculateCumulativeFee_def Let_def rn_def [symmetric] rd_def [symmetric] tenth parse
          moneyFromBigInt_eq money_of_JInt fee_def [symmetric])
  qed
qed

text \<open>
  C15. The cumulative fee: when the kernel returns, the principal \<open>n/d\<close> and the rate \<open>rn/rd\<close> are
  non-negative, the cumulative fee is the half-even rounding of their exact product (rounded once),
  lies between zero and the principal rounded up, prior postings plus the posted delta equal it, and
  a negative delta always carries the compensation link while a non-negative one never does.
\<close>

theorem calculateCumulativeFee_correct:
  assumes "calculateCumulativeFee i = Inr r"
  shows "\<exists>n d rn rd. n = int_of_text (numerator_text (cf_principal i)) \<and>
     d = int_of_text (denominator_text (cf_principal i)) \<and>
     rn = int_of_text (fr_numerator (cf_rate i)) \<and> rd = int_of_text (fr_denominator (cf_rate i)) \<and>
     0 \<le> n \<and> 0 < d \<and> 0 \<le> rn \<and> rn \<le> rd \<and> 0 < rd \<and>
     \<bar>2 * (n * rn - d * rd * pence (cr_cumulativeFee r))\<bar> \<le> d * rd \<and>
     0 \<le> pence (cr_cumulativeFee r) \<and> pence (cr_cumulativeFee r) * d < n + d \<and>
     cf_priorNetPostedPence i + pence (cr_postingDelta r) = pence (cr_cumulativeFee r) \<and>
     (if pence (cr_postingDelta r) < 0
      then cr_compensatesDerivationId r = cf_compensatesDerivationId i \<and> cr_compensatesDerivationId r \<noteq> None
      else cr_compensatesDerivationId r = None)"
proof -
  let ?n = "int_of_text (numerator_text (cf_principal i))" and ?d = "int_of_text (denominator_text (cf_principal i))"
  let ?rn = "int_of_text (fr_numerator (cf_rate i))" and ?rd = "int_of_text (fr_denominator (cf_rate i))"
  let ?fee = "fee_of ?n ?d (cf_rate i)"
  have v: "cumulativeFeeInputV1 i" "fr_policyVersion (cf_rate i) = cf_priorPolicyVersion i"
    using assms by (auto simp: calculateCumulativeFee_def Let_def split: if_splits)
  then have rate: "feeRateV1 (cf_rate i)" and d: "0 < ?d"
    by (simp_all add: cumulativeFeeInputV1_def exactPenceV1_def exact_text_ok_def positiveOf_def int_of_text_positive)
  have rb: "0 \<le> ?rn" "0 < ?rd" "?rn \<le> ?rd" using feeRateV1_bounds [OF rate] by simp_all
  have res: "0 \<le> ?n" "pence (cr_cumulativeFee r) = ?fee"
    "pence (cr_postingDelta r) = ?fee - cf_priorNetPostedPence i"
    "if pence (cr_postingDelta r) < 0
      then cr_compensatesDerivationId r = cf_compensatesDerivationId i \<and> cr_compensatesDerivationId r \<noteq> None
      else cr_compensatesDerivationId r = None"
    using assms unfolding calculateCumulativeFee_valid [OF v] by (auto simp: Let_def split: if_splits)
  have near: "\<bar>2 * (?n * ?rn - ?d * ?rd * ?fee)\<bar> \<le> ?d * ?rd"
    unfolding fee_of_def using d rb by (intro round_div_nearest) simp
  have fee: "0 \<le> ?fee" "?fee \<le> - ((- ?n) div ?d)"
  proof -
    have "?d * ((- ?n) div ?d) \<le> - ?n" using d pos_mod_sign [OF d, of "- ?n"] mult_div_mod_eq [of ?d "- ?n"]
      by linarith
    then have "?n \<le> - ((- ?n) div ?d) * ?d" by (simp add: mult.commute)
    from fee_of_bounds [OF rate res(1) d this] show "0 \<le> ?fee" "?fee \<le> - ((- ?n) div ?d)" by simp_all
  qed
  have "?fee * ?d \<le> - ((- ?n) div ?d) * ?d" using fee(2) d by (intro mult_right_mono) simp_all
  also have "\<dots> < ?n + ?d"
  proof -
    have "- (?d * ((- ?n) div ?d)) < ?n + ?d"
      using pos_mod_bound [OF d, of "- ?n"] mult_div_mod_eq [of ?d "- ?n"] by linarith
    then show ?thesis by (simp add: mult.commute)
  qed
  finally have "?fee * ?d < ?n + ?d" .
  then show ?thesis using res near fee d rb by simp
qed

definition fee_example :: cumulative_fee_input where
  "fee_example = \<lparr>cf_rate = \<lparr>fr_policyVersion = ''reference_fee_policy_v3'', fr_numerator = ''1'', fr_denominator = ''10''\<rparr>,
     cf_principal = \<lparr>numerator_text = ''12345'', denominator_text = ''1''\<rparr>, cf_priorNetPostedPence = 1000,
     cf_priorPolicyVersion = ''reference_fee_policy_v3'', cf_compensatesDerivationId = None\<rparr>"

lemma length_nat_text_pow: "length (nat_text (10 ^ k)) = Suc k"
proof (induction k)
  case (Suc k)
  then show ?case by (subst nat_text.simps) simp
qed (simp add: nat_text.simps)

lemma MAX_EXACT_PENCE_DIGITS_eq: "MAX_EXACT_PENCE_DIGITS = 260213"
proof -
  have "nat MAX_MONEY_PENCE = 10 ^ 12" by (simp add: MAX_MONEY_PENCE_def)
  then have "MONEY_DIGITS = 13" by (simp only: MONEY_DIGITS_def length_nat_text_pow)
  then show ?thesis
    by (simp add: MAX_EXACT_PENCE_DIGITS_def MAX_ALLOCATION_LINES_def MAX_ALLOCATION_WORKING_DIGITS_def
        MAX_EXACT_PENCE_INPUT_DIGITS_def)
qed

lemma fee_example_text:
  "int_of_text ''12345'' = 12345" "int_of_text ''1'' = 1" "int_of_text ''10'' = 10"
  "canonical_whole ''1''" "positive_text ''10''" "positive_text ''1''" "integer_text ''12345''"
  by code_simp+

lemma fee_example_result:
  "calculateCumulativeFee fee_example = Inr \<lparr>cr_policyVersion = ''reference_fee_policy_v3'',
     cr_cumulativeFee = gbp 1234, cr_postingDelta = gbp 234, cr_compensatesDerivationId = None\<rparr>"
proof -
  have v: "cumulativeFeeInputV1 fee_example"
    by (simp add: fee_example_def cumulativeFeeInputV1_def feeRateV1_def exactPenceV1_def exact_text_ok_def
        integerOf_def positiveOf_def MAX_EXACT_PENCE_DIGITS_eq MAX_MONEY_PENCE_def fee_example_text)
  have s: "fr_policyVersion (cf_rate fee_example) = cf_priorPolicyVersion fee_example" by (simp add: fee_example_def)
  have f: "round_div Half_even 12345 10 = 1234" by (simp add: round_div_def)
  show ?thesis unfolding calculateCumulativeFee_valid [OF v s]
    by (simp add: fee_example_def fee_example_text MAX_MONEY_PENCE_def fee_of_def f)
qed

theorem calculateCumulativeFee_correct_witness:
  "\<exists>r. calculateCumulativeFee fee_example = Inr r \<and> pence (cr_cumulativeFee r) = 1234 \<and>
     cf_priorNetPostedPence fee_example + pence (cr_postingDelta r) = pence (cr_cumulativeFee r)"
proof -
  from calculateCumulativeFee_correct [OF fee_example_result]
  have "cf_priorNetPostedPence fee_example + pence (gbp 234) = pence (gbp 1234)" by simp
  then show ?thesis by (simp add: fee_example_result)
qed

end
