(* ===== verification/Instants.thy ===== *)
theory Instants
  imports Exact_Sum "HOL-Library.Monad_Syntax"
begin

text \<open>
  The timestamps of \<^verbatim>\<open>receipt-allocation.ts\<close>: the expression \<open>INSTANT\<close>, the exact reader
  \<open>parseInstant\<close> and the comparison \<open>compareInstants\<close>. The calendar check of the schema library
  (\<^verbatim>\<open>z.regexes.date\<close> and \<^verbatim>\<open>z.regexes.time\<close>) is not code of the
  repository; it only narrows the strings that reach the reader, so the theorems below hold for
  everything it admits.
\<close>

section \<open>The expression INSTANT\<close>

record instant_match =
  im_year :: int
  im_month :: int
  im_day :: int
  im_hour :: int
  im_minute :: int
  im_second :: int
  im_fraction :: string
  im_zone :: string

text \<open>Exactly \<open>n\<close> digits, then the rest.\<close>

definition digits_n :: "nat \<Rightarrow> string \<Rightarrow> (int \<times> string) option" where
  "digits_n n s = (let t = take n s in
     if length t = n \<and> list_all is_digit t then Some (digits_val t, drop n s) else None)"

definition expect :: "char \<Rightarrow> string \<Rightarrow> string option" where
  "expect c s = (case s of x # r \<Rightarrow> (if x = c then Some r else None) | [] \<Rightarrow> None)"

text \<open>The zone designator \<^verbatim>\<open>Z|[+-](?:[01]\d|2[0-3]):?[0-5]\d\<close>, to the end of the text.\<close>

definition zone_ok :: "string \<Rightarrow> bool" where
  "zone_ok z \<longleftrightarrow> z = ''Z'' \<or> (case z of
     s # h1 # h2 # r \<Rightarrow> (s = CHR ''+'' \<or> s = CHR ''-'') \<and> is_digit h2 \<and>
       ((h1 = CHR ''0'' \<or> h1 = CHR ''1'') \<or> (h1 = CHR ''2'' \<and> h2 \<le> CHR ''3'')) \<and>
       (case (case r of c # r' \<Rightarrow> (if c = CHR '':'' then r' else r) | [] \<Rightarrow> r) of
          [m1, m2] \<Rightarrow> CHR ''0'' \<le> m1 \<and> m1 \<le> CHR ''5'' \<and> is_digit m2 | _ \<Rightarrow> False)
   | _ \<Rightarrow> False)"

definition match_instant :: "string \<Rightarrow> instant_match option" where
  "match_instant s = do {
     (y, s) \<leftarrow> digits_n 4 s; s \<leftarrow> expect (CHR ''-'') s;
     (mo, s) \<leftarrow> digits_n 2 s; s \<leftarrow> expect (CHR ''-'') s;
     (d, s) \<leftarrow> digits_n 2 s; s \<leftarrow> expect (CHR ''T'') s;
     (h, s) \<leftarrow> digits_n 2 s; s \<leftarrow> expect (CHR '':'') s;
     (mi, s) \<leftarrow> digits_n 2 s;
     (sec, frac, z) \<leftarrow> (case expect (CHR '':'') s of
         None \<Rightarrow> Some (0, [], s)
       | Some s \<Rightarrow> do {
           (sec, s) \<leftarrow> digits_n 2 s;
           (case expect (CHR ''.'') s of
              None \<Rightarrow> Some (sec, [], s)
            | Some s \<Rightarrow> (if takeWhile is_digit s = [] then None
                        else Some (sec, takeWhile is_digit s, dropWhile is_digit s)))});
     (if zone_ok z then Some \<lparr>im_year = y, im_month = mo, im_day = d, im_hour = h, im_minute = mi,
        im_second = sec, im_fraction = frac, im_zone = z\<rparr> else None)}"

definition instantV1 :: "string \<Rightarrow> bool" where
  "instantV1 s \<longleftrightarrow> match_instant s \<noteq> None"

section \<open>Reading and comparing\<close>

record instant =
  i_seconds :: int
  i_fraction :: string

definition strip_zeros :: "string \<Rightarrow> string" where
  "strip_zeros s = rev (dropWhile (\<lambda>c. c = CHR ''0'') (rev s))"

definition days_from_civil :: "int \<Rightarrow> int \<Rightarrow> int \<Rightarrow> int" where
  "days_from_civil y month d =
     (let year = y + 400 - (if month \<le> 2 then 1 else 0);
          era = year div 400; yearOfEra = year - era * 400;
          dayOfYear = (153 * (if month > 2 then month - 3 else month + 9) + 2) div 5 + d - 1
      in era * 146097 + yearOfEra * 365 + yearOfEra div 4 - yearOfEra div 100 + dayOfYear)"

definition zone_offset :: "string \<Rightarrow> int" where
  "zone_offset z =
     (if z = ''Z'' then 0
      else let offsetDigits = remove1 (CHR '':'') (tl z);
               sign = (if hd z = CHR ''-'' then - 1 else 1)
           in sign * (digits_val (take 2 offsetDigits) * 3600 + digits_val (drop 2 offsetDigits) * 60))"

definition parseInstant :: "string \<Rightarrow> shared_error + instant" where
  "parseInstant s = (case match_instant s of
     None \<Rightarrow> Inl INVALID_ALLOCATION
   | Some m \<Rightarrow> Inr \<lparr>i_seconds = days_from_civil (im_year m) (im_month m) (im_day m) * 86400 +
        im_hour m * 3600 + im_minute m * 60 + im_second m - zone_offset (im_zone m),
        i_fraction = strip_zeros (im_fraction m)\<rparr>)"

definition compareInstants :: "instant \<Rightarrow> instant \<Rightarrow> int" where
  "compareInstants a b =
     (if i_seconds a \<noteq> i_seconds b then (if i_seconds a < i_seconds b then - 1 else 1)
      else let width = max (length (i_fraction a)) (length (i_fraction b));
               left = pad_end width (i_fraction a); right = pad_end width (i_fraction b)
           in if left = right then 0 else if left < right then - 1 else 1)"

definition compareReceiptInstants :: "string \<Rightarrow> string \<Rightarrow> shared_error + int" where
  "compareReceiptInstants l r =
     bind_r (parseInstant l) (\<lambda>a. bind_r (parseInstant r) (\<lambda>b. Inr (compareInstants a b)))"

section \<open>Instants as exact rational time\<close>

definition fraction_value :: "string \<Rightarrow> rat" where
  "fraction_value f = of_int (digits_val f) / 10 ^ length f"

definition instant_value :: "instant \<Rightarrow> rat" where
  "instant_value i = of_int (i_seconds i) + fraction_value (i_fraction i)"

definition instant_ok :: "instant \<Rightarrow> bool" where
  "instant_ok i \<longleftrightarrow> list_all is_digit (i_fraction i)"

lemma digits_val_Cons: "digits_val (c # s) = digit_val c * 10 ^ length s + digits_val s"
proof (induction s rule: rev_induct)
  case (snoc x s)
  have "digits_val (c # s @ [x]) = 10 * digits_val (c # s) + digit_val x"
    using digits_val_snoc [of "c # s" x] by simp
  with snoc show ?case by (simp add: algebra_simps)
qed (simp add: digits_val_def)

lemma digit_val_le_9: "is_digit c \<Longrightarrow> digit_val c \<le> 9"
  by (auto simp: is_digit_def digit_val_def less_eq_char_def)

lemma digits_val_less: "list_all is_digit s \<Longrightarrow> digits_val s < 10 ^ length s"
proof (induction s)
  case (Cons c s)
  then have a: "digit_val c * 10 ^ length s \<le> 9 * 10 ^ length s"
    by (intro mult_right_mono) (simp_all add: digit_val_le_9)
  have b: "digits_val s < 10 ^ length s" using Cons by simp
  have c: "(10::int) ^ length (c # s) = 10 * 10 ^ length s" by simp
  show ?case unfolding digits_val_Cons c using a b by linarith
qed simp

lemma digit_val_less_iff: "is_digit a \<Longrightarrow> is_digit b \<Longrightarrow> digit_val a < digit_val b \<longleftrightarrow> a < b"
  by (simp add: digit_val_def less_char_def)

text \<open>On digit strings of one length the text order is the numeric order.\<close>

lemma digits_val_order:
  "length s = length t \<Longrightarrow> list_all is_digit s \<Longrightarrow> list_all is_digit t \<Longrightarrow>
   (s < t \<longleftrightarrow> digits_val s < digits_val t)"
proof (induction s t rule: list_induct2)
  case (Cons a s b t)
  have st: "digits_val s < 10 ^ length t" "digits_val t < 10 ^ length t" "0 \<le> digits_val s" "0 \<le> digits_val t"
    using Cons digits_val_less [of s] digits_val_less [of t] by (simp_all add: digits_val_nonneg)
  consider "a < b" | "b < a" | "a = b" by (rule linorder_cases)
  then show ?case
  proof cases
    case 1
    then have "digit_val a + 1 \<le> digit_val b" using Cons digit_val_less_iff [of a b] by simp
    then have "(digit_val a + 1) * 10 ^ length t \<le> digit_val b * 10 ^ length t" by (intro mult_right_mono) simp_all
    then have "digit_val a * 10 ^ length t + 10 ^ length t \<le> digit_val b * 10 ^ length t" by (simp add: distrib_right)
    with st Cons 1 show ?thesis by (simp add: digits_val_Cons)
  next
    case 2
    then have "digit_val b + 1 \<le> digit_val a" using Cons digit_val_less_iff [of b a] by simp
    then have "(digit_val b + 1) * 10 ^ length t \<le> digit_val a * 10 ^ length t" by (intro mult_right_mono) simp_all
    then have "digit_val b * 10 ^ length t + 10 ^ length t \<le> digit_val a * 10 ^ length t" by (simp add: distrib_right)
    with st Cons 2 show ?thesis by (auto simp: digits_val_Cons)
  next
    case 3
    with Cons show ?thesis by (simp add: digits_val_Cons)
  qed
qed simp

lemma digits_val_pad_end: "digits_val (s @ replicate k (CHR ''0'')) = digits_val s * 10 ^ k"
proof (induction k)
  case (Suc k)
  have "s @ replicate (Suc k) (CHR ''0'') = (s @ replicate k (CHR ''0'')) @ [CHR ''0'']"
    by (simp add: replicate_append_same)
  then show ?case using Suc by (simp only: digits_val_snoc) (simp add: digit_val_def)
qed simp

lemma fraction_value_pad: "length s \<le> w \<Longrightarrow>
  fraction_value s = of_int (digits_val (pad_end w s)) / 10 ^ w"
proof -
  assume "length s \<le> w"
  then have "(10::rat) ^ w = 10 ^ length s * 10 ^ (w - length s)" by (simp flip: power_add)
  then show ?thesis by (simp add: fraction_value_def pad_end_def digits_val_pad_end)
qed

lemma fraction_value_bounds: "list_all is_digit f \<Longrightarrow> 0 \<le> fraction_value f \<and> fraction_value f < 1"
proof -
  assume f: "list_all is_digit f"
  have "0 \<le> digits_val f" "digits_val f < 10 ^ length f" using f by (simp_all add: digits_val_nonneg digits_val_less)
  then have "(of_int (digits_val f) :: rat) < of_int (10 ^ length f)" "(0::rat) \<le> of_int (digits_val f)"
    by (simp_all only: of_int_less_iff of_int_0_le_iff)
  then show ?thesis by (simp add: fraction_value_def)
qed

lemma list_all_pad_end: "list_all is_digit s \<Longrightarrow> list_all is_digit (pad_end w s)"
  by (auto simp: pad_end_def list_all_iff is_digit_def less_eq_char_def)

lemma compareInstants_value:
  assumes "instant_ok a" "instant_ok b"
  shows "compareInstants a b =
    (if instant_value a < instant_value b then - 1 else if instant_value b < instant_value a then 1 else 0)"
proof -
  have fa: "0 \<le> fraction_value (i_fraction a)" "fraction_value (i_fraction a) < 1"
    and fb: "0 \<le> fraction_value (i_fraction b)" "fraction_value (i_fraction b) < 1"
    using fraction_value_bounds assms by (simp_all add: instant_ok_def)
  have sec: "instant_value x < instant_value y"
    if "i_seconds x < i_seconds y" "fraction_value (i_fraction x) < 1" "0 \<le> fraction_value (i_fraction y)" for x y
  proof -
    have "of_int (i_seconds x + 1) \<le> (of_int (i_seconds y) :: rat)" using that(1) by (simp only: of_int_le_iff)
    with that(2,3) show ?thesis by (simp add: instant_value_def)
  qed
  consider "i_seconds a < i_seconds b" | "i_seconds b < i_seconds a" | "i_seconds a = i_seconds b" by linarith
  then show ?thesis
  proof cases
    case 1
    then show ?thesis using sec [of a b] fa fb by (simp add: compareInstants_def)
  next
    case 2
    then show ?thesis using sec [of b a] fa fb by (auto simp: compareInstants_def)
  next
    case 3
    let ?w = "max (length (i_fraction a)) (length (i_fraction b))"
    let ?l = "pad_end ?w (i_fraction a)" and ?r = "pad_end ?w (i_fraction b)"
    have d: "list_all is_digit ?l" "list_all is_digit ?r" "length ?l = length ?r"
      using assms by (simp_all add: list_all_pad_end instant_ok_def) (simp add: pad_end_def)
    have v: "fraction_value (i_fraction a) = of_int (digits_val ?l) / 10 ^ ?w"
      "fraction_value (i_fraction b) = of_int (digits_val ?r) / 10 ^ ?w"
      by (simp_all add: fraction_value_pad)
    have "fraction_value (i_fraction a) < fraction_value (i_fraction b) \<longleftrightarrow> ?l < ?r"
      "fraction_value (i_fraction b) < fraction_value (i_fraction a) \<longleftrightarrow> ?r < ?l"
      unfolding v using digits_val_order [OF d(3) d(1,2)] digits_val_order [OF d(3) [symmetric] d(2,1)]
      by (simp_all add: divide_less_cancel)
    then show ?thesis using 3 by (auto simp: compareInstants_def instant_value_def Let_def)
  qed
qed

lemma parseInstant_ok: "parseInstant s = Inr i \<Longrightarrow> instant_ok i"
proof -
  have strip: "list_all is_digit f \<Longrightarrow> list_all is_digit (strip_zeros f)" for f
    by (auto simp: strip_zeros_def list_all_iff dest: set_dropWhileD)
  assume "parseInstant s = Inr i"
  then obtain m where m: "match_instant s = Some m" "i_fraction i = strip_zeros (im_fraction m)"
    by (auto simp: parseInstant_def split: option.splits)
  have "list_all is_digit (im_fraction m)"
    using m(1) by (auto simp: match_instant_def list_all_iff split: option.splits if_splits Option.bind_splits
        dest: set_takeWhileD) (blast dest: set_takeWhileD)+
  with m(2) strip show ?thesis by (simp add: instant_ok_def)
qed

lemma compareInstants_refl [simp]: "compareInstants a a = 0"
  by (simp add: compareInstants_def)

text \<open>
  Timestamps are compared exactly: whenever two timestamps are read, the comparison is the
  comparison of the two exact rational times (seconds plus the whole decimal fraction as written,
  however long), so it is antisymmetric and transitive and never loses sub-millisecond precision.
\<close>

lemma compareReceiptInstants_exact:
  assumes "parseInstant l = Inr a" and "parseInstant r = Inr b"
  shows "compareReceiptInstants l r = Inr (if instant_value a < instant_value b then - 1
      else if instant_value b < instant_value a then 1 else 0) \<and>
    compareReceiptInstants r l = Inr (- compareInstants a b)"
  using assms compareInstants_value [of a b] compareInstants_value [of b a] parseInstant_ok
  by (auto simp: compareReceiptInstants_def)

lemma compareReceiptInstants_exact_witness:
  "\<exists>a b. parseInstant ''2026-10-11T09:30:00.00010Z'' = Inr a \<and>
     parseInstant ''2026-10-11T10:30:00.0002+01:00'' = Inr b \<and>
     compareReceiptInstants ''2026-10-11T09:30:00.00010Z'' ''2026-10-11T10:30:00.0002+01:00'' = Inr (- 1)"
proof -
  let ?a = "\<lparr>i_seconds = 76576527000, i_fraction = ''0001''\<rparr>"
  let ?b = "\<lparr>i_seconds = 76576527000, i_fraction = ''0002''\<rparr>"
  have a: "parseInstant ''2026-10-11T09:30:00.00010Z'' = Inr ?a" by code_simp
  have b: "parseInstant ''2026-10-11T10:30:00.0002+01:00'' = Inr ?b" by code_simp
  have "instant_value ?a < instant_value ?b"
    by (simp add: instant_value_def fraction_value_def digits_val_def digit_val_def)
  with compareReceiptInstants_exact [OF a b] a b show ?thesis by auto
qed

end
