(* ===== verification/Receipt_Allocation.thy ===== *)
theory Receipt_Allocation
  imports Instants
begin

text \<open>
  Model of \<^verbatim>\<open>allocateReceiptToLines\<close> of \<^verbatim>\<open>receipt-allocation.ts\<close>: a receipt (or a
  reversal) is spread over the lines of one invoice, by explicit shares or in proportion to the
  outstanding balances. All amounts are exact fractions; a share is bounded by its line's balance
  and the shares add up to the receipt.
\<close>

section \<open>Input and output\<close>

datatype allocation_direction = Dir_receipt | Dir_reversal

datatype allocation_rule = Rule_explicit | Rule_separate_invoice | Rule_pro_rata

record receipt_line =
  rl_id :: string
  rl_invoiceId :: string
  rl_existedAt :: string
  rl_outstandingGross :: exact_text
  rl_netPence :: int
  rl_grossPence :: int

record explicit_share =
  es_lineId :: string
  es_gross :: exact_text

record receipt_allocation_input =
  ra_sourceRef :: string
  ra_receiptGross :: exact_text
  ra_effectiveAt :: string
  ra_direction :: allocation_direction
  ra_invoiceId :: string
  ra_separateInvoiceId :: "string option"
  ra_explicit :: "explicit_share list option"
  ra_lines :: "receipt_line list"

record line_allocation =
  la_lineId :: string
  la_rule :: allocation_rule
  la_sourceRef :: string
  la_gross :: exact_pence
  la_net :: exact_pence

definition amount_ok :: "int \<Rightarrow> bool" where
  "amount_ok v \<longleftrightarrow> 0 \<le> v \<and> v \<le> MAX_MONEY_PENCE"

definition text_within :: "nat \<Rightarrow> string \<Rightarrow> bool" where
  "text_within n s \<longleftrightarrow> 1 \<le> length s \<and> length s \<le> n"

definition INTEGER_TEXT :: "string \<Rightarrow> bool" where
  "INTEGER_TEXT s \<longleftrightarrow> (let r = (case s of c # r \<Rightarrow> (if c = CHR ''-'' then r else s) | [] \<Rightarrow> s)
     in r \<noteq> [] \<and> list_all is_digit r)"

definition isComparable :: "receipt_line \<Rightarrow> bool" where
  "isComparable l \<longleftrightarrow> INTEGER_TEXT (numerator_text (rl_outstandingGross l)) \<and>
     INTEGER_TEXT (denominator_text (rl_outstandingGross l)) \<and> is_safe_integer (JInt (rl_grossPence l))"

definition receipt_line_ok :: "receipt_line \<Rightarrow> bool" where
  "receipt_line_ok l \<longleftrightarrow> text_within 200 (rl_id l) \<and> text_within 200 (rl_invoiceId l) \<and>
     instantV1 (rl_existedAt l) \<and> exactPenceInputV1 (rl_outstandingGross l) \<and>
     amount_ok (rl_netPence l) \<and> amount_ok (rl_grossPence l) \<and> rl_grossPence l > 0 \<and>
     rl_netPence l \<le> rl_grossPence l \<and>
     (\<not> isComparable l \<or> int_of_text (numerator_text (rl_outstandingGross l)) \<le>
        rl_grossPence l * int_of_text (denominator_text (rl_outstandingGross l)))"

definition receiptAllocationV1 :: "receipt_allocation_input \<Rightarrow> bool" where
  "receiptAllocationV1 i \<longleftrightarrow> text_within 300 (ra_sourceRef i) \<and> exactPenceInputV1 (ra_receiptGross i) \<and>
     instantV1 (ra_effectiveAt i) \<and> text_within 200 (ra_invoiceId i) \<and>
     (case ra_separateInvoiceId i of None \<Rightarrow> True | Some s \<Rightarrow> text_within 200 s) \<and>
     (case ra_explicit i of None \<Rightarrow> True | Some es \<Rightarrow> length es \<le> MAX_ALLOCATION_LINES \<and>
        list_all (\<lambda>e. text_within 200 (es_lineId e) \<and> exactPenceInputV1 (es_gross e)) es) \<and>
     length (ra_lines i) \<le> MAX_ALLOCATION_LINES \<and> list_all receipt_line_ok (ra_lines i)"

section \<open>The allocator\<close>

type_synonym open_line = "receipt_line \<times> exact_pence"

definition read_exact :: "exact_text \<Rightarrow> shared_error + exact_pence" where
  "read_exact t = bind_r (parseExactPence exactPenceInputV1 t) (\<lambda>v. exactPence (numerator v) (denominator v))"

definition allocation_total :: "exact_pence list \<Rightarrow> shared_error + exact_pence" where
  "allocation_total vs =
     map_err (\<lambda>_. INVALID_ALLOCATION) (sumExactPence vs MAX_EXACT_PENCE_INPUT_DIGITS MAX_ALLOCATION_WORKING_DIGITS)"

definition read_line :: "receipt_line \<Rightarrow> shared_error + open_line" where
  "read_line l = bind_r (read_exact (rl_outstandingGross l)) (\<lambda>q. Inr (l, q))"

definition eligible_line :: "receipt_allocation_input \<Rightarrow> instant \<Rightarrow> open_line \<Rightarrow> shared_error + bool" where
  "eligible_line i effectiveAt l =
     (if rl_invoiceId (fst l) \<noteq> ra_invoiceId i then Inr False
      else bind_r (parseInstant (rl_existedAt (fst l))) (\<lambda>existed.
        Inr (compareInstants existed effectiveAt \<le> 0 \<and> numerator (snd l) > 0)))"

definition rule_of :: "receipt_allocation_input \<Rightarrow> allocation_rule" where
  "rule_of i = (if ra_explicit i \<noteq> None then Rule_explicit
     else if ra_separateInvoiceId i \<noteq> None then Rule_separate_invoice else Rule_pro_rata)"

definition append_share ::
  "receipt_allocation_input \<Rightarrow> open_line \<Rightarrow> exact_pence \<Rightarrow> shared_error + line_allocation" where
  "append_share i line gross =
     (if numerator gross < 0 \<or> compareExactPence gross (snd line) > 0 then Inl INVALID_ALLOCATION
      else bind_r (if ra_direction i = Dir_reversal then exactPence (- numerator gross) (denominator gross)
                   else Inr gross) (\<lambda>signed.
      bind_r (exactPence (rl_netPence (fst line)) (rl_grossPence (fst line))) (\<lambda>netRatio.
      bind_r (multiplyExactPence signed netRatio) (\<lambda>net.
        Inr \<lparr>la_lineId = rl_id (fst line), la_rule = rule_of i, la_sourceRef = ra_sourceRef i,
             la_gross = signed, la_net = net\<rparr>))))"

definition read_share :: "open_line list \<Rightarrow> explicit_share \<Rightarrow> shared_error + (open_line option \<times> exact_pence)" where
  "read_share eligible e = bind_r (read_exact (es_gross e)) (\<lambda>gross.
     Inr (map_of (map (\<lambda>l. (rl_id (fst l), l)) eligible) (es_lineId e), gross))"

definition append_explicit ::
  "receipt_allocation_input \<Rightarrow> open_line option \<times> exact_pence \<Rightarrow> shared_error + line_allocation" where
  "append_explicit i s = (case fst s of None \<Rightarrow> Inl INVALID_ALLOCATION | Some line \<Rightarrow> append_share i line (snd s))"

definition allocate_explicit ::
  "receipt_allocation_input \<Rightarrow> exact_pence \<Rightarrow> open_line list \<Rightarrow> explicit_share list \<Rightarrow> shared_error + line_allocation list" where
  "allocate_explicit i receipt eligible es =
     (if \<not> distinct (map es_lineId es) then Inl INVALID_ALLOCATION
      else bind_r (map_r (read_share eligible) es) (\<lambda>shares.
      bind_r (allocation_total (map snd shares)) (\<lambda>t.
      if compareExactPence t receipt \<noteq> 0 then Inl INVALID_ALLOCATION
      else map_r (append_explicit i) shares)))"

definition append_proportion ::
  "receipt_allocation_input \<Rightarrow> exact_pence \<Rightarrow> exact_pence \<Rightarrow> open_line \<Rightarrow> shared_error + line_allocation" where
  "append_proportion i receipt proportion line =
     bind_r (multiplyExactPence (snd line) proportion) (\<lambda>share.
     bind_r (multiplyExactPence receipt share) (append_share i line))"

definition allocate_pro_rata ::
  "receipt_allocation_input \<Rightarrow> exact_pence \<Rightarrow> open_line list \<Rightarrow> shared_error + line_allocation list" where
  "allocate_pro_rata i receipt eligible =
     bind_r (allocation_total (map snd eligible)) (\<lambda>outstanding.
     if compareExactPence receipt outstanding > 0 then Inl INVALID_ALLOCATION
     else if numerator receipt \<noteq> 0 then
       bind_r (exactPence (denominator outstanding) (numerator outstanding)) (\<lambda>proportion.
         map_r (append_proportion i receipt proportion) eligible)
     else Inr [])"

definition allocateReceiptToLines :: "receipt_allocation_input \<Rightarrow> shared_error + line_allocation list" where
  "allocateReceiptToLines i =
     (if \<not> receiptAllocationV1 i then Inl INVALID_ALLOCATION
      else bind_r (read_exact (ra_receiptGross i)) (\<lambda>receipt.
      if numerator receipt < 0 \<or> \<not> distinct (map rl_id (ra_lines i)) then Inl INVALID_ALLOCATION
      else bind_r (map_r read_line (ra_lines i)) (\<lambda>allLines.
      bind_r (parseInstant (ra_effectiveAt i)) (\<lambda>effectiveAt.
      if list_ex (\<lambda>l. numerator (snd l) < 0) allLines then Inl INVALID_ALLOCATION
      else bind_r (filter_r (eligible_line i effectiveAt) allLines) (\<lambda>eligible.
      if ra_separateInvoiceId i \<noteq> None \<and> ra_separateInvoiceId i \<noteq> Some (ra_invoiceId i) then Inl INVALID_ALLOCATION
      else (case ra_explicit i of
          Some es \<Rightarrow> allocate_explicit i receipt eligible es
        | None \<Rightarrow> allocate_pro_rata i receipt eligible))))))"

section \<open>Readers\<close>

definition text_val :: "exact_text \<Rightarrow> rat" where
  "text_val t = of_int (int_of_text (numerator_text t)) / of_int (int_of_text (denominator_text t))"

lemma read_exact_InrD: "read_exact t = Inr q \<Longrightarrow> exact_ok q \<and> val q = text_val t"
  by (auto simp: read_exact_def parseExactPence_def text_val_def result_simps Let_def dest!: exactPence_InrD)

lemma allocation_total_InrD:
  assumes "allocation_total vs = Inr q" and "\<forall>v\<in>set vs. exact_ok v"
  shows "exact_ok q \<and> val q = sum_list (map val vs)"
proof -
  have "\<forall>v\<in>set vs. 0 < denominator v" using assms(2) by simp
  from sumExactPence_unfold [OF this, of MAX_EXACT_PENCE_INPUT_DIGITS MAX_ALLOCATION_WORKING_DIGITS] assms(1)
  show ?thesis unfolding allocation_total_def map_err_Inr_iff by (elim exE conjE) (simp split: if_splits)
qed

lemma read_line_InrD: "read_line l = Inr r \<Longrightarrow>
  fst r = l \<and> exact_ok (snd r) \<and> val (snd r) = text_val (rl_outstandingGross l)"
  by (auto simp: read_line_def result_simps dest!: read_exact_InrD)

lemma filter_r_sound: "filter_r f xs = Inr ys \<Longrightarrow>
  (\<forall>y\<in>set ys. y \<in> set xs \<and> f y = Inr True)"
  by (induction xs arbitrary: ys) (auto simp: result_simps split: if_splits)

section \<open>Shares\<close>

definition direction_sign :: "receipt_allocation_input \<Rightarrow> rat" where
  "direction_sign i = (if ra_direction i = Dir_reversal then - 1 else 1)"

text \<open>What one output row says about the line it belongs to.\<close>

definition share_sound :: "receipt_allocation_input \<Rightarrow> receipt_line \<Rightarrow> line_allocation \<Rightarrow> bool" where
  "share_sound i l a \<longleftrightarrow> la_lineId a = rl_id l \<and> la_rule a = rule_of i \<and> la_sourceRef a = ra_sourceRef i \<and>
     exact_ok (la_gross a) \<and> exact_ok (la_net a) \<and>
     0 \<le> direction_sign i * val (la_gross a) \<and>
     direction_sign i * val (la_gross a) \<le> text_val (rl_outstandingGross l) \<and>
     val (la_net a) = val (la_gross a) * (of_int (rl_netPence l) / of_int (rl_grossPence l))"

text \<open>The line is on the receipt's invoice, existed when the receipt took effect and is open.\<close>

definition line_open :: "receipt_allocation_input \<Rightarrow> receipt_line \<Rightarrow> bool" where
  "line_open i l \<longleftrightarrow> rl_invoiceId l = ra_invoiceId i \<and> 0 < text_val (rl_outstandingGross l) \<and>
     (\<exists>t e. parseInstant (rl_existedAt l) = Inr t \<and> parseInstant (ra_effectiveAt i) = Inr e \<and>
        instant_value t \<le> instant_value e)"

definition opened :: "receipt_allocation_input \<Rightarrow> open_line \<Rightarrow> bool" where
  "opened i p \<longleftrightarrow> fst p \<in> set (ra_lines i) \<and> line_open i (fst p) \<and> exact_ok (snd p) \<and>
     val (snd p) = text_val (rl_outstandingGross (fst p))"

lemma append_share_sound:
  assumes "append_share i p g = Inr a" "exact_ok g" "opened i p"
  shows "share_sound i (fst p) a \<and> val (la_gross a) = direction_sign i * val g"
proof -
  have p: "exact_ok (snd p)" "val (snd p) = text_val (rl_outstandingGross (fst p))" using assms(3) by (simp_all add: opened_def)
  from assms(1) obtain s r n where g: "0 \<le> numerator g" "compareExactPence g (snd p) \<le> 0"
    and s: "(if ra_direction i = Dir_reversal then exactPence (- numerator g) (denominator g) else Inr g) = Inr s"
    and r: "exactPence (rl_netPence (fst p)) (rl_grossPence (fst p)) = Inr r"
    and n: "multiplyExactPence s r = Inr n"
    and a: "a = \<lparr>la_lineId = rl_id (fst p), la_rule = rule_of i, la_sourceRef = ra_sourceRef i, la_gross = s, la_net = n\<rparr>"
    by (auto simp: append_share_def result_simps not_le not_less split: if_splits)
  have sv: "exact_ok s" "val s = direction_sign i * val g"
    using s assms(2) by (auto simp: direction_sign_def val_def split: if_splits dest!: exactPence_InrD)
  have "0 \<le> val g" using g(1) val_neg_iff [of g] assms(2) by (simp add: not_less [symmetric])
  moreover have "val g \<le> val (snd p)" using g(2) ex.cmp_iff(4) [OF assms(2) p(1)] by simp
  moreover have "direction_sign i * val s = val g" using sv(2) by (simp add: direction_sign_def)
  ultimately have "share_sound i (fst p) a" using sv(1) p exactPence_InrD [OF r] ex.mul_InrD [OF n sv(1)]
    by (simp add: a share_sound_def)
  with sv(2) show ?thesis by (simp add: a)
qed

lemma allocate_explicit_sound:
  assumes "allocate_explicit i r el es = Inr out" "exact_ok r" "\<forall>p\<in>set el. opened i p"
  shows "(\<forall>a\<in>set out. \<exists>p\<in>set el. share_sound i (fst p) a) \<and> distinct (map la_lineId out) \<and>
    sum_list (map (val \<circ> la_gross) out) = direction_sign i * val r"
proof -
  from assms(1) obtain shares t where d: "distinct (map es_lineId es)"
    and sh: "map_r (read_share el) es = Inr shares" and t: "allocation_total (map snd shares) = Inr t"
    and c: "compareExactPence t r = 0" and out: "map_r (append_explicit i) shares = Inr out"
    by (auto simp: allocate_explicit_def result_simps)
  have share: "\<forall>s\<in>set shares. exact_ok (snd s) \<and> (\<forall>p. fst s = Some p \<longrightarrow> p \<in> set el)"
  proof
    fix s assume "s \<in> set shares"
    then obtain e where "read_share el e = Inr s" using map_r_InrD [OF sh] by blast
    then show "exact_ok (snd s) \<and> (\<forall>p. fst s = Some p \<longrightarrow> p \<in> set el)"
      by (auto simp: read_share_def result_simps dest!: read_exact_InrD map_of_SomeD)
  qed
  have row: "(\<exists>p\<in>set el. share_sound i (fst p) a) \<and> (val \<circ> la_gross) a = direction_sign i * val (snd s)
      \<and> (\<exists>p. fst s = Some p \<and> la_lineId a = rl_id (fst p))"
    if s: "s \<in> set shares" and a: "append_explicit i s = Inr a" for s a
  proof -
    obtain p where p: "fst s = Some p" "append_share i p (snd s) = Inr a"
      using a by (auto simp: append_explicit_def split: option.splits)
    then have "p \<in> set el" "exact_ok (snd s)" using share s by blast+
    with append_share_sound [OF p(2)] assms(3) p(1) show ?thesis by (auto simp: share_sound_def)
  qed
  have "map (val \<circ> la_gross) out = map (\<lambda>s. direction_sign i * val (snd s)) shares"
    by (rule map_r_Inr_sum [OF out]) (use row in blast)
  then have "sum_list (map (val \<circ> la_gross) out) = direction_sign i * sum_list (map val (map snd shares))"
    by (simp add: sum_list_const_mult o_def)
  moreover have "exact_ok t" "val t = sum_list (map val (map snd shares))"
    using allocation_total_InrD [OF t] share by auto
  moreover have "val t = val r" using c ex.cmp_iff(3) [OF \<open>exact_ok t\<close> assms(2)] by simp
  moreover have "map es_lineId es = map la_lineId out"
  proof -
    have key: "la_lineId a = es_lineId e" if e: "read_share el e = Inr s" and a: "append_explicit i s = Inr a" for e s a
    proof -
      obtain p where p: "fst s = Some p" "append_share i p (snd s) = Inr a"
        using a by (auto simp: append_explicit_def split: option.splits)
      have "map_of (map (\<lambda>l. (rl_id (fst l), l)) el) (es_lineId e) = Some p"
        using e p(1) by (auto simp: read_share_def result_simps)
      then have "rl_id (fst p) = es_lineId e" using map_of_SomeD by fastforce
      moreover have "la_lineId a = rl_id (fst p)"
        using p(2) by (auto simp: append_share_def result_simps)
      ultimately show ?thesis by simp
    qed
    have "list_all2 (\<lambda>e a. es_lineId e = la_lineId a) es out"
      by (rule list_all2_trans [OF _ sh [unfolded map_r_Inr_list_all2] out [unfolded map_r_Inr_list_all2]])
        (simp add: key)
    then show ?thesis by (simp add: list_all2_map_eq)
  qed
  moreover have "\<forall>a\<in>set out. \<exists>p\<in>set el. share_sound i (fst p) a"
    using row map_r_InrD [OF out] by blast
  ultimately show ?thesis using d by simp
qed

lemma append_proportion_sound:
  assumes a: "append_proportion i r q p = Inr a" and r: "exact_ok r" and q: "exact_ok q" and p: "opened i p"
  shows "share_sound i (fst p) a \<and> val (la_gross a) = direction_sign i * (val r * (val (snd p) * val q))"
proof -
  from a obtain s g where s: "multiplyExactPence (snd p) q = Inr s" and g: "multiplyExactPence r s = Inr g"
    and a': "append_share i p g = Inr a"
    by (auto simp: append_proportion_def result_simps)
  have s': "exact_ok s" "val s = val (snd p) * val q" using ex.mul_InrD [OF s _ q] p by (simp_all add: opened_def)
  then have "exact_ok g" "val g = val r * val s" using ex.mul_InrD [OF g r] by simp_all
  with append_share_sound [OF a' _ p] s'(2) show ?thesis by simp
qed

lemma allocate_pro_rata_sound:
  assumes "allocate_pro_rata i r el = Inr out" "exact_ok r" "\<forall>p\<in>set el. opened i p"
    and d: "distinct (map (rl_id \<circ> fst) el)"
  shows "(\<forall>a\<in>set out. \<exists>p\<in>set el. share_sound i (fst p) a \<and>
      val (la_gross a) * sum_list (map (val \<circ> snd) el) = direction_sign i * val r * val (snd p)) \<and>
    distinct (map la_lineId out) \<and> sum_list (map (val \<circ> la_gross) out) = direction_sign i * val r"
proof -
  from assms(1) obtain t where t: "allocation_total (map snd el) = Inr t" and c: "compareExactPence r t \<le> 0"
    and out: "if numerator r \<noteq> 0 then \<exists>q. exactPence (denominator t) (numerator t) = Inr q \<and>
        map_r (append_proportion i r q) el = Inr out else out = []"
    by (auto simp: allocate_pro_rata_def result_simps not_less split: if_splits)
  have t': "exact_ok t" "val t = sum_list (map (val \<circ> snd) el)"
    using allocation_total_InrD [OF t] assms(3) by (simp_all add: opened_def)
  show ?thesis
  proof (cases "numerator r = 0")
    case True
    then have "val r = 0" by (simp add: val_def)
    with out True show ?thesis by simp
  next
    case False
    with out obtain q where q: "exactPence (denominator t) (numerator t) = Inr q"
      and m: "map_r (append_proportion i r q) el = Inr out" by auto
    have q': "0 < numerator t" "exact_ok q" "val q = 1 / val t"
      using exactPence_InrD [OF q] by (simp_all add: val_def)
    then have T: "0 < val t" using t'(1) by (simp add: val_def)
    have row: "share_sound i (fst p) a \<and> val (la_gross a) = direction_sign i * val r * val (snd p) / val t"
      if "p \<in> set el" "append_proportion i r q p = Inr a" for p a
      using append_proportion_sound [OF that(2) assms(2) q'(2)] that(1) assms(3) q'(3) by simp
    have "map (val \<circ> la_gross) out = map (\<lambda>p. (direction_sign i * val r / val t) * (val \<circ> snd) p) el"
      by (rule map_r_Inr_sum [OF m]) (use row in auto)
    then have "sum_list (map (val \<circ> la_gross) out) = (direction_sign i * val r / val t) * sum_list (map (val \<circ> snd) el)"
      by (simp only: sum_list_const_mult)
    then have "sum_list (map (val \<circ> la_gross) out) = direction_sign i * val r" using T t'(2) by simp
    moreover have "map la_lineId out = map (rl_id \<circ> fst) el"
      by (rule map_r_Inr_sum [OF m]) (use row in \<open>auto simp: share_sound_def\<close>)
    moreover have "\<forall>a\<in>set out. \<exists>p\<in>set el. share_sound i (fst p) a \<and>
      val (la_gross a) * val t = direction_sign i * val r * val (snd p)"
      using map_r_InrD [OF m] row T by fastforce
    ultimately show ?thesis using d t'(2) by simp
  qed
qed

lemma allocation_total_eq:
  assumes "exact_ok q" "val q = sum_list (map val vs)" "\<forall>v\<in>set vs. denominator v = 1" "vs \<noteq> []"
    "denominator q < 10 ^ 100" "\<bar>numerator q\<bar> < 10 ^ 100"
  shows "allocation_total vs = Inr q"
proof -
  have p: "\<forall>v\<in>set vs. 0 < denominator v" using assms(3) by simp
  have "0 < MAX_ALLOCATION_WORKING_DIGITS"
    by (simp add: MAX_ALLOCATION_WORKING_DIGITS_def MAX_ALLOCATION_LINES_def MONEY_DIGITS_def)
  then have W: "\<not> (10::int) ^ MAX_ALLOCATION_WORKING_DIGITS \<le> 1"
    unfolding not_le by (intro one_less_power) simp_all
  have L: "Lcm (denominator ` set vs) = 1" using assms(3,4) by (simp cong: image_cong)
  from sumExactPence_unfold [OF p, of MAX_EXACT_PENCE_INPUT_DIGITS MAX_ALLOCATION_WORKING_DIGITS] obtain q' where
    q': "exact_ok q'" "val q' = sum_list (map val vs)" and
    eq: "sumExactPence vs MAX_EXACT_PENCE_INPUT_DIGITS MAX_ALLOCATION_WORKING_DIGITS =
      (if vs \<noteq> [] \<and> 10 ^ MAX_ALLOCATION_WORKING_DIGITS \<le> Lcm (denominator ` set vs) then Inl INVALID_SHARED_MONEY
       else if denominator q' \<ge> 10 ^ MAX_EXACT_PENCE_INPUT_DIGITS \<or> \<bar>numerator q'\<bar> \<ge> 10 ^ MAX_EXACT_PENCE_INPUT_DIGITS
       then Inl INVALID_SHARED_MONEY else Inr q')" by blast
  have "q' = q" using q' assms(1,2) by (intro exact_ok_unique) simp_all
  then show ?thesis unfolding allocation_total_def eq L
    using W assms(5,6) by (simp add: MAX_EXACT_PENCE_INPUT_DIGITS_def)
qed

lemma parseInstant_of_instantV1: "instantV1 s \<Longrightarrow> \<exists>t. parseInstant s = Inr t"
  by (auto simp: instantV1_def parseInstant_def)

lemma filter_r_eq:
  "filter_r f xs = Inr ys \<Longrightarrow> \<forall>x\<in>set xs. \<forall>b. f x = Inr b \<longrightarrow> b = P x \<Longrightarrow> ys = filter P xs"
  by (induction xs arbitrary: ys) (auto simp: result_simps)

lemma eligible_line_iff:
  assumes p: "read_line l = Inr p" and e: "parseInstant (ra_effectiveAt i) = Inr t"
    and b: "eligible_line i t p = Inr b"
  shows "b = line_open i (fst p)"
proof (cases "rl_invoiceId (fst p) = ra_invoiceId i")
  case False
  with b show ?thesis by (simp add: eligible_line_def line_open_def)
next
  case True
  with b obtain x where x: "parseInstant (rl_existedAt (fst p)) = Inr x"
    and bx: "b = (compareInstants x t \<le> 0 \<and> 0 < numerator (snd p))"
    by (auto simp: eligible_line_def result_simps)
  have "fst p = l" "exact_ok (snd p)" and v: "val (snd p) = text_val (rl_outstandingGross l)"
    using read_line_InrD [OF p] by simp_all
  then have "0 < numerator (snd p) \<longleftrightarrow> 0 < text_val (rl_outstandingGross (fst p))"
    using exact_ok_pos [of "snd p"] by (simp flip: v) (auto simp: val_def zero_less_divide_iff dest: order.asym)
  moreover have "compareInstants x t \<le> 0 \<longleftrightarrow> instant_value x \<le> instant_value t"
    using compareInstants_value [OF parseInstant_ok [OF x] parseInstant_ok [OF e]] by auto
  ultimately show ?thesis using True x e by (simp add: bx line_open_def) blast
qed

text \<open>The eligible lines are exactly the open lines of the input, with their balances read.\<close>

lemma eligible_lines:
  assumes all: "map_r read_line (ra_lines i) = Inr ls" and e: "parseInstant (ra_effectiveAt i) = Inr t"
    and el: "filter_r (eligible_line i t) ls = Inr el"
  shows "map fst el = filter (line_open i) (ra_lines i)" and "\<forall>p\<in>set el. opened i p"
    and "map (val \<circ> snd) el = map (text_val \<circ> rl_outstandingGross) (filter (line_open i) (ra_lines i))"
proof -
  have ls: "\<forall>p\<in>set ls. fst p \<in> set (ra_lines i) \<and> read_line (fst p) = Inr p"
    using map_r_InrD [OF all] read_line_InrD by blast
  have "el = filter (\<lambda>p. line_open i (fst p)) ls"
    using el by (rule filter_r_eq) (use ls eligible_line_iff [OF _ e] in blast)
  moreover have "map fst ls = map (\<lambda>l. l) (ra_lines i)"
    by (rule map_r_Inr_sum [OF all]) (simp add: read_line_InrD)
  ultimately show f: "map fst el = filter (line_open i) (ra_lines i)"
    using filter_map [of "line_open i" fst ls] by (simp add: o_def)
  have v: "val (snd p) = text_val (rl_outstandingGross (fst p))" if "p \<in> set el" for p
    using that ls \<open>el = _\<close> read_line_InrD [of "fst p" p] by simp
  show "\<forall>p\<in>set el. opened i p"
    using ls \<open>el = _\<close> v read_line_InrD by (auto simp: opened_def)
  show "map (val \<circ> snd) el = map (text_val \<circ> rl_outstandingGross) (filter (line_open i) (ra_lines i))"
    unfolding f [symmetric] using v by simp
qed

lemma distinct_map_filter_r:
  "filter_r f xs = Inr ys \<Longrightarrow> distinct (map g xs) \<Longrightarrow> distinct (map g ys)"
proof -
  have "set ys \<subseteq> set xs" if "filter_r f xs = Inr ys" for xs ys using filter_r_sound [OF that] by blast
  then show "filter_r f xs = Inr ys \<Longrightarrow> distinct (map g xs) \<Longrightarrow> distinct (map g ys)"
  proof (induction xs arbitrary: ys)
    case (Cons x xs)
    then obtain b zs where "f x = Inr b" "filter_r f xs = Inr zs" "ys = (if b then x # zs else zs)"
      by (auto simp: result_simps)
    with Cons show ?case by auto
  qed simp
qed

lemma allocateReceiptToLines_sound:
  assumes "allocateReceiptToLines i = Inr out"
  shows "sum_list (map (val \<circ> la_gross) out) = direction_sign i * text_val (ra_receiptGross i) \<and>
    distinct (map la_lineId out) \<and>
    (\<forall>a\<in>set out. \<exists>l\<in>set (ra_lines i). line_open i l \<and> share_sound i l a \<and>
      (ra_explicit i = None \<longrightarrow>
        val (la_gross a) * sum_list (map (text_val \<circ> rl_outstandingGross) (filter (line_open i) (ra_lines i))) =
        direction_sign i * text_val (ra_receiptGross i) * text_val (rl_outstandingGross l)))"
proof -
  from assms obtain r ls t el where r: "read_exact (ra_receiptGross i) = Inr r"
    and d: "distinct (map rl_id (ra_lines i))" and ls: "map_r read_line (ra_lines i) = Inr ls"
    and t: "parseInstant (ra_effectiveAt i) = Inr t" and el: "filter_r (eligible_line i t) ls = Inr el"
    and out: "(case ra_explicit i of Some es \<Rightarrow> allocate_explicit i r el es | None \<Rightarrow> allocate_pro_rata i r el) = Inr out"
    unfolding allocateReceiptToLines_def result_simps by blast
  have r': "exact_ok r" "val r = text_val (ra_receiptGross i)" using read_exact_InrD [OF r] by simp_all
  note lines = eligible_lines [OF ls t el]
  have "map (rl_id \<circ> fst) el = map rl_id (map fst el)" by simp
  then have de: "distinct (map (rl_id \<circ> fst) el)" using d lines(1) by (simp add: distinct_map_filter)
  have fst: "fst p \<in> set (ra_lines i) \<and> line_open i (fst p) \<and> val (snd p) = text_val (rl_outstandingGross (fst p))"
    if "p \<in> set el" for p using lines(2) that by (simp add: opened_def)
  show ?thesis
  proof (cases "ra_explicit i")
    case (Some es)
    then have x: "allocate_explicit i r el es = Inr out" using out by simp
    note es = allocate_explicit_sound [OF x r'(1) lines(2)]
    then have "\<forall>a\<in>set out. \<exists>l\<in>set (ra_lines i). line_open i l \<and> share_sound i l a" using fst by blast
    with es Some r'(2) show ?thesis by simp
  next
    case None
    then have x: "allocate_pro_rata i r el = Inr out" using out by simp
    note pr = allocate_pro_rata_sound [OF x r'(1) lines(2) de, unfolded lines(3)]
    have "\<forall>a\<in>set out. \<exists>l\<in>set (ra_lines i). line_open i l \<and> share_sound i l a \<and>
        val (la_gross a) * sum_list (map (text_val \<circ> rl_outstandingGross) (filter (line_open i) (ra_lines i))) =
        direction_sign i * text_val (ra_receiptGross i) * text_val (rl_outstandingGross l)"
      using pr fst r'(2) by metis
    with pr r'(2) show ?thesis by (simp only:) blast
  qed
qed

text \<open>
  C1. The allocator conserves the receipt exactly: on success the shares' gross amounts add up to
  the receipt (or to minus the receipt for a reversal) as rational numbers, no line is paid twice,
  and every share goes to a line of the receipt's invoice that existed at the receipt's time and is
  open, is between zero and that line's outstanding balance, and has the line's own net-to-gross
  ratio; without explicit shares every share is in exact proportion to its line's balance among the
  open lines of the invoice.
\<close>

theorem allocateReceiptToLines_conserves:
  assumes "allocateReceiptToLines i = Inr out"
  shows "sum_list (map (val \<circ> la_gross) out) = direction_sign i * text_val (ra_receiptGross i) \<and>
    distinct (map la_lineId out) \<and>
    (\<forall>a\<in>set out. \<exists>l\<in>set (ra_lines i). line_open i l \<and> share_sound i l a \<and>
      (ra_explicit i = None \<longrightarrow>
        val (la_gross a) * sum_list (map (text_val \<circ> rl_outstandingGross) (filter (line_open i) (ra_lines i))) =
        direction_sign i * text_val (ra_receiptGross i) * text_val (rl_outstandingGross l)))"
  by (rule allocateReceiptToLines_sound [OF assms])

definition receipt_example :: receipt_allocation_input where
  "receipt_example = \<lparr>ra_sourceRef = ''bank:1'', ra_receiptGross = \<lparr>numerator_text = ''100'', denominator_text = ''1''\<rparr>,
     ra_effectiveAt = ''2026-10-11T09:30:00Z'', ra_direction = Dir_receipt, ra_invoiceId = ''inv'',
     ra_separateInvoiceId = None, ra_explicit = None,
     ra_lines = [\<lparr>rl_id = ''a'', rl_invoiceId = ''inv'', rl_existedAt = ''2026-10-10T09:30Z'',
         rl_outstandingGross = \<lparr>numerator_text = ''200'', denominator_text = ''1''\<rparr>, rl_netPence = 200, rl_grossPence = 240\<rparr>,
       \<lparr>rl_id = ''b'', rl_invoiceId = ''inv'', rl_existedAt = ''2026-10-11T09:30Z'',
         rl_outstandingGross = \<lparr>numerator_text = ''100'', denominator_text = ''1''\<rparr>, rl_netPence = 100, rl_grossPence = 120\<rparr>,
       \<lparr>rl_id = ''c'', rl_invoiceId = ''inv'', rl_existedAt = ''2026-10-11T09:31Z'',
         rl_outstandingGross = \<lparr>numerator_text = ''100'', denominator_text = ''1''\<rparr>, rl_netPence = 100, rl_grossPence = 120\<rparr>]\<rparr>"

theorem allocateReceiptToLines_conserves_witness:
  "\<exists>out. allocateReceiptToLines receipt_example = Inr out \<and> map la_lineId out = [''a'', ''b''] \<and>
     sum_list (map (val \<circ> la_gross) out) = 100"
proof -
  let ?a = "\<lparr>rl_id = ''a'', rl_invoiceId = ''inv'', rl_existedAt = ''2026-10-10T09:30Z'',
         rl_outstandingGross = \<lparr>numerator_text = ''200'', denominator_text = ''1''\<rparr>, rl_netPence = 200, rl_grossPence = 240\<rparr>"
  let ?b = "\<lparr>rl_id = ''b'', rl_invoiceId = ''inv'', rl_existedAt = ''2026-10-11T09:30Z'',
         rl_outstandingGross = \<lparr>numerator_text = ''100'', denominator_text = ''1''\<rparr>, rl_netPence = 100, rl_grossPence = 120\<rparr>"
  let ?el = "[(?a, \<lparr>numerator = 200, denominator = 1\<rparr>), (?b, \<lparr>numerator = 100, denominator = 1\<rparr>)]"
  have ok: "receiptAllocationV1 receipt_example"
    by (simp add: receiptAllocationV1_def receipt_example_def MAX_ALLOCATION_LINES_def) code_simp
  have r: "read_exact (ra_receiptGross receipt_example) = Inr \<lparr>numerator = 100, denominator = 1\<rparr>" by code_simp
  have l: "bind_r (map_r read_line (ra_lines receipt_example)) (\<lambda>ls. bind_r (parseInstant (ra_effectiveAt receipt_example))
      (\<lambda>t. if list_ex (\<lambda>l. numerator (snd l) < 0) ls then Inl INVALID_ALLOCATION
        else filter_r (eligible_line receipt_example t) ls)) = Inr ?el" by code_simp
  have t: "allocation_total (map snd ?el) = Inr \<lparr>numerator = 300, denominator = 1\<rparr>"
    by (rule allocation_total_eq) (simp_all add: exact_ok_def val_def)
  have m: "map_r (append_proportion receipt_example \<lparr>numerator = 100, denominator = 1\<rparr> \<lparr>numerator = 1, denominator = 300\<rparr>) ?el =
      Inr [\<lparr>la_lineId = ''a'', la_rule = Rule_pro_rata, la_sourceRef = ''bank:1'', la_gross = \<lparr>numerator = 200, denominator = 3\<rparr>,
             la_net = \<lparr>numerator = 500, denominator = 9\<rparr>\<rparr>,
           \<lparr>la_lineId = ''b'', la_rule = Rule_pro_rata, la_sourceRef = ''bank:1'', la_gross = \<lparr>numerator = 100, denominator = 3\<rparr>,
             la_net = \<lparr>numerator = 250, denominator = 9\<rparr>\<rparr>]" by code_simp
  have q: "exactPence 1 300 = Inr \<lparr>numerator = 1, denominator = 300\<rparr>"
    "compareExactPence \<lparr>numerator = 100, denominator = 1\<rparr> \<lparr>numerator = 300, denominator = 1\<rparr> = - 1" by code_simp+
  have pr: "\<exists>out. allocate_pro_rata receipt_example \<lparr>numerator = 100, denominator = 1\<rparr> ?el = Inr out \<and> map la_lineId out = [''a'', ''b'']"
    unfolding allocate_pro_rata_def t by (simp add: q m del: map_r.simps)
  have "\<exists>out. allocateReceiptToLines receipt_example = Inr out \<and> map la_lineId out = [''a'', ''b'']"
  proof -
    from l obtain ls e where "map_r read_line (ra_lines receipt_example) = Inr ls"
      "parseInstant (ra_effectiveAt receipt_example) = Inr e" "\<not> list_ex (\<lambda>l. numerator (snd l) < 0) ls"
      "filter_r (eligible_line receipt_example e) ls = Inr ?el" unfolding result_simps by blast
    moreover have "ra_separateInvoiceId receipt_example = None" "ra_explicit receipt_example = None"
      "distinct (map rl_id (ra_lines receipt_example))" by (simp_all add: receipt_example_def)
    ultimately show ?thesis unfolding allocateReceiptToLines_def using pr by (simp add: ok r)
  qed
  then obtain out where out: "allocateReceiptToLines receipt_example = Inr out" "map la_lineId out = [''a'', ''b'']"
    by (elim exE conjE)
  from allocateReceiptToLines_conserves [OF out(1)]
  have "sum_list (map (val \<circ> la_gross) out) = direction_sign receipt_example * text_val (ra_receiptGross receipt_example)"
    by blast
  also have "\<dots> = 100"
    by (simp add: direction_sign_def receipt_example_def text_val_def int_of_text_def digits_val_def digit_val_def)
  finally show ?thesis by (intro exI [of _ out] conjI out)
qed

end
