(* ===== verification/Append_Book.thy ===== *)
theory Append_Book
  imports Money
begin

text \<open>
  What the append-only fixture books of \<^verbatim>\<open>retention-balances.ts\<close>,
  \<^verbatim>\<open>interim-applications.ts\<close> and \<^verbatim>\<open>cis-deductions.ts\<close> share: the bounded sum
  of pence, sums over maps, and the contract of the append command as the locale \<open>append_book\<close>,
  which each book interprets on its own definitions.
\<close>

section \<open>Bounded sums of pence\<close>

text \<open>\<^verbatim>\<open>moneyFromBigInt(values.reduce(...)).pence\<close>; an overflow is thrown as \<open>err\<close> of the money error.\<close>

definition money_sum :: "(money_error \<Rightarrow> 'e) \<Rightarrow> int list \<Rightarrow> 'e + int" where
  "money_sum err vs = bind_r (map_err err (moneyFromBigInt (sum_list vs))) (\<lambda>m. Inr (pence m))"

lemma money_sum_eq: "money_sum err vs =
    (if \<bar>sum_list vs\<bar> \<le> MAX_MONEY_PENCE then Inr (sum_list vs) else Inl (err Overflow))"
  by (simp add: money_sum_def moneyFromBigInt_eq)

lemma money_sum_Inr_iff [result_simps]:
  "money_sum err vs = Inr n \<longleftrightarrow> \<bar>sum_list vs\<bar> \<le> MAX_MONEY_PENCE \<and> n = sum_list vs"
  by (auto simp: money_sum_eq)

definition pence_ok :: "int \<Rightarrow> bool" where
  "pence_ok n \<longleftrightarrow> 0 \<le> n \<and> n \<le> MAX_MONEY_PENCE"

section \<open>Sums over maps\<close>

definition sum_by :: "('k \<Rightarrow> 'v \<Rightarrow> int) \<Rightarrow> ('k \<times> 'v) list \<Rightarrow> int" where
  "sum_by f m = sum_list (map (\<lambda>(k, v). f k v) m)"

lemma sum_by_simps [simp]:
  "sum_by f [] = 0" "sum_by f ((k, v) # m) = f k v + sum_by f m"
  by (simp_all add: sum_by_def)

lemma keys_update: "fst ` set (AList.update k v m) = insert k (fst ` set m)"
  by (induction m) auto

lemma map_of_update_fresh: "k \<notin> fst ` set m \<Longrightarrow> map_of (AList.update k v m) j = Some a \<longleftrightarrow>
    (j = k \<and> a = v) \<or> map_of m j = Some a"
  using map_of_eq_None_iff [of m k] by auto

lemma set_update_fresh: "k \<notin> fst ` set m \<Longrightarrow> set (AList.update k v m) = insert (k, v) (set m)"
  by (induction m) auto

lemma update_fresh: "k \<notin> fst ` set m \<Longrightarrow> AList.update k v m = m @ [(k, v)]"
  by (induction m) auto

lemma get0_Cons: "get0 ((j, v) # m) k = (if k = j then v else get0 m k)"
  by (auto simp: get0_def)

lemma get0_nonneg: "\<forall>(j, v)\<in>set m. 0 \<le> v \<Longrightarrow> 0 \<le> get0 m k"
  by (auto simp: get0_def split: option.splits dest!: map_of_SomeD)

lemma set_update_subset: "set (AList.update k v m) \<subseteq> insert (k, v) (set m)"
  by (induction m) auto

lemma sum_by_fresh: "k \<notin> fst ` set m \<Longrightarrow> sum_by f (AList.update k v m) = sum_by f m + f k v"
  by (induction m) auto

lemma sum_by_cong: "(\<And>k v. (k, v) \<in> set m \<Longrightarrow> f k v = g k v) \<Longrightarrow> sum_by f m = sum_by g m"
  by (induction m) auto

lemma sum_by_change:
  assumes "distinct (map fst m)" and "map_of m k = Some v" and "\<And>j w. j \<noteq> k \<Longrightarrow> g j w = f j w"
  shows "sum_by g m = sum_by f m - f k v + g k v"
  using assms(1,2)
proof (induction m)
  case (Cons p m)
  obtain j w where p: "p = (j, w)" by (cases p)
  show ?case
  proof (cases "j = k")
    case True
    have "k \<notin> fst ` set m" using True Cons.prems(1) p by simp
    then have "i \<noteq> k" if "(i, u) \<in> set m" for i u using that by (metis fst_conv image_eqI)
    then have "sum_by g m = sum_by f m" by (intro sum_by_cong) (simp add: assms(3))
    with True Cons.prems p show ?thesis by simp
  next
    case False
    with Cons p assms(3) show ?thesis by simp
  qed
qed simp

lemma sum_by_mono: "(\<And>k v. (k, v) \<in> set m \<Longrightarrow> f k v \<le> g k v) \<Longrightarrow> sum_by f m \<le> sum_by g m"
  by (induction m) (auto intro!: add_mono)

lemma sum_by_nonneg: "(\<And>k v. (k, v) \<in> set m \<Longrightarrow> 0 \<le> f k v) \<Longrightarrow> 0 \<le> sum_by f m"
  by (induction m) auto

lemma sum_by_member_le:
  "(k, v) \<in> set m \<Longrightarrow> (\<And>k v. (k, v) \<in> set m \<Longrightarrow> 0 \<le> f k v) \<Longrightarrow> f k v \<le> sum_by f m"
proof (induction m)
  case (Cons p m)
  obtain j w where p: "p = (j, w)" by (cases p)
  have "0 \<le> sum_by f m" using Cons.prems(2) by (intro sum_by_nonneg) simp
  moreover have "0 \<le> f j w" using Cons.prems(2) p by simp
  ultimately show ?case using Cons p by (auto simp: add_increasing)
qed simp

lemma sum_values_sum: "distinct (map fst m) \<Longrightarrow> sum_values m = (\<Sum>k\<in>fst ` set m. get0 m k)"
proof (induction m)
  case (Cons p m)
  obtain j w where p: "p = (j, w)" by (cases p)
  with Cons.prems have j: "j \<notin> fst ` set m" by simp
  then have "(\<Sum>k\<in>fst ` set m. get0 (p # m) k) = (\<Sum>k\<in>fst ` set m. get0 m k)"
    by (intro sum.cong) (auto simp: get0_def p)
  with Cons p j show ?case by (simp add: get0_def)
qed simp

lemma sum_values_keyed: "distinct (map fst m) \<Longrightarrow> sum_values m = sum_by (\<lambda>k v. get0 m k) m"
  by (auto simp: sum_values_def sum_by_def get0_def intro!: arg_cong [of _ _ sum_list] split: option.split)

text \<open>A map bounded key by key by another one has at most its total.\<close>

lemma sum_values_le_sum_by:
  assumes "distinct (map fst m)" and "distinct (map fst n)" and "fst ` set m \<subseteq> fst ` set n"
    and le: "\<And>k v. map_of n k = Some v \<Longrightarrow> get0 m k \<le> f k v \<and> 0 \<le> f k v"
  shows "sum_values m \<le> sum_by f n"
proof -
  have "sum_values m = (\<Sum>k\<in>fst ` set m. get0 m k)" by (rule sum_values_sum [OF assms(1)])
  also have "\<dots> = (\<Sum>k\<in>fst ` set n. get0 m k)"
    using assms(3) by (intro sum.mono_neutral_left) (auto simp: get0_notin)
  also have "\<dots> \<le> sum_by f n" using assms(2) le
  proof (induction n)
    case (Cons p n)
    obtain j w where p: "p = (j, w)" by (cases p)
    with Cons.prems have j: "j \<notin> fst ` set n" by simp
    then have "\<And>k v. map_of n k = Some v \<Longrightarrow> get0 m k \<le> f k v \<and> 0 \<le> f k v"
      using Cons.prems(2) p by (metis domI dom_map_of_conv_image_fst fst_conv map_of_Cons_code(2))
    with Cons.IH Cons.prems(1) have "(\<Sum>k\<in>fst ` set n. get0 m k) \<le> sum_by f n" by simp
    moreover have "get0 m j \<le> f j w" using Cons.prems(2) [of j w] p by simp
    ultimately show ?case using p j by simp
  qed simp
  finally show ?thesis .
qed

section \<open>The append command\<close>

locale append_book =
  fixes project :: "'b \<Rightarrow> 'e + 's" and records :: "'b \<Rightarrow> 'r list" and extend :: "'b \<Rightarrow> 'r \<Rightarrow> 'b"
    and append :: "'b \<Rightarrow> 'r \<Rightarrow> 'e + 'b" and ident :: "'r \<Rightarrow> string"
  assumes append_iff: "append b r = Inr b' \<longleftrightarrow> (\<exists>s. project b = Inr s) \<and>
      (if r \<in> set (records b) then b' = b
       else ident r \<notin> ident ` set (records b) \<and> b' = extend b r \<and> (\<exists>s. project b' = Inr s))"
    and records_extend: "records (extend b r) = records b @ [r]"
    and accepted_distinct: "project b = Inr s \<Longrightarrow> distinct (map ident (records b))"
begin

lemma accepted: "append b r = Inr b' \<Longrightarrow> \<exists>s. project b' = Inr s"
  by (auto simp: append_iff split: if_splits)

lemma recorded: "append b r = Inr b' \<Longrightarrow> r \<in> set (records b')"
  by (auto simp: append_iff records_extend split: if_splits)

lemma history_kept: "append b r = Inr b' \<Longrightarrow> \<exists>rs. records b' = records b @ rs"
  by (auto simp: append_iff records_extend split: if_splits)

lemma retry: "append b r = Inr b' \<Longrightarrow> append b' r = Inr b'"
  using recorded [of b r b'] accepted [of b r b'] append_iff [of b' r b'] by simp

lemma identity_reuse_refused:
  assumes "append b r = Inr b'" and "ident q = ident r" and "q \<noteq> r"
  shows "\<not> (\<exists>b''. append b' q = Inr b'')"
proof
  assume "\<exists>b''. append b' q = Inr b''"
  then obtain b'' where q: "append b' q = Inr b''" by blast
  have r: "r \<in> set (records b')" using assms(1) by (rule recorded)
  with q assms(2) have "q \<in> set (records b')" by (auto simp: append_iff image_iff split: if_splits)
  moreover obtain s where "project b' = Inr s" using accepted [OF assms(1)] by blast
  then have "distinct (map ident (records b'))" by (rule accepted_distinct)
  ultimately show False using r assms(2,3) by (auto simp: distinct_map inj_on_def)
qed

lemma replay_known: "\<forall>r\<in>set rs. r \<in> set (records b) \<Longrightarrow> \<exists>s. project b = Inr s \<Longrightarrow> fold_r append b rs = Inr b"
proof (induction rs)
  case (Cons r rs)
  then have "append b r = Inr b" by (simp add: append_iff)
  with Cons show ?case by simp
qed simp

lemma appended_known: "fold_r append b rs = Inr b' \<Longrightarrow> set rs \<subseteq> set (records b') \<and> set (records b) \<subseteq> set (records b')"
proof (induction rs arbitrary: b)
  case (Cons r rs)
  then obtain c where "append b r = Inr c" "fold_r append c rs = Inr b'" by (auto simp: result_simps)
  moreover from this(1) have "r \<in> set (records c)" "set (records b) \<subseteq> set (records c)"
    using recorded [of b r c] history_kept [of b r c] by auto
  moreover have "set rs \<subseteq> set (records b')" "set (records c) \<subseteq> set (records b')"
    using Cons.IH calculation(2) by simp_all
  ultimately show ?case by auto
qed simp

text \<open>Delivering the same commands again changes nothing.\<close>

lemma replay_idempotent:
  assumes "fold_r append b rs = Inr b'" and "\<exists>s. project b = Inr s"
  shows "fold_r append b' rs = Inr b'"
proof (rule replay_known)
  show "\<forall>r\<in>set rs. r \<in> set (records b')" using appended_known [OF assms(1)] by blast
  show "\<exists>s. project b' = Inr s" using assms
    by (rule fold_r_invariant [of append b rs]) (rule accepted)
qed

end

end
