(* ===== verification/Interim.thy ===== *)
theory Interim
  imports Append_Book
begin

text \<open>
  Model of \<^verbatim>\<open>interim-applications.ts\<close>: schedules, applications, certifications, invoice
  and credit drafts and synthetic receipts of one job as an append-only book. \<open>interim_step\<close> is the
  body of the loop of \<^verbatim>\<open>project\<close>, \<open>interim_inv\<close> its invariant.
\<close>

section \<open>Records\<close>

record value_line =
  vl_scopeItemId :: string
  vl_netPence :: int

datatype schedule_kind = Baseline | Approved_variation

record schedule_line =
  sl_id :: string
  sl_scopeItemId :: string
  sl_commercialRevisionId :: string
  sl_sourceDocumentId :: string
  sl_kind :: schedule_kind
  sl_approvalDecisionId :: "string option"
  sl_netPence :: int

record int_context =
  ic_id :: string
  ic_tenantId :: string
  ic_jobId :: string

record int_schedule = int_context +
  is_revision :: int
  is_previousScheduleId :: "string option"
  is_baselineSnapshotId :: string
  is_approvalDecisionId :: string
  is_valuationDates :: "string list"
  is_jurisdiction :: string
  is_arrangement :: string
  is_d06TemplateVersion :: "string option"
  is_d02TaxPolicyVersion :: "string option"
  is_lines :: "schedule_line list"

datatype application_kind = Interim_kind | Final_account

record int_application = int_context +
  ia_applicationId :: string
  ia_revision :: int
  ia_previousRevisionId :: "string option"
  ia_scheduleId :: string
  ia_valuationDate :: string
  ia_kind :: application_kind
  ia_cumulativeValues :: "value_line list"

record int_certification = int_context +
  ce_applicationRevisionId :: string
  ce_certificateReference :: string
  ce_cumulativeValues :: "value_line list"

record int_invoice = int_context +
  ii_certificationId :: string
  ii_lines :: "value_line list"
  ii_taxPence :: int

record int_credit = int_context +
  cr_invoiceId :: string
  cr_lines :: "value_line list"
  cr_taxPence :: int

record int_receipt = int_context +
  ir_invoiceId :: string
  ir_amountPence :: int

datatype int_record =
    Int_schedule int_schedule
  | Int_application int_application
  | Int_certification int_certification
  | Int_invoice int_invoice
  | Int_credit int_credit
  | Int_receipt int_receipt

record int_book =
  ib_tenantId :: string
  ib_jobId :: string
  ib_records :: "int_record list"

datatype int_error =
    I_INVALID_INPUT | I_CONTEXT_MISMATCH | I_REPLAY_CONFLICT | I_MISSING_SOURCE | I_STALE_REVISION
  | I_INVALID_LINEAGE | I_VALUE_LIMIT | I_DUPLICATE_LINE | I_ISSUE_DISABLED
  | I_money money_error | I_balance balance_error

fun int_id :: "int_record \<Rightarrow> string" where
  "int_id (Int_schedule r) = ic_id r"
| "int_id (Int_application r) = ic_id r"
| "int_id (Int_certification r) = ic_id r"
| "int_id (Int_invoice r) = ic_id r"
| "int_id (Int_credit r) = ic_id r"
| "int_id (Int_receipt r) = ic_id r"

fun int_owner :: "int_record \<Rightarrow> string \<times> string" where
  "int_owner (Int_schedule r) = (ic_tenantId r, ic_jobId r)"
| "int_owner (Int_application r) = (ic_tenantId r, ic_jobId r)"
| "int_owner (Int_certification r) = (ic_tenantId r, ic_jobId r)"
| "int_owner (Int_invoice r) = (ic_tenantId r, ic_jobId r)"
| "int_owner (Int_credit r) = (ic_tenantId r, ic_jobId r)"
| "int_owner (Int_receipt r) = (ic_tenantId r, ic_jobId r)"

section \<open>Schemas\<close>

definition signed_pence_ok :: "int \<Rightarrow> bool" where
  "signed_pence_ok n \<longleftrightarrow> - MAX_MONEY_PENCE \<le> n \<and> n \<le> MAX_MONEY_PENCE"

definition revision_ok :: "int \<Rightarrow> bool" where
  "revision_ok n \<longleftrightarrow> 0 < n \<and> n \<le> 2147483647"

definition short_name :: "string \<Rightarrow> bool" where
  "short_name s \<longleftrightarrow> 1 \<le> length s \<and> length s \<le> 120"

definition values_ok :: "value_line list \<Rightarrow> bool" where
  "values_ok vs \<longleftrightarrow> 1 \<le> length vs \<and> length vs \<le> 10000 \<and> list_all (\<lambda>v. pence_ok (vl_netPence v)) vs"

definition interimScheduleV1 :: "int_schedule \<Rightarrow> bool" where
  "interimScheduleV1 s \<longleftrightarrow> revision_ok (is_revision s) \<and> 1 \<le> length (is_valuationDates s) \<and>
     length (is_valuationDates s) \<le> 1000 \<and> short_name (is_jurisdiction s) \<and> short_name (is_arrangement s) \<and>
     (case is_d06TemplateVersion s of None \<Rightarrow> True | Some v \<Rightarrow> short_name v) \<and>
     (case is_d02TaxPolicyVersion s of None \<Rightarrow> True | Some v \<Rightarrow> short_name v) \<and>
     1 \<le> length (is_lines s) \<and> length (is_lines s) \<le> 10000 \<and> list_all (\<lambda>l. signed_pence_ok (sl_netPence l)) (is_lines s)"

fun interimRecordV1 :: "int_record \<Rightarrow> bool" where
  "interimRecordV1 (Int_schedule s) \<longleftrightarrow> interimScheduleV1 s"
| "interimRecordV1 (Int_application a) \<longleftrightarrow> revision_ok (ia_revision a) \<and> values_ok (ia_cumulativeValues a)"
| "interimRecordV1 (Int_certification c) \<longleftrightarrow> short_name (ce_certificateReference c) \<and> values_ok (ce_cumulativeValues c)"
| "interimRecordV1 (Int_invoice i) \<longleftrightarrow> values_ok (ii_lines i) \<and> pence_ok (ii_taxPence i)"
| "interimRecordV1 (Int_credit c) \<longleftrightarrow> values_ok (cr_lines c) \<and> pence_ok (cr_taxPence c)"
| "interimRecordV1 (Int_receipt r) \<longleftrightarrow> pence_ok (ir_amountPence r)"

definition interimDraftBookV1 :: "int_book \<Rightarrow> bool" where
  "interimDraftBookV1 b \<longleftrightarrow> length (ib_records b) \<le> 10000 \<and> list_all interimRecordV1 (ib_records b)"

section \<open>Values\<close>

type_synonym amounts = "(string \<times> int) list"

definition int_sum :: "int list \<Rightarrow> int_error + int" where
  "int_sum vs = money_sum I_money vs"

definition line_step :: "amounts \<Rightarrow> value_line \<Rightarrow> int_error + amounts" where
  "line_step m l = (if vl_scopeItemId l \<in> fst ` set m then Inl I_DUPLICATE_LINE
     else Inr (AList.update (vl_scopeItemId l) (vl_netPence l) m))"

definition lineMap :: "value_line list \<Rightarrow> int_error + amounts" where
  "lineMap ls = fold_r line_step [] ls"

record schedule_scan =
  ss_map :: amounts
  ss_ids :: "string set"
  ss_baselineScopes :: "string set"
  ss_sources :: "(string \<times> string \<times> string) set"

definition scan_step :: "int_schedule \<Rightarrow> schedule_scan \<Rightarrow> schedule_line \<Rightarrow> int_error + schedule_scan" where
  "scan_step schedule t l =
     (let source = (sl_sourceDocumentId l, sl_commercialRevisionId l, sl_scopeItemId l) in
      if sl_id l \<in> ss_ids t \<or> source \<in> ss_sources t then Inl I_DUPLICATE_LINE
      else if sl_kind l = Baseline \<and> (sl_approvalDecisionId l \<noteq> None \<or> sl_netPence l < 0 \<or>
          sl_scopeItemId l \<in> ss_baselineScopes t \<or> sl_sourceDocumentId l \<noteq> is_baselineSnapshotId schedule) then Inl I_INVALID_LINEAGE
      else if sl_kind l \<noteq> Baseline \<and> sl_approvalDecisionId l = None then Inl I_INVALID_LINEAGE
      else bind_r (int_sum [get0 (ss_map t) (sl_scopeItemId l), sl_netPence l]) (\<lambda>n.
        Inr \<lparr>ss_map = AList.update (sl_scopeItemId l) n (ss_map t), ss_ids = insert (sl_id l) (ss_ids t),
             ss_baselineScopes = (if sl_kind l = Baseline then insert (sl_scopeItemId l) (ss_baselineScopes t) else ss_baselineScopes t),
             ss_sources = insert source (ss_sources t)\<rparr>))"

definition scheduleValues :: "int_schedule \<Rightarrow> int_error + amounts" where
  "scheduleValues schedule =
     (if \<not> distinct (is_valuationDates schedule) then Inl I_INVALID_LINEAGE
      else bind_r (fold_r (scan_step schedule) \<lparr>ss_map = [], ss_ids = {}, ss_baselineScopes = {}, ss_sources = {}\<rparr> (is_lines schedule)) (\<lambda>t.
      if ss_baselineScopes t = {} then Inl I_INVALID_LINEAGE
      else if list_ex (\<lambda>n. n < 0) (map snd (ss_map t)) then Inl I_VALUE_LIMIT
      else bind_r (int_sum (map snd (ss_map t))) (\<lambda>_. Inr (ss_map t))))"

definition boundedValues :: "value_line list \<Rightarrow> amounts \<Rightarrow> int_error + amounts" where
  "boundedValues ls ceiling =
     bind_r (lineMap ls) (\<lambda>m.
     if length m \<noteq> length ceiling \<or> list_ex (\<lambda>k. k \<notin> fst ` set m) (map fst ceiling) then Inl I_INVALID_LINEAGE
     else if list_ex (\<lambda>(k, amount). amount > get0 ceiling k) m then Inl I_VALUE_LIMIT
     else bind_r (int_sum (map snd m)) (\<lambda>_. Inr m))"

section \<open>The projection\<close>

record int_state =
  st_schedule :: "int_schedule option"
  st_application :: "int_application option"
  st_certification :: "int_certification option"
  st_scheduled :: amounts
  st_applied :: amounts
  st_certified :: amounts
  st_invoiced :: amounts
  st_invoices :: "(string \<times> int_invoice) list"
  st_credits :: "(string \<times> amounts) list"
  st_creditedTax :: amounts
  st_receipts :: amounts
  st_applications :: "(string \<times> int_application) list"
  st_certificates :: "string set"
  st_latestApplication :: "int_application option"

definition int_init :: int_state where
  "int_init = \<lparr>st_schedule = None, st_application = None, st_certification = None, st_scheduled = [], st_applied = [],
     st_certified = [], st_invoiced = [], st_invoices = [], st_credits = [], st_creditedTax = [], st_receipts = [],
     st_applications = [], st_certificates = {}, st_latestApplication = None\<rparr>"

definition schedule_step :: "int_state \<Rightarrow> int_schedule \<Rightarrow> int_error + int_state" where
  "schedule_step s r =
     (if is_revision r \<noteq> (case st_schedule s of None \<Rightarrow> 0 | Some p \<Rightarrow> is_revision p) + 1 \<or>
         is_previousScheduleId r \<noteq> map_option ic_id (st_schedule s) then Inl I_STALE_REVISION
      else if (case st_schedule s of None \<Rightarrow> False | Some p \<Rightarrow>
          is_baselineSnapshotId r \<noteq> is_baselineSnapshotId p \<or> length (is_lines r) < length (is_lines p) \<or>
          take (length (is_lines p)) (is_lines r) \<noteq> is_lines p \<or>
          list_ex (\<lambda>l. sl_kind l \<noteq> Approved_variation) (drop (length (is_lines p)) (is_lines r))) then Inl I_INVALID_LINEAGE
      else bind_r (scheduleValues r) (\<lambda>m.
        Inr (s\<lparr>st_scheduled := m, st_schedule := Some r, st_application := None, st_certification := None,
               st_applied := [], st_certified := []\<rparr>)))"

definition application_step :: "int_state \<Rightarrow> int_application \<Rightarrow> int_error + int_state" where
  "application_step s r =
     (case st_schedule s of None \<Rightarrow> Inl I_STALE_REVISION
      | Some schedule \<Rightarrow>
        if ia_scheduleId r \<noteq> ic_id schedule then Inl I_STALE_REVISION
        else if ia_valuationDate r \<notin> set (is_valuationDates schedule) then Inl I_INVALID_LINEAGE
        else let previous = map_of (st_applications s) (ia_applicationId r) in
        if ia_revision r \<noteq> (case previous of None \<Rightarrow> 0 | Some p \<Rightarrow> ia_revision p) + 1 \<or>
           ia_previousRevisionId r \<noteq> map_option ic_id previous \<or>
           (case previous of None \<Rightarrow> False | Some p \<Rightarrow> ia_kind p \<noteq> ia_kind r) then Inl I_STALE_REVISION
        else if (case previous of None \<Rightarrow> False | Some p \<Rightarrow> Some (ic_id p) \<noteq> map_option ic_id (st_latestApplication s))
        then Inl I_STALE_REVISION
        else bind_r (boundedValues (ia_cumulativeValues r) (st_scheduled s)) (\<lambda>m.
          Inr (s\<lparr>st_applied := m, st_applications := AList.update (ia_applicationId r) r (st_applications s),
                 st_latestApplication := Some r, st_application := Some r, st_certification := None, st_certified := []\<rparr>)))"

definition certification_step :: "int_state \<Rightarrow> int_certification \<Rightarrow> int_error + int_state" where
  "certification_step s r =
     (if ce_certificateReference r \<in> st_certificates s then Inl I_REPLAY_CONFLICT
      else if Some (ce_applicationRevisionId r) \<noteq> map_option ic_id (st_application s) then Inl I_STALE_REVISION
      else bind_r (boundedValues (ce_cumulativeValues r) (st_applied s)) (\<lambda>m.
        Inr (s\<lparr>st_certificates := insert (ce_certificateReference r) (st_certificates s),
               st_certified := m, st_certification := Some r\<rparr>)))"

definition invoice_line_step :: "amounts \<Rightarrow> amounts \<Rightarrow> string \<times> int \<Rightarrow> int_error + amounts" where
  "invoice_line_step certified invoiced l =
     (if fst l \<notin> fst ` set certified then Inl I_INVALID_LINEAGE
      else bind_r (int_sum [get0 invoiced (fst l), snd l]) (\<lambda>cumulative.
      if cumulative > get0 certified (fst l) then Inl I_VALUE_LIMIT
      else Inr (AList.update (fst l) cumulative invoiced)))"

definition invoice_step :: "int_state \<Rightarrow> int_invoice \<Rightarrow> int_error + int_state" where
  "invoice_step s r =
     (if Some (ii_certificationId r) \<noteq> map_option ic_id (st_certification s) then Inl I_STALE_REVISION
      else bind_r (lineMap (ii_lines r)) (\<lambda>ls.
      bind_r (int_sum (map snd ls)) (\<lambda>n.
      if n = 0 then Inl I_VALUE_LIMIT
      else bind_r (fold_r (invoice_line_step (st_certified s)) (st_invoiced s) ls) (\<lambda>invoiced.
      bind_r (int_sum [n, ii_taxPence r]) (\<lambda>_.
        Inr (s\<lparr>st_invoiced := invoiced, st_invoices := AList.update (ic_id r) r (st_invoices s)\<rparr>))))))"

definition credit_line_step :: "amounts \<Rightarrow> amounts \<times> amounts \<Rightarrow> string \<times> int \<Rightarrow> int_error + amounts \<times> amounts" where
  "credit_line_step original t l =
     bind_r (int_sum [get0 (fst t) (fst l), snd l]) (\<lambda>credited.
     if fst l \<notin> fst ` set original \<or> credited > get0 original (fst l) then Inl I_VALUE_LIMIT
     else bind_r (int_sum [get0 (snd t) (fst l), - snd l]) (\<lambda>n.
       Inr (AList.update (fst l) credited (fst t), AList.update (fst l) n (snd t))))"

definition credit_step :: "int_state \<Rightarrow> int_credit \<Rightarrow> int_error + int_state" where
  "credit_step s r =
     (case map_of (st_invoices s) (cr_invoiceId r) of None \<Rightarrow> Inl I_MISSING_SOURCE
      | Some invoice \<Rightarrow>
        bind_r (lineMap (ii_lines invoice)) (\<lambda>original.
        bind_r (lineMap (cr_lines r)) (\<lambda>ls.
        bind_r (fold_r (credit_line_step original)
          ((case map_of (st_credits s) (ic_id invoice) of None \<Rightarrow> [] | Some c \<Rightarrow> c), st_invoiced s) ls) (\<lambda>t.
        bind_r (int_sum [get0 (st_creditedTax s) (ic_id invoice), cr_taxPence r]) (\<lambda>tax.
        if tax > ii_taxPence invoice then Inl I_VALUE_LIMIT
        else Inr (s\<lparr>st_invoiced := snd t, st_credits := AList.update (ic_id invoice) (fst t) (st_credits s),
                    st_creditedTax := AList.update (ic_id invoice) tax (st_creditedTax s)\<rparr>))))))"

definition int_receipt_step :: "int_state \<Rightarrow> int_receipt \<Rightarrow> int_error + int_state" where
  "int_receipt_step s r =
     (if ir_invoiceId r \<notin> fst ` set (st_invoices s) then Inl I_MISSING_SOURCE
      else bind_r (int_sum [get0 (st_receipts s) (ir_invoiceId r), ir_amountPence r]) (\<lambda>n.
        Inr (s\<lparr>st_receipts := AList.update (ir_invoiceId r) n (st_receipts s)\<rparr>)))"

fun interim_step :: "int_state \<Rightarrow> int_record \<Rightarrow> int_error + int_state" where
  "interim_step s (Int_schedule r) = schedule_step s r"
| "interim_step s (Int_application r) = application_step s r"
| "interim_step s (Int_certification r) = certification_step s r"
| "interim_step s (Int_invoice r) = invoice_step s r"
| "interim_step s (Int_credit r) = credit_step s r"
| "interim_step s (Int_receipt r) = int_receipt_step s r"

definition project_interim :: "int_record list \<Rightarrow> int_error + int_state" where
  "project_interim rs = fold_r interim_step int_init rs"

definition owner_step :: "string \<times> string \<Rightarrow> string set \<Rightarrow> int_record \<Rightarrow> int_error + string set" where
  "owner_step owner ids r = (if int_owner r \<noteq> owner then Inl I_CONTEXT_MISMATCH
     else if int_id r \<in> ids then Inl I_REPLAY_CONFLICT else Inr (insert (int_id r) ids))"

definition validatedBook :: "int_book \<Rightarrow> int_error + int_book" where
  "validatedBook b = (if \<not> interimDraftBookV1 b then Inl I_INVALID_INPUT
     else bind_r (fold_r (owner_step (ib_tenantId b, ib_jobId b)) {} (ib_records b)) (\<lambda>_.
          bind_r (project_interim (ib_records b)) (\<lambda>_. Inr b)))"

definition appendInterimDraftRecord :: "int_book \<Rightarrow> int_record \<Rightarrow> int_error + int_book" where
  "appendInterimDraftRecord bookInput r =
     bind_r (validatedBook bookInput) (\<lambda>book.
     if \<not> interimRecordV1 r then Inl I_INVALID_INPUT
     else case find (\<lambda>item. int_id item = int_id r) (ib_records book) of
       Some prior \<Rightarrow> if prior \<noteq> r then Inl I_REPLAY_CONFLICT else Inr book
     | None \<Rightarrow> validatedBook (book\<lparr>ib_records := ib_records book @ [r]\<rparr>))"

datatype interim_blocker = FEATURE_DISABLED | D06_TEMPLATE_REQUIRED | D02_TAX_RULES_REQUIRED | UNSUPPORTED_ARRANGEMENT

definition interimDraftIssueBlockers :: "int_schedule \<Rightarrow> int_error + interim_blocker list" where
  "interimDraftIssueBlockers s = (if \<not> interimScheduleV1 s then Inl I_INVALID_INPUT
     else Inr ([FEATURE_DISABLED] @
       (if is_d06TemplateVersion s = None then [D06_TEMPLATE_REQUIRED] else []) @
       (if is_d02TaxPolicyVersion s = None then [D02_TAX_RULES_REQUIRED] else []) @
       (if is_arrangement s \<noteq> ''synthetic_staged'' \<or> is_jurisdiction s \<noteq> ''synthetic_england_wales''
        then [UNSUPPORTED_ARRANGEMENT] else [])))"

definition assertInterimDocumentIssueAllowed :: "int_error + unit" where
  "assertInterimDocumentIssueAllowed = Inl I_ISSUE_DISABLED"

section \<open>Reconciliation\<close>

record reconciled_line =
  xl_scopeItemId :: string
  xl_scheduled :: int
  xl_applied :: int
  xl_certified :: int
  xl_invoiced :: int
  xl_invoiceable :: int
  xl_finalAccountRemaining :: "int option"
  xl_creditRequired :: "int option"

record int_reconciliation =
  ix_scheduleId :: "string option"
  ix_applicationRevisionId :: "string option"
  ix_certificationId :: "string option"
  ix_valuationPending :: bool
  ix_lines :: "reconciled_line list"
  ix_invoiceBalances :: "(string \<times> invoice_balance) list"
  ix_priorApplicationRevisionIds :: "string list"
  ix_netInvoiced :: int
  ix_grossReceived :: int
  ix_grossOutstanding :: int
  ix_unappliedCash :: int
  ix_issueBlockers :: "interim_blocker list"

definition reconcile_line :: "int_state \<Rightarrow> string \<times> int \<Rightarrow> int_error + reconciled_line" where
  "reconcile_line s l =
     (let k = fst l; applied = get0 (st_applied s) k; certified = get0 (st_certified s) k; invoiced = get0 (st_invoiced s) k in
      bind_r (int_sum [snd l]) (\<lambda>a. bind_r (int_sum [applied]) (\<lambda>b. bind_r (int_sum [certified]) (\<lambda>c.
      bind_r (int_sum [invoiced]) (\<lambda>d. bind_r (int_sum [max 0 (certified - invoiced)]) (\<lambda>e.
      bind_r (if st_application s \<noteq> None then bind_r (int_sum [applied, - invoiced]) (\<lambda>n. Inr (Some n)) else Inr None) (\<lambda>f.
      bind_r (if st_application s \<noteq> None
              then bind_r (int_sum [max 0 (invoiced - (if st_certification s \<noteq> None then certified else applied))]) (\<lambda>n. Inr (Some n))
              else Inr None) (\<lambda>g.
        Inr \<lparr>xl_scopeItemId = k, xl_scheduled = a, xl_applied = b, xl_certified = c, xl_invoiced = d,
             xl_invoiceable = e, xl_finalAccountRemaining = f, xl_creditRequired = g\<rparr>))))))))"

definition invoice_balance_of :: "int_state \<Rightarrow> int_invoice \<Rightarrow> int_error + (string \<times> invoice_balance)" where
  "invoice_balance_of s invoice =
     bind_r (int_sum (map vl_netPence (ii_lines invoice))) (\<lambda>n.
     bind_r (int_sum [n, ii_taxPence invoice]) (\<lambda>t.
     bind_r (int_sum (map snd (case map_of (st_credits s) (ic_id invoice) of None \<Rightarrow> [] | Some c \<Rightarrow> c))) (\<lambda>c.
     bind_r (int_sum [c, get0 (st_creditedTax s) (ic_id invoice)]) (\<lambda>credit.
     bind_r (map_err I_balance (projectInvoiceBalance t (Some credit) (Some (get0 (st_receipts s) (ic_id invoice))) None)) (\<lambda>b.
       Inr (ic_id invoice, b))))))"

definition reconcileInterimDraftBook :: "int_book \<Rightarrow> int_error + int_reconciliation" where
  "reconcileInterimDraftBook b =
     bind_r (validatedBook b) (\<lambda>book. bind_r (project_interim (ib_records book)) (\<lambda>s.
     bind_r (map_r (reconcile_line s) (st_scheduled s)) (\<lambda>ls.
     bind_r (map_r (invoice_balance_of s) (map snd (st_invoices s))) (\<lambda>balances.
     bind_r (int_sum (map snd (st_invoiced s))) (\<lambda>netInvoiced.
     bind_r (int_sum (map snd (st_receipts s))) (\<lambda>grossReceived.
     bind_r (int_sum (map (\<lambda>x. pence (ib_balance (snd x))) balances)) (\<lambda>grossOutstanding.
     bind_r (int_sum (map (\<lambda>x. pence (ib_unappliedCredit (snd x))) balances)) (\<lambda>unappliedCash.
     bind_r (case st_schedule s of None \<Rightarrow> Inr [FEATURE_DISABLED] | Some sc \<Rightarrow> interimDraftIssueBlockers sc) (\<lambda>blockers.
       Inr \<lparr>ix_scheduleId = map_option ic_id (st_schedule s), ix_applicationRevisionId = map_option ic_id (st_application s),
            ix_certificationId = map_option ic_id (st_certification s), ix_valuationPending = (st_application s = None),
            ix_lines = ls, ix_invoiceBalances = balances,
            ix_priorApplicationRevisionIds = concat (map (\<lambda>r. case r of Int_application a \<Rightarrow> [ic_id a] | _ \<Rightarrow> []) (ib_records book)),
            ix_netInvoiced = netInvoiced, ix_grossReceived = grossReceived, ix_grossOutstanding = grossOutstanding,
            ix_unappliedCash = unappliedCash, ix_issueBlockers = blockers\<rparr>)))))))))"

section \<open>Values as maps\<close>

definition line_amounts :: "value_line list \<Rightarrow> amounts" where
  "line_amounts ls = map (\<lambda>l. (vl_scopeItemId l, vl_netPence l)) ls"

lemma int_sum_Inr_iff [result_simps]:
  "int_sum vs = Inr n \<longleftrightarrow> \<bar>sum_list vs\<bar> \<le> MAX_MONEY_PENCE \<and> n = sum_list vs"
  by (simp add: int_sum_def result_simps)

lemma lineMap_gen:
  "fold_r line_step m ls = Inr m' \<longleftrightarrow> m' = m @ line_amounts ls \<and> distinct (map vl_scopeItemId ls) \<and>
     vl_scopeItemId ` set ls \<inter> fst ` set m = {}"
proof (induction ls arbitrary: m)
  case (Cons l ls)
  show ?case
  proof (cases "vl_scopeItemId l \<in> fst ` set m")
    case True
    then show ?thesis by (auto simp: line_step_def)
  next
    case False
    then have "fold_r line_step m (l # ls) = fold_r line_step (m @ [(vl_scopeItemId l, vl_netPence l)]) ls"
      by (simp add: line_step_def update_fresh)
    with False Cons show ?thesis by (auto simp: line_amounts_def)
  qed
qed (auto simp: line_amounts_def)

lemma lineMap_Inr_iff [result_simps]:
  "lineMap ls = Inr m \<longleftrightarrow> m = line_amounts ls \<and> distinct (map vl_scopeItemId ls)"
  using lineMap_gen [of "[]" ls m] by (auto simp: lineMap_def)

lemma line_amounts_keys [simp]: "map fst (line_amounts ls) = map vl_scopeItemId ls"
  by (simp add: line_amounts_def)

lemma line_amounts_nonneg: "values_ok ls \<Longrightarrow> \<forall>(k, v)\<in>set (line_amounts ls). 0 \<le> v"
  by (auto simp: values_ok_def line_amounts_def list_all_iff pence_ok_def)

lemma line_amounts_snd [simp]: "map snd (line_amounts ls) = map vl_netPence ls"
  by (simp add: line_amounts_def)

text \<open>A valuation that was accepted covers the ceiling's scopes exactly and stays below it.\<close>

lemma boundedValues_ok:
  assumes "boundedValues ls ceiling = Inr m" "values_ok ls"
  shows "distinct (map fst m) \<and> (\<forall>k. 0 \<le> get0 m k \<and> (k \<in> fst ` set m \<longrightarrow> get0 m k \<le> get0 ceiling k)) \<and>
    fst ` set ceiling \<subseteq> fst ` set m \<and> length m = length ceiling"
proof -
  from assms(1) have m: "m = line_amounts ls" "distinct (map vl_scopeItemId ls)" "length m = length ceiling"
    "fst ` set ceiling \<subseteq> fst ` set m" and le: "\<forall>(k, a)\<in>set m. a \<le> get0 ceiling k"
    by (auto simp: boundedValues_def result_simps list_ex_iff)
  have d: "distinct (map fst m)" using m(1,2) by simp
  have "get0 m k \<le> get0 ceiling k" if "k \<in> fst ` set m" for k
  proof -
    from that obtain a where "(k, a) \<in> set m" by auto
    with d le show ?thesis by (auto simp: get0_def)
  qed
  moreover have "0 \<le> get0 m k" for k
    unfolding m(1) using line_amounts_nonneg [OF assms(2)] by (rule get0_nonneg)
  ultimately show ?thesis using d m(3,4) by blast
qed

section \<open>Loops over lines\<close>

lemma invoice_line_step_Inr_iff:
  "invoice_line_step certified acc (k, a) = Inr u \<longleftrightarrow> k \<in> fst ` set certified \<and> \<bar>get0 acc k + a\<bar> \<le> MAX_MONEY_PENCE \<and>
     get0 acc k + a \<le> get0 certified k \<and> u = AList.update k (get0 acc k + a) acc"
  by (auto simp: invoice_line_step_def result_simps)

lemma credit_line_step_Inr_iff:
  "credit_line_step original (c, acc) (k, a) = Inr u \<longleftrightarrow> \<bar>get0 c k + a\<bar> \<le> MAX_MONEY_PENCE \<and> k \<in> fst ` set original \<and>
     get0 c k + a \<le> get0 original k \<and> \<bar>get0 acc k - a\<bar> \<le> MAX_MONEY_PENCE \<and>
     u = (AList.update k (get0 c k + a) c, AList.update k (get0 acc k - a) acc)"
  by (auto simp: credit_line_step_def result_simps)

lemma invoice_fold:
  assumes "fold_r (invoice_line_step certified) acc ls = Inr inv'" "distinct (map fst ls)" "distinct (map fst acc)"
  shows "distinct (map fst inv') \<and> sum_values inv' = sum_values acc + sum_values ls \<and>
    (\<forall>k. get0 inv' k = get0 acc k + get0 ls k \<and> (k \<in> fst ` set ls \<longrightarrow> get0 inv' k \<le> get0 certified k))"
  using assms
proof (induction ls arbitrary: acc)
  case (Cons l ls)
  obtain k a where l: "l = (k, a)" by (cases l)
  let ?u = "AList.update k (get0 acc k + a) acc"
  from Cons.prems(1) have le: "get0 acc k + a \<le> get0 certified k" and rest: "fold_r (invoice_line_step certified) ?u ls = Inr inv'"
    by (auto simp: l bind_r_Inr_iff invoice_line_step_Inr_iff)
  have d: "distinct (map fst ?u)" using Cons.prems(3) by (rule distinct_keys_update)
  have k: "k \<notin> fst ` set ls" using Cons.prems(2) l by simp
  have dl: "distinct (map fst ls)" using Cons.prems(2) by simp
  note IH' = Cons.IH [OF rest dl d]
  have IH: "distinct (map fst inv')" "sum_values inv' = sum_values ?u + sum_values ls"
    "\<And>j. get0 inv' j = get0 ?u j + get0 ls j \<and> (j \<in> fst ` set ls \<longrightarrow> get0 inv' j \<le> get0 certified j)" using IH' by blast+
  have "get0 inv' j = get0 acc j + get0 (l # ls) j \<and> (j \<in> fst ` set (l # ls) \<longrightarrow> get0 inv' j \<le> get0 certified j)" for j
    using IH(3) [of j] k le by (cases "j = k") (auto simp: l get0_Cons get0_notin)
  moreover have "sum_values inv' = sum_values acc + sum_values (l # ls)"
    using IH(2) Cons.prems(3) by (simp add: l sum_values_update)
  ultimately show ?case using IH(1) by blast
qed simp

lemma credit_fold:
  assumes "fold_r (credit_line_step original) (c, acc) ls = Inr (c', inv')" "distinct (map fst ls)" "distinct (map fst acc)"
  shows "distinct (map fst inv') \<and> sum_values inv' = sum_values acc - sum_values ls \<and>
    (\<forall>k. get0 inv' k = get0 acc k - get0 ls k \<and> get0 c' k = get0 c k + get0 ls k \<and>
       (k \<in> fst ` set ls \<longrightarrow> get0 c' k \<le> get0 original k))"
  using assms
proof (induction ls arbitrary: c acc)
  case (Cons l ls)
  obtain k a where l: "l = (k, a)" by (cases l)
  let ?c = "AList.update k (get0 c k + a) c" and ?u = "AList.update k (get0 acc k - a) acc"
  from Cons.prems(1) have le: "get0 c k + a \<le> get0 original k"
    and rest: "fold_r (credit_line_step original) (?c, ?u) ls = Inr (c', inv')"
    by (auto simp: l bind_r_Inr_iff credit_line_step_Inr_iff)
  have d: "distinct (map fst ?u)" using Cons.prems(3) by (rule distinct_keys_update)
  have k: "k \<notin> fst ` set ls" using Cons.prems(2) l by simp
  have dl: "distinct (map fst ls)" using Cons.prems(2) by simp
  note IH' = Cons.IH [OF rest dl d]
  have IH: "distinct (map fst inv')" "sum_values inv' = sum_values ?u - sum_values ls"
    "\<And>j. get0 inv' j = get0 ?u j - get0 ls j \<and> get0 c' j = get0 ?c j + get0 ls j \<and>
       (j \<in> fst ` set ls \<longrightarrow> get0 c' j \<le> get0 original j)" using IH' by blast+
  have "get0 inv' j = get0 acc j - get0 (l # ls) j \<and> get0 c' j = get0 c j + get0 (l # ls) j \<and>
      (j \<in> fst ` set (l # ls) \<longrightarrow> get0 c' j \<le> get0 original j)" for j
    using IH(3) [of j] k le by (cases "j = k") (auto simp: l get0_Cons get0_notin)
  moreover have "sum_values inv' = sum_values acc - sum_values (l # ls)"
    using IH(2) Cons.prems(3) by (simp add: l sum_values_update)
  ultimately show ?case using IH(1) by blast
qed simp

section \<open>The invariant\<close>

definition credits_of :: "(string \<times> amounts) list \<Rightarrow> string \<Rightarrow> amounts" where
  "credits_of credits i = (case map_of credits i of None \<Rightarrow> [] | Some c \<Rightarrow> c)"

lemma credits_of_update [simp]: "credits_of (AList.update i c m) j = (if j = i then c else credits_of m j)"
  by (simp add: credits_of_def)

text \<open>The three valuations, each below the one before.\<close>

definition valuation_inv :: "amounts \<Rightarrow> amounts \<Rightarrow> amounts \<Rightarrow> bool" where
  "valuation_inv scheduled applied certified \<longleftrightarrow> (\<forall>k. 0 \<le> get0 certified k \<and> get0 certified k \<le> get0 applied k \<and>
     get0 applied k \<le> get0 scheduled k) \<and> fst ` set applied \<subseteq> fst ` set scheduled \<and> fst ` set certified \<subseteq> fst ` set applied \<and>
     distinct (map fst scheduled) \<and> distinct (map fst applied)"

text \<open>Credits stay below their invoice, line by line and in tax.\<close>

definition credit_inv :: "(string \<times> int_invoice) list \<Rightarrow> (string \<times> amounts) list \<Rightarrow> amounts \<Rightarrow> bool" where
  "credit_inv invoices credits creditedTax \<longleftrightarrow> distinct (map fst invoices) \<and>
     fst ` set credits \<subseteq> fst ` set invoices \<and> fst ` set creditedTax \<subseteq> fst ` set invoices \<and>
     (\<forall>(i, v)\<in>set invoices. ic_id v = i \<and> distinct (map vl_scopeItemId (ii_lines v)) \<and> values_ok (ii_lines v) \<and>
       0 \<le> get0 creditedTax i \<and> get0 creditedTax i \<le> ii_taxPence v \<and>
       (\<forall>k. 0 \<le> get0 (credits_of credits i) k \<and> get0 (credits_of credits i) k \<le> get0 (line_amounts (ii_lines v)) k))"

definition net_invoiced :: "(string \<times> int_invoice) list \<Rightarrow> (string \<times> amounts) list \<Rightarrow> string \<Rightarrow> int" where
  "net_invoiced invoices credits k =
     sum_by (\<lambda>i v. get0 (line_amounts (ii_lines v)) k - get0 (credits_of credits i) k) invoices"

definition invoiced_inv :: "amounts \<Rightarrow> (string \<times> int_invoice) list \<Rightarrow> (string \<times> amounts) list \<Rightarrow> bool" where
  "invoiced_inv invoiced invoices credits \<longleftrightarrow> distinct (map fst invoiced) \<and>
     (\<forall>k. get0 invoiced k = net_invoiced invoices credits k)"

definition interim_inv :: "int_state \<Rightarrow> bool" where
  "interim_inv s \<longleftrightarrow> valuation_inv (st_scheduled s) (st_applied s) (st_certified s) \<and>
     credit_inv (st_invoices s) (st_credits s) (st_creditedTax s) \<and>
     invoiced_inv (st_invoiced s) (st_invoices s) (st_credits s) \<and> distinct (map fst (st_receipts s))"

lemma scan_keys: "fold_r (scan_step sc) t ls = Inr u \<Longrightarrow> distinct (map fst (ss_map t)) \<Longrightarrow> distinct (map fst (ss_map u))"
proof (rule fold_r_invariant [of "scan_step sc" t ls u "\<lambda>t. distinct (map fst (ss_map t))"])
  fix t l u assume "distinct (map fst (ss_map t))" "scan_step sc t l = Inr u"
  then show "distinct (map fst (ss_map u))"
    by (auto simp: scan_step_def Let_def result_simps intro: distinct_keys_update)
qed

lemma scheduleValues_ok: "scheduleValues r = Inr m \<Longrightarrow> distinct (map fst m) \<and> (\<forall>k. 0 \<le> get0 m k)"
proof -
  assume r: "scheduleValues r = Inr m"
  then obtain t where t: "fold_r (scan_step r) \<lparr>ss_map = [], ss_ids = {}, ss_baselineScopes = {}, ss_sources = {}\<rparr> (is_lines r) = Inr t"
    and m: "m = ss_map t" "\<not> list_ex (\<lambda>n. n < 0) (map snd m)"
    unfolding scheduleValues_def result_simps by blast
  have "\<forall>p\<in>set m. 0 \<le> snd p" using m(2) by (auto simp: list_ex_iff)
  then have "\<forall>(j, v)\<in>set m. 0 \<le> v" by (simp add: case_prod_beta)
  then have "\<forall>k. 0 \<le> get0 m k" by (intro allI get0_nonneg)
  moreover have "distinct (map fst m)" using scan_keys [OF t] m(1) by simp
  ultimately show ?thesis by blast
qed

lemma valuation_below:
  assumes "boundedValues ls ceiling = Inr m" "values_ok ls" "\<forall>k. 0 \<le> get0 ceiling k" "distinct (map fst ceiling)"
  shows "distinct (map fst m) \<and> fst ` set m = fst ` set ceiling \<and> (\<forall>k. 0 \<le> get0 m k \<and> get0 m k \<le> get0 ceiling k)"
proof -
  note ok = boundedValues_ok [OF assms(1,2)]
  have "card (fst ` set m) = length m" "card (fst ` set ceiling) = length ceiling"
    using ok assms(4) by (metis distinct_card length_map set_map)+
  with ok have keys: "fst ` set ceiling = fst ` set m" by (intro card_subset_eq) simp_all
  have "get0 m k \<le> get0 ceiling k" for k
    using ok assms(3) by (cases "k \<in> fst ` set m") (simp_all add: get0_notin)
  with ok keys show ?thesis by simp
qed

lemma net_invoiced_fresh:
  "i \<notin> fst ` set invoices \<Longrightarrow> net_invoiced (AList.update i v invoices) credits k =
    net_invoiced invoices credits k + (get0 (line_amounts (ii_lines v)) k - get0 (credits_of credits i) k)"
  by (simp add: net_invoiced_def sum_by_fresh)

lemma net_invoiced_credit:
  assumes "distinct (map fst invoices)" "map_of invoices i = Some v"
  shows "net_invoiced invoices (AList.update i c credits) k =
    net_invoiced invoices credits k - (get0 c k - get0 (credits_of credits i) k)"
  using sum_by_change [OF assms, of "\<lambda>j w. get0 (line_amounts (ii_lines w)) k - get0 (credits_of (AList.update i c credits) j) k"
      "\<lambda>j w. get0 (line_amounts (ii_lines w)) k - get0 (credits_of credits j) k"]
  by (simp add: net_invoiced_def)

section \<open>Every record keeps the invariant\<close>

lemma invoice_step_inv:
  assumes inv: "interim_inv s" and step: "invoice_step s r = Inr t" and ok: "values_ok (ii_lines r)" "pence_ok (ii_taxPence r)"
    and fresh: "ic_id r \<notin> fst ` set (st_invoices s)"
  shows "interim_inv t \<and> sum_values (st_invoiced t) = sum_values (st_invoiced s) + sum_list (map vl_netPence (ii_lines r)) \<and>
    (\<forall>l\<in>set (ii_lines r). get0 (st_invoiced t) (vl_scopeItemId l) \<le> get0 (st_certified t) (vl_scopeItemId l))"
proof -
  from step obtain inv' where d: "distinct (map vl_scopeItemId (ii_lines r))"
    and fold: "fold_r (invoice_line_step (st_certified s)) (st_invoiced s) (line_amounts (ii_lines r)) = Inr inv'"
    and t: "t = s\<lparr>st_invoiced := inv', st_invoices := AList.update (ic_id r) r (st_invoices s)\<rparr>"
    by (auto simp: invoice_step_def result_simps)
  have cr: "credit_inv (st_invoices s) (st_credits s) (st_creditedTax s)"
    and iv: "invoiced_inv (st_invoiced s) (st_invoices s) (st_credits s)" using inv by (simp_all add: interim_inv_def)
  have fr: "ic_id r \<notin> fst ` set (st_credits s)" "ic_id r \<notin> fst ` set (st_creditedTax s)"
    using cr fresh by (auto simp: credit_inv_def)
  then have z: "credits_of (st_credits s) (ic_id r) = []" "get0 (st_creditedTax s) (ic_id r) = 0"
    by (auto simp: credits_of_def get0_notin map_of_eq_None_iff [THEN iffD2])
  have ls: "distinct (map fst (line_amounts (ii_lines r)))" using d by simp
  note f = invoice_fold [OF fold ls iv [unfolded invoiced_inv_def, THEN conjunct1]]
  have "0 \<le> get0 (line_amounts (ii_lines r)) k" for k using line_amounts_nonneg [OF ok(1)] by (rule get0_nonneg)
  then have "credit_inv (AList.update (ic_id r) r (st_invoices s)) (st_credits s) (st_creditedTax s)"
    using cr fresh d ok z unfolding credit_inv_def
    by (auto simp: distinct_keys_update keys_update set_update_fresh pence_ok_def)
  moreover have "invoiced_inv inv' (AList.update (ic_id r) r (st_invoices s)) (st_credits s)"
    using iv f fresh z by (simp add: invoiced_inv_def net_invoiced_fresh)
  ultimately have "interim_inv t" using inv by (simp add: interim_inv_def t)
  moreover have "sum_values (line_amounts (ii_lines r)) = sum_list (map vl_netPence (ii_lines r))" by (simp add: sum_values_def)
  moreover have "get0 inv' (vl_scopeItemId l) \<le> get0 (st_certified s) (vl_scopeItemId l)" if "l \<in> set (ii_lines r)" for l
  proof -
    have "vl_scopeItemId l \<in> fst ` set (line_amounts (ii_lines r))" using that by (force simp: line_amounts_def)
    with f show ?thesis by blast
  qed
  ultimately show ?thesis using f by (simp add: t)
qed

lemma credit_step_inv:
  assumes inv: "interim_inv s" and step: "credit_step s r = Inr t" and ok: "values_ok (cr_lines r)" "pence_ok (cr_taxPence r)"
  shows "interim_inv t \<and> sum_values (st_invoiced t) = sum_values (st_invoiced s) - sum_list (map vl_netPence (cr_lines r))"
proof -
  from step obtain v c' inv' where v: "map_of (st_invoices s) (cr_invoiceId r) = Some v"
    and d: "distinct (map vl_scopeItemId (cr_lines r))"
    and fold: "fold_r (credit_line_step (line_amounts (ii_lines v))) (credits_of (st_credits s) (ic_id v), st_invoiced s)
        (line_amounts (cr_lines r)) = Inr (c', inv')"
    and tax: "get0 (st_creditedTax s) (ic_id v) + cr_taxPence r \<le> ii_taxPence v"
    and t: "t = s\<lparr>st_invoiced := inv', st_credits := AList.update (ic_id v) c' (st_credits s),
        st_creditedTax := AList.update (ic_id v) (get0 (st_creditedTax s) (ic_id v) + cr_taxPence r) (st_creditedTax s)\<rparr>"
    by (auto simp: credit_step_def result_simps credits_of_def [symmetric] split: option.splits)
  have cr: "credit_inv (st_invoices s) (st_credits s) (st_creditedTax s)"
    and iv: "invoiced_inv (st_invoiced s) (st_invoices s) (st_credits s)" using inv by (simp_all add: interim_inv_def)
  have di: "distinct (map fst (st_invoices s))" using cr by (simp add: credit_inv_def)
  have i: "ic_id v = cr_invoiceId r" "ic_id v \<in> fst ` set (st_invoices s)" and vi: "map_of (st_invoices s) (ic_id v) = Some v"
    using cr map_of_SomeD [OF v] v by (auto simp: credit_inv_def rev_image_eqI)
  have ls: "distinct (map fst (line_amounts (cr_lines r)))" using d by simp
  note f = credit_fold [OF fold ls iv [unfolded invoiced_inv_def, THEN conjunct1]]
  have pos: "0 \<le> get0 (line_amounts (cr_lines r)) k" for k using line_amounts_nonneg [OF ok(1)] by (rule get0_nonneg)
  have old: "0 \<le> get0 (credits_of (st_credits s) (ic_id w)) k \<and> get0 (credits_of (st_credits s) (ic_id w)) k \<le> get0 (line_amounts (ii_lines w)) k \<and>
      0 \<le> get0 (st_creditedTax s) (ic_id w) \<and> get0 (st_creditedTax s) (ic_id w) \<le> ii_taxPence w \<and>
      ic_id w = j \<and> distinct (map vl_scopeItemId (ii_lines w)) \<and> values_ok (ii_lines w)"
    if "(j, w) \<in> set (st_invoices s)" for j w k using cr that unfolding credit_inv_def by blast
  have new: "0 \<le> get0 c' k \<and> get0 c' k \<le> get0 (line_amounts (ii_lines v)) k" for k
    using f old [OF map_of_SomeD [OF vi], of k] pos [of k]
    by (cases "k \<in> fst ` set (line_amounts (cr_lines r))") (auto simp: get0_notin)
  have "credit_inv (st_invoices s) (AList.update (ic_id v) c' (st_credits s))
      (AList.update (ic_id v) (get0 (st_creditedTax s) (ic_id v) + cr_taxPence r) (st_creditedTax s))"
    unfolding credit_inv_def
  proof (intro conjI ballI)
    fix p assume p: "p \<in> set (st_invoices s)"
    obtain j w where jw: "p = (j, w)" by (cases p)
    have same: "w = v" if "j = ic_id v" using p jw that vi di by simp
    show "case p of (i, va) \<Rightarrow> ic_id va = i \<and> distinct (map vl_scopeItemId (ii_lines va)) \<and> values_ok (ii_lines va) \<and>
      0 \<le> get0 (AList.update (ic_id v) (get0 (st_creditedTax s) (ic_id v) + cr_taxPence r) (st_creditedTax s)) i \<and>
      get0 (AList.update (ic_id v) (get0 (st_creditedTax s) (ic_id v) + cr_taxPence r) (st_creditedTax s)) i \<le> ii_taxPence va \<and>
      (\<forall>k. 0 \<le> get0 (credits_of (AList.update (ic_id v) c' (st_credits s)) i) k \<and>
        get0 (credits_of (AList.update (ic_id v) c' (st_credits s)) i) k \<le> get0 (line_amounts (ii_lines va)) k)"
      using old [of j w] p jw same new tax ok(2) by (auto simp: pence_ok_def)
  qed (use cr i in \<open>auto simp: credit_inv_def keys_update\<close>)
  moreover have "invoiced_inv inv' (st_invoices s) (AList.update (ic_id v) c' (st_credits s))"
    using iv f by (simp add: invoiced_inv_def net_invoiced_credit [OF di vi])
  ultimately have "interim_inv t" using inv by (simp add: interim_inv_def t)
  moreover have "sum_values (line_amounts (cr_lines r)) = sum_list (map vl_netPence (cr_lines r))" by (simp add: sum_values_def)
  ultimately show ?thesis using f by (simp add: t)
qed

lemma schedule_step_inv:
  assumes "interim_inv s" "schedule_step s r = Inr t"
  shows "interim_inv t \<and> st_invoices t = st_invoices s \<and> st_invoiced t = st_invoiced s \<and> st_receipts t = st_receipts s"
proof -
  from assms(2) obtain m where m: "scheduleValues r = Inr m"
    and t: "t = s\<lparr>st_scheduled := m, st_schedule := Some r, st_application := None, st_certification := None,
               st_applied := [], st_certified := []\<rparr>"
    unfolding schedule_step_def result_simps by blast
  have "valuation_inv m [] []" using scheduleValues_ok [OF m] by (simp add: valuation_inv_def)
  with assms(1) show ?thesis by (simp add: interim_inv_def t)
qed

lemma application_step_inv:
  assumes "interim_inv s" "application_step s r = Inr t" "values_ok (ia_cumulativeValues r)"
  shows "interim_inv t \<and> st_invoices t = st_invoices s \<and> st_invoiced t = st_invoiced s \<and> st_receipts t = st_receipts s"
proof -
  from assms(2) obtain m x y z where m: "boundedValues (ia_cumulativeValues r) (st_scheduled s) = Inr m"
    and t: "t = s\<lparr>st_applied := m, st_applications := x, st_latestApplication := y, st_application := z,
                 st_certification := None, st_certified := []\<rparr>"
    unfolding application_step_def Let_def by (auto simp: result_simps split: option.splits)
  have v: "valuation_inv (st_scheduled s) (st_applied s) (st_certified s)" using assms(1) by (simp add: interim_inv_def)
  then have "\<forall>k. 0 \<le> get0 (st_scheduled s) k" "distinct (map fst (st_scheduled s))"
    unfolding valuation_inv_def by (meson order_trans)+
  from valuation_below [OF m assms(3) this] v have "valuation_inv (st_scheduled s) m []"
    by (simp add: valuation_inv_def)
  with assms(1) show ?thesis by (simp add: interim_inv_def t)
qed

lemma certification_step_inv:
  assumes "interim_inv s" "certification_step s r = Inr t" "values_ok (ce_cumulativeValues r)"
  shows "interim_inv t \<and> st_invoices t = st_invoices s \<and> st_invoiced t = st_invoiced s \<and> st_receipts t = st_receipts s"
proof -
  from assms(2) obtain m x y where m: "boundedValues (ce_cumulativeValues r) (st_applied s) = Inr m"
    and t: "t = s\<lparr>st_certificates := x, st_certified := m, st_certification := y\<rparr>"
    unfolding certification_step_def by (auto simp: result_simps)
  have v: "valuation_inv (st_scheduled s) (st_applied s) (st_certified s)" using assms(1) by (simp add: interim_inv_def)
  then have "\<forall>k. 0 \<le> get0 (st_applied s) k" "distinct (map fst (st_applied s))"
    unfolding valuation_inv_def by (meson order_trans)+
  from valuation_below [OF m assms(3) this] v have "valuation_inv (st_scheduled s) (st_applied s) m"
    by (simp add: valuation_inv_def)
  with assms(1) show ?thesis by (simp add: interim_inv_def t)
qed

lemma int_receipt_step_inv:
  assumes "interim_inv s" "int_receipt_step s r = Inr t"
  shows "interim_inv t \<and> st_invoices t = st_invoices s \<and> st_invoiced t = st_invoiced s \<and>
    sum_values (st_receipts t) = sum_values (st_receipts s) + ir_amountPence r"
  using assms by (auto simp: int_receipt_step_def result_simps interim_inv_def distinct_keys_update sum_values_update)

section \<open>Whole books\<close>

text \<open>The net value invoiced less credited, and the cash received, read off the records themselves.\<close>

definition record_net :: "int_record \<Rightarrow> int" where
  "record_net r = (case r of Int_invoice i \<Rightarrow> sum_list (map vl_netPence (ii_lines i))
     | Int_credit c \<Rightarrow> - sum_list (map vl_netPence (cr_lines c)) | _ \<Rightarrow> 0)"

definition record_cash :: "int_record \<Rightarrow> int" where
  "record_cash r = (case r of Int_receipt x \<Rightarrow> ir_amountPence x | _ \<Rightarrow> 0)"

lemma interim_step_inv:
  assumes inv: "interim_inv s" and step: "interim_step s r = Inr t" and ok: "interimRecordV1 r"
    and fresh: "int_id r \<notin> fst ` set (st_invoices s)"
  shows "interim_inv t \<and> fst ` set (st_invoices t) \<subseteq> insert (int_id r) (fst ` set (st_invoices s)) \<and>
    sum_values (st_invoiced t) = sum_values (st_invoiced s) + record_net r \<and>
    sum_values (st_receipts t) = sum_values (st_receipts s) + record_cash r"
proof (cases r)
  case (Int_schedule x)
  then show ?thesis using schedule_step_inv [OF inv, of x t] step by (auto simp: record_net_def record_cash_def)
next
  case (Int_application x)
  then show ?thesis using application_step_inv [OF inv, of x t] step ok by (auto simp: record_net_def record_cash_def)
next
  case (Int_certification x)
  then show ?thesis using certification_step_inv [OF inv, of x t] step ok by (auto simp: record_net_def record_cash_def)
next
  case (Int_invoice x)
  have "st_receipts t = st_receipts s" "st_invoices t = AList.update (ic_id x) x (st_invoices s)"
    using step Int_invoice by (auto simp: invoice_step_def result_simps)
  then show ?thesis using invoice_step_inv [OF inv, of x t] step ok fresh Int_invoice
    by (simp add: record_net_def record_cash_def keys_update)
next
  case (Int_credit x)
  have "st_receipts t = st_receipts s" "st_invoices t = st_invoices s"
    using step Int_credit by (auto simp: credit_step_def result_simps split: option.splits)
  then show ?thesis using credit_step_inv [OF inv, of x t] step ok Int_credit
    by (auto simp: record_net_def record_cash_def)
next
  case (Int_receipt x)
  then show ?thesis using int_receipt_step_inv [OF inv, of x t] step by (auto simp: record_net_def record_cash_def)
qed

lemma int_init_inv: "interim_inv int_init"
  by (simp add: interim_inv_def int_init_def valuation_inv_def credit_inv_def invoiced_inv_def net_invoiced_def)

lemma project_interim_inv:
  "project_interim rs = Inr s \<Longrightarrow> list_all interimRecordV1 rs \<Longrightarrow> distinct (map int_id rs) \<Longrightarrow>
   interim_inv s \<and> fst ` set (st_invoices s) \<subseteq> int_id ` set rs \<and>
   sum_values (st_invoiced s) = sum_list (map record_net rs) \<and> sum_values (st_receipts s) = sum_list (map record_cash rs)"
proof (induction rs arbitrary: s rule: rev_induct)
  case Nil
  then have "s = int_init" by (simp add: project_interim_def)
  moreover have "st_invoices int_init = []" "st_invoiced int_init = []" "st_receipts int_init = []" by (simp_all add: int_init_def)
  ultimately show ?case using int_init_inv by simp
next
  case (snoc r rs)
  then obtain u where u: "project_interim rs = Inr u" "interim_step u r = Inr s"
    by (auto simp: project_interim_def fold_r_append result_simps)
  have IH: "interim_inv u" "fst ` set (st_invoices u) \<subseteq> int_id ` set rs"
    "sum_values (st_invoiced u) = sum_list (map record_net rs)" "sum_values (st_receipts u) = sum_list (map record_cash rs)"
    using snoc.IH [OF u(1)] snoc.prems by simp_all
  have "int_id r \<notin> fst ` set (st_invoices u)" using IH(2) snoc.prems(3) by auto
  from interim_step_inv [OF IH(1) u(2) _ this] snoc.prems(2) have step: "interim_inv s"
    "fst ` set (st_invoices s) \<subseteq> insert (int_id r) (fst ` set (st_invoices u))"
    "sum_values (st_invoiced s) = sum_values (st_invoiced u) + record_net r"
    "sum_values (st_receipts s) = sum_values (st_receipts u) + record_cash r" by simp_all
  have "fst ` set (st_invoices s) \<subseteq> int_id ` set (rs @ [r])" using step(2) IH(2) by (simp, meson insert_mono order_trans)
  with step IH(3,4) show ?case by simp
qed

section \<open>What the records alone say\<close>

text \<open>
  The value of a scope in a list of lines, and the values the invoice and credit records of a book carry,
  read off the records without the projection.
\<close>

definition value_of :: "value_line list \<Rightarrow> string \<Rightarrow> int" where
  "value_of ls k = sum_list (map vl_netPence (filter (\<lambda>l. vl_scopeItemId l = k) ls))"

definition invoiced_in :: "int_record list \<Rightarrow> string \<Rightarrow> int" where
  "invoiced_in rs k = sum_list (map (\<lambda>r. case r of Int_invoice i \<Rightarrow> value_of (ii_lines i) k
     | Int_credit c \<Rightarrow> - value_of (cr_lines c) k | _ \<Rightarrow> 0) rs)"

definition credited_in :: "int_record list \<Rightarrow> string \<Rightarrow> string \<Rightarrow> int" where
  "credited_in rs i k = sum_list (map (\<lambda>r. case r of Int_credit c \<Rightarrow> if cr_invoiceId c = i then value_of (cr_lines c) k else 0
     | _ \<Rightarrow> 0) rs)"

definition credited_tax_in :: "int_record list \<Rightarrow> string \<Rightarrow> int" where
  "credited_tax_in rs i = sum_list (map (\<lambda>r. case r of Int_credit c \<Rightarrow> if cr_invoiceId c = i then cr_taxPence c else 0
     | _ \<Rightarrow> 0) rs)"

fun valuation_record :: "int_record \<Rightarrow> bool" where
  "valuation_record (Int_schedule _) = True"
| "valuation_record (Int_application _) = True"
| "valuation_record (Int_certification _) = True"
| "valuation_record _ = False"

definition certified_by :: "int_record list \<Rightarrow> int_certification \<Rightarrow> bool" where
  "certified_by rs c \<longleftrightarrow> (\<exists>before after. rs = before @ Int_certification c # after \<and> \<not> list_ex valuation_record after)"

lemma get0_line_amounts: "distinct (map vl_scopeItemId ls) \<Longrightarrow> get0 (line_amounts ls) k = value_of ls k"
proof (induction ls)
  case (Cons l ls)
  have "value_of ls k = 0" if "vl_scopeItemId l = k"
  proof -
    have "filter (\<lambda>l. vl_scopeItemId l = k) ls = []" using Cons.prems that by (force simp: filter_empty_conv image_iff)
    then show ?thesis by (simp add: value_of_def)
  qed
  then show ?case using Cons by (auto simp: line_amounts_def get0_Cons value_of_def)
qed (simp add: line_amounts_def value_of_def get0_notin)

lemma records_snoc [simp]:
  "invoiced_in (rs @ [r]) k = invoiced_in rs k + invoiced_in [r] k"
  "credited_in (rs @ [r]) i k = credited_in rs i k + credited_in [r] i k"
  "credited_tax_in (rs @ [r]) i = credited_tax_in rs i + credited_tax_in [r] i"
  by (simp_all add: invoiced_in_def credited_in_def credited_tax_in_def)

lemma certified_by_snoc: "certified_by rs c \<Longrightarrow> \<not> valuation_record r \<Longrightarrow> certified_by (rs @ [r]) c"
  unfolding certified_by_def by fastforce

lemma certified_by_last: "certified_by (rs @ [Int_certification c]) c"
  unfolding certified_by_def by fastforce

text \<open>The projection of a book says what its records say.\<close>

definition books_tied :: "int_record list \<Rightarrow> int_state \<Rightarrow> bool" where
  "books_tied rs s \<longleftrightarrow> (\<forall>k. get0 (st_invoiced s) k = invoiced_in rs k) \<and>
     (\<forall>i k. get0 (credits_of (st_credits s) i) k = credited_in rs i k) \<and>
     (\<forall>i. get0 (st_creditedTax s) i = credited_tax_in rs i) \<and>
     (\<forall>p. p \<in> set (st_invoices s) \<longleftrightarrow> (\<exists>v. p = (ic_id v, v) \<and> Int_invoice v \<in> set rs)) \<and>
     (\<forall>c. st_certification s = Some c \<longrightarrow> certified_by rs c \<and>
        (\<forall>k. get0 (st_certified s) k = value_of (ce_cumulativeValues c) k))"

lemma tied_valuation:
  assumes "books_tied rs s" "valuation_record r" "st_invoiced t = st_invoiced s" "st_credits t = st_credits s"
    "st_creditedTax t = st_creditedTax s" "st_invoices t = st_invoices s"
    "\<forall>c. st_certification t = Some c \<longrightarrow> r = Int_certification c \<and> (\<forall>k. get0 (st_certified t) k = value_of (ce_cumulativeValues c) k)"
  shows "books_tied (rs @ [r]) t"
proof -
  have "\<forall>v. r \<noteq> Int_invoice v" "\<forall>v. r \<noteq> Int_credit v" using assms(2) by auto
  then have "invoiced_in [r] k = 0" "credited_in [r] i k = 0" "credited_tax_in [r] i = 0" for i k
    by (auto simp: invoiced_in_def credited_in_def credited_tax_in_def split: int_record.splits)
  with assms \<open>\<forall>v. r \<noteq> Int_invoice v\<close> show ?thesis by (auto simp: books_tied_def certified_by_last)
qed

lemma tied_invoice:
  assumes tied: "books_tied rs s" and inv: "interim_inv s" and step: "invoice_step s r = Inr t"
    and fresh: "ic_id r \<notin> fst ` set (st_invoices s)"
  shows "books_tied (rs @ [Int_invoice r]) t"
proof -
  from step obtain inv' where d: "distinct (map vl_scopeItemId (ii_lines r))"
    and fold: "fold_r (invoice_line_step (st_certified s)) (st_invoiced s) (line_amounts (ii_lines r)) = Inr inv'"
    and t: "t = s\<lparr>st_invoiced := inv', st_invoices := AList.update (ic_id r) r (st_invoices s)\<rparr>"
    by (auto simp: invoice_step_def result_simps)
  have "distinct (map fst (st_invoiced s))" using inv by (simp add: interim_inv_def invoiced_inv_def)
  then have "get0 inv' k = get0 (st_invoiced s) k + value_of (ii_lines r) k" for k
    using invoice_fold [OF fold] d by (simp add: get0_line_amounts)
  moreover have "set (AList.update (ic_id r) r (st_invoices s)) = insert (ic_id r, r) (set (st_invoices s))"
    using fresh by (simp add: set_update_fresh)
  moreover have "invoiced_in [Int_invoice r] k = value_of (ii_lines r) k" "credited_in [Int_invoice r] i k = 0"
    "credited_tax_in [Int_invoice r] i = 0" for i k by (simp_all add: invoiced_in_def credited_in_def credited_tax_in_def)
  ultimately show ?thesis using tied by (auto simp: books_tied_def t intro: certified_by_snoc)
qed

lemma tied_credit:
  assumes tied: "books_tied rs s" and inv: "interim_inv s" and step: "credit_step s r = Inr t"
  shows "books_tied (rs @ [Int_credit r]) t"
proof -
  from step obtain v c' inv' where v: "map_of (st_invoices s) (cr_invoiceId r) = Some v"
    and d: "distinct (map vl_scopeItemId (cr_lines r))"
    and fold: "fold_r (credit_line_step (line_amounts (ii_lines v))) (credits_of (st_credits s) (ic_id v), st_invoiced s)
        (line_amounts (cr_lines r)) = Inr (c', inv')"
    and t: "t = s\<lparr>st_invoiced := inv', st_credits := AList.update (ic_id v) c' (st_credits s),
        st_creditedTax := AList.update (ic_id v) (get0 (st_creditedTax s) (ic_id v) + cr_taxPence r) (st_creditedTax s)\<rparr>"
    by (auto simp: credit_step_def result_simps credits_of_def [symmetric] split: option.splits)
  have i: "ic_id v = cr_invoiceId r" using tied map_of_SomeD [OF v] by (auto simp: books_tied_def)
  have "distinct (map fst (st_invoiced s))" using inv by (simp add: interim_inv_def invoiced_inv_def)
  then have "get0 inv' k = get0 (st_invoiced s) k - value_of (cr_lines r) k"
    "get0 c' k = get0 (credits_of (st_credits s) (cr_invoiceId r)) k + value_of (cr_lines r) k" for k
    using credit_fold [OF fold] d by (simp_all add: get0_line_amounts i)
  moreover have "invoiced_in [Int_credit r] k = - value_of (cr_lines r) k"
    "credited_in [Int_credit r] j k = (if cr_invoiceId r = j then value_of (cr_lines r) k else 0)"
    "credited_tax_in [Int_credit r] j = (if cr_invoiceId r = j then cr_taxPence r else 0)" for j k
    by (simp_all add: invoiced_in_def credited_in_def credited_tax_in_def)
  ultimately show ?thesis using tied by (auto simp: books_tied_def t i intro: certified_by_snoc)
qed

lemma tied_step:
  assumes tied: "books_tied rs s" and inv: "interim_inv s" and step: "interim_step s r = Inr t"
    and fresh: "int_id r \<notin> fst ` set (st_invoices s)"
  shows "books_tied (rs @ [r]) t"
proof (cases r)
  case (Int_schedule x)
  with step show ?thesis by (intro tied_valuation [OF tied]) (auto simp: schedule_step_def result_simps)
next
  case (Int_application x)
  with step show ?thesis by (intro tied_valuation [OF tied]) (auto simp: application_step_def Let_def result_simps split: option.splits)
next
  case (Int_certification x)
  with step show ?thesis
    by (intro tied_valuation [OF tied]) (auto simp: certification_step_def boundedValues_def result_simps get0_line_amounts)
next
  case (Int_invoice x)
  with tied_invoice [OF tied inv] step fresh show ?thesis by simp
next
  case (Int_credit x)
  with tied_credit [OF tied inv] step show ?thesis by simp
next
  case (Int_receipt x)
  moreover have "invoiced_in [Int_receipt x] k = 0" "credited_in [Int_receipt x] i k = 0" "credited_tax_in [Int_receipt x] i = 0" for i k
    by (simp_all add: invoiced_in_def credited_in_def credited_tax_in_def)
  ultimately show ?thesis using tied step
    by (auto simp: int_receipt_step_def result_simps books_tied_def intro: certified_by_snoc)
qed

lemma project_interim_tied:
  "project_interim rs = Inr s \<Longrightarrow> list_all interimRecordV1 rs \<Longrightarrow> distinct (map int_id rs) \<Longrightarrow> books_tied rs s"
proof (induction rs arbitrary: s rule: rev_induct)
  case Nil
  then have "s = int_init" by (simp add: project_interim_def)
  then show ?case
    by (simp add: books_tied_def int_init_def credits_of_def invoiced_in_def credited_in_def credited_tax_in_def get0_notin)
next
  case (snoc r rs)
  then obtain u where u: "project_interim rs = Inr u" "interim_step u r = Inr s"
    by (auto simp: project_interim_def fold_r_append result_simps)
  have ok: "list_all interimRecordV1 rs" "distinct (map int_id rs)" using snoc.prems by simp_all
  have "int_id r \<notin> fst ` set (st_invoices u)" using project_interim_inv [OF u(1) ok] snoc.prems(3) by auto
  then show ?case using tied_step [OF snoc.IH [OF u(1) ok] _ u(2)] project_interim_inv [OF u(1) ok] by blast
qed

text \<open>What holds at an invoice draft, and what every invoice is credited.\<close>

lemma invoice_within:
  assumes s: "project_interim (rs @ [Int_invoice r]) = Inr s" and ok: "list_all interimRecordV1 (rs @ [Int_invoice r])"
    "distinct (map int_id (rs @ [Int_invoice r]))"
  shows "\<exists>c. certified_by rs c \<and> ic_id c = ii_certificationId r \<and> (\<forall>l\<in>set (ii_lines r).
    invoiced_in (rs @ [Int_invoice r]) (vl_scopeItemId l) \<le> value_of (ce_cumulativeValues c) (vl_scopeItemId l))"
proof -
  from s obtain u where u: "project_interim rs = Inr u" "invoice_step u r = Inr s"
    by (auto simp: project_interim_def fold_r_append result_simps)
  have ok': "list_all interimRecordV1 rs" "distinct (map int_id rs)" using ok by simp_all
  have inv: "interim_inv u" "fst ` set (st_invoices u) \<subseteq> int_id ` set rs"
    using project_interim_inv [OF u(1) ok'] by simp_all
  have fresh: "ic_id r \<notin> fst ` set (st_invoices u)" using inv(2) ok(2) by auto
  have "map_option ic_id (st_certification u) = Some (ii_certificationId r)" using u(2) by (auto simp: invoice_step_def result_simps)
  then obtain c where c: "st_certification u = Some c" "ic_id c = ii_certificationId r" by auto
  have "st_certified s = st_certified u" using u(2) by (auto simp: invoice_step_def result_simps)
  then have "\<forall>l\<in>set (ii_lines r). get0 (st_invoiced s) (vl_scopeItemId l) \<le> get0 (st_certified u) (vl_scopeItemId l)"
    using invoice_step_inv [OF inv(1) u(2) _ _ fresh] ok(1) by simp
  moreover have "get0 (st_invoiced s) k = invoiced_in (rs @ [Int_invoice r]) k" for k
    using project_interim_tied [OF s ok] unfolding books_tied_def by blast
  moreover have "certified_by rs c" "get0 (st_certified u) k = value_of (ce_cumulativeValues c) k" for k
    using project_interim_tied [OF u(1) ok'] c(1) unfolding books_tied_def by blast+
  ultimately show ?thesis using c(2) by (intro exI [of _ c]) simp
qed

lemma credits_within:
  assumes tied: "books_tied rs s" and inv: "interim_inv s" and v: "Int_invoice v \<in> set rs"
  shows "0 \<le> credited_tax_in rs (ic_id v) \<and> credited_tax_in rs (ic_id v) \<le> ii_taxPence v \<and>
    (\<forall>k. 0 \<le> credited_in rs (ic_id v) k \<and> credited_in rs (ic_id v) k \<le> value_of (ii_lines v) k)"
proof -
  have "(ic_id v, v) \<in> set (st_invoices s)" using tied v unfolding books_tied_def by blast
  then have *: "distinct (map vl_scopeItemId (ii_lines v)) \<and> 0 \<le> get0 (st_creditedTax s) (ic_id v) \<and>
      get0 (st_creditedTax s) (ic_id v) \<le> ii_taxPence v \<and> (\<forall>k. 0 \<le> get0 (credits_of (st_credits s) (ic_id v)) k \<and>
        get0 (credits_of (st_credits s) (ic_id v)) k \<le> get0 (line_amounts (ii_lines v)) k)"
    using inv unfolding interim_inv_def credit_inv_def by blast
  have "get0 (credits_of (st_credits s) i) k = credited_in rs i k" "get0 (st_creditedTax s) i = credited_tax_in rs i" for i k
    using tied unfolding books_tied_def by blast+
  with * show ?thesis using get0_line_amounts [of "ii_lines v"] by simp
qed

lemma owner_fold: "fold_r (owner_step owner) ids rs = Inr ids' \<Longrightarrow> distinct (map int_id rs) \<and> int_id ` set rs \<inter> ids = {}"
proof (induction rs arbitrary: ids)
  case (Cons r rs)
  then obtain u where "owner_step owner ids r = Inr u" "fold_r (owner_step owner) u rs = Inr ids'"
    by (auto simp: bind_r_Inr_iff)
  then have "int_id r \<notin> ids" "fold_r (owner_step owner) (insert (int_id r) ids) rs = Inr ids'"
    using owner_step_def [of owner ids r] by (auto split: if_splits)
  with Cons.IH [OF this(2)] show ?case by auto
qed simp

definition run_interim :: "int_book \<Rightarrow> int_error + int_state" where
  "run_interim b = bind_r (validatedBook b) (\<lambda>book. project_interim (ib_records book))"

lemma run_interim_InrD:
  "run_interim b = Inr s \<Longrightarrow> list_all interimRecordV1 (ib_records b) \<and> distinct (map int_id (ib_records b)) \<and>
     project_interim (ib_records b) = Inr s"
  by (auto simp: run_interim_def validatedBook_def interimDraftBookV1_def result_simps dest: owner_fold)

lemma validatedBook_iff: "validatedBook b = Inr b' \<longleftrightarrow> b' = b \<and> (\<exists>s. run_interim b = Inr s)"
  by (auto simp: run_interim_def validatedBook_def result_simps)

definition extend_interim :: "int_book \<Rightarrow> int_record \<Rightarrow> int_book" where
  "extend_interim b r = b\<lparr>ib_records := ib_records b @ [r]\<rparr>"

lemma appendInterimDraftRecord_iff:
  "appendInterimDraftRecord b r = Inr b' \<longleftrightarrow> (\<exists>s. run_interim b = Inr s) \<and>
     (if r \<in> set (ib_records b) then b' = b
      else int_id r \<notin> int_id ` set (ib_records b) \<and> b' = extend_interim b r \<and> (\<exists>s. run_interim b' = Inr s))"
proof (cases "\<exists>s. run_interim b = Inr s")
  case False
  then show ?thesis by (auto simp: appendInterimDraftRecord_def result_simps validatedBook_iff)
next
  case True
  then have valid: "validatedBook b = Inr b" by (simp add: validatedBook_iff)
  from True have recs: "list_all interimRecordV1 (ib_records b)" and d: "distinct (map int_id (ib_records b))"
    by (auto dest: run_interim_InrD)
  show ?thesis
  proof (cases "find (\<lambda>item. int_id item = int_id r) (ib_records b)")
    case None
    then have new: "int_id r \<notin> int_id ` set (ib_records b)" by (auto simp: find_None_iff)
    then have "r \<notin> set (ib_records b)" by blast
    moreover have "run_interim (extend_interim b r) = Inr s \<Longrightarrow> interimRecordV1 r" for s
      by (drule run_interim_InrD) (simp add: extend_interim_def)
    ultimately show ?thesis using True None new
      unfolding appendInterimDraftRecord_def valid bind_r_simps extend_interim_def
      by (auto simp: validatedBook_iff)
  next
    case (Some prior)
    then have p: "prior \<in> set (ib_records b)" "int_id prior = int_id r" by (auto simp: find_Some_iff)
    then have "r \<in> set (ib_records b) \<longleftrightarrow> r = prior" using d by (auto simp: distinct_map inj_on_def)
    moreover have "interimRecordV1 prior" using recs p(1) by (simp add: list_all_iff)
    moreover have "int_id r \<in> int_id ` set (ib_records b)" using p by (metis image_eqI)
    ultimately show ?thesis using True Some unfolding appendInterimDraftRecord_def valid bind_r_simps by auto
  qed
qed

interpretation int_book: append_book run_interim ib_records extend_interim appendInterimDraftRecord int_id
proof unfold_locales
  fix b :: int_book and s assume "run_interim b = Inr s"
  then show "distinct (map int_id (ib_records b))" using run_interim_InrD by blast
qed (simp_all only: appendInterimDraftRecord_iff, simp add: extend_interim_def)

section \<open>Properties\<close>

text \<open>
  The interim account never claims more than was approved: whenever a book reconciles, for
  every scheduled scope certified lies between zero and applied, applied is at most scheduled, the
  value invoiced net of credits is non-negative and what may still be invoiced is the certified
  value beyond it; the net invoiced total is exactly the invoice lines less the credit lines of the
  records, and the cash is exactly their receipts.
\<close>

lemma interim_values_nested:
  assumes "reconcileInterimDraftBook b = Inr x"
  shows "(\<forall>l\<in>set (ix_lines x). 0 \<le> xl_certified l \<and> xl_certified l \<le> xl_applied l \<and> xl_applied l \<le> xl_scheduled l \<and>
      0 \<le> xl_invoiced l \<and> xl_invoiceable l = max 0 (xl_certified l - xl_invoiced l)) \<and>
    ix_netInvoiced x = sum_list (map record_net (ib_records b)) \<and>
    ix_grossReceived x = sum_list (map record_cash (ib_records b))"
proof -
  from assms obtain s where v: "validatedBook b = Inr b" and s: "project_interim (ib_records b) = Inr s"
    and ls: "map_r (reconcile_line s) (st_scheduled s) = Inr (ix_lines x)"
    and n: "ix_netInvoiced x = sum_values (st_invoiced s)" and c: "ix_grossReceived x = sum_values (st_receipts s)"
    unfolding reconcileInterimDraftBook_def
    by (auto simp: result_simps validatedBook_iff sum_values_def)
  have "run_interim b = Inr s" using v s by (simp add: run_interim_def)
  from project_interim_inv [OF s] run_interim_InrD [OF this] have inv: "interim_inv s"
    and sums: "sum_values (st_invoiced s) = sum_list (map record_net (ib_records b))"
      "sum_values (st_receipts s) = sum_list (map record_cash (ib_records b))" by simp_all
  have val: "valuation_inv (st_scheduled s) (st_applied s) (st_certified s)"
    and cr: "credit_inv (st_invoices s) (st_credits s) (st_creditedTax s)"
    and iv: "invoiced_inv (st_invoiced s) (st_invoices s) (st_credits s)" using inv by (simp_all add: interim_inv_def)
  have "0 \<le> net_invoiced (st_invoices s) (st_credits s) k" for k
    unfolding net_invoiced_def by (rule sum_by_nonneg) (use cr in \<open>auto simp: credit_inv_def\<close>)
  then have pos: "0 \<le> get0 (st_invoiced s) k" for k using iv by (simp add: invoiced_inv_def)
  have "0 \<le> xl_certified l \<and> xl_certified l \<le> xl_applied l \<and> xl_applied l \<le> xl_scheduled l \<and>
      0 \<le> xl_invoiced l \<and> xl_invoiceable l = max 0 (xl_certified l - xl_invoiced l)" if l: "l \<in> set (ix_lines x)" for l
  proof -
    obtain k n where kn: "(k, n) \<in> set (st_scheduled s)" "reconcile_line s (k, n) = Inr l"
      using map_r_InrD [OF ls l] by auto
    have "get0 (st_scheduled s) k = n" using val kn(1) by (simp add: valuation_inv_def get0_def)
    moreover have "xl_scheduled l = n" "xl_applied l = get0 (st_applied s) k" "xl_certified l = get0 (st_certified s) k"
      "xl_invoiced l = get0 (st_invoiced s) k" "xl_invoiceable l = max 0 (get0 (st_certified s) k - get0 (st_invoiced s) k)"
      using kn(2) unfolding reconcile_line_def Let_def fst_conv snd_conv bind_r_Inr_iff int_sum_Inr_iff by auto
    moreover have "0 \<le> get0 (st_certified s) k \<and> get0 (st_certified s) k \<le> get0 (st_applied s) k \<and>
       get0 (st_applied s) k \<le> get0 (st_scheduled s) k" using val unfolding valuation_inv_def by blast
    ultimately show ?thesis using pos [of k] by simp
  qed
  with n c sums show ?thesis by simp
qed

text \<open>
  C33. The same completed value is never invoiced twice and never credited twice. At every invoice draft of a
  validated book the certification it names is the latest one before it, with no newer schedule or
  application since, and the lines of all invoices up to and including this one, less those of all credits
  before it, stay within the value certified for each scope the draft invoices. All credits to an invoice together stay
  between zero and that invoice, line by line and for tax. What the projection holds as invoiced is, scope by scope, the lines of all
  invoices of the book less those of all its credits.
\<close>

theorem interim_no_double_invoice:
  assumes "validatedBook b = Inr b'"
  shows "(\<forall>earlier r later. ib_records b = earlier @ Int_invoice r # later \<longrightarrow>
      (\<exists>c. certified_by earlier c \<and> ic_id c = ii_certificationId r \<and>
        (\<forall>l\<in>set (ii_lines r). invoiced_in (earlier @ [Int_invoice r]) (vl_scopeItemId l) \<le>
          value_of (ce_cumulativeValues c) (vl_scopeItemId l)))) \<and>
    (\<forall>v. Int_invoice v \<in> set (ib_records b) \<longrightarrow>
      0 \<le> credited_tax_in (ib_records b) (ic_id v) \<and> credited_tax_in (ib_records b) (ic_id v) \<le> ii_taxPence v \<and>
      (\<forall>k. 0 \<le> credited_in (ib_records b) (ic_id v) k \<and> credited_in (ib_records b) (ic_id v) k \<le> value_of (ii_lines v) k)) \<and>
    (\<exists>s. project_interim (ib_records b) = Inr s \<and> (\<forall>k. get0 (st_invoiced s) k = invoiced_in (ib_records b) k))"
proof -
  from assms obtain s where "run_interim b = Inr s" by (auto simp: validatedBook_iff)
  then have ok: "list_all interimRecordV1 (ib_records b)" "distinct (map int_id (ib_records b))"
    and s: "project_interim (ib_records b) = Inr s" by (auto dest: run_interim_InrD)
  note tied = project_interim_tied [OF s ok] and inv = project_interim_inv [OF s ok, THEN conjunct1]
  have first: "\<exists>c. certified_by earlier c \<and> ic_id c = ii_certificationId r \<and>
      (\<forall>l\<in>set (ii_lines r). invoiced_in (earlier @ [Int_invoice r]) (vl_scopeItemId l) \<le> value_of (ce_cumulativeValues c) (vl_scopeItemId l))"
    if b: "ib_records b = earlier @ Int_invoice r # later" for earlier r later
  proof -
    obtain u where "project_interim (earlier @ [Int_invoice r]) = Inr u"
      using s b by (auto simp: project_interim_def fold_r_append result_simps)
    then show ?thesis by (rule invoice_within) (use ok b in auto)
  qed
  have second: "0 \<le> credited_tax_in (ib_records b) (ic_id v) \<and> credited_tax_in (ib_records b) (ic_id v) \<le> ii_taxPence v \<and>
      (\<forall>k. 0 \<le> credited_in (ib_records b) (ic_id v) k \<and> credited_in (ib_records b) (ic_id v) k \<le> value_of (ii_lines v) k)"
    if v: "Int_invoice v \<in> set (ib_records b)" for v
    using credits_within [OF tied inv v] .
  show ?thesis using first second s tied by (simp add: books_tied_def)
qed

text \<open>
  Delivering a batch of interim records again is harmless: if appending a list of records to a
  validated book succeeds, appending the same list once more returns the same book, which still
  validates and holds every record.
\<close>

lemma interim_replay_idempotent:
  assumes "validatedBook b = Inr b" and "fold_r appendInterimDraftRecord b rs = Inr b'"
  shows "fold_r appendInterimDraftRecord b' rs = Inr b' \<and> set rs \<subseteq> set (ib_records b') \<and>
    set (ib_records b) \<subseteq> set (ib_records b')"
  using int_book.replay_idempotent [OF assms(2)] int_book.appended_known [OF assms(2)] assms(1)
  by (simp add: validatedBook_iff)

definition int_example_records :: "int_record list" where
  "int_example_records =
    (let c = \<lambda>i. \<lparr>ic_id = i, ic_tenantId = ''t'', ic_jobId = ''j''\<rparr>; v = \<lambda>n. [\<lparr>vl_scopeItemId = ''s'', vl_netPence = n\<rparr>] in
    [Int_schedule (int_context.extend (c ''a'') (int_schedule.fields 1 None ''base'' ''d'' [''2026-11-30''] ''synthetic_england_wales''
        ''synthetic_staged'' None None [\<lparr>sl_id = ''l'', sl_scopeItemId = ''s'', sl_commercialRevisionId = ''r'',
          sl_sourceDocumentId = ''base'', sl_kind = Baseline, sl_approvalDecisionId = None, sl_netPence = 1000\<rparr>])),
     Int_application (int_context.extend (c ''b'') (int_application.fields ''app'' 1 None ''a'' ''2026-11-30'' Interim_kind (v 800))),
     Int_certification (int_context.extend (c ''c'') (int_certification.fields ''b'' ''cert 1'' (v 700))),
     Int_invoice (int_context.extend (c ''d'') (int_invoice.fields ''c'' (v 600) 120))])"

definition int_example :: int_book where
  "int_example = \<lparr>ib_tenantId = ''t'', ib_jobId = ''j'',
     ib_records = int_example_records\<rparr>"

lemma int_example_run: "validatedBook int_example = Inr int_example"
proof -
  have "length (ib_records int_example) = 4" by code_simp
  moreover have "list_all interimRecordV1 (ib_records int_example)"
    by (simp add: int_example_def int_example_records_def Let_def interimScheduleV1_def revision_ok_def values_ok_def
        short_name_def pence_ok_def signed_pence_ok_def MAX_MONEY_PENCE_def int_context.defs int_schedule.defs int_application.defs
        int_certification.defs int_invoice.defs)
  ultimately have "interimDraftBookV1 int_example" by (simp add: interimDraftBookV1_def)
  moreover have "(case fold_r (owner_step (''t'', ''j'')) {} (ib_records int_example) of Inr _ \<Rightarrow> True | Inl _ \<Rightarrow> False) = True" by code_simp
  moreover have "(case project_interim (ib_records int_example) of Inr _ \<Rightarrow> True | Inl _ \<Rightarrow> False) = True" by code_simp
  moreover have "ib_tenantId int_example = ''t''" "ib_jobId int_example = ''j''" by (simp_all add: int_example_def)
  ultimately show ?thesis by (auto simp: validatedBook_def split: sum.splits)
qed

lemma int_example_reconciles:
  "\<exists>x. reconcileInterimDraftBook int_example = Inr x \<and> ix_netInvoiced x = 600 \<and>
    map xl_invoiceable (ix_lines x) = [100]"
proof -
  have "(case bind_r (project_interim (ib_records int_example)) (\<lambda>s. bind_r (map_r (reconcile_line s) (st_scheduled s)) (\<lambda>ls.
     bind_r (map_r (invoice_balance_of s) (map snd (st_invoices s))) (\<lambda>balances.
     bind_r (int_sum (map snd (st_invoiced s))) (\<lambda>n. bind_r (int_sum (map snd (st_receipts s))) (\<lambda>g.
     bind_r (int_sum (map (\<lambda>x. pence (ib_balance (snd x))) balances)) (\<lambda>o1.
     bind_r (int_sum (map (\<lambda>x. pence (ib_unappliedCredit (snd x))) balances)) (\<lambda>u. Inr (map xl_invoiceable ls, n)))))))) of
     Inr r \<Rightarrow> r = ([100], 600) | Inl _ \<Rightarrow> False) = True" by code_simp
  then obtain s ls balances n g o1 u where s: "project_interim (ib_records int_example) = Inr s"
    "map_r (reconcile_line s) (st_scheduled s) = Inr ls" "map_r (invoice_balance_of s) (map snd (st_invoices s)) = Inr balances"
    "int_sum (map snd (st_invoiced s)) = Inr n" "int_sum (map snd (st_receipts s)) = Inr g"
    "int_sum (map (\<lambda>x. pence (ib_balance (snd x))) balances) = Inr o1"
    "int_sum (map (\<lambda>x. pence (ib_unappliedCredit (snd x))) balances) = Inr u"
    and r: "map xl_invoiceable ls = [100]" "n = 600"
    by (auto split: sum.splits simp: bind_r_def)
  have "(case project_interim (ib_records int_example) of Inr s \<Rightarrow> st_schedule s = Some (case hd int_example_records of Int_schedule x \<Rightarrow> x)
      | Inl _ \<Rightarrow> False) = True" by code_simp
  then have sc: "st_schedule s = Some (case hd int_example_records of Int_schedule x \<Rightarrow> x)" using s(1) by simp
  have "interimScheduleV1 (case hd int_example_records of Int_schedule x \<Rightarrow> x)"
    by (simp add: int_example_records_def Let_def interimScheduleV1_def revision_ok_def short_name_def signed_pence_ok_def
        MAX_MONEY_PENCE_def int_context.defs int_schedule.defs)
  then show ?thesis unfolding reconcileInterimDraftBook_def int_example_run bind_r_simps s sc
    by (simp add: r interimDraftIssueBlockers_def)
qed

lemma interim_values_nested_witness:
  "\<exists>x. reconcileInterimDraftBook int_example = Inr x \<and> ix_netInvoiced x = sum_list (map record_net (ib_records int_example)) \<and>
    ix_netInvoiced x = 600"
  using int_example_reconciles interim_values_nested [of int_example] by blast

theorem interim_no_double_invoice_witness:
  "\<exists>c. certified_by (take 3 int_example_records) c \<and> ic_id c = ''c'' \<and>
     invoiced_in int_example_records ''s'' \<le> value_of (ce_cumulativeValues c) ''s'' \<and>
     invoiced_in int_example_records ''s'' = 600"
proof -
  let ?i = "int_context.extend \<lparr>ic_id = ''d'', ic_tenantId = ''t'', ic_jobId = ''j''\<rparr>
      (int_invoice.fields ''c'' [\<lparr>vl_scopeItemId = ''s'', vl_netPence = 600\<rparr>] 120)"
  have b: "ib_records int_example = take 3 int_example_records @ Int_invoice ?i # []"
    and all: "take 3 int_example_records @ [Int_invoice ?i] = int_example_records"
    and n: "invoiced_in int_example_records ''s'' = 600" by code_simp+
  have i: "ii_certificationId ?i = ''c''" "ii_lines ?i = [\<lparr>vl_scopeItemId = ''s'', vl_netPence = 600\<rparr>]"
    by (simp_all add: int_context.defs int_invoice.defs)
  from interim_no_double_invoice [OF int_example_run, THEN conjunct1, rule_format, OF b] show ?thesis
    unfolding all i using n by simp
qed

lemma interim_replay_idempotent_witness:
  "fold_r appendInterimDraftRecord int_example (ib_records int_example) = Inr int_example"
proof -
  have a: "fold_r appendInterimDraftRecord int_example (ib_records int_example) = Inr int_example"
    using int_book.replay_known [of "ib_records int_example" int_example] int_example_run by (simp add: validatedBook_iff)
  show ?thesis using interim_replay_idempotent [OF int_example_run a] by blast
qed

end
