(* ===== verification/Retention.thy ===== *)
theory Retention
  imports Append_Book
begin

text \<open>
  Model of \<^verbatim>\<open>retention-balances.ts\<close>: the append-only retention book of one job.
  Records are checked in order by \<open>retention_step\<close> (the body of the loop of \<^verbatim>\<open>project\<close>);
  \<open>retention_inv\<close> is the invariant of its state.
\<close>

section \<open>Records\<close>

record ret_amount =
  netPence :: int
  taxPence :: int

datatype ret_source =
    Contract_profile (profileVersion: string) (clause: string)
  | Human_input (actorId: string) (inputId: string)

datatype ret_milestone = Completion | Defects

record ret_condition =
  cond_id :: string
  cond_milestone :: ret_milestone
  cond_description :: string
  cond_source :: ret_source
  cond_dueDate :: string
  cond_dateSource :: ret_source
  cond_cumulativeLimit :: ret_amount

record ret_context =
  rc_id :: string
  rc_tenantId :: string
  rc_jobId :: string

record ret_profile = ret_context +
  rp_revision :: int
  rp_previousProfileId :: "string option"
  rp_contractProfileVersion :: string
  rp_fixtureApprovalId :: string
  rp_taxTreatmentVersion :: string
  rp_retained :: ret_amount
  rp_alreadyBilled :: ret_amount
  rp_conditions :: "ret_condition list"

datatype ret_trigger = Timer | Human

record ret_review = ret_context +
  rv_profileId :: string
  rv_conditionId :: string
  rv_trigger :: ret_trigger
  rv_raisedOn :: string

datatype ret_outcome = Approved | Rejected | Deferred

record ret_resolution = ret_context +
  rr_reviewId :: string
  rr_outcome :: ret_outcome
  rr_conditionSatisfied :: bool
  rr_actorId :: string
  rr_inputId :: string
  rr_amount :: ret_amount

record ret_release = ret_context +
  rl_resolutionId :: string

record ret_receipt = ret_context +
  rt_releaseId :: string
  rt_grossPence :: int

record ret_reversal = ret_context +
  rx_receiptId :: string
  rx_grossPence :: int

datatype ret_record =
    Ret_profile ret_profile
  | Ret_review ret_review
  | Ret_resolution ret_resolution
  | Ret_release ret_release
  | Ret_receipt ret_receipt
  | Ret_reversal ret_reversal

record ret_book =
  rb_tenantId :: string
  rb_jobId :: string
  rb_records :: "ret_record list"

datatype ret_error =
    R_INVALID_INPUT | R_CONTEXT_MISMATCH | R_REPLAY_CONFLICT | R_STALE_PROFILE
  | R_MISSING_SOURCE | R_VALUE_LIMIT | R_CONDITION_UNMET | R_ISSUE_DISABLED
  | R_money money_error

fun ret_id :: "ret_record \<Rightarrow> string" where
  "ret_id (Ret_profile r) = rc_id r"
| "ret_id (Ret_review r) = rc_id r"
| "ret_id (Ret_resolution r) = rc_id r"
| "ret_id (Ret_release r) = rc_id r"
| "ret_id (Ret_receipt r) = rc_id r"
| "ret_id (Ret_reversal r) = rc_id r"

fun ret_owner :: "ret_record \<Rightarrow> string \<times> string" where
  "ret_owner (Ret_profile r) = (rc_tenantId r, rc_jobId r)"
| "ret_owner (Ret_review r) = (rc_tenantId r, rc_jobId r)"
| "ret_owner (Ret_resolution r) = (rc_tenantId r, rc_jobId r)"
| "ret_owner (Ret_release r) = (rc_tenantId r, rc_jobId r)"
| "ret_owner (Ret_receipt r) = (rc_tenantId r, rc_jobId r)"
| "ret_owner (Ret_reversal r) = (rc_tenantId r, rc_jobId r)"

section \<open>Schemas\<close>

definition name_ok :: "nat \<Rightarrow> string \<Rightarrow> bool" where
  "name_ok n s \<longleftrightarrow> 1 \<le> length s \<and> length s \<le> n"

definition ret_amount_ok :: "ret_amount \<Rightarrow> bool" where
  "ret_amount_ok a \<longleftrightarrow> pence_ok (netPence a) \<and> pence_ok (taxPence a)"

fun ret_source_ok :: "ret_source \<Rightarrow> bool" where
  "ret_source_ok (Contract_profile v c) \<longleftrightarrow> name_ok 120 v \<and> name_ok 120 c"
| "ret_source_ok (Human_input _ _) \<longleftrightarrow> True"

definition ret_condition_ok :: "ret_condition \<Rightarrow> bool" where
  "ret_condition_ok c \<longleftrightarrow> name_ok 500 (cond_description c) \<and> ret_source_ok (cond_source c) \<and>
     ret_source_ok (cond_dateSource c) \<and> ret_amount_ok (cond_cumulativeLimit c)"

definition retentionProfileV1 :: "ret_profile \<Rightarrow> bool" where
  "retentionProfileV1 p \<longleftrightarrow> 0 < rp_revision p \<and> name_ok 120 (rp_contractProfileVersion p) \<and>
     name_ok 120 (rp_taxTreatmentVersion p) \<and> ret_amount_ok (rp_retained p) \<and> ret_amount_ok (rp_alreadyBilled p) \<and>
     1 \<le> length (rp_conditions p) \<and> length (rp_conditions p) \<le> 20 \<and> list_all ret_condition_ok (rp_conditions p)"

fun retentionRecordV1 :: "ret_record \<Rightarrow> bool" where
  "retentionRecordV1 (Ret_profile p) \<longleftrightarrow> retentionProfileV1 p"
| "retentionRecordV1 (Ret_review _) \<longleftrightarrow> True"
| "retentionRecordV1 (Ret_resolution r) \<longleftrightarrow> ret_amount_ok (rr_amount r)"
| "retentionRecordV1 (Ret_release _) \<longleftrightarrow> True"
| "retentionRecordV1 (Ret_receipt r) \<longleftrightarrow> pence_ok (rt_grossPence r)"
| "retentionRecordV1 (Ret_reversal r) \<longleftrightarrow> pence_ok (rx_grossPence r)"

definition retentionBookV1 :: "ret_book \<Rightarrow> bool" where
  "retentionBookV1 b \<longleftrightarrow> length (rb_records b) \<le> 10000 \<and> list_all retentionRecordV1 (rb_records b)"

section \<open>Amounts\<close>

definition ret_sum :: "int list \<Rightarrow> ret_error + int" where
  "ret_sum vs = money_sum R_money vs"

definition ret_gross :: "ret_amount \<Rightarrow> ret_error + int" where
  "ret_gross a = ret_sum [netPence a, taxPence a]"

definition ret_add :: "ret_amount \<Rightarrow> ret_amount \<Rightarrow> ret_error + ret_amount" where
  "ret_add a b = bind_r (ret_sum [netPence a, netPence b]) (\<lambda>n.
     bind_r (ret_sum [taxPence a, taxPence b]) (\<lambda>t. Inr \<lparr>netPence = n, taxPence = t\<rparr>))"

definition ret_subtract :: "ret_amount \<Rightarrow> ret_amount \<Rightarrow> ret_error + ret_amount" where
  "ret_subtract a b = bind_r (ret_sum [netPence a, - netPence b]) (\<lambda>n.
     bind_r (ret_sum [taxPence a, - taxPence b]) (\<lambda>t. Inr \<lparr>netPence = n, taxPence = t\<rparr>))"

definition ret_zero :: ret_amount where
  "ret_zero = \<lparr>netPence = 0, taxPence = 0\<rparr>"

definition ret_bounded :: "ret_amount \<Rightarrow> ret_amount \<Rightarrow> ret_error + unit" where
  "ret_bounded v limit = bind_r (ret_gross v) (\<lambda>_.
     guard_r (\<not> (netPence v < 0 \<or> taxPence v < 0 \<or> netPence v > netPence limit \<or> taxPence v > taxPence limit)) R_VALUE_LIMIT)"

section \<open>Profiles\<close>

definition foreign_source :: "ret_profile \<Rightarrow> ret_source \<Rightarrow> bool" where
  "foreign_source p s = (case s of Contract_profile v _ \<Rightarrow> v \<noteq> rp_contractProfileVersion p | Human_input _ _ \<Rightarrow> False)"

definition condition_step :: "ret_profile \<Rightarrow> ret_amount \<Rightarrow> ret_condition \<Rightarrow> ret_error + ret_amount" where
  "condition_step p prior c =
     (if foreign_source p (cond_source c) \<or> foreign_source p (cond_dateSource c) then Inl R_MISSING_SOURCE
      else bind_r (ret_bounded (cond_cumulativeLimit c) (rp_retained p)) (\<lambda>_.
           bind_r (ret_bounded prior (cond_cumulativeLimit c)) (\<lambda>_. Inr (cond_cumulativeLimit c))))"

text \<open>A condition without its date, as the comparison of revisions sees it.\<close>

definition condition_terms :: "ret_condition \<Rightarrow> string \<times> ret_milestone \<times> string \<times> ret_source \<times> ret_amount" where
  "condition_terms c = (cond_id c, cond_milestone c, cond_description c, cond_source c, cond_cumulativeLimit c)"

definition profile_terms :: "ret_profile \<Rightarrow> string \<times> string \<times> ret_amount \<times> ret_amount \<times>
    (string \<times> ret_milestone \<times> string \<times> ret_source \<times> ret_amount) list" where
  "profile_terms p = (rp_contractProfileVersion p, rp_taxTreatmentVersion p, rp_retained p, rp_alreadyBilled p,
     map condition_terms (rp_conditions p))"

definition validateProfile :: "ret_profile \<Rightarrow> ret_profile option \<Rightarrow> ret_error + unit" where
  "validateProfile p previous =
     (if rp_revision p \<noteq> (case previous of None \<Rightarrow> 0 | Some q \<Rightarrow> rp_revision q) + 1 \<or>
         rp_previousProfileId p \<noteq> map_option rc_id previous then Inl R_STALE_PROFILE
      else if \<not> distinct (map cond_id (rp_conditions p)) then Inl R_INVALID_INPUT
      else bind_r (ret_bounded (rp_alreadyBilled p) (rp_retained p)) (\<lambda>_.
      bind_r (fold_r (condition_step p) ret_zero (rp_conditions p)) (\<lambda>prior.
      if prior \<noteq> rp_retained p then Inl R_VALUE_LIMIT
      else case previous of None \<Rightarrow> Inr ()
        | Some q \<Rightarrow> guard_r (profile_terms p = profile_terms q) R_STALE_PROFILE)))"

section \<open>The projection\<close>

record ret_state =
  rs_profile :: "ret_profile option"
  rs_released :: ret_amount
  rs_reviews :: "(string \<times> ret_review) list"
  rs_resolutions :: "(string \<times> ret_resolution) list"
  rs_resolved :: "string set"
  rs_consumed :: "string set"
  rs_reviewKeys :: "string set"
  rs_releases :: "(string \<times> ret_amount) list"
  rs_receipts :: "(string \<times> ret_receipt) list"
  rs_reversed :: "(string \<times> int) list"
  rs_cash :: "(string \<times> int) list"
  rs_ids :: "string set"

definition ret_init :: ret_state where
  "ret_init = \<lparr>rs_profile = None, rs_released = ret_zero, rs_reviews = [], rs_resolutions = [],
     rs_resolved = {}, rs_consumed = {}, rs_reviewKeys = {}, rs_releases = [], rs_receipts = [],
     rs_reversed = [], rs_cash = [], rs_ids = {}\<rparr>"

definition find_condition :: "ret_profile \<Rightarrow> string \<Rightarrow> ret_condition option" where
  "find_condition p i = find (\<lambda>c. cond_id c = i) (rp_conditions p)"

definition review_step :: "ret_profile \<Rightarrow> ret_state \<Rightarrow> ret_review \<Rightarrow> ret_error + ret_state" where
  "review_step p s r =
     (if rv_profileId r \<noteq> rc_id p then Inl R_STALE_PROFILE
      else case find_condition p (rv_conditionId r) of None \<Rightarrow> Inl R_MISSING_SOURCE
      | Some term \<Rightarrow>
        if rv_trigger r = Timer \<and> rv_raisedOn r < cond_dueDate term then Inl R_CONDITION_UNMET
        else let key = rc_id p @ '':'' @ cond_id term in
        if key \<in> rs_reviewKeys s then Inl R_REPLAY_CONFLICT
        else Inr (s\<lparr>rs_reviewKeys := insert key (rs_reviewKeys s),
                   rs_reviews := AList.update (rc_id r) r (rs_reviews s)\<rparr>))"

definition resolution_step :: "ret_profile \<Rightarrow> ret_state \<Rightarrow> ret_resolution \<Rightarrow> ret_error + ret_state" where
  "resolution_step p s r =
     (case map_of (rs_reviews s) (rr_reviewId r) of None \<Rightarrow> Inl R_MISSING_SOURCE
      | Some review \<Rightarrow>
        if rv_profileId review \<noteq> rc_id p then Inl R_STALE_PROFILE
        else if rc_id review \<in> rs_resolved s then Inl R_REPLAY_CONFLICT
        else bind_r (if rr_outcome r = Approved then
              (if \<not> rr_conditionSatisfied r then Inl R_CONDITION_UNMET
               else bind_r (ret_gross (rr_amount r)) (\<lambda>g. guard_r (g \<noteq> 0) R_CONDITION_UNMET))
            else bind_r (ret_gross (rr_amount r)) (\<lambda>g. guard_r (g = 0) R_VALUE_LIMIT)) (\<lambda>_.
        Inr (s\<lparr>rs_resolved := insert (rc_id review) (rs_resolved s),
               rs_resolutions := AList.update (rc_id r) r (rs_resolutions s)\<rparr>)))"

text \<open>The two \<^verbatim>\<open>!\<close> lookups of the source cannot fail; the model throws \<open>R_MISSING_SOURCE\<close> there.\<close>

definition release_step :: "ret_profile \<Rightarrow> ret_state \<Rightarrow> ret_release \<Rightarrow> ret_error + ret_state" where
  "release_step p s r =
     (case map_of (rs_resolutions s) (rl_resolutionId r) of None \<Rightarrow> Inl R_MISSING_SOURCE
      | Some resolution \<Rightarrow>
      case map_of (rs_reviews s) (rr_reviewId resolution) of None \<Rightarrow> Inl R_MISSING_SOURCE
      | Some review \<Rightarrow>
        if rv_profileId review \<noteq> rc_id p then Inl R_STALE_PROFILE
        else if rr_outcome resolution \<noteq> Approved \<or> \<not> rr_conditionSatisfied resolution then Inl R_CONDITION_UNMET
        else if rc_id resolution \<in> rs_consumed s then Inl R_REPLAY_CONFLICT
        else case find_condition p (rv_conditionId review) of None \<Rightarrow> Inl R_MISSING_SOURCE
        | Some term \<Rightarrow>
          bind_r (ret_add (rs_released s) (rr_amount resolution)) (\<lambda>nextAmount.
          bind_r (ret_add (rp_alreadyBilled p) nextAmount) (\<lambda>billed.
          bind_r (ret_bounded billed (cond_cumulativeLimit term)) (\<lambda>_.
          Inr (s\<lparr>rs_consumed := insert (rc_id resolution) (rs_consumed s), rs_released := nextAmount,
                 rs_releases := AList.update (rc_id r) (rr_amount resolution) (rs_releases s)\<rparr>)))))"

definition receipt_step :: "ret_state \<Rightarrow> ret_receipt \<Rightarrow> ret_error + ret_state" where
  "receipt_step s r =
     (case map_of (rs_releases s) (rt_releaseId r) of None \<Rightarrow> Inl R_MISSING_SOURCE
      | Some release \<Rightarrow>
        bind_r (ret_sum [get0 (rs_cash s) (rt_releaseId r), rt_grossPence r]) (\<lambda>nextCash.
        if rt_grossPence r = 0 then Inl R_VALUE_LIMIT
        else bind_r (ret_gross release) (\<lambda>g.
        if nextCash > g then Inl R_VALUE_LIMIT
        else Inr (s\<lparr>rs_cash := AList.update (rt_releaseId r) nextCash (rs_cash s),
                    rs_receipts := AList.update (rc_id r) r (rs_receipts s)\<rparr>))))"

definition reversal_step :: "ret_state \<Rightarrow> ret_reversal \<Rightarrow> ret_error + ret_state" where
  "reversal_step s r =
     (case map_of (rs_receipts s) (rx_receiptId r) of None \<Rightarrow> Inl R_MISSING_SOURCE
      | Some receipt \<Rightarrow>
        bind_r (ret_sum [get0 (rs_reversed s) (rc_id receipt), rx_grossPence r]) (\<lambda>total.
        if rx_grossPence r = 0 \<or> total > rt_grossPence receipt then Inl R_VALUE_LIMIT
        else bind_r (ret_sum [get0 (rs_cash s) (rt_releaseId receipt), - rx_grossPence r]) (\<lambda>remaining.
        Inr (s\<lparr>rs_reversed := AList.update (rc_id receipt) total (rs_reversed s),
               rs_cash := AList.update (rt_releaseId receipt) remaining (rs_cash s)\<rparr>))))"

definition retention_step :: "string \<times> string \<Rightarrow> ret_state \<Rightarrow> ret_record \<Rightarrow> ret_error + ret_state" where
  "retention_step owner s r =
     (if ret_owner r \<noteq> owner then Inl R_CONTEXT_MISMATCH
      else if ret_id r \<in> rs_ids s then Inl R_REPLAY_CONFLICT
      else let s = s\<lparr>rs_ids := insert (ret_id r) (rs_ids s)\<rparr> in
      case r of
        Ret_profile p \<Rightarrow> bind_r (validateProfile p (rs_profile s)) (\<lambda>_. Inr (s\<lparr>rs_profile := Some p\<rparr>))
      | _ \<Rightarrow> (case rs_profile s of None \<Rightarrow> Inl R_MISSING_SOURCE
          | Some p \<Rightarrow> (case r of
              Ret_profile _ \<Rightarrow> Inr s
            | Ret_review x \<Rightarrow> review_step p s x
            | Ret_resolution x \<Rightarrow> resolution_step p s x
            | Ret_release x \<Rightarrow> release_step p s x
            | Ret_receipt x \<Rightarrow> receipt_step s x
            | Ret_reversal x \<Rightarrow> reversal_step s x)))"

definition project_retention :: "ret_book \<Rightarrow> ret_error + ret_state" where
  "project_retention b = fold_r (retention_step (rb_tenantId b, rb_jobId b)) ret_init (rb_records b)"

definition validated_retention :: "ret_book \<Rightarrow> ret_error + ret_book" where
  "validated_retention b = (if \<not> retentionBookV1 b then Inl R_INVALID_INPUT
     else bind_r (project_retention b) (\<lambda>_. Inr b))"

definition appendRetentionRecord :: "ret_book \<Rightarrow> ret_record \<Rightarrow> ret_error + ret_book" where
  "appendRetentionRecord bookInput r =
     bind_r (validated_retention bookInput) (\<lambda>book.
     if \<not> retentionRecordV1 r then Inl R_INVALID_INPUT
     else case find (\<lambda>item. ret_id item = ret_id r) (rb_records book) of
       Some prior \<Rightarrow> if prior \<noteq> r then Inl R_REPLAY_CONFLICT else Inr book
     | None \<Rightarrow> validated_retention (book\<lparr>rb_records := rb_records book @ [r]\<rparr>))"

record ret_reconciliation =
  rx_retained :: ret_amount
  rx_alreadyBilled :: ret_amount
  rx_released :: ret_amount
  rx_remaining :: ret_amount
  rx_grossReceived :: money
  rx_grossReleasedOutstanding :: money
  rx_pendingReviewIds :: "string list"
  rx_feeEligibleRecovery :: money
  rx_issueBlockers :: "string list"

definition reconcileRetentionBook :: "ret_book \<Rightarrow> ret_error + ret_reconciliation" where
  "reconcileRetentionBook b =
     bind_r (validated_retention b) (\<lambda>book. bind_r (project_retention book) (\<lambda>state.
     let billed = (case rs_profile state of None \<Rightarrow> ret_zero | Some p \<Rightarrow> rp_alreadyBilled p);
         retained = (case rs_profile state of None \<Rightarrow> ret_zero | Some p \<Rightarrow> rp_retained p) in
     bind_r (ret_add billed (rs_released state)) (\<lambda>used.
     bind_r (ret_subtract retained used) (\<lambda>remaining.
     bind_r (map_err R_money (moneyFromBigInt (sum_values (rs_cash state)))) (\<lambda>received.
     bind_r (ret_gross (rs_released state)) (\<lambda>g.
     bind_r (ret_sum [g, - pence received]) (\<lambda>outstanding.
     bind_r (map_err R_money (money_of (JInt outstanding))) (\<lambda>out.
     bind_r (map_err R_money (money_of (JInt 0))) (\<lambda>zero.
     Inr \<lparr>rx_retained = retained, rx_alreadyBilled = billed, rx_released = rs_released state, rx_remaining = remaining,
          rx_grossReceived = received, rx_grossReleasedOutstanding = out,
          rx_pendingReviewIds = map rc_id (filter (\<lambda>review.
             Some (rv_profileId review) = map_option rc_id (rs_profile state) \<and>
             rc_id review \<notin> rs_resolved state) (map snd (rs_reviews state))),
          rx_feeEligibleRecovery = zero,
          rx_issueBlockers = [''FEATURE_DISABLED'', ''D02_D06_REVIEW_REQUIRED'', ''DURABLE_ADAPTER_REQUIRED'']\<rparr>)))))))))"

definition assertRetentionIssueAllowed :: "ret_error + unit" where
  "assertRetentionIssueAllowed = Inl R_ISSUE_DISABLED"

section \<open>Amounts and profiles\<close>

definition below :: "ret_amount \<Rightarrow> ret_amount \<Rightarrow> bool" where
  "below a b \<longleftrightarrow> 0 \<le> netPence a \<and> 0 \<le> taxPence a \<and> netPence a \<le> netPence b \<and> taxPence a \<le> taxPence b"

definition gross_of :: "ret_amount \<Rightarrow> int" where
  "gross_of a = netPence a + taxPence a"

lemma ret_sum_Inr_iff [result_simps]:
  "ret_sum vs = Inr n \<longleftrightarrow> \<bar>sum_list vs\<bar> \<le> MAX_MONEY_PENCE \<and> n = sum_list vs"
  by (simp add: ret_sum_def result_simps)

lemma ret_gross_Inr_iff [result_simps]:
  "ret_gross a = Inr g \<longleftrightarrow> \<bar>gross_of a\<bar> \<le> MAX_MONEY_PENCE \<and> g = gross_of a"
  by (simp add: ret_gross_def gross_of_def result_simps)

lemma ret_add_Inr_iff [result_simps]:
  "ret_add a b = Inr c \<longleftrightarrow> \<bar>netPence a + netPence b\<bar> \<le> MAX_MONEY_PENCE \<and> \<bar>taxPence a + taxPence b\<bar> \<le> MAX_MONEY_PENCE \<and>
     c = \<lparr>netPence = netPence a + netPence b, taxPence = taxPence a + taxPence b\<rparr>"
  by (auto simp: ret_add_def result_simps)

lemma ret_subtract_Inr_iff [result_simps]:
  "ret_subtract a b = Inr c \<longleftrightarrow> \<bar>netPence a - netPence b\<bar> \<le> MAX_MONEY_PENCE \<and> \<bar>taxPence a - taxPence b\<bar> \<le> MAX_MONEY_PENCE \<and>
     c = \<lparr>netPence = netPence a - netPence b, taxPence = taxPence a - taxPence b\<rparr>"
  by (auto simp: ret_subtract_def result_simps)

lemma ret_bounded_Inr_iff [result_simps]:
  "ret_bounded v l = Inr u \<longleftrightarrow> below v l \<and> gross_of v \<le> MAX_MONEY_PENCE"
  by (auto simp: ret_bounded_def result_simps below_def gross_of_def)

definition profile_ok :: "ret_profile \<Rightarrow> bool" where
  "profile_ok p \<longleftrightarrow> ret_amount_ok (rp_retained p) \<and> below (rp_alreadyBilled p) (rp_retained p) \<and>
     gross_of (rp_alreadyBilled p) \<le> MAX_MONEY_PENCE \<and>
     (\<forall>c\<in>set (rp_conditions p). below (cond_cumulativeLimit c) (rp_retained p))"

lemma condition_fold:
  "fold_r (condition_step p) prior cs = Inr q \<Longrightarrow> \<forall>c\<in>set cs. below (cond_cumulativeLimit c) (rp_retained p)"
proof (induction cs arbitrary: prior)
  case (Cons c cs)
  then obtain t where "condition_step p prior c = Inr t" "fold_r (condition_step p) t cs = Inr q"
    by (auto simp: result_simps)
  moreover from this(1) have "below (cond_cumulativeLimit c) (rp_retained p)"
    by (auto simp: condition_step_def result_simps)
  ultimately show ?case using Cons.IH by simp
qed simp

lemma validateProfile_ok:
  assumes "validateProfile p previous = Inr u" and "retentionProfileV1 p"
  shows "profile_ok p \<and> (\<forall>q. previous = Some q \<longrightarrow>
    rp_retained p = rp_retained q \<and> rp_alreadyBilled p = rp_alreadyBilled q)"
proof -
  from assms(1) obtain prior where "below (rp_alreadyBilled p) (rp_retained p)"
    "gross_of (rp_alreadyBilled p) \<le> MAX_MONEY_PENCE" "fold_r (condition_step p) ret_zero (rp_conditions p) = Inr prior"
    "\<forall>q. previous = Some q \<longrightarrow> profile_terms p = profile_terms q"
    unfolding validateProfile_def by (auto simp: result_simps split: option.splits)
  with condition_fold assms(2) show ?thesis
    by (auto simp: profile_ok_def retentionProfileV1_def profile_terms_def)
qed

section \<open>The invariant\<close>

text \<open>Cash that receipts of release \<open>k\<close> brought in, less what was reversed.\<close>

definition net_receipts :: "(string \<times> int) list \<Rightarrow> (string \<times> ret_receipt) list \<Rightarrow> string \<Rightarrow> int" where
  "net_receipts reversed receipts k =
     sum_by (\<lambda>i r. if rt_releaseId r = k then rt_grossPence r - get0 reversed i else 0) receipts"

definition commercial_inv :: "ret_profile option \<Rightarrow> ret_amount \<Rightarrow> bool" where
  "commercial_inv profile released \<longleftrightarrow> (case profile of None \<Rightarrow> released = ret_zero
     | Some p \<Rightarrow> profile_ok p \<and> 0 \<le> netPence released \<and> 0 \<le> taxPence released \<and>
         netPence (rp_alreadyBilled p) + netPence released \<le> netPence (rp_retained p) \<and>
         taxPence (rp_alreadyBilled p) + taxPence released \<le> taxPence (rp_retained p) \<and>
         gross_of (rp_alreadyBilled p) + gross_of released \<le> MAX_MONEY_PENCE)"

definition release_inv :: "string set \<Rightarrow> (string \<times> ret_amount) list \<Rightarrow> (string \<times> ret_resolution) list \<Rightarrow> ret_amount \<Rightarrow> bool" where
  "release_inv ids releases resolutions released \<longleftrightarrow> distinct (map fst releases) \<and> fst ` set releases \<subseteq> ids \<and>
     (\<forall>(k, a)\<in>set releases. ret_amount_ok a) \<and> (\<forall>(k, r)\<in>set resolutions. ret_amount_ok (rr_amount r)) \<and>
     netPence released = sum_by (\<lambda>_. netPence) releases \<and> taxPence released = sum_by (\<lambda>_. taxPence) releases"

definition receipts_inv :: "string set \<Rightarrow> string set \<Rightarrow> (string \<times> ret_receipt) list \<Rightarrow> (string \<times> int) list \<Rightarrow> bool" where
  "receipts_inv ids releaseIds receipts reversed \<longleftrightarrow> distinct (map fst receipts) \<and>
     fst ` set receipts \<subseteq> ids \<and> fst ` set reversed \<subseteq> ids \<and>
     (\<forall>(i, r)\<in>set receipts. rc_id r = i \<and> 0 \<le> get0 reversed i \<and>
        get0 reversed i \<le> rt_grossPence r \<and> rt_releaseId r \<in> releaseIds)"

definition cash_inv :: "(string \<times> ret_amount) list \<Rightarrow> (string \<times> ret_receipt) list \<Rightarrow> (string \<times> int) list \<Rightarrow>
    (string \<times> int) list \<Rightarrow> bool" where
  "cash_inv releases receipts reversed cash \<longleftrightarrow> distinct (map fst cash) \<and> fst ` set cash \<subseteq> fst ` set releases \<and>
     (\<forall>k. get0 cash k = net_receipts reversed receipts k) \<and>
     (\<forall>k a. map_of releases k = Some a \<longrightarrow> get0 cash k \<le> gross_of a)"

definition retention_inv :: "ret_state \<Rightarrow> bool" where
  "retention_inv s \<longleftrightarrow> commercial_inv (rs_profile s) (rs_released s) \<and>
     release_inv (rs_ids s) (rs_releases s) (rs_resolutions s) (rs_released s) \<and>
     receipts_inv (rs_ids s) (fst ` set (rs_releases s)) (rs_receipts s) (rs_reversed s) \<and>
     cash_inv (rs_releases s) (rs_receipts s) (rs_reversed s) (rs_cash s)"

lemma net_receipts_nonneg: "receipts_inv ids rs receipts reversed \<Longrightarrow> 0 \<le> net_receipts reversed receipts k"
  unfolding net_receipts_def receipts_inv_def by (intro sum_by_nonneg) auto

lemma retention_init_inv: "retention_inv ret_init"
  by (simp add: retention_inv_def ret_init_def commercial_inv_def release_inv_def receipts_inv_def cash_inv_def
      ret_zero_def net_receipts_def)

lemma retention_inv_ids: "retention_inv s \<Longrightarrow> retention_inv (s\<lparr>rs_ids := insert i (rs_ids s)\<rparr>)"
  by (auto simp: retention_inv_def release_inv_def receipts_inv_def)

lemma profile_step_inv:
  assumes "retention_inv s" "validateProfile p (rs_profile s) = Inr u" "retentionProfileV1 p"
  shows "retention_inv (s\<lparr>rs_profile := Some p\<rparr>)"
proof -
  have p: "profile_ok p" "\<And>q. rs_profile s = Some q \<Longrightarrow> rp_retained p = rp_retained q \<and> rp_alreadyBilled p = rp_alreadyBilled q"
    using validateProfile_ok [OF assms(2,3)] by auto
  have "commercial_inv (Some p) (rs_released s)"
    using assms(1) p unfolding retention_inv_def commercial_inv_def
    by (cases "rs_profile s") (auto simp: ret_zero_def gross_of_def profile_ok_def below_def)
  with assms(1) show ?thesis by (simp add: retention_inv_def)
qed

lemma review_step_inv: "retention_inv s \<Longrightarrow> review_step p s r = Inr t \<Longrightarrow> retention_inv t"
  by (auto simp: review_step_def result_simps Let_def retention_inv_def split: option.splits)

lemma resolution_step_inv:
  assumes "retention_inv s" "resolution_step p s r = Inr t" "ret_amount_ok (rr_amount r)"
  shows "retention_inv t"
proof -
  from assms(2) obtain x where t: "t = s\<lparr>rs_resolved := x, rs_resolutions := AList.update (rc_id r) r (rs_resolutions s)\<rparr>"
    by (auto simp: resolution_step_def result_simps split: option.splits)
  have "\<forall>(k, r)\<in>set (AList.update (rc_id r) r (rs_resolutions s)). ret_amount_ok (rr_amount r)"
    using assms(1,3) set_update_subset [of "rc_id r" r "rs_resolutions s"]
    by (auto simp: retention_inv_def release_inv_def)
  with assms(1) show ?thesis by (simp add: t retention_inv_def release_inv_def)
qed

lemma find_condition_SomeD: "find_condition p i = Some c \<Longrightarrow> c \<in> set (rp_conditions p) \<and> cond_id c = i"
  by (auto simp: find_condition_def find_Some_iff)

text \<open>What a successful release did: an approved, unspent resolution of a review of the current profile.\<close>

lemma release_step_InrD:
  assumes "release_step p s r = Inr t"
  shows "\<exists>q w c n. map_of (rs_resolutions s) (rl_resolutionId r) = Some q \<and> map_of (rs_reviews s) (rr_reviewId q) = Some w \<and>
    rv_profileId w = rc_id p \<and> rr_outcome q = Approved \<and> rr_conditionSatisfied q \<and> rc_id q \<notin> rs_consumed s \<and>
    find_condition p (rv_conditionId w) = Some c \<and>
    n = \<lparr>netPence = netPence (rs_released s) + netPence (rr_amount q), taxPence = taxPence (rs_released s) + taxPence (rr_amount q)\<rparr> \<and>
    below \<lparr>netPence = netPence (rp_alreadyBilled p) + netPence n, taxPence = taxPence (rp_alreadyBilled p) + taxPence n\<rparr> (cond_cumulativeLimit c) \<and>
    gross_of (rp_alreadyBilled p) + gross_of n \<le> MAX_MONEY_PENCE \<and>
    t = s\<lparr>rs_consumed := insert (rc_id q) (rs_consumed s), rs_released := n,
          rs_releases := AList.update (rc_id r) (rr_amount q) (rs_releases s)\<rparr>"
  using assms by (auto simp: release_step_def result_simps gross_of_def split: option.splits)

lemma release_step_inv:
  assumes inv: "retention_inv s" and p: "rs_profile s = Some p" and step: "release_step p s r = Inr t"
    and fresh: "rc_id r \<notin> fst ` set (rs_releases s)" and id: "rc_id r \<in> rs_ids s"
  shows "retention_inv t"
proof -
  obtain q and w :: ret_review and c n where q: "map_of (rs_resolutions s) (rl_resolutionId r) = Some q"
    and c: "find_condition p (rv_conditionId w) = Some c"
    and n: "n = \<lparr>netPence = netPence (rs_released s) + netPence (rr_amount q), taxPence = taxPence (rs_released s) + taxPence (rr_amount q)\<rparr>"
    and b: "below \<lparr>netPence = netPence (rp_alreadyBilled p) + netPence n, taxPence = taxPence (rp_alreadyBilled p) + taxPence n\<rparr> (cond_cumulativeLimit c)"
    and g: "gross_of (rp_alreadyBilled p) + gross_of n \<le> MAX_MONEY_PENCE"
    and t: "t = s\<lparr>rs_consumed := insert (rc_id q) (rs_consumed s), rs_released := n,
          rs_releases := AList.update (rc_id r) (rr_amount q) (rs_releases s)\<rparr>"
    using release_step_InrD [OF step] by (elim exE conjE) (rule that)
  have rel: "release_inv (rs_ids s) (rs_releases s) (rs_resolutions s) (rs_released s)"
    and rec: "receipts_inv (rs_ids s) (fst ` set (rs_releases s)) (rs_receipts s) (rs_reversed s)"
    and cash: "cash_inv (rs_releases s) (rs_receipts s) (rs_reversed s) (rs_cash s)"
    using inv by (simp_all add: retention_inv_def)
  have a: "ret_amount_ok (rr_amount q)" using rel map_of_SomeD [OF q] by (auto simp: release_inv_def)
  have com: "profile_ok p" "0 \<le> netPence (rs_released s)" "0 \<le> taxPence (rs_released s)"
    using inv p by (simp_all add: retention_inv_def commercial_inv_def)
  have "below (cond_cumulativeLimit c) (rp_retained p)"
    using com(1) find_condition_SomeD [OF c] by (simp add: profile_ok_def)
  then have "commercial_inv (Some p) n"
    using com a b g n by (simp add: commercial_inv_def below_def ret_amount_ok_def pence_ok_def)
  moreover have "release_inv (rs_ids s) (AList.update (rc_id r) (rr_amount q) (rs_releases s)) (rs_resolutions s) n"
    using rel a fresh id n unfolding release_inv_def
    by (simp add: distinct_keys_update keys_update set_update_fresh sum_by_fresh)
  moreover have "receipts_inv (rs_ids s) (insert (rc_id r) (fst ` set (rs_releases s))) (rs_receipts s) (rs_reversed s)"
    using rec by (auto simp: receipts_inv_def)
  moreover have "cash_inv (AList.update (rc_id r) (rr_amount q) (rs_releases s)) (rs_receipts s) (rs_reversed s) (rs_cash s)"
  proof -
    have "rc_id r \<notin> fst ` set (rs_cash s)" using cash fresh unfolding cash_inv_def by blast
    then have "get0 (rs_cash s) (rc_id r) = 0" by (rule get0_notin)
    then have "get0 (rs_cash s) (rc_id r) \<le> gross_of (rr_amount q)"
      using a by (simp add: gross_of_def ret_amount_ok_def pence_ok_def)
    then show ?thesis using cash fresh
      by (auto simp: cash_inv_def keys_update map_of_update_fresh simp del: map_of_update)
  qed
  ultimately show ?thesis using p by (simp add: retention_inv_def t keys_update)
qed

lemma net_receipts_fresh:
  "i \<notin> fst ` set receipts \<Longrightarrow> net_receipts reversed (AList.update i r receipts) k =
    net_receipts reversed receipts k + (if rt_releaseId r = k then rt_grossPence r - get0 reversed i else 0)"
  by (simp add: net_receipts_def sum_by_fresh)

lemma net_receipts_reverse:
  assumes "distinct (map fst receipts)" and "map_of receipts i = Some r"
  shows "net_receipts (AList.update i n reversed) receipts k =
    net_receipts reversed receipts k - (if rt_releaseId r = k then n - get0 reversed i else 0)"
  using sum_by_change [OF assms, of "\<lambda>j w. if rt_releaseId w = k then rt_grossPence w - get0 (AList.update i n reversed) j else 0"
      "\<lambda>j w. if rt_releaseId w = k then rt_grossPence w - get0 reversed j else 0"]
  by (simp add: net_receipts_def)

lemma receipt_step_inv:
  assumes inv: "retention_inv s" and step: "receipt_step s r = Inr t" and ok: "pence_ok (rt_grossPence r)"
    and fresh: "rc_id r \<notin> fst ` set (rs_receipts s)" "rc_id r \<notin> fst ` set (rs_reversed s)" and id: "rc_id r \<in> rs_ids s"
  shows "retention_inv t"
proof -
  let ?k = "rt_releaseId r"
  from step obtain a where a: "map_of (rs_releases s) ?k = Some a"
    and le: "get0 (rs_cash s) ?k + rt_grossPence r \<le> gross_of a"
    and t: "t = s\<lparr>rs_cash := AList.update ?k (get0 (rs_cash s) ?k + rt_grossPence r) (rs_cash s),
                    rs_receipts := AList.update (rc_id r) r (rs_receipts s)\<rparr>"
    by (auto simp: receipt_step_def result_simps split: option.splits)
  have k: "?k \<in> fst ` set (rs_releases s)" using map_of_SomeD [OF a] by force
  have rec: "receipts_inv (rs_ids s) (fst ` set (rs_releases s)) (rs_receipts s) (rs_reversed s)"
    and cash: "cash_inv (rs_releases s) (rs_receipts s) (rs_reversed s) (rs_cash s)"
    using inv by (simp_all add: retention_inv_def)
  have z: "get0 (rs_reversed s) (rc_id r) = 0" using fresh(2) by (rule get0_notin)
  have "receipts_inv (rs_ids s) (fst ` set (rs_releases s)) (AList.update (rc_id r) r (rs_receipts s)) (rs_reversed s)"
    using rec fresh id k ok z
    by (simp add: receipts_inv_def distinct_keys_update keys_update set_update_fresh pence_ok_def)
  moreover have "cash_inv (rs_releases s) (AList.update (rc_id r) r (rs_receipts s)) (rs_reversed s)
      (AList.update ?k (get0 (rs_cash s) ?k + rt_grossPence r) (rs_cash s))"
    using cash fresh(1) k a le z
    by (auto simp: cash_inv_def distinct_keys_update keys_update net_receipts_fresh)
  ultimately show ?thesis using inv by (simp add: retention_inv_def t)
qed

lemma reversal_step_inv:
  assumes inv: "retention_inv s" and step: "reversal_step s r = Inr t" and ok: "pence_ok (rx_grossPence r)"
  shows "retention_inv t"
proof -
  from step obtain q where q: "map_of (rs_receipts s) (rx_receiptId r) = Some q"
    and le: "get0 (rs_reversed s) (rc_id q) + rx_grossPence r \<le> rt_grossPence q"
    and t: "t = s\<lparr>rs_reversed := AList.update (rc_id q) (get0 (rs_reversed s) (rc_id q) + rx_grossPence r) (rs_reversed s),
                   rs_cash := AList.update (rt_releaseId q) (get0 (rs_cash s) (rt_releaseId q) - rx_grossPence r) (rs_cash s)\<rparr>"
    by (auto simp: reversal_step_def result_simps split: option.splits)
  have rec: "receipts_inv (rs_ids s) (fst ` set (rs_releases s)) (rs_receipts s) (rs_reversed s)"
    and cash: "cash_inv (rs_releases s) (rs_receipts s) (rs_reversed s) (rs_cash s)"
    using inv by (simp_all add: retention_inv_def)
  have i: "rc_id q = rx_receiptId r" "rx_receiptId r \<in> rs_ids s" "rt_releaseId q \<in> fst ` set (rs_releases s)"
    using rec map_of_SomeD [OF q] by (auto simp: receipts_inv_def)
  let ?rev = "AList.update (rc_id q) (get0 (rs_reversed s) (rc_id q) + rx_grossPence r) (rs_reversed s)"
  have "rc_id x = j \<and> 0 \<le> get0 ?rev j \<and> get0 ?rev j \<le> rt_grossPence x \<and> rt_releaseId x \<in> fst ` set (rs_releases s)"
    if x: "(j, x) \<in> set (rs_receipts s)" for j x
  proof -
    have old: "rc_id x = j" "0 \<le> get0 (rs_reversed s) j" "get0 (rs_reversed s) j \<le> rt_grossPence x"
      "rt_releaseId x \<in> fst ` set (rs_releases s)" using rec x unfolding receipts_inv_def by blast+
    show ?thesis
    proof (cases "j = rc_id q")
      case True
      have "map_of (rs_receipts s) j = Some x" using rec x by (simp add: receipts_inv_def)
      with True q i(1) have "x = q" by simp
      with True old le ok show ?thesis by (simp add: pence_ok_def)
    qed (use old in simp)
  qed
  then have "\<forall>(j, x)\<in>set (rs_receipts s). rc_id x = j \<and> 0 \<le> get0 ?rev j \<and> get0 ?rev j \<le> rt_grossPence x \<and>
      rt_releaseId x \<in> fst ` set (rs_releases s)" by blast
  then have "receipts_inv (rs_ids s) (fst ` set (rs_releases s)) (rs_receipts s) ?rev"
    using rec i(1,2) by (simp add: receipts_inv_def keys_update del: get0_update)
  moreover have "cash_inv (rs_releases s) (rs_receipts s)
      (AList.update (rc_id q) (get0 (rs_reversed s) (rc_id q) + rx_grossPence r) (rs_reversed s))
      (AList.update (rt_releaseId q) (get0 (rs_cash s) (rt_releaseId q) - rx_grossPence r) (rs_cash s))"
  proof -
    have d: "distinct (map fst (rs_receipts s))" using rec by (simp add: receipts_inv_def)
    have "get0 (rs_cash s) k - rx_grossPence r \<le> gross_of a" if "map_of (rs_releases s) k = Some a" for k a
    proof -
      have "get0 (rs_cash s) k \<le> gross_of a" using cash that unfolding cash_inv_def by blast
      with ok show ?thesis by (simp add: pence_ok_def)
    qed
    then show ?thesis using cash i unfolding i(1)
      by (auto simp: cash_inv_def distinct_keys_update keys_update net_receipts_reverse [OF d q] simp del: map_of_update)
  qed
  ultimately show ?thesis using inv by (simp add: retention_inv_def t)
qed

text \<open>The identities already seen, and that a step accepts only a new one.\<close>

lemma steps_leave_ids:
  "review_step p s x = Inr t \<Longrightarrow> rs_ids t = rs_ids s"
  "resolution_step p s y = Inr t \<Longrightarrow> rs_ids t = rs_ids s"
  "release_step p s z = Inr t \<Longrightarrow> rs_ids t = rs_ids s"
  "receipt_step s u = Inr t \<Longrightarrow> rs_ids t = rs_ids s"
  "reversal_step s v = Inr t \<Longrightarrow> rs_ids t = rs_ids s"
  by (auto simp: review_step_def resolution_step_def release_step_def receipt_step_def reversal_step_def
      result_simps Let_def split: option.splits)

lemma retention_step_cases:
  assumes "retention_step owner s r = Inr t"
  defines "s' \<equiv> s\<lparr>rs_ids := insert (ret_id r) (rs_ids s)\<rparr>"
  shows "ret_owner r = owner \<and> ret_id r \<notin> rs_ids s \<and> (case r of
      Ret_profile p \<Rightarrow> validateProfile p (rs_profile s) = Inr () \<and> t = s'\<lparr>rs_profile := Some p\<rparr>
    | Ret_review x \<Rightarrow> (\<exists>p. rs_profile s = Some p \<and> review_step p s' x = Inr t)
    | Ret_resolution x \<Rightarrow> (\<exists>p. rs_profile s = Some p \<and> resolution_step p s' x = Inr t)
    | Ret_release x \<Rightarrow> (\<exists>p. rs_profile s = Some p \<and> release_step p s' x = Inr t)
    | Ret_receipt x \<Rightarrow> receipt_step s' x = Inr t
    | Ret_reversal x \<Rightarrow> reversal_step s' x = Inr t)"
proof -
  have "rs_profile s' = rs_profile s" by (simp add: s'_def)
  with assms(1) show ?thesis unfolding retention_step_def s'_def [symmetric] Let_def
    by (cases r; cases "rs_profile s") (simp_all add: if_Inl_Inr_iff bind_r_Inr_iff)
qed

lemma retention_step_ids:
  "retention_step owner s r = Inr t \<Longrightarrow> ret_id r \<notin> rs_ids s \<and> rs_ids t = insert (ret_id r) (rs_ids s)"
  using retention_step_cases [of owner s r t] by (cases r) (auto dest: steps_leave_ids)

lemma retention_step_inv:
  assumes inv: "retention_inv s" and step: "retention_step owner s r = Inr t" and ok: "retentionRecordV1 r"
  shows "retention_inv t"
proof -
  let ?s = "s\<lparr>rs_ids := insert (ret_id r) (rs_ids s)\<rparr>"
  have new: "ret_id r \<notin> rs_ids s" using retention_step_ids [OF step] by blast
  have inv': "retention_inv ?s" using inv by (rule retention_inv_ids)
  have fresh: "ret_id r \<notin> fst ` set (rs_releases s)" "ret_id r \<notin> fst ` set (rs_receipts s)"
    "ret_id r \<notin> fst ` set (rs_reversed s)"
  proof -
    have "fst ` set (rs_releases s) \<subseteq> rs_ids s" "fst ` set (rs_receipts s) \<subseteq> rs_ids s" "fst ` set (rs_reversed s) \<subseteq> rs_ids s"
      using inv by (simp_all add: retention_inv_def release_inv_def receipts_inv_def)
    with new show "ret_id r \<notin> fst ` set (rs_releases s)" "ret_id r \<notin> fst ` set (rs_receipts s)"
      "ret_id r \<notin> fst ` set (rs_reversed s)" by (meson subsetD)+
  qed
  note st = retention_step_cases [OF step]
  show ?thesis
  proof (cases r)
    case (Ret_profile p)
    then show ?thesis using st ok profile_step_inv [OF inv', of p] by simp
  next
    case (Ret_review x)
    then show ?thesis using st review_step_inv [OF inv'] by auto
  next
    case (Ret_resolution x)
    then show ?thesis using st ok resolution_step_inv [OF inv', of _ x] by auto
  next
    case (Ret_release x)
    then obtain p where "rs_profile s = Some p" "release_step p ?s x = Inr t" using st by auto
    then show ?thesis using release_step_inv [OF inv', of p x t] fresh Ret_release by simp
  next
    case (Ret_receipt x)
    then show ?thesis using st receipt_step_inv [OF inv', of x t] fresh ok by simp
  next
    case (Ret_reversal x)
    then show ?thesis using st reversal_step_inv [OF inv', of x t] ok by simp
  qed
qed

lemma project_retention_inv:
  assumes "project_retention b = Inr s" and "retentionBookV1 b"
  shows "retention_inv s"
  using assms(1) retention_init_inv unfolding project_retention_def
proof (rule fold_r_invariant)
  fix s r s' assume "r \<in> set (rb_records b)" "retention_inv s"
    "retention_step (rb_tenantId b, rb_jobId b) s r = Inr s'"
  moreover have "retentionRecordV1 r" if "r \<in> set (rb_records b)"
    using assms(2) that by (simp add: retentionBookV1_def list_all_iff)
  ultimately show "retention_inv s'" using retention_step_inv by blast
qed

lemma project_ids:
  "fold_r (retention_step owner) s rs = Inr t \<Longrightarrow>
   distinct (map ret_id rs) \<and> ret_id ` set rs \<inter> rs_ids s = {} \<and> rs_ids t = rs_ids s \<union> ret_id ` set rs"
proof (induction rs arbitrary: s)
  case (Cons r rs)
  then obtain u where u: "retention_step owner s r = Inr u" "fold_r (retention_step owner) u rs = Inr t"
    by (auto simp: result_simps)
  from retention_step_ids [OF u(1)] Cons.IH [OF u(2)] show ?case by auto
qed simp

section \<open>The append command\<close>

definition run_retention :: "ret_book \<Rightarrow> ret_error + ret_state" where
  "run_retention b = bind_r (validated_retention b) project_retention"

lemma run_retention_iff: "run_retention b = Inr s \<longleftrightarrow> retentionBookV1 b \<and> project_retention b = Inr s"
  by (auto simp: run_retention_def validated_retention_def result_simps)

lemma validated_retention_iff: "validated_retention b = Inr b' \<longleftrightarrow> b' = b \<and> (\<exists>s. run_retention b = Inr s)"
  by (auto simp: run_retention_iff validated_retention_def result_simps)

definition extend_retention :: "ret_book \<Rightarrow> ret_record \<Rightarrow> ret_book" where
  "extend_retention b r = b\<lparr>rb_records := rb_records b @ [r]\<rparr>"

lemma appendRetentionRecord_iff:
  "appendRetentionRecord b r = Inr b' \<longleftrightarrow> (\<exists>s. run_retention b = Inr s) \<and>
     (if r \<in> set (rb_records b) then b' = b
      else ret_id r \<notin> ret_id ` set (rb_records b) \<and> b' = extend_retention b r \<and> (\<exists>s. run_retention b' = Inr s))"
proof (cases "\<exists>s. run_retention b = Inr s")
  case False
  then show ?thesis by (auto simp: appendRetentionRecord_def result_simps validated_retention_iff)
next
  case True
  then have valid: "validated_retention b = Inr b" by (simp add: validated_retention_iff)
  from True have recs: "list_all retentionRecordV1 (rb_records b)" and d: "distinct (map ret_id (rb_records b))"
    using project_ids by (auto simp: run_retention_iff retentionBookV1_def project_retention_def)
  show ?thesis
  proof (cases "find (\<lambda>item. ret_id item = ret_id r) (rb_records b)")
    case None
    then have new: "ret_id r \<notin> ret_id ` set (rb_records b)" by (auto simp: find_None_iff)
    then have "r \<notin> set (rb_records b)" by blast
    moreover have "run_retention (extend_retention b r) = Inr s \<Longrightarrow> retentionRecordV1 r" for s
      by (simp add: run_retention_iff retentionBookV1_def extend_retention_def)
    ultimately show ?thesis using True None new
      unfolding appendRetentionRecord_def valid bind_r_simps extend_retention_def
      by (auto simp: validated_retention_iff)
  next
    case (Some prior)
    then have p: "prior \<in> set (rb_records b)" "ret_id prior = ret_id r" by (auto simp: find_Some_iff)
    then have "r \<in> set (rb_records b) \<longleftrightarrow> r = prior" using d by (auto simp: distinct_map inj_on_def)
    moreover have "retentionRecordV1 prior" using recs p(1) by (simp add: list_all_iff)
    moreover have "ret_id r \<in> ret_id ` set (rb_records b)" using p by (metis image_eqI)
    ultimately show ?thesis using True Some unfolding appendRetentionRecord_def valid bind_r_simps by auto
  qed
qed

interpretation ret_book: append_book run_retention rb_records extend_retention appendRetentionRecord ret_id
proof unfold_locales
  fix b :: ret_book and s assume "run_retention b = Inr s"
  then show "distinct (map ret_id (rb_records b))"
    using project_ids by (auto simp: run_retention_iff project_retention_def)
qed (simp_all only: appendRetentionRecord_iff, simp add: extend_retention_def)

section \<open>Where a release comes from\<close>

definition released_resolutions :: "ret_record list \<Rightarrow> string list" where
  "released_resolutions rs = concat (map (\<lambda>r. case r of Ret_release x \<Rightarrow> [rl_resolutionId x] | _ \<Rightarrow> []) rs)"

definition recorded_approval :: "ret_record list \<Rightarrow> ret_resolution \<Rightarrow> bool" where
  "recorded_approval rs q \<longleftrightarrow> Ret_resolution q \<in> set rs \<and> (\<exists>w. Ret_review w \<in> set rs \<and> rc_id w = rr_reviewId q) \<and>
     (rr_outcome q = Approved \<longrightarrow> rr_conditionSatisfied q \<and> gross_of (rr_amount q) \<noteq> 0)"

definition history_inv :: "ret_record list \<Rightarrow> ret_state \<Rightarrow> bool" where
  "history_inv rs s \<longleftrightarrow> (\<forall>(k, w)\<in>set (rs_reviews s). Ret_review w \<in> set rs \<and> rc_id w = k) \<and>
     (\<forall>(k, q)\<in>set (rs_resolutions s). recorded_approval rs q \<and> rc_id q = k) \<and>
     distinct (released_resolutions rs) \<and> rs_consumed s = set (released_resolutions rs) \<and>
     (\<forall>x. Ret_release x \<in> set rs \<longrightarrow> (\<exists>q. recorded_approval rs q \<and> rc_id q = rl_resolutionId x \<and> rr_outcome q = Approved))"

lemma recorded_approval_mono: "recorded_approval rs q \<Longrightarrow> recorded_approval (rs @ zs) q"
  by (auto simp: recorded_approval_def)

lemma released_resolutions_snoc:
  "released_resolutions (rs @ [r]) = released_resolutions rs @ (case r of Ret_release x \<Rightarrow> [rl_resolutionId x] | _ \<Rightarrow> [])"
  by (simp add: released_resolutions_def)

lemma history_keep:
  assumes "history_inv rs s" "rs_reviews t = rs_reviews s" "rs_resolutions t = rs_resolutions s"
    "rs_consumed t = rs_consumed s" "\<forall>x. r \<noteq> Ret_release x"
  shows "history_inv (rs @ [r]) t"
  using assms by (cases r) (auto simp: history_inv_def released_resolutions_snoc intro: recorded_approval_mono, (meson recorded_approval_mono)+)

lemma history_step:
  assumes h: "history_inv rs s" and step: "retention_step owner s r = Inr t"
  shows "history_inv (rs @ [r]) t"
proof -
  let ?s = "s\<lparr>rs_ids := insert (ret_id r) (rs_ids s)\<rparr>"
  note st = retention_step_cases [OF step]
  have keep: "history_inv (rs @ [r]) u" if "rs_reviews u = rs_reviews s" "rs_resolutions u = rs_resolutions s"
    "rs_consumed u = rs_consumed s" "\<forall>x. r \<noteq> Ret_release x" for u using history_keep [OF h that] .
  show ?thesis
  proof (cases r)
    case (Ret_profile p)
    then show ?thesis using st by (intro keep) auto
  next
    case (Ret_receipt x)
    then show ?thesis using st by (intro keep) (auto simp: receipt_step_def result_simps split: option.splits)
  next
    case (Ret_reversal x)
    then show ?thesis using st by (intro keep) (auto simp: reversal_step_def result_simps split: option.splits)
  next
    case (Ret_review x)
    then obtain k where t: "t = ?s\<lparr>rs_reviewKeys := k, rs_reviews := AList.update (rc_id x) x (rs_reviews s)\<rparr>"
      using st by (auto simp: review_step_def Let_def result_simps split: option.splits)
    have "history_inv (rs @ [r]) (t\<lparr>rs_reviews := rs_reviews s\<rparr>)" using Ret_review by (intro keep) (simp_all add: t)
    with set_update_subset [of "rc_id x" x "rs_reviews s"] Ret_review show ?thesis
      unfolding history_inv_def by (auto simp: t)
  next
    case (Ret_resolution x)
    then obtain w k where w: "map_of (rs_reviews s) (rr_reviewId x) = Some w"
      and g: "rr_outcome x = Approved \<longrightarrow> rr_conditionSatisfied x \<and> gross_of (rr_amount x) \<noteq> 0"
      and t: "t = ?s\<lparr>rs_resolved := k, rs_resolutions := AList.update (rc_id x) x (rs_resolutions s)\<rparr>"
      using st by (auto simp: resolution_step_def result_simps split: option.splits if_splits)
    have "Ret_review w \<in> set rs" "rc_id w = rr_reviewId x"
      using h map_of_SomeD [OF w] by (auto simp: history_inv_def)
    then have "recorded_approval (rs @ [r]) x" using g Ret_resolution by (auto simp: recorded_approval_def)
    moreover have "history_inv (rs @ [r]) (t\<lparr>rs_resolutions := rs_resolutions s\<rparr>)" using Ret_resolution by (intro keep) (simp_all add: t)
    ultimately show ?thesis using set_update_subset [of "rc_id x" x "rs_resolutions s"]
      unfolding history_inv_def by (auto simp: t)
  next
    case (Ret_release x)
    then obtain p where "release_step p ?s x = Inr t" using st by auto
    from release_step_InrD [OF this] obtain q n m where q: "map_of (rs_resolutions s) (rl_resolutionId x) = Some q"
      "rr_outcome q = Approved" "rc_id q \<notin> rs_consumed s"
      and t: "t = ?s\<lparr>rs_consumed := insert (rc_id q) (rs_consumed s), rs_released := n, rs_releases := m\<rparr>" by auto
    have a: "recorded_approval rs q" "rc_id q = rl_resolutionId x"
      using h map_of_SomeD [OF q(1)] by (auto simp: history_inv_def)
    from a(1) have "recorded_approval (rs @ [r]) q" by (rule recorded_approval_mono)
    with h q(2,3) a(2) show ?thesis
      unfolding history_inv_def t released_resolutions_snoc Ret_release
      by (auto intro: recorded_approval_mono) (meson recorded_approval_mono)+
  qed
qed

lemma project_history: "fold_r (retention_step owner) ret_init rs = Inr s \<Longrightarrow> history_inv rs s"
proof (induction rs arbitrary: s rule: rev_induct)
  case Nil
  then show ?case by (auto simp: history_inv_def ret_init_def released_resolutions_def)
next
  case (snoc r rs)
  then obtain u where "fold_r (retention_step owner) ret_init rs = Inr u" "retention_step owner u r = Inr s"
    by (auto simp: fold_r_append result_simps)
  with snoc.IH history_step show ?case by blast
qed

section \<open>Properties\<close>

lemma reconcile_retention_parts:
  assumes "validated_retention b = Inr b'"
  shows "\<exists>x. reconcileRetentionBook b = Inr x \<and>
    netPence (rx_retained x) = netPence (rx_alreadyBilled x) + netPence (rx_released x) + netPence (rx_remaining x) \<and>
    taxPence (rx_retained x) = taxPence (rx_alreadyBilled x) + taxPence (rx_released x) + taxPence (rx_remaining x) \<and>
    0 \<le> netPence (rx_released x) \<and> 0 \<le> taxPence (rx_released x) \<and>
    0 \<le> netPence (rx_remaining x) \<and> 0 \<le> taxPence (rx_remaining x) \<and>
    0 \<le> pence (rx_grossReceived x) \<and> pence (rx_grossReceived x) \<le> gross_of (rx_released x) \<and>
    pence (rx_grossReleasedOutstanding x) = gross_of (rx_released x) - pence (rx_grossReceived x)"
proof -
  from assms obtain s where b: "retentionBookV1 b" and s: "project_retention b = Inr s"
    by (auto simp: validated_retention_def result_simps)
  have inv: "retention_inv s" using project_retention_inv [OF s b] .
  define billed where "billed = (case rs_profile s of None \<Rightarrow> ret_zero | Some p \<Rightarrow> rp_alreadyBilled p)"
  define retained where "retained = (case rs_profile s of None \<Rightarrow> ret_zero | Some p \<Rightarrow> rp_retained p)"
  let ?r = "rs_released s" and ?c = "sum_values (rs_cash s)"
  have lim: "0 \<le> netPence ?r" "0 \<le> taxPence ?r" "0 \<le> netPence billed" "0 \<le> taxPence billed"
      "netPence billed + netPence ?r \<le> netPence retained" "taxPence billed + taxPence ?r \<le> taxPence retained"
      "netPence retained \<le> MAX_MONEY_PENCE" "taxPence retained \<le> MAX_MONEY_PENCE" "gross_of ?r \<le> MAX_MONEY_PENCE"
    using inv by (auto simp: retention_inv_def commercial_inv_def billed_def retained_def ret_zero_def profile_ok_def
        below_def ret_amount_ok_def pence_ok_def gross_of_def MAX_MONEY_PENCE_def split: option.splits)
  have rel: "release_inv (rs_ids s) (rs_releases s) (rs_resolutions s) ?r"
    and rec: "receipts_inv (rs_ids s) (fst ` set (rs_releases s)) (rs_receipts s) (rs_reversed s)"
    and cash: "cash_inv (rs_releases s) (rs_receipts s) (rs_reversed s) (rs_cash s)"
    using inv by (simp_all add: retention_inv_def)
  have c0: "0 \<le> get0 (rs_cash s) k" for k using cash net_receipts_nonneg [OF rec] by (simp add: cash_inv_def)
  have "0 \<le> ?c" unfolding sum_values_keyed [OF cash [unfolded cash_inv_def, THEN conjunct1]]
    by (rule sum_by_nonneg) (rule c0)
  moreover have "?c \<le> sum_by (\<lambda>_. gross_of) (rs_releases s)"
  proof (rule sum_values_le_sum_by)
    fix k a assume "map_of (rs_releases s) k = Some a"
    then show "get0 (rs_cash s) k \<le> gross_of a \<and> 0 \<le> gross_of a"
      using cash c0 [of k] unfolding cash_inv_def by (meson order_trans)
  qed (use cash rel in \<open>simp_all add: cash_inv_def release_inv_def\<close>)
  moreover have "sum_by (\<lambda>_. gross_of) m = sum_by (\<lambda>_. netPence) m + sum_by (\<lambda>_. taxPence) m" for m :: "(string \<times> ret_amount) list"
    by (induction m) (auto simp: gross_of_def)
  ultimately have c: "0 \<le> ?c" "?c \<le> gross_of ?r" using rel by (simp_all add: release_inv_def gross_of_def)
  have "ret_add billed ?r = Inr \<lparr>netPence = netPence billed + netPence ?r, taxPence = taxPence billed + taxPence ?r\<rparr>"
    using lim by (simp add: result_simps)
  moreover have "ret_subtract retained \<lparr>netPence = netPence billed + netPence ?r, taxPence = taxPence billed + taxPence ?r\<rparr> =
      Inr \<lparr>netPence = netPence retained - (netPence billed + netPence ?r), taxPence = taxPence retained - (taxPence billed + taxPence ?r)\<rparr>"
    using lim by (simp add: result_simps)
  moreover have "moneyFromBigInt ?c = Inr (gbp ?c)" using c lim(9) by (simp add: moneyFromBigInt_eq)
  moreover have "ret_gross ?r = Inr (gross_of ?r)" using c lim(9) by (simp add: result_simps)
  moreover have "ret_sum [gross_of ?r, - ?c] = Inr (gross_of ?r - ?c)" using c lim(9) by (simp add: result_simps)
  moreover have "money_of (JInt (gross_of ?r - ?c)) = Inr (gbp (gross_of ?r - ?c))" "money_of (JInt 0) = Inr (gbp 0)"
    using c lim(9) by (simp_all add: money_of_JInt MAX_MONEY_PENCE_def)
  ultimately show ?thesis using lim c assms b s
    unfolding reconcileRetentionBook_def validated_retention_def billed_def [symmetric] retained_def [symmetric] Let_def
    by (simp add: billed_def [symmetric] retained_def [symmetric])
qed

lemma validated_history:
  "validated_retention b = Inr b' \<Longrightarrow> \<exists>s. history_inv (rb_records b) s \<and> distinct (map ret_id (rb_records b))"
  using project_history project_ids by (fastforce simp: validated_retention_def project_retention_def result_simps)

text \<open>
  C6. Every retention book that validates reconciles, and nothing is created or lost: for principal
  and tax separately, retained = already billed + released + remaining with every part non-negative;
  the gross received lies between zero and the gross released, and the outstanding amount is their
  difference.
\<close>

theorem retention_reconciles:
  assumes "validated_retention b = Inr b'"
  shows "\<exists>x. reconcileRetentionBook b = Inr x \<and>
    netPence (rx_retained x) = netPence (rx_alreadyBilled x) + netPence (rx_released x) + netPence (rx_remaining x) \<and>
    taxPence (rx_retained x) = taxPence (rx_alreadyBilled x) + taxPence (rx_released x) + taxPence (rx_remaining x) \<and>
    0 \<le> netPence (rx_released x) \<and> 0 \<le> taxPence (rx_released x) \<and>
    0 \<le> netPence (rx_remaining x) \<and> 0 \<le> taxPence (rx_remaining x) \<and>
    0 \<le> pence (rx_grossReceived x) \<and> pence (rx_grossReceived x) \<le> gross_of (rx_released x) \<and>
    pence (rx_grossReleasedOutstanding x) = gross_of (rx_released x) - pence (rx_grossReceived x)"
  using assms by (rule reconcile_retention_parts)

text \<open>
  C31. Retention value is released only on a human approval, and each approval is spent once: in a
  validated book every release record names a resolution of the book that is approved, says its
  condition is satisfied, has a positive amount and answers a review of the book; no two releases
  name the same resolution.
\<close>

theorem retention_release_approved_once:
  assumes "validated_retention b = Inr b'"
  shows "distinct (released_resolutions (rb_records b)) \<and>
    (\<forall>x. Ret_release x \<in> set (rb_records b) \<longrightarrow> (\<exists>q w. Ret_resolution q \<in> set (rb_records b) \<and>
       rc_id q = rl_resolutionId x \<and> rr_outcome q = Approved \<and> rr_conditionSatisfied q \<and> 0 < gross_of (rr_amount q) \<and>
       Ret_review w \<in> set (rb_records b) \<and> rc_id w = rr_reviewId q))"
proof -
  from assms obtain s where b: "retentionBookV1 b" and s: "project_retention b = Inr s"
    by (auto simp: validated_retention_def result_simps)
  have h: "history_inv (rb_records b) s" using s project_history by (simp add: project_retention_def)
  have "0 \<le> gross_of (rr_amount q)" if "Ret_resolution q \<in> set (rb_records b)" for q
    using b that by (auto simp: retentionBookV1_def list_all_iff gross_of_def ret_amount_ok_def pence_ok_def dest!: bspec)
  then have pos: "0 < gross_of (rr_amount q)" if "recorded_approval (rb_records b) q" "rr_outcome q = Approved" for q
    using that by (fastforce simp: recorded_approval_def)
  have "\<exists>q w. Ret_resolution q \<in> set (rb_records b) \<and> rc_id q = rl_resolutionId x \<and> rr_outcome q = Approved \<and>
      rr_conditionSatisfied q \<and> 0 < gross_of (rr_amount q) \<and> Ret_review w \<in> set (rb_records b) \<and> rc_id w = rr_reviewId q"
    if x: "Ret_release x \<in> set (rb_records b)" for x
  proof -
    obtain q where q: "recorded_approval (rb_records b) q" "rc_id q = rl_resolutionId x" "rr_outcome q = Approved"
      using h x unfolding history_inv_def by blast
    from q(1) obtain w where "Ret_resolution q \<in> set (rb_records b)" "Ret_review w \<in> set (rb_records b)"
      "rc_id w = rr_reviewId q" "rr_conditionSatisfied q" using q(3) unfolding recorded_approval_def by blast
    with q pos [OF q(1,3)] show ?thesis by blast
  qed
  with h show ?thesis unfolding history_inv_def by blast
qed

text \<open>
  The append command is safe to retry: once a record is accepted, sending it again returns the
  same book, a different record under its identity is refused, earlier records are kept as a prefix
  and the new book validates.
\<close>

lemma retention_append_retry:
  assumes "appendRetentionRecord b r = Inr b'"
  shows "appendRetentionRecord b' r = Inr b' \<and> validated_retention b' = Inr b' \<and>
    (\<exists>rs. rb_records b' = rb_records b @ rs) \<and>
    (\<forall>q. ret_id q = ret_id r \<longrightarrow> q \<noteq> r \<longrightarrow> (\<exists>e. appendRetentionRecord b' q = Inl e))"
proof -
  have "\<exists>e. appendRetentionRecord b' q = Inl e" if "ret_id q = ret_id r" "q \<noteq> r" for q
    using ret_book.identity_reuse_refused [OF assms that] by (cases "appendRetentionRecord b' q") auto
  then show ?thesis
    using ret_book.retry [OF assms] ret_book.accepted [OF assms] ret_book.history_kept [OF assms]
    by (simp add: validated_retention_iff)
qed

definition ret_example_records :: "ret_record list" where
  "ret_example_records =
    (let h = Human_input ''u'' ''i''; c = \<lparr>rc_id = ''p1'', rc_tenantId = ''t'', rc_jobId = ''j''\<rparr> in
    [Ret_profile (ret_context.extend c (ret_profile.fields 1 None ''v1'' ''fx'' ''vat1''
        \<lparr>netPence = 1000, taxPence = 200\<rparr> \<lparr>netPence = 100, taxPence = 20\<rparr>
        [\<lparr>cond_id = ''c1'', cond_milestone = Completion, cond_description = ''practical completion'', cond_source = h,
           cond_dueDate = ''2026-11-01'', cond_dateSource = h, cond_cumulativeLimit = \<lparr>netPence = 600, taxPence = 120\<rparr>\<rparr>,
         \<lparr>cond_id = ''c2'', cond_milestone = Defects, cond_description = ''defects'', cond_source = h,
           cond_dueDate = ''2027-11-01'', cond_dateSource = h, cond_cumulativeLimit = \<lparr>netPence = 1000, taxPence = 200\<rparr>\<rparr>])),
     Ret_review (ret_context.extend (c\<lparr>rc_id := ''w1''\<rparr>) (ret_review.fields ''p1'' ''c1'' Timer ''2026-11-02'')),
     Ret_resolution (ret_context.extend (c\<lparr>rc_id := ''q1''\<rparr>) (ret_resolution.fields ''w1'' Approved True ''u'' ''i2'' \<lparr>netPence = 500, taxPence = 100\<rparr>)),
     Ret_release (ret_context.extend (c\<lparr>rc_id := ''r1''\<rparr>) (ret_release.fields ''q1'')),
     Ret_receipt (ret_context.extend (c\<lparr>rc_id := ''k1''\<rparr>) (ret_receipt.fields ''r1'' 600)),
     Ret_reversal (ret_context.extend (c\<lparr>rc_id := ''x1''\<rparr>) (ret_reversal.fields ''k1'' 150))])"

definition ret_example :: ret_book where
  "ret_example = \<lparr>rb_tenantId = ''t'', rb_jobId = ''j'', rb_records = ret_example_records\<rparr>"

lemma ret_example_valid: "validated_retention ret_example = Inr ret_example"
proof -
  have "length (rb_records ret_example) = 6" by code_simp
  moreover have "list_all retentionRecordV1 (rb_records ret_example)" by code_simp
  ultimately have "retentionBookV1 ret_example" by (simp add: retentionBookV1_def)
  moreover have "(case project_retention ret_example of Inr s \<Rightarrow> True | Inl _ \<Rightarrow> False) = True" by code_simp
  ultimately show ?thesis by (auto simp: validated_retention_def split: sum.splits)
qed

theorem retention_reconciles_witness:
  "\<exists>x. reconcileRetentionBook ret_example = Inr x \<and> netPence (rx_remaining x) \<ge> 0 \<and>
    pence (rx_grossReleasedOutstanding x) = gross_of (rx_released x) - pence (rx_grossReceived x)"
  using retention_reconciles [OF ret_example_valid] by blast

theorem retention_release_approved_once_witness:
  "distinct (released_resolutions (rb_records ret_example)) \<and> (\<exists>q. Ret_resolution q \<in> set (rb_records ret_example) \<and> rr_outcome q = Approved)"
proof -
  have "Ret_release (ret_context.extend \<lparr>rc_id = ''r1'', rc_tenantId = ''t'', rc_jobId = ''j''\<rparr> (ret_release.fields ''q1''))
    \<in> set (rb_records ret_example)" by code_simp
  with retention_release_approved_once [OF ret_example_valid] show ?thesis by blast
qed

lemma retention_append_retry_witness:
  "appendRetentionRecord ret_example (hd ret_example_records) = Inr ret_example"
proof -
  have m: "hd ret_example_records \<in> set (rb_records ret_example)" by (simp add: ret_example_def ret_example_records_def Let_def)
  have a: "appendRetentionRecord ret_example (hd ret_example_records) = Inr ret_example"
    using m ret_example_valid by (simp add: appendRetentionRecord_iff validated_retention_iff)
  show ?thesis using retention_append_retry [OF a] by blast
qed

end
