(* ===== verification/Vat.thy ===== *)
theory Vat
  imports Retention
begin

text \<open>
  Model of \<^verbatim>\<open>vat-treatments.ts\<close>: the fixture matrix of VAT treatments, the cumulative
  document history with its two rounding candidates, and its composition with a retention book.
\<close>

section \<open>Treatments and documents\<close>

datatype vat_treatment = Standard_20 | Zero_rate | Reduced_5 | Non_vat | Drc_20 | Drc_5

record matrix_row =
  mr_numerator :: int
  mr_denominator :: int
  mr_reverseCharge :: bool
  mr_wording :: string

fun VAT_SUPPORT_MATRIX :: "vat_treatment \<Rightarrow> matrix_row" where
  "VAT_SUPPORT_MATRIX Standard_20 = \<lparr>mr_numerator = 20, mr_denominator = 100, mr_reverseCharge = False,
     mr_wording = ''Fixture standard-rated supply: VAT 20%.''\<rparr>"
| "VAT_SUPPORT_MATRIX Zero_rate = \<lparr>mr_numerator = 0, mr_denominator = 100, mr_reverseCharge = False,
     mr_wording = ''Fixture zero-rated supply: VAT 0%; qualifying basis recorded.''\<rparr>"
| "VAT_SUPPORT_MATRIX Reduced_5 = \<lparr>mr_numerator = 5, mr_denominator = 100, mr_reverseCharge = False,
     mr_wording = ''Fixture reduced-rated supply: VAT 5%; qualifying basis recorded.''\<rparr>"
| "VAT_SUPPORT_MATRIX Non_vat = \<lparr>mr_numerator = 0, mr_denominator = 100, mr_reverseCharge = False,
     mr_wording = ''Fixture supplier not VAT registered; no VAT charged.''\<rparr>"
| "VAT_SUPPORT_MATRIX Drc_20 = \<lparr>mr_numerator = 20, mr_denominator = 100, mr_reverseCharge = True,
     mr_wording = ''Reverse charge: customer to account for VAT to HMRC.''\<rparr>"
| "VAT_SUPPORT_MATRIX Drc_5 = \<lparr>mr_numerator = 5, mr_denominator = 100, mr_reverseCharge = True,
     mr_wording = ''Reverse charge: customer to account for VAT to HMRC.''\<rparr>"

record eligibility =
  el_actorId :: string
  el_evidenceId :: string
  el_supplierVatRegistered :: bool
  el_supplierVatNumber :: "string option"
  el_customerVatRegistered :: bool
  el_customerVatNumber :: "string option"
  el_customerEndUser :: bool
  el_intermediarySupplier :: bool
  el_constructionReverseChargeInScope :: bool
  el_qualifyingBasisReference :: string

record vat_group =
  vg_treatment :: vat_treatment
  vg_eligibility :: eligibility
  vg_cumulativeNetPence :: int
  vg_retainedNetPence :: int

datatype vat_kind = Vat_interim | Vat_credit_note | Vat_retention_release

record vat_document =
  vd_id :: string
  vd_previousDocumentId :: "string option"
  vd_kind :: vat_kind
  vd_documentReference :: string
  vd_documentDate :: string
  vd_interimCertificationId :: string
  vd_retentionProfileId :: string
  vd_retentionReleaseId :: "string option"
  vd_creditOfDocumentId :: "string option"
  vd_groups :: "vat_group list"

datatype tax_basis = Full_net | Net_after_retention

datatype vat_rounding = Cumulative_group_half_up | Document_group_sign_symmetric_half_up

record vat_book =
  vb_tenantId :: string
  vb_jobId :: string
  vb_supplierReference :: string
  vb_customerReference :: string
  vb_taxBasis :: tax_basis
  vb_roundingVersion :: vat_rounding
  vb_documents :: "vat_document list"

datatype vat_error =
    V_INVALID_INPUT | V_ELIGIBILITY_CONFLICT | V_INVALID_LINEAGE | V_VALUE_LIMIT | V_ISSUE_DISABLED
  | V_range range_error | V_money money_error | V_retention ret_error

definition vat_reference_ok :: "string \<Rightarrow> bool" where
  "vat_reference_ok s \<longleftrightarrow> 1 \<le> length s \<and> length s \<le> 120"

definition vat_group_ok :: "vat_group \<Rightarrow> bool" where
  "vat_group_ok g \<longleftrightarrow> pence_ok (vg_cumulativeNetPence g) \<and> pence_ok (vg_retainedNetPence g) \<and>
     (case el_supplierVatNumber (vg_eligibility g) of None \<Rightarrow> True | Some n \<Rightarrow> vat_reference_ok n) \<and>
     (case el_customerVatNumber (vg_eligibility g) of None \<Rightarrow> True | Some n \<Rightarrow> vat_reference_ok n) \<and>
     vat_reference_ok (el_qualifyingBasisReference (vg_eligibility g))"

definition vatTreatmentFixtureBookV1 :: "vat_book \<Rightarrow> bool" where
  "vatTreatmentFixtureBookV1 b \<longleftrightarrow> vat_reference_ok (vb_supplierReference b) \<and> vat_reference_ok (vb_customerReference b) \<and>
     1 \<le> length (vb_documents b) \<and> length (vb_documents b) \<le> 1000 \<and>
     list_all (\<lambda>d. vat_reference_ok (vd_documentReference d) \<and> 1 \<le> length (vd_groups d) \<and> length (vd_groups d) \<le> 6 \<and>
       list_all vat_group_ok (vd_groups d)) (vb_documents b)"

section \<open>Amounts\<close>

definition vat_checked :: "int \<Rightarrow> vat_error + int" where
  "vat_checked v = (if v < - MAX_MONEY_PENCE \<or> v > MAX_MONEY_PENCE then Inl V_VALUE_LIMIT else Inr v)"

definition validateEligibility :: "vat_group \<Rightarrow> vat_error + unit" where
  "validateEligibility item =
     (let e = vg_eligibility item; code = vg_treatment item; rev = mr_reverseCharge (VAT_SUPPORT_MATRIX code) in
      if el_supplierVatRegistered e \<noteq> (code \<noteq> Non_vat) \<or>
         el_supplierVatRegistered e \<noteq> (el_supplierVatNumber e \<noteq> None) \<or>
         el_customerVatRegistered e \<noteq> (el_customerVatNumber e \<noteq> None) then Inl V_ELIGIBILITY_CONFLICT
      else if rev \<noteq> el_constructionReverseChargeInScope e \<or>
         (rev \<and> (\<not> el_customerVatRegistered e \<or> el_customerEndUser e \<or> el_intermediarySupplier e)) then Inl V_ELIGIBILITY_CONFLICT
      else if vg_retainedNetPence item > vg_cumulativeNetPence item then Inl V_VALUE_LIMIT
      else Inr ())"

record 'a totals =
  vt_net :: 'a
  vt_taxBasis :: 'a
  vt_vatToSupplier :: 'a
  vt_reverseChargeVat :: 'a
  vt_gross :: 'a
  vt_fullValueGross :: 'a
  vt_retained :: 'a
  vt_retainedVat :: 'a
  vt_expectedCash :: 'a

definition emptyTotals :: "int totals" where
  "emptyTotals = \<lparr>vt_net = 0, vt_taxBasis = 0, vt_vatToSupplier = 0, vt_reverseChargeVat = 0, vt_gross = 0,
     vt_fullValueGross = 0, vt_retained = 0, vt_retainedVat = 0, vt_expectedCash = 0\<rparr>"

text \<open>Each of the nine fields through one partial function, in the order of the source.\<close>

definition mapTotals :: "('a \<Rightarrow> 'e + 'b) \<Rightarrow> 'a totals \<Rightarrow> 'e + 'b totals" where
  "mapTotals f t =
     bind_r (f (vt_net t)) (\<lambda>a. bind_r (f (vt_taxBasis t)) (\<lambda>b. bind_r (f (vt_vatToSupplier t)) (\<lambda>c.
     bind_r (f (vt_reverseChargeVat t)) (\<lambda>d. bind_r (f (vt_gross t)) (\<lambda>e. bind_r (f (vt_fullValueGross t)) (\<lambda>g.
     bind_r (f (vt_retained t)) (\<lambda>h. bind_r (f (vt_retainedVat t)) (\<lambda>i. bind_r (f (vt_expectedCash t)) (\<lambda>j.
       Inr \<lparr>vt_net = a, vt_taxBasis = b, vt_vatToSupplier = c, vt_reverseChargeVat = d, vt_gross = e,
            vt_fullValueGross = g, vt_retained = h, vt_retainedVat = i, vt_expectedCash = j\<rparr>)))))))))"

definition vat_tax :: "matrix_row \<Rightarrow> int \<Rightarrow> vat_error + int" where
  "vat_tax row v = map_err V_range (multiplyRatio v (mr_numerator row) 100 Half_up)"

definition vat_amounts :: "vat_group \<Rightarrow> tax_basis \<Rightarrow> vat_error + int totals" where
  "vat_amounts item basis =
     (let net = vg_cumulativeNetPence item; retained = vg_retainedNetPence item; row = VAT_SUPPORT_MATRIX (vg_treatment item) in
      bind_r (vat_tax row net) (\<lambda>fullTax.
      bind_r (if basis = Net_after_retention then bind_r (vat_tax row (net - retained)) (\<lambda>t. Inr (fullTax - t)) else Inr 0) (\<lambda>retainedVat.
      let supplierVat = (if mr_reverseCharge row then 0 else fullTax - retainedVat);
          retainedSupplierVat = (if mr_reverseCharge row then 0 else retainedVat) in
      mapTotals vat_checked \<lparr>vt_net = net, vt_taxBasis = (if basis = Full_net then net else net - retained),
        vt_vatToSupplier = supplierVat, vt_reverseChargeVat = (if mr_reverseCharge row then fullTax - retainedVat else 0),
        vt_gross = net + supplierVat, vt_fullValueGross = net + (if mr_reverseCharge row then 0 else fullTax),
        vt_retained = retained, vt_retainedVat = retainedSupplierVat, vt_expectedCash = net + supplierVat - retained\<rparr>)))"

definition vat_sum :: "int totals \<Rightarrow> int totals \<Rightarrow> int \<Rightarrow> int totals" where
  "vat_sum a b sign = \<lparr>vt_net = vt_net a + sign * vt_net b, vt_taxBasis = vt_taxBasis a + sign * vt_taxBasis b,
     vt_vatToSupplier = vt_vatToSupplier a + sign * vt_vatToSupplier b, vt_reverseChargeVat = vt_reverseChargeVat a + sign * vt_reverseChargeVat b,
     vt_gross = vt_gross a + sign * vt_gross b, vt_fullValueGross = vt_fullValueGross a + sign * vt_fullValueGross b,
     vt_retained = vt_retained a + sign * vt_retained b, vt_retainedVat = vt_retainedVat a + sign * vt_retainedVat b,
     vt_expectedCash = vt_expectedCash a + sign * vt_expectedCash b\<rparr>"

definition combine :: "int totals \<Rightarrow> int totals \<Rightarrow> int \<Rightarrow> vat_error + int totals" where
  "combine a b sign = mapTotals vat_checked (vat_sum a b sign)"

definition asMoney :: "int totals \<Rightarrow> vat_error + money totals" where
  "asMoney t = mapTotals (\<lambda>v. map_err V_money (moneyFromBigInt v)) t"

section \<open>The document history\<close>

record vat_group_row =
  gr_treatment :: vat_treatment
  gr_wording :: string
  gr_cumulative :: "money totals"
  gr_delta :: "money totals"

record vat_document_row =
  dr_source :: vat_document
  dr_groups :: "vat_group_row list"
  dr_cumulative :: "money totals"
  dr_delta :: "money totals"

record vat_group_state =
  gs_seen :: "vat_treatment set"
  gs_totals :: "int totals"
  gs_priorGroups :: "(vat_treatment \<times> int totals) list"
  gs_rows :: "vat_group_row list"

definition mixed_registration :: "vat_group \<Rightarrow> vat_group \<Rightarrow> bool" where
  "mixed_registration item other \<longleftrightarrow>
     el_supplierVatNumber (vg_eligibility other) \<noteq> el_supplierVatNumber (vg_eligibility item) \<or>
     el_customerVatNumber (vg_eligibility other) \<noteq> el_customerVatNumber (vg_eligibility item) \<or>
     el_customerEndUser (vg_eligibility other) \<noteq> el_customerEndUser (vg_eligibility item) \<or>
     el_intermediarySupplier (vg_eligibility other) \<noteq> el_intermediarySupplier (vg_eligibility item)"

definition vat_group_step ::
  "vat_book \<Rightarrow> vat_document option \<Rightarrow> vat_document \<Rightarrow> vat_group_state \<Rightarrow> vat_group \<Rightarrow> vat_error + vat_group_state" where
  "vat_group_step book previous current s item =
     bind_r (validateEligibility item) (\<lambda>_.
     if vg_treatment item \<in> gs_seen s then Inl V_INVALID_LINEAGE
     else if list_ex (mixed_registration item) (vd_groups current) then Inl V_ELIGIBILITY_CONFLICT
     else let prior = (case previous of None \<Rightarrow> None | Some p \<Rightarrow> find (\<lambda>o1. vg_treatment o1 = vg_treatment item) (vd_groups p)) in
     if previous \<noteq> None \<and> (case prior of None \<Rightarrow> True | Some p \<Rightarrow> vg_eligibility p \<noteq> vg_eligibility item) then Inl V_INVALID_LINEAGE
     else let netDelta = vg_cumulativeNetPence item - (case prior of None \<Rightarrow> 0 | Some p \<Rightarrow> vg_cumulativeNetPence p);
              retainedDelta = vg_retainedNetPence item - (case prior of None \<Rightarrow> 0 | Some p \<Rightarrow> vg_retainedNetPence p) in
     if (vd_kind current = Vat_interim \<and> (netDelta < 0 \<or> retainedDelta < 0)) \<or>
        (vd_kind current = Vat_credit_note \<and> (netDelta > 0 \<or> retainedDelta > 0)) \<or>
        (vd_kind current = Vat_retention_release \<and> (prior = None \<or> netDelta \<noteq> 0 \<or> retainedDelta > 0)) then Inl V_VALUE_LIMIT
     else let priorAmounts = (case map_of (gs_priorGroups s) (vg_treatment item) of None \<Rightarrow> emptyTotals | Some t \<Rightarrow> t) in
     bind_r (if vb_roundingVersion book = Cumulative_group_half_up then vat_amounts item (vb_taxBasis book)
             else bind_r (vat_checked netDelta) (\<lambda>n. bind_r (vat_checked retainedDelta) (\<lambda>r.
                  bind_r (vat_amounts (item\<lparr>vg_cumulativeNetPence := n, vg_retainedNetPence := r\<rparr>) (vb_taxBasis book)) (\<lambda>a.
                  combine priorAmounts a 1)))) (\<lambda>cumulative.
     bind_r (combine (gs_totals s) cumulative 1) (\<lambda>ts.
     bind_r (combine cumulative priorAmounts (- 1)) (\<lambda>delta.
     if vd_kind current = Vat_credit_note \<and> vt_expectedCash delta > 0 then Inl V_VALUE_LIMIT
     else bind_r (asMoney cumulative) (\<lambda>c. bind_r (asMoney delta) (\<lambda>d.
       Inr \<lparr>gs_seen = insert (vg_treatment item) (gs_seen s), gs_totals = ts,
            gs_priorGroups = AList.update (vg_treatment item) cumulative (gs_priorGroups s),
            gs_rows = gs_rows s @ [\<lparr>gr_treatment = vg_treatment item, gr_wording = mr_wording (VAT_SUPPORT_MATRIX (vg_treatment item)),
              gr_cumulative = c, gr_delta = d\<rparr>]\<rparr>))))))"

record vat_state =
  vs_ids :: "string set"
  vs_references :: "string set"
  vs_releases :: "string set"
  vs_previous :: "vat_document option"
  vs_priorTotals :: "int totals"
  vs_priorGroups :: "(vat_treatment \<times> int totals) list"
  vs_documents :: "vat_document_row list"

definition vat_init :: vat_state where
  "vat_init = \<lparr>vs_ids = {}, vs_references = {}, vs_releases = {}, vs_previous = None, vs_priorTotals = emptyTotals,
     vs_priorGroups = [], vs_documents = []\<rparr>"

definition vat_document_step :: "vat_book \<Rightarrow> vat_state \<Rightarrow> vat_document \<Rightarrow> vat_error + vat_state" where
  "vat_document_step book s current =
     (let previous = vs_previous s in
      if vd_id current \<in> vs_ids s \<or> vd_documentReference current \<in> vs_references s \<or>
         vd_previousDocumentId current \<noteq> map_option vd_id previous then Inl V_INVALID_LINEAGE
      else if (if vd_kind current = Vat_credit_note
               then previous = None \<or> vd_creditOfDocumentId current \<noteq> map_option vd_id previous
               else vd_creditOfDocumentId current \<noteq> None) then Inl V_INVALID_LINEAGE
      else if (vd_kind current = Vat_retention_release) \<noteq> (vd_retentionReleaseId current \<noteq> None) then Inl V_INVALID_LINEAGE
      else if (case vd_retentionReleaseId current of None \<Rightarrow> False | Some r \<Rightarrow> r \<in> vs_releases s) then Inl V_INVALID_LINEAGE
      else if (case previous of None \<Rightarrow> False | Some p \<Rightarrow>
          vd_retentionProfileId current \<noteq> vd_retentionProfileId p \<or> length (vd_groups current) \<noteq> length (vd_groups p)) then Inl V_INVALID_LINEAGE
      else bind_r (fold_r (vat_group_step book previous current)
          \<lparr>gs_seen = {}, gs_totals = emptyTotals, gs_priorGroups = vs_priorGroups s, gs_rows = []\<rparr> (vd_groups current)) (\<lambda>g.
      bind_r (combine (gs_totals g) (vs_priorTotals s) (- 1)) (\<lambda>delta.
      if vd_kind current \<noteq> Vat_interim \<and> vt_net delta = 0 \<and> vt_retained delta = 0 then Inl V_VALUE_LIMIT
      else if vd_kind current = Vat_credit_note \<and> vt_expectedCash delta > 0 then Inl V_VALUE_LIMIT
      else bind_r (asMoney (gs_totals g)) (\<lambda>c. bind_r (asMoney delta) (\<lambda>d.
        Inr \<lparr>vs_ids = insert (vd_id current) (vs_ids s),
             vs_references = insert (vd_documentReference current) (vs_references s),
             vs_releases = (case vd_retentionReleaseId current of None \<Rightarrow> vs_releases s | Some r \<Rightarrow> insert r (vs_releases s)),
             vs_previous = Some current, vs_priorTotals = gs_totals g, vs_priorGroups = gs_priorGroups g,
             vs_documents = vs_documents s @ [\<lparr>dr_source = current, dr_groups = gs_rows g, dr_cumulative = c, dr_delta = d\<rparr>]\<rparr>)))))"

record vat_result =
  vr_tenantId :: string
  vr_jobId :: string
  vr_supplierReference :: string
  vr_customerReference :: string
  vr_taxBasis :: tax_basis
  vr_roundingVersion :: vat_rounding
  vr_documents :: "vat_document_row list"

definition reconcileVatTreatmentFixtures :: "vat_book \<Rightarrow> vat_error + vat_result" where
  "reconcileVatTreatmentFixtures book =
     (if \<not> vatTreatmentFixtureBookV1 book then Inl V_INVALID_INPUT
      else bind_r (fold_r (vat_document_step book) vat_init (vb_documents book)) (\<lambda>s.
        Inr \<lparr>vr_tenantId = vb_tenantId book, vr_jobId = vb_jobId book, vr_supplierReference = vb_supplierReference book,
             vr_customerReference = vb_customerReference book, vr_taxBasis = vb_taxBasis book,
             vr_roundingVersion = vb_roundingVersion book, vr_documents = vs_documents s\<rparr>))"

section \<open>Composition with the retention book\<close>

definition reversed_step :: "(string \<times> ret_record) list \<Rightarrow> string list \<Rightarrow> ret_record \<Rightarrow> string list" where
  "reversed_step records acc r = (case r of
     Ret_reversal x \<Rightarrow> (case map_of records (rx_receiptId x) of Some (Ret_receipt c) \<Rightarrow> rt_releaseId c # acc | _ \<Rightarrow> acc)
   | _ \<Rightarrow> acc)"

definition check_release :: "(string \<times> ret_record) list \<Rightarrow> string list \<Rightarrow> vat_document_row \<Rightarrow> vat_error + unit" where
  "check_release records reversedReleases d =
     (case (vd_kind (dr_source d), vd_retentionReleaseId (dr_source d)) of
        (Vat_retention_release, Some i) \<Rightarrow>
          (case map_of records i of
             Some (Ret_release release) \<Rightarrow>
               (case map_of records (rl_resolutionId release) of
                  Some (Ret_resolution resolution) \<Rightarrow>
                    (case map_of records (rr_reviewId resolution) of
                       Some (Ret_review review) \<Rightarrow>
                         if rv_profileId review \<noteq> vd_retentionProfileId (dr_source d) \<or> rc_id release \<in> set reversedReleases
                         then Inl V_INVALID_LINEAGE
                         else if netPence (rr_amount resolution) \<noteq> - pence (vt_retained (dr_delta d)) \<or>
                           taxPence (rr_amount resolution) \<noteq> pence (vt_vatToSupplier (dr_delta d)) \<or>
                           netPence (rr_amount resolution) + taxPence (rr_amount resolution) \<noteq> pence (vt_expectedCash (dr_delta d))
                         then Inl V_VALUE_LIMIT else Inr ()
                     | _ \<Rightarrow> Inl V_INVALID_LINEAGE)
                | _ \<Rightarrow> Inl V_INVALID_LINEAGE)
           | _ \<Rightarrow> Inl V_INVALID_LINEAGE)
      | (Vat_retention_release, None) \<Rightarrow> Inl V_INVALID_LINEAGE
      | _ \<Rightarrow> Inr ())"

definition reconcileVatRetentionFixtures :: "vat_book \<Rightarrow> ret_book \<Rightarrow> vat_error + vat_result" where
  "reconcileVatRetentionFixtures vatInput book =
     bind_r (reconcileVatTreatmentFixtures vatInput) (\<lambda>vat.
     if \<not> retentionBookV1 book then Inl V_INVALID_INPUT
     else bind_r (map_err V_retention (reconcileRetentionBook book)) (\<lambda>retention.
     if rb_tenantId book \<noteq> vr_tenantId vat \<or> rb_jobId book \<noteq> vr_jobId vat then Inl V_INVALID_LINEAGE
     else let records = map (\<lambda>r. (ret_id r, r)) (rb_records book);
              reversedReleases = foldl (reversed_step records) [] (rb_records book) in
     bind_r (map_r (check_release records reversedReleases) (vr_documents vat)) (\<lambda>_.
     let latest = last (vr_documents vat) in
     if pence (vt_retained (dr_cumulative latest)) \<noteq> netPence (rx_remaining retention) \<or>
        pence (vt_retainedVat (dr_cumulative latest)) \<noteq> taxPence (rx_remaining retention) then Inl V_VALUE_LIMIT
     else Inr vat)))"

definition assertVatTreatmentIssueAllowed :: "vat_error + unit" where
  "assertVatTreatmentIssueAllowed = Inl V_ISSUE_DISABLED"

section \<open>Identities of totals\<close>

lemma vat_checked_Inr_iff [result_simps]: "vat_checked v = Inr u \<longleftrightarrow> \<bar>v\<bar> \<le> MAX_MONEY_PENCE \<and> u = v"
  by (auto simp: vat_checked_def)

lemma mapTotals_checked: "mapTotals vat_checked t = Inr u \<Longrightarrow> u = t"
  by (auto simp: mapTotals_def result_simps)

lemma combine_InrD: "combine a b sign = Inr c \<Longrightarrow> c = vat_sum a b sign"
  unfolding combine_def by (drule mapTotals_checked)

definition pence_totals :: "money totals \<Rightarrow> int totals" where
  "pence_totals m = \<lparr>vt_net = pence (vt_net m), vt_taxBasis = pence (vt_taxBasis m), vt_vatToSupplier = pence (vt_vatToSupplier m),
     vt_reverseChargeVat = pence (vt_reverseChargeVat m), vt_gross = pence (vt_gross m), vt_fullValueGross = pence (vt_fullValueGross m),
     vt_retained = pence (vt_retained m), vt_retainedVat = pence (vt_retainedVat m), vt_expectedCash = pence (vt_expectedCash m)\<rparr>"

lemma asMoney_InrD: "asMoney t = Inr m \<Longrightarrow> pence_totals m = t"
  by (auto simp: asMoney_def mapTotals_def result_simps pence_totals_def)

text \<open>The identities every total satisfies, whatever the rounding candidate.\<close>

definition balanced :: "tax_basis \<Rightarrow> int totals \<Rightarrow> bool" where
  "balanced basis t \<longleftrightarrow> vt_gross t = vt_net t + vt_vatToSupplier t \<and> vt_expectedCash t = vt_gross t - vt_retained t \<and>
     vt_fullValueGross t = vt_gross t + vt_retainedVat t \<and>
     vt_taxBasis t = (if basis = Full_net then vt_net t else vt_net t - vt_retained t)"

text \<open>Under the reverse charge the supplier charges no VAT; otherwise the customer accounts for none.\<close>

definition charge_side :: "vat_treatment \<Rightarrow> int totals \<Rightarrow> bool" where
  "charge_side k t \<longleftrightarrow> (if mr_reverseCharge (VAT_SUPPORT_MATRIX k) then vt_vatToSupplier t = 0 \<and> vt_retainedVat t = 0
     else vt_reverseChargeVat t = 0)"

lemma balanced_empty [simp]: "balanced basis emptyTotals" "charge_side k emptyTotals"
  by (simp_all add: balanced_def charge_side_def emptyTotals_def)

lemma balanced_sum: "balanced basis a \<Longrightarrow> balanced basis b \<Longrightarrow> balanced basis (vat_sum a b sign)"
  by (simp add: balanced_def vat_sum_def distrib_left right_diff_distrib split: if_splits)

lemma charge_side_sum: "charge_side k a \<Longrightarrow> charge_side k b \<Longrightarrow> charge_side k (vat_sum a b sign)"
  by (auto simp: charge_side_def vat_sum_def split: if_splits)

lemma vat_tax_InrD:
  assumes "vat_tax row v = Inr t" shows "\<bar>100 * t - mr_numerator row * v\<bar> \<le> 50"
proof -
  have "t = round_div Half_up (v * mr_numerator row) 100"
    using assms by (simp add: vat_tax_def result_simps multiplyRatio_pos)
  then show ?thesis using round_div_nearest [of 100 "v * mr_numerator row" Half_up] by (simp add: mult.commute abs_le_iff)
qed

lemma vat_amounts_ok:
  assumes "vat_amounts g basis = Inr t"
  shows "balanced basis t \<and> charge_side (vg_treatment g) t \<and> vt_net t = vg_cumulativeNetPence g \<and> vt_retained t = vg_retainedNetPence g \<and>
    \<bar>100 * (vt_vatToSupplier t + vt_reverseChargeVat t) - mr_numerator (VAT_SUPPORT_MATRIX (vg_treatment g)) * vt_taxBasis t\<bar> \<le> 50"
proof -
  let ?row = "VAT_SUPPORT_MATRIX (vg_treatment g)" and ?n = "vg_cumulativeNetPence g" and ?r = "vg_retainedNetPence g"
  from assms obtain full ret where full: "vat_tax ?row ?n = Inr full"
    and ret: "(if basis = Net_after_retention then bind_r (vat_tax ?row (?n - ?r)) (\<lambda>t. Inr (full - t)) else Inr 0) = Inr ret"
    and t: "mapTotals vat_checked \<lparr>vt_net = ?n, vt_taxBasis = (if basis = Full_net then ?n else ?n - ?r),
        vt_vatToSupplier = (if mr_reverseCharge ?row then 0 else full - ret),
        vt_reverseChargeVat = (if mr_reverseCharge ?row then full - ret else 0),
        vt_gross = ?n + (if mr_reverseCharge ?row then 0 else full - ret),
        vt_fullValueGross = ?n + (if mr_reverseCharge ?row then 0 else full), vt_retained = ?r,
        vt_retainedVat = (if mr_reverseCharge ?row then 0 else ret),
        vt_expectedCash = ?n + (if mr_reverseCharge ?row then 0 else full - ret) - ?r\<rparr> = Inr t"
    unfolding vat_amounts_def Let_def bind_r_Inr_iff by blast
  have "\<bar>100 * (full - ret) - mr_numerator ?row * (if basis = Full_net then ?n else ?n - ?r)\<bar> \<le> 50"
    using vat_tax_InrD [OF full] ret vat_tax_InrD [of ?row "?n - ?r"]
    by (cases basis) (auto simp: result_simps)
  then show ?thesis using mapTotals_checked [OF t] by (auto simp: balanced_def charge_side_def)
qed

section \<open>The invariant of the history\<close>

definition row_ok :: "vat_book \<Rightarrow> vat_group_row \<Rightarrow> bool" where
  "row_ok book g \<longleftrightarrow> (let t = pence_totals (gr_cumulative g) in
     balanced (vb_taxBasis book) t \<and> charge_side (gr_treatment g) t \<and>
     (vb_roundingVersion book = Cumulative_group_half_up \<longrightarrow>
       \<bar>100 * (vt_vatToSupplier t + vt_reverseChargeVat t) - mr_numerator (VAT_SUPPORT_MATRIX (gr_treatment g)) * vt_taxBasis t\<bar> \<le> 50))"

definition sum_totals :: "int totals list \<Rightarrow> int totals" where
  "sum_totals ts = foldl (\<lambda>a t. vat_sum a t 1) emptyTotals ts"

lemma sum_totals_snoc: "sum_totals (ts @ [t]) = vat_sum (sum_totals ts) t 1"
  by (simp add: sum_totals_def)

definition prior_ok :: "vat_book \<Rightarrow> (vat_treatment \<times> int totals) list \<Rightarrow> bool" where
  "prior_ok book m \<longleftrightarrow> (\<forall>(k, t)\<in>set m. balanced (vb_taxBasis book) t \<and> charge_side k t)"

definition group_inv :: "vat_book \<Rightarrow> vat_group_state \<Rightarrow> bool" where
  "group_inv book s \<longleftrightarrow> prior_ok book (gs_priorGroups s) \<and> balanced (vb_taxBasis book) (gs_totals s) \<and>
     (\<forall>g\<in>set (gs_rows s). row_ok book g) \<and> distinct (map gr_treatment (gs_rows s)) \<and> gr_treatment ` set (gs_rows s) \<subseteq> gs_seen s \<and>
     gs_totals s = sum_totals (map (pence_totals \<circ> gr_cumulative) (gs_rows s))"

lemma vat_group_step_inv:
  assumes inv: "group_inv book s" and step: "vat_group_step book previous current s item = Inr u"
  shows "group_inv book u"
proof -
  let ?k = "vg_treatment item"
  define prior where "prior = (case map_of (gs_priorGroups s) ?k of None \<Rightarrow> emptyTotals | Some t \<Rightarrow> t)"
  from step obtain cumulative ts delta c d n r where new: "?k \<notin> gs_seen s"
    and cum: "(if vb_roundingVersion book = Cumulative_group_half_up then vat_amounts item (vb_taxBasis book)
             else bind_r (vat_checked n) (\<lambda>n. bind_r (vat_checked r) (\<lambda>r.
                  bind_r (vat_amounts (item\<lparr>vg_cumulativeNetPence := n, vg_retainedNetPence := r\<rparr>) (vb_taxBasis book)) (\<lambda>a.
                  combine prior a 1)))) = Inr cumulative"
    and ts: "combine (gs_totals s) cumulative 1 = Inr ts" and c: "asMoney cumulative = Inr c"
    and u: "u = \<lparr>gs_seen = insert ?k (gs_seen s), gs_totals = ts,
            gs_priorGroups = AList.update ?k cumulative (gs_priorGroups s),
            gs_rows = gs_rows s @ [\<lparr>gr_treatment = ?k, gr_wording = mr_wording (VAT_SUPPORT_MATRIX ?k),
              gr_cumulative = c, gr_delta = d\<rparr>]\<rparr>"
    unfolding vat_group_step_def Let_def prior_def bind_r_Inr_iff if_Inl_Inr_iff by blast
  have prior: "balanced (vb_taxBasis book) prior" "charge_side ?k prior"
    using inv map_of_SomeD by (fastforce simp: prior_def group_inv_def prior_ok_def split: option.splits)+
  have cumulative: "balanced (vb_taxBasis book) cumulative" "charge_side ?k cumulative"
    "vb_roundingVersion book = Cumulative_group_half_up \<Longrightarrow>
       \<bar>100 * (vt_vatToSupplier cumulative + vt_reverseChargeVat cumulative) - mr_numerator (VAT_SUPPORT_MATRIX ?k) * vt_taxBasis cumulative\<bar> \<le> 50"
    using cum prior
    by (auto simp: bind_r_Inr_iff split: if_splits dest!: vat_amounts_ok combine_InrD intro: balanced_sum charge_side_sum)
  have "prior_ok book (AList.update ?k cumulative (gs_priorGroups s))"
    using inv cumulative set_update_subset [of ?k cumulative "gs_priorGroups s"] by (auto simp: group_inv_def prior_ok_def)
  moreover have "ts = vat_sum (gs_totals s) cumulative 1" using combine_InrD [OF ts] .
  ultimately show ?thesis using inv cumulative new asMoney_InrD [OF c]
    by (auto simp: group_inv_def u row_ok_def Let_def sum_totals_snoc balanced_sum)
qed

definition document_ok :: "vat_book \<Rightarrow> vat_document_row \<Rightarrow> bool" where
  "document_ok book d \<longleftrightarrow> balanced (vb_taxBasis book) (pence_totals (dr_cumulative d)) \<and>
     pence_totals (dr_cumulative d) = sum_totals (map (pence_totals \<circ> gr_cumulative) (dr_groups d)) \<and>
     distinct (map gr_treatment (dr_groups d)) \<and> (\<forall>g\<in>set (dr_groups d). row_ok book g)"

definition vat_inv :: "vat_book \<Rightarrow> vat_state \<Rightarrow> bool" where
  "vat_inv book s \<longleftrightarrow> prior_ok book (vs_priorGroups s) \<and> (\<forall>d\<in>set (vs_documents s). document_ok book d) \<and>
     vs_priorTotals s = sum_totals (map (pence_totals \<circ> dr_delta) (vs_documents s)) \<and>
     (vs_documents s \<noteq> [] \<longrightarrow> vs_priorTotals s = pence_totals (dr_cumulative (last (vs_documents s)))) \<and>
     distinct (concat (map (\<lambda>d. case vd_retentionReleaseId (dr_source d) of None \<Rightarrow> [] | Some r \<Rightarrow> [r]) (vs_documents s))) \<and>
     set (concat (map (\<lambda>d. case vd_retentionReleaseId (dr_source d) of None \<Rightarrow> [] | Some r \<Rightarrow> [r]) (vs_documents s))) = vs_releases s"

lemma vat_sum_cancel: "vat_sum p (vat_sum t p (- 1)) 1 = t"
  by (simp add: vat_sum_def)

lemma vat_document_step_inv:
  assumes inv: "vat_inv book s" and step: "vat_document_step book s current = Inr u"
  shows "vat_inv book u"
proof -
  from step obtain g delta c d where
    rel: "\<not> (case vd_retentionReleaseId current of None \<Rightarrow> False | Some r \<Rightarrow> r \<in> vs_releases s)"
    and fold: "fold_r (vat_group_step book (vs_previous s) current)
          \<lparr>gs_seen = {}, gs_totals = emptyTotals, gs_priorGroups = vs_priorGroups s, gs_rows = []\<rparr> (vd_groups current) = Inr g"
    and delta: "combine (gs_totals g) (vs_priorTotals s) (- 1) = Inr delta"
    and c: "asMoney (gs_totals g) = Inr c" and d: "asMoney delta = Inr d"
    and u: "u = \<lparr>vs_ids = insert (vd_id current) (vs_ids s),
             vs_references = insert (vd_documentReference current) (vs_references s),
             vs_releases = (case vd_retentionReleaseId current of None \<Rightarrow> vs_releases s | Some r \<Rightarrow> insert r (vs_releases s)),
             vs_previous = Some current, vs_priorTotals = gs_totals g, vs_priorGroups = gs_priorGroups g,
             vs_documents = vs_documents s @ [\<lparr>dr_source = current, dr_groups = gs_rows g, dr_cumulative = c, dr_delta = d\<rparr>]\<rparr>"
    unfolding vat_document_step_def Let_def bind_r_Inr_iff if_Inl_Inr_iff by blast
  have start: "group_inv book \<lparr>gs_seen = {}, gs_totals = emptyTotals, gs_priorGroups = vs_priorGroups s, gs_rows = []\<rparr>"
    using inv by (simp add: group_inv_def vat_inv_def sum_totals_def)
  have g: "group_inv book g"
    by (rule fold_r_invariant [where I = "group_inv book", OF fold start]) (rule vat_group_step_inv)
  have "delta = vat_sum (gs_totals g) (vs_priorTotals s) (- 1)" using combine_InrD [OF delta] .
  then have tot: "vat_sum (vs_priorTotals s) delta 1 = gs_totals g" by (simp add: vat_sum_cancel)
  have doc: "document_ok book \<lparr>dr_source = current, dr_groups = gs_rows g, dr_cumulative = c, dr_delta = d\<rparr>"
  proof -
    have "balanced (vb_taxBasis book) (gs_totals g)" "gs_totals g = sum_totals (map (pence_totals \<circ> gr_cumulative) (gs_rows g))"
      "distinct (map gr_treatment (gs_rows g))" "\<forall>x\<in>set (gs_rows g). row_ok book x"
      using g unfolding group_inv_def by blast+
    then show ?thesis unfolding document_ok_def vat_document_row.simps asMoney_InrD [OF c] by blast
  qed
  show ?thesis using inv g doc rel tot asMoney_InrD [OF c] asMoney_InrD [OF d]
    by (auto simp: vat_inv_def u group_inv_def sum_totals_snoc split: option.splits)
qed

lemma vat_history_inv:
  "reconcileVatTreatmentFixtures book = Inr r \<Longrightarrow> \<exists>s. vat_inv book s \<and> vr_documents r = vs_documents s"
proof -
  assume "reconcileVatTreatmentFixtures book = Inr r"
  then obtain s where f: "fold_r (vat_document_step book) vat_init (vb_documents book) = Inr s" and "vr_documents r = vs_documents s"
    by (auto simp: reconcileVatTreatmentFixtures_def result_simps)
  moreover have start: "vat_inv book vat_init" by (simp add: vat_inv_def vat_init_def prior_ok_def sum_totals_def)
  have "vat_inv book s"
    by (rule fold_r_invariant [where I = "vat_inv book", OF f start]) (rule vat_document_step_inv)
  ultimately show ?thesis by blast
qed

lemma check_release_InrD:
  assumes "check_release records reversedReleases d = Inr u" and "vd_kind (dr_source d) = Vat_retention_release"
  shows "\<exists>i y q. vd_retentionReleaseId (dr_source d) = Some i \<and> map_of records i = Some (Ret_release y) \<and>
    map_of records (rl_resolutionId y) = Some (Ret_resolution q) \<and>
    vt_retained (pence_totals (dr_delta d)) = - netPence (rr_amount q) \<and>
    vt_vatToSupplier (pence_totals (dr_delta d)) = taxPence (rr_amount q)"
  using assms unfolding check_release_def
  by (simp split: option.splits ret_record.splits if_splits add: pence_totals_def)

section \<open>Properties\<close>

text \<open>
  The VAT history balances to the penny under both rounding candidates: every document's
  cumulative totals are the sum of its groups' totals (one group per treatment), gross = net +
  supplier VAT, expected cash = gross - retained, full-value gross = gross + deferred VAT, and the
  documents' movements add up to the latest cumulative totals. A reverse-charge group charges no
  supplier VAT and every other group no reverse-charge VAT; under cumulative rounding the VAT of a
  group is within half a penny of its rate on its tax basis.
\<close>

lemma vat_history_balances:
  assumes "reconcileVatTreatmentFixtures book = Inr r"
  shows "(\<forall>d\<in>set (vr_documents r). document_ok book d) \<and>
    sum_totals (map (pence_totals \<circ> dr_delta) (vr_documents r)) = pence_totals (dr_cumulative (last (vr_documents r)))"
proof -
  obtain s where s: "vat_inv book s" "vr_documents r = vs_documents s" using vat_history_inv [OF assms] by blast
  have "vb_documents book \<noteq> []" using assms by (auto simp: reconcileVatTreatmentFixtures_def vatTreatmentFixtureBookV1_def result_simps)
  moreover obtain u where "fold_r (vat_document_step book) vat_init (vb_documents book) = Inr u" "vr_documents r = vs_documents u"
    using assms by (auto simp: reconcileVatTreatmentFixtures_def result_simps)
  moreover have "vs_documents u \<noteq> []" if "fold_r (vat_document_step book) t ds = Inr u" "ds \<noteq> [] \<or> vs_documents t \<noteq> []" for t ds
    using that
  proof (induction ds arbitrary: t)
    case (Cons d ds)
    then obtain v where "vat_document_step book t d = Inr v" "fold_r (vat_document_step book) v ds = Inr u"
      by (auto simp: bind_r_Inr_iff)
    moreover from this(1) have "vs_documents v \<noteq> []"
      unfolding vat_document_step_def Let_def by (auto simp: bind_r_Inr_iff if_Inl_Inr_iff)
    ultimately show ?case using Cons.IH by blast
  qed simp
  ultimately have ne: "vs_documents s \<noteq> []" using s(2) by metis
  have "vs_priorTotals s = sum_totals (map (pence_totals \<circ> dr_delta) (vs_documents s))"
    "vs_priorTotals s = pence_totals (dr_cumulative (last (vs_documents s)))"
    "\<forall>d\<in>set (vs_documents s). document_ok book d" using s(1) ne unfolding vat_inv_def by blast+
  then show ?thesis unfolding s(2) by metis
qed

text \<open>
  C32. VAT and retention agree: when the two books compose, the VAT held back in the latest
  document is the retention that remains after what was billed and released, for principal and tax;
  and every VAT retention release consumes its own retention release, one that an approved
  resolution of exactly its principal and tax authorises.
\<close>

theorem vat_retention_agree:
  assumes "reconcileVatRetentionFixtures vb rb = Inr r"
  shows "(\<exists>x. reconcileRetentionBook rb = Inr x \<and>
      (let c = pence_totals (dr_cumulative (last (vr_documents r))) in
       vt_retained c + netPence (rx_alreadyBilled x) + netPence (rx_released x) = netPence (rx_retained x) \<and>
       vt_retainedVat c + taxPence (rx_alreadyBilled x) + taxPence (rx_released x) = taxPence (rx_retained x))) \<and>
    distinct (concat (map (\<lambda>d. case vd_retentionReleaseId (dr_source d) of None \<Rightarrow> [] | Some i \<Rightarrow> [i]) (vr_documents r))) \<and>
    (\<forall>d\<in>set (vr_documents r). vd_kind (dr_source d) = Vat_retention_release \<longrightarrow>
      (\<exists>x q. Ret_release x \<in> set (rb_records rb) \<and> vd_retentionReleaseId (dr_source d) = Some (rc_id x) \<and>
        Ret_resolution q \<in> set (rb_records rb) \<and> rc_id q = rl_resolutionId x \<and> rr_outcome q = Approved \<and>
        vt_retained (pence_totals (dr_delta d)) = - netPence (rr_amount q) \<and>
        vt_vatToSupplier (pence_totals (dr_delta d)) = taxPence (rr_amount q)))"
proof -
  let ?records = "map (\<lambda>r. (ret_id r, r)) (rb_records rb)" and ?rev = "foldl (reversed_step (map (\<lambda>r. (ret_id r, r)) (rb_records rb))) [] (rb_records rb)"
  from assms obtain x us where vat: "reconcileVatTreatmentFixtures vb = Inr r" and x: "reconcileRetentionBook rb = Inr x"
    and chk: "map_r (check_release ?records ?rev) (vr_documents r) = Inr us"
    and last: "pence (vt_retained (dr_cumulative (last (vr_documents r)))) = netPence (rx_remaining x)"
      "pence (vt_retainedVat (dr_cumulative (last (vr_documents r)))) = taxPence (rx_remaining x)"
    unfolding reconcileVatRetentionFixtures_def Let_def by (auto simp: result_simps)
  have valid: "validated_retention rb = Inr rb" using x by (auto simp: reconcileRetentionBook_def validated_retention_iff result_simps)
  obtain hs where hist: "history_inv (rb_records rb) hs" and ids: "distinct (map ret_id (rb_records rb))"
    using validated_history [OF valid] by blast
  from reconcile_retention_parts [OF valid] x last have "(let c = pence_totals (dr_cumulative (last (vr_documents r))) in
       vt_retained c + netPence (rx_alreadyBilled x) + netPence (rx_released x) = netPence (rx_retained x) \<and>
       vt_retainedVat c + taxPence (rx_alreadyBilled x) + taxPence (rx_released x) = taxPence (rx_retained x))"
    by (simp add: Let_def pence_totals_def)
  moreover have "distinct (concat (map (\<lambda>d. case vd_retentionReleaseId (dr_source d) of None \<Rightarrow> [] | Some i \<Rightarrow> [i]) (vr_documents r)))"
    using vat_history_inv [OF vat] by (auto simp: vat_inv_def)
  moreover have "\<exists>x q. Ret_release x \<in> set (rb_records rb) \<and> vd_retentionReleaseId (dr_source d) = Some (rc_id x) \<and>
        Ret_resolution q \<in> set (rb_records rb) \<and> rc_id q = rl_resolutionId x \<and> rr_outcome q = Approved \<and>
        vt_retained (pence_totals (dr_delta d)) = - netPence (rr_amount q) \<and>
        vt_vatToSupplier (pence_totals (dr_delta d)) = taxPence (rr_amount q)"
    if d: "d \<in> set (vr_documents r)" "vd_kind (dr_source d) = Vat_retention_release" for d
  proof -
    have "check_release ?records ?rev d = Inr ()"
      using chk d(1) by (auto simp: map_r_Inr_list_all2 list_all2_conv_all_nth in_set_conv_nth)
    from check_release_InrD [OF this d(2)] obtain i y q where y: "vd_retentionReleaseId (dr_source d) = Some i"
      "map_of ?records i = Some (Ret_release y)" "map_of ?records (rl_resolutionId y) = Some (Ret_resolution q)"
      and eq: "vt_retained (pence_totals (dr_delta d)) = - netPence (rr_amount q)"
        "vt_vatToSupplier (pence_totals (dr_delta d)) = taxPence (rr_amount q)" by blast
    have y': "Ret_release y \<in> set (rb_records rb)" "rc_id y = i"
      and q: "Ret_resolution q \<in> set (rb_records rb)" "rc_id q = rl_resolutionId y"
      using map_of_SomeD [OF y(2)] map_of_SomeD [OF y(3)] by auto
    obtain q' where q': "recorded_approval (rb_records rb) q'" "rc_id q' = rl_resolutionId y" "rr_outcome q' = Approved"
      using hist y'(1) unfolding history_inv_def by blast
    then have "ret_id (Ret_resolution q') = ret_id (Ret_resolution q)" "Ret_resolution q' \<in> set (rb_records rb)"
      using q(2) by (simp_all add: recorded_approval_def)
    moreover have "inj_on ret_id (set (rb_records rb))" using ids by (simp add: distinct_map)
    ultimately have "Ret_resolution q' = Ret_resolution q" using q(1) by (meson inj_onD)
    then have "q' = q" by simp
    with q' q y y' eq show ?thesis by blast
  qed
  ultimately show ?thesis using x by blast
qed

text \<open>A history with one interim document and the release of the retention example.\<close>

definition vat_example :: vat_book where
  "vat_example =
    (let e = \<lparr>el_actorId = ''u'', el_evidenceId = ''e'', el_supplierVatRegistered = True, el_supplierVatNumber = Some ''GB1'',
       el_customerVatRegistered = False, el_customerVatNumber = None, el_customerEndUser = True, el_intermediarySupplier = False,
       el_constructionReverseChargeInScope = False, el_qualifyingBasisReference = ''basis''\<rparr>;
      g = \<lambda>n r. [\<lparr>vg_treatment = Standard_20, vg_eligibility = e, vg_cumulativeNetPence = n, vg_retainedNetPence = r\<rparr>];
      d = \<lparr>vd_id = ''d1'', vd_previousDocumentId = None, vd_kind = Vat_interim, vd_documentReference = ''doc 1'',
         vd_documentDate = ''2026-10-01'', vd_interimCertificationId = ''c'', vd_retentionProfileId = ''p1'',
         vd_retentionReleaseId = None, vd_creditOfDocumentId = None, vd_groups = g 10000 900\<rparr>
     in \<lparr>vb_tenantId = ''t'', vb_jobId = ''j'', vb_supplierReference = ''sub'', vb_customerReference = ''main'',
        vb_taxBasis = Net_after_retention, vb_roundingVersion = Cumulative_group_half_up,
        vb_documents = [d, d\<lparr>vd_id := ''d2'', vd_previousDocumentId := Some ''d1'', vd_kind := Vat_retention_release,
          vd_documentReference := ''doc 2'', vd_retentionReleaseId := Some ''r1'', vd_groups := g 10000 400\<rparr>]\<rparr>)"

definition vat_ret_example :: ret_book where
  "vat_ret_example = ret_example\<lparr>rb_records := take 4 ret_example_records\<rparr>"

lemma vat_example_ok: "vatTreatmentFixtureBookV1 vat_example"
  by (simp add: vat_example_def Let_def vatTreatmentFixtureBookV1_def vat_reference_ok_def vat_group_ok_def pence_ok_def MAX_MONEY_PENCE_def)

lemma vat_example_result: "\<exists>r. reconcileVatTreatmentFixtures vat_example = Inr r"
proof -
  have "(case fold_r (vat_document_step vat_example) vat_init (vb_documents vat_example) of Inr _ \<Rightarrow> True | Inl _ \<Rightarrow> False) = True"
    by code_simp
  then show ?thesis using vat_example_ok by (auto simp: reconcileVatTreatmentFixtures_def split: sum.splits)
qed

lemma vat_history_balances_witness:
  "\<exists>r. reconcileVatTreatmentFixtures vat_example = Inr r \<and> (\<forall>d\<in>set (vr_documents r). document_ok vat_example d)"
  using vat_example_result vat_history_balances [of vat_example] by blast

lemma vat_ret_example_ok: "retentionBookV1 vat_ret_example"
proof -
  have "length (rb_records vat_ret_example) = 4" "list_all retentionRecordV1 (rb_records vat_ret_example)" by code_simp+
  then show ?thesis by (simp add: retentionBookV1_def)
qed

lemma vat_retention_example: "\<exists>r. reconcileVatRetentionFixtures vat_example vat_ret_example = Inr r"
proof -
  have v: "validated_retention vat_ret_example = bind_r (project_retention vat_ret_example) (\<lambda>_. Inr vat_ret_example)"
    using vat_ret_example_ok by (simp add: validated_retention_def)
  have "(case reconcileVatRetentionFixtures vat_example vat_ret_example of Inr _ \<Rightarrow> True | Inl _ \<Rightarrow> False) = True"
    unfolding reconcileVatRetentionFixtures_def reconcileVatTreatmentFixtures_def reconcileRetentionBook_def v
    by (simp only: vat_example_ok vat_ret_example_ok not_True_eq_False if_False) code_simp
  then show ?thesis by (auto split: sum.splits)
qed

theorem vat_retention_agree_witness:
  "\<exists>r. reconcileVatRetentionFixtures vat_example vat_ret_example = Inr r \<and>
     distinct (concat (map (\<lambda>d. case vd_retentionReleaseId (dr_source d) of None \<Rightarrow> [] | Some i \<Rightarrow> [i]) (vr_documents r)))"
  using vat_retention_example vat_retention_agree [of vat_example vat_ret_example] by blast

end
