(* ===== verification/Cis.thy ===== *)
theory Cis
  imports Vat
begin

text \<open>
  Model of \<^verbatim>\<open>cis-deductions.ts\<close>: cumulative CIS statements over a VAT book, a retention book,
  verified statuses and payment records. \<open>cis_statement_step\<close> is the body of the statement loop and
  \<open>cis_payment_step\<close> of its payment loop.
\<close>

section \<open>Records\<close>

datatype cis_status = Gross_payment | Registered | Unregistered

fun CIS_STATUS_MATRIX :: "cis_status \<Rightarrow> int" where
  "CIS_STATUS_MATRIX Gross_payment = 0"
| "CIS_STATUS_MATRIX Registered = 20"
| "CIS_STATUS_MATRIX Unregistered = 30"

record cis_context =
  cc_id :: string
  cc_tenantId :: string
  cc_jobId :: string

record cis_verification = cis_context +
  cv_contractorReference :: string
  cv_subcontractorReference :: string
  cv_status :: cis_status
  cv_evidenceId :: string
  cv_evidenceReference :: string
  cv_recordedBy :: string
  cv_validFrom :: string
  cv_validThrough :: string

record cis_payment = cis_context +
  cp_paymentReference :: string
  cp_paymentDate :: string
  cp_evidenceId :: string
  cp_cashPence :: int
  cp_reversalOfPaymentId :: "string option"

datatype cis_kind = Cis_payment | Cis_correction

record cis_statement = cis_context +
  cs_previousStatementId :: "string option"
  cs_kind :: cis_kind
  cs_correctionOfStatementId :: "string option"
  cs_documentReference :: string
  cs_documentDate :: string
  cs_taxMonthEnd :: string
  cs_actorId :: string
  cs_decisionId :: string
  cs_sourceCalculationReference :: string
  cs_verificationId :: string
  cs_vatDocumentId :: string
  cs_retentionProfileId :: string
  cs_cumulativePaidNetPence :: int
  cs_cumulativeDirectMaterialsPence :: int
  cs_materialsEvidenceId :: string
  cs_cumulativePaidVatPence :: int
  cs_paymentRecordIds :: "string list"

datatype cis_direction = Customer_receipt | Subcontractor_payment

record cis_book =
  cb_tenantId :: string
  cb_jobId :: string
  cb_direction :: cis_direction
  cb_contractorReference :: string
  cb_subcontractorReference :: string
  cb_vatBook :: vat_book
  cb_retentionBook :: ret_book
  cb_verifications :: "cis_verification list"
  cb_payments :: "cis_payment list"
  cb_statements :: "cis_statement list"

datatype cis_error =
    C_INVALID_INPUT | C_CONTEXT_MISMATCH | C_MISSING_SOURCE | C_STALE_VERIFICATION
  | C_INVALID_LINEAGE | C_REPLAY_CONFLICT | C_VALUE_LIMIT | C_ISSUE_DISABLED
  | C_vat vat_error | C_money money_error | C_range range_error

definition cisVerificationFixtureV1 :: "cis_verification \<Rightarrow> bool" where
  "cisVerificationFixtureV1 v \<longleftrightarrow> vat_reference_ok (cv_contractorReference v) \<and> vat_reference_ok (cv_subcontractorReference v) \<and>
     vat_reference_ok (cv_evidenceReference v)"

definition cis_payment_ok :: "cis_payment \<Rightarrow> bool" where
  "cis_payment_ok p \<longleftrightarrow> vat_reference_ok (cp_paymentReference p) \<and> pence_ok (cp_cashPence p)"

definition cis_statement_ok :: "cis_statement \<Rightarrow> bool" where
  "cis_statement_ok s \<longleftrightarrow> vat_reference_ok (cs_documentReference s) \<and> vat_reference_ok (cs_sourceCalculationReference s) \<and>
     pence_ok (cs_cumulativePaidNetPence s) \<and> pence_ok (cs_cumulativeDirectMaterialsPence s) \<and>
     pence_ok (cs_cumulativePaidVatPence s) \<and> length (cs_paymentRecordIds s) \<le> 1000"

definition cisFixtureBookV1 :: "cis_book \<Rightarrow> bool" where
  "cisFixtureBookV1 b \<longleftrightarrow> vat_reference_ok (cb_contractorReference b) \<and> vat_reference_ok (cb_subcontractorReference b) \<and>
     vatTreatmentFixtureBookV1 (cb_vatBook b) \<and> retentionBookV1 (cb_retentionBook b) \<and>
     1 \<le> length (cb_verifications b) \<and> length (cb_verifications b) \<le> 1000 \<and> list_all cisVerificationFixtureV1 (cb_verifications b) \<and>
     length (cb_payments b) \<le> 1000 \<and> list_all cis_payment_ok (cb_payments b) \<and>
     1 \<le> length (cb_statements b) \<and> length (cb_statements b) \<le> 1000 \<and> list_all cis_statement_ok (cb_statements b)"

definition cis_checked :: "int \<Rightarrow> cis_error + money" where
  "cis_checked v = (if v < - MAX_MONEY_PENCE \<or> v > MAX_MONEY_PENCE then Inl C_VALUE_LIMIT
     else map_err C_money (moneyFromBigInt v))"

section \<open>Sources\<close>

definition source_step :: "string \<times> string \<Rightarrow> string set \<Rightarrow> string \<times> string \<times> string \<Rightarrow> cis_error + string set" where
  "source_step owner ids r = (if snd r \<noteq> owner then Inl C_CONTEXT_MISMATCH
     else if fst r \<in> ids then Inl C_REPLAY_CONFLICT else Inr (insert (fst r) ids))"

definition source_key :: "'a cis_context_scheme \<Rightarrow> string \<times> string \<times> string" where
  "source_key c = (cc_id c, cc_tenantId c, cc_jobId c)"

definition overlapping_status :: "cis_verification \<Rightarrow> cis_verification \<Rightarrow> bool" where
  "overlapping_status v w \<longleftrightarrow> cv_status w \<noteq> cv_status v \<and> cv_validFrom w \<le> cv_validThrough v \<and> cv_validFrom v \<le> cv_validThrough w"

fun conflicting_statuses :: "cis_verification list \<Rightarrow> bool" where
  "conflicting_statuses [] \<longleftrightarrow> False"
| "conflicting_statuses (v # vs) \<longleftrightarrow> list_ex (overlapping_status v) vs \<or> conflicting_statuses vs"

definition verification_step :: "cis_book \<Rightarrow> unit \<Rightarrow> cis_verification \<Rightarrow> cis_error + unit" where
  "verification_step b u v =
     (if cv_contractorReference v \<noteq> cb_contractorReference b \<or> cv_subcontractorReference v \<noteq> cb_subcontractorReference b
      then Inl C_CONTEXT_MISMATCH
      else if cv_validFrom v > cv_validThrough v then Inl C_STALE_VERIFICATION else Inr ())"

definition cis_sources :: "cis_book \<Rightarrow> cis_error + vat_result" where
  "cis_sources b =
     bind_r (fold_r (source_step (cb_tenantId b, cb_jobId b)) {}
       (map source_key (cb_verifications b) @ map source_key (cb_payments b) @ map source_key (cb_statements b))) (\<lambda>_.
     if (vb_tenantId (cb_vatBook b), vb_jobId (cb_vatBook b)) \<noteq> (cb_tenantId b, cb_jobId b) \<or>
        (rb_tenantId (cb_retentionBook b), rb_jobId (cb_retentionBook b)) \<noteq> (cb_tenantId b, cb_jobId b) then Inl C_CONTEXT_MISMATCH
     else if vb_supplierReference (cb_vatBook b) \<noteq> cb_subcontractorReference b \<or>
        vb_customerReference (cb_vatBook b) \<noteq> cb_contractorReference b then Inl C_CONTEXT_MISMATCH
     else bind_r (fold_r (verification_step b) () (cb_verifications b)) (\<lambda>_.
     if conflicting_statuses (cb_verifications b) then Inl C_INVALID_LINEAGE
     else map_err (\<lambda>e. if e = V_VALUE_LIMIT then C_VALUE_LIMIT else C_vat e)
       (reconcileVatRetentionFixtures (cb_vatBook b) (cb_retentionBook b))))"

section \<open>Payments\<close>

record cis_cash =
  ck_used :: "string list"
  ck_reversed :: "(string \<times> int) list"
  ck_cash :: int

definition valid_on :: "cis_verification \<Rightarrow> string \<Rightarrow> bool" where
  "valid_on v date \<longleftrightarrow> date \<ge> cv_validFrom v \<and> date \<le> cv_validThrough v"

definition cis_payment_step ::
  "(string \<times> cis_payment) list \<Rightarrow> cis_verification \<Rightarrow> cis_statement \<Rightarrow> cis_cash \<Rightarrow> string \<Rightarrow> cis_error + cis_cash" where
  "cis_payment_step payments verification current k paymentId =
     (case map_of payments paymentId of None \<Rightarrow> Inl C_MISSING_SOURCE
      | Some item \<Rightarrow>
        if paymentId \<in> set (ck_used k) then Inl C_REPLAY_CONFLICT
        else if \<not> valid_on verification (cp_paymentDate item) \<or> cp_paymentDate item > cs_documentDate current then Inl C_STALE_VERIFICATION
        else if cp_cashPence item = 0 then Inl C_VALUE_LIMIT
        else bind_r (case cp_reversalOfPaymentId item of
            None \<Rightarrow> Inr (k\<lparr>ck_cash := ck_cash k + cp_cashPence item\<rparr>)
          | Some o1 \<Rightarrow> (case map_of payments o1 of None \<Rightarrow> Inl C_INVALID_LINEAGE
              | Some original \<Rightarrow>
                if cc_id original \<notin> set (ck_used k) \<or> cp_reversalOfPaymentId original \<noteq> None \<or>
                   cp_paymentDate original > cp_paymentDate item then Inl C_INVALID_LINEAGE
                else let total = get0 (ck_reversed k) (cc_id original) + cp_cashPence item in
                if total > cp_cashPence original then Inl C_VALUE_LIMIT
                else Inr (k\<lparr>ck_reversed := AList.update (cc_id original) total (ck_reversed k),
                            ck_cash := ck_cash k - cp_cashPence item\<rparr>))) (\<lambda>k.
        bind_r (cis_checked (ck_cash k)) (\<lambda>_. Inr (k\<lparr>ck_used := ck_used k @ [paymentId]\<rparr>))))"

section \<open>Statements\<close>

record cis_row =
  cx_source :: cis_statement
  cx_verification :: cis_verification
  cx_vatSource :: vat_document_row
  cx_retentionProfile :: ret_profile
  cx_rateNumerator :: int
  cx_invoiceNet :: money
  cx_vatToSupplier :: money
  cx_reverseChargeVat :: money
  cx_retention :: money
  cx_deferredRetainedVat :: money
  cx_invoiceGross :: money
  cx_paidNet :: money
  cx_directMaterials :: money
  cx_paidVat :: money
  cx_deductionBase :: money
  cx_cisDeduction :: money
  cx_expectedCash :: money
  cx_actualCash :: money
  cx_unpaidCash :: money
  cx_refundDue :: money
  cx_invoiceExpectedCash :: money
  cx_invoiceUnpaidCash :: money
  cx_invoiceRefundDue :: money
  cx_unallocatedInvoiceVat :: money
  cx_unallocatedInvoiceNet :: money
  cx_feeEligibleRecovery :: money
  cx_deltaDeduction :: money
  cx_deltaExpectedCash :: money

record cis_state =
  ci_previous :: "cis_statement option"
  ci_previousVatIndex :: nat
  ci_references :: "string set"
  ci_priorBase :: int
  ci_priorDeduction :: int
  ci_priorExpected :: int
  ci_cash :: cis_cash
  ci_rows :: "cis_row list"

definition cis_init :: cis_state where
  "cis_init = \<lparr>ci_previous = None, ci_previousVatIndex = 0, ci_references = {}, ci_priorBase = 0, ci_priorDeduction = 0,
     ci_priorExpected = 0, ci_cash = \<lparr>ck_used = [], ck_reversed = [], ck_cash = 0\<rparr>, ci_rows = []\<rparr>"

fun find_index :: "('a \<Rightarrow> bool) \<Rightarrow> 'a list \<Rightarrow> nat option" where
  "find_index P [] = None"
| "find_index P (x # xs) = (if P x then Some 0 else map_option Suc (find_index P xs))"

definition find_profile :: "ret_book \<Rightarrow> string \<Rightarrow> ret_profile option" where
  "find_profile b i = (case find (\<lambda>r. case r of Ret_profile p \<Rightarrow> rc_id p = i | _ \<Rightarrow> False) (rb_records b) of
     Some (Ret_profile p) \<Rightarrow> Some p | _ \<Rightarrow> None)"

text \<open>The VAT document and retention profile a statement is measured against.\<close>

definition cis_source_of ::
  "cis_book \<Rightarrow> vat_result \<Rightarrow> cis_state \<Rightarrow> cis_statement \<Rightarrow> cis_error + (nat \<times> vat_document_row \<times> ret_profile)" where
  "cis_source_of b vat s current =
     (case (find_index (\<lambda>d. vd_id (dr_source d) = cs_vatDocumentId current) (vr_documents vat),
            find_profile (cb_retentionBook b) (cs_retentionProfileId current)) of
        (Some n, Some profile) \<Rightarrow>
          let source = vr_documents vat ! n in
          if vd_retentionProfileId (dr_source source) \<noteq> rc_id profile \<or> n < ci_previousVatIndex s \<or>
             vd_documentDate (dr_source source) > cs_documentDate current \<or>
             list_ex (\<lambda>d. vd_documentDate (dr_source d) \<le> cs_documentDate current) (drop (n + 1) (vr_documents vat))
          then Inl C_MISSING_SOURCE else Inr (n, source, profile)
      | _ \<Rightarrow> Inl C_MISSING_SOURCE)"

text \<open>
  \<^verbatim>\<open>checked\<close> of every amount of the row, then the row; a checked amount is the pounds sterling
  money of that amount.
\<close>

definition cis_row_of ::
  "cis_statement \<Rightarrow> cis_verification \<Rightarrow> vat_document_row \<Rightarrow> ret_profile \<Rightarrow> int \<Rightarrow> int \<Rightarrow> int \<Rightarrow> int \<Rightarrow> cis_error + cis_row" where
  "cis_row_of current verification source profile deduction cash deltaD deltaE =
     (let c = dr_cumulative source; net = cs_cumulativePaidNetPence current; materials = cs_cumulativeDirectMaterialsPence current;
          paidVat = cs_cumulativePaidVatPence current; expected = net + paidVat - deduction;
          invoiceExpected = pence (vt_expectedCash c) - deduction in
      bind_r (map_r cis_checked [net, materials, paidVat, net - materials, deduction, expected, cash,
        (if expected > cash then expected - cash else 0), (if cash > expected then cash - expected else 0), invoiceExpected,
        (if invoiceExpected > cash then invoiceExpected - cash else 0), (if cash > invoiceExpected then cash - invoiceExpected else 0),
        pence (vt_vatToSupplier c) - paidVat, pence (vt_net c) - pence (vt_retained c) - net, 0, deltaD, deltaE]) (\<lambda>_.
        Inr \<lparr>cx_source = current, cx_verification = verification, cx_vatSource = source, cx_retentionProfile = profile,
             cx_rateNumerator = CIS_STATUS_MATRIX (cv_status verification), cx_invoiceNet = vt_net c,
             cx_vatToSupplier = vt_vatToSupplier c, cx_reverseChargeVat = vt_reverseChargeVat c, cx_retention = vt_retained c,
             cx_deferredRetainedVat = vt_retainedVat c, cx_invoiceGross = vt_gross c, cx_paidNet = gbp net, cx_directMaterials = gbp materials,
             cx_paidVat = gbp paidVat, cx_deductionBase = gbp (net - materials), cx_cisDeduction = gbp deduction,
             cx_expectedCash = gbp expected, cx_actualCash = gbp cash,
             cx_unpaidCash = gbp (if expected > cash then expected - cash else 0),
             cx_refundDue = gbp (if cash > expected then cash - expected else 0),
             cx_invoiceExpectedCash = gbp invoiceExpected,
             cx_invoiceUnpaidCash = gbp (if invoiceExpected > cash then invoiceExpected - cash else 0),
             cx_invoiceRefundDue = gbp (if cash > invoiceExpected then cash - invoiceExpected else 0),
             cx_unallocatedInvoiceVat = gbp (pence (vt_vatToSupplier c) - paidVat),
             cx_unallocatedInvoiceNet = gbp (pence (vt_net c) - pence (vt_retained c) - net),
             cx_feeEligibleRecovery = gbp 0, cx_deltaDeduction = gbp deltaD, cx_deltaExpectedCash = gbp deltaE\<rparr>))"

definition cis_statement_step ::
  "cis_book \<Rightarrow> vat_result \<Rightarrow> (string \<times> cis_verification) list \<Rightarrow> (string \<times> cis_payment) list \<Rightarrow> cis_state \<Rightarrow> cis_statement \<Rightarrow> cis_error + cis_state" where
  "cis_statement_step b vat verifications payments s current =
     (let previous = ci_previous s in
      if cs_previousStatementId current \<noteq> map_option cc_id previous \<or> cs_documentReference current \<in> ci_references s \<or>
         (case previous of None \<Rightarrow> False | Some p \<Rightarrow> cs_documentDate current < cs_documentDate p) then Inl C_INVALID_LINEAGE
      else if (if cs_kind current = Cis_correction
               then previous = None \<or> cs_correctionOfStatementId current \<noteq> map_option cc_id previous
               else cs_correctionOfStatementId current \<noteq> None) then Inl C_INVALID_LINEAGE
      else if (case previous of None \<Rightarrow> False | Some p \<Rightarrow> cs_verificationId current \<noteq> cs_verificationId p) then Inl C_INVALID_LINEAGE
      else case map_of verifications (cs_verificationId current) of None \<Rightarrow> Inl C_MISSING_SOURCE
      | Some verification \<Rightarrow>
      if \<not> valid_on verification (cs_documentDate current) then Inl C_STALE_VERIFICATION
      else if cs_taxMonthEnd current < cs_documentDate current then Inl C_INVALID_INPUT
      else bind_r (cis_source_of b vat s current) (\<lambda>(n, source, profile).
      let c = dr_cumulative source; net = cs_cumulativePaidNetPence current; materials = cs_cumulativeDirectMaterialsPence current;
          paidVat = cs_cumulativePaidVatPence current; base = net - materials in
      if materials > net \<or> net > pence (vt_net c) - pence (vt_retained c) \<or> paidVat > pence (vt_vatToSupplier c) then Inl C_VALUE_LIMIT
      else if (case previous of None \<Rightarrow> False | Some p \<Rightarrow> cs_kind current \<noteq> Cis_correction \<and>
          (net < cs_cumulativePaidNetPence p \<or> materials < cs_cumulativeDirectMaterialsPence p \<or>
           paidVat < cs_cumulativePaidVatPence p \<or> base < ci_priorBase s)) then Inl C_INVALID_LINEAGE
      else bind_r (map_err C_range (multiplyRatio base (CIS_STATUS_MATRIX (cv_status verification)) 100 Half_up)) (\<lambda>deduction.
      let expected = net + paidVat - deduction in
      bind_r (fold_r (cis_payment_step payments verification current) (ci_cash s) (cs_paymentRecordIds current)) (\<lambda>k.
      bind_r (cis_row_of current verification source profile deduction (ck_cash k)
          (deduction - ci_priorDeduction s) (expected - ci_priorExpected s)) (\<lambda>row.
        Inr \<lparr>ci_previous = Some current, ci_previousVatIndex = n, ci_references = insert (cs_documentReference current) (ci_references s),
             ci_priorBase = base, ci_priorDeduction = deduction, ci_priorExpected = expected, ci_cash = k,
             ci_rows = ci_rows s @ [row]\<rparr>)))))"

record cis_result =
  cr_tenantId :: string
  cr_jobId :: string
  cr_direction :: cis_direction
  cr_statements :: "cis_row list"

definition reconcileCisFixtures :: "cis_book \<Rightarrow> cis_error + cis_result" where
  "reconcileCisFixtures b =
     (if \<not> cisFixtureBookV1 b then Inl C_INVALID_INPUT
      else bind_r (cis_sources b) (\<lambda>vat.
      let verifications = map (\<lambda>v. (cc_id v, v)) (cb_verifications b); payments = map (\<lambda>p. (cc_id p, p)) (cb_payments b) in
      if \<not> distinct (map cp_paymentReference (cb_payments b)) then Inl C_REPLAY_CONFLICT
      else bind_r (fold_r (cis_statement_step b vat verifications payments) cis_init (cb_statements b)) (\<lambda>s.
      if length (ck_used (ci_cash s)) \<noteq> length payments then Inl C_MISSING_SOURCE
      else Inr \<lparr>cr_tenantId = cb_tenantId b, cr_jobId = cb_jobId b, cr_direction = cb_direction b, cr_statements = ci_rows s\<rparr>)))"

definition appendCisFixtureStatement :: "cis_book \<Rightarrow> cis_statement \<Rightarrow> cis_error + cis_book" where
  "appendCisFixtureStatement b r =
     bind_r (reconcileCisFixtures b) (\<lambda>_.
     if \<not> cis_statement_ok r then Inl C_INVALID_INPUT
     else case find (\<lambda>item. cc_id item = cc_id r) (cb_statements b) of
       Some previous \<Rightarrow> if previous \<noteq> r then Inl C_REPLAY_CONFLICT else Inr b
     | None \<Rightarrow> let nextBook = b\<lparr>cb_statements := cb_statements b @ [r]\<rparr> in
         bind_r (reconcileCisFixtures nextBook) (\<lambda>_. Inr nextBook))"

definition assertCisIssueAllowed :: "cis_error + unit" where
  "assertCisIssueAllowed = Inl C_ISSUE_DISABLED"

section \<open>Cash\<close>

lemma cis_checked_Inr_iff [result_simps]: "cis_checked v = Inr m \<longleftrightarrow> \<bar>v\<bar> \<le> MAX_MONEY_PENCE \<and> m = gbp v"
  by (auto simp: cis_checked_def result_simps)

definition net_payment :: "(string \<times> cis_payment) list \<Rightarrow> (string \<times> int) list \<Rightarrow> string \<Rightarrow> int" where
  "net_payment payments reversed i = (case map_of payments i of None \<Rightarrow> 0
     | Some p \<Rightarrow> if cp_reversalOfPaymentId p = None then cp_cashPence p - get0 reversed i else 0)"

definition signed_payment :: "cis_payment \<Rightarrow> int" where
  "signed_payment p = (if cp_reversalOfPaymentId p = None then cp_cashPence p else - cp_cashPence p)"

definition signed_of :: "(string \<times> cis_payment) list \<Rightarrow> string \<Rightarrow> int" where
  "signed_of payments i = (case map_of payments i of None \<Rightarrow> 0 | Some p \<Rightarrow> signed_payment p)"

definition keyed_payments :: "(string \<times> cis_payment) list \<Rightarrow> bool" where
  "keyed_payments payments \<longleftrightarrow> (\<forall>(i, p)\<in>set payments. cc_id p = i \<and> 0 \<le> cp_cashPence p)"

definition payments_inv :: "(string \<times> cis_payment) list \<Rightarrow> cis_cash \<Rightarrow> bool" where
  "payments_inv payments k \<longleftrightarrow> distinct (ck_used k) \<and> set (ck_used k) \<subseteq> fst ` set payments \<and>
     fst ` set (ck_reversed k) \<subseteq> set (ck_used k) \<and>
     (\<forall>i p. map_of payments i = Some p \<longrightarrow> 0 \<le> get0 (ck_reversed k) i \<and> get0 (ck_reversed k) i \<le> cp_cashPence p) \<and>
     ck_cash k = (\<Sum>i\<in>set (ck_used k). net_payment payments (ck_reversed k) i) \<and>
     ck_cash k = (\<Sum>i\<in>set (ck_used k). signed_of payments i)"

lemma sum_change_one:
  "finite U \<Longrightarrow> a \<in> U \<Longrightarrow> (\<And>i. i \<noteq> a \<Longrightarrow> g i = f i) \<Longrightarrow> (\<Sum>i\<in>U. g i) = (\<Sum>i\<in>U. f i) - f a + (g a :: int)"
  by (simp add: sum.remove [of U a])

lemma payments_inv_nonneg:
  assumes "payments_inv payments k" shows "0 \<le> ck_cash k"
proof -
  have "0 \<le> net_payment payments (ck_reversed k) i" for i
    using assms unfolding payments_inv_def net_payment_def by (auto split: option.splits)
  moreover have "ck_cash k = (\<Sum>i\<in>set (ck_used k). net_payment payments (ck_reversed k) i)"
    using assms unfolding payments_inv_def by blast
  ultimately show ?thesis by (simp add: sum_nonneg)
qed

lemma cis_payment_step_InrD:
  assumes "cis_payment_step payments v c k i = Inr k'"
  shows "\<exists>p. map_of payments i = Some p \<and> i \<notin> set (ck_used k) \<and> ck_used k' = ck_used k @ [i] \<and>
    (case cp_reversalOfPaymentId p of
      None \<Rightarrow> ck_cash k' = ck_cash k + cp_cashPence p \<and> ck_reversed k' = ck_reversed k
    | Some j \<Rightarrow> \<exists>q. map_of payments j = Some q \<and> cc_id q \<in> set (ck_used k) \<and> cp_reversalOfPaymentId q = None \<and>
        get0 (ck_reversed k) (cc_id q) + cp_cashPence p \<le> cp_cashPence q \<and> ck_cash k' = ck_cash k - cp_cashPence p \<and>
        ck_reversed k' = AList.update (cc_id q) (get0 (ck_reversed k) (cc_id q) + cp_cashPence p) (ck_reversed k))"
  using assms unfolding cis_payment_step_def Let_def
  by (auto simp: result_simps split: option.splits)

lemma cis_payment_step_inv:
  assumes inv: "payments_inv payments k" and keyed: "keyed_payments payments"
    and step: "cis_payment_step payments v c k i = Inr k'"
  shows "payments_inv payments k'"
proof -
  obtain p where p: "map_of payments i = Some p" "i \<notin> set (ck_used k)" "ck_used k' = ck_used k @ [i]"
    and eff: "case cp_reversalOfPaymentId p of
      None \<Rightarrow> ck_cash k' = ck_cash k + cp_cashPence p \<and> ck_reversed k' = ck_reversed k
    | Some j \<Rightarrow> \<exists>q. map_of payments j = Some q \<and> cc_id q \<in> set (ck_used k) \<and> cp_reversalOfPaymentId q = None \<and>
        get0 (ck_reversed k) (cc_id q) + cp_cashPence p \<le> cp_cashPence q \<and> ck_cash k' = ck_cash k - cp_cashPence p \<and>
        ck_reversed k' = AList.update (cc_id q) (get0 (ck_reversed k) (cc_id q) + cp_cashPence p) (ck_reversed k)"
    using cis_payment_step_InrD [OF step] by blast
  have i: "i \<in> fst ` set payments" using map_of_SomeD [OF p(1)] by force
  have pp: "0 \<le> cp_cashPence p" using keyed map_of_SomeD [OF p(1)] by (auto simp: keyed_payments_def)
  have inv': "distinct (ck_used k)" "set (ck_used k) \<subseteq> fst ` set payments" "fst ` set (ck_reversed k) \<subseteq> set (ck_used k)"
    "\<And>i p. map_of payments i = Some p \<Longrightarrow> 0 \<le> get0 (ck_reversed k) i \<and> get0 (ck_reversed k) i \<le> cp_cashPence p"
    "ck_cash k = (\<Sum>i\<in>set (ck_used k). net_payment payments (ck_reversed k) i)"
    "ck_cash k = (\<Sum>i\<in>set (ck_used k). signed_of payments i)"
    using inv unfolding payments_inv_def by blast+
  have base: "distinct (ck_used k')" "set (ck_used k') \<subseteq> fst ` set payments" "set (ck_used k') = insert i (set (ck_used k))"
    using inv'(1,2) p(2,3) i by simp_all
  show ?thesis
  proof (cases "cp_reversalOfPaymentId p")
    case None
    then have e: "ck_cash k' = ck_cash k + cp_cashPence p" "ck_reversed k' = ck_reversed k" using eff by simp_all
    have "i \<notin> fst ` set (ck_reversed k)" using inv'(3) p(2) by blast
    then have "net_payment payments (ck_reversed k) i = cp_cashPence p" using p(1) None by (simp add: net_payment_def get0_notin)
    moreover have "signed_of payments i = cp_cashPence p" using p(1) None by (simp add: signed_of_def signed_payment_def)
    ultimately have "ck_cash k' = (\<Sum>i\<in>set (ck_used k'). net_payment payments (ck_reversed k) i)"
      "ck_cash k' = (\<Sum>i\<in>set (ck_used k'). signed_of payments i)"
      using inv'(5,6) p(2) unfolding base(3) e(1) by simp_all
    then show ?thesis using base inv'(3,4) unfolding payments_inv_def e(2) by blast
  next
    case (Some j)
    then obtain q where q: "map_of payments j = Some q" "cc_id q \<in> set (ck_used k)" "cp_reversalOfPaymentId q = None"
        "get0 (ck_reversed k) (cc_id q) + cp_cashPence p \<le> cp_cashPence q"
      and e: "ck_cash k' = ck_cash k - cp_cashPence p"
        "ck_reversed k' = AList.update (cc_id q) (get0 (ck_reversed k) (cc_id q) + cp_cashPence p) (ck_reversed k)"
      using eff by auto
    have qj: "cc_id q = j" using keyed map_of_SomeD [OF q(1)] by (auto simp: keyed_payments_def)
    have net: "net_payment payments (ck_reversed k') x = net_payment payments (ck_reversed k) x" if "x \<noteq> j" for x
      using that by (simp add: net_payment_def e(2) qj split: option.split)
    have "net_payment payments (ck_reversed k') j = net_payment payments (ck_reversed k) j - cp_cashPence p"
      using q(1,3) by (simp add: net_payment_def e(2) qj)
    then have "(\<Sum>x\<in>set (ck_used k). net_payment payments (ck_reversed k') x) = ck_cash k - cp_cashPence p"
      using sum_change_one [of "set (ck_used k)" j "net_payment payments (ck_reversed k')" "net_payment payments (ck_reversed k)"]
        net q(2) qj inv'(5) by simp
    moreover have "net_payment payments (ck_reversed k') i = 0" using p(1) Some by (simp add: net_payment_def)
    moreover have "signed_of payments i = - cp_cashPence p" using p(1) Some by (simp add: signed_of_def signed_payment_def)
    ultimately have "ck_cash k' = (\<Sum>i\<in>set (ck_used k'). net_payment payments (ck_reversed k') i)"
      "ck_cash k' = (\<Sum>i\<in>set (ck_used k'). signed_of payments i)"
      using inv'(6) p(2) unfolding base(3) e(1) by simp_all
    moreover have "fst ` set (ck_reversed k') \<subseteq> set (ck_used k')"
      using inv'(3) q(2) unfolding e(2) keys_update base(3) by blast
    moreover have "0 \<le> get0 (ck_reversed k') x \<and> get0 (ck_reversed k') x \<le> cp_cashPence y"
      if "map_of payments x = Some y" for x y
      using inv'(4) [OF that] inv'(4) [OF q(1)] q(1,4) pp that unfolding e(2) qj by auto
    ultimately show ?thesis using base(1,2) unfolding payments_inv_def by blast
  qed
qed

lemma cis_payment_fold:
  assumes "fold_r (cis_payment_step payments v c) k ids = Inr k'" "payments_inv payments k" "keyed_payments payments"
  shows "payments_inv payments k' \<and> ck_used k' = ck_used k @ ids"
  using assms(1,2)
proof (induction ids arbitrary: k)
  case (Cons i ids)
  then obtain u where u: "cis_payment_step payments v c k i = Inr u" "fold_r (cis_payment_step payments v c) u ids = Inr k'"
    by (auto simp: bind_r_Inr_iff)
  have "payments_inv payments u" using cis_payment_step_inv [OF Cons.prems(2) assms(3) u(1)] .
  from Cons.IH [OF u(2) this] cis_payment_step_InrD [OF u(1)] show ?case by auto
qed simp

section \<open>Rows\<close>

text \<open>What a reconciled statement says of its own numbers.\<close>

definition cis_row_ok :: "cis_row \<Rightarrow> bool" where
  "cis_row_ok r \<longleftrightarrow> pence (cx_deductionBase r) = pence (cx_paidNet r) - pence (cx_directMaterials r) \<and>
     0 \<le> pence (cx_cisDeduction r) \<and> pence (cx_cisDeduction r) \<le> pence (cx_deductionBase r) \<and>
     \<bar>100 * pence (cx_cisDeduction r) - cx_rateNumerator r * pence (cx_deductionBase r)\<bar> \<le> 50 \<and>
     pence (cx_expectedCash r) = pence (cx_paidNet r) + pence (cx_paidVat r) - pence (cx_cisDeduction r) \<and>
     pence (cx_unpaidCash r) - pence (cx_refundDue r) = pence (cx_expectedCash r) - pence (cx_actualCash r) \<and>
     (pence (cx_unpaidCash r) = 0 \<or> pence (cx_refundDue r) = 0) \<and> 0 \<le> pence (cx_unpaidCash r) \<and> 0 \<le> pence (cx_refundDue r) \<and>
     pence (cx_paidNet r) + pence (cx_unallocatedInvoiceNet r) = pence (cx_invoiceNet r) - pence (cx_retention r) \<and>
     pence (cx_paidVat r) + pence (cx_unallocatedInvoiceVat r) = pence (cx_vatToSupplier r) \<and>
     0 \<le> pence (cx_unallocatedInvoiceNet r) \<and> 0 \<le> pence (cx_unallocatedInvoiceVat r) \<and> 0 \<le> pence (cx_actualCash r)"

lemma cis_deduction_bounds:
  assumes "map_err C_range (multiplyRatio base (CIS_STATUS_MATRIX st) 100 Half_up) = Inr d" and "0 \<le> base"
  shows "0 \<le> d \<and> d \<le> base \<and> \<bar>100 * d - CIS_STATUS_MATRIX st * base\<bar> \<le> 50"
proof -
  have d: "d = round_div Half_up (base * CIS_STATUS_MATRIX st) 100"
    using assms(1) by (simp add: map_err_Inr_iff multiplyRatio_pos)
  have rate: "0 \<le> CIS_STATUS_MATRIX st" "CIS_STATUS_MATRIX st \<le> 100" by (cases st; simp)+
  then have "base * CIS_STATUS_MATRIX st \<le> base * 100" using assms(2) by (intro mult_left_mono)
  then have "d \<le> base" unfolding d by (intro rd.rnd_le) simp_all
  moreover have "0 \<le> d" unfolding d using assms(2) rate by (intro rd.rnd_nonneg) simp_all
  moreover have "\<bar>100 * d - CIS_STATUS_MATRIX st * base\<bar> \<le> 50"
    using round_div_nearest [of 100 "base * CIS_STATUS_MATRIX st" Half_up] unfolding d by (simp add: mult.commute abs_le_iff)
  ultimately show ?thesis by blast
qed

lemma cis_row_of_InrD:
  assumes "cis_row_of current v source profile deduction cash dD dE = Inr r"
  shows "cx_source r = current \<and> cx_rateNumerator r = CIS_STATUS_MATRIX (cv_status v) \<and> cx_invoiceNet r = vt_net (dr_cumulative source) \<and>
    cx_vatToSupplier r = vt_vatToSupplier (dr_cumulative source) \<and> cx_retention r = vt_retained (dr_cumulative source) \<and>
    cx_paidNet r = gbp (cs_cumulativePaidNetPence current) \<and> cx_directMaterials r = gbp (cs_cumulativeDirectMaterialsPence current) \<and>
    cx_paidVat r = gbp (cs_cumulativePaidVatPence current) \<and>
    cx_deductionBase r = gbp (cs_cumulativePaidNetPence current - cs_cumulativeDirectMaterialsPence current) \<and>
    cx_cisDeduction r = gbp deduction \<and>
    cx_expectedCash r = gbp (cs_cumulativePaidNetPence current + cs_cumulativePaidVatPence current - deduction) \<and>
    cx_actualCash r = gbp cash \<and>
    cx_unpaidCash r = gbp (if pence (cx_expectedCash r) > cash then pence (cx_expectedCash r) - cash else 0) \<and>
    cx_refundDue r = gbp (if cash > pence (cx_expectedCash r) then cash - pence (cx_expectedCash r) else 0) \<and>
    cx_unallocatedInvoiceVat r = gbp (pence (vt_vatToSupplier (dr_cumulative source)) - cs_cumulativePaidVatPence current) \<and>
    cx_unallocatedInvoiceNet r = gbp (pence (vt_net (dr_cumulative source)) - pence (vt_retained (dr_cumulative source)) - cs_cumulativePaidNetPence current) \<and>
    cx_deltaDeduction r = gbp dD \<and> cx_deltaExpectedCash r = gbp dE"
  using assms unfolding cis_row_of_def Let_def bind_r_Inr_iff sum.inject
  by (elim exE conjE, hypsubst) (simp only: cis_row.simps gbp_simps simp_thms)

text \<open>A statement step appends one sound row.\<close>

lemma cis_statement_step_InrD:
  assumes "cis_statement_step b vat vs ps s current = Inr t"
  shows "\<exists>v source profile d k row. map_of vs (cs_verificationId current) = Some v \<and>
    cs_cumulativeDirectMaterialsPence current \<le> cs_cumulativePaidNetPence current \<and>
    cs_cumulativePaidNetPence current \<le> pence (vt_net (dr_cumulative source)) - pence (vt_retained (dr_cumulative source)) \<and>
    cs_cumulativePaidVatPence current \<le> pence (vt_vatToSupplier (dr_cumulative source)) \<and>
    map_err C_range (multiplyRatio (cs_cumulativePaidNetPence current - cs_cumulativeDirectMaterialsPence current)
      (CIS_STATUS_MATRIX (cv_status v)) 100 Half_up) = Inr d \<and>
    fold_r (cis_payment_step ps v current) (ci_cash s) (cs_paymentRecordIds current) = Inr k \<and>
    cis_row_of current v source profile d (ck_cash k) (d - ci_priorDeduction s)
      (cs_cumulativePaidNetPence current + cs_cumulativePaidVatPence current - d - ci_priorExpected s) = Inr row \<and>
    ci_priorDeduction t = d \<and> ci_priorExpected t = cs_cumulativePaidNetPence current + cs_cumulativePaidVatPence current - d \<and>
    ci_cash t = k \<and> ci_rows t = ci_rows s @ [row]"
proof -
  obtain v where v: "map_of vs (cs_verificationId current) = Some v"
    using assms unfolding cis_statement_step_def Let_def by (auto split: option.splits if_splits)
  let ?net = "cs_cumulativePaidNetPence current" and ?mat = "cs_cumulativeDirectMaterialsPence current"
    and ?vat = "cs_cumulativePaidVatPence current"
  from assms obtain src where src: "cis_source_of b vat s current = Inr src"
    unfolding cis_statement_step_def Let_def v option.case if_Inl_Inr_iff bind_r_Inr_iff by (elim exE conjE)
  obtain n source profile where p: "src = (n, source, profile)" by (cases src)
  from assms obtain d k row where lim: "\<not> (?mat > ?net \<or> ?net > pence (vt_net (dr_cumulative source)) - pence (vt_retained (dr_cumulative source)) \<or>
      ?vat > pence (vt_vatToSupplier (dr_cumulative source)))"
    and d: "map_err C_range (multiplyRatio (?net - ?mat) (CIS_STATUS_MATRIX (cv_status v)) 100 Half_up) = Inr d"
    and k: "fold_r (cis_payment_step ps v current) (ci_cash s) (cs_paymentRecordIds current) = Inr k"
    and row: "cis_row_of current v source profile d (ck_cash k) (d - ci_priorDeduction s) (?net + ?vat - d - ci_priorExpected s) = Inr row"
    and t: "t = \<lparr>ci_previous = Some current, ci_previousVatIndex = n, ci_references = insert (cs_documentReference current) (ci_references s),
             ci_priorBase = ?net - ?mat, ci_priorDeduction = d, ci_priorExpected = ?net + ?vat - d, ci_cash = k,
             ci_rows = ci_rows s @ [row]\<rparr>"
    unfolding cis_statement_step_def Let_def v option.case if_Inl_Inr_iff src p bind_r_simps prod.case bind_r_Inr_iff sum.inject
    by (elim exE conjE) (rule that, assumption+, rule sym)
  show ?thesis using v lim d k row by (intro exI [of _ v] exI [of _ source] exI [of _ profile] exI [of _ d] exI [of _ k] exI [of _ row])
    (simp add: t not_less)
qed

section \<open>Whole books\<close>

definition used_ids :: "cis_row list \<Rightarrow> string list" where
  "used_ids rows = concat (map (\<lambda>r. cs_paymentRecordIds (cx_source r)) rows)"

definition cis_inv :: "(string \<times> cis_payment) list \<Rightarrow> cis_state \<Rightarrow> bool" where
  "cis_inv ps s \<longleftrightarrow> payments_inv ps (ci_cash s) \<and> ck_used (ci_cash s) = used_ids (ci_rows s) \<and>
     (\<forall>r\<in>set (ci_rows s). cis_row_ok r) \<and>
     sum_list (map (\<lambda>r. pence (cx_deltaDeduction r)) (ci_rows s)) = ci_priorDeduction s \<and>
     sum_list (map (\<lambda>r. pence (cx_deltaExpectedCash r)) (ci_rows s)) = ci_priorExpected s \<and>
     (ci_rows s \<noteq> [] \<longrightarrow> pence (cx_actualCash (last (ci_rows s))) = ck_cash (ci_cash s) \<and>
        pence (cx_cisDeduction (last (ci_rows s))) = ci_priorDeduction s \<and>
        pence (cx_expectedCash (last (ci_rows s))) = ci_priorExpected s)"

lemma cis_statement_step_inv:
  assumes inv: "cis_inv ps s" and keyed: "keyed_payments ps" and step: "cis_statement_step b vat vs ps s current = Inr t"
    and ok: "cis_statement_ok current"
  shows "cis_inv ps t"
proof -
  let ?net = "cs_cumulativePaidNetPence current" and ?mat = "cs_cumulativeDirectMaterialsPence current"
    and ?vat = "cs_cumulativePaidVatPence current"
  obtain v source profile d k row where v: "map_of vs (cs_verificationId current) = Some v" and
    lim: "?mat \<le> ?net" "?net \<le> pence (vt_net (dr_cumulative source)) - pence (vt_retained (dr_cumulative source))"
      "?vat \<le> pence (vt_vatToSupplier (dr_cumulative source))"
    and d: "map_err C_range (multiplyRatio (?net - ?mat) (CIS_STATUS_MATRIX (cv_status v)) 100 Half_up) = Inr d"
    and k: "fold_r (cis_payment_step ps v current) (ci_cash s) (cs_paymentRecordIds current) = Inr k"
    and row: "cis_row_of current v source profile d (ck_cash k) (d - ci_priorDeduction s) (?net + ?vat - d - ci_priorExpected s) = Inr row"
    and t: "ci_priorDeduction t = d" "ci_priorExpected t = ?net + ?vat - d" "ci_cash t = k" "ci_rows t = ci_rows s @ [row]"
    using cis_statement_step_InrD [OF step] by (elim exE conjE) (rule that)
  have pay: "payments_inv ps k" "ck_used k = ck_used (ci_cash s) @ cs_paymentRecordIds current"
    using cis_payment_fold [OF k _ keyed] inv by (auto simp: cis_inv_def)
  note r = cis_row_of_InrD [OF row]
  have "cis_row_ok row"
    using r lim payments_inv_nonneg [OF pay(1)] cis_deduction_bounds [OF d] by (simp add: cis_row_ok_def)
  then show ?thesis using inv pay r t by (simp add: cis_inv_def used_ids_def)
qed

lemma source_fold_distinct:
  "fold_r (source_step owner) ids rs = Inr ids' \<Longrightarrow> distinct (map fst rs) \<and> fst ` set rs \<inter> ids = {}"
proof (induction rs arbitrary: ids)
  case (Cons r rs)
  then obtain u where u: "source_step owner ids r = Inr u" "fold_r (source_step owner) u rs = Inr ids'" by (auto simp: bind_r_Inr_iff)
  then have "u = insert (fst r) ids" "fst r \<notin> ids" using source_step_def [of owner ids r] by (auto split: if_splits)
  with Cons.IH [OF u(2)] show ?case by auto
qed simp

lemma reconcileCisFixtures_InrD:
  assumes "reconcileCisFixtures b = Inr x"
  shows "\<exists>s. cis_inv (map (\<lambda>p. (cc_id p, p)) (cb_payments b)) s \<and> cr_statements x = ci_rows s \<and>
    length (ck_used (ci_cash s)) = length (cb_payments b) \<and> distinct (map cc_id (cb_payments b))"
proof -
  let ?ps = "map (\<lambda>p. (cc_id p, p)) (cb_payments b)" and ?vs = "map (\<lambda>v. (cc_id v, v)) (cb_verifications b)"
  from assms obtain vat s where ok: "cisFixtureBookV1 b" and src: "cis_sources b = Inr vat"
    and f: "fold_r (cis_statement_step b vat ?vs ?ps) cis_init (cb_statements b) = Inr s"
    and len: "length (ck_used (ci_cash s)) = length ?ps" and x: "cr_statements x = ci_rows s"
    unfolding reconcileCisFixtures_def Let_def by (auto simp: bind_r_Inr_iff if_Inl_Inr_iff)
  have keyed: "keyed_payments ?ps"
    using ok by (auto simp: keyed_payments_def cisFixtureBookV1_def cis_payment_ok_def pence_ok_def list_all_iff)
  have start: "cis_inv ?ps cis_init"
    using keyed map_of_SomeD by (fastforce simp: cis_inv_def cis_init_def payments_inv_def used_ids_def keyed_payments_def)
  have "cis_inv ?ps s"
  proof (rule fold_r_invariant [where I = "cis_inv ?ps", OF f start])
    fix t c u assume "c \<in> set (cb_statements b)" "cis_inv ?ps t" "cis_statement_step b vat ?vs ?ps t c = Inr u"
    moreover from this(1) have "cis_statement_ok c" using ok by (simp add: cisFixtureBookV1_def list_all_iff)
    ultimately show "cis_inv ?ps u" using cis_statement_step_inv keyed by blast
  qed
  moreover have "distinct (map cc_id (cb_payments b))"
  proof -
    from src obtain ids where "fold_r (source_step (cb_tenantId b, cb_jobId b)) {}
       (map source_key (cb_verifications b) @ map source_key (cb_payments b) @ map source_key (cb_statements b)) = Inr ids"
      unfolding cis_sources_def by (auto simp: bind_r_Inr_iff)
    from source_fold_distinct [OF this] show ?thesis by (simp add: source_key_def o_def)
  qed
  ultimately show ?thesis using x len by auto
qed

section \<open>Properties\<close>

text \<open>
  C34. Every reconciled CIS statement is arithmetically sound: the deduction base is paid net less
  direct materials, the deduction is between zero and the base and within half a penny of the
  status's rate, expected cash = paid net + paid VAT - deduction, unpaid less refund = expected less
  actual cash and never both positive, paid and unallocated amounts add up to the VAT document's
  limits, and the recorded movements add up to the latest cumulative deduction and expected cash.
\<close>

theorem cis_statements_sound:
  assumes "reconcileCisFixtures b = Inr x"
  shows "(\<forall>r\<in>set (cr_statements x). cis_row_ok r) \<and>
    (cr_statements x \<noteq> [] \<longrightarrow>
      sum_list (map (\<lambda>r. pence (cx_deltaDeduction r)) (cr_statements x)) = pence (cx_cisDeduction (last (cr_statements x))) \<and>
      sum_list (map (\<lambda>r. pence (cx_deltaExpectedCash r)) (cr_statements x)) = pence (cx_expectedCash (last (cr_statements x))))"
proof -
  obtain s where "cis_inv (map (\<lambda>p. (cc_id p, p)) (cb_payments b)) s" "cr_statements x = ci_rows s"
    using reconcileCisFixtures_InrD [OF assms] by blast
  then show ?thesis unfolding cis_inv_def by auto
qed

text \<open>
  C35. Cash is counted once: on success every payment record of the book is reconciled by exactly one
  statement, and the actual cash of the last statement is the sum of all payments less all reversals,
  which is never negative.
\<close>

theorem cis_cash_counted_once:
  assumes "reconcileCisFixtures b = Inr x" and "cr_statements x \<noteq> []"
  shows "distinct (used_ids (cr_statements x)) \<and> set (used_ids (cr_statements x)) = cc_id ` set (cb_payments b) \<and>
    pence (cx_actualCash (last (cr_statements x))) = sum_list (map signed_payment (cb_payments b)) \<and>
    0 \<le> sum_list (map signed_payment (cb_payments b))"
proof -
  let ?ps = "map (\<lambda>p. (cc_id p, p)) (cb_payments b)"
  obtain s where inv: "cis_inv ?ps s" and x: "cr_statements x = ci_rows s"
    and len: "length (ck_used (ci_cash s)) = length (cb_payments b)" and d: "distinct (map cc_id (cb_payments b))"
    using reconcileCisFixtures_InrD [OF assms(1)] by blast
  let ?U = "ck_used (ci_cash s)"
  have p: "payments_inv ?ps (ci_cash s)" "?U = used_ids (ci_rows s)"
    "pence (cx_actualCash (last (ci_rows s))) = ck_cash (ci_cash s)"
    using inv assms(2) x unfolding cis_inv_def by auto
  have u: "distinct ?U" "set ?U \<subseteq> fst ` set ?ps" "ck_cash (ci_cash s) = (\<Sum>i\<in>set ?U. signed_of ?ps i)"
    using p(1) unfolding payments_inv_def by blast+
  have keys: "fst ` set ?ps = cc_id ` set (cb_payments b)" by force
  have "card (set ?U) = card (cc_id ` set (cb_payments b))"
    using u(1) len d by (metis distinct_card length_map set_map)
  then have eq: "set ?U = cc_id ` set (cb_payments b)" using u(2) unfolding keys by (intro card_subset_eq) simp_all
  have "(\<Sum>i\<in>cc_id ` set (cb_payments b). signed_of ?ps i) = (\<Sum>q\<in>set (cb_payments b). signed_of ?ps (cc_id q))"
    using d by (subst sum.reindex) (simp_all add: distinct_map)
  also have "\<dots> = (\<Sum>q\<in>set (cb_payments b). signed_payment q)"
  proof (rule sum.cong [OF refl])
    fix q assume "q \<in> set (cb_payments b)"
    then have "map_of ?ps (cc_id q) = Some q" using d by (intro map_of_is_SomeI) (simp_all add: o_def)
    then show "signed_of ?ps (cc_id q) = signed_payment q" by (simp add: signed_of_def)
  qed
  also have "\<dots> = sum_list (map signed_payment (cb_payments b))"
    using d by (simp add: sum_list_distinct_conv_sum_set distinct_map)
  finally have "ck_cash (ci_cash s) = sum_list (map signed_payment (cb_payments b))" using u(3) eq by simp
  moreover have "0 \<le> ck_cash (ci_cash s)" using payments_inv_nonneg [OF p(1)] .
  ultimately show ?thesis using u(1) eq p(2,3) x by simp
qed

section \<open>The append command\<close>

definition extend_cis :: "cis_book \<Rightarrow> cis_statement \<Rightarrow> cis_book" where
  "extend_cis b r = b\<lparr>cb_statements := cb_statements b @ [r]\<rparr>"

lemma reconcileCisFixtures_sources:
  assumes "reconcileCisFixtures b = Inr x"
  shows "cisFixtureBookV1 b \<and> distinct (map cc_id (cb_payments b)) \<and> distinct (map cc_id (cb_statements b))"
proof -
  from assms obtain ids where ok: "cisFixtureBookV1 b" and "fold_r (source_step (cb_tenantId b, cb_jobId b)) {}
     (map source_key (cb_verifications b) @ map source_key (cb_payments b) @ map source_key (cb_statements b)) = Inr ids"
    unfolding reconcileCisFixtures_def cis_sources_def Let_def by (auto simp: bind_r_Inr_iff if_Inl_Inr_iff)
  with source_fold_distinct [OF this(2)] show ?thesis by (simp add: source_key_def o_def)
qed

lemma appendCisFixtureStatement_iff:
  "appendCisFixtureStatement b r = Inr b' \<longleftrightarrow> (\<exists>x. reconcileCisFixtures b = Inr x) \<and>
     (if r \<in> set (cb_statements b) then b' = b
      else cc_id r \<notin> cc_id ` set (cb_statements b) \<and> b' = extend_cis b r \<and> (\<exists>x. reconcileCisFixtures b' = Inr x))"
proof (cases "\<exists>x. reconcileCisFixtures b = Inr x")
  case False
  then show ?thesis by (auto simp: appendCisFixtureStatement_def bind_r_Inr_iff)
next
  case True
  then obtain x where x: "reconcileCisFixtures b = Inr x" by blast
  have recs: "\<forall>q\<in>set (cb_statements b). cis_statement_ok q" and d: "distinct (map cc_id (cb_statements b))"
    using reconcileCisFixtures_sources [OF x] by (auto simp: cisFixtureBookV1_def list_all_iff)
  show ?thesis
  proof (cases "find (\<lambda>item. cc_id item = cc_id r) (cb_statements b)")
    case None
    then have new: "cc_id r \<notin> cc_id ` set (cb_statements b)" by (auto simp: find_None_iff)
    then have out: "r \<notin> set (cb_statements b)" by blast
    have ok: "reconcileCisFixtures (extend_cis b r) = Inr y \<Longrightarrow> cis_statement_ok r" for y
      by (drule reconcileCisFixtures_sources) (simp add: extend_cis_def cisFixtureBookV1_def)
    show ?thesis using None new out x ok
      unfolding appendCisFixtureStatement_def extend_cis_def Let_def by (auto simp: bind_r_Inr_iff if_Inl_Inr_iff)
  next
    case (Some prior)
    then have p: "prior \<in> set (cb_statements b)" "cc_id prior = cc_id r" by (auto simp: find_Some_iff)
    then have "r \<in> set (cb_statements b) \<longleftrightarrow> r = prior" using d by (auto simp: distinct_map inj_on_def)
    moreover have "cc_id r \<in> cc_id ` set (cb_statements b)" using p by (metis image_eqI)
    moreover have "cis_statement_ok prior" using recs p(1) by blast
    ultimately show ?thesis using x Some unfolding appendCisFixtureStatement_def x bind_r_simps by auto
  qed
qed

interpretation cis_book: append_book reconcileCisFixtures cb_statements extend_cis appendCisFixtureStatement cc_id
proof unfold_locales
  fix b :: cis_book and x assume "reconcileCisFixtures b = Inr x"
  then show "distinct (map cc_id (cb_statements b))" using reconcileCisFixtures_sources by blast
qed (simp_all only: appendCisFixtureStatement_iff, simp add: extend_cis_def)

section \<open>An example book\<close>

definition cis_example :: cis_book where
  "cis_example =
    (let c = \<lambda>i. \<lparr>cc_id = i, cc_tenantId = ''t'', cc_jobId = ''j''\<rparr> in
     \<lparr>cb_tenantId = ''t'', cb_jobId = ''j'', cb_direction = Subcontractor_payment,
      cb_contractorReference = ''main'', cb_subcontractorReference = ''sub'',
      cb_vatBook = vat_example, cb_retentionBook = vat_ret_example,
      cb_verifications = [cis_context.extend (c ''v1'') (cis_verification.fields ''main'' ''sub'' Registered ''ev'' ''ref'' ''u'' ''2026-10-01'' ''2026-12-31'')],
      cb_payments = [cis_context.extend (c ''pay1'') (cis_payment.fields ''bank 1'' ''2026-10-12'' ''ev'' 10000 None),
        cis_context.extend (c ''pay2'') (cis_payment.fields ''bank 2'' ''2026-10-13'' ''ev'' 80 (Some ''pay1''))],
      cb_statements = [cis_context.extend (c ''s1'') (cis_statement.fields None Cis_payment None ''stmt 1'' ''2026-10-15'' ''2026-11-05''
        ''u'' ''dec'' ''calc'' ''v1'' ''d2'' ''p1'' 9600 1600 ''ev'' 1920 [''pay1'', ''pay2''])]\<rparr>)"

lemma cis_example_ok: "cisFixtureBookV1 cis_example"
  by (simp add: cis_example_def Let_def cisFixtureBookV1_def vat_example_ok vat_ret_example_ok cisVerificationFixtureV1_def
      cis_payment_ok_def cis_statement_ok_def vat_reference_ok_def pence_ok_def MAX_MONEY_PENCE_def
      cis_context.defs cis_verification.defs cis_payment.defs cis_statement.defs)

lemma cis_example_result: "\<exists>x. reconcileCisFixtures cis_example = Inr x \<and> cr_statements x \<noteq> []"
proof -
  have v: "validated_retention vat_ret_example = bind_r (project_retention vat_ret_example) (\<lambda>_. Inr vat_ret_example)"
    using vat_ret_example_ok by (simp add: validated_retention_def)
  have books: "cb_vatBook cis_example = vat_example" "cb_retentionBook cis_example = vat_ret_example"
    by (simp_all add: cis_example_def Let_def)
  have "(case reconcileCisFixtures cis_example of Inr x \<Rightarrow> cr_statements x \<noteq> [] | Inl _ \<Rightarrow> False) = True"
    unfolding reconcileCisFixtures_def cis_sources_def books reconcileVatRetentionFixtures_def reconcileVatTreatmentFixtures_def
      reconcileRetentionBook_def v
    by (simp only: cis_example_ok vat_example_ok vat_ret_example_ok not_True_eq_False if_False) code_simp
  then show ?thesis by (auto split: sum.splits)
qed

theorem cis_statements_sound_witness:
  "\<exists>x. reconcileCisFixtures cis_example = Inr x \<and> cr_statements x \<noteq> [] \<and> (\<forall>r\<in>set (cr_statements x). cis_row_ok r)"
  using cis_example_result cis_statements_sound [of cis_example] by blast

theorem cis_cash_counted_once_witness:
  "\<exists>x. reconcileCisFixtures cis_example = Inr x \<and> pence (cx_actualCash (last (cr_statements x))) = 9920"
proof -
  obtain x where x: "reconcileCisFixtures cis_example = Inr x" "cr_statements x \<noteq> []" using cis_example_result by blast
  have "sum_list (map signed_payment (cb_payments cis_example)) = 9920" by code_simp
  with cis_cash_counted_once [OF x] x(1) show ?thesis by auto
qed

end
