(* ===== verification/Event_Machine.thy ===== *)
theory Event_Machine
  imports Jobguard_Prelude
begin

text \<open>
  Objects of the source that are driven by a sequence of calls: a call either throws, and then
  leaves the object as it was, or returns a value and a new state. \<open>after\<close> is the state a call
  leaves behind, \<open>run_events\<close> the state after a sequence of calls. The locale \<open>kept_machine\<close> is the
  contract of an invariant, \<open>latched_machine\<close> extends it by a condition that, once true, stays true,
  \<open>monotone_lifecycle\<close> is the contract of a lifecycle with a rank and terminal states. Each is
  interpreted on the code's models.
\<close>

definition after :: "('s \<Rightarrow> 'c \<Rightarrow> 'e + ('s \<times> 'r)) \<Rightarrow> 's \<Rightarrow> 'c \<Rightarrow> 's" where
  "after call s c = (case call s c of Inl e \<Rightarrow> s | Inr (s', r) \<Rightarrow> s')"

definition run_events :: "('s \<Rightarrow> 'c \<Rightarrow> 'e + ('s \<times> 'r)) \<Rightarrow> 's \<Rightarrow> 'c list \<Rightarrow> 's" where
  "run_events call s cs = foldl (after call) s cs"

lemma run_events_simps [simp]:
  "run_events call s [] = s" "run_events call s (c # cs) = run_events call (after call s c) cs"
  by (simp_all add: run_events_def)

lemma run_events_append: "run_events call s (cs @ ds) = run_events call (run_events call s cs) ds"
  by (simp add: run_events_def)

lemma after_cases:
  obtains "after call s c = s" | s' r where "call s c = Inr (s', r)" "after call s c = s'"
  by (cases "call s c") (auto simp: after_def split: prod.splits)

section \<open>Invariants of an object\<close>

locale kept_machine =
  fixes call :: "'s \<Rightarrow> 'c \<Rightarrow> 'e + ('s \<times> 'r)" and I :: "'s \<Rightarrow> bool"
  assumes call_keeps: "I s \<Longrightarrow> call s c = Inr (s', r) \<Longrightarrow> I s'"
begin

lemma after_keeps: "I s \<Longrightarrow> I (after call s c)"
  by (cases rule: after_cases [of call s c]) (simp_all add: call_keeps)

lemma run_keeps: "I s \<Longrightarrow> I (run_events call s cs)"
  by (induction cs arbitrary: s) (simp_all add: after_keeps)

end

locale latched_machine = kept_machine +
  fixes latch :: "'s \<Rightarrow> bool"
  assumes call_latched: "I s \<Longrightarrow> latch s \<Longrightarrow> call s c = Inr (s', r) \<Longrightarrow> latch s'"
begin

lemma after_latched: "I s \<Longrightarrow> latch s \<Longrightarrow> latch (after call s c)"
  by (cases rule: after_cases [of call s c]) (simp_all add: call_latched)

lemma run_latched: "I s \<Longrightarrow> latch s \<Longrightarrow> latch (run_events call s cs)"
  by (induction cs arbitrary: s) (simp_all add: after_keeps after_latched)

end

section \<open>Lifecycles\<close>

text \<open>
  \<open>advance old reported\<close> is the state after a report. A final state ignores every report; any
  other state is left only for a final one or for one of a higher rank.
\<close>

locale monotone_lifecycle =
  fixes advance :: "'st \<Rightarrow> 'ev \<Rightarrow> 'st" and at :: "'ev \<Rightarrow> 'st"
    and final :: "'st \<Rightarrow> bool" and rank :: "'st \<Rightarrow> nat"
  assumes final_absorbs: "final s \<Longrightarrow> advance s t = s"
    and advance_to: "advance s t = s \<or> advance s t = at t"
    and advance_up: "advance s t \<noteq> s \<Longrightarrow> final (at t) \<or> rank s < rank (at t)"
begin

lemma final_stays: "final s \<Longrightarrow> foldl advance s ts = s"
  by (induction ts) (simp_all add: final_absorbs)

lemma reported: "foldl advance s ts \<in> insert s (at ` set ts)"
proof (induction ts rule: rev_induct)
  case (snoc t ts)
  then show ?case using advance_to [of "foldl advance s ts" t] by auto
qed simp

lemma rank_grows: "\<not> final (foldl advance s ts) \<Longrightarrow> rank s \<le> rank (foldl advance s ts)"
proof (induction ts rule: rev_induct)
  case (snoc t ts)
  let ?m = "foldl advance s ts"
  have "\<not> final ?m" using snoc.prems final_absorbs by (cases "final ?m") auto
  then have m: "rank s \<le> rank ?m" by (rule snoc.IH)
  show ?case
  proof (cases "advance ?m t = ?m")
    case False
    then have "advance ?m t = at t" using advance_to by blast
    with snoc.prems advance_up [OF False] m show ?thesis by simp
  qed (simp add: m)
qed simp

text \<open>A report of a lower rank that is not final changes nothing, nor does a repeated report.\<close>

lemma stale_ignored: "rank (at t) \<le> rank s \<Longrightarrow> \<not> final (at t) \<Longrightarrow> advance s t = s"
  using advance_up [of s t] by auto

lemma advance_idem: "advance (advance s t) t = advance s t"
  using advance_to [of s t] advance_to [of "at t" t] advance_to [of "advance s t" t] by auto

lemma redelivered: "foldl advance s (ts @ [t, t]) = foldl advance s (ts @ [t])"
  by (simp add: advance_idem)

end

end
