(* ===== verification/Direct_Debit.thy ===== *)
theory Direct_Debit
  imports Event_Machine
begin

text \<open>
  The direct debit lifecycles of \<^verbatim>\<open>direct-debit-lifecycle.ts\<close>: the reports of a provider may
  come late, twice or out of order, and \<open>directDebitMandateNext\<close> and \<open>directDebitPaymentNext\<close>
  decide what each one changes. Both are instances of the locale \<open>monotone_lifecycle\<close>; the main
  theorem computes the outcome of any sequence of reports.
\<close>

datatype mandate_state = Man_created | Man_pending_submission | Man_active |
  Man_cancelled | Man_failed | Man_expired

datatype payment_state = Pay_pending_submission | Pay_submitted | Pay_confirmed | Pay_paid_out |
  Pay_failed | Pay_cancelled | Pay_charged_back | Pay_late_failure

definition directDebitMandateOrder :: "mandate_state list" where
  "directDebitMandateOrder = [Man_created, Man_pending_submission, Man_active]"

definition directDebitMandateTerminal :: "mandate_state list" where
  "directDebitMandateTerminal = [Man_cancelled, Man_failed, Man_expired]"

definition directDebitPaymentOrder :: "payment_state list" where
  "directDebitPaymentOrder = [Pay_pending_submission, Pay_submitted, Pay_confirmed, Pay_paid_out]"

definition directDebitPaymentTerminal :: "payment_state list" where
  "directDebitPaymentTerminal = [Pay_failed, Pay_cancelled, Pay_charged_back, Pay_late_failure]"

text \<open>\<^verbatim>\<open>Array.prototype.indexOf\<close>: minus one when the element does not occur.\<close>

fun index_of :: "'a list \<Rightarrow> 'a \<Rightarrow> int" where
  "index_of [] x = - 1"
| "index_of (y # ys) x = (if y = x then 0 else (let i = index_of ys x in if i < 0 then i else i + 1))"

definition directDebitMandateNext :: "mandate_state \<Rightarrow> mandate_state \<Rightarrow> mandate_state" where
  "directDebitMandateNext old next =
     (if old \<notin> set directDebitMandateTerminal \<and>
         (next \<in> set directDebitMandateTerminal \<or>
          index_of directDebitMandateOrder next > index_of directDebitMandateOrder old)
      then next else old)"

definition directDebitPaymentNext :: "payment_state option \<Rightarrow> payment_state \<Rightarrow> payment_state" where
  "directDebitPaymentNext old next =
     (case old of
        None \<Rightarrow> next
      | Some s \<Rightarrow>
        if s = Pay_charged_back \<or> s = Pay_late_failure then s
        else if next = Pay_charged_back \<or> next = Pay_late_failure then next
        else if s \<in> set directDebitPaymentTerminal then s
        else if next \<in> set directDebitPaymentTerminal \<or>
                index_of directDebitPaymentOrder next > index_of directDebitPaymentOrder s
             then next else s)"

lemmas lifecycle_tables = directDebitMandateOrder_def directDebitMandateTerminal_def
  directDebitPaymentOrder_def directDebitPaymentTerminal_def

text \<open>The same two functions as finite tables, for case analysis.\<close>

lemma mandate_next_table: "directDebitMandateNext old next =
    (case old of Man_created \<Rightarrow> next
     | Man_pending_submission \<Rightarrow> (if next = Man_created then old else next)
     | Man_active \<Rightarrow> (if next = Man_created \<or> next = Man_pending_submission then old else next)
     | _ \<Rightarrow> old)"
  by (cases old; cases "next") (simp_all add: directDebitMandateNext_def lifecycle_tables)

definition payment_stage :: "payment_state \<Rightarrow> nat" where
  "payment_stage s = (case s of Pay_pending_submission \<Rightarrow> 1 | Pay_submitted \<Rightarrow> 2 | Pay_confirmed \<Rightarrow> 3 |
     Pay_paid_out \<Rightarrow> 4 | Pay_failed \<Rightarrow> 5 | Pay_cancelled \<Rightarrow> 5 | _ \<Rightarrow> 6)"

definition mandate_stage :: "mandate_state \<Rightarrow> nat" where
  "mandate_stage s = (case s of Man_created \<Rightarrow> 0 | Man_pending_submission \<Rightarrow> 1 | Man_active \<Rightarrow> 2 | _ \<Rightarrow> 3)"

lemma payment_next_table: "directDebitPaymentNext (Some old) next =
    (if payment_stage next > payment_stage old then next else old)"
  by (cases old; cases "next") (simp_all add: directDebitPaymentNext_def lifecycle_tables payment_stage_def)

lemma mandate_next_stage: "directDebitMandateNext old next =
    (if mandate_stage next > mandate_stage old then next else old)"
  by (cases old; cases "next") (simp_all add: mandate_next_table mandate_stage_def)

section \<open>The contract\<close>

definition payment_after :: "payment_state option \<Rightarrow> payment_state \<Rightarrow> payment_state option" where
  "payment_after old next = Some (directDebitPaymentNext old next)"

interpretation mandate_life: monotone_lifecycle directDebitMandateNext id
  "\<lambda>s. s \<in> set directDebitMandateTerminal" mandate_stage
  by unfold_locales (auto simp: mandate_next_stage mandate_stage_def directDebitMandateTerminal_def
    split: if_splits mandate_state.splits)

definition payment_rank :: "payment_state option \<Rightarrow> nat" where
  "payment_rank s = (case s of None \<Rightarrow> 0 | Some p \<Rightarrow> payment_stage p)"

interpretation payment_life: monotone_lifecycle payment_after Some
  "\<lambda>s. s = Some Pay_charged_back \<or> s = Some Pay_late_failure" payment_rank
proof unfold_locales
  fix s t
  show "s = Some Pay_charged_back \<or> s = Some Pay_late_failure \<Longrightarrow> payment_after s t = s"
    by (auto simp: payment_after_def payment_next_table payment_stage_def split: payment_state.split)
  show "payment_after s t = s \<or> payment_after s t = Some t"
    by (cases s) (simp_all add: payment_after_def payment_next_table, simp add: directDebitPaymentNext_def)
  show "payment_after s t \<noteq> s \<Longrightarrow> (Some t = Some Pay_charged_back \<or> Some t = Some Pay_late_failure) \<or>
      payment_rank s < payment_rank (Some t)"
    by (cases s) (auto simp: payment_after_def payment_rank_def payment_next_table payment_stage_def
      split: if_splits payment_state.splits)
qed

section \<open>The outcome of a sequence of reports\<close>

text \<open>The reference: the first report of the furthest stage.\<close>

definition furthest :: "('a \<Rightarrow> nat) \<Rightarrow> 'a list \<Rightarrow> 'a" where
  "furthest stage ts = hd (filter (\<lambda>t. \<forall>u\<in>set ts. stage u \<le> stage t) ts)"

definition keep_further :: "('a \<Rightarrow> nat) \<Rightarrow> 'a \<Rightarrow> 'a \<Rightarrow> 'a" where
  "keep_further stage s t = (if stage t > stage s then t else s)"

lemma furthest_Cons_Cons: "furthest stage (s # t # ts) = furthest stage (keep_further stage s t # ts)"
proof (cases "stage s < stage t")
  case True
  then show ?thesis by (auto simp: furthest_def keep_further_def intro!: arg_cong [of _ _ hd] filter_cong)
next
  case False
  let ?P = "\<lambda>x. stage s \<le> stage x \<and> (\<forall>u\<in>set ts. stage u \<le> stage x)"
  have P: "filter (\<lambda>x. \<forall>u\<in>set (s # t # ts). stage u \<le> stage x) = filter ?P"
    using False by (auto simp: fun_eq_iff intro!: filter_cong)
  have Q: "filter (\<lambda>x. \<forall>u\<in>set (s # ts). stage u \<le> stage x) = filter ?P" by (auto simp: fun_eq_iff)
  have "hd (filter ?P (s # t # ts)) = hd (filter ?P (s # ts))"
  proof (cases "?P s")
    case no: False
    then obtain u where "u \<in> set ts" "\<not> stage u \<le> stage s" by auto
    with False have "\<not> ?P t" by (auto intro!: bexI [of _ u])
    with no show ?thesis by (simp only: filter.simps if_False)
  qed simp
  with False show ?thesis by (simp only: furthest_def P Q keep_further_def if_False)
qed

lemma furthest_fold: "foldl (keep_further stage) s ts = furthest stage (s # ts)"
proof (induction ts arbitrary: s)
  case (Cons t ts)
  then show ?case by (simp add: furthest_Cons_Cons)
qed (simp add: furthest_def)

lemma furthest_stage: "ts \<noteq> [] \<Longrightarrow> furthest stage ts \<in> set ts \<and> (\<forall>u\<in>set ts. stage u \<le> stage (furthest stage ts))"
proof -
  assume "ts \<noteq> []"
  then have "Max (stage ` set ts) \<in> stage ` set ts" by (intro Max_in) simp_all
  then obtain m where m: "m \<in> set ts" "stage m = Max (stage ` set ts)" by auto
  then have "m \<in> set (filter (\<lambda>t. \<forall>u\<in>set ts. stage u \<le> stage t) ts)" by simp
  then have "filter (\<lambda>t. \<forall>u\<in>set ts. stage u \<le> stage t) ts \<noteq> []" by force
  from hd_in_set [OF this] show ?thesis by (auto simp: furthest_def)
qed

lemma furthest_order: "set us = set ts \<Longrightarrow> ts \<noteq> [] \<Longrightarrow> stage (furthest stage us) = stage (furthest stage ts)"
proof -
  assume "set us = set ts" and ts: "ts \<noteq> []"
  then have us: "us \<noteq> []" by auto
  show ?thesis
    using furthest_stage [OF ts, of stage] furthest_stage [OF us, of stage] \<open>set us = set ts\<close>
    by (simp add: antisym)
qed

lemma mandate_next_keep: "directDebitMandateNext = keep_further mandate_stage"
  by (simp add: fun_eq_iff mandate_next_stage keep_further_def)

lemma payment_after_None: "payment_after None p = Some p"
  by (simp add: payment_after_def directDebitPaymentNext_def)

lemma payment_after_fold: "foldl payment_after (Some p) ts = Some (furthest payment_stage (p # ts))"
proof -
  have "foldl payment_after (Some p) ts = Some (foldl (keep_further payment_stage) p ts)"
    by (induction ts arbitrary: p) (auto simp: payment_after_def payment_next_table keep_further_def)
  then show ?thesis by (simp add: furthest_fold)
qed

text \<open>
  C13. Whatever reports a provider delivers, in whatever order and however often, a mandate and a
  payment end in the first report of the furthest stage: a mandate at the first terminal report if
  there is one and otherwise at the furthest step of created, pending submission, active; a payment
  at the first chargeback or late failure if there is one, otherwise at the first failure or
  cancellation, otherwise at the furthest step of its order. So the stage reached does not depend on
  the order of the reports, and delivering the reports again changes nothing.
\<close>

theorem directDebit_outcome:
  shows "foldl directDebitMandateNext m ms = furthest mandate_stage (m # ms) \<and>
    foldl payment_after None (p # ps) = Some (furthest payment_stage (p # ps)) \<and>
    (set ms' = set ms \<longrightarrow>
      mandate_stage (foldl directDebitMandateNext m ms') = mandate_stage (foldl directDebitMandateNext m ms)) \<and>
    (set qs = set (p # ps) \<longrightarrow>
      map_option payment_stage (foldl payment_after None qs) = map_option payment_stage (foldl payment_after None (p # ps))) \<and>
    foldl directDebitMandateNext m (ms @ ms) = foldl directDebitMandateNext m ms \<and>
    foldl payment_after None ((p # ps) @ (p # ps)) = foldl payment_after None (p # ps)"
proof -
  have first: "foldl payment_after None (q # qs) = Some (furthest payment_stage (q # qs))" for q qs
    by (simp add: payment_after_None payment_after_fold)
  have again: "foldl (keep_further stage) s (ts @ ts) = foldl (keep_further stage) s ts"
    for stage :: "'b \<Rightarrow> nat" and s ts
  proof -
    let ?f = "furthest stage (s # ts)"
    have max: "\<forall>u\<in>set ts. stage u \<le> stage ?f" using furthest_stage [of "s # ts" stage] by simp
    have "foldl (keep_further stage) ?f us = ?f" if "set us \<subseteq> set ts" for us
      using that max by (induction us) (auto simp: keep_further_def not_less)
    from this [of ts] show ?thesis by (simp add: furthest_fold)
  qed
  have a: "foldl directDebitMandateNext m ms = furthest mandate_stage (m # ms)"
    by (simp add: mandate_next_keep furthest_fold)
  have b: "foldl payment_after None (p # ps) = Some (furthest payment_stage (p # ps))" by (rule first)
  have c: "mandate_stage (foldl directDebitMandateNext m ms') = mandate_stage (foldl directDebitMandateNext m ms)"
    if "set ms' = set ms"
    using furthest_order [of "m # ms'" "m # ms" mandate_stage] that by (simp add: mandate_next_keep furthest_fold)
  have d: "map_option payment_stage (foldl payment_after None qs) = map_option payment_stage (foldl payment_after None (p # ps))"
    if qs: "set qs = set (p # ps)"
  proof -
    obtain q qs' where "qs = q # qs'" using qs by (cases qs) auto
    with qs furthest_order [of qs "p # ps" payment_stage] show ?thesis by (simp only: first) simp
  qed
  have e: "foldl directDebitMandateNext m (ms @ ms) = foldl directDebitMandateNext m ms"
    by (simp only: mandate_next_keep again)
  have "foldl payment_after (Some r) ts = Some (foldl (keep_further payment_stage) r ts)" for r ts
    by (simp add: payment_after_fold furthest_fold)
  then have "foldl payment_after None ((p # ps) @ (p # ps)) = Some (foldl (keep_further payment_stage) p (ps @ p # ps))"
    by (simp add: payment_after_None del: foldl_append)
  also have "foldl (keep_further payment_stage) p (ps @ p # ps) = foldl (keep_further payment_stage) p ps"
    using again [of payment_stage p "p # ps"] by (simp add: keep_further_def)
  also have "\<dots> = furthest payment_stage (p # ps)" by (rule furthest_fold)
  finally have f: "foldl payment_after None ((p # ps) @ (p # ps)) = foldl payment_after None (p # ps)" by (simp only: first)
  show ?thesis using a b c d e f by blast
qed

theorem directDebit_outcome_witness:
  "mandate_stage (foldl directDebitMandateNext Man_created [Man_active, Man_failed, Man_created]) = 3 \<and>
   foldl payment_after None [Pay_confirmed, Pay_submitted] = Some Pay_confirmed"
proof
  have "mandate_stage (foldl directDebitMandateNext Man_created [Man_active, Man_failed, Man_created]) =
      mandate_stage (foldl directDebitMandateNext Man_created [Man_created, Man_failed, Man_active])"
    by (rule directDebit_outcome [THEN conjunct2, THEN conjunct2, THEN conjunct1, THEN mp]) auto
  then show "mandate_stage (foldl directDebitMandateNext Man_created [Man_active, Man_failed, Man_created]) = 3"
    by (simp add: mandate_next_table mandate_stage_def)
  show "foldl payment_after None [Pay_confirmed, Pay_submitted] = Some Pay_confirmed"
    by (simp only: directDebit_outcome [THEN conjunct2, THEN conjunct1]) (simp add: furthest_def payment_stage_def)
qed

end
