(* ===== verification/Schemas.thy ===== *)
theory Schemas
  imports Append_Book
begin

text \<open>
  The scalar schemas that several modules of the core repeat: safe counters and revisions, SHA-256
  texts, and the character classes of their regular expressions.
\<close>

definition MAX_SAFE :: int where
  "MAX_SAFE = 2 ^ 53 - 1"

text \<open>\<^verbatim>\<open>z.number().int().nonnegative().safe()\<close> and \<^verbatim>\<open>z.number().int().positive().safe()\<close>.\<close>

definition counter_ok :: "int \<Rightarrow> bool" where
  "counter_ok n \<longleftrightarrow> 0 \<le> n \<and> n \<le> MAX_SAFE"

definition revision_safe :: "int \<Rightarrow> bool" where
  "revision_safe n \<longleftrightarrow> 0 < n \<and> n \<le> MAX_SAFE"

definition hex_digit :: "char \<Rightarrow> bool" where
  "hex_digit c \<longleftrightarrow> (CHR ''a'' \<le> c \<and> c \<le> CHR ''f'') \<or> (CHR ''0'' \<le> c \<and> c \<le> CHR ''9'')"

text \<open>The regular expression \<^verbatim>\<open>/^[a-f0-9]{64}$/u\<close>.\<close>

definition sha_text :: "string \<Rightarrow> bool" where
  "sha_text s \<longleftrightarrow> length s = 64 \<and> list_all hex_digit s"

definition alphanumeric :: "char \<Rightarrow> bool" where
  "alphanumeric c \<longleftrightarrow> (CHR ''A'' \<le> c \<and> c \<le> CHR ''Z'') \<or> (CHR ''a'' \<le> c \<and> c \<le> CHR ''z'') \<or>
     (CHR ''0'' \<le> c \<and> c \<le> CHR ''9'')"

fun split_at :: "char \<Rightarrow> string \<Rightarrow> string list" where
  "split_at d [] = [[]]"
| "split_at d (c # cs) = (if c = d then [] # split_at d cs
     else (case split_at d cs of [] \<Rightarrow> [[c]] | w # ws \<Rightarrow> (c # w) # ws))"

definition sample_hash :: string where
  "sample_hash = replicate 64 CHR ''a''"

lemma sample_hash_ok [simp]: "sha_text sample_hash"
  by code_simp

end
