(* ===== verification/Fee_Collection.thy ===== *)
theory Fee_Collection
  imports Schemas Event_Machine
begin

text \<open>
  The fee collection reference of \<^verbatim>\<open>fee-collection.ts\<close>: the transition table of an attempt,
  the check of a set of attempts, the capacity projection and the amount that may still be refunded
  of one collection. The main theorems show that the projection balances and that a refund or
  collection within the computed capacity keeps the reference valid.
\<close>

datatype fee_collection_error = Fc_invalid_reference | Fc_identity_conflict | Fc_invalid_transition

datatype fee_state = Fs_pending | Fs_accepted | Fs_outcome_unknown | Fs_definite_failure | Fs_settled

datatype fee_kind = Fk_collection | Fk_refund

record fee_attempt =
  fa_id :: string
  fa_effectKey :: string
  fa_kind :: fee_kind
  fa_state :: fee_state
  fa_principal :: int
  fa_originalCollectionId :: "string option"

record fee_reference =
  fr_currentFeePrincipal :: int
  fr_attempts :: "fee_attempt list"

section \<open>Schemas\<close>

definition fee_key_ok :: "string \<Rightarrow> bool" where
  "fee_key_ok k \<longleftrightarrow> 1 \<le> length k \<and> length k \<le> 200"

definition fee_principal_ok :: "int \<Rightarrow> bool" where
  "fee_principal_ok p \<longleftrightarrow> 0 \<le> p \<and> p \<le> MAX_MONEY_PENCE"

definition fee_attempt_ok :: "fee_attempt \<Rightarrow> bool" where
  "fee_attempt_ok a \<longleftrightarrow> fee_key_ok (fa_id a) \<and> fee_key_ok (fa_effectKey a) \<and>
     fee_principal_ok (fa_principal a) \<and> fa_principal a > 0 \<and>
     (case fa_originalCollectionId a of None \<Rightarrow> True | Some k \<Rightarrow> fee_key_ok k) \<and>
     (fa_kind a = Fk_collection) = (fa_originalCollectionId a = None)"

definition feeCollectionReferenceV1 :: "fee_reference \<Rightarrow> bool" where
  "feeCollectionReferenceV1 r \<longleftrightarrow> fee_principal_ok (fr_currentFeePrincipal r) \<and>
     list_all fee_attempt_ok (fr_attempts r) \<and> length (fr_attempts r) \<le> 10000"

record fee_identity =
  fi_tenantId :: string
  fi_jobId :: string
  fi_actorId :: string
  fi_commandId :: string
  fi_payloadHash :: string

definition compareFeeCollectionIdentity :: "fee_identity \<Rightarrow> fee_identity \<Rightarrow> fee_collection_error + bool" where
  "compareFeeCollectionIdentity a b =
     (if \<not> sha_text (fi_payloadHash a) \<or> \<not> sha_text (fi_payloadHash b) then Inl Fc_invalid_reference
      else Inr (fi_tenantId a = fi_tenantId b \<and> fi_jobId a = fi_jobId b \<and> fi_actorId a = fi_actorId b \<and>
        fi_commandId a = fi_commandId b \<and> fi_payloadHash a = fi_payloadHash b))"

section \<open>The transition table\<close>

fun fee_transitions :: "fee_state \<Rightarrow> fee_state list" where
  "fee_transitions Fs_pending = [Fs_pending, Fs_accepted, Fs_outcome_unknown, Fs_definite_failure, Fs_settled]"
| "fee_transitions Fs_accepted = [Fs_accepted, Fs_outcome_unknown, Fs_definite_failure, Fs_settled]"
| "fee_transitions Fs_outcome_unknown = [Fs_outcome_unknown, Fs_definite_failure, Fs_settled]"
| "fee_transitions Fs_definite_failure = [Fs_definite_failure]"
| "fee_transitions Fs_settled = [Fs_settled]"

definition checkFeeCollectionTransition :: "fee_state \<Rightarrow> fee_state \<Rightarrow> fee_collection_error + fee_state" where
  "checkFeeCollectionTransition a b = (if b \<in> set (fee_transitions a) then Inr b else Inl Fc_invalid_transition)"

definition fee_active :: "fee_state \<Rightarrow> bool" where
  "fee_active s \<longleftrightarrow> s = Fs_pending \<or> s = Fs_accepted \<or> s = Fs_outcome_unknown"

text \<open>
  The table as a lifecycle: a definite outcome is final, and every accepted change of an open
  attempt moves it on.
\<close>

definition fee_stage :: "fee_state \<Rightarrow> nat" where
  "fee_stage s = (case s of Fs_pending \<Rightarrow> 0 | Fs_accepted \<Rightarrow> 1 | Fs_outcome_unknown \<Rightarrow> 2 | _ \<Rightarrow> 3)"

definition fee_advance :: "fee_state \<Rightarrow> fee_state \<Rightarrow> fee_state" where
  "fee_advance a b = (case checkFeeCollectionTransition a b of Inl e \<Rightarrow> a | Inr s \<Rightarrow> s)"

interpretation fee_life: monotone_lifecycle fee_advance id
  "\<lambda>s. s = Fs_settled \<or> s = Fs_definite_failure" fee_stage
proof unfold_locales
  fix s t
  show "s = Fs_settled \<or> s = Fs_definite_failure \<Longrightarrow> fee_advance s t = s"
    by (auto simp: fee_advance_def checkFeeCollectionTransition_def)
  show "fee_advance s t = s \<or> fee_advance s t = id t"
    by (simp add: fee_advance_def checkFeeCollectionTransition_def)
  show "fee_advance s t \<noteq> s \<Longrightarrow> (id t = Fs_settled \<or> id t = Fs_definite_failure) \<or> fee_stage s < fee_stage (id t)"
    by (cases s; cases t) (simp_all add: fee_advance_def checkFeeCollectionTransition_def fee_stage_def)
qed

section \<open>The reference\<close>

definition big_positive :: "int \<Rightarrow> int" where
  "big_positive n = (if n > 0 then n else 0)"

definition lesser :: "int \<Rightarrow> int \<Rightarrow> int" where
  "lesser a b = (if a < b then a else b)"

definition principals :: "(fee_attempt \<Rightarrow> bool) \<Rightarrow> fee_attempt list \<Rightarrow> int" where
  "principals P as = sum_list (map fa_principal (filter P as))"

definition fee_by_id :: "fee_attempt list \<Rightarrow> string \<Rightarrow> fee_attempt option" where
  "fee_by_id as = map_of (map (\<lambda>a. (fa_id a, a)) as)"

definition refund_source_ok :: "fee_attempt list \<Rightarrow> fee_attempt \<Rightarrow> bool" where
  "refund_source_ok as a =
     (case fa_originalCollectionId a of None \<Rightarrow> False
      | Some k \<Rightarrow> (case fee_by_id as k of None \<Rightarrow> False
          | Some original \<Rightarrow> fa_kind original = Fk_collection \<and> fa_state original = Fs_settled))"

definition allocated_to :: "fee_attempt list \<Rightarrow> string \<Rightarrow> int" where
  "allocated_to as k = principals (\<lambda>a. fa_originalCollectionId a = Some k \<and>
     (fa_state a = Fs_settled \<or> fee_active (fa_state a))) as"

definition fee_checked :: "fee_reference \<Rightarrow> fee_collection_error + fee_reference" where
  "fee_checked r =
     (let as = fr_attempts r in
      if \<not> feeCollectionReferenceV1 r then Inl Fc_invalid_reference
      else if \<not> distinct (map fa_id as) \<or> \<not> distinct (map fa_effectKey as) then Inl Fc_identity_conflict
      else if list_ex (\<lambda>a. fa_kind a = Fk_refund \<and> \<not> refund_source_ok as a) as then Inl Fc_invalid_reference
      else if list_ex (\<lambda>a. fa_kind a = Fk_collection \<and> allocated_to as (fa_id a) > fa_principal a) as
        then Inl Fc_invalid_reference
      else Inr r)"

definition outputMoney :: "int \<Rightarrow> fee_collection_error + int" where
  "outputMoney v = money_sum (\<lambda>_. Fc_invalid_reference) [v]"

record fee_projection =
  fp_settled :: int
  fp_refunded :: int
  fp_retained :: int
  fp_outstanding :: int
  fp_refundDue :: int
  fp_collectionReserved :: int
  fp_refundReserved :: int
  fp_capacity :: int
  fp_unknownOutcome :: bool

definition fee_total :: "fee_attempt list \<Rightarrow> fee_kind \<Rightarrow> bool \<Rightarrow> int" where
  "fee_total as kind reserved = principals (\<lambda>a. fa_kind a = kind \<and>
     (if reserved then fee_active (fa_state a) else fa_state a = Fs_settled)) as"

definition projectFeeCollectionReference :: "fee_reference \<Rightarrow> fee_collection_error + fee_projection" where
  "projectFeeCollectionReference raw = bind_r (fee_checked raw) (\<lambda>input.
     let as = fr_attempts input;
         C = fee_total as Fk_collection False; R = fee_total as Fk_refund False;
         collectionReserved = fee_total as Fk_collection True; refundReserved = fee_total as Fk_refund True;
         retained = C - R; B = fr_currentFeePrincipal input;
         outstanding = big_positive (B - retained); due = big_positive (retained - B);
         unknownOutcome = list_ex (\<lambda>a. fa_state a = Fs_outcome_unknown) as;
         capacity = (if unknownOutcome then 0 else big_positive (outstanding - collectionReserved))
     in bind_r (map_r outputMoney [C, R, retained, outstanding, due, collectionReserved, refundReserved, capacity])
        (\<lambda>_. Inr \<lparr>fp_settled = C, fp_refunded = R, fp_retained = retained, fp_outstanding = outstanding,
           fp_refundDue = due, fp_collectionReserved = collectionReserved, fp_refundReserved = refundReserved,
           fp_capacity = capacity, fp_unknownOutcome = unknownOutcome\<rparr>))"

definition refundableFeeCollectionReference :: "fee_reference \<Rightarrow> string \<Rightarrow> fee_collection_error + int" where
  "refundableFeeCollectionReference raw k =
     bind_r (fee_checked raw) (\<lambda>input. bind_r (projectFeeCollectionReference raw) (\<lambda>projection.
       case find (\<lambda>a. fa_id a = k \<and> fa_kind a = Fk_collection \<and> fa_state a = Fs_settled) (fr_attempts input) of
         None \<Rightarrow> Inl Fc_invalid_reference
       | Some original \<Rightarrow>
         let used = allocated_to (fr_attempts input) k in
         if fp_unknownOutcome projection then Inr 0
         else outputMoney (lesser (fa_principal original - used)
           (big_positive (fp_refundDue projection - fp_refundReserved projection)))))"

section \<open>Sums of principals\<close>

lemma principals_simps [simp]:
  "principals P [] = 0"
  "principals P (a # as) = (if P a then fa_principal a else 0) + principals P as"
  "principals P (as @ bs) = principals P as + principals P bs"
  by (simp_all add: principals_def)

lemma principals_nonneg: "list_all fee_attempt_ok as \<Longrightarrow> 0 \<le> principals P as"
  by (induction as) (auto simp: fee_attempt_ok_def)

lemma principals_zero: "(\<And>a. a \<in> set as \<Longrightarrow> \<not> P a) \<Longrightarrow> principals P as = 0"
  by (induction as) auto

lemma principals_sum: "principals P as = sum_list (map (\<lambda>a. if P a then fa_principal a else 0) as)"
  by (induction as) auto

lemma principals_add:
  "(\<And>a. \<not> (P a \<and> Q a)) \<Longrightarrow> principals P as + principals Q as = principals (\<lambda>a. P a \<or> Q a) as"
  by (induction as) auto

lemma sum_list_swap_int: "sum_list (map (\<lambda>x. sum_list (map (f x) ys)) xs) =
    (sum_list (map (\<lambda>y. sum_list (map (\<lambda>x. f x y) xs)) ys) :: int)"
  by (induction xs) (simp_all add: sum_list_addf)

lemma sum_list_mono_int: "(\<And>x. x \<in> set xs \<Longrightarrow> f x \<le> g x) \<Longrightarrow> sum_list (map f xs) \<le> (sum_list (map g xs) :: int)"
  by (induction xs) (auto intro: add_mono)

section \<open>What a checked reference guarantees\<close>

definition fee_valid :: "fee_attempt list \<Rightarrow> bool" where
  "fee_valid as \<longleftrightarrow> distinct (map fa_id as) \<and> distinct (map fa_effectKey as) \<and>
     (\<forall>a\<in>set as. fa_kind a = Fk_refund \<longrightarrow> (\<exists>c\<in>set as. fa_originalCollectionId a = Some (fa_id c) \<and>
        fa_kind c = Fk_collection \<and> fa_state c = Fs_settled)) \<and>
     (\<forall>c\<in>set as. fa_kind c = Fk_collection \<longrightarrow> allocated_to as (fa_id c) \<le> fa_principal c)"

lemma fee_by_id_Some:
  "distinct (map fa_id as) \<Longrightarrow> fee_by_id as k = Some c \<longleftrightarrow> c \<in> set as \<and> fa_id c = k"
proof -
  assume "distinct (map fa_id as)"
  then have "distinct (map fst (map (\<lambda>a. (fa_id a, a)) as))" by (simp add: comp_def)
  from map_of_eq_Some_iff [OF this] show ?thesis by (auto simp: fee_by_id_def)
qed

lemma fee_by_id_None: "fee_by_id as k = None \<longleftrightarrow> k \<notin> fa_id ` set as"
  by (force simp: fee_by_id_def map_of_eq_None_iff image_image)

lemma refund_source_ok_iff: "distinct (map fa_id as) \<Longrightarrow> refund_source_ok as a \<longleftrightarrow>
    (\<exists>c\<in>set as. fa_originalCollectionId a = Some (fa_id c) \<and> fa_kind c = Fk_collection \<and> fa_state c = Fs_settled)"
proof (cases "fa_originalCollectionId a")
  case (Some k)
  assume d: "distinct (map fa_id as)"
  show ?thesis
  proof (cases "fee_by_id as k")
    case None
    then have "\<forall>c\<in>set as. fa_id c \<noteq> k" by (auto simp: fee_by_id_None)
    with Some None show ?thesis by (auto simp: refund_source_ok_def)
  next
    case c: (Some c)
    then have "c \<in> set as" "fa_id c = k" using fee_by_id_Some [OF d] by blast+
    moreover have "c' = c" if "c' \<in> set as" "fa_id c' = k" for c'
      using fee_by_id_Some [OF d, of k c'] that c by simp
    ultimately have key: "c' \<in> set as \<and> k = fa_id c' \<longleftrightarrow> c' = c" for c' by blast
    have "refund_source_ok as a \<longleftrightarrow> fa_kind c = Fk_collection \<and> fa_state c = Fs_settled"
      using Some c by (simp add: refund_source_ok_def)
    with key show ?thesis unfolding Bex_def Some option.inject by metis
  qed
qed (simp add: refund_source_ok_def)

lemma fee_checked_Inr_iff [result_simps]: "fee_checked r = Inr x \<longleftrightarrow>
    x = r \<and> feeCollectionReferenceV1 r \<and> fee_valid (fr_attempts r)"
proof (cases "distinct (map fa_id (fr_attempts r))")
  case True
  then show ?thesis
    by (auto simp: fee_checked_def Let_def fee_valid_def refund_source_ok_iff list_ex_iff not_less)
qed (simp add: fee_checked_def Let_def fee_valid_def)

lemma outputMoney_Inr_iff [result_simps]: "outputMoney v = Inr n \<longleftrightarrow> \<bar>v\<bar> \<le> MAX_MONEY_PENCE \<and> n = v"
  by (simp add: outputMoney_def money_sum_Inr_iff)

lemma map_outputMoney_Inr: "map_r outputMoney vs = Inr ws \<longleftrightarrow> (\<forall>v\<in>set vs. \<bar>v\<bar> \<le> MAX_MONEY_PENCE) \<and> ws = vs"
  by (induction vs arbitrary: ws) (auto simp: bind_r_Inr_iff outputMoney_Inr_iff)

lemma refund_kind: "fee_attempt_ok a \<Longrightarrow> fa_originalCollectionId a = Some k \<Longrightarrow> fa_kind a = Fk_refund"
  by (cases "fa_kind a") (auto simp: fee_attempt_ok_def)

text \<open>Refunds, settled or still open, never take more than the collections they name.\<close>

lemma refunds_within_collections:
  assumes ok: "list_all fee_attempt_ok as" and valid: "fee_valid as"
  shows "fee_total as Fk_refund False + fee_total as Fk_refund True \<le> fee_total as Fk_collection False"
proof -
  let ?counts = "\<lambda>a. fa_state a = Fs_settled \<or> fee_active (fa_state a)"
  let ?cs = "filter (\<lambda>c. fa_kind c = Fk_collection \<and> fa_state c = Fs_settled) as"
  let ?f = "\<lambda>a c. if fa_originalCollectionId a = Some (fa_id c) \<and> ?counts a then fa_principal a else 0"
  have pos: "\<And>a. a \<in> set as \<Longrightarrow> 0 < fa_principal a" using ok by (auto simp: list_all_iff fee_attempt_ok_def)
  have one: "(if fa_kind a = Fk_refund \<and> ?counts a then fa_principal a else 0) \<le> sum_list (map (?f a) ?cs)"
    if a: "a \<in> set as" for a
  proof (cases "fa_kind a = Fk_refund \<and> ?counts a")
    case True
    then obtain c where c: "c \<in> set ?cs" "fa_originalCollectionId a = Some (fa_id c)"
      using valid a by (auto simp: fee_valid_def)
    have "?f a c \<le> sum_list (map (?f a) ?cs)"
      using c(1) pos [OF a] by (intro member_le_sum_list_int) auto
    with True c(2) show ?thesis by simp
  next
    case False
    then show ?thesis using pos [OF a] by (auto intro!: sum_list_nonneg_int)
  qed
  have "fee_total as Fk_refund False + fee_total as Fk_refund True =
      principals (\<lambda>a. fa_kind a = Fk_refund \<and> ?counts a) as"
    by (simp add: fee_total_def) (subst principals_add, auto simp: fee_active_def intro!: arg_cong [of _ _ "\<lambda>P. principals P as"])
  also have "\<dots> \<le> sum_list (map (\<lambda>a. sum_list (map (?f a) ?cs)) as)"
    unfolding principals_sum using one by (intro sum_list_mono_int) blast
  also have "\<dots> = sum_list (map (\<lambda>c. allocated_to as (fa_id c)) ?cs)"
    by (subst sum_list_swap_int) (simp add: allocated_to_def principals_sum)
  also have "\<dots> \<le> sum_list (map fa_principal ?cs)"
    using valid by (intro sum_list_mono_int) (auto simp: fee_valid_def)
  finally show ?thesis by (simp add: fee_total_def principals_def)
qed

lemma fee_total_nonneg: "list_all fee_attempt_ok as \<Longrightarrow> 0 \<le> fee_total as k b"
  by (simp add: fee_total_def principals_nonneg)

lemma projectFeeCollectionReference_InrD:
  assumes "projectFeeCollectionReference r = Inr p"
  shows "feeCollectionReferenceV1 r" "fee_valid (fr_attempts r)"
    "fp_settled p = fee_total (fr_attempts r) Fk_collection False"
    "fp_refunded p = fee_total (fr_attempts r) Fk_refund False"
    "fp_collectionReserved p = fee_total (fr_attempts r) Fk_collection True"
    "fp_refundReserved p = fee_total (fr_attempts r) Fk_refund True"
    "fp_retained p = fp_settled p - fp_refunded p"
    "fp_outstanding p = big_positive (fr_currentFeePrincipal r - fp_retained p)"
    "fp_refundDue p = big_positive (fp_retained p - fr_currentFeePrincipal r)"
    "fp_capacity p = (if fp_unknownOutcome p then 0 else big_positive (fp_outstanding p - fp_collectionReserved p))"
    "fp_unknownOutcome p \<longleftrightarrow> (\<exists>a\<in>set (fr_attempts r). fa_state a = Fs_outcome_unknown)"
proof -
  note d = assms [unfolded projectFeeCollectionReference_def Let_def bind_r_Inr_iff fee_checked_Inr_iff]
  from d show "feeCollectionReferenceV1 r" "fee_valid (fr_attempts r)" by blast+
  from d have p: "p = \<lparr>fp_settled = C, fp_refunded = R, fp_retained = C - R, fp_outstanding = outstanding, fp_refundDue = due,
      fp_collectionReserved = reserved, fp_refundReserved = refundReserved,
      fp_capacity = (if unknown then 0 else big_positive (outstanding - reserved)), fp_unknownOutcome = unknown\<rparr>"
    if "C = fee_total (fr_attempts r) Fk_collection False" "R = fee_total (fr_attempts r) Fk_refund False"
      "reserved = fee_total (fr_attempts r) Fk_collection True" "refundReserved = fee_total (fr_attempts r) Fk_refund True"
      "outstanding = big_positive (fr_currentFeePrincipal r - (C - R))" "due = big_positive (C - R - fr_currentFeePrincipal r)"
      "unknown = list_ex (\<lambda>a. fa_state a = Fs_outcome_unknown) (fr_attempts r)"
    for C R outstanding due reserved refundReserved unknown using that by auto
  show "fp_settled p = fee_total (fr_attempts r) Fk_collection False"
    "fp_refunded p = fee_total (fr_attempts r) Fk_refund False"
    "fp_collectionReserved p = fee_total (fr_attempts r) Fk_collection True"
    "fp_refundReserved p = fee_total (fr_attempts r) Fk_refund True"
    "fp_retained p = fp_settled p - fp_refunded p"
    "fp_outstanding p = big_positive (fr_currentFeePrincipal r - fp_retained p)"
    "fp_refundDue p = big_positive (fp_retained p - fr_currentFeePrincipal r)"
    "fp_capacity p = (if fp_unknownOutcome p then 0 else big_positive (fp_outstanding p - fp_collectionReserved p))"
    "fp_unknownOutcome p \<longleftrightarrow> (\<exists>a\<in>set (fr_attempts r). fa_state a = Fs_outcome_unknown)"
    by (simp_all add: p [OF refl refl refl refl refl refl refl] list_ex_iff)
qed

text \<open>
  C11. The fee projection balances and says what the attempts say. Settled, refunded and reserved
  amounts are the sums of the principals of the attempts of that kind whose state is settled, or is
  pending, accepted or unknown; the outcome is unknown exactly if some attempt's is. Refunds, settled or
  still open, never exceed the settled collections, so what is retained, the one less the other, is
  never negative; what is outstanding is the part of the current fee not retained, and what is due back the part
  retained beyond it. The collection capacity is zero while an outcome is unknown, and otherwise what is
  outstanding and not reserved, or zero.
\<close>

theorem fee_projection_balances:
  assumes "projectFeeCollectionReference r = Inr p"
  defines "money_in \<equiv> \<lambda>k states. sum_list (map fa_principal (filter (\<lambda>a. fa_kind a = k \<and> fa_state a \<in> states) (fr_attempts r)))"
  shows "fp_settled p = money_in Fk_collection {Fs_settled} \<and> fp_refunded p = money_in Fk_refund {Fs_settled} \<and>
    fp_collectionReserved p = money_in Fk_collection {Fs_pending, Fs_accepted, Fs_outcome_unknown} \<and>
    fp_refundReserved p = money_in Fk_refund {Fs_pending, Fs_accepted, Fs_outcome_unknown} \<and>
    (fp_unknownOutcome p \<longleftrightarrow> (\<exists>a\<in>set (fr_attempts r). fa_state a = Fs_outcome_unknown)) \<and>
    fp_retained p = fp_settled p - fp_refunded p \<and>
    0 \<le> fp_refunded p \<and>
    fp_refunded p + fp_refundReserved p \<le> fp_settled p \<and>
    fp_outstanding p = max 0 (fr_currentFeePrincipal r - fp_retained p) \<and>
    fp_refundDue p = max 0 (fp_retained p - fr_currentFeePrincipal r) \<and>
    fr_currentFeePrincipal r + fp_refundDue p = fp_retained p + fp_outstanding p \<and>
    (fp_outstanding p = 0 \<or> fp_refundDue p = 0) \<and>
    fp_capacity p = (if \<exists>a\<in>set (fr_attempts r). fa_state a = Fs_outcome_unknown then 0
      else max 0 (fp_outstanding p - fp_collectionReserved p)) \<and>
    (0 < fp_capacity p \<longrightarrow>
      fp_retained p + fp_collectionReserved p + fp_capacity p = fr_currentFeePrincipal r)"
proof -
  note d = projectFeeCollectionReference_InrD [OF assms(1)]
  have ok: "list_all fee_attempt_ok (fr_attempts r)" using d(1) by (simp add: feeCollectionReferenceV1_def)
  have states: "fee_active s \<longleftrightarrow> s \<in> {Fs_pending, Fs_accepted, Fs_outcome_unknown}" for s by (simp add: fee_active_def)
  have sums: "fp_settled p = money_in Fk_collection {Fs_settled}" "fp_refunded p = money_in Fk_refund {Fs_settled}"
    "fp_collectionReserved p = money_in Fk_collection {Fs_pending, Fs_accepted, Fs_outcome_unknown}"
    "fp_refundReserved p = money_in Fk_refund {Fs_pending, Fs_accepted, Fs_outcome_unknown}"
    unfolding d(3-6) money_in_def fee_total_def principals_def states by simp_all
  have refunds: "0 \<le> fp_refunded p" "0 \<le> fp_collectionReserved p" using fee_total_nonneg [OF ok] d(4,5) by simp_all
  have covered: "fp_refunded p + fp_refundReserved p \<le> fp_settled p"
    using refunds_within_collections [OF ok d(2)] d(3,4,6) by simp
  have pos: "big_positive n = max 0 n" for n by (simp add: big_positive_def)
  have liability: "fp_outstanding p = max 0 (fr_currentFeePrincipal r - fp_retained p)"
    "fp_refundDue p = max 0 (fp_retained p - fr_currentFeePrincipal r)" using d(8,9) by (simp_all only: pos)
  have capacity: "fp_capacity p = (if \<exists>a\<in>set (fr_attempts r). fa_state a = Fs_outcome_unknown then 0
      else max 0 (fp_outstanding p - fp_collectionReserved p))" using d(10,11) by (simp add: pos)
  have room: "0 < fp_capacity p \<longrightarrow> fp_retained p + fp_collectionReserved p + fp_capacity p = fr_currentFeePrincipal r"
    using capacity liability(1) refunds(2) by (auto simp: max_def split: if_splits)
  show ?thesis using sums d(7,11) refunds(1) covered liability capacity room by (intro conjI) (simp_all add: max_def)
qed

section \<open>Attempts within capacity\<close>

definition add_attempt :: "fee_reference \<Rightarrow> fee_attempt \<Rightarrow> fee_reference" where
  "add_attempt r a = r\<lparr>fr_attempts := fr_attempts r @ [a]\<rparr>"

definition new_attempt :: "fee_reference \<Rightarrow> fee_attempt \<Rightarrow> bool" where
  "new_attempt r a \<longleftrightarrow> fee_attempt_ok a \<and> length (fr_attempts r) < 10000 \<and>
     fa_id a \<notin> fa_id ` set (fr_attempts r) \<and> fa_effectKey a \<notin> fa_effectKey ` set (fr_attempts r)"

lemma allocated_to_snoc: "allocated_to (as @ [a]) k = allocated_to as k +
    (if fa_originalCollectionId a = Some k \<and> (fa_state a = Fs_settled \<or> fee_active (fa_state a)) then fa_principal a else 0)"
  by (simp add: allocated_to_def)

lemma fresh_unallocated:
  assumes "list_all fee_attempt_ok as" "fee_valid as" "k \<notin> fa_id ` set as"
  shows "allocated_to as k = 0"
  unfolding allocated_to_def
proof (rule principals_zero)
  fix a assume a: "a \<in> set as"
  show "\<not> (fa_originalCollectionId a = Some k \<and> (fa_state a = Fs_settled \<or> fee_active (fa_state a)))"
  proof
    assume k: "fa_originalCollectionId a = Some k \<and> (fa_state a = Fs_settled \<or> fee_active (fa_state a))"
    then have "fa_kind a = Fk_refund" using a assms(1) by (auto simp: list_all_iff intro: refund_kind)
    then obtain c where "c \<in> set as" "fa_originalCollectionId a = Some (fa_id c)"
      using a assms(2) unfolding fee_valid_def by blast
    with k assms(3) show False by auto
  qed
qed

lemma add_attempt_valid:
  assumes r: "feeCollectionReferenceV1 r" "fee_valid (fr_attempts r)" and "new_attempt r a"
    and refund: "fa_kind a = Fk_refund \<Longrightarrow> \<exists>c\<in>set (fr_attempts r). fa_originalCollectionId a = Some (fa_id c) \<and>
      fa_kind c = Fk_collection \<and> fa_state c = Fs_settled \<and>
      allocated_to (fr_attempts r) (fa_id c) + fa_principal a \<le> fa_principal c"
  shows "feeCollectionReferenceV1 (add_attempt r a)" "fee_valid (fr_attempts (add_attempt r a))"
proof -
  let ?as = "fr_attempts r"
  have ok: "list_all fee_attempt_ok ?as" and a: "fee_attempt_ok a"
    using r(1) assms(3) by (simp_all add: feeCollectionReferenceV1_def new_attempt_def)
  show "feeCollectionReferenceV1 (add_attempt r a)"
    using r(1) assms(3) by (simp add: feeCollectionReferenceV1_def add_attempt_def new_attempt_def)
  have dist: "distinct (map fa_id ?as)" using r(2) by (simp add: fee_valid_def)
  have sources: "\<forall>x\<in>set (?as @ [a]). fa_kind x = Fk_refund \<longrightarrow>
      (\<exists>c\<in>set (?as @ [a]). fa_originalCollectionId x = Some (fa_id c) \<and> fa_kind c = Fk_collection \<and> fa_state c = Fs_settled)"
    using r(2) refund by (fastforce simp: fee_valid_def)
  have "allocated_to (?as @ [a]) (fa_id c) \<le> fa_principal c"
    if c: "c \<in> set (?as @ [a])" "fa_kind c = Fk_collection" for c
  proof (cases "c \<in> set ?as")
    case True
    then have old: "allocated_to ?as (fa_id c) \<le> fa_principal c" using r(2) c(2) by (simp add: fee_valid_def)
    show ?thesis
    proof (cases "fa_originalCollectionId a = Some (fa_id c)")
      case named: True
      then have "fa_kind a = Fk_refund" by (rule refund_kind [OF a])
      from refund [OF this] obtain c' where c': "c' \<in> set ?as" "fa_id c' = fa_id c"
        "allocated_to ?as (fa_id c') + fa_principal a \<le> fa_principal c'" using named by auto
      then have "c' = c" using dist True by (auto simp: distinct_map inj_on_def)
      with c'(3) old show ?thesis by (simp add: allocated_to_snoc)
    qed (simp add: allocated_to_snoc old)
  next
    case False
    with c have "c = a" by simp
    have "allocated_to ?as (fa_id a) = 0"
      by (rule fresh_unallocated [OF ok r(2)]) (use assms(3) in \<open>simp add: new_attempt_def\<close>)
    moreover have "fa_originalCollectionId a = None" using a c(2) \<open>c = a\<close> by (simp add: fee_attempt_ok_def)
    ultimately show ?thesis using a \<open>c = a\<close> by (simp add: allocated_to_snoc fee_attempt_ok_def)
  qed
  with sources r(2) assms(3) show "fee_valid (fr_attempts (add_attempt r a))"
    by (simp add: fee_valid_def add_attempt_def new_attempt_def)
qed

lemma refundable_InrD:
  assumes "refundableFeeCollectionReference r k = Inr n" and "0 < n"
  obtains p c where "projectFeeCollectionReference r = Inr p" "c \<in> set (fr_attempts r)" "fa_id c = k"
    "fa_kind c = Fk_collection" "fa_state c = Fs_settled" "\<not> fp_unknownOutcome p"
    "n \<le> fa_principal c - allocated_to (fr_attempts r) k" "n \<le> fp_refundDue p - fp_refundReserved p"
proof -
  let ?find = "find (\<lambda>a. fa_id a = k \<and> fa_kind a = Fk_collection \<and> fa_state a = Fs_settled) (fr_attempts r)"
  obtain p where p: "projectFeeCollectionReference r = Inr p"
    and n: "(case ?find of None \<Rightarrow> Inl Fc_invalid_reference
       | Some original \<Rightarrow> (if fp_unknownOutcome p then Inr 0
         else outputMoney (lesser (fa_principal original - allocated_to (fr_attempts r) k)
           (big_positive (fp_refundDue p - fp_refundReserved p))))) = Inr n"
    using assms(1) unfolding refundableFeeCollectionReference_def bind_r_Inr_iff fee_checked_Inr_iff Let_def by blast
  obtain c where c: "?find = Some c" using n by (cases ?find) auto
  then have "c \<in> set (fr_attempts r)" "fa_id c = k" "fa_kind c = Fk_collection" "fa_state c = Fs_settled"
    by (auto simp: find_Some_iff)
  with p n c assms(2) show ?thesis
    by (intro that [of p c]) (auto simp: outputMoney_Inr_iff lesser_def big_positive_def split: if_splits)
qed

text \<open>
  Acting within the computed amounts is safe. A new refund of at most the refundable amount of
  a collection leaves a valid reference in which the settled collections, less all refunds settled or
  open, still cover the current fee. A new collection of at most the capacity leaves a valid
  reference in which the retained amount and all open collections together stay within the fee.
\<close>

lemma fee_attempts_within_capacity:
  shows "(refundableFeeCollectionReference r k = Inr n \<and>
      new_attempt r a \<and>
      fa_kind a = Fk_refund \<and>
      fa_originalCollectionId a = Some k \<and>
      fa_principal a \<le> n \<longrightarrow>
      fee_checked (add_attempt r a) = Inr (add_attempt r a) \<and>
      (fa_state a = Fs_settled \<or> fee_active (fa_state a) \<longrightarrow>
       fr_currentFeePrincipal r \<le> fee_total (fr_attempts (add_attempt r a)) Fk_collection False -
         fee_total (fr_attempts (add_attempt r a)) Fk_refund False -
         fee_total (fr_attempts (add_attempt r a)) Fk_refund True)) \<and>
    (projectFeeCollectionReference r = Inr p \<and>
      new_attempt r b \<and>
      fa_kind b = Fk_collection \<and>
      fa_principal b \<le> fp_capacity p \<longrightarrow>
      fee_checked (add_attempt r b) = Inr (add_attempt r b) \<and>
      fee_total (fr_attempts (add_attempt r b)) Fk_collection False +
        fee_total (fr_attempts (add_attempt r b)) Fk_collection True -
        fee_total (fr_attempts (add_attempt r b)) Fk_refund False \<le> fr_currentFeePrincipal r)"
proof -
  have pos: "new_attempt r x \<Longrightarrow> 0 < fa_principal x" for x by (simp add: new_attempt_def fee_attempt_ok_def)
  have a: "fee_checked (add_attempt r a) = Inr (add_attempt r a) \<and>
      (fa_state a = Fs_settled \<or> fee_active (fa_state a) \<longrightarrow>
       fr_currentFeePrincipal r \<le> fee_total (fr_attempts (add_attempt r a)) Fk_collection False -
         fee_total (fr_attempts (add_attempt r a)) Fk_refund False -
         fee_total (fr_attempts (add_attempt r a)) Fk_refund True)"
    if h: "refundableFeeCollectionReference r k = Inr n" "new_attempt r a" "fa_kind a = Fk_refund"
      "fa_originalCollectionId a = Some k" "fa_principal a \<le> n"
  proof -
    obtain q c where q: "projectFeeCollectionReference r = Inr q" "c \<in> set (fr_attempts r)" "fa_id c = k"
      "fa_kind c = Fk_collection" "fa_state c = Fs_settled"
      "n \<le> fa_principal c - allocated_to (fr_attempts r) k" "n \<le> fp_refundDue q - fp_refundReserved q"
      using refundable_InrD [OF h(1)] pos [OF h(2)] h(5) by (metis order_less_le_trans)
    note d = projectFeeCollectionReference_InrD [OF q(1)]
    have "feeCollectionReferenceV1 (add_attempt r a)" "fee_valid (fr_attempts (add_attempt r a))"
      using add_attempt_valid [OF d(1,2) h(2)] q(2-6) h(4,5) by (metis add.commute le_diff_eq order_trans)+
    moreover have "fr_currentFeePrincipal r \<le> fp_settled q - fp_refunded q - fp_refundReserved q - fa_principal a"
      using q(7) h(5) pos [OF h(2)] d(6,7,9) fee_total_nonneg [of "fr_attempts r" Fk_refund True] d(1)
      by (auto simp: big_positive_def feeCollectionReferenceV1_def split: if_splits)
    ultimately show ?thesis
      using d(3,4,6) h(3) by (auto simp: fee_checked_Inr_iff add_attempt_def fee_total_def fee_active_def)
  qed
  have b: "fee_checked (add_attempt r b) = Inr (add_attempt r b) \<and>
      fee_total (fr_attempts (add_attempt r b)) Fk_collection False +
        fee_total (fr_attempts (add_attempt r b)) Fk_collection True -
        fee_total (fr_attempts (add_attempt r b)) Fk_refund False \<le> fr_currentFeePrincipal r"
    if h: "projectFeeCollectionReference r = Inr p" "new_attempt r b" "fa_kind b = Fk_collection"
      "fa_principal b \<le> fp_capacity p"
  proof -
    note d = projectFeeCollectionReference_InrD [OF h(1)]
    have "feeCollectionReferenceV1 (add_attempt r b)" "fee_valid (fr_attempts (add_attempt r b))"
      using add_attempt_valid [OF d(1,2) h(2)] h(3) by simp_all
    moreover have "fp_retained p + fp_collectionReserved p + fa_principal b \<le> fr_currentFeePrincipal r"
      using h(4) pos [OF h(2)] d(5,8,10) fee_total_nonneg [of "fr_attempts r" Fk_collection True] d(1)
      by (auto simp: big_positive_def feeCollectionReferenceV1_def split: if_splits)
    ultimately show ?thesis
      using d(3,4,5,7) h(3) pos [OF h(2)] by (auto simp: fee_checked_Inr_iff add_attempt_def fee_total_def fee_active_def)
  qed
  show ?thesis using a b by blast
qed

section \<open>A concrete reference\<close>

definition fee_example :: fee_reference where
  "fee_example = \<lparr>fr_currentFeePrincipal = 700, fr_attempts =
     [\<lparr>fa_id = ''c1'', fa_effectKey = ''e1'', fa_kind = Fk_collection, fa_state = Fs_settled,
       fa_principal = 1000, fa_originalCollectionId = None\<rparr>,
      \<lparr>fa_id = ''r1'', fa_effectKey = ''e2'', fa_kind = Fk_refund, fa_state = Fs_settled,
       fa_principal = 100, fa_originalCollectionId = Some ''c1''\<rparr>,
      \<lparr>fa_id = ''r2'', fa_effectKey = ''e3'', fa_kind = Fk_refund, fa_state = Fs_pending,
       fa_principal = 50, fa_originalCollectionId = Some ''c1''\<rparr>]\<rparr>"

definition fee_example_refund :: fee_attempt where
  "fee_example_refund = \<lparr>fa_id = ''r3'', fa_effectKey = ''e4'', fa_kind = Fk_refund, fa_state = Fs_pending,
     fa_principal = 150, fa_originalCollectionId = Some ''c1''\<rparr>"

definition fee_example_open :: fee_reference where
  "fee_example_open = fee_example\<lparr>fr_currentFeePrincipal := 1000\<rparr>"

definition fee_example_collection :: fee_attempt where
  "fee_example_collection = \<lparr>fa_id = ''c2'', fa_effectKey = ''e4'', fa_kind = Fk_collection, fa_state = Fs_pending,
     fa_principal = 100, fa_originalCollectionId = None\<rparr>"

lemma fee_example_projection: "projectFeeCollectionReference fee_example =
    Inr \<lparr>fp_settled = 1000, fp_refunded = 100, fp_retained = 900, fp_outstanding = 0, fp_refundDue = 200,
      fp_collectionReserved = 0, fp_refundReserved = 50, fp_capacity = 0, fp_unknownOutcome = False\<rparr>"
  by code_simp

lemma fee_example_open_projection: "projectFeeCollectionReference fee_example_open =
    Inr \<lparr>fp_settled = 1000, fp_refunded = 100, fp_retained = 900, fp_outstanding = 100, fp_refundDue = 0,
      fp_collectionReserved = 0, fp_refundReserved = 50, fp_capacity = 100, fp_unknownOutcome = False\<rparr>"
  by code_simp

lemma fee_example_refundable: "refundableFeeCollectionReference fee_example ''c1'' = Inr 150"
  by code_simp

lemma fee_example_new: "new_attempt fee_example fee_example_refund" "new_attempt fee_example_open fee_example_collection"
  by code_simp+

theorem fee_projection_balances_witness:
  "\<exists>p. projectFeeCollectionReference fee_example = Inr p \<and> fp_refunded p + fp_refundReserved p \<le> fp_settled p \<and>
     700 + fp_refundDue p = fp_retained p + fp_outstanding p"
  using fee_projection_balances [OF fee_example_projection] fee_example_projection
  by (simp add: fee_example_def)

lemma fee_attempts_within_capacity_witness:
  "fee_checked (add_attempt fee_example fee_example_refund) = Inr (add_attempt fee_example fee_example_refund) \<and>
   fee_checked (add_attempt fee_example_open fee_example_collection) = Inr (add_attempt fee_example_open fee_example_collection)"
proof
  show "fee_checked (add_attempt fee_example fee_example_refund) = Inr (add_attempt fee_example fee_example_refund)"
    by (rule fee_attempts_within_capacity [THEN conjunct1, THEN mp, THEN conjunct1,
        OF conjI [OF fee_example_refundable]]) (simp add: fee_example_new(1) fee_example_refund_def [symmetric], simp add: fee_example_refund_def)
  show "fee_checked (add_attempt fee_example_open fee_example_collection) = Inr (add_attempt fee_example_open fee_example_collection)"
    by (rule fee_attempts_within_capacity [THEN conjunct2, THEN mp, THEN conjunct1,
        OF conjI [OF fee_example_open_projection]]) (simp add: fee_example_new(2) fee_example_collection_def [symmetric], simp add: fee_example_collection_def)
qed

end
