(* ===== verification/Dunning.thy ===== *)
theory Dunning
  imports Fee_Collection
begin

text \<open>
  The dunning seam of \<^verbatim>\<open>dunning.ts\<close>: which unpaid invoices may be chased, the reminder bound to
  the current facts of its invoice, the check of a stored approval, the fixture workbench with its
  idempotent commands, and the advice on retrying a failed collection. SHA-256 over the JSON of a
  value is a parameter (\<open>digest\<close> for the reminder content, \<open>print_of\<close> for a command), and so is
  the reader of stored decisions. The text of a reminder has two fixed sentences and the amount; it
  is the pair of which sentence and the printed pounds.
\<close>

datatype dunning_error = Dn_invalid_input | Dn_unavailable | Dn_conflict | Dn_dark | Dn_unprintable

datatype dunning_category = Dc_customer | Dc_supplier | Dc_platform_to_builder

datatype dunning_source_state = Ds_issued_invoice | Ds_locked_final_account | Ds_draft_final_account |
  Ds_superseded_final_account

datatype dunning_attempt_state = Da_none | Da_definite_failure | Da_pending | Da_outcome_unknown | Da_settled

record dunning_scope =
  ds_tenantId :: string
  ds_jobId :: string

record dunning_invoice =
  di_tenantId :: string
  di_jobId :: string
  di_invoiceId :: string
  di_revision :: int
  di_sourceRevision :: int
  di_sourceHash :: string
  di_sourceState :: dunning_source_state
  di_finalAccountLockId :: "string option"
  di_originalPence :: int
  di_outstandingPence :: int
  di_dueTick :: int
  di_category :: dunning_category
  di_recipient :: string
  di_pilotNoCharge :: bool
  di_disputed :: bool
  di_refundPending :: bool
  di_reversed :: bool
  di_cancelled :: bool
  di_attemptState :: dunning_attempt_state

section \<open>Schemas\<close>

text \<open>
  At most 254 characters matching
  \<^verbatim>\<open>/^[A-Za-z0-9._+-]+@[A-Za-z0-9-]+(?:\.[A-Za-z0-9-]+)*\.invalid$/u\<close>: one \<^verbatim>\<open>@\<close>
  between the mailbox and a host of at least two dot-separated labels, the last one \<^verbatim>\<open>invalid\<close>.
\<close>

definition recoveryMessageRecipientV1 :: "string \<Rightarrow> bool" where
  "recoveryMessageRecipientV1 s \<longleftrightarrow> length s \<le> 254 \<and>
     (case split_at CHR ''@'' s of
        [local, host] \<Rightarrow>
          local \<noteq> [] \<and> list_all (\<lambda>c. alphanumeric c \<or> c \<in> set ''._+-'') local \<and>
          (let labels = split_at CHR ''.'' host in
           length labels \<ge> 2 \<and> last labels = ''invalid'' \<and>
           list_all (\<lambda>l. l \<noteq> [] \<and> list_all (\<lambda>c. alphanumeric c \<or> c = CHR ''-'') l) labels)
      | _ \<Rightarrow> False)"

definition dunningInvoiceV1 :: "dunning_invoice \<Rightarrow> bool" where
  "dunningInvoiceV1 i \<longleftrightarrow> revision_safe (di_revision i) \<and> revision_safe (di_sourceRevision i) \<and>
     sha_text (di_sourceHash i) \<and> pence_ok (di_originalPence i) \<and> pence_ok (di_outstandingPence i) \<and>
     counter_ok (di_dueTick i) \<and> recoveryMessageRecipientV1 (di_recipient i) \<and>
     di_outstandingPence i \<le> di_originalPence i \<and>
     (di_sourceState i = Ds_locked_final_account \<longrightarrow> di_finalAccountLockId i \<noteq> None)"

section \<open>Suppression and the list of unpaid invoices\<close>

definition dn_scoped :: "dunning_scope \<Rightarrow> dunning_invoice \<Rightarrow> dunning_error + unit" where
  "dn_scoped s i = guard_r (ds_tenantId s = di_tenantId i \<and> ds_jobId s = di_jobId i) Dn_unavailable"

definition dunningSuppression :: "dunning_invoice \<Rightarrow> int \<Rightarrow> string option" where
  "dunningSuppression i now =
     (if di_pilotNoCharge i then Some ''pilot_no_charge''
      else if di_cancelled i then Some ''cancelled''
      else if di_disputed i then Some ''disputed''
      else if di_refundPending i then Some ''refund_pending''
      else if di_reversed i then Some ''reversed''
      else if di_outstandingPence i = 0 \<or> di_attemptState i = Da_settled then Some ''paid''
      else if di_sourceState i = Ds_draft_final_account \<or> di_sourceState i = Ds_superseded_final_account
        then Some ''source_not_current''
      else if di_attemptState i = Da_pending \<or> di_attemptState i = Da_outcome_unknown then Some ''reconcile_attempt''
      else if now < di_dueTick i then Some ''not_due'' else None)"

record unpaid_row =
  ur_invoiceId :: string
  ur_revision :: int
  ur_amount :: int
  ur_category :: dunning_category
  ur_suppression :: "string option"

record unpaid_view =
  uv_invoices :: "unpaid_row list"
  uv_skipped :: "nat list"

text \<open>A row of the input is \<open>None\<close> when it does not have the shape of an invoice at all.\<close>

definition parsed_row :: "dunning_invoice option \<Rightarrow> dunning_invoice option" where
  "parsed_row raw = (case raw of None \<Rightarrow> None | Some i \<Rightarrow> if dunningInvoiceV1 i then Some i else None)"

definition unpaid_row_of :: "int \<Rightarrow> dunning_invoice \<Rightarrow> unpaid_row" where
  "unpaid_row_of now i = \<lparr>ur_invoiceId = di_invoiceId i, ur_revision = di_revision i,
     ur_amount = di_outstandingPence i, ur_category = di_category i, ur_suppression = dunningSuppression i now\<rparr>"

definition unpaidInvoiceWorkbench ::
  "dunning_scope \<Rightarrow> dunning_invoice option list \<Rightarrow> int \<Rightarrow> dunning_error + unpaid_view" where
  "unpaidInvoiceWorkbench scope raws now =
     (if \<not> counter_ok now then Inl Dn_invalid_input
      else Inr \<lparr>uv_invoices = map (unpaid_row_of now)
          (filter (\<lambda>i. di_tenantId i = ds_tenantId scope \<and> di_jobId i = ds_jobId scope \<and> di_outstandingPence i > 0)
             (List.map_filter parsed_row raws)),
        uv_skipped = filter (\<lambda>n. parsed_row (raws ! n) = None) [0..<length raws]\<rparr>)"

section \<open>Reminders and approvals\<close>

record reminder_content =
  rmd_tenantId :: string
  rmd_jobId :: string
  rmd_invoiceId :: string
  rmd_revision :: int
  rmd_sourceRevision :: int
  rmd_sourceHash :: string
  rmd_sourceState :: dunning_source_state
  rmd_finalAccountLockId :: "string option"
  rmd_category :: dunning_category
  rmd_recipient :: string
  rmd_amount :: int
  rmd_body :: "bool \<times> string"

record dunning_reminder =
  dr_content :: reminder_content
  dr_contentHash :: string

definition reminder_content_of :: "dunning_invoice \<Rightarrow> string \<Rightarrow> reminder_content" where
  "reminder_content_of i pounds = \<lparr>rmd_tenantId = di_tenantId i, rmd_jobId = di_jobId i, rmd_invoiceId = di_invoiceId i,
     rmd_revision = di_revision i, rmd_sourceRevision = di_sourceRevision i, rmd_sourceHash = di_sourceHash i,
     rmd_sourceState = di_sourceState i, rmd_finalAccountLockId = di_finalAccountLockId i,
     rmd_category = di_category i, rmd_recipient = di_recipient i, rmd_amount = di_outstandingPence i,
     rmd_body = (di_category i = Dc_platform_to_builder, pounds)\<rparr>"

definition buildDunningReminder ::
  "(reminder_content \<Rightarrow> string) \<Rightarrow> dunning_scope \<Rightarrow> dunning_invoice \<Rightarrow> int \<Rightarrow> dunning_error + dunning_reminder" where
  "buildDunningReminder digest scope i now =
     (if \<not> dunningInvoiceV1 i \<or> \<not> counter_ok now then Inl Dn_invalid_input
      else bind_r (dn_scoped scope i) (\<lambda>_.
      if dunningSuppression i now \<noteq> None then Inl Dn_unavailable
      else bind_r (of_option Dn_unprintable (formatRecoveryMessagePounds (JInt (di_outstandingPence i)))) (\<lambda>pounds.
        let content = reminder_content_of i pounds in
        Inr \<lparr>dr_content = content, dr_contentHash = digest content\<rparr>)))"

datatype approval_status = Ap_approved | Ap_pending | Ap_dismissed | Ap_revoked | Ap_expired | Ap_superseded

record dunning_approval =
  ap_decisionId :: string
  ap_tenantId :: string
  ap_jobId :: string
  ap_invoiceId :: string
  ap_status :: approval_status
  ap_contentHash :: string
  ap_expiresTick :: int

definition approvalV1 :: "dunning_approval \<Rightarrow> bool" where
  "approvalV1 a \<longleftrightarrow> sha_text (ap_contentHash a) \<and> counter_ok (ap_expiresTick a)"

definition dunningApprovalMatches :: "(reminder_content \<Rightarrow> string) \<Rightarrow> (string \<Rightarrow> dunning_approval option) \<Rightarrow>
    dunning_scope \<Rightarrow> dunning_invoice \<Rightarrow> dunning_approval \<Rightarrow> int \<Rightarrow> dunning_error + bool" where
  "dunningApprovalMatches digest resolveDecision scope i approval now =
     (if \<not> approvalV1 approval \<or> \<not> counter_ok now then Inl Dn_invalid_input
      else bind_r (buildDunningReminder digest scope i now) (\<lambda>reminder.
      case resolveDecision (ap_decisionId approval) of
        None \<Rightarrow> Inr False
      | Some stored \<Rightarrow>
        if \<not> approvalV1 stored \<or> stored \<noteq> approval then Inr False
        else Inr (ap_status approval = Ap_approved \<and> ap_expiresTick approval > now \<and>
          ap_contentHash approval = dr_contentHash reminder \<and>
          ap_tenantId approval = rmd_tenantId (dr_content reminder) \<and>
          ap_jobId approval = rmd_jobId (dr_content reminder) \<and>
          ap_invoiceId approval = rmd_invoiceId (dr_content reminder))))"

section \<open>The fixture workbench\<close>

datatype dunning_action = Request_reminder | Cancel_collection

record dunning_command =
  dc_commandId :: string
  dc_idempotencyKey :: string
  dc_invoiceId :: string
  dc_expectedRevision :: int
  dc_action :: dunning_action

record pending_reminder =
  pr_decisionId :: string
  pr_reminder :: dunning_reminder

record dunning_workbench =
  wb_invoices :: "(string \<times> dunning_invoice) list"
  wb_commands :: "(string \<times> (string \<times> pending_reminder option)) list"
  wb_cancelled :: "string list"
  wb_decisions :: "(string \<times> pending_reminder) list"

text \<open>The keys \<^verbatim>\<open>`${tenantId}:${id}`\<close> of the maps.\<close>

definition wb_key :: "string \<Rightarrow> string \<Rightarrow> string" where
  "wb_key tenantId i = tenantId @ '':'' @ i"

definition invoice_key :: "dunning_invoice \<Rightarrow> string" where
  "invoice_key i = wb_key (di_tenantId i) (di_invoiceId i)"

definition wb_add :: "dunning_workbench \<Rightarrow> dunning_invoice \<Rightarrow> dunning_error + dunning_workbench" where
  "wb_add w i =
     (if \<not> dunningInvoiceV1 i then Inl Dn_invalid_input
      else if map_of (wb_invoices w) (invoice_key i) \<noteq> None then Inl Dn_conflict
      else Inr (w\<lparr>wb_invoices := AList.update (invoice_key i) i (wb_invoices w)\<rparr>))"

definition wb_construct :: "dunning_invoice list \<Rightarrow> dunning_error + dunning_workbench" where
  "wb_construct fixtures = fold_r wb_add
     \<lparr>wb_invoices = [], wb_commands = [], wb_cancelled = [], wb_decisions = []\<rparr> fixtures"

definition wb_replace :: "dunning_workbench \<Rightarrow> dunning_invoice \<Rightarrow> dunning_error + dunning_workbench" where
  "wb_replace w i =
     (if \<not> dunningInvoiceV1 i then Inl Dn_invalid_input
      else case map_of (wb_invoices w) (invoice_key i) of
        None \<Rightarrow> Inl Dn_conflict
      | Some prior \<Rightarrow>
        if di_jobId prior \<noteq> di_jobId i \<or> di_revision i \<le> di_revision prior then Inl Dn_conflict
        else Inr (w\<lparr>wb_invoices := AList.update (invoice_key i) i (wb_invoices w),
                    wb_decisions := AList.delete (invoice_key i) (wb_decisions w)\<rparr>))"

text \<open>A set of strings that is only added to and asked for membership.\<close>

definition set_add :: "string \<Rightarrow> string list \<Rightarrow> string list" where
  "set_add k ks = (if k \<in> set ks then ks else ks @ [k])"

definition wb_replay :: "(reminder_content \<Rightarrow> string) \<Rightarrow> dunning_workbench \<Rightarrow> dunning_scope \<Rightarrow> string \<Rightarrow>
    dunning_invoice \<Rightarrow> int \<Rightarrow> pending_reminder option \<Rightarrow> dunning_error + (dunning_workbench \<times> pending_reminder option)" where
  "wb_replay digest w scope key i now result =
     (case result of
        None \<Rightarrow> Inr (w, None)
      | Some p \<Rightarrow>
        if key \<in> set (wb_cancelled w) then Inl Dn_unavailable
        else bind_r (buildDunningReminder digest scope i now) (\<lambda>reminder.
          if dr_contentHash (pr_reminder p) \<noteq> dr_contentHash reminder then Inl Dn_unavailable
          else Inr (w, Some p)))"

definition wb_apply :: "(reminder_content \<Rightarrow> string) \<Rightarrow> dunning_workbench \<Rightarrow> dunning_scope \<Rightarrow> dunning_command \<Rightarrow>
    string \<Rightarrow> dunning_invoice \<Rightarrow> int \<Rightarrow> dunning_error + (dunning_workbench \<times> pending_reminder option)" where
  "wb_apply digest w scope c key i now =
     (if dc_expectedRevision c \<noteq> di_revision i then Inl Dn_conflict
      else case dc_action c of
        Cancel_collection \<Rightarrow> Inr (w\<lparr>wb_cancelled := set_add key (wb_cancelled w),
          wb_decisions := AList.delete key (wb_decisions w)\<rparr>, None)
      | Request_reminder \<Rightarrow>
        if key \<in> set (wb_cancelled w) then Inl Dn_unavailable
        else bind_r (buildDunningReminder digest scope i now) (\<lambda>reminder.
          let result = (case map_of (wb_decisions w) key of
                None \<Rightarrow> \<lparr>pr_decisionId = dc_commandId c, pr_reminder = reminder\<rparr>
              | Some p \<Rightarrow> p)
          in Inr (w\<lparr>wb_decisions := AList.update key result (wb_decisions w)\<rparr>, Some result)))"

definition wb_command :: "(reminder_content \<Rightarrow> string) \<Rightarrow> (string \<Rightarrow> dunning_command \<Rightarrow> string) \<Rightarrow>
    dunning_workbench \<Rightarrow> dunning_scope \<Rightarrow> dunning_command \<Rightarrow> int \<Rightarrow>
    dunning_error + (dunning_workbench \<times> pending_reminder option)" where
  "wb_command digest print_of w scope c now =
     (let key = wb_key (ds_tenantId scope) (dc_invoiceId c) in
      if \<not> revision_safe (dc_expectedRevision c) \<or> \<not> counter_ok now then Inl Dn_invalid_input
      else case map_of (wb_invoices w) key of
        None \<Rightarrow> Inl Dn_unavailable
      | Some i \<Rightarrow> bind_r (dn_scoped scope i) (\<lambda>_.
        let fingerprint = print_of (ds_jobId scope) c;
            k1 = wb_key (ds_tenantId scope) (dc_commandId c);
            k2 = wb_key (ds_tenantId scope) (dc_idempotencyKey c);
            clash = (\<lambda>k. case map_of (wb_commands w) k of None \<Rightarrow> False | Some (f, r) \<Rightarrow> f \<noteq> fingerprint)
        in if clash k1 \<or> clash k2 then Inl Dn_conflict
        else case (map_of (wb_commands w) k1, map_of (wb_commands w) k2) of
            (Some (f, result), Some _) \<Rightarrow> wb_replay digest w scope key i now result
          | _ \<Rightarrow> bind_r (wb_apply digest w scope c key i now) (\<lambda>(w', result).
              Inr (w'\<lparr>wb_commands := AList.update k2 (fingerprint, result)
                       (AList.update k1 (fingerprint, result) (wb_commands w'))\<rparr>, result))))"

definition wb_list :: "dunning_workbench \<Rightarrow> dunning_scope \<Rightarrow> int \<Rightarrow> dunning_error + unpaid_view" where
  "wb_list w scope now = unpaidInvoiceWorkbench scope
     (map (\<lambda>(k, i). Some (if invoice_key i \<in> set (wb_cancelled w) then i\<lparr>di_cancelled := True\<rparr> else i)) (wb_invoices w)) now"

text \<open>The calls a workbench can receive.\<close>

datatype dunning_call = Replace_call dunning_invoice | Command_call dunning_scope dunning_command int

fun wb_call :: "(reminder_content \<Rightarrow> string) \<Rightarrow> (string \<Rightarrow> dunning_command \<Rightarrow> string) \<Rightarrow>
    dunning_workbench \<Rightarrow> dunning_call \<Rightarrow> dunning_error + (dunning_workbench \<times> pending_reminder option)" where
  "wb_call digest print_of w (Replace_call i) = bind_r (wb_replace w i) (\<lambda>w'. Inr (w', None))"
| "wb_call digest print_of w (Command_call scope c now) = wb_command digest print_of w scope c now"

section \<open>Advice on retries\<close>

datatype retry_owner = Ro_existing_payment_owner | Ro_provider | Ro_other

datatype retry_authority = Ra_approved | Ra_expired | Ra_revoked | Ra_failed_consent | Ra_missing

record dunning_retry =
  dt_owner :: retry_owner
  dt_attempts :: int
  dt_failedAtTick :: int
  dt_authority :: retry_authority
  dt_authorityId :: string
  dt_tenantId :: string
  dt_jobId :: string
  dt_invoiceId :: string
  dt_invoiceRevision :: int
  dt_expiresTick :: int
  dt_remainingAuthorityPence :: int
  dt_providerAllowsRetry :: bool
  dt_d05Approved :: bool

definition retryAfterTicks :: "int list" where
  "retryAfterTicks = [1, 3, 7]"

definition maxAttempts :: int where
  "maxAttempts = 3"

definition retryV1 :: "dunning_retry \<Rightarrow> bool" where
  "retryV1 t \<longleftrightarrow> counter_ok (dt_attempts t) \<and> counter_ok (dt_failedAtTick t) \<and> revision_safe (dt_invoiceRevision t) \<and>
     counter_ok (dt_expiresTick t) \<and> pence_ok (dt_remainingAuthorityPence t)"

definition retry_reason :: "dunning_invoice \<Rightarrow> dunning_retry \<Rightarrow> int \<Rightarrow> string" where
  "retry_reason i t now =
     (case dunningSuppression i now of Some s \<Rightarrow> s
      | None \<Rightarrow>
        if dt_owner t \<noteq> Ro_existing_payment_owner then ''owner_conflict''
        else if \<not> dt_d05Approved t \<or> dt_authority t \<noteq> Ra_approved \<or> dt_expiresTick t \<le> now then ''renew_authority''
        else if \<not> dt_providerAllowsRetry t then ''provider_refused''
        else if dt_remainingAuthorityPence t < di_outstandingPence i then ''authority_limit''
        else if di_attemptState i \<noteq> Da_definite_failure then ''no_failed_attempt''
        else if dt_attempts t \<ge> maxAttempts then ''attempt_limit''
        else if now < dt_failedAtTick t + retryAfterTicks ! nat (dt_attempts t) then ''not_due''
        else ''review_existing_owner'')"

definition evaluateDunningRetry ::
  "dunning_scope \<Rightarrow> dunning_invoice \<Rightarrow> dunning_retry \<Rightarrow> int \<Rightarrow> dunning_error + string" where
  "evaluateDunningRetry scope i t now =
     (if \<not> dunningInvoiceV1 i \<or> \<not> retryV1 t \<or> \<not> counter_ok now then Inl Dn_invalid_input
      else bind_r (dn_scoped scope i) (\<lambda>_.
      if dt_tenantId t \<noteq> di_tenantId i \<or> dt_jobId t \<noteq> di_jobId i \<or> dt_invoiceId t \<noteq> di_invoiceId i \<or>
         dt_invoiceRevision t \<noteq> di_revision i then Inl Dn_unavailable
      else Inr (retry_reason i t now)))"

text \<open>The closed inventory of provider automations, all of them disabled in this seam.\<close>

definition DUNNING_PROVIDER_AUTOMATION :: "(string \<times> string) list" where
  "DUNNING_PROVIDER_AUTOMATION = [(''stripe'', ''smart_retries''), (''stripe'', ''subscription_retry_schedule''),
     (''stripe'', ''invoice_reminders''), (''stripe'', ''payment_failure_email''),
     (''stripe'', ''receipt_email''), (''stripe'', ''refund_email''), (''stripe'', ''subscription_lifecycle_email''),
     (''gocardless'', ''payment_retries''), (''gocardless'', ''mandate_email''),
     (''gocardless'', ''advance_notice_email''), (''gocardless'', ''failure_email''),
     (''gocardless'', ''cancellation_email''), (''gocardless'', ''refund_email'')]"

datatype service_status = Sv_active | Sv_suspended | Sv_cancelled

record service_access =
  sa_newWork :: bool
  sa_collection :: bool
  sa_ledger :: bool
  sa_evidence :: bool
  sa_export :: bool
  sa_deleteData :: bool

definition dunningServiceAccess :: "service_status \<Rightarrow> service_access" where
  "dunningServiceAccess s = \<lparr>sa_newWork = (s = Sv_active), sa_collection = (s = Sv_active), sa_ledger = True,
     sa_evidence = True, sa_export = True, sa_deleteData = False\<rparr>"

definition executeDunning :: "dunning_error + unit" where
  "executeDunning = Inl Dn_dark"

section \<open>Reminders follow the facts\<close>

definition fact_reminder :: "(reminder_content \<Rightarrow> string) \<Rightarrow> dunning_invoice \<Rightarrow> dunning_reminder \<Rightarrow> bool" where
  "fact_reminder digest i r \<longleftrightarrow> (\<exists>pounds. formatRecoveryMessagePounds (JInt (di_outstandingPence i)) = Some pounds \<and>
     r = \<lparr>dr_content = reminder_content_of i pounds, dr_contentHash = digest (reminder_content_of i pounds)\<rparr>)"

lemma fact_reminder_unique: "fact_reminder digest i r \<Longrightarrow> fact_reminder digest i q \<Longrightarrow> q = r"
  by (auto simp: fact_reminder_def)

lemma dn_scoped_Inr_iff: "dn_scoped s i = Inr u \<longleftrightarrow> ds_tenantId s = di_tenantId i \<and> ds_jobId s = di_jobId i"
  by (simp add: dn_scoped_def guard_r_Inr_iff)

lemma buildDunningReminder_Inr_iff: "buildDunningReminder digest scope i now = Inr r \<longleftrightarrow>
    dunningInvoiceV1 i \<and> counter_ok now \<and> ds_tenantId scope = di_tenantId i \<and> ds_jobId scope = di_jobId i \<and>
    dunningSuppression i now = None \<and> fact_reminder digest i r"
  unfolding buildDunningReminder_def bind_r_Inr_iff if_Inl_Inr_iff dn_scoped_Inr_iff of_option_Inr_iff
    fact_reminder_def Let_def by auto

definition wb_ok :: "(reminder_content \<Rightarrow> string) \<Rightarrow> dunning_workbench \<Rightarrow> bool" where
  "wb_ok digest w \<longleftrightarrow>
     (\<forall>k i. map_of (wb_invoices w) k = Some i \<longrightarrow> k = invoice_key i \<and> dunningInvoiceV1 i) \<and>
     (\<forall>k p. map_of (wb_decisions w) k = Some p \<longrightarrow> k \<notin> set (wb_cancelled w) \<and>
        (\<exists>i. map_of (wb_invoices w) k = Some i \<and> fact_reminder digest i (pr_reminder p)))"

lemma set_add_member [simp]: "set (set_add k ks) = insert k (set ks)"
  by (auto simp: set_add_def)

lemma map_of_delete [simp]: "map_of (AList.delete k m) = (map_of m)(k := None)"
  by (rule delete_conv')

lemma wb_construct_ok: "wb_construct fixtures = Inr w \<Longrightarrow> wb_ok digest w"
  unfolding wb_construct_def
proof (erule fold_r_invariant [where I = "\<lambda>w. wb_ok digest w \<and> wb_decisions w = []", THEN conjunct1])
  fix w i w'
  assume "wb_ok digest w \<and> wb_decisions w = []" "wb_add w i = Inr w'"
  then show "wb_ok digest w' \<and> wb_decisions w' = []"
    by (auto simp: wb_add_def wb_ok_def split: if_splits)
qed (simp add: wb_ok_def)

lemma wb_replace_Inr_iff: "wb_replace w i = Inr w' \<longleftrightarrow> dunningInvoiceV1 i \<and>
    (\<exists>prior. map_of (wb_invoices w) (invoice_key i) = Some prior \<and> di_jobId prior = di_jobId i \<and>
       di_revision prior < di_revision i) \<and>
    w' = w\<lparr>wb_invoices := AList.update (invoice_key i) i (wb_invoices w),
           wb_decisions := AList.delete (invoice_key i) (wb_decisions w)\<rparr>"
  by (auto simp: wb_replace_def not_le split: option.split)

lemma wb_replay_Inr_iff: "wb_replay digest w scope key i now result = Inr (w', r) \<longleftrightarrow> w' = w \<and> r = result \<and>
    (\<forall>p. result = Some p \<longrightarrow> key \<notin> set (wb_cancelled w) \<and>
      (\<exists>m. buildDunningReminder digest scope i now = Inr m \<and> dr_contentHash (pr_reminder p) = dr_contentHash m))"
  by (auto simp: wb_replay_def bind_r_Inr_iff if_Inl_Inr_iff split: option.split)

definition decided :: "dunning_workbench \<Rightarrow> string \<Rightarrow> dunning_command \<Rightarrow> dunning_reminder \<Rightarrow> pending_reminder" where
  "decided w key c m = (case map_of (wb_decisions w) key of
     None \<Rightarrow> \<lparr>pr_decisionId = dc_commandId c, pr_reminder = m\<rparr> | Some p \<Rightarrow> p)"

lemma wb_apply_Inr_iff: "wb_apply digest w scope c key i now = Inr (w', r) \<longleftrightarrow> dc_expectedRevision c = di_revision i \<and>
    (case dc_action c of
       Cancel_collection \<Rightarrow> r = None \<and> w' = w\<lparr>wb_cancelled := set_add key (wb_cancelled w),
         wb_decisions := AList.delete key (wb_decisions w)\<rparr>
     | Request_reminder \<Rightarrow> key \<notin> set (wb_cancelled w) \<and>
         (\<exists>m. buildDunningReminder digest scope i now = Inr m \<and> r = Some (decided w key c m) \<and>
            w' = w\<lparr>wb_decisions := AList.update key (decided w key c m) (wb_decisions w)\<rparr>))"
  by (auto simp: wb_apply_def decided_def bind_r_Inr_iff if_Inl_Inr_iff Let_def split: dunning_action.split)

text \<open>The two ways a command can succeed: it was recorded before, or it is applied and recorded.\<close>

definition command_keys :: "dunning_scope \<Rightarrow> dunning_command \<Rightarrow> string list" where
  "command_keys scope c = [wb_key (ds_tenantId scope) (dc_commandId c), wb_key (ds_tenantId scope) (dc_idempotencyKey c)]"

definition recorded_as :: "dunning_workbench \<Rightarrow> string \<Rightarrow> string \<Rightarrow> pending_reminder option \<Rightarrow> bool" where
  "recorded_as w k f r \<longleftrightarrow> map_of (wb_commands w) k = Some (f, r)"

definition no_clash :: "dunning_workbench \<Rightarrow> string \<Rightarrow> string list \<Rightarrow> bool" where
  "no_clash w f ks \<longleftrightarrow> (\<forall>k\<in>set ks. \<forall>g r. recorded_as w k g r \<longrightarrow> g = f)"

lemma wb_command_InrE:
  assumes "wb_command digest print_of w scope c now = Inr (w', r)"
  defines "key \<equiv> wb_key (ds_tenantId scope) (dc_invoiceId c)" and "f \<equiv> print_of (ds_jobId scope) c"
  obtains (replayed) i where "map_of (wb_invoices w) key = Some i" "ds_tenantId scope = di_tenantId i"
      "ds_jobId scope = di_jobId i" "no_clash w f (command_keys scope c)"
      "recorded_as w (hd (command_keys scope c)) f r" "\<exists>q. recorded_as w (last (command_keys scope c)) f q"
      "wb_replay digest w scope key i now r = Inr (w', r)" "w' = w"
      "revision_safe (dc_expectedRevision c)" "counter_ok now"
    | (applied) i v where "map_of (wb_invoices w) key = Some i" "ds_tenantId scope = di_tenantId i"
      "ds_jobId scope = di_jobId i" "no_clash w f (command_keys scope c)"
      "wb_apply digest w scope c key i now = Inr (v, r)"
      "w' = v\<lparr>wb_commands := AList.update (last (command_keys scope c)) (f, r)
         (AList.update (hd (command_keys scope c)) (f, r) (wb_commands v))\<rparr>"
      "revision_safe (dc_expectedRevision c)" "counter_ok now"
proof -
  let ?k1 = "wb_key (ds_tenantId scope) (dc_commandId c)" and ?k2 = "wb_key (ds_tenantId scope) (dc_idempotencyKey c)"
  note d = assms(1) [unfolded wb_command_def Let_def, folded key_def f_def]
  obtain i where i: "map_of (wb_invoices w) key = Some i" using d by (auto split: if_splits option.splits)
  from d i have ok: "revision_safe (dc_expectedRevision c)" "counter_ok now"
    "ds_tenantId scope = di_tenantId i" "ds_jobId scope = di_jobId i"
    by (auto simp: bind_r_Inr_iff dn_scoped_Inr_iff split: if_splits)
  have clash: "no_clash w f (command_keys scope c)"
    using d i ok by (auto simp: bind_r_Inr_iff no_clash_def recorded_as_def command_keys_def split: if_splits option.splits)
  show ?thesis
  proof (cases "map_of (wb_commands w) ?k1 \<noteq> None \<and> map_of (wb_commands w) ?k2 \<noteq> None")
    case True
    then obtain a q b s where rec: "map_of (wb_commands w) ?k1 = Some (a, q)" "map_of (wb_commands w) ?k2 = Some (b, s)"
      by auto
    with clash have "a = f" "b = f" by (auto simp: no_clash_def recorded_as_def command_keys_def)
    moreover from d i rec ok calculation have "wb_replay digest w scope key i now q = Inr (w', r)"
      by (auto simp: bind_r_Inr_iff split: if_splits)
    moreover from this have "w' = w" "r = q" by (simp_all add: wb_replay_Inr_iff)
    ultimately show ?thesis using i ok clash rec by (intro replayed) (auto simp: recorded_as_def command_keys_def)
  next
    case False
    have "bind_r (wb_apply digest w scope c key i now) (\<lambda>(w', result).
        Inr (w'\<lparr>wb_commands := AList.update ?k2 (f, result) (AList.update ?k1 (f, result) (wb_commands w'))\<rparr>, result))
      = Inr (w', r)"
      using d i ok False by (auto simp: bind_r_Inr_iff dn_scoped_Inr_iff split: if_splits option.splits)
    then obtain v where "wb_apply digest w scope c key i now = Inr (v, r)"
      "w' = v\<lparr>wb_commands := AList.update ?k2 (f, r) (AList.update ?k1 (f, r) (wb_commands v))\<rparr>"
      by (auto simp: bind_r_Inr_iff)
    with i ok clash show ?thesis by (intro applied) (auto simp: command_keys_def)
  qed
qed

lemma wb_apply_keeps:
  assumes "wb_ok digest w" "wb_apply digest w scope c key i now = Inr (v, r)" "map_of (wb_invoices w) key = Some i"
  shows "wb_ok digest v" "wb_invoices v = wb_invoices w" "set (wb_cancelled w) \<subseteq> set (wb_cancelled v)"
    and "r = Some p \<Longrightarrow> key \<notin> set (wb_cancelled v) \<and> (\<exists>m. buildDunningReminder digest scope i now = Inr m \<and> pr_reminder p = m)"
    and "dc_action c = Cancel_collection \<Longrightarrow> key \<in> set (wb_cancelled v)"
proof -
  note d = assms(2) [unfolded wb_apply_Inr_iff]
  have decided: "fact_reminder digest i (pr_reminder (decided w key c m))" if "fact_reminder digest i m" for m
  proof (cases "map_of (wb_decisions w) key")
    case (Some p)
    then have "fact_reminder digest i (pr_reminder p)" using assms(1,3) by (fastforce simp: wb_ok_def)
    with Some show ?thesis by (simp add: decided_def)
  qed (simp add: decided_def that)
  show "wb_ok digest v" "wb_invoices v = wb_invoices w" "set (wb_cancelled w) \<subseteq> set (wb_cancelled v)"
    using d assms(1,3) decided
    by (auto simp: wb_ok_def buildDunningReminder_Inr_iff split: dunning_action.splits if_splits)
  show "key \<notin> set (wb_cancelled v) \<and> (\<exists>m. buildDunningReminder digest scope i now = Inr m \<and> pr_reminder p = m)"
    if "r = Some p"
  proof -
    from d that obtain m where m: "key \<notin> set (wb_cancelled w)" "buildDunningReminder digest scope i now = Inr m"
      "p = decided w key c m" "v = w\<lparr>wb_decisions := AList.update key (decided w key c m) (wb_decisions w)\<rparr>"
      by (auto split: dunning_action.splits)
    then have "fact_reminder digest i m" by (simp add: buildDunningReminder_Inr_iff)
    with decided m(3) have "pr_reminder p = m" using fact_reminder_unique by blast
    with m show ?thesis by simp
  qed
  show "dc_action c = Cancel_collection \<Longrightarrow> key \<in> set (wb_cancelled v)" using d by auto
qed

lemma wb_command_keeps:
  assumes "wb_ok digest w" "wb_command digest print_of w scope c now = Inr (w', r)"
  shows "wb_ok digest w'" "set (wb_cancelled w) \<subseteq> set (wb_cancelled w')"
  using assms(2)
proof (atomize (full), cases rule: wb_command_InrE)
  case (replayed i)
  with assms(1) show "wb_ok digest w' \<and> set (wb_cancelled w) \<subseteq> set (wb_cancelled w')" by simp
next
  case (applied i v)
  from wb_apply_keeps(1,3) [OF assms(1) applied(5,1)] applied(6)
  show "wb_ok digest w' \<and> set (wb_cancelled w) \<subseteq> set (wb_cancelled w')" by (simp add: wb_ok_def)
qed

lemma wb_replace_keeps:
  assumes "wb_ok digest w" "wb_replace w i = Inr w'"
  shows "wb_ok digest w'" "wb_cancelled w' = wb_cancelled w"
  using assms by (auto simp: wb_replace_Inr_iff wb_ok_def split: if_splits)

lemma wb_call_keeps:
  assumes "wb_ok digest w" "wb_call digest print_of w e = Inr (w', r)"
  shows "wb_ok digest w'" "set (wb_cancelled w) \<subseteq> set (wb_cancelled w')"
proof (atomize (full), cases e)
  case (Replace_call i)
  with assms show "wb_ok digest w' \<and> set (wb_cancelled w) \<subseteq> set (wb_cancelled w')"
    using wb_replace_keeps [OF assms(1)] by (auto simp: bind_r_Inr_iff)
next
  case (Command_call scope c now)
  with assms show "wb_ok digest w' \<and> set (wb_cancelled w) \<subseteq> set (wb_cancelled w')"
    using wb_command_keeps [OF assms(1)] by simp
qed

interpretation wb: latched_machine "wb_call digest print_of" "wb_ok digest" "\<lambda>w. key \<in> set (wb_cancelled w)"
  for digest print_of key
  by unfold_locales (use wb_call_keeps in blast)+

text \<open>The states a workbench can be in.\<close>

definition wb_reached :: "(reminder_content \<Rightarrow> string) \<Rightarrow> (string \<Rightarrow> dunning_command \<Rightarrow> string) \<Rightarrow>
    dunning_invoice list \<Rightarrow> dunning_call list \<Rightarrow> dunning_workbench \<Rightarrow> bool" where
  "wb_reached digest print_of fixtures calls w \<longleftrightarrow>
     (case wb_construct fixtures of Inl e \<Rightarrow> False | Inr w0 \<Rightarrow> w = run_events (wb_call digest print_of) w0 calls)"

lemma wb_reached_ok: "wb_reached digest print_of fixtures calls w \<Longrightarrow> wb_ok digest w"
  by (cases "wb_construct fixtures") (simp_all add: wb_reached_def wb.run_keeps [OF wb_construct_ok])

lemma wb_command_reminder:
  assumes "wb_ok digest w" "wb_command digest print_of w scope c now = Inr (w', Some p)"
  defines "key \<equiv> wb_key (ds_tenantId scope) (dc_invoiceId c)"
  shows "key \<notin> set (wb_cancelled w) \<and> (\<exists>i m. map_of (wb_invoices w) key = Some i \<and>
    buildDunningReminder digest scope i now = Inr m \<and> dr_contentHash (pr_reminder p) = dr_contentHash m)"
  using assms(2)
proof (cases rule: wb_command_InrE)
  case (replayed i)
  then show ?thesis by (auto simp: wb_replay_Inr_iff key_def)
next
  case (applied i v)
  from wb_apply_keeps(3,4) [OF assms(1) applied(5,1)] applied(1) show ?thesis by (auto simp: key_def)
qed

text \<open>
  C12. A reminder is always about the facts of the moment. Whatever calls a workbench has received,
  a command that returns a pending reminder finds the invoice of its own tenant and job, not cancelled
  and not suppressed at that tick, and the reminder carries the hash of the content built from the
  invoice as it is now. An approval is accepted only if the stored decision is the presented one,
  approved and not expired, for this invoice, and its hash is that of the invoice's current content.
\<close>

theorem dunning_reminder_current:
  shows "(wb_reached digest print_of fixtures calls w \<and>
      wb_command digest print_of w scope c now = Inr (w', Some p) \<longrightarrow>
      (\<exists>i pounds. map_of (wb_invoices w) (wb_key (ds_tenantId scope) (dc_invoiceId c)) = Some i \<and>
        di_tenantId i = ds_tenantId scope \<and> di_jobId i = ds_jobId scope \<and>
        invoice_key i \<notin> set (wb_cancelled w) \<and> dunningSuppression i now = None \<and>
        formatRecoveryMessagePounds (JInt (di_outstandingPence i)) = Some pounds \<and>
        dr_contentHash (pr_reminder p) = digest (reminder_content_of i pounds))) \<and>
    (dunningApprovalMatches digest resolveDecision scope i a now = Inr True \<longrightarrow>
      resolveDecision (ap_decisionId a) = Some a \<and> ap_status a = Ap_approved \<and> now < ap_expiresTick a \<and>
      ap_tenantId a = di_tenantId i \<and> ap_jobId a = di_jobId i \<and> ap_invoiceId a = di_invoiceId i \<and>
      dunningSuppression i now = None \<and>
      (\<exists>pounds. formatRecoveryMessagePounds (JInt (di_outstandingPence i)) = Some pounds \<and>
        ap_contentHash a = digest (reminder_content_of i pounds)))"
proof -
  have a: "\<exists>i pounds. map_of (wb_invoices w) (wb_key (ds_tenantId scope) (dc_invoiceId c)) = Some i \<and>
        di_tenantId i = ds_tenantId scope \<and> di_jobId i = ds_jobId scope \<and>
        invoice_key i \<notin> set (wb_cancelled w) \<and> dunningSuppression i now = None \<and>
        formatRecoveryMessagePounds (JInt (di_outstandingPence i)) = Some pounds \<and>
        dr_contentHash (pr_reminder p) = digest (reminder_content_of i pounds)"
    if "wb_reached digest print_of fixtures calls w" "wb_command digest print_of w scope c now = Inr (w', Some p)"
  proof -
    have ok: "wb_ok digest w" using that(1) by (rule wb_reached_ok)
    from wb_command_reminder [OF ok that(2)] obtain i m where
      i: "map_of (wb_invoices w) (wb_key (ds_tenantId scope) (dc_invoiceId c)) = Some i"
      and "wb_key (ds_tenantId scope) (dc_invoiceId c) \<notin> set (wb_cancelled w)"
      and "buildDunningReminder digest scope i now = Inr m" "dr_contentHash (pr_reminder p) = dr_contentHash m" by blast
    moreover have "invoice_key i = wb_key (ds_tenantId scope) (dc_invoiceId c)" using ok i by (simp add: wb_ok_def)
    ultimately show ?thesis by (auto simp: buildDunningReminder_Inr_iff fact_reminder_def)
  qed
  have b: "resolveDecision (ap_decisionId a) = Some a \<and> ap_status a = Ap_approved \<and> now < ap_expiresTick a \<and>
      ap_tenantId a = di_tenantId i \<and> ap_jobId a = di_jobId i \<and> ap_invoiceId a = di_invoiceId i \<and>
      dunningSuppression i now = None \<and>
      (\<exists>pounds. formatRecoveryMessagePounds (JInt (di_outstandingPence i)) = Some pounds \<and>
        ap_contentHash a = digest (reminder_content_of i pounds))"
    if "dunningApprovalMatches digest resolveDecision scope i a now = Inr True"
    using that by (auto simp: dunningApprovalMatches_def bind_r_Inr_iff if_Inl_Inr_iff buildDunningReminder_Inr_iff
      fact_reminder_def reminder_content_of_def split: option.splits if_splits)
  show ?thesis using a b by blast
qed

lemma unpaid_row_source:
  assumes "unpaidInvoiceWorkbench scope raws now = Inr view" "row \<in> set (uv_invoices view)"
  shows "\<exists>i. Some i \<in> set raws \<and> di_tenantId i = ds_tenantId scope \<and> row = unpaid_row_of now i"
proof -
  from assms obtain i where i: "i \<in> set (List.map_filter parsed_row raws)" "di_tenantId i = ds_tenantId scope"
    "row = unpaid_row_of now i" by (auto simp: unpaidInvoiceWorkbench_def if_Inl_Inr_iff)
  then obtain raw where "raw \<in> set raws" "parsed_row raw = Some i" by (auto simp: List.map_filter_def)
  then have "raw = Some i" by (auto simp: parsed_row_def split: option.splits if_splits)
  with i \<open>raw \<in> set raws\<close> show ?thesis by auto
qed

text \<open>
  Cancelled collection never revives. A cancel command that is applied latches its invoice;
  from then on, whatever further facts and commands arrive, the invoice stays cancelled, no command
  for it returns a reminder, and the list shows each of its rows as suppressed.
\<close>

lemma dunning_cancel_final:
  fixes scope :: dunning_scope and c :: dunning_command
  assumes "wb_reached digest print_of fixtures calls w"
  defines "key \<equiv> wb_key (ds_tenantId scope) (dc_invoiceId c)"
  shows "(wb_command digest print_of w scope c now = Inr (w', r) \<and>
      dc_action c = Cancel_collection \<and>
      map_of (wb_commands w) (wb_key (ds_tenantId scope) (dc_commandId c)) = None \<longrightarrow>
      key \<in> set (wb_cancelled w')) \<and>
    (key \<in> set (wb_cancelled w) \<longrightarrow>
      key \<in> set (wb_cancelled (run_events (wb_call digest print_of) w later))) \<and>
    (key \<in> set (wb_cancelled w) \<longrightarrow>
      wb_command digest print_of (run_events (wb_call digest print_of) w later) scope c tick \<noteq> Inr (w'', Some p)) \<and>
    (key \<in> set (wb_cancelled w) \<and>
      wb_list w scope now = Inr view \<and>
      row \<in> set (uv_invoices view) \<and>
      ur_invoiceId row = dc_invoiceId c \<longrightarrow>
      ur_suppression row \<noteq> None)"
proof -
  have ok: "wb_ok digest w" using assms(1) by (rule wb_reached_ok)
  have applies: "key \<in> set (wb_cancelled w')" if "wb_command digest print_of w scope c now = Inr (w', r)"
    "dc_action c = Cancel_collection" "map_of (wb_commands w) (wb_key (ds_tenantId scope) (dc_commandId c)) = None"
    using that(1)
  proof (cases rule: wb_command_InrE)
    case (replayed i)
    with that(3) show ?thesis by (simp add: recorded_as_def command_keys_def)
  next
    case (applied i v)
    from wb_apply_keeps(5) [OF ok applied(5,1) that(2)] applied(6) show ?thesis by (simp add: key_def)
  qed
  have latched: "key \<in> set (wb_cancelled (run_events (wb_call digest print_of) w later))"
    if "key \<in> set (wb_cancelled w)" for later
    using wb.run_latched [OF ok] that by blast
  have d: "wb_command digest print_of (run_events (wb_call digest print_of) w later) scope c tick \<noteq> Inr (w'', Some p)"
    if "key \<in> set (wb_cancelled w)"
    using latched [OF that, of later] wb_command_reminder [OF wb.run_keeps [OF ok]] unfolding key_def by blast
  have e: "ur_suppression row \<noteq> None"
    if "key \<in> set (wb_cancelled w)" "wb_list w scope now = Inr view" "row \<in> set (uv_invoices view)" "ur_invoiceId row = dc_invoiceId c"
  proof -
    from unpaid_row_source [OF that(2) [unfolded wb_list_def] that(3)] obtain k x where x:
      "di_tenantId x = ds_tenantId scope"
      "row = unpaid_row_of now (if invoice_key x \<in> set (wb_cancelled w) then x\<lparr>di_cancelled := True\<rparr> else x)"
      by (auto split: if_splits)
    with x that(4) have "invoice_key x = key"
      by (auto simp: unpaid_row_of_def invoice_key_def key_def split: if_splits)
    with x(2) that(1) show ?thesis by (auto simp: unpaid_row_of_def dunningSuppression_def)
  qed
  show ?thesis using applies latched d e by blast
qed

text \<open>
  Commands are idempotent. Delivering a command again at the same tick returns the same result
  and changes nothing, and after it any command of the same tenant that reuses its command identifier
  or its idempotency key with another fingerprint is refused.
\<close>

lemma dunning_command_idempotent:
  assumes "wb_reached digest print_of fixtures calls w"
    and "wb_command digest print_of w scope c now = Inr (w', r)"
  shows "wb_command digest print_of w' scope c now = Inr (w', r) \<and>
    (ds_tenantId scope' = ds_tenantId scope \<and>
      (dc_commandId c' = dc_commandId c \<or> dc_idempotencyKey c' = dc_idempotencyKey c) \<and>
      print_of (ds_jobId scope') c' \<noteq> print_of (ds_jobId scope) c \<longrightarrow>
      wb_command digest print_of w' scope' c' tick \<noteq> Inr (w'', q))"
proof -
  let ?f = "print_of (ds_jobId scope) c" and ?key = "wb_key (ds_tenantId scope) (dc_invoiceId c)"
  have ok: "wb_ok digest w" using assms(1) by (rule wb_reached_ok)
  have rec: "(\<exists>a. recorded_as w' (hd (command_keys scope c)) ?f r) \<and> (\<exists>b. recorded_as w' (last (command_keys scope c)) ?f b)"
    and again: "\<exists>i. map_of (wb_invoices w') ?key = Some i \<and> ds_tenantId scope = di_tenantId i \<and> ds_jobId scope = di_jobId i \<and>
      wb_replay digest w' scope ?key i now r = Inr (w', r) \<and> revision_safe (dc_expectedRevision c) \<and> counter_ok now"
    using assms(2)
  proof (atomize (full), cases rule: wb_command_InrE)
    case (replayed i)
    then show "((\<exists>a. recorded_as w' (hd (command_keys scope c)) ?f r) \<and> (\<exists>b. recorded_as w' (last (command_keys scope c)) ?f b)) \<and>
      (\<exists>i. map_of (wb_invoices w') ?key = Some i \<and> ds_tenantId scope = di_tenantId i \<and> ds_jobId scope = di_jobId i \<and>
      wb_replay digest w' scope ?key i now r = Inr (w', r) \<and> revision_safe (dc_expectedRevision c) \<and> counter_ok now)" by auto
  next
    case (applied i v)
    note keeps = wb_apply_keeps [OF ok applied(5,1)]
    have "wb_replay digest w' scope ?key i now r = Inr (w', r)"
      using keeps(4) applied(6) by (auto simp: wb_replay_Inr_iff)
    moreover have "map_of (wb_invoices w') ?key = Some i" using keeps(2) applied(1,6) by simp
    ultimately show "((\<exists>a. recorded_as w' (hd (command_keys scope c)) ?f r) \<and> (\<exists>b. recorded_as w' (last (command_keys scope c)) ?f b)) \<and>
      (\<exists>i. map_of (wb_invoices w') ?key = Some i \<and> ds_tenantId scope = di_tenantId i \<and> ds_jobId scope = di_jobId i \<and>
      wb_replay digest w' scope ?key i now r = Inr (w', r) \<and> revision_safe (dc_expectedRevision c) \<and> counter_ok now)"
      using applied(2,3,6,7,8) by (auto simp: recorded_as_def)
  qed
  from rec obtain b where keys: "map_of (wb_commands w') (wb_key (ds_tenantId scope) (dc_commandId c)) = Some (?f, r)"
    "map_of (wb_commands w') (wb_key (ds_tenantId scope) (dc_idempotencyKey c)) = Some (?f, b)"
    by (auto simp: recorded_as_def command_keys_def)
  with again have a: "wb_command digest print_of w' scope c now = Inr (w', r)"
    by (auto simp: wb_command_def Let_def dn_scoped_def)
  have b: "wb_command digest print_of w' scope' c' tick \<noteq> Inr (w'', q)"
    if "ds_tenantId scope' = ds_tenantId scope" "dc_commandId c' = dc_commandId c \<or> dc_idempotencyKey c' = dc_idempotencyKey c"
      "print_of (ds_jobId scope') c' \<noteq> ?f"
  proof
    assume "wb_command digest print_of w' scope' c' tick = Inr (w'', q)"
    then have "no_clash w' (print_of (ds_jobId scope') c') (command_keys scope' c')"
      by (cases rule: wb_command_InrE) blast+
    with keys that show False by (auto simp: no_clash_def recorded_as_def command_keys_def)
  qed
  show ?thesis using a b by blast
qed

section \<open>When a retry is advised\<close>

definition chaseable :: "dunning_invoice \<Rightarrow> bool" where
  "chaseable i \<longleftrightarrow> \<not> di_pilotNoCharge i \<and> \<not> di_cancelled i \<and> \<not> di_disputed i \<and> \<not> di_refundPending i \<and>
     \<not> di_reversed i \<and> 0 < di_outstandingPence i \<and>
     (di_sourceState i = Ds_issued_invoice \<or> di_sourceState i = Ds_locked_final_account)"

lemma dunningSuppression_None_iff: "dunningInvoiceV1 i \<Longrightarrow> dunningSuppression i now = None \<longleftrightarrow>
    chaseable i \<and> (di_attemptState i = Da_none \<or> di_attemptState i = Da_definite_failure) \<and> di_dueTick i \<le> now"
  by (cases "di_sourceState i"; cases "di_attemptState i")
    (auto simp: dunningSuppression_def chaseable_def dunningInvoiceV1_def pence_ok_def)

lemma dunningSuppression_reason: "dunningSuppression i now \<noteq> Some ''review_existing_owner''"
  by (simp add: dunningSuppression_def)

lemma retry_reason_review_iff: "dunningInvoiceV1 i \<Longrightarrow> retry_reason i t now = ''review_existing_owner'' \<longleftrightarrow>
    chaseable i \<and> di_attemptState i = Da_definite_failure \<and> di_dueTick i \<le> now \<and>
    dt_owner t = Ro_existing_payment_owner \<and> dt_d05Approved t \<and> dt_authority t = Ra_approved \<and>
    now < dt_expiresTick t \<and> dt_providerAllowsRetry t \<and> di_outstandingPence i \<le> dt_remainingAuthorityPence t \<and>
    dt_attempts t < 3 \<and> dt_failedAtTick t + retryAfterTicks ! nat (dt_attempts t) \<le> now"
proof (cases "dunningSuppression i now")
  case None
  assume "dunningInvoiceV1 i"
  then have "chaseable i" "di_attemptState i = Da_none \<or> di_attemptState i = Da_definite_failure" "di_dueTick i \<le> now"
    using None dunningSuppression_None_iff by blast+
  with None show ?thesis by (auto simp: retry_reason_def maxAttempts_def not_less not_le)
next
  case (Some s)
  assume i: "dunningInvoiceV1 i"
  from Some have "s \<noteq> ''review_existing_owner''" using dunningSuppression_reason by metis
  with Some dunningSuppression_None_iff [OF i, of now] show ?thesis by (auto simp: retry_reason_def)
qed

text \<open>
  A retry is advised exactly in one window of ticks: for a valid invoice in scope, chaseable and
  with a definite failure behind it, an approved and sufficient authority of the existing payment
  owner, and fewer than three attempts, from the later of the due tick and the failure tick plus
  1, 3 or 7 ticks, up to but not including the tick at which the authority expires. In every other
  case no retry is advised.
\<close>

lemma dunning_retry_window:
  assumes "dunningInvoiceV1 i" and "retryV1 t"
  shows "{now. evaluateDunningRetry scope i t now = Inr ''review_existing_owner''} =
    (if ds_tenantId scope = di_tenantId i \<and> ds_jobId scope = di_jobId i \<and>
        dt_tenantId t = di_tenantId i \<and> dt_jobId t = di_jobId i \<and> dt_invoiceId t = di_invoiceId i \<and>
        dt_invoiceRevision t = di_revision i \<and> chaseable i \<and> di_attemptState i = Da_definite_failure \<and>
        dt_owner t = Ro_existing_payment_owner \<and> dt_d05Approved t \<and> dt_authority t = Ra_approved \<and>
        dt_providerAllowsRetry t \<and> di_outstandingPence i \<le> dt_remainingAuthorityPence t \<and> dt_attempts t < 3
     then {max (di_dueTick i) (dt_failedAtTick t +
              (if dt_attempts t = 0 then 1 else if dt_attempts t = 1 then 3 else 7)) ..< dt_expiresTick t}
     else {})"
proof -
  have ticks: "0 \<le> di_dueTick i" "0 \<le> dt_failedAtTick t" "dt_expiresTick t \<le> MAX_SAFE" "0 \<le> dt_attempts t"
    using assms by (auto simp: dunningInvoiceV1_def retryV1_def counter_ok_def)
  have delay: "dt_attempts t < 3 \<Longrightarrow>
      retryAfterTicks ! nat (dt_attempts t) = (if dt_attempts t = 0 then 1 else if dt_attempts t = 1 then 3 else 7)"
    using ticks(4) by (auto simp: retryAfterTicks_def nat_eq_iff numeral_2_eq_2 nth_Cons split: nat.split)
  have "evaluateDunningRetry scope i t now = Inr ''review_existing_owner'' \<longleftrightarrow> counter_ok now \<and>
      ds_tenantId scope = di_tenantId i \<and> ds_jobId scope = di_jobId i \<and>
      dt_tenantId t = di_tenantId i \<and> dt_jobId t = di_jobId i \<and> dt_invoiceId t = di_invoiceId i \<and>
      dt_invoiceRevision t = di_revision i \<and> retry_reason i t now = ''review_existing_owner''" for now
    using assms by (auto simp: evaluateDunningRetry_def bind_r_Inr_iff dn_scoped_Inr_iff if_Inl_Inr_iff)
  moreover have "counter_ok now" if "di_dueTick i \<le> now" "now < dt_expiresTick t" for now
    using that ticks by (auto simp: counter_ok_def)
  ultimately show ?thesis
    using delay by (auto simp: retry_reason_review_iff [OF assms(1)])
qed

section \<open>A concrete workbench\<close>

definition dn_invoice :: dunning_invoice where
  "dn_invoice = \<lparr>di_tenantId = ''t'', di_jobId = ''j'', di_invoiceId = ''i'', di_revision = 1, di_sourceRevision = 1,
     di_sourceHash = sample_hash, di_sourceState = Ds_issued_invoice, di_finalAccountLockId = None,
     di_originalPence = 900, di_outstandingPence = 450, di_dueTick = 5, di_category = Dc_customer,
     di_recipient = ''a@b.invalid'', di_pilotNoCharge = False, di_disputed = False, di_refundPending = False,
     di_reversed = False, di_cancelled = False, di_attemptState = Da_definite_failure\<rparr>"

definition dn_scope :: dunning_scope where
  "dn_scope = \<lparr>ds_tenantId = ''t'', ds_jobId = ''j''\<rparr>"

definition dn_request :: dunning_command where
  "dn_request = \<lparr>dc_commandId = ''c1'', dc_idempotencyKey = ''k1'', dc_invoiceId = ''i'', dc_expectedRevision = 1,
     dc_action = Request_reminder\<rparr>"

definition dn_cancel :: dunning_command where
  "dn_cancel = dn_request\<lparr>dc_commandId := ''c2'', dc_idempotencyKey := ''k2'', dc_action := Cancel_collection\<rparr>"

definition dn_digest :: "reminder_content \<Rightarrow> string" where
  "dn_digest c = sample_hash"

definition dn_print :: "string \<Rightarrow> dunning_command \<Rightarrow> string" where
  "dn_print job c = job @ dc_commandId c @ dc_idempotencyKey c"

definition dn_start :: dunning_workbench where
  "dn_start = \<lparr>wb_invoices = [(''t:i'', dn_invoice)], wb_commands = [], wb_cancelled = [], wb_decisions = []\<rparr>"

definition dn_pending :: pending_reminder where
  "dn_pending = \<lparr>pr_decisionId = ''c1'', pr_reminder =
     \<lparr>dr_content = reminder_content_of dn_invoice ''4.50'', dr_contentHash = sample_hash\<rparr>\<rparr>"

definition dn_requested :: dunning_workbench where
  "dn_requested = \<lparr>wb_invoices = [(''t:i'', dn_invoice)],
     wb_commands = [(''t:c1'', ''jc1k1'', Some dn_pending), (''t:k1'', ''jc1k1'', Some dn_pending)],
     wb_cancelled = [], wb_decisions = [(''t:i'', dn_pending)]\<rparr>"

definition dn_cancelled_wb :: dunning_workbench where
  "dn_cancelled_wb = \<lparr>wb_invoices = [(''t:i'', dn_invoice)],
     wb_commands = [(''t:c2'', ''jc2k2'', None), (''t:k2'', ''jc2k2'', None)],
     wb_cancelled = [''t:i''], wb_decisions = []\<rparr>"

lemma dn_start_reached: "wb_reached digest print_of [dn_invoice] [] dn_start"
proof -
  have "wb_construct [dn_invoice] = Inr dn_start" by code_simp
  then show ?thesis by (simp add: wb_reached_def)
qed

lemma dn_request_result: "wb_command dn_digest dn_print dn_start dn_scope dn_request 6 = Inr (dn_requested, Some dn_pending)"
  by code_simp

lemma dn_cancel_result: "wb_command dn_digest dn_print dn_start dn_scope dn_cancel 6 = Inr (dn_cancelled_wb, None)"
  by code_simp

lemma dn_cancelled_reached: "wb_reached dn_digest dn_print [dn_invoice] [Command_call dn_scope dn_cancel 6] dn_cancelled_wb"
  using dn_start_reached [of dn_digest dn_print] dn_cancel_result
  by (auto simp: wb_reached_def after_def split: sum.splits)

definition dn_approval :: dunning_approval where
  "dn_approval = \<lparr>ap_decisionId = ''d'', ap_tenantId = ''t'', ap_jobId = ''j'', ap_invoiceId = ''i'',
     ap_status = Ap_approved, ap_contentHash = sample_hash, ap_expiresTick = 20\<rparr>"

lemma dn_approval_result: "dunningApprovalMatches dn_digest (\<lambda>k. if k = ''d'' then Some dn_approval else None)
    dn_scope dn_invoice dn_approval 6 = Inr True"
  by code_simp

definition dn_retry :: dunning_retry where
  "dn_retry = \<lparr>dt_owner = Ro_existing_payment_owner, dt_attempts = 1, dt_failedAtTick = 9, dt_authority = Ra_approved, dt_authorityId = ''s'',
     dt_tenantId = ''t'', dt_jobId = ''j'', dt_invoiceId = ''i'', dt_invoiceRevision = 1, dt_expiresTick = 20,
     dt_remainingAuthorityPence = 450, dt_providerAllowsRetry = True, dt_d05Approved = True\<rparr>"

theorem dunning_reminder_current_witness:
  "(\<exists>i pounds. map_of (wb_invoices dn_start) ''t:i'' = Some i \<and> dunningSuppression i 6 = None \<and>
     dr_contentHash (pr_reminder dn_pending) = dn_digest (reminder_content_of i pounds)) \<and> 6 < ap_expiresTick dn_approval"
  using dunning_reminder_current [THEN conjunct1, THEN mp, OF conjI [OF dn_start_reached dn_request_result]]
    dunning_reminder_current [THEN conjunct2, THEN mp, OF dn_approval_result]
  by (auto simp: wb_key_def dn_scope_def dn_request_def)

lemma dunning_cancel_final_witness:
  "''t:i'' \<in> set (wb_cancelled (run_events (wb_call dn_digest dn_print) dn_cancelled_wb
      [Replace_call (dn_invoice\<lparr>di_revision := 2\<rparr>)])) \<and>
   wb_command dn_digest dn_print (run_events (wb_call dn_digest dn_print) dn_cancelled_wb
      [Replace_call (dn_invoice\<lparr>di_revision := 2\<rparr>)]) dn_scope dn_request 9 \<noteq> Inr (dn_requested, Some dn_pending)"
proof -
  have "wb_key (ds_tenantId dn_scope) (dc_invoiceId dn_request) \<in> set (wb_cancelled dn_cancelled_wb)" by code_simp
  note fin = dunning_cancel_final [OF dn_cancelled_reached, THEN conjunct2, THEN conjunct1, THEN mp, OF this]
    dunning_cancel_final [OF dn_cancelled_reached, THEN conjunct2, THEN conjunct2, THEN conjunct1, THEN mp, OF this]
  have "wb_key (ds_tenantId dn_scope) (dc_invoiceId dn_request) = ''t:i''" by code_simp
  with fin show ?thesis by metis
qed

lemma dunning_command_idempotent_witness:
  "wb_command dn_digest dn_print dn_requested dn_scope dn_request 6 = Inr (dn_requested, Some dn_pending)"
  by (rule dunning_command_idempotent [OF dn_start_reached dn_request_result, THEN conjunct1])

lemma dunning_retry_window_witness:
  "{now. evaluateDunningRetry dn_scope dn_invoice dn_retry now = Inr ''review_existing_owner''} = {12..<20}"
proof -
  have "dunningInvoiceV1 dn_invoice" "retryV1 dn_retry" by code_simp+
  from dunning_retry_window [OF this, of dn_scope] show ?thesis
    by (simp add: dn_scope_def dn_invoice_def dn_retry_def chaseable_def)
qed

end
