(* ===== verification/Offline_Queue.thy ===== *)
theory Offline_Queue
  imports Schemas
begin

text \<open>
  The offline command queue of \<^verbatim>\<open>offline-client-queue.ts\<close> and the reconciliation view of
  \<^verbatim>\<open>offline-reconciliation.ts\<close>. The list of items is in capture order. The step relation
  \<open>queue_step\<close> is what a client does with the queue: it captures a new command, claims the next
  attempt, applies an answer to a command it has sent, and reloads its saved queue.
\<close>

datatype offline_kind = Ok_site_extra | Ok_work_state | Ok_commercial_intent

datatype offline_status = Os_queued | Os_sending | Os_recorded | Os_needs_review

record offline_item =
  oi_commandId :: string
  oi_jobId :: string
  oi_payloadHash :: string
  oi_expectedRevision :: "int option"
  oi_kind :: offline_kind
  oi_attemptCount :: int
  oi_nextAttemptAtMs :: int
  oi_status :: offline_status

datatype upload_state = Us_acknowledged | Us_rejected | Us_conflict | Us_retryable

record upload_result =
  ul_commandId :: string
  ul_state :: upload_state
  ul_code :: string

text \<open>\<open>Oq_schema\<close> is the exception of the schema library itself.\<close>

datatype offline_error = Oq_invalid_item | Oq_identity_conflict | Oq_schema

definition offlineQueueResultCodesV1 :: "string list" where
  "offlineQueueResultCodesV1 =
     [''RECORDED'', ''INVALID_INTENT'', ''PAYLOAD_HASH_MISMATCH'', ''IDEMPOTENCY_CONFLICT'', ''PERMISSION_REVOKED'',
      ''STALE_REVISION'', ''STALE_PRICE'', ''ACCEPTED_VERSION_CHANGED'', ''APPROVAL_EXPIRED'', ''AUTHORITY_CHANGED'',
      ''COMPLETION_CONFLICT'', ''LOCKED_BILL'', ''ONLINE_REVIEW_REQUIRED'', ''UNAVAILABLE'']"

definition oq_maxAttempts :: int where "oq_maxAttempts = 8"
definition oq_baseDelayMs :: int where "oq_baseDelayMs = 1000"
definition oq_maxDelayMs :: int where "oq_maxDelayMs = 60000"
definition oq_maxJitterMs :: int where "oq_maxJitterMs = 1000"

lemmas retry_limits = oq_maxAttempts_def oq_baseDelayMs_def oq_maxDelayMs_def oq_maxJitterMs_def

definition offlineQueueItemV1 :: "offline_item \<Rightarrow> bool" where
  "offlineQueueItemV1 i \<longleftrightarrow> sha_text (oi_payloadHash i) \<and>
     (case oi_expectedRevision i of None \<Rightarrow> True | Some r \<Rightarrow> counter_ok r) \<and>
     counter_ok (oi_attemptCount i) \<and> counter_ok (oi_nextAttemptAtMs i) \<and>
     (oi_kind i \<noteq> Ok_commercial_intent \<or> oi_status i \<noteq> Os_recorded)"

definition parseItem :: "offline_item \<Rightarrow> offline_error + offline_item" where
  "parseItem i = (if offlineQueueItemV1 i then Inr i else Inl Oq_invalid_item)"

definition sameIdentity :: "offline_item \<Rightarrow> offline_item \<Rightarrow> bool" where
  "sameIdentity a b \<longleftrightarrow> oi_payloadHash a = oi_payloadHash b \<and> oi_jobId a = oi_jobId b \<and> oi_kind a = oi_kind b \<and>
     oi_expectedRevision a = oi_expectedRevision b"

definition addOfflineQueueItemV1 :: "offline_item list \<Rightarrow> offline_item \<Rightarrow> offline_error + offline_item list" where
  "addOfflineQueueItemV1 saved raw =
     bind_r (map_r parseItem saved) (\<lambda>items. bind_r (parseItem raw) (\<lambda>item.
       case find (\<lambda>e. oi_commandId e = oi_commandId item) items of
         None \<Rightarrow> Inr (items @ [item])
       | Some previous \<Rightarrow> if \<not> sameIdentity previous item then Inl Oq_identity_conflict else Inr items))"

definition retry_delay :: "int \<Rightarrow> int \<Rightarrow> int" where
  "retry_delay attempts jitter =
     min oq_maxDelayMs (oq_baseDelayMs * 2 ^ nat (max 0 (attempts - 1)) + jitter)"

text \<open>
  The part after the check for a final status; \<open>None\<close> is a response that does not have the shape of an
  upload result.
\<close>

definition apply_open :: "offline_item \<Rightarrow> upload_result option \<Rightarrow> int \<Rightarrow> int \<Rightarrow> offline_item" where
  "apply_open item response nowMs jitterMs =
     (let review = item\<lparr>oi_status := Os_needs_review\<rparr> in
      case response of
        None \<Rightarrow> review
      | Some result \<Rightarrow>
        if ul_commandId result \<noteq> oi_commandId item then review
        else if ul_code result \<notin> set offlineQueueResultCodesV1 then review
        else if ul_state result = Us_acknowledged \<and> ul_code result = ''RECORDED'' \<and> oi_kind item \<noteq> Ok_commercial_intent
          then item\<lparr>oi_status := Os_recorded\<rparr>
        else if ul_state result \<noteq> Us_retryable \<or> ul_code result \<noteq> ''UNAVAILABLE'' \<or> oi_attemptCount item \<ge> oq_maxAttempts
          then review
        else item\<lparr>oi_status := Os_queued,
          oi_nextAttemptAtMs := nowMs + min (retry_delay (oi_attemptCount item) jitterMs) (MAX_SAFE - nowMs)\<rparr>)"

definition applyOfflineUploadResultV1 ::
  "offline_item \<Rightarrow> upload_result option \<Rightarrow> int \<Rightarrow> int \<Rightarrow> offline_error + offline_item" where
  "applyOfflineUploadResultV1 raw response nowMs jitterMs =
     bind_r (parseItem raw) (\<lambda>item.
     if \<not> counter_ok nowMs \<or> \<not> counter_ok jitterMs \<or> jitterMs > oq_maxJitterMs then Inl Oq_schema
     else if oi_status item = Os_recorded \<or> oi_status item = Os_needs_review then Inr item
     else Inr (apply_open item response nowMs jitterMs))"

definition exhaust :: "offline_item \<Rightarrow> offline_item" where
  "exhaust i = (if oi_status i = Os_queued \<and> oi_attemptCount i \<ge> oq_maxAttempts then i\<lparr>oi_status := Os_needs_review\<rparr> else i)"

fun claim_loop :: "int \<Rightarrow> string list \<Rightarrow> offline_item list \<Rightarrow> offline_item list \<times> offline_item option" where
  "claim_loop nowMs blockedJobs [] = ([], None)"
| "claim_loop nowMs blockedJobs (item # items) =
     (if oi_status item = Os_recorded \<or> oi_jobId item \<in> set blockedJobs
      then (case claim_loop nowMs blockedJobs items of (rest, r) \<Rightarrow> (item # rest, r))
      else if oi_status item \<noteq> Os_queued \<or> oi_nextAttemptAtMs item > nowMs
      then (case claim_loop nowMs (oi_jobId item # blockedJobs) items of (rest, r) \<Rightarrow> (item # rest, r))
      else (let c = item\<lparr>oi_status := Os_sending, oi_attemptCount := oi_attemptCount item + 1\<rparr>
            in (c # items, Some c)))"

definition chooseOfflineQueueItemV1 ::
  "offline_item list \<Rightarrow> int \<Rightarrow> offline_error + (offline_item list \<times> offline_item option)" where
  "chooseOfflineQueueItemV1 saved nowMs =
     (if \<not> counter_ok nowMs then Inl Oq_schema
      else bind_r (map_r parseItem saved) (\<lambda>items. Inr (claim_loop nowMs [] (map exhaust items))))"

definition offlineQueueDisplayV1 :: "offline_item option \<Rightarrow> string" where
  "offlineQueueDisplayV1 raw = (case raw of None \<Rightarrow> ''needs review''
     | Some i \<Rightarrow> if \<not> offlineQueueItemV1 i then ''needs review''
         else (case oi_status i of Os_needs_review \<Rightarrow> ''needs review'' | Os_queued \<Rightarrow> ''queued''
           | Os_sending \<Rightarrow> ''sending'' | Os_recorded \<Rightarrow> ''recorded''))"

section \<open>Restoring a saved queue\<close>

definition merged_status :: "offline_status \<Rightarrow> offline_status \<Rightarrow> offline_status" where
  "merged_status p q = (if p = Os_needs_review \<or> q = Os_needs_review then Os_needs_review
     else if p = Os_recorded \<or> q = Os_recorded then Os_recorded else Os_queued)"

definition recovered :: "offline_item \<Rightarrow> offline_item" where
  "recovered i = (if oi_status i = Os_sending then i\<lparr>oi_status := Os_queued\<rparr> else i)"

definition merge_entry :: "offline_item \<Rightarrow> offline_item \<Rightarrow> offline_item \<Rightarrow> offline_item" where
  "merge_entry previous r e = (if oi_commandId e = oi_commandId r
     then e\<lparr>oi_status := merged_status (oi_status previous) (oi_status r),
            oi_attemptCount := max (oi_attemptCount previous) (oi_attemptCount r),
            oi_nextAttemptAtMs := max (oi_nextAttemptAtMs previous) (oi_nextAttemptAtMs r)\<rparr>
     else e)"

definition review_entry :: "string \<Rightarrow> offline_item \<Rightarrow> offline_item" where
  "review_entry k e = (if oi_commandId e = k then e\<lparr>oi_status := Os_needs_review\<rparr> else e)"

record restored_queue =
  rq_items :: "offline_item list"
  rq_refused :: "(nat \<times> offline_error) list"

text \<open>One iteration of the loop over the saved entries; \<open>None\<close> is an entry of another shape.\<close>

definition restore_step :: "restored_queue \<Rightarrow> nat \<times> offline_item option \<Rightarrow> restored_queue" where
  "restore_step s e =
     (let items = rq_items s; refuse = (\<lambda>code. rq_refused s @ [(fst e, code)]) in
      case snd e of
        None \<Rightarrow> s\<lparr>rq_refused := refuse Oq_invalid_item\<rparr>
      | Some raw \<Rightarrow>
        (case parseItem raw of
          Inl err \<Rightarrow> s\<lparr>rq_refused := refuse err\<rparr>
        | Inr item \<Rightarrow>
          (case addOfflineQueueItemV1 items (recovered item) of
            Inl err \<Rightarrow> s\<lparr>rq_refused := refuse err,
              rq_items := (if err = Oq_identity_conflict then map (review_entry (oi_commandId item)) items else items)\<rparr>
          | Inr items' \<Rightarrow>
            s\<lparr>rq_items := (case find (\<lambda>x. oi_commandId x = oi_commandId item) items of
               None \<Rightarrow> items' | Some previous \<Rightarrow> map (merge_entry previous (recovered item)) items')\<rparr>)))"

definition restoreOfflineQueueV1 :: "offline_item option list \<Rightarrow> restored_queue" where
  "restoreOfflineQueueV1 saved = foldl restore_step \<lparr>rq_items = [], rq_refused = []\<rparr> (enumerate 0 saved)"

section \<open>Reconciliation\<close>

record offline_reconciliation =
  or_item :: offline_item
  or_reason :: "string option"

definition reconciliation_reasons :: "string list" where
  "reconciliation_reasons = offlineQueueResultCodesV1 @ [''UNKNOWN_RESULT'', ''RETRY_EXHAUSTED'', ''RECOVERED_REVIEW'']"

definition offlineReconciliationV1 :: "offline_reconciliation \<Rightarrow> bool" where
  "offlineReconciliationV1 r \<longleftrightarrow> offlineQueueItemV1 (or_item r) \<and>
     (case or_reason r of None \<Rightarrow> True | Some s \<Rightarrow> s \<in> set reconciliation_reasons)"

definition known_reason :: "offline_item \<Rightarrow> upload_result \<Rightarrow> string" where
  "known_reason item result =
     (let valid = ul_state result = Us_acknowledged \<and> ul_code result = ''RECORDED'' \<or>
            ul_state result = Us_retryable \<and> ul_code result = ''UNAVAILABLE'' \<or>
            (ul_state result = Us_rejected \<or> ul_state result = Us_conflict) \<and>
              ul_code result \<noteq> ''RECORDED'' \<and> ul_code result \<noteq> ''UNAVAILABLE'';
          r0 = (if valid then ul_code result else ''UNKNOWN_RESULT'');
          r1 = (if ul_state result = Us_retryable \<and> ul_code result = ''UNAVAILABLE'' \<and> oi_status item = Os_needs_review
                then ''RETRY_EXHAUSTED'' else r0)
      in if ul_state result = Us_acknowledged \<and> ul_code result = ''RECORDED'' \<and> oi_kind item = Ok_commercial_intent
         then ''ONLINE_REVIEW_REQUIRED'' else r1)"

definition reconcileOfflineResultV1 ::
  "offline_reconciliation \<Rightarrow> upload_result option \<Rightarrow> int \<Rightarrow> int \<Rightarrow> offline_error + offline_reconciliation" where
  "reconcileOfflineResultV1 raw response nowMs jitterMs =
     (if \<not> offlineReconciliationV1 raw then Inl Oq_schema
      else bind_r (applyOfflineUploadResultV1 (or_item raw) response nowMs jitterMs) (\<lambda>item.
        if oi_status (or_item raw) = Os_recorded \<or> oi_status (or_item raw) = Os_needs_review then Inr raw
        else Inr (raw\<lparr>or_item := item, or_reason := Some (case response of None \<Rightarrow> ''UNKNOWN_RESULT''
          | Some result \<Rightarrow>
            if ul_commandId result = oi_commandId item \<and> ul_code result \<in> set offlineQueueResultCodesV1
            then known_reason item result else ''UNKNOWN_RESULT'')\<rparr>)))"

record reconciliation_view =
  rv_state :: string
  rv_choices :: "string list"
  rv_requiresOnlineValidation :: bool

definition review_view :: "string option \<Rightarrow> string \<times> string list" where
  "review_view reason =
     (if reason = Some ''PERMISSION_REVOKED'' then (''refused'', [''keep_pending'', ''restore_access''])
      else if reason \<in> Some ` {''INVALID_INTENT'', ''PAYLOAD_HASH_MISMATCH'', ''IDEMPOTENCY_CONFLICT''}
      then (''refused'', [''keep_pending'', ''inspect_saved_intent''])
      else if reason \<in> Some ` {''STALE_REVISION'', ''STALE_PRICE'', ''ACCEPTED_VERSION_CHANGED'', ''APPROVAL_EXPIRED''}
      then (''stale'', [''keep_pending'', ''review_current_snapshot''])
      else if reason \<in> Some ` {''AUTHORITY_CHANGED'', ''COMPLETION_CONFLICT'', ''LOCKED_BILL'', ''ONLINE_REVIEW_REQUIRED''}
      then (''conflicted'', [''keep_pending'', ''review_current_snapshot''])
      else (''needs_review'', [''keep_pending'', ''check_server_result'', ''inspect_saved_intent'']))"

definition offlineReconciliationViewV1 :: "offline_reconciliation \<Rightarrow> offline_error + reconciliation_view" where
  "offlineReconciliationViewV1 raw =
     (if \<not> offlineReconciliationV1 raw then Inl Oq_schema
      else let item = or_item raw;
          (st, choices) = (case oi_status item of
              Os_recorded \<Rightarrow> (''recorded'', [])
            | Os_sending \<Rightarrow> (''sending'', [''keep_pending'', ''check_server_result''])
            | Os_queued \<Rightarrow> (if oi_attemptCount item \<noteq> 0 then ''retried'' else ''queued'', [''keep_pending'', ''wait_for_retry''])
            | Os_needs_review \<Rightarrow> review_view (or_reason raw))
        in Inr \<lparr>rv_state = st, rv_choices = choices, rv_requiresOnlineValidation = (oi_status item \<noteq> Os_recorded)\<rparr>)"

record offline_owner =
  ow_userId :: string
  ow_tenantId :: string

datatype offline_recovery_error = Or_invalid_bundle | Or_owner_mismatch

definition recoverOfflineReconciliationV1 :: "offline_owner \<Rightarrow> offline_item option list \<Rightarrow> offline_owner \<Rightarrow>
    offline_recovery_error + (offline_reconciliation list \<times> (nat \<times> offline_error) list)" where
  "recoverOfflineReconciliationV1 owner entries current =
     (if ow_userId owner \<noteq> ow_userId current \<or> ow_tenantId owner \<noteq> ow_tenantId current then Inl Or_owner_mismatch
      else let restored = restoreOfflineQueueV1 entries in
        Inr (map (\<lambda>i. \<lparr>or_item = i, or_reason = (if oi_status i = Os_needs_review then Some ''RECOVERED_REVIEW'' else None)\<rparr>)
               (rq_items restored), rq_refused restored))"

section \<open>What a client does with the queue\<close>

text \<open>
  An answer is only ever given to a command that was sent, so it finds an item that has been claimed.
\<close>

definition answer_queue :: "offline_item \<Rightarrow> offline_item list \<Rightarrow> offline_item list" where
  "answer_queue i' q = map (\<lambda>x. if oi_commandId x = oi_commandId i' then i' else x) q"

inductive queue_step :: "offline_item list \<Rightarrow> offline_item list \<Rightarrow> bool" where
  capture: "addOfflineQueueItemV1 q i = Inr q' \<Longrightarrow> oi_status i = Os_queued \<Longrightarrow> oi_attemptCount i = 0 \<Longrightarrow> queue_step q q'"
| claim: "chooseOfflineQueueItemV1 q nowMs = Inr (q', c) \<Longrightarrow> queue_step q q'"
| answer: "i \<in> set q \<Longrightarrow> 0 < oi_attemptCount i \<Longrightarrow> applyOfflineUploadResultV1 i response nowMs jitterMs = Inr i' \<Longrightarrow>
    queue_step q (answer_queue i' q)"
| reload: "queue_step q (rq_items (restoreOfflineQueueV1 (map Some q)))"

inductive queue_reachable :: "offline_item list \<Rightarrow> bool" where
  empty: "queue_reachable []"
| step: "queue_reachable q \<Longrightarrow> queue_step q q' \<Longrightarrow> queue_reachable q'"

section \<open>The operations on valid queues\<close>

lemma map_r_parseItem: "map_r parseItem q = Inr q' \<longleftrightarrow> list_all offlineQueueItemV1 q \<and> q' = q"
  by (induction q arbitrary: q') (auto simp: bind_r_Inr_iff parseItem_def)

lemma find_id_None: "find (\<lambda>e. f e = k) xs = None \<longleftrightarrow> k \<notin> f ` set xs"
  by (auto simp: find_None_iff)

lemma addOfflineQueueItemV1_Inr_iff: "addOfflineQueueItemV1 q i = Inr q' \<longleftrightarrow>
    list_all offlineQueueItemV1 q \<and> offlineQueueItemV1 i \<and>
    (if oi_commandId i \<in> oi_commandId ` set q
     then q' = q \<and> (\<exists>p. find (\<lambda>e. oi_commandId e = oi_commandId i) q = Some p \<and> sameIdentity p i)
     else q' = q @ [i])"
proof (cases "find (\<lambda>e. oi_commandId e = oi_commandId i) q")
  case None
  then have "oi_commandId i \<notin> oi_commandId ` set q" by (simp add: find_id_None)
  with None show ?thesis
    by (auto simp: addOfflineQueueItemV1_def bind_r_Inr_iff map_r_parseItem parseItem_def if_Inl_Inr_iff)
next
  case (Some p)
  then have "oi_commandId i \<in> oi_commandId ` set q" using find_id_None [of oi_commandId "oi_commandId i" q] by auto
  with Some show ?thesis
    by (auto simp: addOfflineQueueItemV1_def bind_r_Inr_iff map_r_parseItem parseItem_def if_Inl_Inr_iff)
qed

text \<open>The item a claim may take: queued and due, with only recorded items of its job before it.\<close>

definition due_head :: "int \<Rightarrow> string list \<Rightarrow> offline_item list \<Rightarrow> offline_item list \<Rightarrow> offline_item \<Rightarrow> offline_item list \<Rightarrow> bool" where
  "due_head nowMs B q pre i post \<longleftrightarrow> q = pre @ i # post \<and> oi_status i = Os_queued \<and> oi_nextAttemptAtMs i \<le> nowMs \<and>
     oi_jobId i \<notin> set B \<and> (\<forall>x\<in>set pre. oi_jobId x = oi_jobId i \<longrightarrow> oi_status x = Os_recorded)"

definition claimed :: "offline_item \<Rightarrow> offline_item" where
  "claimed i = i\<lparr>oi_status := Os_sending, oi_attemptCount := oi_attemptCount i + 1\<rparr>"

lemma claimed_simps [simp]:
  "oi_commandId (claimed i) = oi_commandId i" "oi_jobId (claimed i) = oi_jobId i"
  "oi_payloadHash (claimed i) = oi_payloadHash i" "oi_kind (claimed i) = oi_kind i"
  "oi_expectedRevision (claimed i) = oi_expectedRevision i" "oi_nextAttemptAtMs (claimed i) = oi_nextAttemptAtMs i"
  "oi_status (claimed i) = Os_sending" "oi_attemptCount (claimed i) = oi_attemptCount i + 1"
  by (simp_all add: claimed_def)

lemma due_head_skip: "oi_status i = Os_recorded \<or> oi_jobId i \<in> set B \<Longrightarrow>
    due_head nowMs B (i # q) pre j post \<longleftrightarrow> (\<exists>pre'. pre = i # pre' \<and> due_head nowMs B q pre' j post)"
  by (cases pre) (auto simp: due_head_def)

lemma due_head_wait: "oi_status i \<noteq> Os_recorded \<Longrightarrow> oi_status i \<noteq> Os_queued \<or> oi_nextAttemptAtMs i > nowMs \<Longrightarrow>
    due_head nowMs B (i # q) pre j post \<longleftrightarrow> (\<exists>pre'. pre = i # pre' \<and> due_head nowMs (oi_jobId i # B) q pre' j post)"
  by (cases pre) (auto simp: due_head_def)

definition claim_outcome :: "int \<Rightarrow> string list \<Rightarrow> offline_item list \<Rightarrow> offline_item list \<times> offline_item option \<Rightarrow> bool" where
  "claim_outcome nowMs B q r \<longleftrightarrow> (r = (q, None) \<and> (\<nexists>pre i post. due_head nowMs B q pre i post)) \<or>
     (\<exists>pre i post. due_head nowMs B q pre i post \<and> r = (pre @ claimed i # post, Some (claimed i)))"

lemma claim_outcome_Cons:
  assumes "claim_outcome nowMs C q (q', r)"
    and "\<And>pre j post. due_head nowMs B (i # q) pre j post \<longleftrightarrow> (\<exists>pre'. pre = i # pre' \<and> due_head nowMs C q pre' j post)"
  shows "claim_outcome nowMs B (i # q) (i # q', r)"
  using assms(1) unfolding claim_outcome_def assms(2) prod.inject
proof (elim disjE exE conjE)
  fix pre j post
  assume "due_head nowMs C q pre j post" "q' = pre @ claimed j # post" "r = Some (claimed j)"
  then show "(i # q' = i # q \<and> r = None) \<and> (\<nexists>pre j post. \<exists>pre'. pre = i # pre' \<and> due_head nowMs C q pre' j post) \<or>
     (\<exists>pre j post. (\<exists>pre'. pre = i # pre' \<and> due_head nowMs C q pre' j post) \<and> i # q' = pre @ claimed j # post \<and> r = Some (claimed j))"
    by (intro disjI2 exI [of _ "i # pre"] exI [of _ j] exI [of _ post]) auto
qed auto

lemma claim_loop_outcome: "claim_outcome nowMs B q (claim_loop nowMs B q)"
proof (induction nowMs B q rule: claim_loop.induct)
  case (1 nowMs B)
  then show ?case by (simp add: claim_outcome_def due_head_def)
next
  case (2 nowMs B i q)
  let ?skip = "oi_status i = Os_recorded \<or> oi_jobId i \<in> set B"
  let ?wait = "oi_status i \<noteq> Os_queued \<or> oi_nextAttemptAtMs i > nowMs"
  consider (skip) ?skip | (wait) "\<not> ?skip" ?wait | (claim) "\<not> ?skip" "\<not> ?wait" by blast
  then show ?case
  proof cases
    case skip
    obtain q' r where r: "claim_loop nowMs B q = (q', r)" by (cases "claim_loop nowMs B q")
    then have "claim_outcome nowMs B (i # q) (i # q', r)"
      using claim_outcome_Cons [OF _ due_head_skip [OF skip]] 2(1) [OF skip] by simp
    with r skip show ?thesis by simp
  next
    case wait
    obtain q' r where r: "claim_loop nowMs (oi_jobId i # B) q = (q', r)" by (cases "claim_loop nowMs (oi_jobId i # B) q")
    then have "claim_outcome nowMs B (i # q) (i # q', r)"
      using claim_outcome_Cons [OF _ due_head_wait] wait 2(2) [OF wait] by simp
    with r wait show ?thesis by simp
  next
    case claim
    then have "due_head nowMs B (i # q) [] i q" by (simp add: due_head_def)
    moreover have "claim_loop nowMs B (i # q) = ([] @ claimed i # q, Some (claimed i))"
      using claim by (simp add: claimed_def Let_def)
    ultimately show ?thesis unfolding claim_outcome_def by blast
  qed
qed

lemma recovered_ok: "offlineQueueItemV1 i \<Longrightarrow> offlineQueueItemV1 (recovered i)"
  by (simp add: recovered_def offlineQueueItemV1_def)

lemma restore_clean:
  assumes "list_all offlineQueueItemV1 (items @ q)" "distinct (map oi_commandId (items @ q))"
  shows "foldl restore_step \<lparr>rq_items = items, rq_refused = ref\<rparr> (enumerate n (map Some q)) =
    \<lparr>rq_items = items @ map recovered q, rq_refused = ref\<rparr>"
  using assms
proof (induction q arbitrary: items n)
  case (Cons i q)
  have i: "offlineQueueItemV1 i" "offlineQueueItemV1 (recovered i)" "list_all offlineQueueItemV1 items"
    using Cons.prems(1) by (simp_all add: recovered_ok)
  have id: "oi_commandId (recovered i) = oi_commandId i" "oi_commandId i \<notin> oi_commandId ` set items"
    using Cons.prems(2) by (auto simp: recovered_def)
  then have "addOfflineQueueItemV1 items (recovered i) = Inr (items @ [recovered i])"
    using i by (simp add: addOfflineQueueItemV1_Inr_iff)
  moreover have "find (\<lambda>x. oi_commandId x = oi_commandId i) items = None" using id(2) by (simp add: find_id_None)
  ultimately have "restore_step \<lparr>rq_items = items, rq_refused = ref\<rparr> (n, Some i) =
      \<lparr>rq_items = items @ [recovered i], rq_refused = ref\<rparr>"
    using i(1) by (simp add: restore_step_def parseItem_def)
  with Cons.IH [of "items @ [recovered i]" "Suc n"] Cons.prems i id show ?case by simp
qed simp

corollary restore_valid: "list_all offlineQueueItemV1 q \<Longrightarrow> distinct (map oi_commandId q) \<Longrightarrow>
    restoreOfflineQueueV1 (map Some q) = \<lparr>rq_items = map recovered q, rq_refused = []\<rparr>"
  using restore_clean [of "[]" q "[]" 0] by (simp add: restoreOfflineQueueV1_def)

section \<open>The invariant of the queue\<close>

definition started :: "offline_item \<Rightarrow> bool" where
  "started i \<longleftrightarrow> 0 < oi_attemptCount i \<or> oi_status i = Os_sending \<or> oi_status i = Os_recorded"

definition after_recorded :: "offline_item \<Rightarrow> offline_item \<Rightarrow> bool" where
  "after_recorded x y \<longleftrightarrow> (oi_jobId x = oi_jobId y \<longrightarrow> started y \<longrightarrow> oi_status x = Os_recorded)"

definition queue_ok :: "offline_item list \<Rightarrow> bool" where
  "queue_ok q \<longleftrightarrow> list_all offlineQueueItemV1 q \<and> distinct (map oi_commandId q) \<and> sorted_wrt after_recorded q \<and>
     (\<forall>i\<in>set q. oi_attemptCount i \<le> oq_maxAttempts \<and> (oi_status i = Os_sending \<longrightarrow> 0 < oi_attemptCount i))"

text \<open>How an item may change in one step: its identity never, its attempts only upwards, a final status never.\<close>

definition item_kept :: "offline_item \<Rightarrow> offline_item \<Rightarrow> bool" where
  "item_kept x y \<longleftrightarrow> oi_commandId x = oi_commandId y \<and> sameIdentity x y \<and> oi_attemptCount x \<le> oi_attemptCount y \<and>
     (oi_status x = Os_recorded \<or> oi_status x = Os_needs_review \<longrightarrow> oi_status y = oi_status x)"

definition queue_kept :: "offline_item list \<Rightarrow> offline_item list \<Rightarrow> bool" where
  "queue_kept q q' \<longleftrightarrow> length q \<le> length q' \<and> list_all2 item_kept q (take (length q) q')"

lemma item_kept_refl [simp]: "item_kept x x"
  by (simp add: item_kept_def sameIdentity_def)

lemma queue_kept_map: "(\<And>x. x \<in> set q \<Longrightarrow> item_kept x (f x)) \<Longrightarrow> queue_kept q (map f q)"
  by (simp add: queue_kept_def list_all2_conv_all_nth)

lemma queue_ok_map:
  assumes "queue_ok q"
    and f: "\<And>x. x \<in> set q \<Longrightarrow> item_kept x (f x) \<and> offlineQueueItemV1 (f x) \<and> (started (f x) \<longrightarrow> started x) \<and>
      oi_attemptCount (f x) = oi_attemptCount x \<and> (oi_status (f x) = Os_sending \<longrightarrow> oi_status x = Os_sending)"
  shows "queue_ok (map f q)"
proof -
  have ids: "map oi_commandId (map f q) = map oi_commandId q" using f by (auto simp: item_kept_def)
  have rel: "after_recorded (f x) (f y)" if "x \<in> set q" "y \<in> set q" "after_recorded x y" for x y
    using f [OF that(1)] f [OF that(2)] that(3) unfolding after_recorded_def item_kept_def sameIdentity_def by metis
  have "sorted_wrt after_recorded q" using assms(1) by (simp add: queue_ok_def)
  then have "sorted_wrt (\<lambda>x y. after_recorded (f x) (f y)) q" by (rule sorted_wrt_mono_rel [rotated]) (rule rel)
  then have "sorted_wrt after_recorded (map f q)" by (simp add: sorted_wrt_map)
  moreover have "distinct (map oi_commandId (map f q))" using assms(1) unfolding ids by (simp add: queue_ok_def)
  moreover have "list_all offlineQueueItemV1 (map f q)" using f by (simp add: list_all_iff)
  moreover have "\<forall>i\<in>set (map f q). oi_attemptCount i \<le> oq_maxAttempts \<and> (oi_status i = Os_sending \<longrightarrow> 0 < oi_attemptCount i)"
    using assms(1) f by (simp add: queue_ok_def)
  ultimately show ?thesis unfolding queue_ok_def by blast
qed

lemma exhaust_props: "offlineQueueItemV1 x \<Longrightarrow> item_kept x (exhaust x) \<and> offlineQueueItemV1 (exhaust x) \<and>
    (started (exhaust x) \<longrightarrow> started x) \<and> oi_attemptCount (exhaust x) = oi_attemptCount x \<and>
    (oi_status (exhaust x) = Os_sending \<longrightarrow> oi_status x = Os_sending)"
  by (auto simp: exhaust_def item_kept_def sameIdentity_def started_def offlineQueueItemV1_def)

lemma recovered_props: "offlineQueueItemV1 x \<Longrightarrow> item_kept x (recovered x) \<and> offlineQueueItemV1 (recovered x) \<and>
    (started (recovered x) \<longrightarrow> started x) \<and> oi_attemptCount (recovered x) = oi_attemptCount x \<and>
    (oi_status (recovered x) = Os_sending \<longrightarrow> oi_status x = Os_sending)"
  by (auto simp: recovered_def item_kept_def sameIdentity_def started_def offlineQueueItemV1_def)

lemma retry_delay_bounds: "0 \<le> j \<Longrightarrow> 0 \<le> retry_delay n j \<and> retry_delay n j \<le> oq_maxDelayMs"
  by (simp add: retry_delay_def retry_limits)

lemma apply_open_cases: "apply_open i response nowMs jitterMs = i\<lparr>oi_status := Os_needs_review\<rparr> \<or>
    (apply_open i response nowMs jitterMs = i\<lparr>oi_status := Os_recorded\<rparr> \<and> oi_kind i \<noteq> Ok_commercial_intent) \<or>
    apply_open i response nowMs jitterMs = i\<lparr>oi_status := Os_queued, oi_nextAttemptAtMs :=
      nowMs + min (retry_delay (oi_attemptCount i) jitterMs) (MAX_SAFE - nowMs)\<rparr>"
  unfolding apply_open_def Let_def by (cases response) simp_all

lemma applyOfflineUploadResultV1_InrD:
  assumes "applyOfflineUploadResultV1 i response nowMs jitterMs = Inr i'"
  shows "offlineQueueItemV1 i" "item_kept i i'" "offlineQueueItemV1 i'" "oi_attemptCount i' = oi_attemptCount i"
    "i' = i \<or> oi_status i' = Os_needs_review \<or> oi_status i' = Os_queued \<or> oi_status i' = Os_recorded"
proof -
  let ?fin = "oi_status i = Os_recorded \<or> oi_status i = Os_needs_review"
  have d: "offlineQueueItemV1 i" "counter_ok nowMs" "counter_ok jitterMs"
    "i' = (if ?fin then i else apply_open i response nowMs jitterMs)"
    using assms by (auto simp: applyOfflineUploadResultV1_def bind_r_Inr_iff parseItem_def if_Inl_Inr_iff split: if_splits)
  have now: "counter_ok (nowMs + min (retry_delay (oi_attemptCount i) jitterMs) (MAX_SAFE - nowMs))"
    using d(2,3) retry_delay_bounds [of jitterMs "oi_attemptCount i"] by (auto simp: counter_ok_def min_def)
  have "item_kept i i' \<and> offlineQueueItemV1 i' \<and> oi_attemptCount i' = oi_attemptCount i \<and>
      (i' = i \<or> oi_status i' = Os_needs_review \<or> oi_status i' = Os_queued \<or> oi_status i' = Os_recorded)"
  proof (cases ?fin)
    case False
    then have "i' = apply_open i response nowMs jitterMs" using d(4) by simp
    with apply_open_cases [of i response nowMs jitterMs] False d(1) now show ?thesis
      by (elim disjE) (simp_all add: item_kept_def sameIdentity_def offlineQueueItemV1_def)
  qed (use d in simp)
  with d(1) show "offlineQueueItemV1 i" "item_kept i i'" "offlineQueueItemV1 i'" "oi_attemptCount i' = oi_attemptCount i"
    "i' = i \<or> oi_status i' = Os_needs_review \<or> oi_status i' = Os_queued \<or> oi_status i' = Os_recorded" by blast+
qed

lemma queue_capture:
  assumes "queue_ok q" "addOfflineQueueItemV1 q i = Inr q'" "oi_status i = Os_queued" "oi_attemptCount i = 0"
  shows "queue_ok q' \<and> queue_kept q q'"
proof (cases "oi_commandId i \<in> oi_commandId ` set q")
  case True
  with assms(1,2) show ?thesis using queue_kept_map [of q id] by (simp add: addOfflineQueueItemV1_Inr_iff)
next
  case False
  with assms(2) have q': "q' = q @ [i]" "offlineQueueItemV1 i" by (simp_all add: addOfflineQueueItemV1_Inr_iff)
  have "after_recorded x i" for x using assms(3,4) by (simp add: after_recorded_def started_def)
  with assms q' False have "queue_ok q'" by (auto simp: queue_ok_def sorted_wrt_append retry_limits)
  with q' show ?thesis by (auto simp: queue_kept_def list_all2_refl)
qed

lemma queue_claim:
  assumes "queue_ok q" "chooseOfflineQueueItemV1 q nowMs = Inr (q', c)"
  shows "queue_ok q' \<and> queue_kept q q'"
proof -
  let ?e = "map exhaust q"
  have valid: "list_all offlineQueueItemV1 q" using assms(1) by (simp add: queue_ok_def)
  then have e: "\<And>x. x \<in> set q \<Longrightarrow> item_kept x (exhaust x) \<and> offlineQueueItemV1 (exhaust x) \<and> (started (exhaust x) \<longrightarrow> started x) \<and>
      oi_attemptCount (exhaust x) = oi_attemptCount x \<and> (oi_status (exhaust x) = Os_sending \<longrightarrow> oi_status x = Os_sending)"
    by (intro exhaust_props) (simp add: list_all_iff)
  have ok: "queue_ok ?e" by (rule queue_ok_map [OF assms(1) e])
  have kept: "queue_kept q ?e" by (rule queue_kept_map) (use e in blast)
  have "claim_loop nowMs [] ?e = (q', c)"
    using assms(2) valid by (auto simp: chooseOfflineQueueItemV1_def if_Inl_Inr_iff bind_r_Inr_iff map_r_parseItem)
  then have "claim_outcome nowMs [] ?e (q', c)" using claim_loop_outcome [of nowMs "[]" ?e] by simp
  then consider "q' = ?e" | pre i post where "due_head nowMs [] ?e pre i post" "q' = pre @ claimed i # post"
    by (auto simp: claim_outcome_def)
  then show ?thesis
  proof cases
    case 1
    with ok kept show ?thesis by simp
  next
    case (2 pre i post)
    then have dec: "?e = pre @ i # post" and q: "oi_status i = Os_queued"
      and head: "\<forall>x\<in>set pre. oi_jobId x = oi_jobId i \<longrightarrow> oi_status x = Os_recorded" by (simp_all add: due_head_def)
    have "i \<in> set ?e" using dec by simp
    then have i: "oi_attemptCount i < oq_maxAttempts" "offlineQueueItemV1 i" "0 \<le> oi_attemptCount i"
      using q ok by (auto simp: exhaust_def queue_ok_def list_all_iff offlineQueueItemV1_def counter_ok_def not_le split: if_splits)
    have "offlineQueueItemV1 (claimed i)"
      using i by (simp add: offlineQueueItemV1_def claimed_def counter_ok_def retry_limits MAX_SAFE_def)
    moreover have "sorted_wrt after_recorded (pre @ claimed i # post)"
      using ok head q unfolding queue_ok_def dec
      by (auto simp: sorted_wrt_append after_recorded_def started_def)
    ultimately have "queue_ok q'"
      using ok i unfolding queue_ok_def dec 2(2) by auto
    moreover have "item_kept i (claimed i)" using q by (simp add: item_kept_def sameIdentity_def)
    then have "list_all2 item_kept ?e q'" unfolding dec 2(2) by (simp add: list_all2_append list_all2_refl)
    then have "list_all2 item_kept q q'"
      using kept list_all2_trans [of item_kept item_kept item_kept q ?e q']
      by (auto simp: queue_kept_def item_kept_def sameIdentity_def)
    then have "queue_kept q q'" using list_all2_lengthD by (fastforce simp: queue_kept_def)
    ultimately show ?thesis by blast
  qed
qed

lemma queue_answer:
  assumes "queue_ok q" "i \<in> set q" "0 < oi_attemptCount i" "applyOfflineUploadResultV1 i response nowMs jitterMs = Inr i'"
  shows "queue_ok (answer_queue i' q) \<and> queue_kept q (answer_queue i' q)"
proof -
  note i' = applyOfflineUploadResultV1_InrD [OF assms(4)]
  have id: "oi_commandId i' = oi_commandId i" using i'(2) by (simp add: item_kept_def)
  have same: "x = i" if "x \<in> set q" "oi_commandId x = oi_commandId i" for x
    using assms(1,2) that by (auto simp: queue_ok_def distinct_map inj_on_def)
  let ?f = "\<lambda>x. if oi_commandId x = oi_commandId i' then i' else x"
  have f: "item_kept x (?f x) \<and> offlineQueueItemV1 (?f x) \<and> (started (?f x) \<longrightarrow> started x) \<and>
      oi_attemptCount (?f x) = oi_attemptCount x \<and> (oi_status (?f x) = Os_sending \<longrightarrow> oi_status x = Os_sending)"
    if "x \<in> set q" for x
    using that same [OF that] i' id assms(1,3) by (auto simp: queue_ok_def list_all_iff started_def)
  from queue_ok_map [OF assms(1), of ?f] queue_kept_map [of q ?f] f show ?thesis unfolding answer_queue_def by blast
qed

lemma queue_step_ok: "queue_step q q' \<Longrightarrow> queue_ok q \<Longrightarrow> queue_ok q' \<and> queue_kept q q'"
proof (induction rule: queue_step.induct)
  case (capture q i q')
  then show ?case by (intro queue_capture)
next
  case (claim q nowMs q' c)
  then show ?case by (intro queue_claim)
next
  case (answer i q response nowMs jitterMs i')
  then show ?case by (intro queue_answer)
next
  case (reload q)
  then have "rq_items (restoreOfflineQueueV1 (map Some q)) = map recovered q"
    by (simp add: queue_ok_def restore_valid)
  moreover have "\<And>x. x \<in> set q \<Longrightarrow> offlineQueueItemV1 x" using reload by (simp add: queue_ok_def list_all_iff)
  ultimately show ?case
    using queue_ok_map [OF reload, of recovered] queue_kept_map [of q recovered] recovered_props by simp
qed

lemma queue_reachable_ok: "queue_reachable q \<Longrightarrow> queue_ok q"
proof (induction rule: queue_reachable.induct)
  case empty
  show ?case by (simp add: queue_ok_def)
next
  case (step q q')
  then show ?case using queue_step_ok by blast
qed

text \<open>
  C8. In every queue a client can reach, commands of a job are sent in capture order: an item has
  been attempted, is being sent or is recorded only if every earlier item of its job is recorded, so
  at most one item of a job is in flight. Command identifiers are unique, no item is attempted more
  than eight times, and no commercial intent is ever recorded offline.
\<close>

theorem offline_queue_in_order:
  assumes "queue_reachable q"
  shows "(a < b \<and>
      b < length q \<and>
      oi_jobId (q ! a) = oi_jobId (q ! b) \<and>
      (0 < oi_attemptCount (q ! b) \<or> oi_status (q ! b) = Os_sending \<or> oi_status (q ! b) = Os_recorded) \<longrightarrow>
      oi_status (q ! a) = Os_recorded) \<and>
    (a < length q \<and>
      b < length q \<and>
      oi_jobId (q ! a) = oi_jobId (q ! b) \<and>
      oi_status (q ! a) = Os_sending \<and>
      oi_status (q ! b) = Os_sending \<longrightarrow>
      a = b) \<and>
    distinct (map oi_commandId q) \<and>
    (i \<in> set q \<longrightarrow>
      oi_attemptCount i \<le> 8 \<and> (oi_kind i = Ok_commercial_intent \<longrightarrow> oi_status i \<noteq> Os_recorded))"
proof -
  have ok: "queue_ok q" using assms by (rule queue_reachable_ok)
  have order: "oi_status (q ! a) = Os_recorded" if "a < b" "b < length q" "oi_jobId (q ! a) = oi_jobId (q ! b)"
      "0 < oi_attemptCount (q ! b) \<or> oi_status (q ! b) = Os_sending \<or> oi_status (q ! b) = Os_recorded" for a b
    using ok that sorted_wrt_nth_less [of after_recorded q a b]
    by (simp add: queue_ok_def after_recorded_def started_def)
  have single: "a = b" if "a < length q" "b < length q" "oi_jobId (q ! a) = oi_jobId (q ! b)"
      "oi_status (q ! a) = Os_sending" "oi_status (q ! b) = Os_sending"
    using order [of a b] order [of b a] that by (cases a b rule: linorder_cases) auto
  have dist: "distinct (map oi_commandId q)" using ok by (simp add: queue_ok_def)
  have limits: "oi_attemptCount i \<le> 8 \<and> (oi_kind i = Ok_commercial_intent \<longrightarrow> oi_status i \<noteq> Os_recorded)" if "i \<in> set q"
    using ok that by (auto simp: queue_ok_def retry_limits list_all_iff offlineQueueItemV1_def)
  show ?thesis using order single dist limits by blast
qed

text \<open>
  Nothing a client does loses or reorders a command: every step, a reload of the saved queue
  included, keeps each item in its place with its identity and its attempt count or a larger one, adds
  new ones only at the end, and never undoes a recorded or a needs-review status. A late answer to
  such an item changes nothing.
\<close>

lemma offline_queue_history_kept:
  assumes "queue_reachable q"
  shows "(queue_step q q' \<and>
      n < length q \<longrightarrow>
      n < length q' \<and>
      oi_commandId (q' ! n) = oi_commandId (q ! n) \<and> sameIdentity (q ! n) (q' ! n) \<and>
      oi_attemptCount (q ! n) \<le> oi_attemptCount (q' ! n) \<and>
      (oi_status (q ! n) = Os_recorded \<or> oi_status (q ! n) = Os_needs_review \<longrightarrow> oi_status (q' ! n) = oi_status (q ! n))) \<and>
    restoreOfflineQueueV1 (map Some q) = \<lparr>rq_items = map recovered q, rq_refused = []\<rparr> \<and>
    (i \<in> set q \<and>
      (oi_status i = Os_recorded \<or> oi_status i = Os_needs_review) \<and>
      counter_ok nowMs \<and>
      counter_ok jitterMs \<and>
      jitterMs \<le> 1000 \<longrightarrow>
      applyOfflineUploadResultV1 i response nowMs jitterMs = Inr i)"
proof -
  have ok: "queue_ok q" using assms by (rule queue_reachable_ok)
  then have valid: "list_all offlineQueueItemV1 q" by (simp add: queue_ok_def)
  have a: "n < length q' \<and> oi_commandId (q' ! n) = oi_commandId (q ! n) \<and> sameIdentity (q ! n) (q' ! n) \<and>
      oi_attemptCount (q ! n) \<le> oi_attemptCount (q' ! n) \<and>
      (oi_status (q ! n) = Os_recorded \<or> oi_status (q ! n) = Os_needs_review \<longrightarrow> oi_status (q' ! n) = oi_status (q ! n))"
    if "queue_step q q'" "n < length q"
  proof -
    have kept: "queue_kept q q'" using queue_step_ok [OF that(1) ok] by blast
    then have "list_all2 item_kept q (take (length q) q')" by (simp add: queue_kept_def)
    from list_all2_nthD [OF this that(2)] have "item_kept (q ! n) (take (length q) q' ! n)" .
    with kept that(2) show ?thesis by (auto simp: queue_kept_def item_kept_def)
  qed
  have b: "restoreOfflineQueueV1 (map Some q) = \<lparr>rq_items = map recovered q, rq_refused = []\<rparr>"
    using ok by (simp add: queue_ok_def restore_valid)
  have c: "applyOfflineUploadResultV1 i response nowMs jitterMs = Inr i"
    if "i \<in> set q" "oi_status i = Os_recorded \<or> oi_status i = Os_needs_review" "counter_ok nowMs" "counter_ok jitterMs" "jitterMs \<le> 1000"
    using that valid by (auto simp: applyOfflineUploadResultV1_def parseItem_def list_all_iff retry_limits)
  show ?thesis using a b c by blast
qed

text \<open>
  C36. No job starves another, and a claim is refused only when there is nothing to send: on a
  reachable queue, a claim returns no item exactly if no job has, after its recorded items, a queued
  item that is due and has attempts left; otherwise it returns such an item, now in flight with one
  more attempt.
\<close>

theorem offline_claim_progress:
  assumes "queue_reachable q" and "counter_ok nowMs"
  shows "\<exists>q' c. chooseOfflineQueueItemV1 q nowMs = Inr (q', c) \<and>
    (case c of
       None \<Rightarrow> \<not> (\<exists>n < length q. oi_status (q ! n) = Os_queued \<and> oi_nextAttemptAtMs (q ! n) \<le> nowMs \<and>
          oi_attemptCount (q ! n) < 8 \<and> (\<forall>m < n. oi_jobId (q ! m) = oi_jobId (q ! n) \<longrightarrow> oi_status (q ! m) = Os_recorded))
     | Some i \<Rightarrow> \<exists>n < length q. i = claimed (q ! n) \<and> q' ! n = i \<and> oi_status (q ! n) = Os_queued \<and>
          oi_nextAttemptAtMs (q ! n) \<le> nowMs \<and> oi_attemptCount (q ! n) < 8 \<and>
          (\<forall>m < n. oi_jobId (q ! m) = oi_jobId (q ! n) \<longrightarrow> oi_status (q ! m) = Os_recorded))"
proof -
  let ?e = "map exhaust q"
  have valid: "list_all offlineQueueItemV1 q" using queue_reachable_ok [OF assms(1)] by (simp add: queue_ok_def)
  have ex: "oi_status (exhaust x) = Os_queued \<longleftrightarrow> oi_status x = Os_queued \<and> oi_attemptCount x < 8"
    "oi_status (exhaust x) = Os_recorded \<longleftrightarrow> oi_status x = Os_recorded" "oi_jobId (exhaust x) = oi_jobId x"
    "oi_nextAttemptAtMs (exhaust x) = oi_nextAttemptAtMs x" for x
    by (auto simp: exhaust_def retry_limits)
  have head: "(\<exists>pre post. due_head nowMs [] ?e pre i post \<and> length pre = n) \<longleftrightarrow> n < length q \<and> i = exhaust (q ! n) \<and>
      oi_status (q ! n) = Os_queued \<and> oi_nextAttemptAtMs (q ! n) \<le> nowMs \<and> oi_attemptCount (q ! n) < 8 \<and>
      (\<forall>m < n. oi_jobId (q ! m) = oi_jobId (q ! n) \<longrightarrow> oi_status (q ! m) = Os_recorded)" (is "?l \<longleftrightarrow> ?r") for i n
  proof
    assume ?l
    then obtain pre post where h: "due_head nowMs [] ?e pre i post" "length pre = n" by blast
    then have dec: "?e = pre @ i # post" by (simp add: due_head_def)
    then have "length (map exhaust q) = length pre + Suc (length post)" by (simp only: length_append list.size)
    then have n: "n < length q" using h(2) by simp
    have i: "i = exhaust (q ! n)" using arg_cong [OF dec, of "\<lambda>l. l ! n"] h(2) n by (simp add: nth_append)
    have pre: "pre ! m = exhaust (q ! m)" if "m < n" for m
      using arg_cong [OF dec, of "\<lambda>l. l ! m"] h(2) n that by (simp add: nth_append)
    have "oi_status (q ! m) = Os_recorded" if m: "m < n" "oi_jobId (q ! m) = oi_jobId (q ! n)" for m
    proof -
      have "pre ! m \<in> set pre" using m(1) h(2) by simp
      moreover have "oi_jobId (pre ! m) = oi_jobId i" using pre [OF m(1)] m(2) i ex(3) by simp
      ultimately have "oi_status (pre ! m) = Os_recorded" using h(1) by (simp add: due_head_def)
      then show ?thesis using pre [OF m(1)] ex(2) by simp
    qed
    moreover have "oi_status i = Os_queued" "oi_nextAttemptAtMs i \<le> nowMs" using h(1) by (simp_all add: due_head_def)
    ultimately show ?r using n i ex by simp
  next
    assume r: ?r
    have "?e = take n ?e @ ?e ! n # drop (Suc n) ?e" using r by (intro id_take_nth_drop) simp
    moreover have "oi_status x = Os_recorded" if "x \<in> set (take n ?e)" "oi_jobId x = oi_jobId i" for x
      using that r ex by (auto simp: in_set_conv_nth)
    ultimately have "due_head nowMs [] ?e (take n ?e) i (drop (Suc n) ?e)"
      using r ex by (simp add: due_head_def)
    with r show ?l by (intro exI conjI) auto
  qed
  obtain q' c where qc: "claim_loop nowMs [] ?e = (q', c)" by (cases "claim_loop nowMs [] ?e")
  then have chosen: "chooseOfflineQueueItemV1 q nowMs = Inr (q', c)"
    using assms(2) valid by (simp add: chooseOfflineQueueItemV1_def map_r_parseItem [THEN iffD2])
  from claim_loop_outcome [of nowMs "[]" ?e] qc have "claim_outcome nowMs [] ?e (q', c)" by simp
  then show ?thesis unfolding claim_outcome_def prod.inject
  proof (elim disjE exE conjE)
    assume "c = None" "\<nexists>pre i post. due_head nowMs [] ?e pre i post"
    then have "\<not> (n < length q \<and> oi_status (q ! n) = Os_queued \<and> oi_nextAttemptAtMs (q ! n) \<le> nowMs \<and>
        oi_attemptCount (q ! n) < 8 \<and> (\<forall>m < n. oi_jobId (q ! m) = oi_jobId (q ! n) \<longrightarrow> oi_status (q ! m) = Os_recorded))" for n
      using head [of "exhaust (q ! n)" n] by blast
    with chosen \<open>c = None\<close> show ?thesis by (intro exI conjI) (assumption, simp)
  next
    fix pre i post
    assume h: "due_head nowMs [] ?e pre i post" "q' = pre @ claimed i # post" "c = Some (claimed i)"
    with head [of i "length pre"] have n: "length pre < length q" "i = exhaust (q ! length pre)"
      "oi_status (q ! length pre) = Os_queued" "oi_nextAttemptAtMs (q ! length pre) \<le> nowMs"
      "oi_attemptCount (q ! length pre) < 8"
      "\<forall>m < length pre. oi_jobId (q ! m) = oi_jobId (q ! length pre) \<longrightarrow> oi_status (q ! m) = Os_recorded" by blast+
    then have "i = q ! length pre" by (simp add: exhaust_def retry_limits)
    with n h(2,3) chosen show ?thesis by (auto intro!: exI [of _ "length pre"])
  qed
qed

section \<open>A concrete run\<close>

definition oq_item :: "string \<Rightarrow> offline_item" where
  "oq_item k = \<lparr>oi_commandId = k, oi_jobId = ''j'', oi_payloadHash = sample_hash, oi_expectedRevision = None,
     oi_kind = Ok_work_state, oi_attemptCount = 0, oi_nextAttemptAtMs = 0, oi_status = Os_queued\<rparr>"

definition oq_run :: "offline_item list" where
  "oq_run = [(claimed (oq_item ''a''))\<lparr>oi_status := Os_recorded\<rparr>, claimed (oq_item ''b'')]"

lemma oq_run_reachable: "queue_reachable oq_run"
proof -
  have 1: "queue_reachable [oq_item ''a'']"
    by (rule queue_reachable.step [OF queue_reachable.empty], rule queue_step.capture [of _ "oq_item ''a''"]) code_simp+
  have 2: "queue_reachable [oq_item ''a'', oq_item ''b'']"
    by (rule queue_reachable.step [OF 1], rule queue_step.capture [of _ "oq_item ''b''"]) code_simp+
  have 3: "queue_reachable [claimed (oq_item ''a''), oq_item ''b'']"
    by (rule queue_reachable.step [OF 2], rule queue_step.claim [of _ 5 _ "Some (claimed (oq_item ''a''))"]) code_simp
  have "queue_step [claimed (oq_item ''a''), oq_item ''b'']
      (answer_queue ((claimed (oq_item ''a''))\<lparr>oi_status := Os_recorded\<rparr>) [claimed (oq_item ''a''), oq_item ''b''])"
    by (rule queue_step.answer [of "claimed (oq_item ''a'')" _
        "Some \<lparr>ul_commandId = ''a'', ul_state = Us_acknowledged, ul_code = ''RECORDED''\<rparr>" 6 0]) code_simp+
  then have 4: "queue_reachable [(claimed (oq_item ''a''))\<lparr>oi_status := Os_recorded\<rparr>, oq_item ''b'']"
    using queue_reachable.step [OF 3] by (simp add: answer_queue_def oq_item_def claimed_def)
  show ?thesis unfolding oq_run_def
    by (rule queue_reachable.step [OF 4], rule queue_step.claim [of _ 7 _ "Some (claimed (oq_item ''b''))"]) code_simp
qed

theorem offline_queue_in_order_witness: "oi_status (oq_run ! 0) = Os_recorded \<and> oi_attemptCount (oq_run ! 1) \<le> 8"
proof
  show "oi_status (oq_run ! 0) = Os_recorded"
    by (rule offline_queue_in_order [OF oq_run_reachable, of 0 1, THEN conjunct1, THEN mp]) (simp_all add: oq_run_def oq_item_def)
  have "oq_run ! 1 \<in> set oq_run" by (simp add: oq_run_def)
  then show "oi_attemptCount (oq_run ! 1) \<le> 8" using offline_queue_in_order [OF oq_run_reachable] by blast
qed

lemma offline_queue_history_kept_witness:
  "oi_status (rq_items (restoreOfflineQueueV1 (map Some oq_run)) ! 0) = Os_recorded \<and>
   applyOfflineUploadResultV1 (oq_run ! 0) None 9 0 = Inr (oq_run ! 0)"
proof
  have first: "oi_status (oq_run ! 0) = Os_recorded" "0 < length oq_run" "oq_run ! 0 \<in> set oq_run"
    by (simp_all add: oq_run_def)
  show "oi_status (rq_items (restoreOfflineQueueV1 (map Some oq_run)) ! 0) = Os_recorded"
    using offline_queue_history_kept [OF oq_run_reachable, THEN conjunct1, THEN mp, OF conjI [OF queue_step.reload first(2)]] first(1) by simp
  show "applyOfflineUploadResultV1 (oq_run ! 0) None 9 0 = Inr (oq_run ! 0)"
    using offline_queue_history_kept [OF oq_run_reachable, of _ _ "oq_run ! 0" 9 0 None] first(1,3)
    by (simp add: counter_ok_def MAX_SAFE_def)
qed

theorem offline_claim_progress_witness:
  "\<exists>q' c. chooseOfflineQueueItemV1 oq_run 8 = Inr (q', c)"
  using offline_claim_progress [OF oq_run_reachable, of 8] by (auto simp: counter_ok_def MAX_SAFE_def)

end
