(* ===== verification/Construction_Notices.thy ===== *)
theory Construction_Notices
  imports Schemas Instants
begin

text \<open>
  The construction notice fixtures of \<^verbatim>\<open>construction-notices.ts\<close>: the two fixture profiles, the
  deadline calculator, the append-only history of notice revisions and the book of service events.
  A date (\<^verbatim>\<open>z.iso.date()\<close>, years 0000 to 9999) is its number of days from 1970-01-01,
  which is what \<^verbatim>\<open>Date\<close> computes with; a time of the schema \<^verbatim>\<open>utcDatetimeV1\<close> is its text,
  compared through \<open>date_parse\<close>. \<^verbatim>\<open>JSON.stringify\<close> of a preview is the parameter \<open>render\<close>.
\<close>

section \<open>Times and dates\<close>

text \<open>\<^verbatim>\<open>Date.parse\<close>: milliseconds, further digits of the fraction are cut off.\<close>

definition date_parse :: "string \<Rightarrow> int" where
  "date_parse s = (case match_instant s of
     None \<Rightarrow> 0
   | Some m \<Rightarrow> (days_from_civil (im_year m) (im_month m) (im_day m) * 86400 + im_hour m * 3600 +
       im_minute m * 60 + im_second m) * 1000 + digits_val (take 3 (pad_end 3 (im_fraction m))))"

definition utcDatetimeV1 :: "string \<Rightarrow> bool" where
  "utcDatetimeV1 s \<longleftrightarrow> (case match_instant s of None \<Rightarrow> False | Some m \<Rightarrow> im_zone m = ''Z'')"

definition iso_date_ok :: "int \<Rightarrow> bool" where
  "iso_date_ok d \<longleftrightarrow> - 719528 \<le> d \<and> d \<le> 2932896"

definition utc_day :: "int \<Rightarrow> int" where
  "utc_day d = (d + 4) mod 7"

definition text200 :: "string \<Rightarrow> bool" where
  "text200 s \<longleftrightarrow> 1 \<le> length s \<and> length s \<le> 200"

definition notice_revision_ok :: "int \<Rightarrow> bool" where
  "notice_revision_ok n \<longleftrightarrow> 0 < n \<and> n \<le> 2147483647"

section \<open>Profiles\<close>

datatype notice_fact = Nf_dueDate | Nf_contractReference | Nf_triggerEvidenceId
datatype day_count = Dy_calendar | Dy_working
datatype roll_rule = Rl_none | Rl_next_working
datatype service_method = Sm_fixture_email | Sm_fixture_hand_delivery

record notice_calendar =
  nc_sourceReference :: string
  nc_version :: string
  nc_weekendDays :: "int list"
  nc_holidays :: "int list"

record professional_review =
  pv_reviewerReference :: string
  pv_qualificationReference :: string
  pv_signedAt :: string
  pv_profileId :: string
  pv_profileVersion :: int
  pv_templateVersion :: string
  pv_requiredFactsVersion :: string
  pv_dateRulesVersion :: string
  pv_serviceAssumptionsVersion :: string
  pv_fixtureSuiteVersion :: string
  pv_signoffEvidenceId :: string

record notice_profile =
  np_id :: string
  np_revision :: int
  np_contract :: string
  np_sourceReference :: string
  np_templateVersion :: string
  np_requiredFactsVersion :: string
  np_dateRulesVersion :: string
  np_serviceAssumptionsVersion :: string
  np_fixtureSuiteVersion :: string
  np_requiredFacts :: "notice_fact list"
  np_offsetDays :: int
  np_dayCount :: day_count
  np_roll :: roll_rule
  np_calendar :: "notice_calendar option"
  np_serviceMethods :: "service_method list"
  np_professionalReview :: "professional_review option"

definition noticeProfessionalReviewV1 :: "professional_review \<Rightarrow> bool" where
  "noticeProfessionalReviewV1 r \<longleftrightarrow> list_all text200 [pv_reviewerReference r, pv_qualificationReference r, pv_profileId r,
     pv_templateVersion r, pv_requiredFactsVersion r, pv_dateRulesVersion r, pv_serviceAssumptionsVersion r,
     pv_fixtureSuiteVersion r] \<and> utcDatetimeV1 (pv_signedAt r) \<and> notice_revision_ok (pv_profileVersion r)"

definition notice_calendar_ok :: "notice_calendar \<Rightarrow> bool" where
  "notice_calendar_ok c \<longleftrightarrow> text200 (nc_sourceReference c) \<and> text200 (nc_version c) \<and>
     list_all (\<lambda>d. 0 \<le> d \<and> d \<le> 6) (nc_weekendDays c) \<and> length (nc_weekendDays c) \<le> 6 \<and>
     list_all iso_date_ok (nc_holidays c) \<and> length (nc_holidays c) \<le> 366"

definition noticeRuleProfileV1 :: "notice_profile \<Rightarrow> bool" where
  "noticeRuleProfileV1 p \<longleftrightarrow> list_all text200 [np_id p, np_contract p, np_sourceReference p, np_templateVersion p,
     np_requiredFactsVersion p, np_dateRulesVersion p, np_serviceAssumptionsVersion p, np_fixtureSuiteVersion p] \<and>
     notice_revision_ok (np_revision p) \<and> np_requiredFacts p \<noteq> [] \<and> np_serviceMethods p \<noteq> [] \<and>
     - 366 \<le> np_offsetDays p \<and> np_offsetDays p \<le> 366 \<and>
     (case np_calendar p of None \<Rightarrow> True | Some c \<Rightarrow> notice_calendar_ok c) \<and>
     (case np_professionalReview p of None \<Rightarrow> True | Some r \<Rightarrow> noticeProfessionalReviewV1 r) \<and>
     \<not> ((np_dayCount p = Dy_working \<or> np_roll p = Rl_next_working) \<and> np_calendar p = None)"

definition profileBase :: notice_profile where
  "profileBase = \<lparr>np_id = ''fixture-calendar'', np_revision = 1, np_contract = ''Imaginary workshop contract A'',
     np_sourceReference = ''fictional-contract-A/clause-7/rev-1'', np_templateVersion = ''fixture-placeholder.v1'',
     np_requiredFactsVersion = ''fixture-facts.v1'', np_dateRulesVersion = ''fixture-date-rules.v1'',
     np_serviceAssumptionsVersion = ''fixture-service.v1'', np_fixtureSuiteVersion = ''construction-notices.fixture.v1'',
     np_requiredFacts = [Nf_dueDate, Nf_contractReference, Nf_triggerEvidenceId], np_offsetDays = - 2,
     np_dayCount = Dy_calendar, np_roll = Rl_none, np_calendar = None,
     np_serviceMethods = [Sm_fixture_email, Sm_fixture_hand_delivery], np_professionalReview = None\<rparr>"

text \<open>The holiday is 2026-11-02, the day 20759.\<close>

definition CONSTRUCTION_NOTICE_FIXTURE_PROFILES :: "notice_profile list" where
  "CONSTRUCTION_NOTICE_FIXTURE_PROFILES =
     [profileBase,
      profileBase\<lparr>np_id := ''fixture-working'', np_contract := ''Imaginary workshop contract B'',
        np_sourceReference := ''fictional-contract-B/clause-9/rev-1'', np_offsetDays := 2, np_dayCount := Dy_working,
        np_roll := Rl_next_working,
        np_calendar := Some \<lparr>nc_sourceReference = ''fictional-calendar-only'', nc_version = ''fictional-2026.v1'',
          nc_weekendDays = [0, 6], nc_holidays = [20759]\<rparr>\<rparr>]"

text \<open>\<open>Nt_no_return\<close> marks a call that would not return; it is proved not to occur.\<close>

datatype notice_error = Nt_invalid_input | Nt_unsupported | Nt_missing_facts | Nt_context_mismatch |
  Nt_stale_revision | Nt_replay_conflict | Nt_approval_required | Nt_invalid_service_state | Nt_disabled | Nt_no_return

definition profileFor :: "string \<Rightarrow> int \<Rightarrow> notice_error + notice_profile" where
  "profileFor i v = of_option Nt_unsupported
     (find (\<lambda>p. np_id p = i \<and> np_revision p = v) CONSTRUCTION_NOTICE_FIXTURE_PROFILES)"

section \<open>The deadline\<close>

definition isWorking :: "notice_profile \<Rightarrow> int \<Rightarrow> bool" where
  "isWorking p d = (case np_calendar p of None \<Rightarrow> True
     | Some c \<Rightarrow> utc_day d \<notin> set (nc_weekendDays c) \<and> d \<notin> set (nc_holidays c))"

definition counts_day :: "notice_profile \<Rightarrow> int \<Rightarrow> bool" where
  "counts_day p d \<longleftrightarrow> np_dayCount p = Dy_calendar \<or> isWorking p d"

partial_function (option) walk_days :: "notice_profile \<Rightarrow> int \<Rightarrow> int \<Rightarrow> int option" where
  "walk_days p remaining d =
     (if remaining \<le> 0 then Some d
      else let d' = d + sgn (np_offsetDays p)
           in walk_days p (if counts_day p d' then remaining - 1 else remaining) d')"

partial_function (option) roll_days :: "notice_profile \<Rightarrow> int \<Rightarrow> int option" where
  "roll_days p d = (if isWorking p d then Some d else roll_days p (d + 1))"

declare walk_days.simps [code] roll_days.simps [code]

definition deadline_days :: "int \<Rightarrow> notice_profile \<Rightarrow> int option" where
  "deadline_days dueDate p = (case walk_days p \<bar>np_offsetDays p\<bar> dueDate of
     None \<Rightarrow> None
   | Some d \<Rightarrow> if np_roll p = Rl_next_working then roll_days p d else Some d)"

definition notice_deadline :: "int \<Rightarrow> notice_profile \<Rightarrow> notice_error + int" where
  "notice_deadline dueDate p = (case deadline_days dueDate p of
     None \<Rightarrow> Inl Nt_no_return
   | Some d \<Rightarrow> if iso_date_ok d then Inr d else Inl Nt_unsupported)"

section \<open>Inputs, previews and the history of revisions\<close>

record notice_input =
  ni_tenantId :: string
  ni_jobId :: string
  ni_noticeId :: string
  ni_revision :: int
  ni_previousRevisionId :: "string option"
  ni_revisionId :: string
  ni_profileId :: string
  ni_profileVersion :: int
  ni_recipientReference :: string
  ni_serviceMethod :: service_method
  ni_dueDate :: "int option"
  ni_contractReference :: "string option"
  ni_triggerEvidenceId :: "string option"

definition noticeInputV1 :: "notice_input \<Rightarrow> bool" where
  "noticeInputV1 i \<longleftrightarrow> notice_revision_ok (ni_revision i) \<and> text200 (ni_profileId i) \<and>
     notice_revision_ok (ni_profileVersion i) \<and> text200 (ni_recipientReference i) \<and>
     (case ni_dueDate i of None \<Rightarrow> True | Some d \<Rightarrow> iso_date_ok d) \<and>
     (case ni_contractReference i of None \<Rightarrow> True | Some t \<Rightarrow> text200 t)"

definition fact_present :: "notice_input \<Rightarrow> notice_fact \<Rightarrow> bool" where
  "fact_present i f = (case f of Nf_dueDate \<Rightarrow> ni_dueDate i \<noteq> None | Nf_contractReference \<Rightarrow> ni_contractReference i \<noteq> None
     | Nf_triggerEvidenceId \<Rightarrow> ni_triggerEvidenceId i \<noteq> None)"

definition notice_checklist :: "notice_input \<Rightarrow> notice_profile \<Rightarrow> (notice_fact \<times> bool) list" where
  "notice_checklist i p = map (\<lambda>f. (f, fact_present i f)) (np_requiredFacts p)"

definition constructionNoticeChecklist :: "notice_input \<Rightarrow> notice_error + (notice_fact \<times> bool) list" where
  "constructionNoticeChecklist i = (if \<not> noticeInputV1 i then Inl Nt_invalid_input
     else bind_r (profileFor (ni_profileId i) (ni_profileVersion i)) (\<lambda>p. Inr (notice_checklist i p)))"

record notice_preview =
  nv_input :: notice_input
  nv_profile :: notice_profile
  nv_deadline :: int

definition notice_preview_of :: "notice_input \<Rightarrow> notice_error + notice_preview" where
  "notice_preview_of i = bind_r (profileFor (ni_profileId i) (ni_profileVersion i)) (\<lambda>p.
     if list_ex (\<lambda>(f, present). \<not> present) (notice_checklist i p) then Inl Nt_missing_facts
     else if ni_serviceMethod i \<notin> set (np_serviceMethods p) then Inl Nt_unsupported
     else bind_r (of_option Nt_missing_facts (ni_dueDate i)) (\<lambda>due.
       bind_r (notice_deadline due p) (\<lambda>d. Inr \<lparr>nv_input = i, nv_profile = p, nv_deadline = d\<rparr>)))"

record notice_history =
  nh_tenantId :: string
  nh_jobId :: string
  nh_noticeId :: string
  nh_revisions :: "notice_input list"

definition historyV1 :: "notice_history \<Rightarrow> bool" where
  "historyV1 h \<longleftrightarrow> list_all noticeInputV1 (nh_revisions h) \<and> length (nh_revisions h) \<le> 1000"

text \<open>The loop over the revisions carries the revisions seen so far.\<close>

definition revision_step :: "notice_history \<Rightarrow> notice_input list \<Rightarrow> notice_input \<Rightarrow> notice_error + notice_input list" where
  "revision_step h prior r =
     (if ni_tenantId r \<noteq> nh_tenantId h \<or> ni_jobId r \<noteq> nh_jobId h \<or> ni_noticeId r \<noteq> nh_noticeId h
      then Inl Nt_context_mismatch
      else if ni_revisionId r \<in> ni_revisionId ` set prior then Inl Nt_replay_conflict
      else if ni_revision r \<noteq> int (length prior) + 1 \<or>
              ni_previousRevisionId r \<noteq> (if prior = [] then None else Some (ni_revisionId (last prior)))
      then Inl Nt_stale_revision
      else bind_r (notice_preview_of r) (\<lambda>_. Inr (prior @ [r])))"

definition validateHistory :: "notice_history \<Rightarrow> notice_error + notice_history" where
  "validateHistory h = (if \<not> historyV1 h then Inl Nt_invalid_input
     else bind_r (fold_r (revision_step h) [] (nh_revisions h)) (\<lambda>_. Inr h))"

definition add_revision :: "notice_history \<Rightarrow> notice_input \<Rightarrow> notice_history" where
  "add_revision h r = h\<lparr>nh_revisions := nh_revisions h @ [r]\<rparr>"

definition appendNoticeFixtureRevision :: "notice_history \<Rightarrow> notice_input \<Rightarrow> notice_error + notice_history" where
  "appendNoticeFixtureRevision h r = bind_r (validateHistory h) (\<lambda>history.
     if \<not> noticeInputV1 r then Inl Nt_invalid_input
     else case find (\<lambda>e. ni_revisionId e = ni_revisionId r) (nh_revisions history) of
         Some existing \<Rightarrow> if existing \<noteq> r then Inl Nt_replay_conflict else Inr history
       | None \<Rightarrow> validateHistory (add_revision history r))"

definition previewConstructionNoticeFixture :: "notice_history \<Rightarrow> notice_error + notice_preview" where
  "previewConstructionNoticeFixture h = bind_r (validateHistory h) (\<lambda>history.
     if nh_revisions history = [] then Inl Nt_missing_facts else notice_preview_of (last (nh_revisions history)))"

section \<open>Decisions and service events\<close>

datatype notice_resolution = Nr_pending | Nr_approved | Nr_rejected | Nr_dismissed | Nr_revoked | Nr_superseded

record notice_decision =
  nd_tenantId :: string
  nd_jobId :: string
  nd_id :: string
  nd_actorId :: string
  nd_resolution :: notice_resolution
  nd_approvedPreview :: string
  nd_decidedAt :: string
  nd_expiresAt :: string

definition noticeFixtureDecisionV1 :: "notice_decision \<Rightarrow> bool" where
  "noticeFixtureDecisionV1 d \<longleftrightarrow> 1 \<le> length (nd_approvedPreview d) \<and> length (nd_approvedPreview d) \<le> 20000 \<and>
     utcDatetimeV1 (nd_decidedAt d) \<and> utcDatetimeV1 (nd_expiresAt d)"

definition noticeFixtureApprovalTarget :: "(notice_preview \<Rightarrow> string) \<Rightarrow> notice_history \<Rightarrow> notice_error + string" where
  "noticeFixtureApprovalTarget render h = bind_r (previewConstructionNoticeFixture h) (\<lambda>p. Inr (render p))"

definition approvedDecision :: "(notice_preview \<Rightarrow> string) \<Rightarrow> notice_history \<Rightarrow> notice_decision \<Rightarrow> string \<Rightarrow>
    notice_error + notice_decision" where
  "approvedDecision render h d now =
     (if \<not> noticeFixtureDecisionV1 d then Inl Nt_invalid_input
      else if nd_tenantId d \<noteq> nh_tenantId h \<or> nd_jobId d \<noteq> nh_jobId h then Inl Nt_context_mismatch
      else if nd_resolution d \<noteq> Nr_approved then Inl Nt_approval_required
      else bind_r (noticeFixtureApprovalTarget render h) (\<lambda>target.
        if nd_approvedPreview d \<noteq> target \<or> date_parse (nd_decidedAt d) > date_parse now \<or>
           date_parse (nd_expiresAt d) \<le> date_parse now
        then Inl Nt_approval_required else Inr d))"

datatype service_state = Se_queued | Se_provider_accepted | Se_outcome_unknown | Se_read | Se_legally_served

record service_event =
  se_tenantId :: string
  se_jobId :: string
  se_id :: string
  se_noticeRevisionId :: string
  se_decisionId :: string
  se_recordedAt :: string
  se_state :: service_state
  se_providerReference :: "string option"
  se_evidenceId :: "string option"
  se_legalAssessmentReference :: "string option"

definition noticeServiceEventV1 :: "service_event \<Rightarrow> bool" where
  "noticeServiceEventV1 e \<longleftrightarrow> utcDatetimeV1 (se_recordedAt e) \<and>
     (case se_providerReference e of None \<Rightarrow> True | Some t \<Rightarrow> text200 t) \<and>
     (case se_legalAssessmentReference e of None \<Rightarrow> True | Some t \<Rightarrow> text200 t)"

record service_book =
  sb_decision :: "notice_decision option"
  sb_events :: "service_event list"

definition serviceBookV1 :: "service_book \<Rightarrow> bool" where
  "serviceBookV1 b \<longleftrightarrow> (case sb_decision b of None \<Rightarrow> True | Some d \<Rightarrow> noticeFixtureDecisionV1 d) \<and>
     list_all noticeServiceEventV1 (sb_events b) \<and> length (sb_events b) \<le> 1000"

definition current_revision :: "notice_history \<Rightarrow> string option" where
  "current_revision h = (if nh_revisions h = [] then None else Some (ni_revisionId (last (nh_revisions h))))"

definition service_facts_ok :: "service_event list \<Rightarrow> service_event \<Rightarrow> bool" where
  "service_facts_ok prior e \<longleftrightarrow>
     (if prior = [] then se_state e = Se_queued else se_state e \<noteq> Se_queued) \<and>
     (prior \<noteq> [] \<longrightarrow> date_parse (se_recordedAt (last prior)) \<le> date_parse (se_recordedAt e)) \<and>
     se_state e \<notin> se_state ` set prior \<and>
     (se_state e \<noteq> Se_queued \<longrightarrow> se_evidenceId e \<noteq> None) \<and>
     (se_state e = Se_provider_accepted \<or> se_state e = Se_read \<longrightarrow> se_providerReference e \<noteq> None) \<and>
     (se_state e = Se_legally_served \<longrightarrow> se_legalAssessmentReference e \<noteq> None)"

definition validateServiceEvent :: "(notice_preview \<Rightarrow> string) \<Rightarrow> notice_history \<Rightarrow> notice_decision \<Rightarrow>
    service_event list \<Rightarrow> service_event \<Rightarrow> notice_error + service_event list" where
  "validateServiceEvent render h d prior e =
     (if se_tenantId e \<noteq> nh_tenantId h \<or> se_jobId e \<noteq> nh_jobId h \<or>
         Some (se_noticeRevisionId e) \<noteq> current_revision h \<or> se_decisionId e \<noteq> nd_id d
      then Inl Nt_context_mismatch
      else bind_r (approvedDecision render h d (se_recordedAt e)) (\<lambda>_.
        if se_id e \<in> se_id ` set prior then Inl Nt_replay_conflict
        else if \<not> service_facts_ok prior e then Inl Nt_invalid_service_state
        else Inr (prior @ [e])))"

definition appendNoticeFixtureServiceEvent :: "(notice_preview \<Rightarrow> string) \<Rightarrow> notice_history \<Rightarrow> notice_decision \<Rightarrow>
    service_book \<Rightarrow> service_event \<Rightarrow> notice_error + service_book" where
  "appendNoticeFixtureServiceEvent render h d b e =
     bind_r (validateHistory h) (\<lambda>history.
     if \<not> serviceBookV1 b \<or> \<not> noticeServiceEventV1 e then Inl Nt_invalid_input
     else bind_r (approvedDecision render history d (se_recordedAt e)) (\<lambda>decision.
     if sb_events b \<noteq> [] \<and> sb_decision b \<noteq> Some decision then Inl Nt_approval_required
     else if sb_events b = [] \<and> sb_decision b \<noteq> None then Inl Nt_invalid_service_state
     else bind_r (fold_r (validateServiceEvent render history decision) [] (sb_events b)) (\<lambda>validated.
       case find (\<lambda>x. se_id x = se_id e) validated of
         Some existing \<Rightarrow> if existing \<noteq> e then Inl Nt_replay_conflict else Inr b
       | None \<Rightarrow> bind_r (validateServiceEvent render history decision validated e) (\<lambda>events.
           Inr (b\<lparr>sb_decision := Some decision, sb_events := events\<rparr>)))))"

definition constructionNoticeProductionBlockers :: "string \<Rightarrow> int \<Rightarrow> notice_error + string list" where
  "constructionNoticeProductionBlockers i v = bind_r (profileFor i v) (\<lambda>p.
     Inr ([''FEATURE_DISABLED'', ''FIXTURE_ONLY''] @
       (if np_professionalReview p = None then [''PROFESSIONAL_REVIEW_REQUIRED''] else [])))"

definition assertRealConstructionNoticeAllowed :: "notice_error + unit" where
  "assertRealConstructionNoticeAllowed = Inl Nt_disabled"

section \<open>The deadline is always found\<close>

text \<open>In either direction there is a working day: six weekend days leave one free, and the holidays are finite.\<close>

lemma working_ahead:
  assumes "list_all (\<lambda>d. 0 \<le> d \<and> d \<le> 6) ws" "length ws \<le> 6" and dir: "dir = 1 \<or> dir = - 1"
  shows "\<exists>k. 0 < k \<and> utc_day (d + dir * int k) \<notin> set ws \<and> d + dir * int k \<notin> set hs"
proof -
  have "card (set ws) \<le> 6" using card_length [of ws] assms(2) by simp
  then have "\<not> {0..6} \<subseteq> set ws"
    using card_mono [of "set ws" "{0..6::int}"] by auto
  then obtain w where "w \<in> {0..6}" and w: "w \<notin> set ws" by blast
  then have w: "0 \<le> w" "w \<le> 6" "w \<notin> set ws" by simp_all
  define M where "M = Max (insert 0 ((\<lambda>h. \<bar>h - d\<bar>) ` set hs))"
  have M: "0 \<le> M" "h \<in> set hs \<Longrightarrow> \<bar>h - d\<bar> \<le> M" for h by (auto simp: M_def)
  define k where "k = M + 1 + (dir * (w - d - 4) - (M + 1)) mod 7"
  have k: "M < k" by (simp add: k_def add_pos_nonneg)
  have "k mod 7 = (dir * (w - d - 4)) mod 7" unfolding k_def by (metis add.commute diff_add_cancel mod_add_right_eq)
  then have "(dir * k) mod 7 = (dir * (dir * (w - d - 4))) mod 7" by (metis mod_mult_right_eq)
  also have "dir * (dir * (w - d - 4)) = w - d - 4" using dir by auto
  finally have "(d + dir * k + 4) mod 7 = (d + 4 + (w - d - 4)) mod 7"
    by (metis add.assoc add.commute mod_add_right_eq)
  then have "utc_day (d + dir * k) = w" using w by (simp add: utc_day_def)
  moreover have "d + dir * k \<notin> set hs" using M(2) [of "d + dir * k"] k dir by auto
  ultimately show ?thesis using w(3) k M(1) by (intro exI [of _ "nat k"]) simp
qed

lemma isWorking_ahead:
  assumes "noticeRuleProfileV1 p" "dir = 1 \<or> dir = - 1"
  shows "\<exists>k. 0 < k \<and> isWorking p (d + dir * int k)"
proof (cases "np_calendar p")
  case None
  then show ?thesis by (auto simp: isWorking_def)
next
  case (Some c)
  then have "notice_calendar_ok c" using assms(1) by (simp add: noticeRuleProfileV1_def)
  then show ?thesis
    using working_ahead [of "nc_weekendDays c" dir d "nc_holidays c"] assms(2) Some
    by (auto simp: isWorking_def notice_calendar_ok_def)
qed

lemma roll_days_result: "isWorking p (d + int k) \<Longrightarrow>
    \<exists>e. roll_days p d = Some e \<and> d \<le> e \<and> isWorking p e \<and> (\<forall>x. d \<le> x \<longrightarrow> x < e \<longrightarrow> \<not> isWorking p x)"
proof (induction k arbitrary: d)
  case 0
  then have "roll_days p d = Some d" by (simp add: roll_days.simps)
  with 0 show ?case by auto
next
  case (Suc k)
  show ?case
  proof (cases "isWorking p d")
    case True
    then have "roll_days p d = Some d" by (simp add: roll_days.simps)
    with True show ?thesis by auto
  next
    case False
    from Suc.prems have "isWorking p (d + 1 + int k)" by (simp add: algebra_simps)
    from Suc.IH [OF this] obtain e where e: "roll_days p (d + 1) = Some e" "d + 1 \<le> e" "isWorking p e"
      "\<forall>x. d + 1 \<le> x \<longrightarrow> x < e \<longrightarrow> \<not> isWorking p x" by blast
    have "\<not> isWorking p x" if "d \<le> x" "x < e" for x using that False e(4) by (cases "x = d") auto
    moreover have "roll_days p d = roll_days p (d + 1)" using False roll_days.simps [of p d] by simp
    ultimately show ?thesis using e by (intro exI [of _ e]) simp
  qed
qed

text \<open>The days counted on the way from \<open>d\<close>, \<open>k\<close> steps in the direction of the offset.\<close>

definition days_walked :: "notice_profile \<Rightarrow> int \<Rightarrow> nat \<Rightarrow> int list" where
  "days_walked p d k = map (\<lambda>j. d + sgn (np_offsetDays p) * int j) [1..<Suc k]"

lemma days_walked_Suc: "days_walked p d (Suc k) =
    (d + sgn (np_offsetDays p)) # days_walked p (d + sgn (np_offsetDays p)) k"
proof -
  have "[1..<Suc (Suc k)] = 1 # map Suc [1..<Suc k]" by (simp add: map_Suc_upt upt_conv_Cons)
  then show ?thesis by (simp add: days_walked_def algebra_simps del: upt_Suc)
qed

lemma walk_to_counted:
  assumes "counts_day p (d + sgn (np_offsetDays p) * int (Suc k))" and "0 < n"
  shows "\<exists>j. 0 < j \<and> walk_days p n d = walk_days p (n - 1) (d + sgn (np_offsetDays p) * int j) \<and>
    length (filter (counts_day p) (days_walked p d j)) = 1 \<and> counts_day p (d + sgn (np_offsetDays p) * int j)"
  using assms(1)
proof (induction k arbitrary: d)
  case 0
  then have "walk_days p n d = walk_days p (n - 1) (d + sgn (np_offsetDays p))"
    using assms(2) walk_days.simps [of p n d] by (simp add: Let_def)
  with 0 show ?case by (intro exI [of _ 1]) (simp add: days_walked_def)
next
  case (Suc k)
  let ?s = "sgn (np_offsetDays p)"
  show ?case
  proof (cases "counts_day p (d + ?s)")
    case True
    then have "walk_days p n d = walk_days p (n - 1) (d + ?s)"
      using assms(2) walk_days.simps [of p n d] by (simp add: Let_def)
    with True show ?thesis by (intro exI [of _ 1]) (simp add: days_walked_def)
  next
    case False
    have "counts_day p (d + ?s + ?s * int (Suc k))" using Suc.prems by (simp add: algebra_simps)
    from Suc.IH [OF this] obtain j where j: "0 < j" "walk_days p n (d + ?s) = walk_days p (n - 1) (d + ?s + ?s * int j)"
      "length (filter (counts_day p) (days_walked p (d + ?s) j)) = 1" "counts_day p (d + ?s + ?s * int j)" by blast
    have "walk_days p n d = walk_days p n (d + ?s)"
      using False assms(2) walk_days.simps [of p n d] by (simp add: Let_def)
    with j False show ?thesis
      by (intro exI [of _ "Suc j"]) (simp add: days_walked_Suc algebra_simps)
  qed
qed

lemma days_walked_add: "days_walked p d (i + j) =
    days_walked p d i @ days_walked p (d + sgn (np_offsetDays p) * int i) j"
  by (induction i arbitrary: d) (simp_all add: days_walked_Suc algebra_simps, simp add: days_walked_def)

lemma walk_total:
  assumes "\<And>d. n \<noteq> 0 \<Longrightarrow> \<exists>k. 0 < k \<and> counts_day p (d + sgn (np_offsetDays p) * int k)"
  shows "\<exists>j. walk_days p (int n) d = Some (d + sgn (np_offsetDays p) * int j) \<and>
    length (filter (counts_day p) (days_walked p d j)) = n \<and>
    (if n = 0 then j = 0 else counts_day p (d + sgn (np_offsetDays p) * int j))"
  using assms
proof (induction n arbitrary: d)
  case 0
  then show ?case by (intro exI [of _ 0]) (simp add: walk_days.simps days_walked_def)
next
  case (Suc n)
  let ?s = "sgn (np_offsetDays p)"
  from Suc.prems [of d] obtain k where "0 < k" "counts_day p (d + ?s * int k)" by auto
  then have "counts_day p (d + ?s * int (Suc (k - 1)))" by simp
  from walk_to_counted [OF this, of "int (Suc n)"] obtain i where i: "0 < i"
    "walk_days p (int (Suc n)) d = walk_days p (int n) (d + ?s * int i)"
    "length (filter (counts_day p) (days_walked p d i)) = 1" "counts_day p (d + ?s * int i)" by auto
  from Suc.IH [of "d + ?s * int i"] Suc.prems obtain j where j:
    "walk_days p (int n) (d + ?s * int i) = Some (d + ?s * int i + ?s * int j)"
    "length (filter (counts_day p) (days_walked p (d + ?s * int i) j)) = n"
    "if n = 0 then j = 0 else counts_day p (d + ?s * int i + ?s * int j)" by blast
  have sum: "d + ?s * int i + ?s * int j = d + ?s * int (i + j)" by (simp add: algebra_simps)
  have "counts_day p (d + ?s * int (i + j))" using i(4) j(3) sum by (cases "n = 0") simp_all
  moreover have "length (filter (counts_day p) (days_walked p d (i + j))) = Suc n"
    using i(3) j(2) by (simp add: days_walked_add)
  ultimately show ?case using i(2) j(1) sum by (intro exI [of _ "i + j"]) simp
qed

text \<open>
  C37. The deadline calculator returns for every valid profile and every due date. Its first loop ends
  on the day reached after exactly \<open>|offsetDays|\<close> counted days in the direction of the offset, itself a
  counted day; with the roll rule the result is the first working day from there, otherwise that day.
  For a calendar-day profile without a roll it is the due date plus the offset. A result outside the
  supported years is refused.
\<close>

theorem notice_deadline_terminates:
  assumes "noticeRuleProfileV1 p"
  shows "\<exists>j e. deadline_days due p = Some e \<and>
      length (filter (counts_day p) (days_walked p due j)) = nat \<bar>np_offsetDays p\<bar> \<and>
      (let day = due + sgn (np_offsetDays p) * int j in
       (np_offsetDays p \<noteq> 0 \<longrightarrow> counts_day p day) \<and>
       (if np_roll p = Rl_next_working
        then day \<le> e \<and> isWorking p e \<and> (\<forall>x. day \<le> x \<longrightarrow> x < e \<longrightarrow> \<not> isWorking p x) else e = day) \<and>
       (np_dayCount p = Dy_calendar \<longrightarrow> day = due + np_offsetDays p)) \<and>
      notice_deadline due p = (if iso_date_ok e then Inr e else Inl Nt_unsupported)"
proof -
  let ?s = "sgn (np_offsetDays p)" and ?n = "nat \<bar>np_offsetDays p\<bar>"
  have dir: "?n \<noteq> 0 \<Longrightarrow> ?s = 1 \<or> ?s = - 1" by (auto simp: sgn_if)
  have ahead: "\<exists>k. 0 < k \<and> counts_day p (d + ?s * int k)" if "?n \<noteq> 0" for d
    using isWorking_ahead [OF assms dir [OF that], of d] by (auto simp: counts_day_def)
  from walk_total [of ?n p due, OF ahead] obtain j where j:
    "walk_days p \<bar>np_offsetDays p\<bar> due = Some (due + ?s * int j)"
    "length (filter (counts_day p) (days_walked p due j)) = ?n"
    "if ?n = 0 then j = 0 else counts_day p (due + ?s * int j)" by auto
  let ?day = "due + ?s * int j"
  have cal: "?day = due + np_offsetDays p" if "np_dayCount p = Dy_calendar"
  proof -
    have "filter (counts_day p) (days_walked p due j) = days_walked p due j"
      using that by (simp add: counts_day_def)
    then have "j = ?n" using j(2) by (simp add: days_walked_def del: upt_Suc)
    then show ?thesis by (simp add: sgn_mult_abs)
  qed
  obtain k where "isWorking p (?day + int k)"
    using isWorking_ahead [OF assms, of 1 ?day] by auto
  from roll_days_result [OF this] obtain r where r: "roll_days p ?day = Some r" "?day \<le> r" "isWorking p r"
    "\<forall>x. ?day \<le> x \<longrightarrow> x < r \<longrightarrow> \<not> isWorking p x" by blast
  show ?thesis
  proof (cases "np_roll p = Rl_next_working")
    case True
    then have e: "deadline_days due p = Some r" using j(1) r(1) by (simp add: deadline_days_def)
    then have "notice_deadline due p = (if iso_date_ok r then Inr r else Inl Nt_unsupported)"
      by (simp add: notice_deadline_def)
    with e True j(2,3) r cal show ?thesis by (intro exI [of _ j] exI [of _ r]) (simp add: Let_def split: if_splits)
  next
    case False
    then have e: "deadline_days due p = Some ?day" using j(1) by (simp add: deadline_days_def)
    then have "notice_deadline due p = (if iso_date_ok ?day then Inr ?day else Inl Nt_unsupported)"
      by (simp add: notice_deadline_def)
    with e False j(2,3) cal show ?thesis by (intro exI [of _ j] exI [of _ ?day]) (simp add: Let_def split: if_splits)
  qed
qed

section \<open>The history of revisions\<close>

lemma revision_step_Inr_iff: "revision_step h prior r = Inr prior' \<longleftrightarrow>
    ni_tenantId r = nh_tenantId h \<and> ni_jobId r = nh_jobId h \<and> ni_noticeId r = nh_noticeId h \<and>
    ni_revisionId r \<notin> ni_revisionId ` set prior \<and> ni_revision r = int (length prior) + 1 \<and>
    ni_previousRevisionId r = (if prior = [] then None else Some (ni_revisionId (last prior))) \<and>
    (\<exists>v. notice_preview_of r = Inr v) \<and> prior' = prior @ [r]"
  unfolding revision_step_def if_Inl_Inr_iff bind_r_Inr_iff by auto

lemma revisions_distinct:
  "fold_r (revision_step h) prior rs = Inr all \<Longrightarrow> distinct (map ni_revisionId prior) \<Longrightarrow>
   all = prior @ rs \<and> distinct (map ni_revisionId all)"
proof (induction rs arbitrary: prior)
  case (Cons r rs)
  then obtain p where p: "revision_step h prior r = Inr p" "fold_r (revision_step h) p rs = Inr all"
    by (auto simp: bind_r_Inr_iff)
  then have q: "p = prior @ [r]" "distinct (map ni_revisionId p)"
    using Cons.prems(2) by (auto simp: revision_step_Inr_iff)
  from Cons.IH [OF p(2) q(2)] have "all = p @ rs" "distinct (map ni_revisionId all)" by blast+
  moreover from this(1) have "all = prior @ r # rs" by (simp add: q(1))
  ultimately show ?case by blast
qed simp

lemma validateHistory_Inr_iff: "validateHistory h = Inr g \<longleftrightarrow>
    g = h \<and> historyV1 h \<and> fold_r (revision_step h) [] (nh_revisions h) = Inr (nh_revisions h)"
  using revisions_distinct [of h "[]" "nh_revisions h"]
  by (auto simp: validateHistory_def bind_r_Inr_iff if_Inl_Inr_iff)

lemma find_ident: "distinct (map f xs) \<Longrightarrow> find (\<lambda>e. f e = k) xs = Some x \<longleftrightarrow> x \<in> set xs \<and> f x = k"
  by (induction xs) auto

lemma appendNoticeFixtureRevision_iff:
  "appendNoticeFixtureRevision h r = Inr h' \<longleftrightarrow> (\<exists>g. validateHistory h = Inr g) \<and>
     (if r \<in> set (nh_revisions h) then h' = h
      else ni_revisionId r \<notin> ni_revisionId ` set (nh_revisions h) \<and> h' = add_revision h r \<and>
        (\<exists>g. validateHistory h' = Inr g))"
proof (cases "\<exists>g. validateHistory h = Inr g")
  case True
  then have v: "validateHistory h = Inr h" "historyV1 h" and d: "distinct (map ni_revisionId (nh_revisions h))"
    using revisions_distinct [of h "[]" "nh_revisions h" "nh_revisions h"] by (auto simp: validateHistory_Inr_iff)
  have new: "noticeInputV1 r" if "validateHistory (add_revision h r) = Inr g" for g
    using that by (auto simp: validateHistory_Inr_iff historyV1_def add_revision_def)
  have app: "appendNoticeFixtureRevision h r = (if \<not> noticeInputV1 r then Inl Nt_invalid_input
     else case find (\<lambda>e. ni_revisionId e = ni_revisionId r) (nh_revisions h) of
         Some existing \<Rightarrow> if existing \<noteq> r then Inl Nt_replay_conflict else Inr h
       | None \<Rightarrow> validateHistory (add_revision h r))"
    by (simp add: appendNoticeFixtureRevision_def v(1))
  show ?thesis
  proof (cases "find (\<lambda>e. ni_revisionId e = ni_revisionId r) (nh_revisions h)")
    case None
    then have fresh: "ni_revisionId r \<notin> ni_revisionId ` set (nh_revisions h)" by (auto simp: find_None_iff)
    have same: "validateHistory (add_revision h r) = Inr h' \<Longrightarrow> h' = add_revision h r"
      by (simp add: validateHistory_Inr_iff)
    from fresh have "r \<notin> set (nh_revisions h)" by blast
    with None fresh True new same show ?thesis unfolding app if_Inl_Inr_iff by (auto simp: validateHistory_Inr_iff)
  next
    case (Some e)
    then have e: "e \<in> set (nh_revisions h)" "ni_revisionId e = ni_revisionId r" by (simp_all add: find_ident [OF d])
    have "r \<in> set (nh_revisions h) \<longleftrightarrow> e = r" using e d by (auto simp: distinct_map inj_on_def)
    moreover have "noticeInputV1 e" using e(1) v(2) by (simp add: historyV1_def list_all_iff)
    moreover have "ni_revisionId r \<in> ni_revisionId ` set (nh_revisions h)" using e by (metis image_eqI)
    ultimately show ?thesis using Some True e unfolding app by (auto simp: if_Inl_Inr_iff)
  qed
qed (auto simp: appendNoticeFixtureRevision_def bind_r_Inr_iff)

interpretation notice_book: append_book validateHistory nh_revisions add_revision appendNoticeFixtureRevision ni_revisionId
proof unfold_locales
  show "appendNoticeFixtureRevision b r = Inr b' \<longleftrightarrow> (\<exists>s. validateHistory b = Inr s) \<and>
      (if r \<in> set (nh_revisions b) then b' = b
       else ni_revisionId r \<notin> ni_revisionId ` set (nh_revisions b) \<and> b' = add_revision b r \<and>
         (\<exists>s. validateHistory b' = Inr s))" for b r b'
    by (rule appendNoticeFixtureRevision_iff)
  show "nh_revisions (add_revision b r) = nh_revisions b @ [r]" for b r by (simp add: add_revision_def)
  show "validateHistory b = Inr s \<Longrightarrow> distinct (map ni_revisionId (nh_revisions b))" for b s
    using revisions_distinct [of b "[]" "nh_revisions b" "nh_revisions b"] by (simp add: validateHistory_Inr_iff)
qed

section \<open>The book of service events\<close>

definition service_bound :: "(notice_preview \<Rightarrow> string) \<Rightarrow> notice_history \<Rightarrow> notice_decision \<Rightarrow> service_event \<Rightarrow> bool" where
  "service_bound render h d e \<longleftrightarrow> se_tenantId e = nh_tenantId h \<and> se_jobId e = nh_jobId h \<and>
     Some (se_noticeRevisionId e) = current_revision h \<and> se_decisionId e = nd_id d \<and> nd_resolution d = Nr_approved \<and>
     noticeFixtureApprovalTarget render h = Inr (nd_approvedPreview d) \<and>
     date_parse (nd_decidedAt d) \<le> date_parse (se_recordedAt e) \<and>
     date_parse (se_recordedAt e) < date_parse (nd_expiresAt d)"

lemma approvedDecision_Inr_iff: "approvedDecision render h d now = Inr d' \<longleftrightarrow> d' = d \<and> noticeFixtureDecisionV1 d \<and>
    nd_tenantId d = nh_tenantId h \<and> nd_jobId d = nh_jobId h \<and> nd_resolution d = Nr_approved \<and>
    noticeFixtureApprovalTarget render h = Inr (nd_approvedPreview d) \<and>
    date_parse (nd_decidedAt d) \<le> date_parse now \<and> date_parse now < date_parse (nd_expiresAt d)"
  unfolding approvedDecision_def if_Inl_Inr_iff bind_r_Inr_iff by (auto simp: not_le not_less)

lemma validateServiceEvent_InrD:
  assumes "validateServiceEvent render h d prior e = Inr prior'"
  shows "prior' = prior @ [e] \<and> service_bound render h d e \<and> se_id e \<notin> se_id ` set prior \<and> service_facts_ok prior e"
  using assms unfolding validateServiceEvent_def if_Inl_Inr_iff bind_r_Inr_iff approvedDecision_Inr_iff service_bound_def
  by auto

definition service_history :: "(notice_preview \<Rightarrow> string) \<Rightarrow> notice_history \<Rightarrow> notice_decision \<Rightarrow> service_event list \<Rightarrow> bool" where
  "service_history render h d es \<longleftrightarrow> (\<forall>pre e post. es = pre @ e # post \<longrightarrow>
     service_bound render h d e \<and> se_id e \<notin> se_id ` set pre \<and> service_facts_ok pre e)"

lemma service_history_snoc: "service_history render h d (es @ [x]) \<longleftrightarrow> service_history render h d es \<and>
    service_bound render h d x \<and> se_id x \<notin> se_id ` set es \<and> service_facts_ok es x"
proof
  assume L: "service_history render h d (es @ [x])"
  note l = L [unfolded service_history_def, rule_format]
  have "service_history render h d es"
    unfolding service_history_def
  proof (intro allI impI)
    fix pre e post
    assume "es = pre @ e # post"
    then have "es @ [x] = pre @ e # (post @ [x])" by simp
    from l [OF this] show "service_bound render h d e \<and> se_id e \<notin> se_id ` set pre \<and> service_facts_ok pre e" .
  qed
  moreover have "service_bound render h d x \<and> se_id x \<notin> se_id ` set es \<and> service_facts_ok es x" by (rule l) simp
  ultimately show "service_history render h d es \<and> service_bound render h d x \<and> se_id x \<notin> se_id ` set es \<and> service_facts_ok es x"
    by simp
next
  assume R: "service_history render h d es \<and> service_bound render h d x \<and> se_id x \<notin> se_id ` set es \<and> service_facts_ok es x"
  show "service_history render h d (es @ [x])"
    unfolding service_history_def
  proof (intro allI impI)
    fix pre e post
    assume dec: "es @ [x] = pre @ e # post"
    show "service_bound render h d e \<and> se_id e \<notin> se_id ` set pre \<and> service_facts_ok pre e"
    proof (cases post rule: rev_cases)
      case Nil
      with dec R show ?thesis by simp
    next
      case (snoc post' y)
      with dec have "es = pre @ e # post'" by simp
      with R show ?thesis unfolding service_history_def by blast
    qed
  qed
qed

lemma service_fold:
  "fold_r (validateServiceEvent render h d) prior es = Inr all \<Longrightarrow> service_history render h d prior \<Longrightarrow>
   all = prior @ es \<and> service_history render h d all"
proof (induction es arbitrary: prior)
  case (Cons e es)
  then obtain p where p: "validateServiceEvent render h d prior e = Inr p" "fold_r (validateServiceEvent render h d) p es = Inr all"
    by (auto simp: bind_r_Inr_iff)
  from validateServiceEvent_InrD [OF p(1)] Cons.prems(2) have q: "p = prior @ [e]" "service_history render h d p"
    by (auto simp: service_history_snoc)
  from Cons.IH [OF p(2) q(2)] have "all = p @ es" "service_history render h d all" by blast+
  moreover from this(1) have "all = prior @ e # es" by (simp add: q(1))
  ultimately show ?case by blast
qed simp

lemma service_history_distinct:
  "service_history render h d es \<Longrightarrow> distinct (map se_id es) \<and> distinct (map se_state es)"
proof (induction es rule: rev_induct)
  case (snoc x es)
  then have "distinct (map se_id es) \<and> distinct (map se_state es)" "se_id x \<notin> se_id ` set es" "se_state x \<notin> se_state ` set es"
    by (auto simp: service_history_snoc service_facts_ok_def)
  then show ?case by simp
qed simp

lemma service_states_bound: "distinct (map se_state es) \<Longrightarrow> length es \<le> 5"
proof -
  assume d: "distinct (map se_state es)"
  let ?all = "{Se_queued, Se_provider_accepted, Se_outcome_unknown, Se_read, Se_legally_served}"
  have "s \<in> ?all" for s by (cases s) auto
  then have "card (set (map se_state es)) \<le> card ?all" by (intro card_mono) auto
  then show ?thesis using distinct_card [OF d] by simp
qed

lemma appendNoticeFixtureServiceEvent_InrD:
  assumes "appendNoticeFixtureServiceEvent render h d b e = Inr b'"
  shows "validateHistory h = Inr h" "sb_decision b' = Some d" "service_history render h d (sb_events b')" "e \<in> set (sb_events b')"
    "\<exists>more. sb_events b' = sb_events b @ more" "approvedDecision render h d (se_recordedAt e) = Inr d"
    "b' = b \<or> (b' = b\<lparr>sb_decision := Some d, sb_events := sb_events b @ [e]\<rparr> \<and> se_id e \<notin> se_id ` set (sb_events b))"
    "serviceBookV1 b" "noticeServiceEventV1 e"
proof -
  note d = assms [unfolded appendNoticeFixtureServiceEvent_def bind_r_Inr_iff if_Inl_Inr_iff validateHistory_Inr_iff
      approvedDecision_Inr_iff]
  from d obtain v where v: "fold_r (validateServiceEvent render h d) [] (sb_events b) = Inr v"
    and r: "(case find (\<lambda>x. se_id x = se_id e) v of
         Some existing \<Rightarrow> if existing \<noteq> e then Inl Nt_replay_conflict else Inr b
       | None \<Rightarrow> bind_r (validateServiceEvent render h d v e) (\<lambda>events.
           Inr (b\<lparr>sb_decision := Some d, sb_events := events\<rparr>))) = Inr b'"
    and dec: "sb_events b \<noteq> [] \<longrightarrow> sb_decision b = Some d" by blast
  from d show "validateHistory h = Inr h" "approvedDecision render h d (se_recordedAt e) = Inr d" "serviceBookV1 b" "noticeServiceEventV1 e"
    unfolding validateHistory_Inr_iff approvedDecision_Inr_iff by blast+
  have v': "v = sb_events b" "service_history render h d v" using service_fold [OF v] by (simp_all add: service_history_def)
  consider (old) "find (\<lambda>x. se_id x = se_id e) v = Some e" "b' = b"
    | (new) es where "find (\<lambda>x. se_id x = se_id e) v = None" "validateServiceEvent render h d v e = Inr es"
        "b' = b\<lparr>sb_decision := Some d, sb_events := es\<rparr>"
    using r by (cases "find (\<lambda>x. se_id x = se_id e) v") (auto simp: bind_r_Inr_iff split: if_splits)
  then have "sb_decision b' = Some d \<and> service_history render h d (sb_events b') \<and> e \<in> set (sb_events b') \<and>
    (b' = b \<or> (b' = b\<lparr>sb_decision := Some d, sb_events := sb_events b @ [e]\<rparr> \<and> se_id e \<notin> se_id ` set (sb_events b)))"
  proof cases
    case old
    then have "e \<in> set v" by (auto simp: find_Some_iff)
    with old v' dec show ?thesis by auto
  next
    case new
    from validateServiceEvent_InrD [OF new(2)] v' new(3) show ?thesis by (auto simp: service_history_snoc)
  qed
  then show "sb_decision b' = Some d" "service_history render h d (sb_events b')" "e \<in> set (sb_events b')"
    "b' = b \<or> (b' = b\<lparr>sb_decision := Some d, sb_events := sb_events b @ [e]\<rparr> \<and> se_id e \<notin> se_id ` set (sb_events b))" by blast+
  then show "\<exists>more. sb_events b' = sb_events b @ more" by auto
qed

lemma validate_again:
  assumes "service_history render h d es" and d: "noticeFixtureDecisionV1 d" "nd_tenantId d = nh_tenantId h" "nd_jobId d = nh_jobId h"
  shows "fold_r (validateServiceEvent render h d) [] es = Inr es"
  using assms(1)
proof (induction es rule: rev_induct)
  case (snoc x es)
  then have x: "service_bound render h d x" "se_id x \<notin> se_id ` set es" "service_facts_ok es x"
    and es: "fold_r (validateServiceEvent render h d) [] es = Inr es" by (simp_all add: service_history_snoc)
  have "approvedDecision render h d (se_recordedAt x) = Inr d"
    using x(1) d by (simp add: approvedDecision_Inr_iff service_bound_def)
  then have "validateServiceEvent render h d es x = Inr (es @ [x])"
    using x by (simp add: validateServiceEvent_def service_bound_def)
  with es show ?case by (simp add: fold_r_append)
qed simp

lemma service_event_retry:
  assumes "appendNoticeFixtureServiceEvent render h d b e = Inr b'"
  shows "appendNoticeFixtureServiceEvent render h d b' e = Inr b'"
proof -
  note D = appendNoticeFixtureServiceEvent_InrD [OF assms]
  have d: "noticeFixtureDecisionV1 d" "nd_tenantId d = nh_tenantId h" "nd_jobId d = nh_jobId h"
    using D(6) by (simp_all add: approvedDecision_Inr_iff)
  have ids: "distinct (map se_id (sb_events b'))" "length (sb_events b') \<le> 5"
    using service_history_distinct [OF D(3)] service_states_bound by blast+
  have "list_all noticeServiceEventV1 (sb_events b')" using D(7-9) by (auto simp: serviceBookV1_def)
  then have ok: "serviceBookV1 b'" using D(2) d(1) ids(2) by (simp add: serviceBookV1_def)
  have found: "find (\<lambda>x. se_id x = se_id e) (sb_events b') = Some e" using D(4) by (simp add: find_ident [OF ids(1)])
  have "sb_events b' \<noteq> []" using D(4) by auto
  with D(1,2,6,9) ok found validate_again [OF D(3) d] show ?thesis
    by (simp add: appendNoticeFixtureServiceEvent_def)
qed

text \<open>
  A service book holds only what was approved and evidenced. Every accepted book keeps the
  earlier events and the new one, at most five in all; each event binds the tenant, job and current
  revision of a valid history and a decision, approved for exactly the preview of that revision and
  valid at the event's time; the first event and only it is the queueing, times never go back, no fact
  is recorded twice, later facts carry evidence, provider facts a provider reference, and legal service
  an assessment. Recording the same event again changes nothing, and the history of revisions itself
  refuses a reused revision identity.
\<close>

lemma notice_service_book_sound:
  assumes "appendNoticeFixtureServiceEvent render h d b e = Inr b'"
  shows "(e \<in> set (sb_events b') \<and> (\<exists>more. sb_events b' = sb_events b @ more) \<and> length (sb_events b') \<le> 5) \<and>
    (sb_events b' = pre @ x # post \<longrightarrow>
      se_tenantId x = nh_tenantId h \<and> se_jobId x = nh_jobId h \<and> Some (se_noticeRevisionId x) = current_revision h \<and>
      se_decisionId x = nd_id d \<and> nd_resolution d = Nr_approved \<and>
      noticeFixtureApprovalTarget render h = Inr (nd_approvedPreview d) \<and>
      date_parse (nd_decidedAt d) \<le> date_parse (se_recordedAt x) \<and> date_parse (se_recordedAt x) < date_parse (nd_expiresAt d) \<and>
      (se_state x = Se_queued \<longleftrightarrow> pre = []) \<and>
      (pre \<noteq> [] \<longrightarrow> date_parse (se_recordedAt (last pre)) \<le> date_parse (se_recordedAt x)) \<and>
      se_state x \<notin> se_state ` set pre \<and> (pre \<noteq> [] \<longrightarrow> se_evidenceId x \<noteq> None) \<and>
      (se_state x = Se_provider_accepted \<or> se_state x = Se_read \<longrightarrow> se_providerReference x \<noteq> None) \<and>
      (se_state x = Se_legally_served \<longrightarrow> se_legalAssessmentReference x \<noteq> None)) \<and>
    appendNoticeFixtureServiceEvent render h d b' e = Inr b' \<and>
    (appendNoticeFixtureRevision g r = Inr h' \<and>
      ni_revisionId q = ni_revisionId r \<and>
      q \<noteq> r \<longrightarrow>
      \<not> (\<exists>h''. appendNoticeFixtureRevision h' q = Inr h''))"
proof -
  note D = appendNoticeFixtureServiceEvent_InrD [OF assms]
  have a: "e \<in> set (sb_events b') \<and> (\<exists>more. sb_events b' = sb_events b @ more) \<and> length (sb_events b') \<le> 5"
    using D(4,5) service_states_bound service_history_distinct [OF D(3)] by blast
  have b: "se_tenantId x = nh_tenantId h \<and> se_jobId x = nh_jobId h \<and> Some (se_noticeRevisionId x) = current_revision h \<and>
      se_decisionId x = nd_id d \<and> nd_resolution d = Nr_approved \<and>
      noticeFixtureApprovalTarget render h = Inr (nd_approvedPreview d) \<and>
      date_parse (nd_decidedAt d) \<le> date_parse (se_recordedAt x) \<and> date_parse (se_recordedAt x) < date_parse (nd_expiresAt d) \<and>
      (se_state x = Se_queued \<longleftrightarrow> pre = []) \<and>
      (pre \<noteq> [] \<longrightarrow> date_parse (se_recordedAt (last pre)) \<le> date_parse (se_recordedAt x)) \<and>
      se_state x \<notin> se_state ` set pre \<and> (pre \<noteq> [] \<longrightarrow> se_evidenceId x \<noteq> None) \<and>
      (se_state x = Se_provider_accepted \<or> se_state x = Se_read \<longrightarrow> se_providerReference x \<noteq> None) \<and>
      (se_state x = Se_legally_served \<longrightarrow> se_legalAssessmentReference x \<noteq> None)"
    if "sb_events b' = pre @ x # post"
  proof -
    have "service_bound render h d x" "service_facts_ok pre x" using D(3) that unfolding service_history_def by blast+
    then show ?thesis by (auto simp: service_bound_def service_facts_ok_def split: if_splits)
  qed
  have c: "appendNoticeFixtureServiceEvent render h d b' e = Inr b'" by (rule service_event_retry [OF assms])
  have d: "\<not> (\<exists>h''. appendNoticeFixtureRevision h' q = Inr h'')"
    if "appendNoticeFixtureRevision g r = Inr h'" "ni_revisionId q = ni_revisionId r" "q \<noteq> r"
    by (rule notice_book.identity_reuse_refused [OF that])
  show ?thesis using a b c d by blast
qed

section \<open>A concrete notice\<close>

definition cn_input :: notice_input where
  "cn_input = \<lparr>ni_tenantId = ''t'', ni_jobId = ''j'', ni_noticeId = ''n'', ni_revision = 1, ni_previousRevisionId = None,
     ni_revisionId = ''r1'', ni_profileId = ''fixture-working'', ni_profileVersion = 1, ni_recipientReference = ''x'',
     ni_serviceMethod = Sm_fixture_email, ni_dueDate = Some 20756, ni_contractReference = Some ''c'',
     ni_triggerEvidenceId = Some ''e''\<rparr>"

definition cn_empty :: notice_history where
  "cn_empty = \<lparr>nh_tenantId = ''t'', nh_jobId = ''j'', nh_noticeId = ''n'', nh_revisions = []\<rparr>"

definition cn_history :: notice_history where
  "cn_history = cn_empty\<lparr>nh_revisions := [cn_input]\<rparr>"

definition cn_profile :: notice_profile where
  "cn_profile = CONSTRUCTION_NOTICE_FIXTURE_PROFILES ! 1"

definition cn_render :: "notice_preview \<Rightarrow> string" where
  "cn_render p = ni_revisionId (nv_input p)"

definition cn_decision :: notice_decision where
  "cn_decision = \<lparr>nd_tenantId = ''t'', nd_jobId = ''j'', nd_id = ''d'', nd_actorId = ''a'', nd_resolution = Nr_approved,
     nd_approvedPreview = ''r1'', nd_decidedAt = ''2026-10-01T10:00Z'', nd_expiresAt = ''2026-10-02T10:00:00.5Z''\<rparr>"

definition cn_event :: service_event where
  "cn_event = \<lparr>se_tenantId = ''t'', se_jobId = ''j'', se_id = ''s1'', se_noticeRevisionId = ''r1'', se_decisionId = ''d'',
     se_recordedAt = ''2026-10-01T11:00Z'', se_state = Se_queued, se_providerReference = None, se_evidenceId = None,
     se_legalAssessmentReference = None\<rparr>"

definition cn_book :: service_book where
  "cn_book = \<lparr>sb_decision = Some cn_decision, sb_events = [cn_event]\<rparr>"

lemma cn_append: "appendNoticeFixtureServiceEvent cn_render cn_history cn_decision \<lparr>sb_decision = None, sb_events = []\<rparr> cn_event = Inr cn_book"
  by code_simp

lemma cn_first: "appendNoticeFixtureRevision cn_empty cn_input = Inr cn_history"
  by code_simp

theorem notice_deadline_terminates_witness:
  "noticeRuleProfileV1 cn_profile \<and> (\<exists>e. deadline_days 20756 cn_profile = Some e) \<and> notice_deadline 20756 cn_profile = Inr 20761"
proof (intro conjI)
  show p: "noticeRuleProfileV1 cn_profile" by code_simp
  show "\<exists>e. deadline_days 20756 cn_profile = Some e" using notice_deadline_terminates [OF p, of 20756] by blast
  show "notice_deadline 20756 cn_profile = Inr 20761" by code_simp
qed

lemma notice_service_book_sound_witness:
  "length (sb_events cn_book) \<le> 5 \<and> Some (se_noticeRevisionId cn_event) = current_revision cn_history \<and>
   \<not> (\<exists>h''. appendNoticeFixtureRevision cn_history (cn_input\<lparr>ni_recipientReference := ''y''\<rparr>) = Inr h'')"
proof (intro conjI)
  show "length (sb_events cn_book) \<le> 5" using notice_service_book_sound [OF cn_append] by blast
  have "sb_events cn_book = [] @ cn_event # []" by (simp add: cn_book_def)
  from notice_service_book_sound [OF cn_append, THEN conjunct2, THEN conjunct1, THEN mp, OF this]
  show "Some (se_noticeRevisionId cn_event) = current_revision cn_history" by blast
  show "\<not> (\<exists>h''. appendNoticeFixtureRevision cn_history (cn_input\<lparr>ni_recipientReference := ''y''\<rparr>) = Inr h'')"
    by (rule notice_service_book_sound [OF cn_append, THEN conjunct2, THEN conjunct2, THEN conjunct2, THEN mp, OF conjI [OF cn_first]]) (simp_all add: cn_input_def)
qed

end
