(* ===== verification/Enterprise_Contracts.thy ===== *)
theory Enterprise_Contracts
  imports Receipt_Allocation Schemas
begin

text \<open>
  The facts of the enterprise domain, \<^verbatim>\<open>packages/core/src/enterprise-domain/contracts.ts\<close>
  and \<^verbatim>\<open>extra-origin.ts\<close>: roles, states and commands, the records the server supplies
  (actors, grants, revisions with their approvals, billing facts, extras, duplicate groups), the
  schemas that admit them, the provenance checks, \<open>covers\<close> and the server clock comparison. A
  schema is a predicate over the typed record; the format of a uuid is the schema library's. Role
  names are one type: the schema enumerations are lists of it (\<open>contract_rule\<close> is an approval role
  that no grant carries).
\<close>

section \<open>Enumerations\<close>

datatype enterprise_role =
    R_operative | R_supervisor | R_surveyor | R_commercial_manager | R_finance | R_admin | R_owner
  | R_read_only | R_client_approver | R_connector | R_contract_rule

definition enterpriseRoles :: "enterprise_role list" where
  "enterpriseRoles = [R_operative, R_supervisor, R_surveyor, R_commercial_manager, R_finance, R_admin,
     R_owner, R_read_only, R_client_approver, R_connector]"

fun role_name :: "enterprise_role \<Rightarrow> string" where
  "role_name R_operative = ''operative''"
| "role_name R_supervisor = ''supervisor''"
| "role_name R_surveyor = ''surveyor''"
| "role_name R_commercial_manager = ''commercial_manager''"
| "role_name R_finance = ''finance''"
| "role_name R_admin = ''admin''"
| "role_name R_owner = ''owner''"
| "role_name R_read_only = ''read_only''"
| "role_name R_client_approver = ''client_approver''"
| "role_name R_connector = ''connector''"
| "role_name R_contract_rule = ''contract_rule''"

datatype enterprise_state =
    S_logged | S_awaiting_approval | S_approved | S_rejected | S_withdrawn | S_duplicate
  | S_exported | S_billed | S_part_paid | S_paid | S_credited | S_billing_rejected

datatype enterprise_command =
    LogSiteExtra | ConfirmPrompt | RecordOfficeExtra | RecordClientInstruction | ImportOrderLine
  | SubmitExtra | PriceExtra | ApproveExtraStep | RejectExtra | WithdrawExtra | MarkDuplicate
  | ReviseExtra | FinaliseExportBatch | ImportBillingStatus
  | LogBuilderExtra | AddFinalReviewExtra | ConfirmJobGuardCatch

definition enterpriseCommands :: "enterprise_command list" where
  "enterpriseCommands = [LogSiteExtra, ConfirmPrompt, RecordOfficeExtra, RecordClientInstruction,
     ImportOrderLine, SubmitExtra, PriceExtra, ApproveExtraStep, RejectExtra, WithdrawExtra,
     MarkDuplicate, ReviseExtra, FinaliseExportBatch, ImportBillingStatus]"

definition raisingCommands :: "enterprise_command list" where
  "raisingCommands = [LogSiteExtra, ConfirmPrompt, RecordOfficeExtra, RecordClientInstruction,
     ImportOrderLine, LogBuilderExtra, AddFinalReviewExtra, ConfirmJobGuardCatch]"

datatype enterprise_mode = Synthetic_demo | Pilot_no_charge | Production_billing

datatype enterprise_error =
    INVALID_ENTERPRISE_FACTS | INVALID_PROMPT_PROPOSAL | INVALID_TRANSITION | PERMISSION_DENIED
  | SELF_APPROVAL | REUSED_APPROVER | STALE_REVISION | INVALID_ORIGIN | INVALID_DUPLICATE_GROUP
  | INVALID_ALLOCATION_FACTS | AGREEMENT_VERSION_MISMATCH | UNSUPPORTED_FORMULA | INVALID_STATEMENT
  | MONEY_LIMIT | COMPENSATION_LINK_NEEDED | Js_type_error

section \<open>Origins of extras\<close>

datatype job_track = Track_small_builder | Track_contractor

datatype origin_kind =
    K_builder_logged | K_final_review | K_jobguard_catch
  | K_site_user | K_jobguard_surfaced_confirmed | K_office_entry | K_client_instruction

definition smallBuilderOriginV1 :: "origin_kind list" where
  "smallBuilderOriginV1 = [K_builder_logged, K_final_review, K_jobguard_catch]"

definition contractorOriginV1 :: "origin_kind list" where
  "contractorOriginV1 = [K_site_user, K_jobguard_surfaced_confirmed, K_office_entry, K_client_instruction]"

record variation_origin =
  vo_jobTrack :: job_track
  vo_kind :: origin_kind

definition variationOriginV1 :: "variation_origin \<Rightarrow> bool" where
  "variationOriginV1 v \<longleftrightarrow> (case vo_jobTrack v of
     Track_small_builder \<Rightarrow> vo_kind v \<in> set smallBuilderOriginV1
   | Track_contractor \<Rightarrow> vo_kind v \<in> set contractorOriginV1)"

record extra_origin =
  eo_tenantId :: string
  eo_jobId :: string
  eo_variationId :: string
  eo_origin :: variation_origin
  eo_commandId :: string
  eo_raisingMembershipId :: string
  eo_raisingRole :: string
  eo_serverRecordedAt :: string
  eo_deviceId :: "string option"
  eo_deviceCapturedAt :: "string option"
  eo_evidenceHash :: "string option"

definition opt_ok :: "('a \<Rightarrow> bool) \<Rightarrow> 'a option \<Rightarrow> bool" where
  "opt_ok P m = (case m of None \<Rightarrow> True | Some v \<Rightarrow> P v)"

definition extraOriginV1 :: "extra_origin \<Rightarrow> bool" where
  "extraOriginV1 p \<longleftrightarrow> variationOriginV1 (eo_origin p) \<and> text_within 40 (eo_raisingRole p) \<and>
     instantV1 (eo_serverRecordedAt p) \<and> opt_ok (text_within 200) (eo_deviceId p) \<and>
     opt_ok instantV1 (eo_deviceCapturedAt p) \<and> opt_ok sha_text (eo_evidenceHash p)"

section \<open>People and approvals\<close>

record enterprise_grant =
  eg_id :: string
  eg_tenantId :: string
  eg_jobId :: string
  eg_membershipId :: string
  eg_role :: enterprise_role

definition roleV1 :: "enterprise_role \<Rightarrow> bool" where
  "roleV1 r \<longleftrightarrow> r \<in> set enterpriseRoles"

definition enterpriseGrantV1 :: "enterprise_grant \<Rightarrow> bool" where
  "enterpriseGrantV1 g \<longleftrightarrow> roleV1 (eg_role g)"

record enterprise_actor =
  ac_membershipId :: string
  ac_tenantId :: string
  ac_assigned :: bool
  ac_grants :: "enterprise_grant list"

definition enterpriseActorV1 :: "enterprise_actor \<Rightarrow> bool" where
  "enterpriseActorV1 a \<longleftrightarrow> length (ac_grants a) \<le> 100 \<and> list_all enterpriseGrantV1 (ac_grants a)"

definition approvalRole :: "enterprise_role list" where
  "approvalRole = [R_supervisor, R_surveyor, R_commercial_manager, R_client_approver, R_contract_rule]"

record approval_step =
  st_role :: enterprise_role
  st_alternates :: "enterprise_role list"

record enterprise_requirement =
  rq_ruleVersion :: string
  rq_steps :: "approval_step list"
  rq_photoRequired :: bool
  rq_residentRequired :: bool

definition enterpriseRequirementV1 :: "enterprise_requirement \<Rightarrow> bool" where
  "enterpriseRequirementV1 r \<longleftrightarrow> text_within 300 (rq_ruleVersion r) \<and>
     1 \<le> length (rq_steps r) \<and> length (rq_steps r) \<le> 20 \<and>
     list_all (\<lambda>s. st_role s \<in> set approvalRole \<and> length (st_alternates s) \<le> 4 \<and>
       list_all (\<lambda>a. a \<in> set [R_supervisor, R_surveyor, R_commercial_manager, R_client_approver]) (st_alternates s)) (rq_steps r)"

datatype approval_timing = Before_work | After_work

record enterprise_approval =
  ap_index :: nat
  ap_revisionId :: string
  ap_hash :: string
  ap_netPence :: int
  ap_ruleVersion :: string
  ap_actorId :: string
  ap_grant :: "enterprise_grant option"
  ap_role :: enterprise_role
  ap_timing :: approval_timing
  ap_serverRecordedAt :: string

definition enterpriseApprovalV1 :: "enterprise_approval \<Rightarrow> bool" where
  "enterpriseApprovalV1 a \<longleftrightarrow> ap_index a \<le> 19 \<and> sha_text (ap_hash a) \<and> amount_ok (ap_netPence a) \<and>
     text_within 300 (ap_ruleVersion a) \<and> opt_ok enterpriseGrantV1 (ap_grant a) \<and>
     ap_role a \<in> set approvalRole \<and> instantV1 (ap_serverRecordedAt a)"

datatype price_source = Server_sor | Surveyor_quoted | Unpriced

record enterprise_revision =
  rv_id :: string
  rv_hash :: string
  rv_serverRecordedAt :: string
  rv_netPence :: "int option"
  rv_priceConfirmed :: bool
  rv_priceSource :: price_source
  rv_requirement :: "enterprise_requirement option"
  rv_approvals :: "enterprise_approval list"

definition enterpriseRevisionV1 :: "enterprise_revision \<Rightarrow> bool" where
  "enterpriseRevisionV1 r \<longleftrightarrow> sha_text (rv_hash r) \<and> instantV1 (rv_serverRecordedAt r) \<and>
     opt_ok amount_ok (rv_netPence r) \<and> opt_ok enterpriseRequirementV1 (rv_requirement r) \<and>
     length (rv_approvals r) \<le> 20 \<and> list_all enterpriseApprovalV1 (rv_approvals r)"

section \<open>Extras\<close>

datatype billing_kind = Bk_invoiced | Bk_credited | Bk_settled | Bk_reversed

datatype fact_status = Finalized | Pending

record billing_fact =
  bf_tenantId :: string
  bf_jobId :: string
  bf_scopeItemId :: string
  bf_revisionId :: string
  bf_revisionHash :: string
  bf_exportLineId :: string
  bf_invoiceId :: string
  bf_invoiceLineId :: string
  bf_sourceRef :: string
  bf_kind :: billing_kind
  bf_net :: exact_text
  bf_recordedAt :: string
  bf_effectiveAt :: string
  bf_allocationRule :: "allocation_rule option"
  bf_originalSourceRef :: "string option"
  bf_status :: fact_status

definition billingFactV1 :: "billing_fact \<Rightarrow> bool" where
  "billingFactV1 f \<longleftrightarrow> sha_text (bf_revisionHash f) \<and> text_within 300 (bf_invoiceId f) \<and>
     text_within 300 (bf_invoiceLineId f) \<and> text_within 300 (bf_sourceRef f) \<and> exactPenceV1 (bf_net f) \<and>
     instantV1 (bf_recordedAt f) \<and> instantV1 (bf_effectiveAt f) \<and>
     opt_ok (text_within 300) (bf_originalSourceRef f)"

record raising_command =
  rc_id :: string
  rc_type :: enterprise_command
  rc_actorId :: string
  rc_role :: enterprise_role
  rc_grant :: enterprise_grant
  rc_assigned :: bool

definition raisingCommandV1 :: "raising_command \<Rightarrow> bool" where
  "raisingCommandV1 c \<longleftrightarrow> rc_type c \<in> set raisingCommands \<and> roleV1 (rc_role c) \<and> enterpriseGrantV1 (rc_grant c)"

datatype order_coverage = Coverage_new | Coverage_excess | Coverage_fully_instructed

record order_at_origin =
  oo_revisionId :: string
  oo_hash :: string
  oo_coverage :: order_coverage

datatype photo_status = Photo_none | Photo_verified | Photo_pending | Photo_rejected

record extra_photo =
  ph_status :: photo_status
  ph_evidenceId :: "string option"
  ph_hash :: "string option"
  ph_tenantId :: "string option"
  ph_jobId :: "string option"
  ph_scopeItemId :: "string option"
  ph_objectVersionId :: "string option"

record extra_prompt =
  pr_id :: string
  pr_surfacedAt :: string
  pr_confirmedBy :: enterprise_actor

record billing_balances =
  bb_billedNetPence :: int
  bb_settledNetPence :: int

record enterprise_extra =
  ex_id :: string
  ex_tenantId :: string
  ex_jobId :: string
  ex_scopeItemId :: string
  ex_state :: enterprise_state
  ex_duplicateOf :: "string option"
  ex_billingBalances :: "billing_balances option"
  ex_workDone :: bool
  ex_exportedAt :: "string option"
  ex_revision :: enterprise_revision
  ex_origin :: extra_origin
  ex_raisingCommand :: raising_command
  ex_orderAtOrigin :: order_at_origin
  ex_captureNote :: "string option"
  ex_photo :: extra_photo
  ex_residentCaptured :: bool
  ex_residentConfirmationHash :: "string option"
  ex_prompt :: "extra_prompt option"
  ex_exportLineId :: "string option"
  ex_billingFacts :: "billing_fact list"

definition enterpriseExtraV1 :: "enterprise_extra \<Rightarrow> bool" where
  "enterpriseExtraV1 e \<longleftrightarrow>
     opt_ok (\<lambda>b. amount_ok (bb_billedNetPence b) \<and> amount_ok (bb_settledNetPence b)) (ex_billingBalances e) \<and>
     opt_ok instantV1 (ex_exportedAt e) \<and> enterpriseRevisionV1 (ex_revision e) \<and>
     extraOriginV1 (ex_origin e) \<and> raisingCommandV1 (ex_raisingCommand e) \<and>
     sha_text (oo_hash (ex_orderAtOrigin e)) \<and> opt_ok (text_within 4000) (ex_captureNote e) \<and>
     opt_ok sha_text (ph_hash (ex_photo e)) \<and> opt_ok (text_within 300) (ph_objectVersionId (ex_photo e)) \<and>
     opt_ok sha_text (ex_residentConfirmationHash e) \<and>
     opt_ok (\<lambda>p. instantV1 (pr_surfacedAt p) \<and> enterpriseActorV1 (pr_confirmedBy p)) (ex_prompt e) \<and>
     length (ex_billingFacts e) \<le> MAX_ALLOCATION_LINES \<and> list_all billingFactV1 (ex_billingFacts e)"

section \<open>Provenance\<close>

fun originCommands :: "enterprise_command \<Rightarrow> origin_kind option" where
  "originCommands LogSiteExtra = Some K_site_user"
| "originCommands ConfirmPrompt = Some K_jobguard_surfaced_confirmed"
| "originCommands RecordOfficeExtra = Some K_office_entry"
| "originCommands RecordClientInstruction = Some K_client_instruction"
| "originCommands ImportOrderLine = Some K_client_instruction"
| "originCommands LogBuilderExtra = Some K_builder_logged"
| "originCommands AddFinalReviewExtra = Some K_final_review"
| "originCommands ConfirmJobGuardCatch = Some K_jobguard_catch"
| "originCommands _ = None"

definition originForCommand :: "enterprise_command \<Rightarrow> job_track \<Rightarrow> enterprise_error + variation_origin" where
  "originForCommand command jobTrack =
     (let allowed = (if jobTrack = Track_contractor then contractorOriginV1 else smallBuilderOriginV1)
      in case originCommands command of
           None \<Rightarrow> Inl INVALID_ORIGIN
         | Some kind \<Rightarrow> (if kind \<notin> set allowed then Inl INVALID_ORIGIN
             else let v = \<lparr>vo_jobTrack = jobTrack, vo_kind = kind\<rparr>
                  in if variationOriginV1 v then Inr v else Inl INVALID_ORIGIN))"

definition photo_elsewhere :: "enterprise_extra \<Rightarrow> bool" where
  "photo_elsewhere e \<longleftrightarrow>
     (ph_tenantId (ex_photo e) \<noteq> None \<and> ph_tenantId (ex_photo e) \<noteq> Some (ex_tenantId e)) \<or>
     (ph_jobId (ex_photo e) \<noteq> None \<and> ph_jobId (ex_photo e) \<noteq> Some (ex_jobId e)) \<or>
     (ph_scopeItemId (ex_photo e) \<noteq> None \<and> ph_scopeItemId (ex_photo e) \<noteq> Some (ex_scopeItemId e))"

definition assertExtraProvenance :: "enterprise_extra \<Rightarrow> enterprise_error + unit" where
  "assertExtraProvenance e =
     (let p = ex_origin e; c = ex_raisingCommand e in
      if eo_tenantId p \<noteq> ex_tenantId e \<or> eo_jobId p \<noteq> ex_jobId e \<or> eo_variationId p \<noteq> ex_id e \<or>
         rc_id c \<noteq> eo_commandId p \<or> rc_actorId c \<noteq> eo_raisingMembershipId p \<or>
         role_name (rc_role c) \<noteq> eo_raisingRole p \<or> eg_membershipId (rc_grant c) \<noteq> rc_actorId c \<or>
         eg_role (rc_grant c) \<noteq> rc_role c \<or> eg_tenantId (rc_grant c) \<noteq> ex_tenantId e \<or>
         eg_jobId (rc_grant c) \<noteq> ex_jobId e then Inl INVALID_ORIGIN
      else bind_r (originForCommand (rc_type c) (vo_jobTrack (eo_origin p))) (\<lambda>v.
        if vo_kind v \<noteq> vo_kind (eo_origin p) then Inl INVALID_ORIGIN
        else if photo_elsewhere e then Inl INVALID_ENTERPRISE_FACTS
        else Inr ()))"

section \<open>Duplicate groups\<close>

record enterprise_group =
  gr_tenantId :: string
  gr_jobId :: string
  gr_jobTrack :: job_track
  gr_mode :: enterprise_mode
  gr_feeGate :: bool
  gr_canonicalId :: string
  gr_members :: "enterprise_extra list"
  gr_unresolvedCandidateIds :: "string list"
  gr_agreementVersionId :: string

definition groupShapeV1 :: "enterprise_group \<Rightarrow> bool" where
  "groupShapeV1 g \<longleftrightarrow> 1 \<le> length (gr_members g) \<and> length (gr_members g) \<le> MAX_ALLOCATION_LINES \<and>
     list_all enterpriseExtraV1 (gr_members g) \<and>
     length (gr_unresolvedCandidateIds g) \<le> MAX_ALLOCATION_LINES \<and> text_within 300 (gr_agreementVersionId g)"

definition member_of_group :: "enterprise_group \<Rightarrow> enterprise_extra \<Rightarrow> bool" where
  "member_of_group g e \<longleftrightarrow> (let p = ex_origin e; c = ex_raisingCommand e in
     \<not> photo_elsewhere e \<and>
     ex_tenantId e = gr_tenantId g \<and> ex_jobId e = gr_jobId g \<and> eo_tenantId p = gr_tenantId g \<and>
     eo_jobId p = gr_jobId g \<and> eo_variationId p = ex_id e \<and> vo_jobTrack (eo_origin p) = gr_jobTrack g \<and>
     rc_id c = eo_commandId p \<and> rc_actorId c = eo_raisingMembershipId p \<and>
     role_name (rc_role c) = eo_raisingRole p \<and> eg_membershipId (rc_grant c) = rc_actorId c \<and>
     eg_role (rc_grant c) = rc_role c \<and> eg_tenantId (rc_grant c) = gr_tenantId g \<and>
     eg_jobId (rc_grant c) = gr_jobId g \<and> originCommands (rc_type c) = Some (vo_kind (eo_origin p)))"

definition fact_of_extra :: "enterprise_group \<Rightarrow> enterprise_extra \<Rightarrow> billing_fact \<Rightarrow> bool" where
  "fact_of_extra g e f \<longleftrightarrow>
     bf_tenantId f = gr_tenantId g \<and> bf_jobId f = gr_jobId g \<and> bf_scopeItemId f = ex_scopeItemId e \<and>
     bf_revisionId f = rv_id (ex_revision e) \<and> bf_revisionHash f = rv_hash (ex_revision e) \<and>
     Some (bf_exportLineId f) = ex_exportLineId e \<and>
     \<not> (bf_kind f = Bk_reversed \<and> bf_originalSourceRef f = None) \<and>
     \<not> ((bf_kind f = Bk_settled \<or> bf_kind f = Bk_reversed) \<and> bf_allocationRule f = None)"

definition enterpriseGroupV1 :: "enterprise_group \<Rightarrow> bool" where
  "enterpriseGroupV1 g \<longleftrightarrow> groupShapeV1 g \<and>
     gr_canonicalId g \<in> set (map ex_id (gr_members g)) \<and> distinct (map ex_id (gr_members g)) \<and>
     list_all (\<lambda>e. member_of_group g e \<and> list_all (fact_of_extra g e) (ex_billingFacts e)) (gr_members g)"

definition readEnterprise :: "('a \<Rightarrow> bool) \<Rightarrow> 'a \<Rightarrow> enterprise_error \<Rightarrow> enterprise_error + 'a" where
  "readEnterprise schema raw code = (if schema raw then Inr raw else Inl code)"

definition parseEnterpriseGroup :: "enterprise_group \<Rightarrow> enterprise_error + enterprise_group" where
  "parseEnterpriseGroup raw = readEnterprise enterpriseGroupV1 raw INVALID_ENTERPRISE_FACTS"

text \<open>The advisory boundary: a proposal has no price, state or authority field at all.\<close>

datatype prompt_producer = Producer_model string string | Producer_rule string

record prompt_source =
  ps_evidenceId :: string
  ps_hash :: string

record prompt_proposal =
  pp_tenantId :: string
  pp_jobId :: string
  pp_scopeItemId :: "string option"
  pp_coalescingKey :: string
  pp_description :: string
  pp_producer :: prompt_producer
  pp_sources :: "prompt_source list"

definition enterprisePromptProposalV1 :: "prompt_proposal \<Rightarrow> bool" where
  "enterprisePromptProposalV1 p \<longleftrightarrow> text_within 300 (pp_coalescingKey p) \<and> text_within 4000 (pp_description p) \<and>
     (case pp_producer p of Producer_model m v \<Rightarrow> text_within 300 m \<and> text_within 300 v
      | Producer_rule v \<Rightarrow> text_within 300 v) \<and>
     1 \<le> length (pp_sources p) \<and> length (pp_sources p) \<le> 100 \<and> list_all (\<lambda>s. sha_text (ps_hash s)) (pp_sources p)"

definition parseEnterprisePromptProposal :: "prompt_proposal \<Rightarrow> enterprise_error + prompt_proposal" where
  "parseEnterprisePromptProposal raw = readEnterprise enterprisePromptProposalV1 raw INVALID_PROMPT_PROPOSAL"

section \<open>Coverage and the server clock\<close>

definition covering_grant ::
  "enterprise_actor \<Rightarrow> string \<Rightarrow> string \<Rightarrow> enterprise_role list \<Rightarrow> enterprise_grant \<Rightarrow> bool" where
  "covering_grant actor tenantId jobId roles g \<longleftrightarrow> eg_membershipId g = ac_membershipId actor \<and>
     eg_tenantId g = tenantId \<and> eg_jobId g = jobId \<and> eg_role g \<in> set roles"

definition covers :: "enterprise_actor \<Rightarrow> string \<Rightarrow> string \<Rightarrow> enterprise_role list \<Rightarrow> bool" where
  "covers actor tenantId jobId roles \<longleftrightarrow> ac_tenantId actor = tenantId \<and>
     list_ex (covering_grant actor tenantId jobId roles) (ac_grants actor)"

text \<open>
  \<^verbatim>\<open>Date.parse\<close> of a text without its fraction is the whole second of the ISO calendar.
\<close>

definition readServerInstant :: "string \<Rightarrow> enterprise_error + instant" where
  "readServerInstant raw =
     (if instantV1 raw then map_err (\<lambda>_. INVALID_ENTERPRISE_FACTS) (parseInstant raw)
      else Inl INVALID_ENTERPRISE_FACTS)"

definition compareServerInstants :: "string \<Rightarrow> string \<Rightarrow> enterprise_error + int" where
  "compareServerInstants left right =
     bind_r (readServerInstant left) (\<lambda>a. bind_r (readServerInstant right) (\<lambda>b.
       let width = max (length (i_fraction a)) (length (i_fraction b));
           x = pad_end width (i_fraction a); y = pad_end width (i_fraction b)
       in Inr (if i_seconds a \<noteq> i_seconds b then (if i_seconds a < i_seconds b then - 1 else 1)
               else if x = y then 0 else if x < y then - 1 else 1)))"

text \<open>
  The comparison inside conditions and sorts whose texts a schema has already admitted: it cannot
  throw there (\<open>compareServerInstants_total\<close>).
\<close>

definition server_order :: "string \<Rightarrow> string \<Rightarrow> int" where
  "server_order left right = (case compareServerInstants left right of Inr c \<Rightarrow> c | Inl _ \<Rightarrow> 0)"

lemma compareServerInstants_total:
  "instantV1 l \<Longrightarrow> instantV1 r \<Longrightarrow> compareServerInstants l r = Inr (server_order l r)"
  by (auto simp: server_order_def compareServerInstants_def readServerInstant_def instantV1_def
      parseInstant_def Let_def)

lemma readEnterprise_Inr_iff [result_simps]: "readEnterprise P x c = Inr y \<longleftrightarrow> P x \<and> y = x"
  by (auto simp: readEnterprise_def)

lemma parseEnterpriseGroup_Inr_iff [result_simps]: "parseEnterpriseGroup g = Inr h \<longleftrightarrow> enterpriseGroupV1 g \<and> h = g"
  by (simp add: parseEnterpriseGroup_def readEnterprise_Inr_iff)

lemma coversD: "covers a t j roles \<Longrightarrow> \<exists>g\<in>set (ac_grants a). covering_grant a t j roles g"
  by (simp add: covers_def list_ex_iff)

end
