(* ===== verification/Enterprise_Origin.thy ===== *)
theory Enterprise_Origin
  imports Enterprise_Contracts
begin

text \<open>
  Model of \<^verbatim>\<open>enterprise-domain/origin.ts\<close>: duplicate groups and their canonical extra, the
  effective (earliest) origin, when an extra is site originated, the approval snapshot of a
  revision, the principal that qualifies for a fee, and the repair of duplicate groups. The
  theorem about the principal says exactly what amount bears a fee and when there is none.
\<close>

section \<open>Roles and states\<close>

definition senior :: "enterprise_role list" where
  "senior = [R_supervisor, R_surveyor, R_commercial_manager]"

definition unlinkRoles :: "enterprise_role list" where
  "unlinkRoles = [R_supervisor, R_surveyor, R_commercial_manager, R_admin, R_owner]"

definition billedStates :: "enterprise_state list" where
  "billedStates = [S_billed, S_part_paid, S_paid]"

definition siteFeeRolesWithoutNaming :: "enterprise_role list" where
  "siteFeeRolesWithoutNaming = [R_supervisor, R_surveyor]"

section \<open>Duplicate groups\<close>

definition canonical_of :: "enterprise_group \<Rightarrow> enterprise_extra option" where
  "canonical_of g = find (\<lambda>e. ex_id e = gr_canonicalId g) (gr_members g)"

definition links_to :: "enterprise_extra \<Rightarrow> enterprise_extra \<Rightarrow> bool" where
  "links_to canonical e \<longleftrightarrow> ex_id e = ex_id canonical \<or>
     \<not> (ex_state e \<noteq> S_duplicate \<or> ex_duplicateOf e \<noteq> Some (ex_id canonical) \<or> ex_duplicateOf e = Some (ex_id e))"

text \<open>A parsed group has its canonical member, so the first branch is not reached.\<close>

definition assertParsedDuplicateGroup :: "enterprise_group \<Rightarrow> enterprise_error + unit" where
  "assertParsedDuplicateGroup g = (case canonical_of g of
     None \<Rightarrow> Inl Js_type_error
   | Some canonical \<Rightarrow>
       if ex_duplicateOf canonical \<noteq> None \<or> ex_state canonical = S_duplicate \<or>
          length (filter (\<lambda>e. ex_duplicateOf e = None) (gr_members g)) \<noteq> 1 then Inl INVALID_DUPLICATE_GROUP
       else if list_all (links_to canonical) (gr_members g) then Inr () else Inl INVALID_DUPLICATE_GROUP)"

definition assertDuplicateGroup :: "enterprise_group \<Rightarrow> enterprise_error + unit" where
  "assertDuplicateGroup raw = bind_r (parseEnterpriseGroup raw) assertParsedDuplicateGroup"

definition originates_before :: "enterprise_extra \<Rightarrow> enterprise_extra \<Rightarrow> bool" where
  "originates_before a b \<longleftrightarrow>
     (let c = server_order (eo_serverRecordedAt (ex_origin a)) (eo_serverRecordedAt (ex_origin b))
      in if c \<noteq> 0 then c < 0 else ex_id a < ex_id b)"

definition parsedEffectiveOrigin :: "enterprise_group \<Rightarrow> enterprise_extra" where
  "parsedEffectiveOrigin g = hd (sort_by originates_before (gr_members g))"

definition effectiveOrigin :: "enterprise_group \<Rightarrow> enterprise_error + enterprise_extra" where
  "effectiveOrigin raw = bind_r (parseEnterpriseGroup raw) (\<lambda>g.
     bind_r (assertParsedDuplicateGroup g) (\<lambda>_. Inr (parsedEffectiveOrigin g)))"

section \<open>Site origination\<close>

text \<open>The characters \<^verbatim>\<open>String.prototype.trim\<close> removes, among those of type \<^typ>\<open>char\<close>.\<close>

definition js_space :: "char \<Rightarrow> bool" where
  "js_space c \<longleftrightarrow> (let n = of_char c :: nat in (9 \<le> n \<and> n \<le> 13) \<or> n = 32 \<or> n = 160)"

definition blank_text :: "string \<Rightarrow> bool" where
  "blank_text s \<longleftrightarrow> list_all js_space s"

definition photo_bound :: "enterprise_extra \<Rightarrow> bool" where
  "photo_bound e \<longleftrightarrow> ph_status (ex_photo e) = Photo_verified \<and> ph_evidenceId (ex_photo e) \<noteq> None \<and>
     ph_hash (ex_photo e) \<noteq> None \<and> ph_tenantId (ex_photo e) = Some (ex_tenantId e) \<and>
     ph_jobId (ex_photo e) = Some (ex_jobId e) \<and> ph_scopeItemId (ex_photo e) = Some (ex_scopeItemId e) \<and>
     ph_objectVersionId (ex_photo e) \<noteq> None"

definition captureSatisfied :: "enterprise_extra \<Rightarrow> bool" where
  "captureSatisfied e \<longleftrightarrow>
     ((case ex_captureNote e of None \<Rightarrow> False | Some n \<Rightarrow> \<not> blank_text n) \<or> photo_bound e) \<and>
     (\<not> ex_residentCaptured e \<or> ex_residentConfirmationHash e \<noteq> None)"

definition parsedSiteOriginated :: "enterprise_group \<Rightarrow> bool" where
  "parsedSiteOriginated g \<longleftrightarrow>
     (let e = parsedEffectiveOrigin g; kind = vo_kind (eo_origin (ex_origin e)) in
      if gr_jobTrack g \<noteq> Track_contractor \<or> (kind \<noteq> K_site_user \<and> kind \<noteq> K_jobguard_surfaced_confirmed) \<or>
         oo_coverage (ex_orderAtOrigin e) = Coverage_fully_instructed \<or> \<not> captureSatisfied e then False
      else if kind = K_site_user then
        (if rc_role (ex_raisingCommand e) = R_operative then rc_assigned (ex_raisingCommand e)
         else rc_role (ex_raisingCommand e) \<in> set siteFeeRolesWithoutNaming)
      else (case ex_prompt e of None \<Rightarrow> False
        | Some p \<Rightarrow> ac_membershipId (pr_confirmedBy p) = eo_raisingMembershipId (ex_origin e) \<and>
            covers (pr_confirmedBy p) (ex_tenantId e) (ex_jobId e) senior \<and>
            list_all (\<lambda>m. server_order (pr_surfacedAt p) (eo_serverRecordedAt (ex_origin m)) < 0) (gr_members g)))"

definition siteOriginated :: "enterprise_group \<Rightarrow> enterprise_error + bool" where
  "siteOriginated raw = bind_r (parseEnterpriseGroup raw) (\<lambda>g.
     bind_r (assertParsedDuplicateGroup g) (\<lambda>_. Inr (parsedSiteOriginated g)))"

section \<open>The approval snapshot\<close>

definition step_fits :: "enterprise_extra \<Rightarrow> enterprise_requirement \<Rightarrow> nat \<Rightarrow> enterprise_approval \<Rightarrow> bool" where
  "step_fits e requirement index step \<longleftrightarrow>
     (let r = ex_revision e; required = rq_steps requirement ! index in
      \<not> (ap_index step \<noteq> index \<or> ap_revisionId step \<noteq> rv_id r \<or> ap_hash step \<noteq> rv_hash r \<or>
         Some (ap_netPence step) \<noteq> rv_netPence r \<or> ap_ruleVersion step \<noteq> rq_ruleVersion requirement \<or>
         ap_actorId step = eo_raisingMembershipId (ex_origin e)) \<and>
      (if st_role required = R_contract_rule then
         \<not> (length (rq_steps requirement) \<noteq> 1 \<or> ap_role step \<noteq> R_contract_rule \<or> ap_grant step \<noteq> None)
       else (case ap_grant step of None \<Rightarrow> False
         | Some grant \<Rightarrow> \<not> (eg_tenantId grant \<noteq> ex_tenantId e \<or> eg_jobId grant \<noteq> ex_jobId e \<or>
             eg_role grant \<noteq> ap_role step \<or> eg_membershipId grant \<noteq> ap_actorId step \<or>
             \<not> (ap_role step = st_role required \<or> ap_role step \<in> set (st_alternates required))))))"

fun steps_valid :: "enterprise_extra \<Rightarrow> enterprise_requirement \<Rightarrow> nat \<Rightarrow> string list \<Rightarrow> enterprise_approval list \<Rightarrow> bool" where
  "steps_valid e requirement index actors [] = True"
| "steps_valid e requirement index actors (step # rest) =
     (step_fits e requirement index step \<and> ap_actorId step \<notin> set actors \<and>
      steps_valid e requirement (Suc index) (actors @ [ap_actorId step]) rest)"

definition priced :: "enterprise_revision \<Rightarrow> bool" where
  "priced r \<longleftrightarrow> rv_priceConfirmed r \<and> (case rv_netPence r of None \<Rightarrow> False | Some n \<Rightarrow> 0 < n) \<and>
     rv_priceSource r \<noteq> Unpriced"

definition approvalSnapshotValid :: "enterprise_extra \<Rightarrow> bool \<Rightarrow> bool" where
  "approvalSnapshotValid e all_steps \<longleftrightarrow> (let r = ex_revision e in
     case rv_requirement r of None \<Rightarrow> False
     | Some requirement \<Rightarrow> priced r \<and> length (rv_approvals r) \<le> length (rq_steps requirement) \<and>
         (all_steps \<longrightarrow> length (rv_approvals r) = length (rq_steps requirement)) \<and>
         (rq_photoRequired requirement \<longrightarrow> photo_bound e) \<and>
         (rq_residentRequired requirement \<or> ex_residentCaptured e \<longrightarrow> ex_residentConfirmationHash e \<noteq> None) \<and>
         steps_valid e requirement 0 [] (rv_approvals r))"

section \<open>The qualifying principal\<close>

definition money_limit :: "'e + 'a \<Rightarrow> enterprise_error + 'a" where
  "money_limit m = map_err (\<lambda>_. MONEY_LIMIT) m"

definition net_of :: "billing_fact \<Rightarrow> enterprise_error + exact_pence" where
  "net_of f = money_limit (parseExactPence exactPenceV1 (bf_net f))"

definition same_line :: "billing_fact \<Rightarrow> billing_fact \<Rightarrow> bool" where
  "same_line f h \<longleftrightarrow> bf_invoiceId f = bf_invoiceId h \<and> bf_invoiceLineId f = bf_invoiceLineId h"

definition check_fact :: "billing_fact list \<Rightarrow> unit \<Rightarrow> billing_fact \<Rightarrow> enterprise_error + unit" where
  "check_fact facts u f = bind_r (net_of f) (\<lambda>net.
     if (if bf_kind f = Bk_reversed then numerator net > 0 else numerator net < 0) then Inl INVALID_ENTERPRISE_FACTS
     else if (bf_kind f = Bk_settled \<or> bf_kind f = Bk_credited) \<and>
        \<not> list_ex (\<lambda>h. bf_kind h = Bk_invoiced \<and> same_line h f) facts then Inl INVALID_ALLOCATION_FACTS
     else if bf_kind f = Bk_reversed \<and>
        \<not> list_ex (\<lambda>h. bf_kind h = Bk_settled \<and> Some (bf_sourceRef h) = bf_originalSourceRef f \<and> same_line h f) facts
       then Inl INVALID_ALLOCATION_FACTS
     else Inr ())"

definition sum_nets :: "(billing_fact \<Rightarrow> enterprise_error + exact_pence) \<Rightarrow> billing_fact list \<Rightarrow> enterprise_error + exact_pence" where
  "sum_nets read fs = bind_r (map_r read fs) (\<lambda>vs. money_limit (sumExactPence0 vs))"

definition minus_net :: "billing_fact \<Rightarrow> enterprise_error + exact_pence" where
  "minus_net f = bind_r (net_of f) (\<lambda>net. money_limit (exactPence (- numerator net) (denominator net)))"

definition check_reversals :: "billing_fact list \<Rightarrow> unit \<Rightarrow> billing_fact \<Rightarrow> enterprise_error + unit" where
  "check_reversals line u settled =
     bind_r (sum_nets minus_net (filter (\<lambda>f. bf_kind f = Bk_reversed \<and> bf_originalSourceRef f = Some (bf_sourceRef settled)) line)) (\<lambda>reversed.
     bind_r (net_of settled) (\<lambda>net.
       if compareExactPence reversed net > 0 then Inl INVALID_ALLOCATION_FACTS else Inr ()))"

definition check_invoice_line :: "billing_fact list \<Rightarrow> unit \<Rightarrow> string \<times> string \<Rightarrow> enterprise_error + unit" where
  "check_invoice_line facts u key =
     (let line = filter (\<lambda>f. (bf_invoiceId f, bf_invoiceLineId f) = key) facts in
      bind_r (sum_nets net_of (filter (\<lambda>f. bf_kind f = Bk_invoiced) line)) (\<lambda>invoiced.
      bind_r (sum_nets net_of (filter (\<lambda>f. bf_kind f = Bk_credited) line)) (\<lambda>credited.
        if compareExactPence credited invoiced > 0 then Inl INVALID_ALLOCATION_FACTS
        else fold_r (check_reversals line) () (filter (\<lambda>f. bf_kind f = Bk_settled) line))))"

definition signed_net :: "billing_fact \<Rightarrow> enterprise_error + exact_pence" where
  "signed_net f = bind_r (net_of f) (\<lambda>p.
     money_limit (exactPence (if bf_kind f = Bk_credited then - numerator p else numerator p) (denominator p)))"

definition fact_total :: "billing_fact list \<Rightarrow> billing_kind \<Rightarrow> billing_kind \<Rightarrow> enterprise_error + exact_pence" where
  "fact_total facts positive negative =
     sum_nets signed_net (filter (\<lambda>f. bf_kind f = positive \<or> bf_kind f = negative) facts)"

definition lesser_pence :: "exact_pence \<Rightarrow> exact_pence \<Rightarrow> exact_pence" where
  "lesser_pence a b = (if compareExactPence a b < 0 then a else b)"

definition zero_pence :: exact_pence where
  "zero_pence = \<lparr>numerator = 0, denominator = 1\<rparr>"

text \<open>\<open>cutoff\<close> is the optional recording cutoff: only facts recorded before it count.\<close>

definition recorded_before :: "string option \<Rightarrow> string \<Rightarrow> bool" where
  "recorded_before cutoff t \<longleftrightarrow> (case cutoff of None \<Rightarrow> True | Some c \<Rightarrow> server_order t c < 0)"

definition counted_facts :: "enterprise_extra \<Rightarrow> string option \<Rightarrow> billing_fact list" where
  "counted_facts e cutoff = filter (\<lambda>f. bf_status f = Finalized \<and> recorded_before cutoff (bf_recordedAt f)) (ex_billingFacts e)"

definition fee_gate_open :: "enterprise_group \<Rightarrow> bool \<Rightarrow> string option \<Rightarrow> enterprise_extra \<Rightarrow> bool" where
  "fee_gate_open g reference cutoff e \<longleftrightarrow>
     (reference \<or> (gr_mode g = Production_billing \<and> gr_feeGate g)) \<and> parsedSiteOriginated g \<and>
     (ex_state e \<in> set billedStates \<or> (cutoff \<noteq> None \<and> ex_state e = S_credited)) \<and>
     ex_exportLineId e \<noteq> None \<and> ex_exportedAt e \<noteq> None \<and> gr_unresolvedCandidateIds g = [] \<and>
     approvalSnapshotValid e True"

definition all_recorded_before :: "string option \<Rightarrow> enterprise_extra \<Rightarrow> bool" where
  "all_recorded_before cutoff e \<longleftrightarrow> recorded_before cutoff (rv_serverRecordedAt (ex_revision e)) \<and>
     list_all (\<lambda>a. recorded_before cutoff (ap_serverRecordedAt a)) (rv_approvals (ex_revision e)) \<and>
     (case ex_exportedAt e of None \<Rightarrow> False | Some t \<Rightarrow> recorded_before cutoff t)"

definition first_occurrences :: "'a list \<Rightarrow> 'a list" where
  "first_occurrences xs = rev (remdups (rev xs))"

definition principal_of_facts :: "int \<Rightarrow> billing_fact list \<Rightarrow> enterprise_error + exact_pence" where
  "principal_of_facts netPence facts =
     (if \<not> distinct (map (\<lambda>f. (bf_kind f, bf_sourceRef f, bf_invoiceId f, bf_invoiceLineId f)) facts)
      then Inl INVALID_ENTERPRISE_FACTS
      else bind_r (fold_r (check_fact facts) () facts) (\<lambda>_.
      bind_r (fold_r (check_invoice_line facts) () (first_occurrences (map (\<lambda>f. (bf_invoiceId f, bf_invoiceLineId f)) facts))) (\<lambda>_.
      bind_r (fact_total facts Bk_invoiced Bk_credited) (\<lambda>invoiced.
      bind_r (fact_total facts Bk_settled Bk_reversed) (\<lambda>paid.
      bind_r (money_limit (exactPence netPence 1)) (\<lambda>approved.
        let least = lesser_pence (lesser_pence approved invoiced) paid
        in Inr (if compareExactPence least zero_pence < 0 then zero_pence else least)))))))"

definition qualifyingPrincipal :: "enterprise_group \<Rightarrow> bool \<Rightarrow> string option \<Rightarrow> enterprise_error + exact_pence" where
  "qualifyingPrincipal raw reference cutoff = bind_r (parseEnterpriseGroup raw) (\<lambda>g.
     bind_r (assertParsedDuplicateGroup g) (\<lambda>_.
     case canonical_of g of None \<Rightarrow> Inl Js_type_error
     | Some e \<Rightarrow>
       if \<not> fee_gate_open g reference cutoff e then Inr zero_pence
       else if \<not> opt_ok instantV1 cutoff then Inl INVALID_ENTERPRISE_FACTS
       else if \<not> all_recorded_before cutoff e then Inr zero_pence
       else (case rv_netPence (ex_revision e) of None \<Rightarrow> Inl Js_type_error
         | Some netPence \<Rightarrow> principal_of_facts netPence (counted_facts e cutoff))))"

definition feeBearing :: "enterprise_group \<Rightarrow> enterprise_error + bool" where
  "feeBearing raw = bind_r (qualifyingPrincipal raw False None) (\<lambda>q. Inr (numerator q > 0))"

section \<open>Origin, repair and coalescing\<close>

definition assertOriginUnchanged :: "enterprise_extra \<Rightarrow> enterprise_extra \<Rightarrow> enterprise_error + unit" where
  "assertOriginUnchanged before after =
     bind_r (readEnterprise enterpriseExtraV1 before INVALID_ENTERPRISE_FACTS) (\<lambda>a.
     bind_r (readEnterprise enterpriseExtraV1 after INVALID_ENTERPRISE_FACTS) (\<lambda>b.
       if ex_id a \<noteq> ex_id b \<or> ex_tenantId a \<noteq> ex_tenantId b \<or> ex_jobId a \<noteq> ex_jobId b \<or>
          ex_scopeItemId a \<noteq> ex_scopeItemId b \<or> ex_origin a \<noteq> ex_origin b \<or>
          ex_raisingCommand a \<noteq> ex_raisingCommand b \<or> ex_orderAtOrigin a \<noteq> ex_orderAtOrigin b
       then Inl INVALID_ORIGIN else Inr ()))"

datatype repair_kind = Repair_unlink | Repair_reconcile

datatype repair_resolution = Rr_approved | Rr_rejected | Rr_dismissed

record reconciliation_authorization =
  au_decisionId :: string
  au_tenantId :: string
  au_jobId :: string
  au_canonicalId :: string
  au_actorId :: string
  au_contentHash :: string
  au_resolution :: repair_resolution
  au_current :: bool
  au_expired :: bool

record duplicate_repair =
  dr_kind :: repair_kind
  dr_reason :: string
  dr_reconciliationId :: "string option"
  dr_inputFactsHash :: string
  dr_authorization :: "reconciliation_authorization option"

definition repairV1 :: "duplicate_repair \<Rightarrow> bool" where
  "repairV1 r \<longleftrightarrow> text_within 300 (dr_reason r) \<and> sha_text (dr_inputFactsHash r) \<and>
     opt_ok (\<lambda>a. sha_text (au_contentHash a)) (dr_authorization r)"

definition assertDuplicateRepair :: "enterprise_group \<Rightarrow> enterprise_actor \<Rightarrow> duplicate_repair \<Rightarrow> enterprise_error + unit" where
  "assertDuplicateRepair raw suppliedActor rawRepair =
     bind_r (parseEnterpriseGroup raw) (\<lambda>g. bind_r (assertDuplicateGroup g) (\<lambda>_.
     bind_r (readEnterprise enterpriseActorV1 suppliedActor INVALID_ENTERPRISE_FACTS) (\<lambda>actor.
     bind_r (readEnterprise repairV1 rawRepair INVALID_ENTERPRISE_FACTS) (\<lambda>repair.
       let exported = list_ex (\<lambda>e. ex_exportLineId e \<noteq> None) (gr_members g) in
       if dr_kind repair = Repair_unlink then
         (if exported \<or> \<not> covers actor (gr_tenantId g) (gr_jobId g) unlinkRoles then Inl PERMISSION_DENIED else Inr ())
       else (case dr_authorization repair of None \<Rightarrow> Inl PERMISSION_DENIED
         | Some a \<Rightarrow>
           if \<not> exported \<or> dr_reconciliationId repair = None \<or>
              \<not> covers actor (gr_tenantId g) (gr_jobId g) [R_finance, R_commercial_manager] \<or>
              au_resolution a \<noteq> Rr_approved \<or> \<not> au_current a \<or> au_expired a \<or> au_tenantId a \<noteq> gr_tenantId g \<or>
              au_jobId a \<noteq> gr_jobId g \<or> au_canonicalId a \<noteq> gr_canonicalId g \<or>
              au_actorId a \<noteq> ac_membershipId actor \<or> au_contentHash a \<noteq> dr_inputFactsHash repair
           then Inl PERMISSION_DENIED else Inr ())))))"

record prompt_match =
  pm_tenantId :: string
  pm_jobId :: string
  pm_matchingExtraId :: string

text \<open>The answer is the canonical id; the literal \<^verbatim>\<open>createsOrigin: false\<close> carries no data.\<close>

definition coalescePrompt :: "enterprise_group \<Rightarrow> prompt_match \<Rightarrow> enterprise_error + string" where
  "coalescePrompt raw matching = bind_r (parseEnterpriseGroup raw) (\<lambda>g. bind_r (assertDuplicateGroup g) (\<lambda>_.
     if pm_tenantId matching \<noteq> gr_tenantId g \<or> pm_jobId matching \<noteq> gr_jobId g \<or>
        \<not> list_ex (\<lambda>e. ex_id e = pm_matchingExtraId matching) (gr_members g)
     then Inl INVALID_DUPLICATE_GROUP else Inr (gr_canonicalId g)))"

section \<open>What the principal is\<close>

definition net_value :: "billing_fact \<Rightarrow> rat" where
  "net_value f = text_val (bf_net f)"

definition kind_value :: "billing_kind \<Rightarrow> billing_fact list \<Rightarrow> rat" where
  "kind_value k facts = sum_list (map net_value (filter (\<lambda>f. bf_kind f = k) facts))"

definition line_facts :: "billing_fact list \<Rightarrow> billing_fact \<Rightarrow> billing_fact list" where
  "line_facts facts f = filter (\<lambda>h. same_line h f) facts"

definition reversed_value :: "billing_fact list \<Rightarrow> billing_fact \<Rightarrow> rat" where
  "reversed_value facts f = - sum_list (map net_value
     (filter (\<lambda>h. bf_kind h = Bk_reversed \<and> bf_originalSourceRef h = Some (bf_sourceRef f)) (line_facts facts f)))"

text \<open>No line is credited beyond what it was invoiced, and no settlement reversed beyond its amount.\<close>

definition reconciled :: "billing_fact list \<Rightarrow> bool" where
  "reconciled facts \<longleftrightarrow> (\<forall>f\<in>set facts.
     kind_value Bk_credited (line_facts facts f) \<le> kind_value Bk_invoiced (line_facts facts f) \<and>
     (bf_kind f = Bk_settled \<longrightarrow> reversed_value facts f \<le> net_value f))"

lemma money_limit_Inr_iff [result_simps]: "money_limit m = Inr v \<longleftrightarrow> m = Inr v"
  by (simp add: money_limit_def map_err_Inr_iff)

lemma parseExactPence_InrD:
  "parseExactPence exactPenceV1 t = Inr v \<Longrightarrow> 0 < denominator v \<and> val v = text_val t"
  by (auto simp: parseExactPence_def exactPenceV1_def exact_text_ok_def positiveOf_def int_of_text_positive
      text_val_def val_def Let_def split: if_splits)

lemma net_of_InrD: "net_of f = Inr v \<Longrightarrow> 0 < denominator v \<and> val v = net_value f"
  by (simp add: net_of_def result_simps net_value_def parseExactPence_InrD)

lemma minus_net_InrD: "minus_net f = Inr v \<Longrightarrow> 0 < denominator v \<and> val v = - net_value f"
  by (auto simp: minus_net_def result_simps val_def dest!: net_of_InrD exactPence_InrD)

lemma signed_net_InrD: "signed_net f = Inr v \<Longrightarrow>
  0 < denominator v \<and> val v = (if bf_kind f = Bk_credited then - net_value f else net_value f)"
  by (auto simp: signed_net_def result_simps val_def dest!: net_of_InrD exactPence_InrD split: if_splits)

lemma sumExactPence0_InrD:
  assumes "sumExactPence0 vs = Inr q" "\<forall>v\<in>set vs. 0 < denominator v"
  shows "exact_ok q \<and> val q = sum_list (map val vs)"
  using sumExactPence_unfold [OF assms(2), of MAX_EXACT_PENCE_DIGITS "max MAX_EXACT_PENCE_DIGITS MAX_EXACT_PENCE_DIGITS"]
    assms(1) unfolding sumExactPence0_def by (elim exE conjE) (simp split: if_splits)

lemma sum_nets_InrD:
  assumes "sum_nets read fs = Inr q" "\<And>f v. read f = Inr v \<Longrightarrow> 0 < denominator v \<and> val v = h f"
  shows "exact_ok q \<and> val q = sum_list (map h fs)"
proof -
  obtain vs where vs: "map_r read fs = Inr vs" "sumExactPence0 vs = Inr q"
    using assms(1) by (auto simp: sum_nets_def result_simps)
  have "\<forall>v\<in>set vs. 0 < denominator v" using map_r_InrD [OF vs(1)] assms(2) by blast
  moreover have "map val vs = map h fs" using map_r_Inr_sum [OF vs(1)] assms(2) by blast
  ultimately show ?thesis using sumExactPence0_InrD [OF vs(2)] by simp
qed

lemmas net_readers = net_of_InrD minus_net_InrD signed_net_InrD

lemma fold_r_unit: "fold_r f () xs = Inr u \<Longrightarrow> x \<in> set xs \<Longrightarrow> f () x = Inr ()"
  by (induction xs) (auto simp: result_simps)

lemma sum_list_negate: "sum_list (map (\<lambda>x. - h x) xs) = - (sum_list (map h xs) :: rat)"
  by (induction xs) simp_all

lemma sum_list_two_kinds:
  "p \<noteq> n \<Longrightarrow> sum_list (map (\<lambda>f. if bf_kind f = n then - h f else (h f :: rat)) (filter (\<lambda>f. bf_kind f = p \<or> bf_kind f = n) fs)) =
     sum_list (map h (filter (\<lambda>f. bf_kind f = p) fs)) - sum_list (map h (filter (\<lambda>f. bf_kind f = n) fs))"
  by (induction fs) auto

lemma billed_total:
  assumes "fact_total facts Bk_invoiced Bk_credited = Inr q"
  shows "exact_ok q \<and> val q = kind_value Bk_invoiced facts - kind_value Bk_credited facts"
  using sum_nets_InrD [OF assms [unfolded fact_total_def] signed_net_InrD]
  by (simp add: kind_value_def sum_list_two_kinds)

lemma settled_total:
  assumes "fact_total facts Bk_settled Bk_reversed = Inr q"
  shows "exact_ok q \<and> val q = kind_value Bk_settled facts + kind_value Bk_reversed facts"
proof -
  have "sum_list (map (\<lambda>f. if bf_kind f = Bk_credited then - net_value f else net_value f)
      (filter (\<lambda>f. bf_kind f = Bk_settled \<or> bf_kind f = Bk_reversed) facts)) =
    kind_value Bk_settled facts + kind_value Bk_reversed facts"
    unfolding kind_value_def by (induction facts) auto
  then show ?thesis using sum_nets_InrD [OF assms [unfolded fact_total_def] signed_net_InrD] by simp
qed

lemma check_invoice_line_InrD:
  assumes "check_invoice_line facts () (bf_invoiceId f, bf_invoiceLineId f) = Inr ()"
  shows "kind_value Bk_credited (line_facts facts f) \<le> kind_value Bk_invoiced (line_facts facts f)"
    and "f \<in> set facts \<Longrightarrow> bf_kind f = Bk_settled \<Longrightarrow> reversed_value facts f \<le> net_value f"
proof -
  have line: "filter (\<lambda>h. (bf_invoiceId h, bf_invoiceLineId h) = (bf_invoiceId f, bf_invoiceLineId f)) facts =
    line_facts facts f" by (simp add: line_facts_def same_line_def)
  from assms obtain i c where
    i: "sum_nets net_of (filter (\<lambda>h. bf_kind h = Bk_invoiced) (line_facts facts f)) = Inr i" and
    c: "sum_nets net_of (filter (\<lambda>h. bf_kind h = Bk_credited) (line_facts facts f)) = Inr c" and
    le: "\<not> compareExactPence c i > 0" and
    rev: "fold_r (check_reversals (line_facts facts f)) () (filter (\<lambda>h. bf_kind h = Bk_settled) (line_facts facts f)) = Inr ()"
    unfolding check_invoice_line_def Let_def line bind_r_Inr_iff if_Inl_Inr_iff by blast
  note i' = sum_nets_InrD [OF i net_of_InrD] and c' = sum_nets_InrD [OF c net_of_InrD]
  from le have "val c \<le> val i" using ex.cmp_iff(1) [of c i] i' c' by simp
  then show "kind_value Bk_credited (line_facts facts f) \<le> kind_value Bk_invoiced (line_facts facts f)"
    using i' c' by (simp add: kind_value_def)
  assume f: "f \<in> set facts" "bf_kind f = Bk_settled"
  then have "f \<in> set (filter (\<lambda>h. bf_kind h = Bk_settled) (line_facts facts f))"
    by (simp add: line_facts_def same_line_def)
  from fold_r_unit [OF rev this] obtain r n where
    r: "sum_nets minus_net (filter (\<lambda>h. bf_kind h = Bk_reversed \<and> bf_originalSourceRef h = Some (bf_sourceRef f)) (line_facts facts f)) = Inr r"
    and n: "net_of f = Inr n" and le: "\<not> compareExactPence r n > 0"
    unfolding check_reversals_def bind_r_Inr_iff if_Inl_Inr_iff by blast
  note r' = sum_nets_InrD [OF r minus_net_InrD] and n' = net_of_InrD [OF n]
  have "val r \<le> val n" using le compareExactPence_val [of r n] r' n' by (simp split: if_splits)
  then show "reversed_value facts f \<le> net_value f"
    using r' n' by (simp add: reversed_value_def sum_list_negate)
qed

lemma set_first_occurrences [simp]: "set (first_occurrences xs) = set xs"
  by (simp add: first_occurrences_def)

lemma lesser_pence_val:
  "exact_ok a \<Longrightarrow> exact_ok b \<Longrightarrow> exact_ok (lesser_pence a b) \<and> val (lesser_pence a b) = min (val a) (val b)"
  by (simp add: lesser_pence_def ex.cmp_iff)

lemma zero_pence_ok [simp]: "exact_ok zero_pence" "val zero_pence = 0"
  by (simp_all add: zero_pence_def exact_ok_def val_def)

lemma principal_of_facts_InrD:
  assumes "principal_of_facts n facts = Inr q"
  shows "exact_ok q \<and> reconciled facts \<and>
    val q = max 0 (min (of_int n) (min (kind_value Bk_invoiced facts - kind_value Bk_credited facts)
      (kind_value Bk_settled facts + kind_value Bk_reversed facts)))"
proof -
  from assms obtain i p a where
    lines: "fold_r (check_invoice_line facts) () (first_occurrences (map (\<lambda>f. (bf_invoiceId f, bf_invoiceLineId f)) facts)) = Inr ()"
    and i: "fact_total facts Bk_invoiced Bk_credited = Inr i"
    and p: "fact_total facts Bk_settled Bk_reversed = Inr p"
    and a: "exactPence n 1 = Inr a"
    and q: "q = (let least = lesser_pence (lesser_pence a i) p in if compareExactPence least zero_pence < 0 then zero_pence else least)"
    unfolding principal_of_facts_def bind_r_Inr_iff if_Inl_Inr_iff money_limit_Inr_iff Let_def by auto
  have "reconciled facts" unfolding reconciled_def
    using check_invoice_line_InrD [OF fold_r_unit [OF lines]] by simp
  moreover have "exact_ok (lesser_pence (lesser_pence a i) p) \<and> val (lesser_pence (lesser_pence a i) p) = min (min (of_int n) (val i)) (val p)"
    using lesser_pence_val billed_total [OF i] settled_total [OF p] exactPence_InrD [OF a] by simp
  moreover from this have "exact_ok q \<and> val q = max 0 (val (lesser_pence (lesser_pence a i) p))"
    by (auto simp: q Let_def ex.cmp_iff)
  ultimately show ?thesis using billed_total [OF i] settled_total [OF p] by (simp add: min.assoc)
qed

text \<open>
  C3. What bears a fee. When \<open>qualifyingPrincipal\<close> returns, the amount is a reduced fraction, and it is
  zero unless every gate is open (production billing with the fee gate, or a reference run; a site
  originated extra; a billed state; exported; no unresolved candidate; a complete approval snapshot;
  everything recorded before the cutoff). With the gates open it is exactly the least of the approved
  price, what was invoiced less credits, and what was settled less reversals, never below zero, and
  the facts reconcile: no invoice line is credited beyond its invoices and no settlement is reversed
  beyond its amount.
\<close>

theorem qualifyingPrincipal_exact:
  assumes "qualifyingPrincipal g reference cutoff = Inr q"
  shows "exact_ok q \<and> (\<exists>e. canonical_of g = Some e \<and> ex_duplicateOf e = None \<and>
    (if fee_gate_open g reference cutoff e \<and> all_recorded_before cutoff e
     then \<exists>n > 0. rv_netPence (ex_revision e) = Some n \<and> reconciled (counted_facts e cutoff) \<and>
       val q = max 0 (min (of_int n)
         (min (kind_value Bk_invoiced (counted_facts e cutoff) - kind_value Bk_credited (counted_facts e cutoff))
              (kind_value Bk_settled (counted_facts e cutoff) + kind_value Bk_reversed (counted_facts e cutoff))))
     else val q = 0))"
proof -
  from assms obtain e where e: "canonical_of g = Some e" "ex_duplicateOf e = None"
    and q: "(if \<not> fee_gate_open g reference cutoff e then Inr zero_pence
       else if \<not> opt_ok instantV1 cutoff then Inl INVALID_ENTERPRISE_FACTS
       else if \<not> all_recorded_before cutoff e then Inr zero_pence
       else case rv_netPence (ex_revision e) of None \<Rightarrow> Inl Js_type_error
         | Some n \<Rightarrow> principal_of_facts n (counted_facts e cutoff)) = Inr q"
    unfolding qualifyingPrincipal_def assertParsedDuplicateGroup_def
    by (auto simp: result_simps split: option.splits)
  show ?thesis
  proof (cases "fee_gate_open g reference cutoff e \<and> all_recorded_before cutoff e")
    case True
    then have "approvalSnapshotValid e True" by (simp add: fee_gate_open_def)
    then obtain n where n: "rv_netPence (ex_revision e) = Some n" "0 < n"
      by (auto simp: approvalSnapshotValid_def priced_def Let_def split: option.splits)
    from q True n have "principal_of_facts n (counted_facts e cutoff) = Inr q" by (simp split: if_splits)
    from principal_of_facts_InrD [OF this] True e n show ?thesis by simp
  next
    case False
    then have "q = zero_pence" using q by (auto split: if_splits)
    with e False show ?thesis by auto
  qed
qed

section \<open>A worked group\<close>

lemma sumExactPence_whole:
  assumes small: "\<bar>sum_list ns\<bar> < 1000000000" and "9 \<le> D" "9 \<le> W"
  shows "sumExactPence (map (\<lambda>n. \<lparr>numerator = n, denominator = 1\<rparr>) ns) D W = Inr \<lparr>numerator = sum_list ns, denominator = 1\<rparr>"
proof -
  let ?vs = "map (\<lambda>n. \<lparr>numerator = n, denominator = 1\<rparr>) ns" and ?q = "\<lparr>numerator = sum_list ns, denominator = 1\<rparr>"
  have "\<forall>v\<in>set ?vs. 0 < denominator v" by auto
  from sumExactPence_unfold [OF this, of D W] obtain q where q: "exact_ok q"
      "val q = sum_list (map val ?vs)" and eq: "sumExactPence ?vs D W =
     (if ?vs \<noteq> [] \<and> 10 ^ W \<le> Lcm (denominator ` set ?vs) then Inl INVALID_SHARED_MONEY
      else if denominator q \<ge> 10 ^ D \<or> \<bar>numerator q\<bar> \<ge> 10 ^ D then Inl INVALID_SHARED_MONEY else Inr q)"
    by blast
  have "sum_list (map val ?vs) = val ?q"
    by (induction ns) (simp_all add: val_def)
  with q have q': "q = ?q"
    by (intro exact_ok_unique) (simp_all add: exact_ok_def)
  have big: "(1000000000::int) \<le> 10 ^ D" "(1000000000::int) \<le> 10 ^ W"
    using power_increasing [OF assms(2), of "10::int"] power_increasing [OF assms(3), of "10::int"] by simp_all
  have "denominator ` set ?vs = {} \<or> denominator ` set ?vs = {1}" by (cases ns) auto
  then have L: "Lcm (denominator ` set ?vs) = 1" by (elim disjE) (simp_all only: Lcm_empty Lcm_singleton normalize_1)
  have "\<not> (10 ^ W \<le> (1::int))" "\<not> (10 ^ D \<le> (1::int))" "\<not> (10 ^ D \<le> \<bar>sum_list ns\<bar>)"
    using big small by linarith+
  then show ?thesis unfolding eq [unfolded L q' exact_pence.simps] by (simp only: simp_thms if_False)
qed

lemma sumExactPence0_whole:
  assumes "\<bar>sum_list ns\<bar> < 1000000000"
  shows "sumExactPence0 (map (\<lambda>n. \<lparr>numerator = n, denominator = 1\<rparr>) ns) = Inr \<lparr>numerator = sum_list ns, denominator = 1\<rparr>"
proof -
  have "9 \<le> MAX_EXACT_PENCE_DIGITS" by (simp add: MAX_EXACT_PENCE_DIGITS_eq)
  then show ?thesis unfolding sumExactPence0_def max.idem by (intro sumExactPence_whole assms)
qed

definition sample_instant :: string where "sample_instant = ''2026-01-02T10:00:00Z''"

definition sample_grant :: "string \<Rightarrow> enterprise_role \<Rightarrow> enterprise_grant" where
  "sample_grant who role = \<lparr>eg_id = ''G'', eg_tenantId = ''T'', eg_jobId = ''J'', eg_membershipId = who, eg_role = role\<rparr>"

definition sample_actor :: "string \<Rightarrow> enterprise_role \<Rightarrow> enterprise_actor" where
  "sample_actor who role = \<lparr>ac_membershipId = who, ac_tenantId = ''T'', ac_assigned = True, ac_grants = [sample_grant who role]\<rparr>"

definition sample_approval :: enterprise_approval where
  "sample_approval = \<lparr>ap_index = 0, ap_revisionId = ''V'', ap_hash = sample_hash, ap_netPence = 1000, ap_ruleVersion = ''r1'',
     ap_actorId = ''S'', ap_grant = Some (sample_grant ''S'' R_supervisor), ap_role = R_supervisor,
     ap_timing = Before_work, ap_serverRecordedAt = sample_instant\<rparr>"

definition sample_fact :: "billing_kind \<Rightarrow> string \<Rightarrow> string \<Rightarrow> billing_fact" where
  "sample_fact kind source amount = \<lparr>bf_tenantId = ''T'', bf_jobId = ''J'', bf_scopeItemId = ''C'', bf_revisionId = ''V'',
     bf_revisionHash = sample_hash, bf_exportLineId = ''L'', bf_invoiceId = ''I'', bf_invoiceLineId = ''1'',
     bf_sourceRef = source, bf_kind = kind, bf_net = \<lparr>numerator_text = amount, denominator_text = ''1''\<rparr>,
     bf_recordedAt = sample_instant, bf_effectiveAt = sample_instant, bf_allocationRule = Some Rule_pro_rata,
     bf_originalSourceRef = None, bf_status = Finalized\<rparr>"

definition sample_revision :: "enterprise_approval list \<Rightarrow> enterprise_revision" where
  "sample_revision approvals = \<lparr>rv_id = ''V'', rv_hash = sample_hash, rv_serverRecordedAt = sample_instant, rv_netPence = Some 1000,
     rv_priceConfirmed = True, rv_priceSource = Server_sor,
     rv_requirement = Some \<lparr>rq_ruleVersion = ''r1'', rq_steps = [\<lparr>st_role = R_supervisor, st_alternates = []\<rparr>],
       rq_photoRequired = False, rq_residentRequired = False\<rparr>, rv_approvals = approvals\<rparr>"

definition sample_extra :: "enterprise_state \<Rightarrow> enterprise_approval list \<Rightarrow> string option \<Rightarrow> billing_fact list \<Rightarrow> enterprise_extra" where
  "sample_extra state approvals export facts = \<lparr>ex_id = ''E'', ex_tenantId = ''T'', ex_jobId = ''J'', ex_scopeItemId = ''C'',
     ex_state = state, ex_duplicateOf = None, ex_billingBalances = None, ex_workDone = False,
     ex_exportedAt = map_option (\<lambda>_. sample_instant) export, ex_revision = sample_revision approvals,
     ex_origin = \<lparr>eo_tenantId = ''T'', eo_jobId = ''J'', eo_variationId = ''E'',
       eo_origin = \<lparr>vo_jobTrack = Track_contractor, vo_kind = K_site_user\<rparr>, eo_commandId = ''X'',
       eo_raisingMembershipId = ''M'', eo_raisingRole = ''operative'', eo_serverRecordedAt = sample_instant,
       eo_deviceId = None, eo_deviceCapturedAt = None, eo_evidenceHash = None\<rparr>,
     ex_raisingCommand = \<lparr>rc_id = ''X'', rc_type = LogSiteExtra, rc_actorId = ''M'', rc_role = R_operative,
       rc_grant = sample_grant ''M'' R_operative, rc_assigned = True\<rparr>,
     ex_orderAtOrigin = \<lparr>oo_revisionId = ''O'', oo_hash = sample_hash, oo_coverage = Coverage_new\<rparr>,
     ex_captureNote = Some ''Wall'',
     ex_photo = \<lparr>ph_status = Photo_none, ph_evidenceId = None, ph_hash = None, ph_tenantId = None, ph_jobId = None,
       ph_scopeItemId = None, ph_objectVersionId = None\<rparr>,
     ex_residentCaptured = False, ex_residentConfirmationHash = None, ex_prompt = None,
     ex_exportLineId = export, ex_billingFacts = facts\<rparr>"

definition sample_group :: "enterprise_extra \<Rightarrow> enterprise_group" where
  "sample_group e = \<lparr>gr_tenantId = ''T'', gr_jobId = ''J'', gr_jobTrack = Track_contractor, gr_mode = Production_billing,
     gr_feeGate = True, gr_canonicalId = ''E'', gr_members = [e], gr_unresolvedCandidateIds = [], gr_agreementVersionId = ''A''\<rparr>"

lemmas sample_defs = sample_grant_def sample_actor_def sample_approval_def sample_fact_def sample_revision_def
  sample_extra_def sample_group_def

lemmas enterprise_schemas = enterpriseGroupV1_def groupShapeV1_def member_of_group_def fact_of_extra_def
  photo_elsewhere_def enterpriseExtraV1_def enterpriseRevisionV1_def enterpriseRequirementV1_def
  enterpriseApprovalV1_def enterpriseGrantV1_def enterpriseActorV1_def roleV1_def enterpriseRoles_def
  approvalRole_def billingFactV1_def extraOriginV1_def variationOriginV1_def contractorOriginV1_def
  raisingCommandV1_def raisingCommands_def opt_ok_def text_within_def amount_ok_def MAX_ALLOCATION_LINES_def
  MAX_MONEY_PENCE_def

lemma sample_instant_ok [simp]: "instantV1 sample_instant"
  by code_simp

definition paid_sample :: enterprise_extra where
  "paid_sample = sample_extra S_part_paid [sample_approval] (Some ''L'')
     [sample_fact Bk_invoiced ''i'' ''900'', sample_fact Bk_settled ''s'' ''800'']"

lemma sample_amounts [simp]:
  "exactPenceV1 \<lparr>numerator_text = ''900'', denominator_text = ''1''\<rparr>"
  "exactPenceV1 \<lparr>numerator_text = ''800'', denominator_text = ''1''\<rparr>"
  by (simp_all add: exactPenceV1_def exact_text_ok_def integerOf_def positiveOf_def MAX_EXACT_PENCE_DIGITS_eq)
    code_simp+

lemma sample_nets [simp]:
  "net_of (sample_fact k s ''900'') = Inr \<lparr>numerator = 900, denominator = 1\<rparr>"
  "net_of (sample_fact k s ''800'') = Inr \<lparr>numerator = 800, denominator = 1\<rparr>"
proof -
  have "int_of_text ''900'' = 900" "int_of_text ''800'' = 800" "int_of_text ''1'' = 1" by code_simp+
  then show "net_of (sample_fact k s ''900'') = Inr \<lparr>numerator = 900, denominator = 1\<rparr>"
    "net_of (sample_fact k s ''800'') = Inr \<lparr>numerator = 800, denominator = 1\<rparr>"
    by (simp_all add: net_of_def sample_fact_def parseExactPence_def MAX_MONEY_PENCE_def money_limit_def)
qed

lemma paid_group_ok: "enterpriseGroupV1 (sample_group paid_sample)"
  by (simp add: enterprise_schemas sample_defs paid_sample_def)

lemma sample_signed [simp]:
  "signed_net (sample_fact k s ''800'') = money_limit (exactPence (if k = Bk_credited then - 800 else 800) 1)"
  "signed_net (sample_fact k s ''900'') = money_limit (exactPence (if k = Bk_credited then - 900 else 900) 1)"
  by (simp_all add: signed_net_def) (simp_all add: sample_fact_def)

lemma sample_kinds [simp]: "bf_kind (sample_fact k s a) = k" "bf_invoiceId (sample_fact k s a) = ''I''"
  "bf_invoiceLineId (sample_fact k s a) = ''1''" "bf_status (sample_fact k s a) = Finalized"
  "bf_sourceRef (sample_fact k s a) = s"
  by (simp_all add: sample_fact_def)

lemma exactPence_whole [simp]: "exactPence n 1 = Inr \<lparr>numerator = n, denominator = 1\<rparr>"
proof -
  obtain q where q: "exactPence n 1 = Inr q" "exact_ok q" "val q = of_int n" using exactPence_val [of 1 n] by auto
  then have "q = \<lparr>numerator = n, denominator = 1\<rparr>"
    by (intro exact_ok_unique) (simp_all add: exact_ok_def val_def)
  with q show ?thesis by simp
qed

lemma paid_principal:
  "principal_of_facts 1000 [sample_fact Bk_invoiced ''i'' ''900'', sample_fact Bk_settled ''s'' ''800''] =
     Inr \<lparr>numerator = 800, denominator = 1\<rparr>"
  using sumExactPence0_whole [of "[]"] sumExactPence0_whole [of "[800]"] sumExactPence0_whole [of "[900]"]
  by (simp add: principal_of_facts_def check_fact_def check_invoice_line_def check_reversals_def same_line_def
      sum_nets_def money_limit_def first_occurrences_def fact_total_def lesser_pence_def compareExactPence_def zero_pence_def)

lemma paid_gates: "fee_gate_open (sample_group paid_sample) False None paid_sample"
  "all_recorded_before None paid_sample" "canonical_of (sample_group paid_sample) = Some paid_sample"
  "counted_facts paid_sample None = [sample_fact Bk_invoiced ''i'' ''900'', sample_fact Bk_settled ''s'' ''800'']"
  "rv_netPence (ex_revision paid_sample) = Some 1000"
  by code_simp+

theorem qualifyingPrincipal_exact_witness:
  "qualifyingPrincipal (sample_group paid_sample) False None = Inr \<lparr>numerator = 800, denominator = 1\<rparr> \<and>
   exact_ok \<lparr>numerator = 800, denominator = 1\<rparr>"
proof
  have "assertParsedDuplicateGroup (sample_group paid_sample) = Inr ()" by code_simp
  then show q: "qualifyingPrincipal (sample_group paid_sample) False None = Inr \<lparr>numerator = 800, denominator = 1\<rparr>"
    by (simp add: qualifyingPrincipal_def parseEnterpriseGroup_def readEnterprise_def paid_group_ok paid_gates
        paid_principal opt_ok_def)
  show "exact_ok \<lparr>numerator = 800, denominator = 1\<rparr>" by (rule qualifyingPrincipal_exact [OF q, THEN conjunct1])
qed

end
