(* ===== verification/Enterprise_Transitions.thy ===== *)
theory Enterprise_Transitions
  imports Enterprise_Origin
begin

text \<open>
  Model of \<^verbatim>\<open>enterprise-domain/transitions.ts\<close>: the command handler \<open>transitionExtra\<close>, one
  definition per group of commands with the guards in the order of the code, and the life of an
  extra as an inductive relation: it is raised by a recording command, moved by commands, and
  between them the server may price it while it is logged, record that the work is done and record
  billing facts. The theorems give the invariant of every reachable extra and the type of every
  result.
\<close>

section \<open>Commands\<close>

fun raisingRoles :: "enterprise_command \<Rightarrow> enterprise_role list" where
  "raisingRoles LogSiteExtra = [R_operative, R_supervisor, R_surveyor]"
| "raisingRoles RecordOfficeExtra = [R_finance, R_admin, R_owner]"
| "raisingRoles RecordClientInstruction = [R_commercial_manager, R_admin, R_owner]"
| "raisingRoles ConfirmPrompt = [R_supervisor, R_surveyor, R_commercial_manager]"
| "raisingRoles ImportOrderLine = [R_surveyor, R_commercial_manager, R_connector]"
| "raisingRoles _ = []"

datatype status_kind = Sk_invoiced | Sk_credited | Sk_paid | Sk_payment_reversed | Sk_rejected

record billing_status =
  bs_kind :: status_kind
  bs_matched :: bool
  bs_remainingBilledNetPence :: int
  bs_remainingSettledNetPence :: int

record transition_input =
  ti_command :: enterprise_command
  ti_extra :: "enterprise_extra option"
  ti_creation :: enterprise_extra
  ti_actor :: enterprise_actor
  ti_expectedRevisionId :: string
  ti_expectedHash :: string
  ti_reason :: string
  ti_serverRecordedAt :: string
  ti_newRevision :: enterprise_revision
  ti_canonical :: enterprise_extra
  ti_group :: enterprise_group
  ti_billing :: billing_status
  ti_exportLineId :: string

definition enterpriseTransitionV1 :: "transition_input \<Rightarrow> bool" where
  "enterpriseTransitionV1 i \<longleftrightarrow> ti_command i \<in> set enterpriseCommands \<and> opt_ok enterpriseExtraV1 (ti_extra i) \<and>
     enterpriseExtraV1 (ti_creation i) \<and> enterpriseActorV1 (ti_actor i) \<and> sha_text (ti_expectedHash i) \<and>
     length (ti_reason i) \<le> 300 \<and> instantV1 (ti_serverRecordedAt i) \<and> enterpriseRevisionV1 (ti_newRevision i) \<and>
     enterpriseExtraV1 (ti_canonical i) \<and> enterpriseGroupV1 (ti_group i) \<and>
     amount_ok (bs_remainingBilledNetPence (ti_billing i)) \<and> amount_ok (bs_remainingSettledNetPence (ti_billing i))"

definition covers_extra :: "enterprise_actor \<Rightarrow> enterprise_extra \<Rightarrow> enterprise_role list \<Rightarrow> bool" where
  "covers_extra actor e roles = covers actor (ex_tenantId e) (ex_jobId e) roles"

text \<open>The guards \<^verbatim>\<open>permit\<close> and \<^verbatim>\<open>from\<close> of the handler.\<close>

definition permit :: "transition_input \<Rightarrow> enterprise_extra \<Rightarrow> enterprise_role list \<Rightarrow> enterprise_error + unit" where
  "permit i e roles = guard_r (covers_extra (ti_actor i) e roles) PERMISSION_DENIED"

definition from_states :: "transition_input \<Rightarrow> enterprise_extra \<Rightarrow> enterprise_state list \<Rightarrow> enterprise_error + unit" where
  "from_states i e states = guard_r (ti_extra i \<noteq> None \<and> ex_state e \<in> set states) INVALID_TRANSITION"

definition raising_grant_held :: "transition_input \<Rightarrow> enterprise_extra \<Rightarrow> bool" where
  "raising_grant_held i e \<longleftrightarrow> list_ex (\<lambda>g. eg_id g = eg_id (rc_grant (ex_raisingCommand e)) \<and>
     eg_membershipId g = ac_membershipId (ti_actor i) \<and> eg_role g = rc_role (ex_raisingCommand e) \<and>
     eg_tenantId g = ex_tenantId e \<and> eg_jobId g = ex_jobId e) (ac_grants (ti_actor i))"

definition raise_extra :: "transition_input \<Rightarrow> enterprise_extra \<Rightarrow> enterprise_error + enterprise_extra" where
  "raise_extra i e =
     (if ti_extra i \<noteq> None \<or> ex_state (ti_creation i) \<noteq> S_logged \<or> rv_approvals (ex_revision e) \<noteq> [] \<or>
         ex_exportLineId e \<noteq> None \<or> ex_exportedAt e \<noteq> None \<or> ex_billingFacts e \<noteq> [] \<or> ex_duplicateOf e \<noteq> None
      then Inl INVALID_TRANSITION
      else let roles = raisingRoles (ti_command i); actor = ti_actor i in
      bind_r (permit i e roles) (\<lambda>_.
      bind_r (originForCommand (ti_command i) Track_contractor) (\<lambda>expected.
      if vo_jobTrack (eo_origin (ex_origin e)) \<noteq> vo_jobTrack expected \<or> vo_kind (eo_origin (ex_origin e)) \<noteq> vo_kind expected \<or>
         rc_type (ex_raisingCommand e) \<noteq> ti_command i \<or> eo_raisingMembershipId (ex_origin e) \<noteq> ac_membershipId actor \<or>
         rc_actorId (ex_raisingCommand e) \<noteq> ac_membershipId actor \<or> eo_commandId (ex_origin e) \<noteq> rc_id (ex_raisingCommand e) \<or>
         \<not> raising_grant_held i e then Inl INVALID_ORIGIN
      else if ti_command i = LogSiteExtra \<and> (\<not> ac_assigned actor \<or> \<not> captureSatisfied e) then Inl INVALID_TRANSITION
      else if ti_command i = ConfirmPrompt \<and> (case ex_prompt e of None \<Rightarrow> True
           | Some p \<Rightarrow> \<not> covers_extra (pr_confirmedBy p) e roles \<or> ac_membershipId (pr_confirmedBy p) \<noteq> ac_membershipId actor)
        then Inl INVALID_ORIGIN
      else Inr (e\<lparr>ex_state := S_logged\<rparr>))))"

text \<open>\<^verbatim>\<open>requirement!\<close> after a valid snapshot.\<close>

definition required_steps :: "enterprise_extra \<Rightarrow> approval_step list" where
  "required_steps e = (case rv_requirement (ex_revision e) of None \<Rightarrow> [] | Some r \<Rightarrow> rq_steps r)"

definition submit_extra :: "transition_input \<Rightarrow> enterprise_extra \<Rightarrow> enterprise_error + enterprise_extra" where
  "submit_extra i e = bind_r (from_states i e [S_logged]) (\<lambda>_.
     let operative = covers_extra (ti_actor i) e [R_operative] \<and>
           ac_membershipId (ti_actor i) = eo_raisingMembershipId (ex_origin e) \<and> rv_priceSource (ex_revision e) = Server_sor in
     bind_r (if operative then Inr () else permit i e [R_supervisor, R_surveyor]) (\<lambda>_.
     if \<not> approvalSnapshotValid e False then Inl INVALID_TRANSITION
     else if length (required_steps e) = 1 \<and> st_role (required_steps e ! 0) = R_contract_rule \<and> approvalSnapshotValid e True
       then Inr (e\<lparr>ex_state := S_approved\<rparr>)
     else if rv_approvals (ex_revision e) \<noteq> [] then Inl INVALID_TRANSITION
     else Inr (e\<lparr>ex_state := S_awaiting_approval\<rparr>)))"

definition approval_of :: "transition_input \<Rightarrow> enterprise_extra \<Rightarrow> enterprise_requirement \<Rightarrow> int \<Rightarrow> enterprise_grant \<Rightarrow> enterprise_approval" where
  "approval_of i e requirement netPence grant =
     \<lparr>ap_index = length (rv_approvals (ex_revision e)), ap_revisionId = rv_id (ex_revision e), ap_hash = rv_hash (ex_revision e),
      ap_netPence = netPence, ap_ruleVersion = rq_ruleVersion requirement, ap_actorId = ac_membershipId (ti_actor i),
      ap_grant = Some grant, ap_role = eg_role grant, ap_timing = (if ex_workDone e then After_work else Before_work),
      ap_serverRecordedAt = ti_serverRecordedAt i\<rparr>"

text \<open>
  Recording one approval: the grant is found because \<open>permit\<close> held, and requirement and price are
  present because the snapshot is valid.
\<close>

definition record_approval :: "transition_input \<Rightarrow> enterprise_extra \<Rightarrow> enterprise_role list \<Rightarrow> enterprise_error + enterprise_extra" where
  "record_approval i e roles =
     (case (rv_requirement (ex_revision e), rv_netPence (ex_revision e),
        find (covering_grant (ti_actor i) (ex_tenantId e) (ex_jobId e) roles) (ac_grants (ti_actor i))) of
        (Some requirement, Some netPence, Some grant) \<Rightarrow>
          (let approvals = rv_approvals (ex_revision e) @ [approval_of i e requirement netPence grant] in
           Inr (e\<lparr>ex_revision := (ex_revision e)\<lparr>rv_approvals := approvals\<rparr>,
              ex_state := (if length approvals = length (rq_steps requirement) then S_approved else S_awaiting_approval)\<rparr>))
      | _ \<Rightarrow> Inl Js_type_error)"

definition decide_extra :: "transition_input \<Rightarrow> enterprise_extra \<Rightarrow> enterprise_error + enterprise_extra" where
  "decide_extra i e = bind_r (from_states i e [S_awaiting_approval]) (\<lambda>_.
     let approvals = rv_approvals (ex_revision e); steps = required_steps e; index = length approvals in
     if \<not> approvalSnapshotValid e False \<or> index = length steps then Inl INVALID_TRANSITION
     else let required = steps ! index in
     if st_role required = R_contract_rule then Inl PERMISSION_DENIED
     else let roles = st_role required # st_alternates required in
     bind_r (permit i e roles) (\<lambda>_.
     if ac_membershipId (ti_actor i) = eo_raisingMembershipId (ex_origin e) then Inl SELF_APPROVAL
     else if list_ex (\<lambda>step. ap_actorId step = ac_membershipId (ti_actor i)) approvals then Inl REUSED_APPROVER
     else if ti_command i = RejectExtra then
       (if blank_text (ti_reason i) then Inl INVALID_TRANSITION else Inr (e\<lparr>ex_state := S_rejected\<rparr>))
     else record_approval i e roles))"

definition withdraw_extra :: "transition_input \<Rightarrow> enterprise_extra \<Rightarrow> enterprise_error + enterprise_extra" where
  "withdraw_extra i e = bind_r (from_states i e [S_logged, S_awaiting_approval, S_approved]) (\<lambda>_.
     if \<not> covers_extra (ti_actor i) e [R_supervisor, R_surveyor, R_commercial_manager] \<and>
        (\<not> covers_extra (ti_actor i) e enterpriseRoles \<or>
         ac_membershipId (ti_actor i) \<noteq> eo_raisingMembershipId (ex_origin e) \<or> rv_approvals (ex_revision e) \<noteq> [])
       then Inl PERMISSION_DENIED
     else if ex_exportLineId e \<noteq> None \<or>
        ti_reason i \<notin> set [''not_done'', ''raised_in_error'', ''resident_cancelled'', ''already_on_order''] then Inl INVALID_TRANSITION
     else Inr (e\<lparr>ex_state := S_withdrawn\<rparr>))"

definition mark_duplicate :: "transition_input \<Rightarrow> enterprise_extra \<Rightarrow> enterprise_error + enterprise_extra" where
  "mark_duplicate i e = bind_r (from_states i e [S_logged, S_awaiting_approval, S_approved, S_rejected]) (\<lambda>_.
     bind_r (permit i e [R_supervisor, R_surveyor, R_commercial_manager]) (\<lambda>_.
     let canonical = ti_canonical i in
     bind_r (assertExtraProvenance canonical) (\<lambda>_.
     if ex_exportLineId e \<noteq> None \<or> ex_exportLineId canonical \<noteq> None \<or> ex_id canonical = ex_id e \<or>
        ex_tenantId canonical \<noteq> ex_tenantId e \<or> ex_jobId canonical \<noteq> ex_jobId e \<or>
        ex_duplicateOf canonical \<noteq> None \<or> ex_state canonical = S_duplicate then Inl INVALID_DUPLICATE_GROUP
     else Inr (e\<lparr>ex_duplicateOf := Some (ex_id canonical), ex_state := S_duplicate\<rparr>))))"

definition revise_extra :: "transition_input \<Rightarrow> enterprise_extra \<Rightarrow> enterprise_error + enterprise_extra" where
  "revise_extra i e = bind_r (from_states i e [S_approved, S_rejected]) (\<lambda>_.
     bind_r (permit i e [R_supervisor, R_surveyor]) (\<lambda>_.
     let revision = ti_newRevision i in
     if ex_exportLineId e \<noteq> None \<or> rv_id revision = rv_id (ex_revision e) \<or> rv_hash revision = rv_hash (ex_revision e) \<or>
        rv_approvals revision \<noteq> [] \<or> \<not> approvalSnapshotValid (e\<lparr>ex_revision := revision\<rparr>) False then Inl INVALID_TRANSITION
     else Inr (e\<lparr>ex_revision := revision, ex_state := S_awaiting_approval\<rparr>)))"

definition finalise_export :: "transition_input \<Rightarrow> enterprise_extra \<Rightarrow> enterprise_error + enterprise_extra" where
  "finalise_export i e = bind_r (from_states i e [S_approved]) (\<lambda>_.
     bind_r (permit i e [R_finance, R_commercial_manager]) (\<lambda>_.
     let g = ti_group i in
     bind_r (assertDuplicateGroup g) (\<lambda>_.
     case canonical_of g of None \<Rightarrow> Inl Js_type_error
     | Some canonical \<Rightarrow>
       if gr_canonicalId g \<noteq> ex_id e \<or> gr_tenantId g \<noteq> ex_tenantId e \<or> gr_jobId g \<noteq> ex_jobId e \<or>
          rv_id (ex_revision canonical) \<noteq> rv_id (ex_revision e) \<or> rv_hash (ex_revision canonical) \<noteq> rv_hash (ex_revision e) \<or>
          gr_unresolvedCandidateIds g \<noteq> [] \<or> ex_duplicateOf e \<noteq> None \<or> \<not> approvalSnapshotValid e True
       then Inl INVALID_TRANSITION
       else Inr (e\<lparr>ex_exportLineId := Some (ti_exportLineId i), ex_exportedAt := Some (ti_serverRecordedAt i),
              ex_state := S_exported\<rparr>))))"

text \<open>The state the billing system's status moves an extra to.\<close>

definition billed_state :: "transition_input \<Rightarrow> enterprise_extra \<Rightarrow> enterprise_error + enterprise_state" where
  "billed_state i e =
     (let billed = bs_remainingBilledNetPence (ti_billing i); settled = bs_remainingSettledNetPence (ti_billing i) in
      case bs_kind (ti_billing i) of
        Sk_rejected \<Rightarrow> bind_r (from_states i e [S_exported]) (\<lambda>_. Inr S_billing_rejected)
      | Sk_invoiced \<Rightarrow> bind_r (from_states i e [S_exported, S_billed]) (\<lambda>_.
          if billed = 0 then Inl INVALID_TRANSITION else Inr S_billed)
      | Sk_credited \<Rightarrow> bind_r (from_states i e [S_billed, S_part_paid, S_paid]) (\<lambda>_.
          Inr (if billed = 0 then S_credited else ex_state e))
      | Sk_payment_reversed \<Rightarrow> bind_r (from_states i e [S_part_paid, S_paid]) (\<lambda>_.
          if settled \<ge> billed then Inl INVALID_TRANSITION else Inr (if settled = 0 then S_billed else S_part_paid))
      | Sk_paid \<Rightarrow> bind_r (from_states i e [S_billed, S_part_paid, S_paid]) (\<lambda>_.
          if settled \<le> 0 \<or> settled > billed then Inl INVALID_TRANSITION
          else Inr (if settled = billed then S_paid else S_part_paid)))"

definition import_billing :: "transition_input \<Rightarrow> enterprise_extra \<Rightarrow> enterprise_error + enterprise_extra" where
  "import_billing i e = bind_r (from_states i e [S_exported, S_billed, S_part_paid, S_paid]) (\<lambda>_.
     bind_r (permit i e [R_finance, R_connector]) (\<lambda>_.
     if \<not> bs_matched (ti_billing i) \<or> ex_exportLineId e = None \<or> ex_duplicateOf e \<noteq> None then Inl INVALID_ALLOCATION_FACTS
     else bind_r (billed_state i e) (\<lambda>state.
       Inr (e\<lparr>ex_billingBalances := Some \<lparr>bb_billedNetPence = bs_remainingBilledNetPence (ti_billing i),
                bb_settledNetPence = bs_remainingSettledNetPence (ti_billing i)\<rparr>, ex_state := state\<rparr>))))"

definition dispatch :: "transition_input \<Rightarrow> enterprise_extra \<Rightarrow> enterprise_error + enterprise_extra" where
  "dispatch i e =
     (if ti_command i \<in> set [LogSiteExtra, ConfirmPrompt, RecordOfficeExtra, RecordClientInstruction, ImportOrderLine]
      then raise_extra i e
      else case ti_command i of
        SubmitExtra \<Rightarrow> submit_extra i e
      | PriceExtra \<Rightarrow> submit_extra i e
      | ApproveExtraStep \<Rightarrow> decide_extra i e
      | RejectExtra \<Rightarrow> decide_extra i e
      | WithdrawExtra \<Rightarrow> withdraw_extra i e
      | MarkDuplicate \<Rightarrow> mark_duplicate i e
      | ReviseExtra \<Rightarrow> revise_extra i e
      | FinaliseExportBatch \<Rightarrow> finalise_export i e
      | ImportBillingStatus \<Rightarrow> import_billing i e
      | _ \<Rightarrow> Inl INVALID_TRANSITION)"

definition subject_of :: "transition_input \<Rightarrow> enterprise_extra" where
  "subject_of i = (case ti_extra i of None \<Rightarrow> ti_creation i | Some e \<Rightarrow> e)"

definition transitionExtra :: "transition_input \<Rightarrow> enterprise_error + enterprise_extra" where
  "transitionExtra raw = bind_r (readEnterprise enterpriseTransitionV1 raw INVALID_ENTERPRISE_FACTS) (\<lambda>i.
     let e = subject_of i in
     bind_r (assertExtraProvenance e) (\<lambda>_.
     if vo_jobTrack (eo_origin (ex_origin e)) \<noteq> Track_contractor then Inl INVALID_TRANSITION
     else if ti_expectedRevisionId i \<noteq> rv_id (ex_revision e) \<or> ti_expectedHash i \<noteq> rv_hash (ex_revision e) then Inl STALE_REVISION
     else dispatch i e))"

section \<open>The snapshot depends on the revision and the evidence only\<close>

lemma step_fits_update [simp]:
  "step_fits (e\<lparr>ex_state := s\<rparr>) = step_fits e"
  "step_fits (e\<lparr>ex_duplicateOf := d\<rparr>) = step_fits e"
  "step_fits (e\<lparr>ex_billingBalances := b\<rparr>) = step_fits e"
  "step_fits (e\<lparr>ex_workDone := w\<rparr>) = step_fits e"
  "step_fits (e\<lparr>ex_exportedAt := t\<rparr>) = step_fits e"
  "step_fits (e\<lparr>ex_exportLineId := l\<rparr>) = step_fits e"
  "step_fits (e\<lparr>ex_billingFacts := fs\<rparr>) = step_fits e"
  "step_fits (e\<lparr>ex_revision := (ex_revision e)\<lparr>rv_approvals := as\<rparr>\<rparr>) = step_fits e"
  by (intro ext, simp add: step_fits_def Let_def cong: option.case_cong)+

lemma steps_valid_same_fits: "step_fits e = step_fits e' \<Longrightarrow> steps_valid e rq k actors as = steps_valid e' rq k actors as"
  by (induction as arbitrary: k actors) simp_all

lemma photo_bound_update [simp]:
  "photo_bound (e\<lparr>ex_state := s\<rparr>) = photo_bound e"
  "photo_bound (e\<lparr>ex_duplicateOf := d\<rparr>) = photo_bound e"
  "photo_bound (e\<lparr>ex_billingBalances := b\<rparr>) = photo_bound e"
  "photo_bound (e\<lparr>ex_workDone := w\<rparr>) = photo_bound e"
  "photo_bound (e\<lparr>ex_exportedAt := t\<rparr>) = photo_bound e"
  "photo_bound (e\<lparr>ex_exportLineId := l\<rparr>) = photo_bound e"
  "photo_bound (e\<lparr>ex_billingFacts := fs\<rparr>) = photo_bound e"
  "photo_bound (e\<lparr>ex_revision := r\<rparr>) = photo_bound e"
  by (simp_all add: photo_bound_def)

lemma snapshot_same:
  assumes "step_fits e' = step_fits e" "ex_revision e' = ex_revision e" "photo_bound e' = photo_bound e"
    "ex_residentCaptured e' = ex_residentCaptured e" "ex_residentConfirmationHash e' = ex_residentConfirmationHash e"
  shows "approvalSnapshotValid e' b = approvalSnapshotValid e b"
  using assms steps_valid_same_fits [OF assms(1)] by (simp add: approvalSnapshotValid_def Let_def cong: option.case_cong)

lemma snapshot_update [simp]:
  "approvalSnapshotValid (e\<lparr>ex_state := s\<rparr>) = approvalSnapshotValid e"
  "approvalSnapshotValid (e\<lparr>ex_duplicateOf := d\<rparr>) = approvalSnapshotValid e"
  "approvalSnapshotValid (e\<lparr>ex_billingBalances := b\<rparr>) = approvalSnapshotValid e"
  "approvalSnapshotValid (e\<lparr>ex_workDone := w\<rparr>) = approvalSnapshotValid e"
  "approvalSnapshotValid (e\<lparr>ex_exportedAt := t\<rparr>) = approvalSnapshotValid e"
  "approvalSnapshotValid (e\<lparr>ex_exportLineId := l\<rparr>) = approvalSnapshotValid e"
  "approvalSnapshotValid (e\<lparr>ex_billingFacts := fs\<rparr>) = approvalSnapshotValid e"
  by (intro ext, rule snapshot_same; simp)+

lemma snapshot_complete_partial: "approvalSnapshotValid e True \<Longrightarrow> approvalSnapshotValid e b"
  by (auto simp: approvalSnapshotValid_def Let_def split: option.splits)

lemma steps_valid_append: "steps_valid e rq k actors (as @ [a]) \<longleftrightarrow>
  steps_valid e rq k actors as \<and> step_fits e rq (k + length as) a \<and> ap_actorId a \<notin> set actors \<union> ap_actorId ` set as"
  by (induction as arbitrary: k actors) auto

lemma steps_valid_iff: "steps_valid e rq k actors as \<longleftrightarrow>
  (\<forall>j<length as. step_fits e rq (k + j) (as ! j)) \<and> distinct (map ap_actorId as) \<and> ap_actorId ` set as \<inter> set actors = {}"
proof (induction as rule: rev_induct)
  case (snoc a as)
  then show ?case by (auto simp: steps_valid_append nth_append less_Suc_eq)
qed simp

section \<open>Successful commands\<close>

definition open_states :: "enterprise_state list" where
  "open_states = [S_logged, S_awaiting_approval, S_approved, S_rejected]"

text \<open>What each successful command does, with the guards later proofs use.\<close>

inductive extra_step :: "transition_input \<Rightarrow> enterprise_extra \<Rightarrow> enterprise_extra \<Rightarrow> bool" for i e where
  raised: "\<lbrakk>ti_extra i = None; ex_state e = S_logged; rv_approvals (ex_revision e) = []; ex_exportLineId e = None;
     ex_exportedAt e = None; ex_duplicateOf e = None; covers_extra (ti_actor i) e (raisingRoles (ti_command i))\<rbrakk>
   \<Longrightarrow> extra_step i e (e\<lparr>ex_state := S_logged\<rparr>)"
| submitted: "\<lbrakk>ex_state e = S_logged; approvalSnapshotValid e (s = S_approved); s = S_approved \<or> s = S_awaiting_approval\<rbrakk>
   \<Longrightarrow> extra_step i e (e\<lparr>ex_state := s\<rparr>)"
| approved: "\<lbrakk>ex_state e = S_awaiting_approval; approvalSnapshotValid e False; rv_requirement (ex_revision e) = Some rq;
     rv_netPence (ex_revision e) = Some n; length (rv_approvals (ex_revision e)) \<noteq> length (rq_steps rq);
     st_role (rq_steps rq ! length (rv_approvals (ex_revision e))) \<noteq> R_contract_rule;
     covering_grant (ti_actor i) (ex_tenantId e) (ex_jobId e) (st_role (rq_steps rq ! length (rv_approvals (ex_revision e)))
       # st_alternates (rq_steps rq ! length (rv_approvals (ex_revision e)))) g; g \<in> set (ac_grants (ti_actor i));
     ac_membershipId (ti_actor i) \<noteq> eo_raisingMembershipId (ex_origin e);
     ac_membershipId (ti_actor i) \<notin> ap_actorId ` set (rv_approvals (ex_revision e));
     as = rv_approvals (ex_revision e) @ [approval_of i e rq n g]\<rbrakk>
   \<Longrightarrow> extra_step i e (e\<lparr>ex_revision := (ex_revision e)\<lparr>rv_approvals := as\<rparr>,
         ex_state := (if length as = length (rq_steps rq) then S_approved else S_awaiting_approval)\<rparr>)"
| rejected: "ex_state e = S_awaiting_approval \<Longrightarrow> extra_step i e (e\<lparr>ex_state := S_rejected\<rparr>)"
| withdrawn: "\<lbrakk>ex_state e \<in> set [S_logged, S_awaiting_approval, S_approved]; ex_exportLineId e = None\<rbrakk>
   \<Longrightarrow> extra_step i e (e\<lparr>ex_state := S_withdrawn\<rparr>)"
| duplicated: "\<lbrakk>ex_state e \<in> set open_states; ex_exportLineId e = None; c \<noteq> ex_id e\<rbrakk>
   \<Longrightarrow> extra_step i e (e\<lparr>ex_duplicateOf := Some c, ex_state := S_duplicate\<rparr>)"
| revised: "\<lbrakk>ex_state e \<in> set [S_approved, S_rejected]; ex_exportLineId e = None; rv_approvals (ti_newRevision i) = [];
     approvalSnapshotValid (e\<lparr>ex_revision := ti_newRevision i\<rparr>) False\<rbrakk>
   \<Longrightarrow> extra_step i e (e\<lparr>ex_revision := ti_newRevision i, ex_state := S_awaiting_approval\<rparr>)"
| exported: "\<lbrakk>ex_state e = S_approved; ex_duplicateOf e = None; approvalSnapshotValid e True\<rbrakk>
   \<Longrightarrow> extra_step i e (e\<lparr>ex_exportLineId := Some (ti_exportLineId i), ex_exportedAt := Some (ti_serverRecordedAt i), ex_state := S_exported\<rparr>)"
| billed: "\<lbrakk>ex_state e \<in> set [S_exported, S_billed, S_part_paid, S_paid]; ex_exportLineId e \<noteq> None; ex_duplicateOf e = None;
     billed_state i e = Inr s\<rbrakk>
   \<Longrightarrow> extra_step i e (e\<lparr>ex_billingBalances := Some \<lparr>bb_billedNetPence = bs_remainingBilledNetPence (ti_billing i),
         bb_settledNetPence = bs_remainingSettledNetPence (ti_billing i)\<rparr>, ex_state := s\<rparr>)"

lemma permit_Inr_iff [result_simps]: "permit i e roles = Inr u \<longleftrightarrow> covers_extra (ti_actor i) e roles"
  by (simp add: permit_def guard_r_Inr_iff)

lemma from_states_Inr_iff [result_simps]: "from_states i e ss = Inr u \<longleftrightarrow> ti_extra i \<noteq> None \<and> ex_state e \<in> set ss"
  by (simp add: from_states_def guard_r_Inr_iff)

lemma raise_extra_step:
  assumes "raise_extra i e = Inr e'" and "e = subject_of i"
  shows "extra_step i e e'"
proof -
  from assms(1) have "ti_extra i = None" "ex_state (ti_creation i) = S_logged" "rv_approvals (ex_revision e) = []"
    "ex_exportLineId e = None" "ex_exportedAt e = None" "ex_duplicateOf e = None"
    "covers_extra (ti_actor i) e (raisingRoles (ti_command i))" "e' = e\<lparr>ex_state := S_logged\<rparr>"
    unfolding raise_extra_def Let_def bind_r_Inr_iff if_Inl_Inr_iff permit_Inr_iff by blast+
  with assms(2) show ?thesis by (simp add: raised subject_of_def)
qed

lemma submit_extra_step:
  assumes "submit_extra i e = Inr e'"
  shows "extra_step i e e'"
proof -
  from assms have "ex_state e = S_logged" "approvalSnapshotValid e False" and
    "(if length (required_steps e) = 1 \<and> st_role (required_steps e ! 0) = R_contract_rule \<and> approvalSnapshotValid e True
       then Inr (e\<lparr>ex_state := S_approved\<rparr>)
     else if rv_approvals (ex_revision e) \<noteq> [] then Inl INVALID_TRANSITION
     else Inr (e\<lparr>ex_state := S_awaiting_approval\<rparr>)) = Inr e'"
    unfolding submit_extra_def Let_def bind_r_Inr_iff if_Inl_Inr_iff from_states_Inr_iff by (simp_all add: if_Inl_Inr_iff)
  then show ?thesis using submitted [of e S_approved i] submitted [of e S_awaiting_approval i]
    by (simp split: if_splits)
qed

lemma record_approval_InrD:
  assumes "record_approval i e roles = Inr e'"
  obtains rq n g as where "rv_requirement (ex_revision e) = Some rq" "rv_netPence (ex_revision e) = Some n"
    "g \<in> set (ac_grants (ti_actor i))" "covering_grant (ti_actor i) (ex_tenantId e) (ex_jobId e) roles g"
    "as = rv_approvals (ex_revision e) @ [approval_of i e rq n g]"
    "e' = e\<lparr>ex_revision := (ex_revision e)\<lparr>rv_approvals := as\<rparr>,
       ex_state := (if length as = length (rq_steps rq) then S_approved else S_awaiting_approval)\<rparr>"
proof -
  from assms obtain rq n g where o: "rv_requirement (ex_revision e) = Some rq" "rv_netPence (ex_revision e) = Some n"
    and f: "find (covering_grant (ti_actor i) (ex_tenantId e) (ex_jobId e) roles) (ac_grants (ti_actor i)) = Some g"
    unfolding record_approval_def by (auto split: option.splits)
  from f have "g \<in> set (ac_grants (ti_actor i))" "covering_grant (ti_actor i) (ex_tenantId e) (ex_jobId e) roles g"
    by (auto simp: find_Some_iff)
  from that [OF o this refl] show thesis using assms unfolding record_approval_def o f by (simp add: Let_def)
qed

lemma decide_extra_step:
  assumes "decide_extra i e = Inr e'"
  shows "extra_step i e e'"
proof -
  let ?k = "length (rv_approvals (ex_revision e))"
  let ?roles = "st_role (required_steps e ! ?k) # st_alternates (required_steps e ! ?k)"
  from assms have c: "ex_state e = S_awaiting_approval" "approvalSnapshotValid e False" "?k \<noteq> length (required_steps e)"
    "st_role (required_steps e ! ?k) \<noteq> R_contract_rule"
    "ac_membershipId (ti_actor i) \<noteq> eo_raisingMembershipId (ex_origin e)"
    "\<not> list_ex (\<lambda>step. ap_actorId step = ac_membershipId (ti_actor i)) (rv_approvals (ex_revision e))" and
    d: "(if ti_command i = RejectExtra then
       (if blank_text (ti_reason i) then Inl INVALID_TRANSITION else Inr (e\<lparr>ex_state := S_rejected\<rparr>))
     else record_approval i e ?roles) = Inr e'"
    unfolding decide_extra_def Let_def bind_r_Inr_iff if_Inl_Inr_iff from_states_Inr_iff by simp_all
  show ?thesis
  proof (cases "ti_command i = RejectExtra")
    case True
    with d have "e' = e\<lparr>ex_state := S_rejected\<rparr>" by (simp split: if_splits)
    with c(1) show ?thesis by (simp add: rejected)
  next
    case False
    with d have "record_approval i e ?roles = Inr e'" by simp
    then obtain rq n g as where r: "rv_requirement (ex_revision e) = Some rq" "rv_netPence (ex_revision e) = Some n"
      "g \<in> set (ac_grants (ti_actor i))" "covering_grant (ti_actor i) (ex_tenantId e) (ex_jobId e) ?roles g"
      "as = rv_approvals (ex_revision e) @ [approval_of i e rq n g]"
      "e' = e\<lparr>ex_revision := (ex_revision e)\<lparr>rv_approvals := as\<rparr>,
         ex_state := (if length as = length (rq_steps rq) then S_approved else S_awaiting_approval)\<rparr>"
      by (rule record_approval_InrD)
    have s: "required_steps e = rq_steps rq" using r(1) by (simp add: required_steps_def)
    from c(6) have "ac_membershipId (ti_actor i) \<notin> ap_actorId ` set (rv_approvals (ex_revision e))"
      by (auto simp: list_ex_iff)
    then show ?thesis unfolding r(6)
      by (intro extra_step.approved [OF c(1,2) r(1,2) _ _ _ r(3) c(5) _ r(5)]) (use c(3,4) r(4) s in simp_all)
  qed
qed

lemma other_commands_step:
  "withdraw_extra i e = Inr e' \<Longrightarrow> extra_step i e e'"
  "mark_duplicate i e = Inr e' \<Longrightarrow> extra_step i e e'"
  "revise_extra i e = Inr e' \<Longrightarrow> extra_step i e e'"
  "finalise_export i e = Inr e' \<Longrightarrow> extra_step i e e'"
  "import_billing i e = Inr e' \<Longrightarrow> extra_step i e e'"
proof -
  show "withdraw_extra i e = Inr e' \<Longrightarrow> extra_step i e e'"
    unfolding withdraw_extra_def bind_r_Inr_iff if_Inl_Inr_iff from_states_Inr_iff
    using withdrawn [of e i] by (elim exE conjE) auto
  show "mark_duplicate i e = Inr e' \<Longrightarrow> extra_step i e e'"
    unfolding mark_duplicate_def bind_r_Inr_iff if_Inl_Inr_iff from_states_Inr_iff Let_def
    using duplicated [of e "ex_id (ti_canonical i)" i] by (elim exE conjE) (simp add: open_states_def)
  show "revise_extra i e = Inr e' \<Longrightarrow> extra_step i e e'"
    unfolding revise_extra_def bind_r_Inr_iff if_Inl_Inr_iff from_states_Inr_iff Let_def
    using revised [of e i] by (elim exE conjE) simp
  show "finalise_export i e = Inr e' \<Longrightarrow> extra_step i e e'"
    unfolding finalise_export_def bind_r_Inr_iff if_Inl_Inr_iff from_states_Inr_iff Let_def
    using exported [of e i] by (elim exE conjE) (simp split: option.splits if_splits)
  show "import_billing i e = Inr e' \<Longrightarrow> extra_step i e e'"
    unfolding import_billing_def bind_r_Inr_iff if_Inl_Inr_iff from_states_Inr_iff
    using billed [of e i] by (elim exE conjE) simp
qed

lemma dispatch_step:
  assumes "dispatch i e = Inr e'" "e = subject_of i"
  shows "extra_step i e e'"
  using assms raise_extra_step [of i e e'] submit_extra_step [of i e e'] decide_extra_step [of i e e'] other_commands_step [of i e e']
  unfolding dispatch_def by (cases "ti_command i") simp_all

lemma transitionExtra_InrD:
  assumes "transitionExtra i = Inr e'"
  shows "enterpriseTransitionV1 i" "assertExtraProvenance (subject_of i) = Inr ()"
    "ti_expectedRevisionId i = rv_id (ex_revision (subject_of i))" "ti_expectedHash i = rv_hash (ex_revision (subject_of i))"
    "extra_step i (subject_of i) e'"
  using assms dispatch_step [of i "subject_of i" e']
  unfolding transitionExtra_def readEnterprise_Inr_iff bind_r_Inr_iff if_Inl_Inr_iff Let_def by auto

section \<open>The invariant of an extra\<close>

definition exported_states :: "enterprise_state list" where
  "exported_states = [S_exported, S_billed, S_part_paid, S_paid, S_credited, S_billing_rejected]"

definition extra_sound :: "enterprise_extra \<Rightarrow> bool" where
  "extra_sound e \<longleftrightarrow>
     (ex_state e = S_approved \<or> ex_state e \<in> set exported_states \<longrightarrow> approvalSnapshotValid e True) \<and>
     (ex_state e = S_awaiting_approval \<longrightarrow> approvalSnapshotValid e False) \<and>
     (ex_state e = S_duplicate \<longleftrightarrow> ex_duplicateOf e \<noteq> None) \<and> ex_duplicateOf e \<noteq> Some (ex_id e) \<and>
     (ex_state e \<in> set exported_states \<longleftrightarrow> ex_exportLineId e \<noteq> None) \<and>
     (ex_exportLineId e = None \<longleftrightarrow> ex_exportedAt e = None) \<and>
     (ex_state e \<in> set billedStates \<longrightarrow> (\<exists>b. ex_billingBalances e = Some b \<and> 0 < bb_billedNetPence b)) \<and>
     (ex_state e = S_credited \<longrightarrow> (\<exists>b. ex_billingBalances e = Some b \<and> bb_billedNetPence b = 0))"

text \<open>
  The life of an extra. Commands move it; while it is logged the server may give it a priced revision
  without approvals, and at any time record that the work is done or the billing facts.
\<close>

inductive extra_reachable :: "enterprise_extra \<Rightarrow> bool" where
  created: "ti_extra i = None \<Longrightarrow> transitionExtra i = Inr e \<Longrightarrow> extra_reachable e"
| moved: "extra_reachable e \<Longrightarrow> ti_extra i = Some e \<Longrightarrow> transitionExtra i = Inr e' \<Longrightarrow> extra_reachable e'"
| repriced: "extra_reachable e \<Longrightarrow> ex_state e = S_logged \<Longrightarrow> rv_approvals r = [] \<Longrightarrow> extra_reachable (e\<lparr>ex_revision := r\<rparr>)"
| worked: "extra_reachable e \<Longrightarrow> extra_reachable (e\<lparr>ex_workDone := w\<rparr>)"
| reported: "extra_reachable e \<Longrightarrow> extra_reachable (e\<lparr>ex_billingFacts := fs\<rparr>)"

inductive_cases extra_stepE: "extra_step i e e'"

lemma billed_state_InrD:
  assumes "billed_state i e = Inr s" "0 \<le> bs_remainingBilledNetPence (ti_billing i)"
    "0 \<le> bs_remainingSettledNetPence (ti_billing i)"
  shows "(s = S_billing_rejected \<and> ex_state e = S_exported) \<or>
    (s = S_credited \<and> ex_state e \<in> set billedStates \<and> bs_remainingBilledNetPence (ti_billing i) = 0) \<or>
    (s \<in> set billedStates \<and> 0 < bs_remainingBilledNetPence (ti_billing i) \<and>
      (ex_state e \<in> set billedStates \<or> s = S_billed \<and> ex_state e = S_exported))"
proof (cases "bs_kind (ti_billing i)")
  case Sk_credited
  with assms show ?thesis by (auto simp: billed_state_def result_simps billedStates_def split: if_splits)
qed (use assms in \<open>auto simp: billed_state_def result_simps billedStates_def Let_def split: if_splits\<close>)

lemma extra_sound_update [simp]:
  "extra_sound (e\<lparr>ex_workDone := w\<rparr>) = extra_sound e" "extra_sound (e\<lparr>ex_billingFacts := fs\<rparr>) = extra_sound e"
  by (simp_all add: extra_sound_def)

lemma snapshot_approved:
  assumes v: "approvalSnapshotValid e False" and rq: "rv_requirement (ex_revision e) = Some rq"
    and n: "rv_netPence (ex_revision e) = Some n" and short: "length (rv_approvals (ex_revision e)) \<noteq> length (rq_steps rq)"
    and human: "st_role (rq_steps rq ! length (rv_approvals (ex_revision e))) \<noteq> R_contract_rule"
    and g: "covering_grant (ti_actor i) (ex_tenantId e) (ex_jobId e) (st_role (rq_steps rq ! length (rv_approvals (ex_revision e)))
       # st_alternates (rq_steps rq ! length (rv_approvals (ex_revision e)))) g"
    and other: "ac_membershipId (ti_actor i) \<noteq> eo_raisingMembershipId (ex_origin e)"
      "ac_membershipId (ti_actor i) \<notin> ap_actorId ` set (rv_approvals (ex_revision e))"
    and as: "as = rv_approvals (ex_revision e) @ [approval_of i e rq n g]"
  shows "approvalSnapshotValid (e\<lparr>ex_revision := (ex_revision e)\<lparr>rv_approvals := as\<rparr>\<rparr>) (length as = length (rq_steps rq))"
proof -
  let ?e = "e\<lparr>ex_revision := (ex_revision e)\<lparr>rv_approvals := as\<rparr>\<rparr>"
  have old: "priced (ex_revision e)" "length (rv_approvals (ex_revision e)) \<le> length (rq_steps rq)"
    "rq_photoRequired rq \<longrightarrow> photo_bound e"
    "rq_residentRequired rq \<or> ex_residentCaptured e \<longrightarrow> ex_residentConfirmationHash e \<noteq> None"
    "steps_valid e rq 0 [] (rv_approvals (ex_revision e))"
    using v rq by (simp_all add: approvalSnapshotValid_def Let_def)
  have "step_fits e rq (length (rv_approvals (ex_revision e))) (approval_of i e rq n g)"
    using human g other(1) n by (auto simp: step_fits_def approval_of_def covering_grant_def Let_def)
  then have "steps_valid e rq 0 [] as" using old(5) other(2) by (simp add: as steps_valid_append approval_of_def)
  then have "steps_valid ?e rq 0 [] as" by (subst steps_valid_same_fits [of ?e e]) simp_all
  moreover have "priced (ex_revision ?e)" using old(1) by (simp add: priced_def)
  moreover have "length as \<le> length (rq_steps rq)" using old(2) short by (simp add: as)
  ultimately show ?thesis using old rq by (simp add: approvalSnapshotValid_def Let_def)
qed


lemma extra_sound_parts:
  assumes "extra_sound e"
  shows "ex_state e \<notin> set exported_states \<Longrightarrow> ex_exportLineId e = None \<and> ex_exportedAt e = None"
    and "ex_state e \<noteq> S_duplicate \<Longrightarrow> ex_duplicateOf e = None"
    and "ex_exportLineId e = None \<longleftrightarrow> ex_exportedAt e = None"
    and "ex_state e \<in> set exported_states \<Longrightarrow> approvalSnapshotValid e True"
  using assms by (auto simp: extra_sound_def)

lemmas state_lists = exported_states_def billedStates_def open_states_def

lemma extra_step_sound:
  assumes step: "extra_step i e e'" and e: "extra_sound e" and v: "enterpriseTransitionV1 i"
  shows "extra_sound e'"
  using step
proof (cases rule: extra_step.cases)
  case raised
  then show ?thesis by (simp add: extra_sound_def state_lists)
next
  case (submitted s)
  with extra_sound_parts [OF e] show ?thesis by (elim disjE) (simp_all add: extra_sound_def state_lists)
next
  case (approved rq n g as)
  have "approvalSnapshotValid e' (length as = length (rq_steps rq))"
    using snapshot_approved [OF approved(3-6) approved(7,8) approved(10-12)] by (simp add: approved(1))
  moreover have "ex_exportLineId e' = None" "ex_exportedAt e' = None" "ex_duplicateOf e' = None"
    using extra_sound_parts [OF e] approved(2) by (simp_all add: approved(1) state_lists)
  moreover have "ex_state e' = (if length as = length (rq_steps rq) then S_approved else S_awaiting_approval)"
    by (simp add: approved(1))
  ultimately show ?thesis by (simp add: extra_sound_def state_lists split: if_splits)
next
  case rejected
  with extra_sound_parts [OF e] show ?thesis by (simp add: extra_sound_def state_lists)
next
  case withdrawn
  with extra_sound_parts [OF e] have "ex_exportedAt e = None" "ex_duplicateOf e = None" by (auto simp: state_lists)
  with withdrawn show ?thesis by (simp add: extra_sound_def state_lists)
next
  case (duplicated c)
  with extra_sound_parts [OF e] have "ex_exportedAt e = None" by (auto simp: state_lists)
  with duplicated show ?thesis by (simp add: extra_sound_def state_lists)
next
  case revised
  with extra_sound_parts [OF e] have "ex_exportedAt e = None" "ex_duplicateOf e = None" by (auto simp: state_lists)
  with revised show ?thesis by (simp add: extra_sound_def state_lists)
next
  case exported
  then show ?thesis by (simp add: extra_sound_def state_lists)
next
  case (billed s)
  have "0 \<le> bs_remainingBilledNetPence (ti_billing i)" "0 \<le> bs_remainingSettledNetPence (ti_billing i)"
    using v by (simp_all add: enterpriseTransitionV1_def amount_ok_def)
  note s = billed_state_InrD [OF billed(5) this]
  obtain l t where x: "approvalSnapshotValid e True" "ex_exportLineId e = Some l" "ex_exportedAt e = Some t"
    using billed(2,3) extra_sound_parts [OF e] by (auto simp: state_lists)
  from s have "s = S_billing_rejected \<or> s = S_credited \<and> bs_remainingBilledNetPence (ti_billing i) = 0 \<or>
      (s = S_billed \<or> s = S_part_paid \<or> s = S_paid) \<and> 0 < bs_remainingBilledNetPence (ti_billing i)"
    by (auto simp: state_lists)
  with x billed(4) show ?thesis unfolding billed(1)
    by (elim disjE conjE) (simp_all add: extra_sound_def state_lists)
qed

lemma dispatch_new:
  assumes "dispatch i e = Inr e'" "ti_extra i = None"
  shows "raise_extra i e = Inr e'"
  using assms unfolding dispatch_def submit_extra_def decide_extra_def withdraw_extra_def mark_duplicate_def
    revise_extra_def finalise_export_def import_billing_def
  by (cases "ti_command i") (simp_all add: bind_r_Inr_iff from_states_Inr_iff)

lemma created_sound:
  assumes "transitionExtra i = Inr e" "ti_extra i = None"
  shows "extra_sound e \<and> ex_state e = S_logged \<and> rv_approvals (ex_revision e) = []"
proof -
  from assms(1) have "dispatch i (subject_of i) = Inr e"
    unfolding transitionExtra_def readEnterprise_Inr_iff bind_r_Inr_iff if_Inl_Inr_iff Let_def by auto
  from dispatch_new [OF this assms(2)] assms(2) have "e = subject_of i\<lparr>ex_state := S_logged\<rparr>"
    "rv_approvals (ex_revision (subject_of i)) = []" "ex_exportLineId (subject_of i) = None"
    "ex_exportedAt (subject_of i) = None" "ex_duplicateOf (subject_of i) = None"
    unfolding raise_extra_def Let_def bind_r_Inr_iff if_Inl_Inr_iff permit_Inr_iff by blast+
  then show ?thesis by (simp add: extra_sound_def exported_states_def billedStates_def)
qed

lemma reachable_sound: "extra_reachable e \<Longrightarrow> extra_sound e"
proof (induction rule: extra_reachable.induct)
  case (created i e)
  then show ?case using created_sound by blast
next
  case (moved e i e')
  have "subject_of i = e" using moved.hyps(2) by (simp add: subject_of_def)
  with transitionExtra_InrD [OF moved.hyps(3)] moved.IH show ?case using extra_step_sound by blast
next
  case (repriced e r)
  then show ?case by (auto simp: extra_sound_def exported_states_def billedStates_def)
qed simp_all

text \<open>What a complete snapshot says of the people who approved.\<close>

definition approved_by_others :: "enterprise_extra \<Rightarrow> bool" where
  "approved_by_others e \<longleftrightarrow> (\<exists>rq n. rv_requirement (ex_revision e) = Some rq \<and> rv_netPence (ex_revision e) = Some n \<and> 0 < n \<and>
     length (rv_approvals (ex_revision e)) = length (rq_steps rq) \<and>
     distinct (map ap_actorId (rv_approvals (ex_revision e))) \<and>
     (\<forall>k < length (rq_steps rq). let a = rv_approvals (ex_revision e) ! k in
        ap_actorId a \<noteq> eo_raisingMembershipId (ex_origin e) \<and> ap_revisionId a = rv_id (ex_revision e) \<and>
        ap_hash a = rv_hash (ex_revision e) \<and> ap_netPence a = n \<and>
        (st_role (rq_steps rq ! k) \<noteq> R_contract_rule \<longrightarrow> (\<exists>g. ap_grant a = Some g \<and>
           eg_membershipId g = ap_actorId a \<and> eg_tenantId g = ex_tenantId e \<and> eg_jobId g = ex_jobId e \<and>
           eg_role g \<in> set (st_role (rq_steps rq ! k) # st_alternates (rq_steps rq ! k))))))"

lemma step_fitsD:
  assumes "step_fits e rq k a"
  shows "ap_actorId a \<noteq> eo_raisingMembershipId (ex_origin e)" "ap_revisionId a = rv_id (ex_revision e)"
    "ap_hash a = rv_hash (ex_revision e)" "rv_netPence (ex_revision e) = Some (ap_netPence a)"
    "st_role (rq_steps rq ! k) \<noteq> R_contract_rule \<Longrightarrow> \<exists>g. ap_grant a = Some g \<and>
       eg_membershipId g = ap_actorId a \<and> eg_tenantId g = ex_tenantId e \<and> eg_jobId g = ex_jobId e \<and>
       eg_role g \<in> set (st_role (rq_steps rq ! k) # st_alternates (rq_steps rq ! k))"
  using assms by (auto simp: step_fits_def Let_def split: if_splits option.splits)

lemma snapshot_approved_by_others:
  assumes "approvalSnapshotValid e True"
  shows "approved_by_others e"
proof -
  from assms obtain rq n where rq: "rv_requirement (ex_revision e) = Some rq" "rv_netPence (ex_revision e) = Some n" "0 < n"
    and len: "length (rv_approvals (ex_revision e)) = length (rq_steps rq)"
    and st: "steps_valid e rq 0 [] (rv_approvals (ex_revision e))"
    by (auto simp: approvalSnapshotValid_def priced_def Let_def split: option.splits)
  from st have d: "distinct (map ap_actorId (rv_approvals (ex_revision e)))"
    and f: "\<And>k. k < length (rq_steps rq) \<Longrightarrow> step_fits e rq k (rv_approvals (ex_revision e) ! k)"
    using len by (simp_all add: steps_valid_iff)
  show ?thesis unfolding approved_by_others_def Let_def
  proof (rule exI [of _ rq], rule exI [of _ n], intro conjI allI impI rq len d)
    fix k assume "k < length (rq_steps rq)"
    note fk = step_fitsD [OF f [OF this]]
    show "ap_actorId (rv_approvals (ex_revision e) ! k) \<noteq> eo_raisingMembershipId (ex_origin e)" by (rule fk)
    show "ap_revisionId (rv_approvals (ex_revision e) ! k) = rv_id (ex_revision e)" by (rule fk)
    show "ap_hash (rv_approvals (ex_revision e) ! k) = rv_hash (ex_revision e)" by (rule fk)
    show "ap_netPence (rv_approvals (ex_revision e) ! k) = n" using fk(4) rq(2) by simp
    show "\<exists>g. ap_grant (rv_approvals (ex_revision e) ! k) = Some g \<and>
       eg_membershipId g = ap_actorId (rv_approvals (ex_revision e) ! k) \<and> eg_tenantId g = ex_tenantId e \<and>
       eg_jobId g = ex_jobId e \<and> eg_role g \<in> set (st_role (rq_steps rq ! k) # st_alternates (rq_steps rq ! k))"
      if "st_role (rq_steps rq ! k) \<noteq> R_contract_rule" by (rule fk(5) [OF that])
  qed
qed

text \<open>
  C4. No self approval and no skipped step, for every extra the handler can produce: in any reachable
  state, an approved, exported or billed extra carries one approval for each required step, made by
  pairwise distinct people none of whom raised it, each bound to the current revision, its hash and
  its positive price, and each human step under a grant of the required role (or an alternate) for
  this tenant and job; an extra is a duplicate exactly when it names another one, has an export line
  exactly from its export on, and a billed extra has a positive billed balance.
\<close>

theorem reachable_extra_approved:
  assumes "extra_reachable e"
  shows "(ex_state e = S_approved \<or> ex_state e \<in> set exported_states \<longrightarrow> approved_by_others e) \<and>
    (ex_state e = S_duplicate \<longleftrightarrow> ex_duplicateOf e \<noteq> None) \<and> ex_duplicateOf e \<noteq> Some (ex_id e) \<and>
    (ex_state e \<in> set exported_states \<longleftrightarrow> ex_exportLineId e \<noteq> None) \<and>
    (ex_exportLineId e = None \<longleftrightarrow> ex_exportedAt e = None) \<and>
    (ex_state e \<in> set billedStates \<longrightarrow> (\<exists>b. ex_billingBalances e = Some b \<and> 0 < bb_billedNetPence b))"
  using reachable_sound [OF assms] snapshot_approved_by_others [of e] unfolding extra_sound_def by blast

section \<open>A worked life\<close>

definition sample_input :: "enterprise_command \<Rightarrow> enterprise_extra option \<Rightarrow> enterprise_actor \<Rightarrow> transition_input" where
  "sample_input command extra actor = \<lparr>ti_command = command, ti_extra = extra, ti_creation = sample_extra S_logged [] None [],
     ti_actor = actor, ti_expectedRevisionId = ''V'', ti_expectedHash = sample_hash, ti_reason = [],
     ti_serverRecordedAt = sample_instant, ti_newRevision = sample_revision [], ti_canonical = sample_extra S_logged [] None [],
     ti_group = sample_group (sample_extra S_logged [] None []),
     ti_billing = \<lparr>bs_kind = Sk_invoiced, bs_matched = True, bs_remainingBilledNetPence = 900, bs_remainingSettledNetPence = 0\<rparr>,
     ti_exportLineId = ''L''\<rparr>"

lemma sample_input_ok:
  "c \<in> set enterpriseCommands \<Longrightarrow> roleV1 role \<Longrightarrow>
   enterpriseTransitionV1 (sample_input c None (sample_actor who role))"
  "c \<in> set enterpriseCommands \<Longrightarrow> roleV1 role \<Longrightarrow> list_all enterpriseApprovalV1 as \<Longrightarrow> length as \<le> 20 \<Longrightarrow>
   enterpriseTransitionV1 (sample_input c (Some (sample_extra s as None [])) (sample_actor who role))"
  by (simp_all add: enterpriseTransitionV1_def sample_input_def enterprise_schemas sample_defs)

lemma sample_runs:
  "dispatch (sample_input LogSiteExtra None (sample_actor ''M'' R_operative)) (sample_extra S_logged [] None []) =
     Inr (sample_extra S_logged [] None [])"
  "dispatch (sample_input SubmitExtra (Some (sample_extra S_logged [] None [])) (sample_actor ''M'' R_operative))
     (sample_extra S_logged [] None []) = Inr (sample_extra S_awaiting_approval [] None [])"
  "dispatch (sample_input ApproveExtraStep (Some (sample_extra S_awaiting_approval [] None [])) (sample_actor ''S'' R_supervisor))
     (sample_extra S_awaiting_approval [] None []) = Inr (sample_extra S_approved [sample_approval] None [])"
  by code_simp+

lemma sample_provenance: "assertExtraProvenance (sample_extra s as export facts) = Inr ()"
  by (simp add: assertExtraProvenance_def sample_extra_def sample_grant_def photo_elsewhere_def originForCommand_def
      contractorOriginV1_def variationOriginV1_def)

lemma sample_transition:
  assumes "enterpriseTransitionV1 (sample_input c x a)" "subject_of (sample_input c x a) = sample_extra s as None []"
    "dispatch (sample_input c x a) (sample_extra s as None []) = r"
  shows "transitionExtra (sample_input c x a) = r"
proof -
  have "vo_jobTrack (eo_origin (ex_origin (sample_extra s as None []))) = Track_contractor"
    "ti_expectedRevisionId (sample_input c x a) = rv_id (ex_revision (sample_extra s as None []))"
    "ti_expectedHash (sample_input c x a) = rv_hash (ex_revision (sample_extra s as None []))"
    by (simp_all add: sample_input_def sample_extra_def sample_revision_def)
  then show ?thesis using assms by (simp add: transitionExtra_def readEnterprise_def sample_provenance)
qed

lemma sample_reachable: "extra_reachable (sample_extra S_approved [sample_approval] None [])"
proof -
  have roles: "roleV1 R_operative" "roleV1 R_supervisor" by (simp_all add: roleV1_def enterpriseRoles_def)
  let ?new = "sample_input LogSiteExtra None (sample_actor ''M'' R_operative)"
  let ?e1 = "sample_extra S_logged [] None []" and ?e2 = "sample_extra S_awaiting_approval [] None []"
  let ?submit = "sample_input SubmitExtra (Some ?e1) (sample_actor ''M'' R_operative)"
  let ?approve = "sample_input ApproveExtraStep (Some ?e2) (sample_actor ''S'' R_supervisor)"
  have "transitionExtra ?new = Inr ?e1"
    by (rule sample_transition [OF _ _ sample_runs(1)])
      (simp_all add: sample_input_ok roles enterpriseCommands_def subject_of_def, simp add: sample_input_def)
  then have r1: "extra_reachable ?e1" by (rule created [rotated]) (simp add: sample_input_def)
  have t2: "transitionExtra ?submit = Inr ?e2"
    by (rule sample_transition [OF _ _ sample_runs(2)])
      (simp_all add: sample_input_ok roles enterpriseCommands_def subject_of_def, simp add: sample_input_def)
  have r2: "extra_reachable ?e2" by (rule moved [OF r1 _ t2]) (simp add: sample_input_def)
  have t3: "transitionExtra ?approve = Inr (sample_extra S_approved [sample_approval] None [])"
    by (rule sample_transition [OF _ _ sample_runs(3)])
      (simp_all add: sample_input_ok roles enterpriseCommands_def subject_of_def, simp add: sample_input_def)
  show ?thesis by (rule moved [OF r2 _ t3]) (simp add: sample_input_def)
qed

theorem reachable_extra_approved_witness:
  "extra_reachable (sample_extra S_approved [sample_approval] None []) \<and>
   approved_by_others (sample_extra S_approved [sample_approval] None [])"
  using reachable_extra_approved [OF sample_reachable] sample_reachable by (simp add: sample_extra_def)

section \<open>Results are well typed\<close>

text \<open>The moves of the life cycle; withdrawn, duplicate, credited and rejected-by-billing extras have none.\<close>

fun life_moves :: "enterprise_state \<Rightarrow> enterprise_state list" where
  "life_moves S_logged = [S_awaiting_approval, S_approved, S_withdrawn, S_duplicate]"
| "life_moves S_awaiting_approval = [S_awaiting_approval, S_approved, S_rejected, S_withdrawn, S_duplicate]"
| "life_moves S_approved = [S_awaiting_approval, S_withdrawn, S_duplicate, S_exported]"
| "life_moves S_rejected = [S_awaiting_approval, S_duplicate]"
| "life_moves S_exported = [S_billed, S_billing_rejected]"
| "life_moves S_billed = [S_billed, S_part_paid, S_paid, S_credited]"
| "life_moves S_part_paid = [S_billed, S_part_paid, S_paid, S_credited]"
| "life_moves S_paid = [S_billed, S_part_paid, S_paid, S_credited]"
| "life_moves _ = []"

lemma photo_elsewhere_update [simp]:
  "photo_elsewhere (e\<lparr>ex_state := s\<rparr>) = photo_elsewhere e"
  "photo_elsewhere (e\<lparr>ex_duplicateOf := d\<rparr>) = photo_elsewhere e"
  "photo_elsewhere (e\<lparr>ex_billingBalances := b\<rparr>) = photo_elsewhere e"
  "photo_elsewhere (e\<lparr>ex_exportedAt := t\<rparr>) = photo_elsewhere e"
  "photo_elsewhere (e\<lparr>ex_exportLineId := l\<rparr>) = photo_elsewhere e"
  "photo_elsewhere (e\<lparr>ex_revision := r\<rparr>) = photo_elsewhere e"
  by (simp_all add: photo_elsewhere_def)

lemma provenance_update [simp]:
  "assertExtraProvenance (e\<lparr>ex_state := s\<rparr>) = assertExtraProvenance e"
  "assertExtraProvenance (e\<lparr>ex_duplicateOf := d\<rparr>) = assertExtraProvenance e"
  "assertExtraProvenance (e\<lparr>ex_billingBalances := b\<rparr>) = assertExtraProvenance e"
  "assertExtraProvenance (e\<lparr>ex_exportedAt := t\<rparr>) = assertExtraProvenance e"
  "assertExtraProvenance (e\<lparr>ex_exportLineId := l\<rparr>) = assertExtraProvenance e"
  "assertExtraProvenance (e\<lparr>ex_revision := r\<rparr>) = assertExtraProvenance e"
  by (simp_all add: assertExtraProvenance_def Let_def)

definition origin_facts :: "enterprise_extra \<Rightarrow> string \<times> string \<times> string \<times> string \<times> extra_origin \<times> raising_command \<times> order_at_origin" where
  "origin_facts e = (ex_id e, ex_tenantId e, ex_jobId e, ex_scopeItemId e, ex_origin e, ex_raisingCommand e, ex_orderAtOrigin e)"

lemma assertOriginUnchanged_Inr_iff:
  "assertOriginUnchanged a b = Inr u \<longleftrightarrow> enterpriseExtraV1 a \<and> enterpriseExtraV1 b \<and> origin_facts a = origin_facts b"
  unfolding assertOriginUnchanged_def bind_r_Inr_iff readEnterprise_Inr_iff if_Inl_Inr_iff origin_facts_def by auto

lemma extra_step_origin: "extra_step i e e' \<Longrightarrow> origin_facts e' = origin_facts e"
  by (erule extra_step.cases) (simp_all add: origin_facts_def)

lemma extra_step_provenance: "extra_step i e e' \<Longrightarrow> assertExtraProvenance e' = assertExtraProvenance e"
  by (erule extra_step.cases) simp_all

lemma extraV1_update [simp]:
  "enterpriseExtraV1 (e\<lparr>ex_state := s\<rparr>) = enterpriseExtraV1 e"
  "enterpriseExtraV1 (e\<lparr>ex_duplicateOf := d\<rparr>) = enterpriseExtraV1 e"
  "enterpriseExtraV1 (e\<lparr>ex_exportLineId := l\<rparr>) = enterpriseExtraV1 e"
  by (simp_all add: enterpriseExtraV1_def)

lemma extraV1_revision: "enterpriseExtraV1 e \<Longrightarrow> enterpriseRevisionV1 r \<Longrightarrow> enterpriseExtraV1 (e\<lparr>ex_revision := r\<rparr>)"
  by (simp add: enterpriseExtraV1_def)

lemma approvalV1_approval_of:
  assumes r: "enterpriseRevisionV1 (ex_revision e)" and a: "enterpriseActorV1 (ti_actor i)" and t: "instantV1 (ti_serverRecordedAt i)"
    and rq: "rv_requirement (ex_revision e) = Some rq" and n: "rv_netPence (ex_revision e) = Some n"
    and k: "length (rv_approvals (ex_revision e)) < length (rq_steps rq)"
    and g: "covering_grant (ti_actor i) tenant job (st_role (rq_steps rq ! length (rv_approvals (ex_revision e)))
       # st_alternates (rq_steps rq ! length (rv_approvals (ex_revision e)))) g" "g \<in> set (ac_grants (ti_actor i))"
  shows "enterpriseApprovalV1 (approval_of i e rq n g)"
proof -
  have q: "enterpriseRequirementV1 rq" using r rq by (simp add: enterpriseRevisionV1_def opt_ok_def)
  let ?st = "rq_steps rq ! length (rv_approvals (ex_revision e))"
  have "?st \<in> set (rq_steps rq)" using k by simp
  with q have "st_role ?st \<in> set approvalRole" "set (st_alternates ?st) \<subseteq> set approvalRole"
    by (auto simp: enterpriseRequirementV1_def list_all_iff approvalRole_def)
  with g(1) have "eg_role g \<in> set approvalRole" by (auto simp: covering_grant_def)
  moreover have "enterpriseGrantV1 g" using a g(2) by (simp add: enterpriseActorV1_def list_all_iff)
  moreover have "length (rq_steps rq) \<le> 20" "text_within 300 (rq_ruleVersion rq)" using q by (simp_all add: enterpriseRequirementV1_def)
  ultimately show ?thesis using r n t k
    by (simp add: enterpriseApprovalV1_def approval_of_def enterpriseRevisionV1_def opt_ok_def)
qed

lemma extra_step_typed:
  assumes step: "extra_step i e e'" and v: "enterpriseTransitionV1 i" and e: "enterpriseExtraV1 e"
  shows "enterpriseExtraV1 e'"
  using step
proof (cases rule: extra_step.cases)
  case (approved rq n g as)
  have r: "enterpriseRevisionV1 (ex_revision e)" using e by (simp add: enterpriseExtraV1_def)
  have k: "length (rv_approvals (ex_revision e)) < length (rq_steps rq)"
    using approved(3,4,6) by (simp add: approvalSnapshotValid_def Let_def)
  have "length (rq_steps rq) \<le> 20" using r approved(4) by (simp add: enterpriseRevisionV1_def opt_ok_def enterpriseRequirementV1_def)
  moreover have "enterpriseApprovalV1 (approval_of i e rq n g)"
    using approvalV1_approval_of [OF r _ _ approved(4,5) k approved(8,9)] v by (simp add: enterpriseTransitionV1_def)
  ultimately have "enterpriseRevisionV1 ((ex_revision e)\<lparr>rv_approvals := as\<rparr>)"
    using r k by (simp add: enterpriseRevisionV1_def approved(12))
  from extraV1_revision [OF e this] show ?thesis by (simp add: approved(1))
next
  case revised
  then show ?thesis using extraV1_revision [OF e] v by (simp add: enterpriseTransitionV1_def)
next
  case exported
  then show ?thesis using e v by (simp add: enterpriseTransitionV1_def enterpriseExtraV1_def opt_ok_def)
next
  case (billed s)
  then show ?thesis using e v by (simp add: enterpriseTransitionV1_def enterpriseExtraV1_def opt_ok_def)
qed (use e in simp_all)

lemma extra_step_moves:
  assumes step: "extra_step i e e'" and v: "enterpriseTransitionV1 i" and old: "ti_extra i \<noteq> None"
  shows "ex_state e' \<in> set (life_moves (ex_state e))"
  using step
proof (cases rule: extra_step.cases)
  case (billed s)
  have "0 \<le> bs_remainingBilledNetPence (ti_billing i)" "0 \<le> bs_remainingSettledNetPence (ti_billing i)"
    using v by (simp_all add: enterpriseTransitionV1_def amount_ok_def)
  from billed_state_InrD [OF billed(5) this] billed(1) show ?thesis by (auto simp: billedStates_def)
qed (use old in \<open>auto simp: open_states_def\<close>)

text \<open>
  C38. The handler returns extras of the type it accepts: every result satisfies the extra schema (so
  it can be given to the next command), keeps its provenance valid and, when the extra existed before,
  passes \<open>assertOriginUnchanged\<close> against it and moves along the life cycle; withdrawn, duplicate,
  credited and billing-rejected extras accept no command.
\<close>

theorem transitionExtra_typed:
  assumes "transitionExtra i = Inr e'"
  shows "enterpriseExtraV1 e' \<and> assertExtraProvenance e' = Inr () \<and>
    (case ti_extra i of None \<Rightarrow> ex_state e' = S_logged
     | Some e \<Rightarrow> assertOriginUnchanged e e' = Inr () \<and> ex_state e' \<in> set (life_moves (ex_state e)))"
proof -
  note t = transitionExtra_InrD [OF assms]
  have s: "enterpriseExtraV1 (subject_of i)" using t(1)
    by (auto simp: enterpriseTransitionV1_def subject_of_def opt_ok_def split: option.splits)
  note typed = extra_step_typed [OF t(5,1) s] and origin = extra_step_origin [OF t(5)]
  show ?thesis
  proof (cases "ti_extra i")
    case None
    with created_sound [OF assms] typed t(2) extra_step_provenance [OF t(5)] show ?thesis by simp
  next
    case (Some e)
    then have "subject_of i = e" by (simp add: subject_of_def)
    with Some typed origin s t(2) extra_step_provenance [OF t(5)] extra_step_moves [OF t(5,1)] show ?thesis
      by (simp add: assertOriginUnchanged_Inr_iff)
  qed
qed

theorem transitionExtra_typed_witness:
  "enterpriseExtraV1 (sample_extra S_awaiting_approval [] None []) \<and>
   assertOriginUnchanged (sample_extra S_logged [] None []) (sample_extra S_awaiting_approval [] None []) = Inr ()"
proof -
  have r: "roleV1 R_operative" by (simp add: roleV1_def enterpriseRoles_def)
  let ?i = "sample_input SubmitExtra (Some (sample_extra S_logged [] None [])) (sample_actor ''M'' R_operative)"
  have "transitionExtra ?i = Inr (sample_extra S_awaiting_approval [] None [])"
    by (rule sample_transition [OF _ _ sample_runs(2)])
      (simp_all add: sample_input_ok r enterpriseCommands_def subject_of_def, simp add: sample_input_def)
  from transitionExtra_typed [OF this] show ?thesis by (simp add: sample_input_def)
qed

end
