(* ===== verification/Enterprise_Fee.thy ===== *)
theory Enterprise_Fee
  imports Enterprise_Transitions
begin

text \<open>
  Model of the allocation half of \<^verbatim>\<open>enterprise-domain/fee.ts\<close>: \<open>allocateEnterpriseReceipt\<close>,
  which binds invoice lines to exported extras before the shared allocator runs and checks a
  reversal against its original receipt, and \<open>statementLines\<close>, which spreads a posting delta over
  the exact changes of the extras. \<open>before\<close> is \<^verbatim>\<open>localeCompare\<close>, a parameter of the
  penny allocator. A JavaScript \<^verbatim>\<open>Map\<close> built from entries is \<open>js_map\<close>.
\<close>

section \<open>Errors\<close>

text \<open>The wrapper \<^verbatim>\<open>checked\<close>: domain errors pass, one message is kept, any other error is a money limit.\<close>

definition checked :: "enterprise_error + 'a \<Rightarrow> enterprise_error + 'a" where
  "checked m = map_err (\<lambda>e. if e = Js_type_error then MONEY_LIMIT else e) m"

definition shared_checked :: "shared_error + 'a \<Rightarrow> enterprise_error + 'a" where
  "shared_checked m = map_err (\<lambda>e. if e = COMPENSATION_LINK_REQUIRED then COMPENSATION_LINK_NEEDED else MONEY_LIMIT) m"

definition js_map :: "('k \<times> 'v) list \<Rightarrow> ('k \<times> 'v) list" where
  "js_map entries = fold (\<lambda>(k, v) m. AList.update k v m) entries []"

section \<open>Receipts\<close>

record line_binding =
  lb_lineId :: string
  lb_extraId :: "string option"
  lb_exportLineId :: "string option"
  lb_revisionId :: "string option"
  lb_revisionHash :: "string option"

record remaining_gross =
  rg_lineId :: string
  rg_gross :: exact_text

record original_receipt =
  og_sourceRef :: string
  og_receipt :: receipt_allocation_input
  og_remainingGross :: "remaining_gross list"

record enterprise_receipt =
  er_tenantId :: string
  er_jobId :: string
  er_receipt :: receipt_allocation_input
  er_groups :: "enterprise_group list"
  er_bindings :: "line_binding list"
  er_original :: "original_receipt option"

definition enterpriseReceiptV1 :: "enterprise_receipt \<Rightarrow> bool" where
  "enterpriseReceiptV1 r \<longleftrightarrow> receiptAllocationV1 (er_receipt r) \<and>
     length (er_groups r) \<le> MAX_ALLOCATION_LINES \<and> list_all enterpriseGroupV1 (er_groups r) \<and>
     length (er_bindings r) \<le> MAX_ALLOCATION_LINES \<and>
     list_all (\<lambda>b. text_within 300 (lb_lineId b) \<and> opt_ok sha_text (lb_revisionHash b)) (er_bindings r) \<and>
     opt_ok (\<lambda>g. text_within 300 (og_sourceRef g) \<and> receiptAllocationV1 (og_receipt g) \<and>
       length (og_remainingGross g) \<le> MAX_ALLOCATION_LINES \<and>
       list_all (\<lambda>l. text_within 300 (rg_lineId l) \<and> exactPenceV1 (rg_gross l)) (og_remainingGross g)) (er_original r)"

type_synonym owners = "(string \<times> enterprise_extra) list \<times> (string \<times> string) list"

text \<open>The canonical extras of the groups and the owners of their export lines.\<close>

definition collect_group :: "enterprise_receipt \<Rightarrow> owners \<Rightarrow> enterprise_group \<Rightarrow> enterprise_error + owners" where
  "collect_group i s g =
     (if gr_tenantId g \<noteq> er_tenantId i \<or> gr_jobId g \<noteq> er_jobId i then Inl INVALID_ALLOCATION_FACTS
      else bind_r (assertDuplicateGroup g) (\<lambda>_. bind_r (of_option Js_type_error (canonical_of g)) (\<lambda>e.
        if map_of (fst s) (ex_id e) \<noteq> None then Inl INVALID_ALLOCATION_FACTS
        else let extras = AList.update (ex_id e) e (fst s) in
        (case ex_exportLineId e of
           None \<Rightarrow> Inr (extras, snd s)
         | Some line \<Rightarrow> if map_of (snd s) line \<noteq> None then Inl INVALID_ALLOCATION_FACTS
             else Inr (extras, AList.update line (ex_id e) (snd s))))))"

definition binding_ok :: "(string \<times> enterprise_extra) list \<Rightarrow> line_binding \<Rightarrow> bool" where
  "binding_ok extras b = (case lb_extraId b of
     None \<Rightarrow> \<not> (lb_exportLineId b \<noteq> None \<or> lb_revisionId b \<noteq> None \<or> lb_revisionHash b \<noteq> None)
   | Some x \<Rightarrow> (case map_of extras x of None \<Rightarrow> False
       | Some e \<Rightarrow> \<not> (ex_exportLineId e = None \<or> ex_exportedAt e = None \<or> ex_exportLineId e \<noteq> lb_exportLineId b \<or>
           Some (rv_id (ex_revision e)) \<noteq> lb_revisionId b \<or> Some (rv_hash (ex_revision e)) \<noteq> lb_revisionHash b)))"

definition same_receipt :: "original_receipt \<Rightarrow> receipt_allocation_input \<Rightarrow> bool" where
  "same_receipt original receipt \<longleftrightarrow>
     \<not> (og_sourceRef original \<noteq> ra_sourceRef (og_receipt original) \<or> ra_direction (og_receipt original) \<noteq> Dir_receipt \<or>
        og_sourceRef original = ra_sourceRef receipt \<or>
        server_order (ra_effectiveAt receipt) (ra_effectiveAt (og_receipt original)) \<noteq> 0 \<or>
        ra_invoiceId receipt \<noteq> ra_invoiceId (og_receipt original) \<or>
        ra_separateInvoiceId receipt \<noteq> ra_separateInvoiceId (og_receipt original))"

definition reversal_recorded :: "enterprise_receipt \<Rightarrow> bool" where
  "reversal_recorded i \<longleftrightarrow> list_ex (\<lambda>g. list_ex (\<lambda>m. list_ex
     (\<lambda>f. bf_kind f = Bk_reversed \<and> bf_sourceRef f = ra_sourceRef (er_receipt i)) (ex_billingFacts m)) (gr_members g)) (er_groups i)"

definition allocation_of :: "receipt_allocation_input \<Rightarrow> enterprise_error + line_allocation list" where
  "allocation_of receipt = map_err (\<lambda>_. INVALID_ALLOCATION_FACTS) (allocateReceiptToLines receipt)"

definition check_explicit_share :: "(string \<times> line_allocation) list \<Rightarrow> unit \<Rightarrow> explicit_share \<Rightarrow> enterprise_error + unit" where
  "check_explicit_share originallySettled u share =
     (case map_of originallySettled (es_lineId share) of
        None \<Rightarrow> Inl INVALID_ALLOCATION_FACTS
      | Some settled \<Rightarrow>
          if la_rule settled \<noteq> Rule_explicit then Inl INVALID_ALLOCATION_FACTS
          else bind_r (shared_checked (parseExactPence exactPenceV1 (es_gross share))) (\<lambda>gross.
            if compareExactPence gross (la_gross settled) > 0 then Inl INVALID_ALLOCATION_FACTS else Inr ()))"

definition check_explicit_shares ::
  "original_receipt \<Rightarrow> receipt_allocation_input \<Rightarrow> (string \<times> line_allocation) list \<Rightarrow> enterprise_error + unit" where
  "check_explicit_shares original receipt originallySettled =
     (case ra_explicit receipt of
        None \<Rightarrow> Inr ()
      | Some shares \<Rightarrow> if ra_explicit (og_receipt original) = None then Inl INVALID_ALLOCATION_FACTS
          else fold_r (check_explicit_share originallySettled) () shares)"

definition check_reversal_line ::
  "original_receipt \<Rightarrow> (string \<times> line_allocation) list \<Rightarrow> (string \<times> exact_pence) list \<Rightarrow> unit \<Rightarrow> receipt_line \<Rightarrow> enterprise_error + unit" where
  "check_reversal_line original originallySettled remaining u l =
     (let allocated = (case map_of originallySettled (rl_id l) of None \<Rightarrow> zero_pence | Some a \<Rightarrow> la_gross a) in
      case (find (\<lambda>p. rl_id p = rl_id l) (ra_lines (og_receipt original)), map_of remaining (rl_id l)) of
        (Some prior, Some balance) \<Rightarrow>
          if rl_netPence l \<noteq> rl_netPence prior \<or> rl_grossPence l \<noteq> rl_grossPence prior \<or>
             rl_invoiceId l \<noteq> rl_invoiceId prior \<or> server_order (rl_existedAt l) (rl_existedAt prior) \<noteq> 0 \<or>
             numerator balance < 0 \<or> compareExactPence balance allocated > 0 then Inl INVALID_ALLOCATION_FACTS
          else bind_r (shared_checked (parseExactPence exactPenceV1 (rl_outstandingGross l))) (\<lambda>outstanding.
            if compareExactPence balance outstanding \<noteq> 0 then Inl INVALID_ALLOCATION_FACTS else Inr ())
      | _ \<Rightarrow> Inl INVALID_ALLOCATION_FACTS)"

definition check_reversal :: "enterprise_receipt \<Rightarrow> original_receipt \<Rightarrow> enterprise_error + unit" where
  "check_reversal i original = (let receipt = er_receipt i in
     if \<not> same_receipt original receipt then Inl INVALID_ALLOCATION_FACTS
     else if reversal_recorded i then Inl INVALID_ALLOCATION_FACTS
     else bind_r (allocation_of (og_receipt original)) (\<lambda>originalAllocation.
     let originallySettled = js_map (map (\<lambda>l. (la_lineId l, l)) originalAllocation) in
     bind_r (map_r (\<lambda>l. bind_r (shared_checked (parseExactPence exactPenceV1 (rg_gross l))) (\<lambda>v. Inr (rg_lineId l, v)))
        (og_remainingGross original)) (\<lambda>entries.
     let remaining = js_map entries in
     bind_r (check_explicit_shares original receipt originallySettled) (\<lambda>_.
     if length remaining \<noteq> length (og_remainingGross original) \<or>
        length (ra_lines receipt) \<noteq> length (ra_lines (og_receipt original)) \<or> length remaining \<noteq> length (ra_lines receipt)
       then Inl INVALID_ALLOCATION_FACTS
     else fold_r (check_reversal_line original originallySettled remaining) () (ra_lines receipt)))))"

record enterprise_allocation =
  ea_line :: line_allocation
  ea_extraId :: "string option"
  ea_originalSourceRef :: "string option"

text \<open>\<^verbatim>\<open>bindings.get(l.lineId)!.extraId\<close>: every line of the receipt has a binding.\<close>

definition bound_extra :: "(string \<times> line_binding) list \<Rightarrow> string \<Rightarrow> string option" where
  "bound_extra bindings lineId = (case map_of bindings lineId of None \<Rightarrow> None | Some b \<Rightarrow> lb_extraId b)"

definition check_direction :: "enterprise_receipt \<Rightarrow> enterprise_error + unit" where
  "check_direction i =
     (if ra_direction (er_receipt i) = Dir_reversal then
        (case er_original i of None \<Rightarrow> Inl INVALID_ALLOCATION_FACTS | Some original \<Rightarrow> check_reversal i original)
      else if er_original i \<noteq> None then Inl INVALID_ALLOCATION_FACTS else Inr ())"

definition allocate_bound_receipt :: "enterprise_receipt \<Rightarrow> enterprise_error + enterprise_allocation list" where
  "allocate_bound_receipt i = (let receipt = er_receipt i; bindings = js_map (map (\<lambda>b. (lb_lineId b, b)) (er_bindings i)) in
     if length bindings \<noteq> length (er_bindings i) \<or> length bindings \<noteq> length (ra_lines receipt) \<or>
        list_ex (\<lambda>l. map_of bindings (rl_id l) = None) (ra_lines receipt) then Inl INVALID_ALLOCATION_FACTS
     else bind_r (fold_r (collect_group i) ([], []) (er_groups i)) (\<lambda>s.
     if \<not> list_all (binding_ok (fst s)) (er_bindings i) then Inl INVALID_ALLOCATION_FACTS
     else bind_r (check_direction i) (\<lambda>_.
     bind_r (allocation_of receipt) (\<lambda>allocation.
       Inr (map (\<lambda>l. \<lparr>ea_line = l, ea_extraId = bound_extra bindings (la_lineId l),
                      ea_originalSourceRef = map_option og_sourceRef (er_original i)\<rparr>) allocation)))))"

definition allocateEnterpriseReceipt :: "enterprise_receipt \<Rightarrow> enterprise_error + enterprise_allocation list" where
  "allocateEnterpriseReceipt raw = bind_r (readEnterprise enterpriseReceiptV1 raw INVALID_ALLOCATION_FACTS) (\<lambda>i.
     checked (allocate_bound_receipt i))"

section \<open>Statement lines\<close>

record extra_change =
  xc_extraId :: string
  xc_change :: exact_pence

record statement_line =
  sl_extraId :: string
  sl_contributionChange :: exact_pence
  sl_fee :: money

definition changeV1 :: "extra_change list \<Rightarrow> bool" where
  "changeV1 cs \<longleftrightarrow> length cs \<le> 10000 \<and> list_all (\<lambda>c. 0 < denominator (xc_change c)) cs"

record mixed_row =
  mx_id :: string
  mx_floor :: int
  mx_remainder :: exact_pence

definition mixed_row_of :: "extra_change \<Rightarrow> enterprise_error + mixed_row" where
  "mixed_row_of c =
     (let n = numerator (xc_change c); d = denominator (xc_change c);
          flr = (if n < 0 \<and> js_rem n d \<noteq> 0 then js_div n d - 1 else js_div n d)
      in bind_r (shared_checked (exactPence (n - flr * d) d)) (\<lambda>rest.
        Inr \<lparr>mx_id = xc_extraId c, mx_floor = flr, mx_remainder = rest\<rparr>))"

definition lower_first :: "mixed_row \<Rightarrow> mixed_row \<Rightarrow> bool" where
  "lower_first a b \<longleftrightarrow> (let c = compareExactPence (mx_remainder a) (mx_remainder b) in if c \<noteq> 0 then c < 0 else mx_id a < mx_id b)"

definition higher_first :: "mixed_row \<Rightarrow> mixed_row \<Rightarrow> bool" where
  "higher_first a b \<longleftrightarrow> (let c = - compareExactPence (mx_remainder a) (mx_remainder b) in if c \<noteq> 0 then c < 0 else mx_id a < mx_id b)"

text \<open>The sorted arrays hold the same row objects; rows are identified by their distinct ids.\<close>

definition move_floor :: "string \<Rightarrow> int \<Rightarrow> mixed_row list \<Rightarrow> mixed_row list" where
  "move_floor i by = map (\<lambda>r. if mx_id r = i then r\<lparr>mx_floor := mx_floor r + by\<rparr> else r)"

fun hand_floors :: "mixed_row list \<Rightarrow> int \<Rightarrow> mixed_row list \<Rightarrow> mixed_row list" where
  "hand_floors [] remaining rows = rows"
| "hand_floors (row # ranked) remaining rows =
     (if remaining = 0 then rows else hand_floors ranked (remaining - 1) (move_floor (mx_id row) 1 rows))"

definition apportionMixed :: "int \<Rightarrow> extra_change list \<Rightarrow> enterprise_error + (string \<times> money) list" where
  "apportionMixed delta changes = bind_r (map_r mixed_row_of changes) (\<lambda>rows.
     let remaining = delta - sum_list (map mx_floor rows) in
     if remaining < - 1 \<or> remaining > int (length rows) then Inl INVALID_STATEMENT
     else let lowered = (if remaining < 0 then move_floor (mx_id (hd (sort_by lower_first rows))) (- 1) rows else rows);
              left = (if remaining < 0 then remaining + 1 else remaining);
              final = hand_floors (sort_by higher_first lowered) left lowered
          in map_r (\<lambda>r. bind_r (money_limit (moneyFromBigInt (mx_floor r))) (\<lambda>m. Inr (mx_id r, m))) final)"

definition change_denominator :: "extra_change list \<Rightarrow> enterprise_error + int" where
  "change_denominator cs = fold_r (\<lambda>d c. bind_r (shared_checked (exactPence d (denominator (xc_change c)))) (\<lambda>q.
     let d' = d * denominator q in
     if length (int_text d') > MAX_EXACT_PENCE_DIGITS then Inl MONEY_LIMIT else Inr d')) 1 cs"

definition change_weight :: "int \<Rightarrow> extra_change \<Rightarrow> weight" where
  "change_weight d c = (let w = numerator (xc_change c) * js_div d (denominator (xc_change c))
     in \<lparr>w_id = xc_extraId c, w_weight = (if w < 0 then - w else w)\<rparr>)"

definition apportion ::
  "(string \<Rightarrow> string \<Rightarrow> bool) \<Rightarrow> money \<Rightarrow> extra_change list \<Rightarrow> enterprise_error + (string \<times> money) list" where
  "apportion before delta changes =
     (if (list_all (\<lambda>c. numerator (xc_change c) \<ge> 0) changes \<and> pence delta \<ge> 0) \<or>
         (list_all (\<lambda>c. numerator (xc_change c) \<le> 0) changes \<and> pence delta \<le> 0)
      then bind_r (change_denominator changes) (\<lambda>d.
        money_limit (allocateMoney before delta (map (change_weight d) changes)))
      else apportionMixed (pence delta) changes)"

text \<open>\<^verbatim>\<open>allocated.get(c.extraId)!\<close>: the allocator returns one entry for every change.\<close>

definition fee_line :: "(string \<times> money) list \<Rightarrow> extra_change \<Rightarrow> statement_line" where
  "fee_line allocated c = \<lparr>sl_extraId = xc_extraId c, sl_contributionChange = xc_change c,
     sl_fee = (case map_of allocated (xc_extraId c) of None \<Rightarrow> gbp 0 | Some m \<Rightarrow> m)\<rparr>"

definition sorted_changes :: "extra_change list \<Rightarrow> extra_change list" where
  "sorted_changes = sort_by (\<lambda>a b. xc_extraId a < xc_extraId b)"

definition check_change :: "unit \<Rightarrow> extra_change \<Rightarrow> enterprise_error + unit" where
  "check_change u c = bind_r (shared_checked (parseExactPence exactPenceV1 (serializeExactPence (xc_change c)))) (\<lambda>_. Inr ())"

definition check_carry :: "money \<Rightarrow> extra_change list \<Rightarrow> enterprise_error + unit" where
  "check_carry delta changes =
     bind_r (shared_checked (sumExactPence0 (map xc_change changes))) (\<lambda>exactChange.
     bind_r (shared_checked (exactPence (pence delta) 1)) (\<lambda>d.
     bind_r (shared_checked (exactPence (- numerator exactChange) (denominator exactChange))) (\<lambda>minus.
     bind_r (shared_checked (addExactPence d minus)) (\<lambda>carry.
     bind_r (shared_checked (exactPence (- 1) 1)) (\<lambda>low.
     bind_r (shared_checked (exactPence 1 1)) (\<lambda>high.
       if compareExactPence carry low < 0 \<or> compareExactPence carry high > 0 then Inl INVALID_STATEMENT else Inr ()))))))"

definition statement_lines ::
  "(string \<Rightarrow> string \<Rightarrow> bool) \<Rightarrow> money \<Rightarrow> extra_change list \<Rightarrow> enterprise_error + statement_line list" where
  "statement_lines before delta changes =
     (if \<not> distinct (map xc_extraId changes) then Inl INVALID_STATEMENT
      else bind_r (fold_r check_change () changes) (\<lambda>_.
      if changes = [] then (if pence delta \<noteq> 0 then Inl INVALID_STATEMENT else Inr [])
      else if filter (\<lambda>c. numerator (xc_change c) \<noteq> 0) changes = [] then
        (if pence delta \<noteq> 0 then Inl INVALID_STATEMENT else Inr (map (fee_line []) changes))
      else bind_r (check_carry delta changes) (\<lambda>_.
      bind_r (apportion before delta changes) (\<lambda>allocated.
      let output = map (fee_line allocated) changes in
      if sum_list (map (pence \<circ> sl_fee) output) \<noteq> pence delta then Inl INVALID_STATEMENT else Inr output))))"

definition statementLines ::
  "(string \<Rightarrow> string \<Rightarrow> bool) \<Rightarrow> int \<Rightarrow> extra_change list \<Rightarrow> enterprise_error + statement_line list" where
  "statementLines before deltaPence supplied = checked (
     bind_r (readEnterprise changeV1 supplied INVALID_STATEMENT) (\<lambda>changes.
     bind_r (money_limit (money_of (JInt deltaPence))) (\<lambda>delta.
       statement_lines before delta (sorted_changes changes))))"

section \<open>Shares stay close to the exact change\<close>

lemma shared_checked_Inr_iff [result_simps]: "shared_checked m = Inr v \<longleftrightarrow> m = Inr v"
  by (simp add: shared_checked_def map_err_Inr_iff)

lemma checked_Inr_iff [result_simps]: "checked m = Inr v \<longleftrightarrow> m = Inr v"
  by (simp add: checked_def map_err_Inr_iff)

lemma js_floor:
  assumes "0 < d"
  shows "(if n < 0 \<and> js_rem n d \<noteq> 0 then js_div n d - 1 else js_div n d) = n div d"
proof (cases "n < 0")
  case True
  then have "js_div n d = - ((- n) div d)" "js_rem n d = - ((- n) mod d)" using assms by (simp_all add: js_div_def js_rem_def)
  moreover have "n div d = (if (- n) mod d = 0 then - ((- n) div d) else - ((- n) div d) - 1)"
    using zdiv_zminus1_eq_if [of d "- n"] assms by simp
  ultimately show ?thesis using True by simp
next
  case False
  then show ?thesis using assms by (cases "n = 0") (simp_all add: js_div_def)
qed

lemma floor_bounds:
  assumes "0 < denominator q"
  shows "of_int (numerator q div denominator q) \<le> val q" "val q < of_int (numerator q div denominator q) + 1"
proof -
  let ?n = "numerator q" and ?d = "denominator q"
  have "(of_int ?n :: rat) = of_int (?n div ?d) * of_int ?d + of_int (?n mod ?d)"
    by (metis div_mult_mod_eq of_int_add of_int_mult)
  then have "val q = of_int (?n div ?d) + of_int (?n mod ?d) / of_int ?d"
    using assms unfolding val_def by (simp add: add_divide_distrib)
  moreover have "0 \<le> (of_int (?n mod ?d) :: rat) / of_int ?d" "(of_int (?n mod ?d) :: rat) / of_int ?d < 1"
    using assms by simp_all
  ultimately show "of_int (?n div ?d) \<le> val q" "val q < of_int (?n div ?d) + 1" by linarith+
qed

lemma mixed_row_of_InrD:
  assumes "mixed_row_of c = Inr r" "0 < denominator (xc_change c)"
  shows "mx_id r = xc_extraId c \<and> mx_floor r = numerator (xc_change c) div denominator (xc_change c)"
  using assms(1) unfolding mixed_row_of_def Let_def js_floor [OF assms(2)] by (auto simp: result_simps)

definition moved_row :: "string set \<Rightarrow> mixed_row \<Rightarrow> mixed_row \<Rightarrow> bool" where
  "moved_row ids s r \<longleftrightarrow> mx_id r = mx_id s \<and>
     (mx_floor r = mx_floor s \<or> mx_floor r = mx_floor s + 1 \<and> mx_id s \<in> ids)"

lemma moved_row_trans: "moved_row {i} a b \<Longrightarrow> moved_row S b c \<Longrightarrow> i \<notin> S \<Longrightarrow> moved_row (insert i S) a c"
  by (auto simp: moved_row_def)

lemma hand_floors_rows:
  "distinct (map mx_id ranked) \<Longrightarrow> list_all2 (moved_row (mx_id ` set ranked)) rows (hand_floors ranked n rows)"
proof (induction ranked n rows rule: hand_floors.induct)
  case (1 n rows)
  then show ?case by (simp add: list_all2_refl moved_row_def)
next
  case (2 row ranked n rows)
  show ?case
  proof (cases "n = 0")
    case True
    then show ?thesis by (simp add: list_all2_refl moved_row_def)
  next
    case False
    let ?rows = "move_floor (mx_id row) 1 rows"
    have d: "distinct (map mx_id ranked)" "mx_id row \<notin> mx_id ` set ranked" using 2(2) by auto
    have "list_all2 (moved_row {mx_id row}) rows ?rows"
      by (simp add: move_floor_def list_all2_map2 list_all2_refl moved_row_def)
    moreover have "list_all2 (moved_row (mx_id ` set ranked)) ?rows (hand_floors ranked (n - 1) ?rows)"
      using 2(1) [OF False d(1)] .
    ultimately have "list_all2 (moved_row (insert (mx_id row) (mx_id ` set ranked))) rows (hand_floors ranked (n - 1) ?rows)"
      using list_all2_trans moved_row_trans [OF _ _ d(2)] by blast
    with False show ?thesis by simp
  qed
qed

lemma hand_floors_0 [simp]: "hand_floors ranked 0 rows = rows"
  by (cases ranked) simp_all

definition close_to :: "extra_change \<Rightarrow> int \<Rightarrow> bool" where
  "close_to c f \<longleftrightarrow> \<bar>of_int f - val (xc_change c)\<bar> \<le> 2"

lemma apportionMixed_close:
  assumes out: "apportionMixed delta cs = Inr out" and den: "\<forall>c\<in>set cs. 0 < denominator (xc_change c)"
    and ids: "distinct (map xc_extraId cs)"
  shows "list_all2 (\<lambda>c e. fst e = xc_extraId c \<and> close_to c (pence (snd e))) cs out"
proof -
  from out obtain rows where rows: "map_r mixed_row_of cs = Inr rows" and
    fin: "(let remaining = delta - sum_list (map mx_floor rows) in
     if remaining < - 1 \<or> remaining > int (length rows) then Inl INVALID_STATEMENT
     else let lowered = (if remaining < 0 then move_floor (mx_id (hd (sort_by lower_first rows))) (- 1) rows else rows);
              left = (if remaining < 0 then remaining + 1 else remaining);
              final = hand_floors (sort_by higher_first lowered) left lowered
          in map_r (\<lambda>r. bind_r (money_limit (moneyFromBigInt (mx_floor r))) (\<lambda>m. Inr (mx_id r, m))) final) = Inr out"
    unfolding apportionMixed_def bind_r_Inr_iff by blast
  define remaining where "remaining = delta - sum_list (map mx_floor rows)"
  define final where "final = (if remaining < 0 then move_floor (mx_id (hd (sort_by lower_first rows))) (- 1) rows
    else hand_floors (sort_by higher_first rows) remaining rows)"
  have rem: "- 1 \<le> remaining" using fin by (auto simp: Let_def remaining_def split: if_splits)
  have "map_r (\<lambda>r. bind_r (money_limit (moneyFromBigInt (mx_floor r))) (\<lambda>m. Inr (mx_id r, m))) final = Inr out"
  proof (cases "remaining < 0")
    case True
    then have "remaining + 1 = 0" using rem by simp
    with fin True show ?thesis unfolding Let_def remaining_def [symmetric] final_def by (simp split: if_splits)
  next
    case False
    with fin show ?thesis unfolding Let_def remaining_def [symmetric] final_def by (simp split: if_splits)
  qed
  then have o: "list_all2 (\<lambda>r e. fst e = mx_id r \<and> pence (snd e) = mx_floor r) final out"
    unfolding map_r_Inr_list_all2 by (rule list_all2_mono) (auto simp: result_simps)
  have r: "list_all2 (\<lambda>c r. mx_id r = xc_extraId c \<and> mx_floor r = numerator (xc_change c) div denominator (xc_change c)) cs rows"
    using rows [unfolded map_r_Inr_list_all2] den mixed_row_of_InrD by (auto simp: list_all2_conv_all_nth)
  then have "map mx_id rows = map xc_extraId cs"
    by (auto simp: list_all2_conv_all_nth intro: nth_equalityI)
  then have "distinct (map mx_id (sort_by higher_first rows))" using ids by simp
  from hand_floors_rows [OF this, of rows remaining]
  have f: "list_all2 (\<lambda>s r. mx_id r = mx_id s \<and> mx_floor s - 1 \<le> mx_floor r \<and> mx_floor r \<le> mx_floor s + 1) rows final"
    unfolding final_def by (auto simp: move_floor_def list_all2_map2 list_all2_refl moved_row_def elim!: list_all2_mono)
  have cl: "list_all2 (\<lambda>c r. mx_id r = xc_extraId c \<and> close_to c (mx_floor r)) cs final"
  proof (rule list_all2_all_nthI)
    show "length cs = length final" using r f by (simp add: list_all2_lengthD)
    fix k assume k: "k < length cs"
    then have kr: "k < length rows" using r by (simp add: list_all2_lengthD)
    have d: "0 < denominator (xc_change (cs ! k))" using den k by simp
    from list_all2_nthD [OF r k] list_all2_nthD [OF f kr] floor_bounds [OF d]
    show "mx_id (final ! k) = xc_extraId (cs ! k) \<and> close_to (cs ! k) (mx_floor (final ! k))"
      unfolding close_to_def by auto
  qed
  show ?thesis by (rule list_all2_trans [OF _ cl o]) auto
qed

text \<open>Same-sign changes go through the penny allocator over integer weights.\<close>

lemma change_denominator_InrD:
  assumes "change_denominator cs = Inr d" "\<forall>c\<in>set cs. 0 < denominator (xc_change c)"
  shows "0 < d \<and> (\<forall>c\<in>set cs. denominator (xc_change c) dvd d)"
proof -
  have gen: "fold_r (\<lambda>d c. bind_r (shared_checked (exactPence d (denominator (xc_change c)))) (\<lambda>q.
       let d' = d * denominator q in if length (int_text d') > MAX_EXACT_PENCE_DIGITS then Inl MONEY_LIMIT else Inr d')) a cs = Inr d
    \<Longrightarrow> 0 < a \<Longrightarrow> 0 < d \<and> a dvd d \<and> (\<forall>c\<in>set cs. denominator (xc_change c) dvd d)" for a
    using assms(2)
  proof (induction cs arbitrary: a)
    case (Cons c cs)
    let ?k = "denominator (xc_change c)"
    from Cons.prems(1) obtain q where q: "exactPence a ?k = Inr q" and
      r: "fold_r (\<lambda>d c. bind_r (shared_checked (exactPence d (denominator (xc_change c)))) (\<lambda>q.
       let d' = d * denominator q in if length (int_text d') > MAX_EXACT_PENCE_DIGITS then Inl MONEY_LIMIT else Inr d'))
        (a * denominator q) cs = Inr d"
      by (auto simp: result_simps Let_def split: if_splits)
    have k: "0 < ?k" using Cons.prems(3) by simp
    have "denominator q = js_div ?k (gcd_big ?k a)"
      using q k Cons.prems(2) by (auto simp: exactPence_def Let_def gcd_big_eq gcd.commute split: if_splits)
    then have l: "a * denominator q = lcm ?k a" using lcm_step [OF k Cons.prems(2)] by (simp add: mult.commute)
    from Cons.IH [OF r] k Cons.prems(2,3) show ?case unfolding l
      by (auto simp: lcm_pos intro: dvd_trans [OF dvd_lcm1] dvd_trans [OF dvd_lcm2])
  qed simp
  from gen [of 1] assms(1) show ?thesis by (simp add: change_denominator_def)
qed

lemma change_weight_val:
  assumes "0 < d" "0 < denominator (xc_change c)" "denominator (xc_change c) dvd d"
  shows "w_id (change_weight d c) = xc_extraId c" "0 \<le> w_weight (change_weight d c)"
    "of_int (w_weight (change_weight d c)) = \<bar>val (xc_change c)\<bar> * of_int d"
proof -
  obtain k where k: "d = denominator (xc_change c) * k" using assms(3) by (elim dvdE)
  then have k': "js_div d (denominator (xc_change c)) = k" "0 < k" using assms by (simp_all add: js_div_dvd zero_less_mult_iff)
  then have w: "w_weight (change_weight d c) = \<bar>numerator (xc_change c)\<bar> * k"
    by (simp add: change_weight_def Let_def abs_if mult_less_0_iff)
  show "w_id (change_weight d c) = xc_extraId c" by (simp add: change_weight_def Let_def)
  show "0 \<le> w_weight (change_weight d c)" using k'(2) by (simp add: w)
  show "of_int (w_weight (change_weight d c)) = \<bar>val (xc_change c)\<bar> * of_int d"
    unfolding w using assms(2) by (simp add: val_def k)
qed

text \<open>A share within a penny of its proportion of a delta that is within a penny of the total.\<close>

lemma share_close:
  fixes f x a S T d :: rat
  assumes "\<bar>f * T - d * a\<bar> \<le> T" "0 < T" "0 \<le> a" "a \<le> T" and sgn: "x = s * a" "S = s * T" "s = 1 \<or> s = - 1"
    and near: "\<bar>d - S\<bar> \<le> 1"
  shows "\<bar>f - x\<bar> \<le> 2"
proof -
  have "f * T - x * T = (f * T - d * a) + (d - S) * a" using sgn by (auto simp: algebra_simps)
  moreover have "\<bar>(d - S) * a\<bar> \<le> a" using near assms(3) by (simp add: abs_mult mult_left_le_one_le)
  ultimately have "\<bar>f * T - x * T\<bar> \<le> T + a" using assms(1) by linarith
  also have "\<dots> \<le> 2 * T" using assms(4) by simp
  finally have "\<bar>f - x\<bar> * T \<le> 2 * T" using assms(2) by (simp add: left_diff_distrib [symmetric] abs_mult)
  then show ?thesis using assms(2) by simp
qed

lemma sum_list_abs_sign:
  assumes "\<forall>c\<in>set cs. h c = s * \<bar>h c\<bar>" shows "sum_list (map h cs) = s * (sum_list (map (\<lambda>c. \<bar>h c\<bar>) cs) :: rat)"
  using assms by (induction cs) (auto simp: algebra_simps)

lemma member_le_sum_list_rat:
  "x \<in> set xs \<Longrightarrow> \<forall>y\<in>set xs. (0::rat) \<le> f y \<Longrightarrow> f x \<le> sum_list (map f xs)"
proof (induction xs)
  case (Cons a xs)
  then have "0 \<le> sum_list (map f xs)" by (intro sum_list_nonneg) auto
  with Cons show ?case by auto
qed simp

lemma same_sign_close:
  assumes out: "allocateMoney before delta (map (change_weight d) cs) = Inr out"
    and d: "0 < d" "\<forall>c\<in>set cs. denominator (xc_change c) dvd d"
    and den: "\<forall>c\<in>set cs. 0 < denominator (xc_change c)" and ids: "distinct (map xc_extraId cs)"
    and money: "money_ok delta" and s: "s = 1 \<or> s = - 1" "\<forall>c\<in>set cs. val (xc_change c) = s * \<bar>val (xc_change c)\<bar>"
    and some: "\<exists>c\<in>set cs. val (xc_change c) \<noteq> 0"
    and near: "\<bar>of_int (pence delta) - sum_list (map (val \<circ> xc_change) cs)\<bar> \<le> 1"
  shows "map fst out = map xc_extraId cs \<and> (\<forall>c\<in>set cs. \<forall>m. map_of out (xc_extraId c) = Some m \<longrightarrow> close_to c (pence m))"
proof -
  let ?ws = "map (change_weight d) cs" and ?T = "sum_list (map (\<lambda>c. \<bar>val (xc_change c)\<bar>) cs)"
  have w: "w_id (change_weight d c) = xc_extraId c" "0 \<le> w_weight (change_weight d c)"
    "of_int (w_weight (change_weight d c)) = \<bar>val (xc_change c)\<bar> * of_int d" if "c \<in> set cs" for c
    using change_weight_val [OF d(1)] d(2) den that by blast+
  have wid: "map w_id ?ws = map xc_extraId cs" using w(1) by simp
  have "(of_int (sum_list (map w_weight ?ws)) :: rat) = ?T * of_int d"
    using w(3) by (induction cs) (auto simp: distrib_right)
  note W = this
  from some obtain c0 where "c0 \<in> set cs" "val (xc_change c0) \<noteq> 0" by blast
  then have T: "0 < ?T" using member_le_sum_list_rat [of c0 cs "\<lambda>c. \<bar>val (xc_change c)\<bar>"] by (auto simp: less_le_trans)
  then have "(0::rat) < of_int (sum_list (map w_weight ?ws))" using W d(1) by simp
  then have pos: "0 < sum_list (map w_weight ?ws)" by (simp only: of_int_0_less_iff)
  have dw: "distinct (map w_id ?ws)" by (simp only: wid ids)
  have nn: "\<forall>v\<in>set ?ws. 0 \<le> w_weight v" using w(2) by auto
  from allocateMoney_shares [OF money dw nn pos, of before, unfolded wid] out
  have o: "map fst out = map xc_extraId cs" and sh: "\<forall>(i, m)\<in>set out. \<exists>v\<in>set ?ws. w_id v = i \<and>
      \<bar>pence m * sum_list (map w_weight ?ws) - pence delta * w_weight v\<bar> \<le> sum_list (map w_weight ?ws)"
    by (auto simp del: map_map)
  have "close_to c (pence m)" if c: "c \<in> set cs" and m: "map_of out (xc_extraId c) = Some m" for c m
  proof -
    from sh map_of_SomeD [OF m] obtain c' where c': "c' \<in> set cs" "w_id (change_weight d c') = xc_extraId c" and
      b: "\<bar>pence m * sum_list (map w_weight ?ws) - pence delta * w_weight (change_weight d c')\<bar> \<le> sum_list (map w_weight ?ws)"
      by auto
    have "c' = c" using c c' w(1) ids by (simp add: distinct_map inj_on_def)
    have "(of_int \<bar>pence m * sum_list (map w_weight ?ws) - pence delta * w_weight (change_weight d c)\<bar> :: rat)
        \<le> of_int (sum_list (map w_weight ?ws))" using b \<open>c' = c\<close> by (simp only: of_int_le_iff)
    then have "\<bar>of_int (pence m) * (?T * of_int d) - of_int (pence delta) * (\<bar>val (xc_change c)\<bar> * of_int d)\<bar> \<le> ?T * of_int d"
      unfolding of_int_abs of_int_diff of_int_mult W w(3) [OF c] .
    moreover have "of_int (pence m) * (?T * of_int d) - of_int (pence delta) * (\<bar>val (xc_change c)\<bar> * of_int d) =
        (of_int (pence m) * ?T - of_int (pence delta) * \<bar>val (xc_change c)\<bar>) * (of_int d :: rat)"
      by (simp add: algebra_simps)
    ultimately have "\<bar>of_int (pence m) * ?T - of_int (pence delta) * \<bar>val (xc_change c)\<bar>\<bar> \<le> ?T"
      using d(1) by (simp add: abs_mult)
    moreover have "\<bar>val (xc_change c)\<bar> \<le> ?T"
      using member_le_sum_list_rat [of c cs "\<lambda>c. \<bar>val (xc_change c)\<bar>"] c by simp
    moreover have "sum_list (map (val \<circ> xc_change) cs) = s * ?T"
      using sum_list_abs_sign [of cs "val \<circ> xc_change" s] s(2) by (simp add: comp_def)
    ultimately show ?thesis unfolding close_to_def
      using share_close [of "of_int (pence m)" ?T "of_int (pence delta)" "\<bar>val (xc_change c)\<bar>" "val (xc_change c)" s "s * ?T"]
        T near s c by simp
  qed
  with o show ?thesis by blast
qed

lemma check_carry_InrD:
  assumes "check_carry delta cs = Inr u" "\<forall>c\<in>set cs. 0 < denominator (xc_change c)"
  shows "\<bar>of_int (pence delta) - sum_list (map (val \<circ> xc_change) cs)\<bar> \<le> 1"
proof -
  from assms(1) obtain x d m carry low high where x: "sumExactPence0 (map xc_change cs) = Inr x"
    and d: "exactPence (pence delta) 1 = Inr d" and m: "exactPence (- numerator x) (denominator x) = Inr m"
    and c: "addExactPence d m = Inr carry" and lo: "exactPence (- 1) 1 = Inr low" and hi: "exactPence 1 1 = Inr high"
    and le: "\<not> (compareExactPence carry low < 0 \<or> compareExactPence carry high > 0)"
    unfolding check_carry_def bind_r_Inr_iff shared_checked_Inr_iff if_Inl_Inr_iff by blast
  have "val x = sum_list (map (val \<circ> xc_change) cs)" "0 < denominator x"
    using sumExactPence0_InrD [OF x] assms(2) by simp_all
  then have v: "val m = - sum_list (map (val \<circ> xc_change) cs)" "exact_ok m"
    using exactPence_InrD [OF m] by (simp_all add: val_def)
  have "exact_ok carry \<and> val carry = of_int (pence delta) - sum_list (map (val \<circ> xc_change) cs)"
    using ex.add_InrD [OF c _ v(2)] exactPence_InrD [OF d] v(1) by simp
  then show ?thesis using le exactPence_InrD [OF lo] exactPence_InrD [OF hi] by (simp add: ex.cmp_iff not_less abs_le_iff)
qed

lemma list_all2_map_of:
  assumes "list_all2 (\<lambda>c e. fst e = k c \<and> P c (snd e)) cs out" "distinct (map k cs)"
  shows "map fst out = map k cs \<and> (\<forall>c\<in>set cs. \<exists>m. map_of out (k c) = Some m \<and> P c m)"
proof
  show f: "map fst out = map k cs" using assms(1) by (auto simp: list_all2_conv_all_nth intro: nth_equalityI)
  show "\<forall>c\<in>set cs. \<exists>m. map_of out (k c) = Some m \<and> P c m"
  proof
    fix c assume "c \<in> set cs"
    then obtain n where n: "n < length cs" "c = cs ! n" by (metis in_set_conv_nth)
    with assms(1) have e: "fst (out ! n) = k c \<and> P c (snd (out ! n))" "n < length out"
      by (auto simp: list_all2_conv_all_nth)
    moreover have "map_of out (fst (out ! n)) = Some (snd (out ! n))"
      using e(2) f assms(2) by (simp add: map_of_is_SomeI)
    ultimately show "\<exists>m. map_of out (k c) = Some m \<and> P c m" by auto
  qed
qed

lemma apportion_close:
  assumes out: "apportion before delta cs = Inr out" and den: "\<forall>c\<in>set cs. 0 < denominator (xc_change c)"
    and ids: "distinct (map xc_extraId cs)" and money: "money_ok delta"
    and some: "\<exists>c\<in>set cs. numerator (xc_change c) \<noteq> 0"
    and near: "\<bar>of_int (pence delta) - sum_list (map (val \<circ> xc_change) cs)\<bar> \<le> 1"
  shows "\<forall>c\<in>set cs. \<exists>m. map_of out (xc_extraId c) = Some m \<and> close_to c (pence m)"
proof -
  have nz: "\<exists>c\<in>set cs. val (xc_change c) \<noteq> 0" using some den val_zero_iff by blast
  have same: "?thesis" if "s = 1 \<or> s = - 1" "\<forall>c\<in>set cs. val (xc_change c) = s * \<bar>val (xc_change c)\<bar>"
    and "bind_r (change_denominator cs) (\<lambda>d. money_limit (allocateMoney before delta (map (change_weight d) cs))) = Inr out" for s
  proof -
    from that(3) obtain d where d: "change_denominator cs = Inr d"
      and a: "allocateMoney before delta (map (change_weight d) cs) = Inr out" by (auto simp: result_simps)
    from change_denominator_InrD [OF d den] have "0 < d" "\<forall>c\<in>set cs. denominator (xc_change c) dvd d" by simp_all
    from same_sign_close [OF a this den ids money that(1,2) nz near]
    have c: "map fst out = map xc_extraId cs" "\<forall>c\<in>set cs. \<forall>m. map_of out (xc_extraId c) = Some m \<longrightarrow> close_to c (pence m)"
      by simp_all
    show ?thesis
    proof
      fix c assume "c \<in> set cs"
      then have "xc_extraId c \<in> fst ` set out" using c(1) by (metis list.set_map image_eqI)
      then obtain m where "map_of out (xc_extraId c) = Some m" by (metis map_of_eq_None_iff not_None_eq)
      with c(2) \<open>c \<in> set cs\<close> show "\<exists>m. map_of out (xc_extraId c) = Some m \<and> close_to c (pence m)" by blast
    qed
  qed
  have sg: "numerator (xc_change c) \<ge> 0 \<longleftrightarrow> val (xc_change c) \<ge> 0" "numerator (xc_change c) \<le> 0 \<longleftrightarrow> val (xc_change c) \<le> 0"
    if "c \<in> set cs" for c using bspec [OF den that] by (auto simp: val_def zero_le_divide_iff divide_le_0_iff)
  consider (up) "list_all (\<lambda>c. numerator (xc_change c) \<ge> 0) cs \<and> pence delta \<ge> 0"
    | (down) "list_all (\<lambda>c. numerator (xc_change c) \<le> 0) cs \<and> pence delta \<le> 0"
    | (mixed) "apportionMixed (pence delta) cs = Inr out"
    using out unfolding apportion_def by (auto split: if_splits)
  then show ?thesis
  proof cases
    case up
    with out show ?thesis by (intro same [of 1]) (auto simp: apportion_def list_all_iff sg)
  next
    case down
    with out show ?thesis by (intro same [of "- 1"]) (auto simp: apportion_def list_all_iff sg)
  next
    case mixed
    from list_all2_map_of [OF apportionMixed_close [OF mixed den ids] ids] show ?thesis by simp
  qed
qed

lemma fee_line_simps [simp]: "sl_extraId (fee_line a c) = xc_extraId c" "sl_contributionChange (fee_line a c) = xc_change c"
  by (simp_all add: fee_line_def)

lemma statement_lines_InrD:
  assumes out: "statement_lines before delta cs = Inr out" and den: "\<forall>c\<in>set cs. 0 < denominator (xc_change c)"
    and money: "money_ok delta"
  shows "distinct (map xc_extraId cs)" "map sl_extraId out = map xc_extraId cs"
    "map (\<lambda>l. (sl_extraId l, sl_contributionChange l)) out = map (\<lambda>c. (xc_extraId c, xc_change c)) cs"
    "sum_list (map (pence \<circ> sl_fee) out) = pence delta"
    "\<bar>of_int (pence delta) - sum_list (map (val \<circ> xc_change) cs)\<bar> \<le> 1"
    "\<forall>l\<in>set out. \<bar>of_int (pence (sl_fee l)) - val (sl_contributionChange l)\<bar> \<le> 2"
proof -
  show ids: "distinct (map xc_extraId cs)"
    using out unfolding statement_lines_def if_Inl_Inr_iff by simp
  from out have rest: "(if cs = [] then (if pence delta \<noteq> 0 then Inl INVALID_STATEMENT else Inr [])
      else if filter (\<lambda>c. numerator (xc_change c) \<noteq> 0) cs = [] then
        (if pence delta \<noteq> 0 then Inl INVALID_STATEMENT else Inr (map (fee_line []) cs))
      else bind_r (check_carry delta cs) (\<lambda>_.
      bind_r (apportion before delta cs) (\<lambda>allocated.
      let output = map (fee_line allocated) cs in
      if sum_list (map (pence \<circ> sl_fee) output) \<noteq> pence delta then Inl INVALID_STATEMENT else Inr output))) = Inr out"
    unfolding statement_lines_def if_Inl_Inr_iff(1) bind_r_Inr_iff by blast
  obtain a where o: "out = map (fee_line a) cs" and s: "sum_list (map (pence \<circ> sl_fee) out) = pence delta"
    and near: "\<bar>of_int (pence delta) - sum_list (map (val \<circ> xc_change) cs)\<bar> \<le> 1"
    and close: "\<forall>c\<in>set cs. close_to c (pence (sl_fee (fee_line a c)))"
  proof (cases "filter (\<lambda>c. numerator (xc_change c) \<noteq> 0) cs = []")
    case True
    then have z: "\<forall>c\<in>set cs. val (xc_change c) = 0" by (auto simp: filter_empty_conv val_def)
    then have "map (val \<circ> xc_change) cs = map (\<lambda>_. 0) cs" by simp
    then have "sum_list (map (val \<circ> xc_change) cs) = 0" by (simp only: sum_list_0)
    moreover have "pence delta = 0" "out = map (fee_line []) cs" using rest True by (auto split: if_splits)
    moreover have "pence (sl_fee (fee_line [] c)) = 0" for c by (simp add: fee_line_def gbp_def)
    ultimately show ?thesis using z by (intro that [of "[]"]) (simp_all add: close_to_def comp_def)
  next
    case False
    then have "cs \<noteq> []" by auto
    with rest False obtain al where c: "check_carry delta cs = Inr ()" and al: "apportion before delta cs = Inr al"
      and fin: "out = map (fee_line al) cs" "sum_list (map (pence \<circ> sl_fee) out) = pence delta"
      by (auto simp: result_simps Let_def split: if_splits)
    note near = check_carry_InrD [OF c den]
    have "\<exists>c\<in>set cs. numerator (xc_change c) \<noteq> 0" using False by (auto simp: filter_empty_conv)
    from apportion_close [OF al den ids money this near]
    have "\<forall>c\<in>set cs. close_to c (pence (sl_fee (fee_line al c)))" by (auto simp: fee_line_def)
    with fin near show ?thesis by (intro that [of al])
  qed
  show "sum_list (map (pence \<circ> sl_fee) out) = pence delta" by (rule s)
  show "\<bar>of_int (pence delta) - sum_list (map (val \<circ> xc_change) cs)\<bar> \<le> 1" by (rule near)
  show "map sl_extraId out = map xc_extraId cs" by (simp add: o comp_def)
  show "map (\<lambda>l. (sl_extraId l, sl_contributionChange l)) out = map (\<lambda>c. (xc_extraId c, xc_change c)) cs"
    by (simp add: o comp_def)
  show "\<forall>l\<in>set out. \<bar>of_int (pence (sl_fee l)) - val (sl_contributionChange l)\<bar> \<le> 2"
    using close by (auto simp: o close_to_def)
qed

lemma sorted_changes_ids:
  assumes "distinct (map xc_extraId (sorted_changes cs))"
  shows "sorted_wrt (<) (map xc_extraId (sorted_changes cs))"
proof -
  have "sorted_wrt (\<lambda>a b. \<not> xc_extraId b < xc_extraId a) (sorted_changes cs)"
    unfolding sorted_changes_def by (rule sorted_wrt_sort_by) auto
  then have "sorted (map xc_extraId (sorted_changes cs))" by (simp add: sorted_map not_less)
  with assms show ?thesis by (simp add: strict_sorted_iff)
qed

text \<open>
  C16. A posting delta is spread over the extras without losing a penny: when \<open>statementLines\<close>
  returns, there is exactly one line for each supplied change, in strictly increasing order of extra
  id, the fees add up to the delta, the delta is within one penny of the exact total, and each fee is
  within two pence of the exact change it stands for, whether the changes have one sign (penny
  allocator) or mixed signs (signed floors with a carry).
\<close>

theorem statementLines_exact:
  assumes "statementLines before deltaPence supplied = Inr out"
  shows "sorted_wrt (<) (map sl_extraId out) \<and>
    set (map (\<lambda>l. (sl_extraId l, sl_contributionChange l)) out) = set (map (\<lambda>c. (xc_extraId c, xc_change c)) supplied) \<and>
    length out = length supplied \<and>
    sum_list (map (pence \<circ> sl_fee) out) = deltaPence \<and>
    \<bar>of_int deltaPence - sum_list (map (val \<circ> sl_contributionChange) out)\<bar> \<le> 1 \<and>
    (\<forall>l\<in>set out. \<bar>of_int (pence (sl_fee l)) - val (sl_contributionChange l)\<bar> \<le> 2)"
proof -
  from assms obtain delta where ok: "changeV1 supplied" and d: "money_of (JInt deltaPence) = Inr delta"
    and out: "statement_lines before delta (sorted_changes supplied) = Inr out"
    unfolding statementLines_def checked_Inr_iff bind_r_Inr_iff readEnterprise_Inr_iff money_limit_Inr_iff by blast
  have pd: "money_ok delta" "pence delta = deltaPence" using money_of_ok [OF d] by simp_all
  have den: "\<forall>c\<in>set (sorted_changes supplied). 0 < denominator (xc_change c)"
    using ok by (simp add: changeV1_def sorted_changes_def list_all_iff)
  note l = statement_lines_InrD [OF out den pd(1)]
  have "map sl_contributionChange out = map xc_change (sorted_changes supplied)"
    using arg_cong [OF l(3), of "map snd"] by (simp add: comp_def)
  then have "map (val \<circ> sl_contributionChange) out = map (val \<circ> xc_change) (sorted_changes supplied)"
    by (metis map_map)
  moreover have "length out = length supplied" using arg_cong [OF l(2), of length] by (simp add: sorted_changes_def)
  moreover have "set (map (\<lambda>c. (xc_extraId c, xc_change c)) (sorted_changes supplied)) = set (map (\<lambda>c. (xc_extraId c, xc_change c)) supplied)"
    by (simp add: sorted_changes_def)
  ultimately show ?thesis using l sorted_changes_ids [OF l(1)] pd(2) by (simp only: l(3) simp_thms)
qed

definition sample_changes :: "extra_change list" where
  "sample_changes = [\<lparr>xc_extraId = ''b'', xc_change = \<lparr>numerator = - 3, denominator = 1\<rparr>\<rparr>,
     \<lparr>xc_extraId = ''a'', xc_change = \<lparr>numerator = 5, denominator = 1\<rparr>\<rparr>]"

lemma sample_serials:
  "serializeExactPence \<lparr>numerator = - 3, denominator = 1\<rparr> = \<lparr>numerator_text = ''-3'', denominator_text = ''1''\<rparr>"
  "serializeExactPence \<lparr>numerator = 5, denominator = 1\<rparr> = \<lparr>numerator_text = ''5'', denominator_text = ''1''\<rparr>"
  by code_simp+

lemma sample_texts:
  "parseExactPence exactPenceV1 \<lparr>numerator_text = ''-3'', denominator_text = ''1''\<rparr> = Inr \<lparr>numerator = - 3, denominator = 1\<rparr>"
  "parseExactPence exactPenceV1 \<lparr>numerator_text = ''5'', denominator_text = ''1''\<rparr> = Inr \<lparr>numerator = 5, denominator = 1\<rparr>"
proof -
  have "integer_text ''-3''" "integer_text ''5''" "positive_text ''1''" "int_of_text ''-3'' = - 3" "int_of_text ''5'' = 5"
    "int_of_text ''1'' = 1" by code_simp+
  then show "parseExactPence exactPenceV1 \<lparr>numerator_text = ''-3'', denominator_text = ''1''\<rparr> = Inr \<lparr>numerator = - 3, denominator = 1\<rparr>"
    "parseExactPence exactPenceV1 \<lparr>numerator_text = ''5'', denominator_text = ''1''\<rparr> = Inr \<lparr>numerator = 5, denominator = 1\<rparr>"
    by (simp_all add: parseExactPence_def exactPenceV1_def exact_text_ok_def integerOf_def positiveOf_def
        MAX_EXACT_PENCE_DIGITS_eq MAX_MONEY_PENCE_def)
qed

lemma sample_apportioned:
  "sorted_changes sample_changes = [\<lparr>xc_extraId = ''a'', xc_change = \<lparr>numerator = 5, denominator = 1\<rparr>\<rparr>,
     \<lparr>xc_extraId = ''b'', xc_change = \<lparr>numerator = - 3, denominator = 1\<rparr>\<rparr>]"
  "apportion (<) (gbp 3) (sorted_changes sample_changes) = Inr [(''a'', gbp 6), (''b'', gbp (- 3))]"
  by code_simp+

lemma sample_carry: "check_carry (gbp 3) (sorted_changes sample_changes) = Inr ()"
proof -
  have "sumExactPence0 [\<lparr>numerator = 5, denominator = 1\<rparr>, \<lparr>numerator = - 3, denominator = 1\<rparr>] = Inr \<lparr>numerator = 2, denominator = 1\<rparr>"
    using sumExactPence0_whole [of "[5, - 3]"] by simp
  moreover have "addExactPence \<lparr>numerator = 3, denominator = 1\<rparr> \<lparr>numerator = - 2, denominator = 1\<rparr> = Inr \<lparr>numerator = 1, denominator = 1\<rparr>"
    by code_simp
  ultimately show ?thesis
    by (simp add: check_carry_def sample_apportioned(1) shared_checked_def compareExactPence_def gbp_def)
qed

theorem statementLines_exact_witness:
  "\<exists>out. statementLines (<) 3 sample_changes = Inr out \<and> map (pence \<circ> sl_fee) out = [6, - 3] \<and>
     sorted_wrt (<) (map sl_extraId out)"
proof -
  have "check_change () \<lparr>xc_extraId = i, xc_change = \<lparr>numerator = - 3, denominator = 1\<rparr>\<rparr> = Inr ()"
    "check_change () \<lparr>xc_extraId = i, xc_change = \<lparr>numerator = 5, denominator = 1\<rparr>\<rparr> = Inr ()" for i
    by (simp_all add: check_change_def sample_serials sample_texts shared_checked_def)
  then have "statement_lines (<) (gbp 3) (sorted_changes sample_changes) =
      Inr (map (fee_line [(''a'', gbp 6), (''b'', gbp (- 3))]) (sorted_changes sample_changes))"
    unfolding statement_lines_def sample_apportioned(2) sample_carry by (simp add: sample_apportioned(1) fee_line_def)
  then have out: "statementLines (<) 3 sample_changes =
      Inr (map (fee_line [(''a'', gbp 6), (''b'', gbp (- 3))]) (sorted_changes sample_changes))"
    by (simp add: statementLines_def checked_def readEnterprise_def changeV1_def sample_changes_def money_of_JInt
        MAX_MONEY_PENCE_def money_limit_def)
  show ?thesis
  proof (intro exI conjI)
    show "statementLines (<) 3 sample_changes =
      Inr (map (fee_line [(''a'', gbp 6), (''b'', gbp (- 3))]) (sorted_changes sample_changes))" by (rule out)
    show "map (pence \<circ> sl_fee) (map (fee_line [(''a'', gbp 6), (''b'', gbp (- 3))]) (sorted_changes sample_changes)) = [6, - 3]"
      by (simp add: sample_apportioned(1) fee_line_def)
    show "sorted_wrt (<) (map sl_extraId (map (fee_line [(''a'', gbp 6), (''b'', gbp (- 3))]) (sorted_changes sample_changes)))"
      using statementLines_exact [OF out] by blast
  qed
qed

end
