(* ===== verification/Enterprise_Receipt.thy ===== *)
theory Enterprise_Receipt
  imports Enterprise_Fee
begin

text \<open>
  What \<open>allocateEnterpriseReceipt\<close> of \<^verbatim>\<open>enterprise-domain/fee.ts\<close> guarantees: only exported
  canonical extras receive shares, and a reversal takes from no line more than its original receipt
  gave it.
\<close>

section \<open>Maps built from entries\<close>

lemma js_map_snoc: "js_map (es @ [(k, v)]) = AList.update k v (js_map es)"
  by (simp add: js_map_def)

lemma map_of_js_map: "map_of (js_map es) = map_of (rev es)"
proof (induction es rule: rev_induct)
  case (snoc e es)
  then show ?case by (cases e) (simp add: js_map_snoc)
qed (simp add: js_map_def)

lemma js_map_SomeD: "map_of (js_map es) k = Some v \<Longrightarrow> (k, v) \<in> set es"
  unfolding map_of_js_map by (drule map_of_SomeD) simp

section \<open>Extras that receive shares\<close>

definition exported_canonical :: "enterprise_receipt \<Rightarrow> enterprise_extra \<Rightarrow> bool" where
  "exported_canonical i e \<longleftrightarrow> ex_exportLineId e \<noteq> None \<and> ex_exportedAt e \<noteq> None \<and>
     (\<exists>g\<in>set (er_groups i). canonical_of g = Some e \<and> assertDuplicateGroup g = Inr () \<and>
        gr_tenantId g = er_tenantId i \<and> gr_jobId g = er_jobId i)"

lemma collect_groups_InrD:
  assumes "fold_r (collect_group i) ([], []) (er_groups i) = Inr s" "map_of (fst s) x = Some e"
  shows "ex_id e = x \<and> (\<exists>g\<in>set (er_groups i). canonical_of g = Some e \<and> assertDuplicateGroup g = Inr () \<and>
        gr_tenantId g = er_tenantId i \<and> gr_jobId g = er_jobId i)"
proof -
  let ?P = "\<lambda>x e. ex_id e = x \<and> (\<exists>g\<in>set (er_groups i). canonical_of g = Some e \<and> assertDuplicateGroup g = Inr () \<and>
        gr_tenantId g = er_tenantId i \<and> gr_jobId g = er_jobId i)"
  have "\<forall>x e. map_of (fst s) x = Some e \<longrightarrow> ?P x e"
  proof (rule fold_r_invariant [OF assms(1)])
    fix s g s' assume g: "g \<in> set (er_groups i)" and I: "\<forall>x e. map_of (fst s) x = Some e \<longrightarrow> ?P x e"
      and st: "collect_group i s g = Inr s'"
    from st obtain c where c: "gr_tenantId g = er_tenantId i" "gr_jobId g = er_jobId i" "assertDuplicateGroup g = Inr ()"
      "canonical_of g = Some c" and s': "fst s' = AList.update (ex_id c) c (fst s)"
      unfolding collect_group_def Let_def by (auto simp: result_simps split: option.splits if_splits)
    show "\<forall>x e. map_of (fst s') x = Some e \<longrightarrow> ?P x e"
      unfolding s' map_of_update using I c g by (auto split: if_splits)
  qed simp
  with assms(2) show ?thesis by blast
qed

lemma bound_extra_exported:
  assumes "fold_r (collect_group i) ([], []) (er_groups i) = Inr s" "list_all (binding_ok (fst s)) (er_bindings i)"
    and "bound_extra (js_map (map (\<lambda>b. (lb_lineId b, b)) (er_bindings i))) line = Some x"
  shows "\<exists>e. ex_id e = x \<and> exported_canonical i e"
proof -
  from assms(3) obtain b where b: "(line, b) \<in> set (map (\<lambda>b. (lb_lineId b, b)) (er_bindings i))" "lb_extraId b = Some x"
    by (auto simp: bound_extra_def dest!: js_map_SomeD split: option.splits)
  then have "binding_ok (fst s) b" using assms(2) by (auto simp: list_all_iff)
  with b(2) obtain e where "map_of (fst s) x = Some e" "ex_exportLineId e \<noteq> None" "ex_exportedAt e \<noteq> None"
    by (auto simp: binding_ok_def split: option.splits)
  with collect_groups_InrD [OF assms(1)] show ?thesis unfolding exported_canonical_def by blast
qed

section \<open>Reversals\<close>

lemma check_reversal_line_InrD:
  assumes c: "check_reversal_line original settled remaining u l = Inr ()"
    and settled: "\<And>k a. map_of settled k = Some a \<Longrightarrow> exact_ok (la_gross a)"
    and remaining: "\<And>k v. map_of remaining k = Some v \<Longrightarrow> 0 < denominator v"
  shows "text_val (rl_outstandingGross l) \<le> (case map_of settled (rl_id l) of None \<Rightarrow> 0 | Some a \<Rightarrow> val (la_gross a))"
proof -
  let ?a = "case map_of settled (rl_id l) of None \<Rightarrow> zero_pence | Some a \<Rightarrow> la_gross a"
  from c obtain balance out where b: "map_of remaining (rl_id l) = Some balance"
    and le: "\<not> compareExactPence balance ?a > 0"
    and o: "parseExactPence exactPenceV1 (rl_outstandingGross l) = Inr out" "compareExactPence balance out = 0"
    unfolding check_reversal_line_def Let_def by (auto simp: result_simps split: option.splits if_splits)
  have a: "0 < denominator ?a" using settled by (auto split: option.splits simp: zero_pence_def)
  have "val balance \<le> val ?a" using le compareExactPence_val [OF remaining [OF b] a] by (simp split: if_splits)
  moreover have "0 < denominator out" "val out = text_val (rl_outstandingGross l)" using parseExactPence_InrD [OF o(1)] by simp_all
  moreover from this have "val balance = val out" using o(2) compareExactPence_val [OF remaining [OF b], of out]
    by (simp split: if_splits)
  ultimately show ?thesis by (auto split: option.splits)
qed

lemma check_reversal_InrD:
  assumes "check_reversal i original = Inr ()"
  obtains out where "same_receipt original (er_receipt i)" "\<not> reversal_recorded i"
    "allocateReceiptToLines (og_receipt original) = Inr out"
    "\<forall>l\<in>set (ra_lines (er_receipt i)). 0 < text_val (rl_outstandingGross l) \<longrightarrow>
       (\<exists>a\<in>set out. la_lineId a = rl_id l \<and> text_val (rl_outstandingGross l) \<le> val (la_gross a))"
proof -
  from assms obtain out entries where s: "same_receipt original (er_receipt i)" "\<not> reversal_recorded i"
    and out: "allocation_of (og_receipt original) = Inr out"
    and en: "map_r (\<lambda>l. bind_r (shared_checked (parseExactPence exactPenceV1 (rg_gross l))) (\<lambda>v. Inr (rg_lineId l, v)))
        (og_remainingGross original) = Inr entries"
    and lines: "fold_r (check_reversal_line original (js_map (map (\<lambda>l. (la_lineId l, l)) out)) (js_map entries)) ()
        (ra_lines (er_receipt i)) = Inr ()"
    unfolding check_reversal_def Let_def if_Inl_Inr_iff bind_r_Inr_iff by (elim exE conjE) (rule that; simp)
  from out have o: "allocateReceiptToLines (og_receipt original) = Inr out" by (simp add: allocation_of_def map_err_Inr_iff)
  have settled: "a \<in> set out \<and> la_lineId a = k" if "map_of (js_map (map (\<lambda>l. (la_lineId l, l)) out)) k = Some a" for k a
    using js_map_SomeD [OF that] by auto
  have ok: "exact_ok (la_gross a)" if "map_of (js_map (map (\<lambda>l. (la_lineId l, l)) out)) k = Some a" for k a
  proof -
    from settled [OF that] allocateReceiptToLines_sound [OF o] obtain l where "share_sound (og_receipt original) l a" by blast
    then show ?thesis by (simp add: share_sound_def)
  qed
  have den: "0 < denominator v" if "map_of (js_map entries) k = Some v" for k v
    using map_r_InrD [OF en js_map_SomeD [OF that]] by (auto simp: result_simps dest!: parseExactPence_InrD)
  show thesis
  proof (rule that [OF s o], intro ballI impI)
    fix l assume l: "l \<in> set (ra_lines (er_receipt i))" "0 < text_val (rl_outstandingGross l)"
    have "text_val (rl_outstandingGross l) \<le> (case map_of (js_map (map (\<lambda>l. (la_lineId l, l)) out)) (rl_id l) of
        None \<Rightarrow> 0 | Some a \<Rightarrow> val (la_gross a))"
      by (rule check_reversal_line_InrD [OF fold_r_unit [OF lines l(1)]]) (erule ok, erule den)
    with l(2) obtain a where "map_of (js_map (map (\<lambda>l. (la_lineId l, l)) out)) (rl_id l) = Some a"
      "text_val (rl_outstandingGross l) \<le> val (la_gross a)"
      by (auto split: option.splits)
    with settled show "\<exists>a\<in>set out. la_lineId a = rl_id l \<and> text_val (rl_outstandingGross l) \<le> val (la_gross a)" by blast
  qed
qed

text \<open>
  C17. Money reaches only exported extras and comes back only from where it went: when
  \<open>allocateEnterpriseReceipt\<close> returns, its lines are exactly the shared allocator's allocation of the
  receipt, every extra named is the canonical extra of a consistent group of this tenant and job and
  has been exported, and for a reversal there is an original receipt with another source reference,
  not reversed before under this reference, such that each line takes back at most what that original
  receipt gave the same line.
\<close>

theorem enterprise_receipt_sound:
  assumes "allocateEnterpriseReceipt i = Inr out"
  shows "allocateReceiptToLines (er_receipt i) = Inr (map ea_line out) \<and>
    (\<forall>a\<in>set out. \<forall>x. ea_extraId a = Some x \<longrightarrow> (\<exists>e. ex_id e = x \<and> exported_canonical i e)) \<and>
    (ra_direction (er_receipt i) = Dir_reversal \<longrightarrow> (\<exists>original given. er_original i = Some original \<and>
       og_sourceRef original \<noteq> ra_sourceRef (er_receipt i) \<and> \<not> reversal_recorded i \<and>
       allocateReceiptToLines (og_receipt original) = Inr given \<and>
       (\<forall>a\<in>set out. \<exists>s\<in>set given. la_lineId s = la_lineId (ea_line a) \<and>
          0 \<le> - val (la_gross (ea_line a)) \<and> - val (la_gross (ea_line a)) \<le> val (la_gross s))))"
proof -
  let ?b = "js_map (map (\<lambda>b. (lb_lineId b, b)) (er_bindings i))"
  from assms obtain s al where s: "fold_r (collect_group i) ([], []) (er_groups i) = Inr s"
    and b: "list_all (binding_ok (fst s)) (er_bindings i)" and d: "check_direction i = Inr ()"
    and al: "allocation_of (er_receipt i) = Inr al"
    and out: "out = map (\<lambda>l. \<lparr>ea_line = l, ea_extraId = bound_extra ?b (la_lineId l),
       ea_originalSourceRef = map_option og_sourceRef (er_original i)\<rparr>) al"
    unfolding allocateEnterpriseReceipt_def allocate_bound_receipt_def Let_def readEnterprise_Inr_iff checked_Inr_iff
      bind_r_Inr_iff if_Inl_Inr_iff by auto
  have al': "allocateReceiptToLines (er_receipt i) = Inr al" using al by (simp add: allocation_of_def map_err_Inr_iff)
  have lines: "map ea_line out = al" by (simp add: out comp_def)
  have extras: "\<forall>a\<in>set out. \<forall>x. ea_extraId a = Some x \<longrightarrow> (\<exists>e. ex_id e = x \<and> exported_canonical i e)"
    using bound_extra_exported [OF s b] by (auto simp: out)
  have rev: "\<exists>original given. er_original i = Some original \<and>
       og_sourceRef original \<noteq> ra_sourceRef (er_receipt i) \<and> \<not> reversal_recorded i \<and>
       allocateReceiptToLines (og_receipt original) = Inr given \<and>
       (\<forall>a\<in>set al. \<exists>s\<in>set given. la_lineId s = la_lineId a \<and> 0 \<le> - val (la_gross a) \<and> - val (la_gross a) \<le> val (la_gross s))"
    if "ra_direction (er_receipt i) = Dir_reversal"
  proof -
    from d that obtain original where o: "er_original i = Some original" "check_reversal i original = Inr ()"
      by (auto simp: check_direction_def split: option.splits)
    from o(2) obtain given where g: "same_receipt original (er_receipt i)" "\<not> reversal_recorded i"
      "allocateReceiptToLines (og_receipt original) = Inr given"
      and takes: "\<forall>l\<in>set (ra_lines (er_receipt i)). 0 < text_val (rl_outstandingGross l) \<longrightarrow>
       (\<exists>a\<in>set given. la_lineId a = rl_id l \<and> text_val (rl_outstandingGross l) \<le> val (la_gross a))"
      by (rule check_reversal_InrD)
    have "\<exists>s\<in>set given. la_lineId s = la_lineId a \<and> 0 \<le> - val (la_gross a) \<and> - val (la_gross a) \<le> val (la_gross s)"
      if a: "a \<in> set al" for a
    proof -
      from allocateReceiptToLines_sound [OF al'] a obtain l where l: "l \<in> set (ra_lines (er_receipt i))"
        "line_open (er_receipt i) l" "share_sound (er_receipt i) l a" by blast
      from bspec [OF takes l(1)] l(2) obtain s where s: "s \<in> set given" "la_lineId s = rl_id l"
        "text_val (rl_outstandingGross l) \<le> val (la_gross s)" by (auto simp: line_open_def)
      with l(3) \<open>ra_direction (er_receipt i) = Dir_reversal\<close> show ?thesis
        by (intro bexI [of _ s]) (auto simp: share_sound_def direction_sign_def)
    qed
    with o(1) g show ?thesis by (auto simp: same_receipt_def)
  qed
  have "\<forall>a\<in>set out. ea_line a \<in> set al" by (auto simp: out)
  with rev al' lines extras show ?thesis by blast
qed

section \<open>A worked reversal\<close>

definition hundred :: exact_pence where "hundred = \<lparr>numerator = 100, denominator = 1\<rparr>"

definition sample_line :: receipt_line where
  "sample_line = \<lparr>rl_id = ''1'', rl_invoiceId = ''I'', rl_existedAt = sample_instant,
     rl_outstandingGross = \<lparr>numerator_text = ''100'', denominator_text = ''1''\<rparr>, rl_netPence = 100, rl_grossPence = 120\<rparr>"

definition sample_receipt :: "allocation_direction \<Rightarrow> string \<Rightarrow> receipt_allocation_input" where
  "sample_receipt direction source = \<lparr>ra_sourceRef = source, ra_receiptGross = \<lparr>numerator_text = ''100'', denominator_text = ''1''\<rparr>,
     ra_effectiveAt = sample_instant, ra_direction = direction, ra_invoiceId = ''I'', ra_separateInvoiceId = None,
     ra_explicit = None, ra_lines = [sample_line]\<rparr>"

definition sample_share :: "string \<Rightarrow> int \<Rightarrow> line_allocation" where
  "sample_share source sign = \<lparr>la_lineId = ''1'', la_rule = Rule_pro_rata, la_sourceRef = source,
     la_gross = \<lparr>numerator = sign * 100, denominator = 1\<rparr>, la_net = \<lparr>numerator = sign * 250, denominator = 3\<rparr>\<rparr>"

lemma hundred_total: "allocation_total [hundred] = Inr hundred"
  by (rule allocation_total_eq) (simp_all add: hundred_def exact_ok_def val_def)

lemma one_line_receipt:
  assumes "receiptAllocationV1 i" "read_exact (ra_receiptGross i) = Inr hundred" "distinct (map rl_id (ra_lines i))"
    "map_r read_line (ra_lines i) = Inr [(sample_line, hundred)]" "parseInstant (ra_effectiveAt i) = Inr t"
    "filter_r (eligible_line i t) [(sample_line, hundred)] = Inr [(sample_line, hundred)]"
    "ra_separateInvoiceId i = None" "ra_explicit i = None"
    "append_proportion i hundred \<lparr>numerator = 1, denominator = 100\<rparr> (sample_line, hundred) = Inr a"
  shows "allocateReceiptToLines i = Inr [a]"
proof -
  have "exactPence 1 100 = Inr \<lparr>numerator = 1, denominator = 100\<rparr>" by code_simp
  then have "allocate_pro_rata i hundred [(sample_line, hundred)] = Inr [a]"
    using assms(9) hundred_total by (simp add: allocate_pro_rata_def hundred_def compareExactPence_def)
  then show ?thesis using assms by (simp add: allocateReceiptToLines_def hundred_def)
qed

lemma sample_receipt_ok: "text_within 300 source \<Longrightarrow> receiptAllocationV1 (sample_receipt direction source)"
proof -
  have "exactPenceInputV1 \<lparr>numerator_text = ''100'', denominator_text = ''1''\<rparr>" "receipt_line_ok sample_line"
    "text_within 200 ''I''" by code_simp+
  then show "text_within 300 source \<Longrightarrow> receiptAllocationV1 (sample_receipt direction source)"
    by (simp add: receiptAllocationV1_def sample_receipt_def MAX_ALLOCATION_LINES_def)
qed

definition sample_time :: instant where
  "sample_time = (case parseInstant sample_instant of Inr t \<Rightarrow> t | Inl e \<Rightarrow> \<lparr>i_seconds = 0, i_fraction = []\<rparr>)"

lemma sample_allocations:
  "allocateReceiptToLines (sample_receipt Dir_receipt ''r'') = Inr [sample_share ''r'' 1]"
  "allocateReceiptToLines (sample_receipt Dir_reversal ''v'') = Inr [sample_share ''v'' (- 1)]"
proof -
  have "text_within 300 ''r''" "text_within 300 ''v''" by (simp_all add: text_within_def)
  note ok = this [THEN sample_receipt_ok]
  show "allocateReceiptToLines (sample_receipt Dir_receipt ''r'') = Inr [sample_share ''r'' 1]"
    by (rule one_line_receipt [where t = sample_time]) (rule ok, code_simp+)
  show "allocateReceiptToLines (sample_receipt Dir_reversal ''v'') = Inr [sample_share ''v'' (- 1)]"
    by (rule one_line_receipt [where t = sample_time]) (rule ok, code_simp+)
qed

definition sample_reversal :: enterprise_receipt where
  "sample_reversal = \<lparr>er_tenantId = ''T'', er_jobId = ''J'', er_receipt = sample_receipt Dir_reversal ''v'',
     er_groups = [sample_group paid_sample],
     er_bindings = [\<lparr>lb_lineId = ''1'', lb_extraId = Some ''E'', lb_exportLineId = Some ''L'', lb_revisionId = Some ''V'',
       lb_revisionHash = Some sample_hash\<rparr>],
     er_original = Some \<lparr>og_sourceRef = ''r'', og_receipt = sample_receipt Dir_receipt ''r'',
       og_remainingGross = [\<lparr>rg_lineId = ''1'', rg_gross = \<lparr>numerator_text = ''100'', denominator_text = ''1''\<rparr>\<rparr>]\<rparr>\<rparr>"

lemma hundred_text: "parseExactPence exactPenceV1 \<lparr>numerator_text = ''100'', denominator_text = ''1''\<rparr> = Inr hundred"
  "exactPenceV1 \<lparr>numerator_text = ''100'', denominator_text = ''1''\<rparr>"
proof -
  have "integer_text ''100''" "positive_text ''1''" "int_of_text ''100'' = 100" "int_of_text ''1'' = 1" by code_simp+
  then show "exactPenceV1 \<lparr>numerator_text = ''100'', denominator_text = ''1''\<rparr>"
    "parseExactPence exactPenceV1 \<lparr>numerator_text = ''100'', denominator_text = ''1''\<rparr> = Inr hundred"
    by (simp_all add: parseExactPence_def exactPenceV1_def exact_text_ok_def integerOf_def positiveOf_def
        MAX_EXACT_PENCE_DIGITS_eq MAX_MONEY_PENCE_def hundred_def)
qed

lemma sample_reversal_checks:
  "assertDuplicateGroup (sample_group paid_sample) = Inr ()"
  "canonical_of (sample_group paid_sample) = Some paid_sample"
  "server_order sample_instant sample_instant = 0"
proof -
  have "assertParsedDuplicateGroup (sample_group paid_sample) = Inr ()" by code_simp
  then show "assertDuplicateGroup (sample_group paid_sample) = Inr ()"
    by (simp add: assertDuplicateGroup_def parseEnterpriseGroup_def readEnterprise_def paid_group_ok)
  show "canonical_of (sample_group paid_sample) = Some paid_sample" "server_order sample_instant sample_instant = 0"
    by code_simp+
qed

lemma sample_reversal_valid: "enterpriseReceiptV1 sample_reversal"
proof -
  have "receiptAllocationV1 (sample_receipt Dir_receipt ''r'')" "receiptAllocationV1 (sample_receipt Dir_reversal ''v'')"
    by (simp_all add: sample_receipt_ok text_within_def)
  then show ?thesis
    by (simp add: enterpriseReceiptV1_def sample_reversal_def MAX_ALLOCATION_LINES_def paid_group_ok opt_ok_def
        text_within_def hundred_text)
qed

lemma sample_direction: "check_direction sample_reversal = Inr ()"
proof -
  have r: "\<not> reversal_recorded sample_reversal" "same_receipt (the (er_original sample_reversal)) (er_receipt sample_reversal)"
    by code_simp+
  have "compareExactPence hundred hundred = 0" "numerator hundred = 100" by (simp_all add: compareExactPence_def hundred_def)
  moreover have "la_gross (sample_share ''r'' 1) = hundred" "la_lineId (sample_share ''r'' 1) = ''1''"
    by (simp_all add: sample_share_def hundred_def)
  ultimately have "check_reversal sample_reversal (the (er_original sample_reversal)) = Inr ()"
    unfolding check_reversal_def Let_def using r
    by (simp add: sample_reversal_def sample_receipt_def sample_line_def allocation_of_def hundred_text shared_checked_def
        js_map_def check_explicit_shares_def check_reversal_line_def sample_reversal_checks
        sample_allocations(1) [unfolded sample_receipt_def sample_line_def])
  then show ?thesis by (simp add: check_direction_def sample_reversal_def sample_receipt_def)
qed

lemma sample_binding: "fold_r (collect_group sample_reversal) ([], []) (er_groups sample_reversal) =
    Inr ([(''E'', paid_sample)], [(''L'', ''E'')])"
  "binding_ok [(''E'', paid_sample)] \<lparr>lb_lineId = ''1'', lb_extraId = Some ''E'', lb_exportLineId = Some ''L'',
     lb_revisionId = Some ''V'', lb_revisionHash = Some sample_hash\<rparr>"
proof -
  have "ex_id paid_sample = ''E''" "ex_exportLineId paid_sample = Some ''L''" by code_simp+
  then show "fold_r (collect_group sample_reversal) ([], []) (er_groups sample_reversal) =
      Inr ([(''E'', paid_sample)], [(''L'', ''E'')])"
    by (simp add: sample_reversal_def collect_group_def sample_reversal_checks) (simp add: sample_group_def)
  show "binding_ok [(''E'', paid_sample)] \<lparr>lb_lineId = ''1'', lb_extraId = Some ''E'', lb_exportLineId = Some ''L'',
     lb_revisionId = Some ''V'', lb_revisionHash = Some sample_hash\<rparr>" by code_simp
qed

theorem enterprise_receipt_sound_witness:
  "\<exists>out. allocateEnterpriseReceipt sample_reversal = Inr out \<and> map ea_line out = [sample_share ''v'' (- 1)] \<and>
     (\<exists>e. ex_id e = ''E'' \<and> exported_canonical sample_reversal e)"
proof -
  let ?out = "[\<lparr>ea_line = sample_share ''v'' (- 1), ea_extraId = Some ''E'', ea_originalSourceRef = Some ''r''\<rparr>]"
  have rec: "er_receipt sample_reversal = sample_receipt Dir_reversal ''v''" by (simp add: sample_reversal_def)
  have "allocate_bound_receipt sample_reversal = Inr ?out"
    unfolding allocate_bound_receipt_def Let_def sample_binding(1) sample_direction rec allocation_of_def sample_allocations(2)
    using sample_binding(2)
    by (simp add: sample_reversal_def sample_receipt_def sample_line_def js_map_def bound_extra_def sample_share_def)
  then have out: "allocateEnterpriseReceipt sample_reversal = Inr ?out"
    by (simp add: allocateEnterpriseReceipt_def readEnterprise_def sample_reversal_valid checked_def)
  from enterprise_receipt_sound [OF this] have "\<exists>e. ex_id e = ''E'' \<and> exported_canonical sample_reversal e" by simp
  with out show ?thesis by (intro exI [of _ ?out]) simp
qed

end
