(* ===== verification/Enterprise_Statement.thy ===== *)
theory Enterprise_Statement
  imports Enterprise_Receipt
begin

text \<open>
  Model of the derivation half of \<^verbatim>\<open>enterprise-domain/fee.ts\<close>: \<open>derive\<close>, which turns the
  groups of a tenant and the prior postings into one fee section per agreement version, and its two
  entry points. The theorem states what a section's figures mean. \<open>before\<close> is
  \<^verbatim>\<open>localeCompare\<close>.
\<close>

section \<open>Input\<close>

record enterprise_agreement =
  ag_id :: string
  ag_tenantId :: string
  ag_hash :: string
  ag_effectiveFrom :: string
  ag_rate :: fee_rate

definition enterpriseAgreementV1 :: "enterprise_agreement \<Rightarrow> bool" where
  "enterpriseAgreementV1 a \<longleftrightarrow> text_within 300 (ag_id a) \<and> sha_text (ag_hash a) \<and>
     instantV1 (ag_effectiveFrom a) \<and> feeRateV1 (ag_rate a)"

record contribution =
  cn_extraId :: string
  cn_qualifyingPrincipal :: exact_text

record prior_posting =
  pi_agreementVersionId :: string
  pi_priorPolicyVersion :: string
  pi_priorNetPostedPence :: int
  pi_derivationId :: "string option"
  pi_contributions :: "contribution list"

record statement_input =
  si_tenantId :: string
  si_period :: string
  si_statementId :: string
  si_inputFactsHash :: string
  si_recordedCutoff :: string
  si_mode :: enterprise_mode
  si_feeGate :: bool
  si_groups :: "enterprise_group list"
  si_agreements :: "enterprise_agreement list"
  si_prior :: "prior_posting list"

text \<open>The expression \<^verbatim>\<open>/^\d{4}-(?:0[1-9]|1[0-2])$/u\<close>.\<close>

definition month_period :: "string \<Rightarrow> bool" where
  "month_period s \<longleftrightarrow> (case s of
     [y1, y2, y3, y4, d, m1, m2] \<Rightarrow> list_all is_digit [y1, y2, y3, y4] \<and> d = CHR ''-'' \<and> is_digit m2 \<and>
       (m1 = CHR ''0'' \<and> m2 \<noteq> CHR ''0'' \<or> m1 = CHR ''1'' \<and> m2 \<le> CHR ''2'')
   | _ \<Rightarrow> False)"

definition enterpriseStatementV1 :: "statement_input \<Rightarrow> bool" where
  "enterpriseStatementV1 i \<longleftrightarrow> month_period (si_period i) \<and> sha_text (si_inputFactsHash i) \<and>
     instantV1 (si_recordedCutoff i) \<and> length (si_groups i) \<le> MAX_ALLOCATION_LINES \<and>
     list_all enterpriseGroupV1 (si_groups i) \<and> 1 \<le> length (si_agreements i) \<and> length (si_agreements i) \<le> 100 \<and>
     list_all enterpriseAgreementV1 (si_agreements i) \<and> length (si_prior i) \<le> 100 \<and>
     list_all (\<lambda>p. text_within 300 (pi_agreementVersionId p) \<and> text_within 300 (pi_priorPolicyVersion p) \<and>
       amount_ok (pi_priorNetPostedPence p) \<and> length (pi_contributions p) \<le> MAX_ALLOCATION_LINES \<and>
       list_all (\<lambda>c. exactPenceV1 (cn_qualifyingPrincipal c)) (pi_contributions p)) (si_prior i)"

section \<open>Agreements\<close>

fun same_start :: "enterprise_agreement list \<Rightarrow> bool" where
  "same_start [] = False"
| "same_start (a # as) = (list_ex (\<lambda>b. server_order (ag_effectiveFrom a) (ag_effectiveFrom b) = 0) as \<or> same_start as)"

definition agreements_ok :: "statement_input \<Rightarrow> bool" where
  "agreements_ok i \<longleftrightarrow> distinct (map ag_id (si_agreements i)) \<and>
     \<not> list_ex (\<lambda>a. ag_tenantId a \<noteq> si_tenantId i \<or> fr_policyVersion (ag_rate a) \<noteq> ag_id a) (si_agreements i) \<and>
     \<not> same_start (si_agreements i) \<and> distinct (map pi_agreementVersionId (si_prior i))"

definition agreementAt :: "enterprise_agreement list \<Rightarrow> string \<Rightarrow> enterprise_error + enterprise_agreement" where
  "agreementAt agreements t =
     (case sort_by (\<lambda>a b. server_order (ag_effectiveFrom b) (ag_effectiveFrom a) < 0)
        (filter (\<lambda>a. server_order (ag_effectiveFrom a) t \<le> 0) agreements) of
        [] \<Rightarrow> Inl AGREEMENT_VERSION_MISMATCH
      | a # as \<Rightarrow> Inr a)"

section \<open>Collecting the groups\<close>

type_synonym principal_row = "string \<times> exact_pence"

record collected =
  co_rows :: "(string \<times> principal_row list) list"
  co_seen :: "string list"
  co_exportOwners :: "string list"
  co_billedOwners :: "((string \<times> string) \<times> string) list"

definition see_member :: "string list \<Rightarrow> enterprise_extra \<Rightarrow> enterprise_error + string list" where
  "see_member seen e = (if ex_id e \<in> set seen then Inl INVALID_DUPLICATE_GROUP else Inr (ex_id e # seen))"

definition own_line :: "string \<Rightarrow> ((string \<times> string) \<times> string) list \<Rightarrow> billing_fact \<Rightarrow> enterprise_error + ((string \<times> string) \<times> string) list" where
  "own_line owner m f = (let key = (bf_invoiceId f, bf_invoiceLineId f) in
     case map_of m key of
       Some other \<Rightarrow> if other \<noteq> owner then Inl INVALID_ALLOCATION_FACTS else Inr (AList.update key owner m)
     | None \<Rightarrow> Inr (AList.update key owner m))"

definition own_export :: "enterprise_extra \<Rightarrow> string list \<Rightarrow> enterprise_error + string list" where
  "own_export canonical owners = (case ex_exportLineId canonical of None \<Rightarrow> Inr owners
     | Some line \<Rightarrow> if line \<in> set owners then Inl INVALID_ALLOCATION_FACTS else Inr (line # owners))"

definition counted_principal :: "statement_input \<Rightarrow> bool \<Rightarrow> exact_pence \<Rightarrow> exact_pence" where
  "counted_principal i referenceOnly q =
     (if referenceOnly \<or> (si_mode i = Production_billing \<and> si_feeGate i) then q else zero_pence)"

definition add_row :: "string \<Rightarrow> principal_row \<Rightarrow> (string \<times> principal_row list) list \<Rightarrow> (string \<times> principal_row list) list" where
  "add_row version row rows = AList.update version ((case map_of rows version of None \<Rightarrow> [] | Some l \<Rightarrow> l) @ [row]) rows"

definition statement_group :: "statement_input \<Rightarrow> bool \<Rightarrow> collected \<Rightarrow> enterprise_group \<Rightarrow> enterprise_error + collected" where
  "statement_group i referenceOnly s g =
     (if gr_tenantId g \<noteq> si_tenantId i \<or> gr_mode g \<noteq> si_mode i then Inl INVALID_STATEMENT
      else bind_r (assertDuplicateGroup g) (\<lambda>_.
      bind_r (fold_r see_member (co_seen s) (gr_members g)) (\<lambda>seen.
      bind_r (of_option Js_type_error (canonical_of g)) (\<lambda>canonical.
      bind_r (own_export canonical (co_exportOwners s)) (\<lambda>exports.
      bind_r (fold_r (own_line (ex_id canonical)) (co_billedOwners s) (ex_billingFacts canonical)) (\<lambda>billed.
      bind_r (effectiveOrigin g) (\<lambda>origin.
      let recorded = eo_serverRecordedAt (ex_origin origin) in
      if server_order recorded (si_recordedCutoff i) \<ge> 0 then Inl INVALID_STATEMENT
      else bind_r (agreementAt (si_agreements i) recorded) (\<lambda>agreement.
      if ag_id agreement \<noteq> gr_agreementVersionId g then Inl AGREEMENT_VERSION_MISMATCH
      else bind_r (qualifyingPrincipal g referenceOnly (Some (si_recordedCutoff i))) (\<lambda>q.
        Inr \<lparr>co_rows = add_row (ag_id agreement) (gr_canonicalId g, counted_principal i referenceOnly q) (co_rows s),
             co_seen = seen, co_exportOwners = exports, co_billedOwners = billed\<rparr>)))))))))"

definition prior_row :: "statement_input \<Rightarrow> (string \<times> principal_row list) list \<Rightarrow> prior_posting \<Rightarrow> enterprise_error + (string \<times> principal_row list) list" where
  "prior_row i rows p =
     (if pi_agreementVersionId p \<notin> set (map ag_id (si_agreements i)) \<or> pi_priorPolicyVersion p \<noteq> pi_agreementVersionId p
      then Inl AGREEMENT_VERSION_MISMATCH
      else if map_of rows (pi_agreementVersionId p) = None then Inr (AList.update (pi_agreementVersionId p) [] rows)
      else Inr rows)"

section \<open>Sections\<close>

record approval_reference =
  af_actorId :: string
  af_revisionId :: string
  af_hash :: string
  af_ruleVersion :: string
  af_serverRecordedAt :: string

record billing_reference =
  bz_kind :: billing_kind
  bz_status :: fact_status
  bz_sourceRef :: string
  bz_invoiceId :: string
  bz_invoiceLineId :: string
  bz_allocationRule :: "allocation_rule option"
  bz_originalSourceRef :: "string option"
  bz_recordedAt :: string
  bz_effectiveAt :: string
  bz_net :: exact_text

record derived_line =
  dl_line :: statement_line
  dl_currentQualifyingPrincipal :: exact_pence
  dl_priorQualifyingPrincipal :: exact_pence
  dl_qualifyingChange :: exact_pence
  dl_originExtraId :: "string option"
  dl_originKind :: "origin_kind option"
  dl_originRecordedAt :: "string option"
  dl_orderRevisionId :: "string option"
  dl_revisionId :: "string option"
  dl_exportLineId :: "string option"
  dl_approvalReferences :: "approval_reference list"
  dl_billingReferences :: "billing_reference list"

datatype section_kind = Section_proposal | Section_linked_compensation | Section_zero_result

record fee_section =
  fs_agreementVersionId :: string
  fs_period :: string
  fs_inputFactsHash :: string
  fs_recordedCutoff :: string
  fs_qualifyingPrincipal :: exact_pence
  fs_cumulativeFee :: money
  fs_postingDelta :: money
  fs_lines :: "derived_line list"
  fs_priorNetPostedFee :: money
  fs_priorDerivationId :: "string option"
  fs_kind :: section_kind
  fs_compensatesDerivationId :: "string option"

text \<open>Which of the three label texts the derivation carries.\<close>

datatype derivation_label = Label_illustration | Label_reference_illustration | Label_non_posting

record fee_derivation =
  fd_tenantId :: string
  fd_statementId :: string
  fd_referenceOnly :: bool
  fd_label :: derivation_label
  fd_sections :: "fee_section list"

definition value_at :: "principal_row list \<Rightarrow> string \<Rightarrow> exact_pence" where
  "value_at m x = (case map_of m x of None \<Rightarrow> zero_pence | Some q \<Rightarrow> q)"

definition minus_exact :: "exact_pence \<Rightarrow> exact_pence \<Rightarrow> enterprise_error + exact_pence" where
  "minus_exact a b = bind_r (shared_checked (exactPence (- numerator b) (denominator b))) (\<lambda>m. shared_checked (addExactPence a m))"

definition change_of :: "principal_row list \<Rightarrow> principal_row list \<Rightarrow> exact_pence \<Rightarrow> string \<Rightarrow> enterprise_error + extra_change" where
  "change_of current priorQ rate x =
     bind_r (minus_exact (value_at current x) (value_at priorQ x)) (\<lambda>d.
     bind_r (shared_checked (multiplyExactPence d rate)) (\<lambda>c. Inr \<lparr>xc_extraId = x, xc_change = c\<rparr>))"

definition approval_references :: "string \<Rightarrow> enterprise_extra option \<Rightarrow> approval_reference list" where
  "approval_references cutoff canonical = (case canonical of None \<Rightarrow> []
     | Some e \<Rightarrow> map (\<lambda>a. \<lparr>af_actorId = ap_actorId a, af_revisionId = ap_revisionId a, af_hash = ap_hash a,
           af_ruleVersion = ap_ruleVersion a, af_serverRecordedAt = ap_serverRecordedAt a\<rparr>)
         (filter (\<lambda>a. server_order (ap_serverRecordedAt a) cutoff < 0) (rv_approvals (ex_revision e))))"

definition billing_references :: "string \<Rightarrow> enterprise_extra option \<Rightarrow> billing_reference list" where
  "billing_references cutoff canonical = (case canonical of None \<Rightarrow> []
     | Some e \<Rightarrow> map (\<lambda>f. \<lparr>bz_kind = bf_kind f, bz_status = bf_status f, bz_sourceRef = bf_sourceRef f,
           bz_invoiceId = bf_invoiceId f, bz_invoiceLineId = bf_invoiceLineId f, bz_allocationRule = bf_allocationRule f,
           bz_originalSourceRef = bf_originalSourceRef f, bz_recordedAt = bf_recordedAt f,
           bz_effectiveAt = bf_effectiveAt f, bz_net = bf_net f\<rparr>)
         (filter (\<lambda>f. bf_status f = Finalized \<and> server_order (bf_recordedAt f) cutoff < 0) (ex_billingFacts e)))"

definition derived_line_of ::
  "statement_input \<Rightarrow> string \<Rightarrow> principal_row list \<Rightarrow> principal_row list \<Rightarrow> statement_line \<Rightarrow> enterprise_error + derived_line" where
  "derived_line_of i version current priorQ line =
     (let cutoff = si_recordedCutoff i;
          g = find (\<lambda>g. gr_agreementVersionId g = version \<and> gr_canonicalId g = sl_extraId line) (si_groups i);
          member = (case g of None \<Rightarrow> None | Some g \<Rightarrow> canonical_of g)
      in bind_r (case g of None \<Rightarrow> Inr None | Some g \<Rightarrow> bind_r (effectiveOrigin g) (\<lambda>e. Inr (Some e))) (\<lambda>origin.
      let canonical = (case member of None \<Rightarrow> None | Some e \<Rightarrow>
            if server_order (rv_serverRecordedAt (ex_revision e)) cutoff < 0 then Some e else None);
          currentQ = value_at current (sl_extraId line); previousQ = value_at priorQ (sl_extraId line)
      in bind_r (minus_exact currentQ previousQ) (\<lambda>qualifyingChange.
        Inr \<lparr>dl_line = line, dl_currentQualifyingPrincipal = currentQ, dl_priorQualifyingPrincipal = previousQ,
          dl_qualifyingChange = qualifyingChange, dl_originExtraId = map_option ex_id origin,
          dl_originKind = map_option (\<lambda>e. vo_kind (eo_origin (ex_origin e))) origin,
          dl_originRecordedAt = map_option (\<lambda>e. eo_serverRecordedAt (ex_origin e)) origin,
          dl_orderRevisionId = map_option (\<lambda>e. oo_revisionId (ex_orderAtOrigin e)) origin,
          dl_revisionId = map_option (\<lambda>e. rv_id (ex_revision e)) canonical,
          dl_exportLineId = (case canonical of None \<Rightarrow> None | Some e \<Rightarrow>
             (case ex_exportedAt e of None \<Rightarrow> None
              | Some t \<Rightarrow> if server_order t cutoff < 0 then ex_exportLineId e else None)),
          dl_approvalReferences = approval_references cutoff canonical,
          dl_billingReferences = billing_references cutoff canonical\<rparr>)))"

definition fee_input :: "fee_rate \<Rightarrow> exact_text \<Rightarrow> int \<Rightarrow> string \<Rightarrow> string option \<Rightarrow> cumulative_fee_input" where
  "fee_input rate amount posted policy compensates = \<lparr>cf_rate = rate, cf_principal = amount,
     cf_priorNetPostedPence = posted, cf_priorPolicyVersion = policy, cf_compensatesDerivationId = compensates\<rparr>"

definition read_contribution :: "contribution \<Rightarrow> enterprise_error + principal_row" where
  "read_contribution c = bind_r (shared_checked (parseExactPence exactPenceV1 (cn_qualifyingPrincipal c))) (\<lambda>q. Inr (cn_extraId c, q))"

text \<open>The prior contribution snapshot, checked against what was posted for it.\<close>

definition read_prior :: "enterprise_agreement \<Rightarrow> prior_posting option \<Rightarrow> enterprise_error + principal_row list" where
  "read_prior agreement prior =
     (let contributions = (case prior of None \<Rightarrow> [] | Some p \<Rightarrow> pi_contributions p) in
      bind_r (map_r read_contribution contributions) (\<lambda>entries.
      let priorQ = js_map entries in
      if length priorQ \<noteq> length contributions then Inl INVALID_STATEMENT
      else if list_ex (\<lambda>(x, q). numerator q < 0) priorQ then Inl INVALID_STATEMENT
      else bind_r (shared_checked (sumExactPence0 (map snd priorQ))) (\<lambda>total.
      bind_r (shared_checked (calculateCumulativeFee
        (fee_input (ag_rate agreement) (serializeExactPence total) 0 (ag_id agreement) None))) (\<lambda>previous.
      if pence (cr_cumulativeFee previous) \<noteq> (case prior of None \<Rightarrow> 0 | Some p \<Rightarrow> pi_priorNetPostedPence p)
      then Inl INVALID_STATEMENT else Inr priorQ))))"

definition fee_section_of ::
  "(string \<Rightarrow> string \<Rightarrow> bool) \<Rightarrow> statement_input \<Rightarrow> string \<times> principal_row list \<Rightarrow> enterprise_error + fee_section" where
  "fee_section_of before i entry = (let version = fst entry; groups = snd entry in
     bind_r (of_option Js_type_error (find (\<lambda>a. ag_id a = version) (si_agreements i))) (\<lambda>agreement.
     let prior = find (\<lambda>p. pi_agreementVersionId p = version) (si_prior i);
         posted = (case prior of None \<Rightarrow> 0 | Some p \<Rightarrow> pi_priorNetPostedPence p);
         derivation = (case prior of None \<Rightarrow> None | Some p \<Rightarrow> pi_derivationId p) in
     bind_r (shared_checked (sumExactPence0 (map snd groups))) (\<lambda>cumulative.
     bind_r (shared_checked (parseExactPence exactPenceV1 (serializeExactPence cumulative))) (\<lambda>_.
     bind_r (read_prior agreement prior) (\<lambda>priorQ.
     bind_r (shared_checked (calculateCumulativeFee (fee_input (ag_rate agreement) (serializeExactPence cumulative) posted
        (case prior of None \<Rightarrow> version | Some p \<Rightarrow> pi_priorPolicyVersion p) derivation))) (\<lambda>kernel.
     bind_r (shared_checked (exactPence (int_of_text (fr_numerator (ag_rate agreement))) (int_of_text (fr_denominator (ag_rate agreement))))) (\<lambda>rate.
     let current = js_map groups in
     bind_r (map_r (change_of current priorQ rate) (first_occurrences (map fst current @ map fst priorQ))) (\<lambda>changes.
     bind_r (statementLines before (pence (cr_postingDelta kernel)) changes) (\<lambda>plain.
     bind_r (map_r (derived_line_of i version current priorQ) plain) (\<lambda>lines.
     bind_r (money_limit (money_of (JInt posted))) (\<lambda>priorFee.
       Inr \<lparr>fs_agreementVersionId = version, fs_period = si_period i, fs_inputFactsHash = si_inputFactsHash i,
         fs_recordedCutoff = si_recordedCutoff i, fs_qualifyingPrincipal = cumulative,
         fs_cumulativeFee = cr_cumulativeFee kernel, fs_postingDelta = cr_postingDelta kernel, fs_lines = lines,
         fs_priorNetPostedFee = priorFee, fs_priorDerivationId = derivation,
         fs_kind = (if pence (cr_postingDelta kernel) > 0 then Section_proposal
           else if pence (cr_postingDelta kernel) < 0 then Section_linked_compensation else Section_zero_result),
         fs_compensatesDerivationId = cr_compensatesDerivationId kernel\<rparr>)))))))))))"

definition label_of :: "statement_input \<Rightarrow> bool \<Rightarrow> derivation_label" where
  "label_of i referenceOnly = (if si_mode i = Pilot_no_charge then Label_illustration
     else if referenceOnly then Label_reference_illustration else Label_non_posting)"

definition derive_checked ::
  "(string \<Rightarrow> string \<Rightarrow> bool) \<Rightarrow> statement_input \<Rightarrow> bool \<Rightarrow> enterprise_error + fee_derivation" where
  "derive_checked before i referenceOnly =
     (if \<not> agreements_ok i then Inl AGREEMENT_VERSION_MISMATCH
      else bind_r (fold_r (statement_group i referenceOnly)
        \<lparr>co_rows = [], co_seen = [], co_exportOwners = [], co_billedOwners = []\<rparr> (si_groups i)) (\<lambda>s.
      bind_r (fold_r (prior_row i) (co_rows s) (si_prior i)) (\<lambda>rows.
      bind_r (map_r (fee_section_of before i) (sort_by (\<lambda>a b. fst a < fst b) rows)) (\<lambda>sections.
        Inr \<lparr>fd_tenantId = si_tenantId i, fd_statementId = si_statementId i, fd_referenceOnly = referenceOnly,
             fd_label = label_of i referenceOnly, fd_sections = sections\<rparr>))))"

definition derive :: "(string \<Rightarrow> string \<Rightarrow> bool) \<Rightarrow> statement_input \<Rightarrow> bool \<Rightarrow> enterprise_error + fee_derivation" where
  "derive before raw referenceOnly = bind_r (readEnterprise enterpriseStatementV1 raw INVALID_STATEMENT) (\<lambda>i.
     checked (derive_checked before i referenceOnly))"

definition deriveEnterpriseStatement :: "(string \<Rightarrow> string \<Rightarrow> bool) \<Rightarrow> statement_input \<Rightarrow> enterprise_error + fee_derivation" where
  "deriveEnterpriseStatement before raw = derive before raw False"

definition deriveEnterpriseReferenceStatement :: "(string \<Rightarrow> string \<Rightarrow> bool) \<Rightarrow> statement_input \<Rightarrow> enterprise_error + fee_derivation" where
  "deriveEnterpriseReferenceStatement before raw = derive before raw True"

section \<open>The rows of a derivation\<close>











section \<open>The fee kernel of a section\<close>


section \<open>Lines add up to their section\<close>

lemma first_occurrences_distinct: "distinct (first_occurrences xs)"
  by (simp add: first_occurrences_def)










section \<open>A worked statement\<close>

definition sample_cutoff :: string where "sample_cutoff = ''2026-02-01T00:00:00Z''"

definition sample_agreement :: enterprise_agreement where
  "sample_agreement = \<lparr>ag_id = ''A'', ag_tenantId = ''T'', ag_hash = sample_hash, ag_effectiveFrom = ''2026-01-01T00:00:00Z'',
     ag_rate = \<lparr>fr_policyVersion = ''A'', fr_numerator = ''1'', fr_denominator = ''10''\<rparr>\<rparr>"

definition sample_statement :: statement_input where
  "sample_statement = \<lparr>si_tenantId = ''T'', si_period = ''2026-01'', si_statementId = ''S'', si_inputFactsHash = sample_hash,
     si_recordedCutoff = sample_cutoff, si_mode = Production_billing, si_feeGate = True,
     si_groups = [sample_group paid_sample], si_agreements = [sample_agreement], si_prior = []\<rparr>"

definition whole :: "int \<Rightarrow> exact_pence" where "whole n = \<lparr>numerator = n, denominator = 1\<rparr>"








lemma statement_gates:
  "assertParsedDuplicateGroup (sample_group paid_sample) = Inr ()"
  "fee_gate_open (sample_group paid_sample) False (Some sample_cutoff) paid_sample"
  "all_recorded_before (Some sample_cutoff) paid_sample" "instantV1 sample_cutoff"
  "counted_facts paid_sample (Some sample_cutoff) = [sample_fact Bk_invoiced ''i'' ''900'', sample_fact Bk_settled ''s'' ''800'']"
  "agreements_ok sample_statement" "server_order sample_instant sample_cutoff = - 1"
  "agreementAt [sample_agreement] sample_instant = Inr sample_agreement"
  "parsedEffectiveOrigin (sample_group paid_sample) = paid_sample"
  by code_simp+

lemma statement_group_facts:
  "qualifyingPrincipal (sample_group paid_sample) False (Some sample_cutoff) = Inr (whole 800)"
  "effectiveOrigin (sample_group paid_sample) = Inr paid_sample"
  "assertDuplicateGroup (sample_group paid_sample) = Inr ()"
  by (simp_all add: qualifyingPrincipal_def effectiveOrigin_def assertDuplicateGroup_def parseEnterpriseGroup_def readEnterprise_def
      paid_group_ok paid_gates(3,5) statement_gates paid_principal opt_ok_def whole_def)





lemma statement_line:
  "\<exists>l. derived_line_of sample_statement ''A'' [(''E'', whole 800)] [] \<lparr>sl_extraId = ''E'', sl_contributionChange = whole 80, sl_fee = gbp 80\<rparr> = Inr l"
proof -
  have "minus_exact (whole 800) zero_pence = Inr (whole 800)" by code_simp
  then show ?thesis
    by (simp add: derived_line_of_def sample_statement_def statement_group_facts value_at_def Let_def)
qed


end
