(* ===== verification/Recovery_Case.thy ===== *)
theory Recovery_Case
  imports Schemas
begin

text \<open>
  Model of \<^verbatim>\<open>packages/core/src/recovery-case.ts\<close>: the life cycle of a recovery case, the money
  guards of its transitions, claim amendments and the sources a case may cite, and of the way
  \<^verbatim>\<open>commandBody\<close> of \<^verbatim>\<open>packages/db/src/recovery-case-repository.ts\<close> feeds a recorded case to
  them. A case keeps the money recorded by hand and the money approved through the landing routine
  apart: they are overlapping records of the same money, so what was received is the larger one.
\<close>

section \<open>States, events and errors\<close>

datatype recovery_case_type =
  Merchant_overcharge | Withheld_customer_payment | Prevention | Duplicate_supplier_payment
| Missed_variation_final_account

datatype recovery_state =
  Identified | Evidence_assembled | Pursuing | Negotiating | Partially_landed | Landed
| Closed_recovered | Closed_no_recovery | Prevented

datatype recovery_event =
  Assemble_evidence | Start_pursuit | Start_negotiation | Resume_pursuit | Record_landing
| Close_recovered | Close_no_recovery | Prevent | Write_off | Dispute | Reverse_landing

datatype recovery_error =
  Recovery_money money_error
| RECOVERY_TRANSITION_FORBIDDEN recovery_state recovery_event
| RECOVERY_CLAIM_AMENDMENT_ON_CLOSED_CASE | RECOVERY_CLAIM_BELOW_SETTLED | RECOVERY_SOURCE_NOT_RECOGNISED

fun allowed :: "recovery_state \<Rightarrow> recovery_event list" where
  "allowed Identified = [Assemble_evidence, Prevent, Close_no_recovery]"
| "allowed Evidence_assembled = [Start_pursuit, Start_negotiation, Record_landing, Close_no_recovery, Dispute]"
| "allowed Pursuing = [Start_negotiation, Record_landing, Close_recovered, Close_no_recovery, Write_off, Dispute, Reverse_landing]"
| "allowed Negotiating = [Resume_pursuit, Record_landing, Close_recovered, Close_no_recovery, Write_off, Dispute, Reverse_landing]"
| "allowed Partially_landed = [Record_landing, Write_off, Dispute, Reverse_landing]"
| "allowed Landed = [Close_recovered, Dispute, Reverse_landing]"
| "allowed Closed_recovered = [Dispute, Reverse_landing]"
| "allowed Closed_no_recovery = [Dispute, Reverse_landing]"
| "allowed Prevented = []"

definition recoveryEventAllowedFrom :: "recovery_state \<Rightarrow> recovery_event \<Rightarrow> bool" where
  "recoveryEventAllowedFrom s ev = (ev \<in> set (allowed s))"

definition recovery_pence :: "js_number \<Rightarrow> recovery_error + int" where
  "recovery_pence p = bind_r (map_err Recovery_money (money_of p)) (\<lambda>m. Inr (pence m))"

section \<open>Claim amendments\<close>

record claim_amendment =
  am_state :: recovery_state
  am_currentClaimedPence :: js_number
  am_claimedPence :: js_number
  am_landedPence :: js_number
  am_writtenOffPence :: js_number

definition assertClaimCoversSettled :: "claim_amendment \<Rightarrow> recovery_error + unit" where
  "assertClaimCoversSettled i =
     bind_r (recovery_pence (am_claimedPence i)) (\<lambda>claimed.
     bind_r (recovery_pence (am_landedPence i)) (\<lambda>landed.
     bind_r (recovery_pence (am_writtenOffPence i)) (\<lambda>writtenOff.
     if claimed < landed + writtenOff then Inl RECOVERY_CLAIM_BELOW_SETTLED else Inr ())))"

definition closedOrFullyReceived :: "recovery_state \<Rightarrow> bool" where
  "closedOrFullyReceived s \<longleftrightarrow> s = Landed \<or> s = Closed_recovered \<or> s = Closed_no_recovery"

definition assertClaimAmendable :: "claim_amendment \<Rightarrow> recovery_error + unit" where
  "assertClaimAmendable i =
     bind_r (assertClaimCoversSettled i) (\<lambda>_.
     if \<not> closedOrFullyReceived (am_state i) then Inr ()
     else bind_r (recovery_pence (am_claimedPence i)) (\<lambda>claimed.
       bind_r (recovery_pence (am_currentClaimedPence i)) (\<lambda>currentClaimed.
       if claimed > currentClaimed then Inl RECOVERY_CLAIM_AMENDMENT_ON_CLOSED_CASE else Inr ())))"

definition open_case :: "recovery_state \<Rightarrow> bool" where
  "open_case s \<longleftrightarrow> s = Identified \<or> s = Evidence_assembled \<or> s = Pursuing \<or> s = Negotiating \<or> s = Partially_landed"

text \<open>
  The current claim is read, and may be refused as money, only for an open case: the other
  alternative of \<^verbatim>\<open>||\<close> is decided first.
\<close>

definition stateAfterClaimAmendment :: "claim_amendment \<Rightarrow> recovery_error + recovery_state" where
  "stateAfterClaimAmendment i =
     bind_r (assertClaimAmendable i) (\<lambda>_.
     bind_r (recovery_pence (am_claimedPence i)) (\<lambda>claimed.
     bind_r (recovery_pence (am_landedPence i)) (\<lambda>landed.
     bind_r (recovery_pence (am_writtenOffPence i)) (\<lambda>writtenOff.
     if \<not> open_case (am_state i) then Inr (am_state i)
     else bind_r (recovery_pence (am_currentClaimedPence i)) (\<lambda>currentClaimed.
       if claimed \<ge> currentClaimed \<or> claimed \<noteq> landed + writtenOff then Inr (am_state i)
       else Inr (if writtenOff = 0 then Landed else Closed_no_recovery))))))"

section \<open>Transitions\<close>

record recovery_input =
  ti_state :: recovery_state
  ti_event :: recovery_event
  ti_claimedPence :: js_number
  ti_landedPence :: js_number
  ti_writtenOffPence :: "js_number option"
  ti_amountPence :: "js_number option"
  ti_approvedLandedPence :: "js_number option"

record transition_result =
  tr_state :: recovery_state
  tr_landedPence :: int
  tr_writtenOffPence :: int

definition or_else :: "js_number option \<Rightarrow> js_number \<Rightarrow> js_number" where
  "or_else p d = (case p of None \<Rightarrow> d | Some n \<Rightarrow> n)"

text \<open>\<^verbatim>\<open>receiptState\<close>: the state a manual receipt or its reversal leaves the case in.\<close>

definition receiptState :: "recovery_input \<Rightarrow> int \<Rightarrow> int \<Rightarrow> int \<Rightarrow> recovery_error + recovery_state" where
  "receiptState i claimed priorWrittenOff manual =
     bind_r (recovery_pence (or_else (ti_approvedLandedPence i) (JInt 0))) (\<lambda>approved.
     let effective = max manual approved in
     if effective + priorWrittenOff > claimed then Inl (RECOVERY_TRANSITION_FORBIDDEN (ti_state i) (ti_event i))
     else Inr (if effective = claimed then Landed
               else if effective + priorWrittenOff = claimed then Closed_no_recovery
               else if effective > 0 then Partially_landed else Evidence_assembled))"

fun plain_target :: "recovery_event \<Rightarrow> recovery_state" where
  "plain_target Assemble_evidence = Evidence_assembled"
| "plain_target Start_pursuit = Pursuing"
| "plain_target Resume_pursuit = Pursuing"
| "plain_target Start_negotiation = Negotiating"
| "plain_target Dispute = Negotiating"
| "plain_target Prevent = Prevented"
| "plain_target Close_recovered = Closed_recovered"
| "plain_target _ = Closed_no_recovery"

text \<open>The check of a disputed amount, which is optional.\<close>

definition dispute_amount_ok :: "recovery_input \<Rightarrow> int \<Rightarrow> recovery_error + unit" where
  "dispute_amount_ok i claimed =
     (case (ti_event i, ti_amountPence i) of
        (Dispute, Some a) \<Rightarrow> bind_r (recovery_pence a) (\<lambda>amount.
          if amount \<le> 0 \<or> amount > claimed then Inl (RECOVERY_TRANSITION_FORBIDDEN (ti_state i) (ti_event i)) else Inr ())
      | _ \<Rightarrow> Inr ())"

text \<open>The event itself, after the guards every event shares.\<close>

definition apply_event :: "recovery_input \<Rightarrow> int \<Rightarrow> int \<Rightarrow> int \<Rightarrow> recovery_error + transition_result" where
  "apply_event i claimed landed priorWrittenOff =
     (let forbidden = Inl (RECOVERY_TRANSITION_FORBIDDEN (ti_state i) (ti_event i)) in
      if ti_event i = Record_landing then
        bind_r (recovery_pence (or_else (ti_amountPence i) JNotInteger)) (\<lambda>amount.
        if amount \<le> 0 \<or> landed + priorWrittenOff + amount > claimed then forbidden
        else bind_r (receiptState i claimed priorWrittenOff (landed + amount)) (\<lambda>s.
          Inr \<lparr>tr_state = s, tr_landedPence = landed + amount, tr_writtenOffPence = 0\<rparr>))
      else if ti_event i = Reverse_landing then
        bind_r (recovery_pence (or_else (ti_amountPence i) JNotInteger)) (\<lambda>amount.
        if amount \<le> 0 \<or> amount > landed then forbidden
        else bind_r (receiptState i claimed priorWrittenOff (landed - amount)) (\<lambda>s.
          Inr \<lparr>tr_state = s, tr_landedPence = landed - amount, tr_writtenOffPence = 0\<rparr>))
      else if ti_event i = Write_off then
        (if claimed - landed - priorWrittenOff \<le> 0 then forbidden
         else Inr \<lparr>tr_state = plain_target Write_off, tr_landedPence = landed,
           tr_writtenOffPence = claimed - landed - priorWrittenOff\<rparr>)
      else Inr \<lparr>tr_state = plain_target (ti_event i), tr_landedPence = landed, tr_writtenOffPence = 0\<rparr>)"

definition transitionRecoveryCase :: "recovery_input \<Rightarrow> recovery_error + transition_result" where
  "transitionRecoveryCase i =
     (let forbidden = Inl (RECOVERY_TRANSITION_FORBIDDEN (ti_state i) (ti_event i)) in
      if \<not> recoveryEventAllowedFrom (ti_state i) (ti_event i) then forbidden
      else bind_r (recovery_pence (ti_claimedPence i)) (\<lambda>claimed.
        bind_r (dispute_amount_ok i claimed) (\<lambda>_.
        bind_r (recovery_pence (ti_landedPence i)) (\<lambda>landed.
        bind_r (recovery_pence (or_else (ti_writtenOffPence i) (JInt 0))) (\<lambda>priorWrittenOff.
        if landed + priorWrittenOff > claimed then forbidden
        else if ti_event i = Prevent \<and> landed > 0 then forbidden
        else if ti_event i = Close_recovered \<and> landed \<noteq> claimed then forbidden
        else apply_event i claimed landed priorWrittenOff)))))"

section \<open>Sources\<close>

datatype recovery_source_type = Supplier_documents | Customer_invoice
datatype recovery_book = Supplier_cost | Builder_customer

definition recoverySourceCatalogueV1 :: "recovery_source_type \<Rightarrow> (string \<times> string) list" where
  "recoverySourceCatalogueV1 t = (case t of
     Supplier_documents \<Rightarrow> [(''Supplier agreement AG-320'', ''Supplier agreement''),
       (''Delivery note DN-320'', ''Delivery note''), (''Supplier invoice INV-320'', ''Supplier invoice'')]
   | Customer_invoice \<Rightarrow> [(''Generated customer invoice INV-18800'', ''Customer invoice'')])"

text \<open>The regular expression \<^verbatim>\<open>recordedSourceId\<close>: five groups of lower-case hexadecimal digits.\<close>

definition isRecordedSourceId :: "string \<Rightarrow> bool" where
  "isRecordedSourceId ref \<longleftrightarrow>
     map length (split_at CHR ''-'' ref) = [8, 4, 4, 4, 12] \<and> list_all (list_all hex_digit) (split_at CHR ''-'' ref)"

record recovery_source =
  rs_ref :: string
  rs_kind :: string
  rs_sourceType :: recovery_source_type

definition described_as :: "string \<Rightarrow> recovery_source_type \<Rightarrow> recovery_source option" where
  "described_as ref t = map_option (\<lambda>e. \<lparr>rs_ref = fst e, rs_kind = snd e, rs_sourceType = t\<rparr>)
     (List.find (\<lambda>e. fst e = ref) (recoverySourceCatalogueV1 t))"

definition describeRecoverySource :: "string \<Rightarrow> recovery_source option" where
  "describeRecoverySource ref = (case described_as ref Supplier_documents of
     Some s \<Rightarrow> Some s | None \<Rightarrow> described_as ref Customer_invoice)"

record cited_sources =
  cs_caseType :: recovery_case_type
  cs_book :: recovery_book
  cs_sourceType :: recovery_source_type
  cs_sourceRefs :: "string list"

definition assertRecoverySources :: "cited_sources \<Rightarrow> recovery_error + unit" where
  "assertRecoverySources i =
     (let bookMatches = (cs_book i = (if cs_sourceType i = Supplier_documents then Supplier_cost else Builder_customer));
          caseMatches = (cs_caseType i = Duplicate_supplier_payment \<and> cs_sourceType i = Supplier_documents \<or>
            cs_caseType i = Prevention \<or>
            cs_caseType i = (if cs_sourceType i = Supplier_documents then Merchant_overcharge else Withheld_customer_payment));
          unique = remdups (cs_sourceRefs i);
          shaped = list_all (\<lambda>ref. map_option rs_sourceType (describeRecoverySource ref) = Some (cs_sourceType i) \<or>
            isRecordedSourceId ref) (cs_sourceRefs i) in
      if \<not> bookMatches \<or> \<not> caseMatches \<or> length unique \<noteq> length (cs_sourceRefs i) \<or> \<not> shaped
      then Inl RECOVERY_SOURCE_NOT_RECOGNISED else Inr ())"

section \<open>Commands\<close>

text \<open>
  \<^verbatim>\<open>recoveryCaseCommandV1\<close>: identifiers are GUIDs and texts arrive trimmed; what remains of the
  schema are the lengths and bounds. The version literal and the expected revision of a new case
  are fixed by the constructor.
\<close>

definition MAX_CLAIM :: int where
  "MAX_CLAIM = 1000000000000"

record open_command =
  oc_commandId :: string
  oc_caseType :: recovery_case_type
  oc_claimedNetPence :: int
  oc_counterparty :: string
  oc_book :: recovery_book
  oc_sourceType :: recovery_source_type
  oc_sourceRefs :: "string list"
  oc_reviewerRef :: "string option"

record amend_command =
  ac_commandId :: string
  ac_caseId :: string
  ac_claimedNetPence :: int
  ac_reviewerRef :: "string option"
  ac_expectedRevision :: int

record transition_command =
  tc_commandId :: string
  tc_caseId :: string
  tc_eventType :: recovery_event
  tc_amountPence :: "int option"
  tc_reviewerRef :: "string option"
  tc_expectedRevision :: int

datatype recovery_command =
  Open_case open_command | Amend_claim amend_command | Transition_case transition_command

definition recovery_text :: "nat \<Rightarrow> string \<Rightarrow> bool" where
  "recovery_text n s \<longleftrightarrow> 1 \<le> length s \<and> length s \<le> n"

definition reviewer_ok :: "string option \<Rightarrow> bool" where
  "reviewer_ok r \<longleftrightarrow> pred_option (recovery_text 200) r"

definition claim_ok :: "int \<Rightarrow> bool" where
  "claim_ok n \<longleftrightarrow> 0 < n \<and> n \<le> MAX_CLAIM"

definition recoveryCaseCommandV1 :: "recovery_command \<Rightarrow> bool" where
  "recoveryCaseCommandV1 c = (case c of
     Open_case o' \<Rightarrow> oc_caseType o' \<noteq> Missed_variation_final_account \<and> claim_ok (oc_claimedNetPence o') \<and>
       recovery_text 120 (oc_counterparty o') \<and> 1 \<le> length (oc_sourceRefs o') \<and> length (oc_sourceRefs o') \<le> 6 \<and>
       list_all (recovery_text 160) (oc_sourceRefs o') \<and> reviewer_ok (oc_reviewerRef o')
   | Amend_claim a \<Rightarrow> claim_ok (ac_claimedNetPence a) \<and> reviewer_ok (ac_reviewerRef a) \<and> revision_safe (ac_expectedRevision a)
   | Transition_case t \<Rightarrow> pred_option claim_ok (tc_amountPence t) \<and> reviewer_ok (tc_reviewerRef t) \<and>
       revision_safe (tc_expectedRevision t))"

section \<open>The recorded case\<close>

text \<open>
  \<^verbatim>\<open>recovery_case_current\<close>: the state of the last event, the last claim, and the sums of the
  recorded amounts. The repository gives a manual receipt or reversal the manual sum, and every
  other event what was received in all.
\<close>

record recovery_case =
  rc_state :: recovery_state
  rc_claim :: int
  rc_manual :: int
  rc_approved :: int
  rc_writtenOff :: int

definition case_landed :: "recovery_case \<Rightarrow> int" where
  "case_landed c = max (rc_manual c) (rc_approved c)"

definition opened_case :: "recovery_case_type \<Rightarrow> int \<Rightarrow> recovery_case" where
  "opened_case t claim = \<lparr>rc_state = (if t = Prevention then Prevented else Identified), rc_claim = claim,
     rc_manual = 0, rc_approved = 0, rc_writtenOff = 0\<rparr>"

definition manual_event :: "recovery_event \<Rightarrow> bool" where
  "manual_event ev \<longleftrightarrow> ev = Record_landing \<or> ev = Reverse_landing"

definition transition_case :: "recovery_case \<Rightarrow> recovery_event \<Rightarrow> int option \<Rightarrow> recovery_error + recovery_case" where
  "transition_case c ev amount =
     bind_r (transitionRecoveryCase \<lparr>ti_state = rc_state c, ti_event = ev, ti_claimedPence = JInt (rc_claim c),
         ti_landedPence = JInt (if manual_event ev then rc_manual c else case_landed c),
         ti_writtenOffPence = Some (JInt (rc_writtenOff c)), ti_amountPence = map_option JInt amount,
         ti_approvedLandedPence = Some (JInt (rc_approved c))\<rparr>) (\<lambda>next.
       Inr (c\<lparr>rc_state := tr_state next,
         rc_manual := (if manual_event ev then tr_landedPence next else rc_manual c),
         rc_writtenOff := rc_writtenOff c + (if ev = Write_off then tr_writtenOffPence next else 0)\<rparr>))"

definition amend_case :: "recovery_case \<Rightarrow> int \<Rightarrow> recovery_error + recovery_case" where
  "amend_case c claimed =
     bind_r (stateAfterClaimAmendment \<lparr>am_state = rc_state c, am_currentClaimedPence = JInt (rc_claim c),
         am_claimedPence = JInt claimed, am_landedPence = JInt (case_landed c),
         am_writtenOffPence = JInt (rc_writtenOff c)\<rparr>) (\<lambda>s.
       Inr (c\<lparr>rc_state := s, rc_claim := claimed\<rparr>))"

text \<open>
  The steps of a recorded case: a command, a claim amendment, and the landing routine, which runs in
  the database and sets the approved sum to any amount the claim leaves room for.
\<close>

inductive recovery_step :: "recovery_case \<Rightarrow> recovery_case \<Rightarrow> bool" where
  transition: "pred_option claim_ok amount \<Longrightarrow> transition_case c ev amount = Inr c' \<Longrightarrow> recovery_step c c'"
| amendment: "claim_ok claimed \<Longrightarrow> amend_case c claimed = Inr c' \<Longrightarrow> recovery_step c c'"
| approval: "rc_state c \<noteq> Prevented \<Longrightarrow> 0 \<le> approved \<Longrightarrow> approved + rc_writtenOff c \<le> rc_claim c \<Longrightarrow>
    recovery_step c (c\<lparr>rc_approved := approved\<rparr>)"

inductive recovery_reachable :: "recovery_case \<Rightarrow> bool" where
  opened: "claim_ok claim \<Longrightarrow> recovery_reachable (opened_case t claim)"
| step: "recovery_reachable c \<Longrightarrow> recovery_step c c' \<Longrightarrow> recovery_reachable c'"

section \<open>What a transition does, by event\<close>

lemma recovery_pence_JInt: "0 \<le> n \<Longrightarrow> n \<le> MAX_CLAIM \<Longrightarrow> recovery_pence (JInt n) = Inr n"
  by (simp add: recovery_pence_def money_of_JInt MAX_CLAIM_def MAX_MONEY_PENCE_def)

lemma recovery_pence_NaN: "recovery_pence JNotInteger = Inl (Recovery_money Invalid_pence)"
  by (simp add: recovery_pence_def money_of_def)

definition books_ok :: "recovery_case \<Rightarrow> bool" where
  "books_ok c \<longleftrightarrow> claim_ok (rc_claim c) \<and> 0 \<le> rc_manual c \<and> 0 \<le> rc_approved c \<and> 0 \<le> rc_writtenOff c \<and>
     case_landed c + rc_writtenOff c \<le> rc_claim c"

text \<open>The receipts a manual event leaves, and the guard of each event on the recorded amounts.\<close>

definition received_state :: "recovery_case \<Rightarrow> int \<Rightarrow> recovery_state" where
  "received_state c manual =
     (let effective = max manual (rc_approved c) in
      if effective = rc_claim c then Landed else if effective + rc_writtenOff c = rc_claim c then Closed_no_recovery
      else if effective > 0 then Partially_landed else Evidence_assembled)"

fun amount_guard :: "recovery_case \<Rightarrow> recovery_event \<Rightarrow> int option \<Rightarrow> bool" where
  "amount_guard c Record_landing a = (case a of None \<Rightarrow> False | Some n \<Rightarrow> rc_manual c + rc_writtenOff c + n \<le> rc_claim c)"
| "amount_guard c Reverse_landing a = (case a of None \<Rightarrow> False | Some n \<Rightarrow> n \<le> rc_manual c)"
| "amount_guard c Dispute a = pred_option (\<lambda>n. n \<le> rc_claim c) a"
| "amount_guard c Prevent a = (case_landed c = 0)"
| "amount_guard c Close_recovered a = (case_landed c = rc_claim c)"
| "amount_guard c Write_off a = (case_landed c + rc_writtenOff c < rc_claim c)"
| "amount_guard c ev a = True"

fun after_event :: "recovery_case \<Rightarrow> recovery_event \<Rightarrow> int \<Rightarrow> recovery_case" where
  "after_event c Record_landing n = c\<lparr>rc_state := received_state c (rc_manual c + n), rc_manual := rc_manual c + n\<rparr>"
| "after_event c Reverse_landing n = c\<lparr>rc_state := received_state c (rc_manual c - n), rc_manual := rc_manual c - n\<rparr>"
| "after_event c Write_off n = c\<lparr>rc_state := Closed_no_recovery, rc_writtenOff := rc_claim c - case_landed c\<rparr>"
| "after_event c ev n = c\<lparr>rc_state := plain_target ev\<rparr>"

definition refusal :: "recovery_case \<Rightarrow> recovery_event \<Rightarrow> int option \<Rightarrow> recovery_error" where
  "refusal c ev a = (if recoveryEventAllowedFrom (rc_state c) ev \<and> manual_event ev \<and> a = None
     then Recovery_money Invalid_pence else RECOVERY_TRANSITION_FORBIDDEN (rc_state c) ev)"

text \<open>
  On a case whose books are in order the transition is this table: it is refused exactly when the
  life cycle or the amount guard says so.
\<close>

lemma transition_case_table:
  assumes ok: "books_ok c" and a: "pred_option claim_ok amount"
  shows "transition_case c ev amount =
    (if recoveryEventAllowedFrom (rc_state c) ev \<and> amount_guard c ev amount
     then Inr (after_event c ev (case amount of None \<Rightarrow> 0 | Some n \<Rightarrow> n)) else Inl (refusal c ev amount))"
proof (cases "recoveryEventAllowedFrom (rc_state c) ev")
  case False
  then show ?thesis by (simp add: transition_case_def transitionRecoveryCase_def refusal_def)
next
  case True
  have b: "0 \<le> rc_claim c" "rc_claim c \<le> MAX_CLAIM" "0 \<le> rc_manual c" "rc_manual c \<le> MAX_CLAIM" "0 \<le> rc_approved c"
    "rc_approved c \<le> MAX_CLAIM" "0 \<le> rc_writtenOff c" "rc_writtenOff c \<le> MAX_CLAIM" "0 \<le> case_landed c"
    "case_landed c \<le> MAX_CLAIM" "case_landed c + rc_writtenOff c \<le> rc_claim c"
    "rc_manual c + rc_writtenOff c \<le> rc_claim c" "rc_approved c + rc_writtenOff c \<le> rc_claim c"
    using ok by (auto simp: books_ok_def claim_ok_def case_landed_def max_def split: if_splits)
  have amt: "0 < n" "n \<le> MAX_CLAIM" if "amount = Some n" for n using a that by (auto simp: claim_ok_def)
  show ?thesis
  proof (cases "manual_event ev")
    case man: True
    then show ?thesis
      using True b amt
      by (cases ev; cases amount)
        (auto simp: transition_case_def transitionRecoveryCase_def refusal_def manual_event_def recovery_pence_JInt
          recovery_pence_NaN dispute_amount_ok_def apply_event_def or_else_def receiptState_def received_state_def Let_def)
  next
    case man: False
    then show ?thesis
      using True b amt
      by (cases ev; cases amount)
        (auto simp: transition_case_def transitionRecoveryCase_def refusal_def manual_event_def recovery_pence_JInt
          recovery_pence_NaN dispute_amount_ok_def apply_event_def or_else_def Let_def)
  qed
qed

lemma transition_case_Inr_iff:
  "books_ok c \<Longrightarrow> pred_option claim_ok amount \<Longrightarrow>
   transition_case c ev amount = Inr c' \<longleftrightarrow> recoveryEventAllowedFrom (rc_state c) ev \<and> amount_guard c ev amount \<and>
     c' = after_event c ev (case amount of None \<Rightarrow> 0 | Some n \<Rightarrow> n)"
  by (auto simp: transition_case_table)

lemma amend_case_table:
  assumes "books_ok c" "claim_ok claimed"
  shows "amend_case c claimed =
    (if claimed < case_landed c + rc_writtenOff c then Inl RECOVERY_CLAIM_BELOW_SETTLED
     else if closedOrFullyReceived (rc_state c) \<and> rc_claim c < claimed then Inl RECOVERY_CLAIM_AMENDMENT_ON_CLOSED_CASE
     else Inr (c\<lparr>rc_claim := claimed, rc_state :=
       (if open_case (rc_state c) \<and> claimed < rc_claim c \<and> claimed = case_landed c + rc_writtenOff c
        then (if rc_writtenOff c = 0 then Landed else Closed_no_recovery) else rc_state c)\<rparr>))"
proof -
  have "0 \<le> rc_claim c" "rc_claim c \<le> MAX_CLAIM" "0 \<le> claimed" "claimed \<le> MAX_CLAIM" "0 \<le> rc_writtenOff c"
    "rc_writtenOff c \<le> MAX_CLAIM" "0 \<le> case_landed c" "case_landed c \<le> MAX_CLAIM"
    using assms by (auto simp: books_ok_def claim_ok_def case_landed_def max_def split: if_splits)
  then show ?thesis
    by (auto simp: amend_case_def stateAfterClaimAmendment_def assertClaimAmendable_def assertClaimCoversSettled_def
      recovery_pence_JInt)
qed

section \<open>The invariant of a recorded case\<close>

text \<open>
  Besides the books: what a state says of the money recorded by hand. A case that is only
  identified, or prevented, has received nothing; a case that is partly received by hand has room left.
\<close>

definition case_ok :: "recovery_case \<Rightarrow> bool" where
  "case_ok c \<longleftrightarrow> books_ok c \<and>
     (rc_state c = Identified \<longrightarrow> rc_manual c = 0 \<and> rc_writtenOff c = 0) \<and>
     (rc_state c = Prevented \<longrightarrow> case_landed c = 0 \<and> rc_writtenOff c = 0) \<and>
     (rc_state c = Landed \<or> rc_state c = Closed_recovered \<longrightarrow> rc_writtenOff c = 0) \<and>
     (rc_state c = Partially_landed \<longrightarrow> rc_manual c + rc_writtenOff c < rc_claim c)"

lemma opened_case_ok: "claim_ok claim \<Longrightarrow> case_ok (opened_case t claim)"
  by (simp add: case_ok_def books_ok_def opened_case_def case_landed_def claim_ok_def)

lemma after_event_ok:
  assumes "case_ok c" "recoveryEventAllowedFrom (rc_state c) ev" "amount_guard c ev amount" "pred_option claim_ok amount"
  shows "case_ok (after_event c ev (case amount of None \<Rightarrow> 0 | Some n \<Rightarrow> n))"
  using assms
  by (cases ev; cases amount; cases "rc_state c")
    (auto simp: case_ok_def books_ok_def case_landed_def claim_ok_def received_state_def Let_def recoveryEventAllowedFrom_def)

lemma amend_case_ok:
  assumes "case_ok c" "claim_ok claimed" "amend_case c claimed = Inr c'"
  shows "case_ok c'"
proof -
  have "books_ok c" using assms(1) by (simp add: case_ok_def)
  with assms show ?thesis
    by (cases "rc_state c")
      (auto simp: amend_case_table case_ok_def books_ok_def case_landed_def open_case_def closedOrFullyReceived_def
        split: if_splits)
qed

lemma recovery_step_ok: "recovery_step c c' \<Longrightarrow> case_ok c \<Longrightarrow> case_ok c'"
proof (induction rule: recovery_step.induct)
  case (transition amount c ev c')
  then show ?case using after_event_ok [of c ev amount] by (simp add: transition_case_Inr_iff case_ok_def)
next
  case (amendment claimed c c')
  then show ?case by (blast intro: amend_case_ok)
next
  case (approval c approved)
  then show ?case by (auto simp: case_ok_def books_ok_def case_landed_def)
qed

lemma recovery_reachable_ok: "recovery_reachable c \<Longrightarrow> case_ok c"
  by (induction rule: recovery_reachable.induct) (auto intro: opened_case_ok recovery_step_ok)

lemma recovery_reachable_books: "recovery_reachable c \<Longrightarrow> books_ok c"
  using recovery_reachable_ok by (simp add: case_ok_def)

text \<open>A run of events on a case.\<close>

definition run_case :: "recovery_case \<Rightarrow> (recovery_event \<times> int option) list \<Rightarrow> recovery_error + recovery_case" where
  "run_case c evs = fold_r (\<lambda>c (ev, amount). transition_case c ev amount) c evs"

lemma run_case_simps [simp]:
  "run_case c [] = Inr c"
  "run_case c ((ev, amount) # evs) = bind_r (transition_case c ev amount) (\<lambda>c'. run_case c' evs)"
  by (simp_all add: run_case_def)

definition finished :: "recovery_state \<Rightarrow> bool" where
  "finished s \<longleftrightarrow> s = Closed_recovered \<or> s = Closed_no_recovery \<or> s = Prevented"

section \<open>Properties\<close>

text \<open>
  C9. The books of every reachable case hold, whatever commands, amendments and approvals arrive: what
  was received and what was written off stay within the claim, and the claim within its bound. A
  prevented case has received nothing. An event that closes a case as recovered, or marks it as
  received in full, does so only when the whole current claim has been received and nothing was
  written off; a receipt or a reversal changes the receipts recorded by hand by exactly its amount, a
  write-off writes off exactly what is outstanding, and no event changes anything else of the books or takes a
  write-off back. An amendment sets the claim and nothing else of the books, never below what
  is settled and never upwards in a case that is landed or closed; it changes the state exactly when it reduces
  the claim of an open case to what is settled, and then the case is landed if all of it was
  received, and closed without recovery if some was written off.
\<close>

theorem recovery_books_hold:
  assumes "recovery_reachable c"
  shows "0 \<le> case_landed c \<and> 0 \<le> rc_writtenOff c \<and> case_landed c + rc_writtenOff c \<le> rc_claim c \<and> rc_claim c \<le> MAX_CLAIM \<and>
    (rc_state c = Prevented \<longrightarrow> case_landed c = 0 \<and> rc_writtenOff c = 0) \<and>
    (\<forall>ev amount c'. pred_option claim_ok amount \<and> transition_case c ev amount = Inr c' \<longrightarrow>
      (rc_state c' = Closed_recovered \<or> rc_state c' = Landed \<longrightarrow> case_landed c' = rc_claim c' \<and> rc_writtenOff c' = 0) \<and>
      rc_claim c' = rc_claim c \<and> rc_approved c' = rc_approved c \<and> rc_writtenOff c \<le> rc_writtenOff c' \<and>
      rc_manual c' = rc_manual c + (if ev = Record_landing then the amount else if ev = Reverse_landing then - the amount else 0) \<and>
      rc_writtenOff c' = rc_writtenOff c + (if ev = Write_off then rc_claim c - case_landed c - rc_writtenOff c else 0)) \<and>
    (\<forall>claimed c'. claim_ok claimed \<and> amend_case c claimed = Inr c' \<longrightarrow>
      rc_claim c' = claimed \<and> rc_manual c' = rc_manual c \<and> rc_approved c' = rc_approved c \<and> rc_writtenOff c' = rc_writtenOff c \<and>
      case_landed c' + rc_writtenOff c' \<le> claimed \<and>
      (rc_state c \<in> {Landed, Closed_recovered, Closed_no_recovery} \<longrightarrow> claimed \<le> rc_claim c) \<and>
      rc_state c' =
        (if rc_state c \<in> {Identified, Evidence_assembled, Pursuing, Negotiating, Partially_landed} \<and> claimed < rc_claim c \<and>
            case_landed c + rc_writtenOff c = claimed
         then (if rc_writtenOff c = 0 then Landed else Closed_no_recovery) else rc_state c) \<and>
      (rc_state c \<noteq> Landed \<and> rc_state c' = Landed \<longrightarrow> case_landed c' = rc_claim c' \<and> rc_writtenOff c' = 0))"
proof -
  have ok: "case_ok c" "books_ok c" using assms by (rule recovery_reachable_ok, rule recovery_reachable_books)
  have books: "0 \<le> case_landed c \<and> 0 \<le> rc_writtenOff c \<and> case_landed c + rc_writtenOff c \<le> rc_claim c \<and> rc_claim c \<le> MAX_CLAIM \<and>
    (rc_state c = Prevented \<longrightarrow> case_landed c = 0 \<and> rc_writtenOff c = 0)"
    using ok by (auto simp: case_ok_def books_ok_def claim_ok_def case_landed_def)
  have event: "(rc_state c' = Closed_recovered \<or> rc_state c' = Landed \<longrightarrow> case_landed c' = rc_claim c' \<and> rc_writtenOff c' = 0) \<and>
      rc_claim c' = rc_claim c \<and> rc_approved c' = rc_approved c \<and> rc_writtenOff c \<le> rc_writtenOff c' \<and>
      rc_manual c' = rc_manual c + (if ev = Record_landing then the amount else if ev = Reverse_landing then - the amount else 0) \<and>
      rc_writtenOff c' = rc_writtenOff c + (if ev = Write_off then rc_claim c - case_landed c - rc_writtenOff c else 0)"
    if "pred_option claim_ok amount" "transition_case c ev amount = Inr c'" for ev amount c'
    using that ok transition_case_Inr_iff [OF ok(2) that(1), of ev c']
    by (cases ev)
      (auto simp: books_ok_def case_landed_def received_state_def Let_def claim_ok_def split: if_splits option.splits)
  have amendment: "rc_claim c' = claimed \<and> rc_manual c' = rc_manual c \<and> rc_approved c' = rc_approved c \<and> rc_writtenOff c' = rc_writtenOff c \<and>
      case_landed c' + rc_writtenOff c' \<le> claimed \<and>
      (rc_state c \<in> {Landed, Closed_recovered, Closed_no_recovery} \<longrightarrow> claimed \<le> rc_claim c) \<and>
      rc_state c' =
        (if rc_state c \<in> {Identified, Evidence_assembled, Pursuing, Negotiating, Partially_landed} \<and> claimed < rc_claim c \<and>
            case_landed c + rc_writtenOff c = claimed
         then (if rc_writtenOff c = 0 then Landed else Closed_no_recovery) else rc_state c) \<and>
      (rc_state c \<noteq> Landed \<and> rc_state c' = Landed \<longrightarrow> case_landed c' = rc_claim c' \<and> rc_writtenOff c' = 0)"
    if "claim_ok claimed" "amend_case c claimed = Inr c'" for claimed c'
  proof -
    from that(2) have ge: "case_landed c + rc_writtenOff c \<le> claimed"
      and closed: "\<not> (closedOrFullyReceived (rc_state c) \<and> rc_claim c < claimed)"
      and c': "c' = c\<lparr>rc_claim := claimed, rc_state :=
        (if open_case (rc_state c) \<and> claimed < rc_claim c \<and> claimed = case_landed c + rc_writtenOff c
         then (if rc_writtenOff c = 0 then Landed else Closed_no_recovery) else rc_state c)\<rparr>"
      unfolding amend_case_table [OF ok(2) that(1)] by (auto split: if_split_asm)
    have landed: "case_landed (c\<lparr>rc_claim := m, rc_state := st\<rparr>) = case_landed c" for m st by (simp add: case_landed_def)
    show ?thesis using ge closed
      by (cases "rc_state c") (simp_all add: c' landed open_case_def closedOrFullyReceived_def eq_commute [of claimed])
  qed
  show ?thesis using books event amendment by (intro conjI allI impI; (elim conjE)?) blast+
qed

text \<open>
  C29. No case is ever stranded. From every reachable case at most two events, which the code
  accepts one after the other, close it; every case that is not prevented accepts some event; and a
  partly received case can always record exactly what is missing, which leaves nothing outstanding.
\<close>

theorem recovery_never_stranded:
  assumes "recovery_reachable c"
  shows "(\<exists>evs c'. length evs \<le> 2 \<and> run_case c evs = Inr c' \<and> finished (rc_state c')) \<and>
    (rc_state c \<noteq> Prevented \<longrightarrow> (\<exists>ev c'. transition_case c ev None = Inr c')) \<and>
    (rc_state c = Partially_landed \<longrightarrow> (\<exists>amount c'. claim_ok amount \<and> transition_case c Record_landing (Some amount) = Inr c' \<and>
      case_landed c' + rc_writtenOff c' = rc_claim c' \<and> (rc_state c' = Landed \<or> rc_state c' = Closed_no_recovery)))"
proof (intro conjI impI)
  have ok: "case_ok c" "books_ok c" using assms by (rule recovery_reachable_ok, rule recovery_reachable_books)
  have close: "run_case d [(Close_no_recovery, None)] = Inr (d\<lparr>rc_state := Closed_no_recovery\<rparr>)"
    if "books_ok d" "Close_no_recovery \<in> set (allowed (rc_state d))" for d
    using that by (simp add: transition_case_table recoveryEventAllowedFrom_def)
  have dispute: "transition_case c Dispute None = Inr (c\<lparr>rc_state := Negotiating\<rparr>)" if "Dispute \<in> set (allowed (rc_state c))"
    using that ok by (simp add: transition_case_table recoveryEventAllowedFrom_def)
  have reopened: "books_ok (c\<lparr>rc_state := Negotiating\<rparr>)" using ok by (simp add: books_ok_def case_landed_def)
  consider "finished (rc_state c)" | "Close_no_recovery \<in> set (allowed (rc_state c))" | "Dispute \<in> set (allowed (rc_state c))"
    by (cases "rc_state c") (auto simp: finished_def)
  then show "\<exists>evs c'. length evs \<le> 2 \<and> run_case c evs = Inr c' \<and> finished (rc_state c')"
  proof cases
    case 1
    then have "length [] \<le> (2::nat) \<and> run_case c [] = Inr c \<and> finished (rc_state c)" by simp
    then show ?thesis by blast
  next
    case 2
    have "length [(Close_no_recovery, None :: int option)] \<le> 2" by simp
    with close [OF ok(2) 2] show ?thesis by (fastforce simp: finished_def)
  next
    case 3
    have "run_case c [(Dispute, None), (Close_no_recovery, None)] = Inr (c\<lparr>rc_state := Closed_no_recovery\<rparr>)"
      using dispute [OF 3] close [OF reopened] by simp
    moreover have "length [(Dispute, None :: int option), (Close_no_recovery, None)] \<le> 2" by simp
    ultimately show ?thesis by (fastforce simp: finished_def)
  qed
  show "\<exists>ev c'. transition_case c ev None = Inr c'" if "rc_state c \<noteq> Prevented"
    using that dispute close [OF ok(2)] by (cases "rc_state c") (auto simp: bind_r_Inr_iff)
  show "\<exists>amount c'. claim_ok amount \<and> transition_case c Record_landing (Some amount) = Inr c' \<and>
      case_landed c' + rc_writtenOff c' = rc_claim c' \<and> (rc_state c' = Landed \<or> rc_state c' = Closed_no_recovery)"
    if "rc_state c = Partially_landed"
  proof -
    let ?left = "rc_claim c - rc_manual c - rc_writtenOff c"
    have "claim_ok ?left" using ok that by (auto simp: case_ok_def books_ok_def claim_ok_def)
    moreover from this have "transition_case c Record_landing (Some ?left) = Inr (after_event c Record_landing ?left)"
      using ok that by (simp add: transition_case_table recoveryEventAllowedFrom_def)
    moreover have "max (rc_claim c - rc_writtenOff c) (rc_approved c) = rc_claim c - rc_writtenOff c"
      using ok by (auto simp: books_ok_def case_landed_def)
    then have "case_landed (after_event c Record_landing ?left) + rc_writtenOff c = rc_claim c"
      "rc_state (after_event c Record_landing ?left) = Landed \<or> rc_state (after_event c Record_landing ?left) = Closed_no_recovery"
      by (simp_all add: case_landed_def received_state_def Let_def)
    ultimately show ?thesis by (intro exI conjI) (assumption | simp)+
  qed
qed

text \<open>
  C30. On every reachable case an event is refused exactly when the life cycle does not list it for
  the state or its amount does not fit the books, and the refusal names the state and the event; only
  a receipt or reversal sent without an amount is refused as invalid money. An accepted event never
  breaks the books, and a refused one leaves no new case.
\<close>

theorem recovery_refused_exactly:
  assumes "recovery_reachable c" and "pred_option claim_ok amount"
  shows "((\<exists>e. transition_case c ev amount = Inl e) \<longleftrightarrow>
      ev \<notin> set (allowed (rc_state c)) \<or>
      (ev = Record_landing \<and> (\<forall>n. amount = Some n \<longrightarrow> rc_claim c < rc_manual c + rc_writtenOff c + n)) \<or>
      (ev = Reverse_landing \<and> (\<forall>n. amount = Some n \<longrightarrow> rc_manual c < n)) \<or>
      (ev = Dispute \<and> (\<exists>n. amount = Some n \<and> rc_claim c < n)) \<or>
      (ev = Prevent \<and> case_landed c \<noteq> 0) \<or> (ev = Close_recovered \<and> case_landed c \<noteq> rc_claim c) \<or>
      (ev = Write_off \<and> case_landed c + rc_writtenOff c = rc_claim c)) \<and>
    (\<forall>e. transition_case c ev amount = Inl e \<longrightarrow>
      e = (if amount = None \<and> manual_event ev \<and> ev \<in> set (allowed (rc_state c)) then Recovery_money Invalid_pence
           else RECOVERY_TRANSITION_FORBIDDEN (rc_state c) ev))"
proof
  have ok: "books_ok c" using assms(1) by (rule recovery_reachable_books)
  note table = transition_case_table [OF ok assms(2), of ev]
  have "(\<exists>e. transition_case c ev amount = Inl e) \<longleftrightarrow> ev \<notin> set (allowed (rc_state c)) \<or> \<not> amount_guard c ev amount"
    by (simp add: table recoveryEventAllowedFrom_def)
  then
  show "(\<exists>e. transition_case c ev amount = Inl e) \<longleftrightarrow>
      ev \<notin> set (allowed (rc_state c)) \<or>
      (ev = Record_landing \<and> (\<forall>n. amount = Some n \<longrightarrow> rc_claim c < rc_manual c + rc_writtenOff c + n)) \<or>
      (ev = Reverse_landing \<and> (\<forall>n. amount = Some n \<longrightarrow> rc_manual c < n)) \<or>
      (ev = Dispute \<and> (\<exists>n. amount = Some n \<and> rc_claim c < n)) \<or>
      (ev = Prevent \<and> case_landed c \<noteq> 0) \<or> (ev = Close_recovered \<and> case_landed c \<noteq> rc_claim c) \<or>
      (ev = Write_off \<and> case_landed c + rc_writtenOff c = rc_claim c)"
    using ok by (cases ev; cases amount) (auto simp: books_ok_def)
  show "\<forall>e. transition_case c ev amount = Inl e \<longrightarrow>
      e = (if amount = None \<and> manual_event ev \<and> ev \<in> set (allowed (rc_state c)) then Recovery_money Invalid_pence
           else RECOVERY_TRANSITION_FORBIDDEN (rc_state c) ev)"
    by (auto simp: table refusal_def recoveryEventAllowedFrom_def)
qed

section \<open>A concrete case\<close>

text \<open>A claim of 1000 pence is pursued, 400 pence arrive, and the rest is written off.\<close>

definition rc_example :: recovery_case where
  "rc_example = \<lparr>rc_state = Partially_landed, rc_claim = 1000, rc_manual = 400, rc_approved = 0, rc_writtenOff = 0\<rparr>"

lemma rc_example_reachable: "recovery_reachable rc_example"
proof -
  have claim: "claim_ok 1000" by code_simp
  have e: "transition_case (opened_case Merchant_overcharge 1000) Assemble_evidence None =
      Inr (opened_case Merchant_overcharge 1000\<lparr>rc_state := Evidence_assembled\<rparr>)" by code_simp
  have l: "transition_case (opened_case Merchant_overcharge 1000\<lparr>rc_state := Evidence_assembled\<rparr>) Record_landing (Some 400) =
      Inr rc_example" by code_simp
  have "pred_option claim_ok (None :: int option)" "pred_option claim_ok (Some 400)" by (simp_all add: claim_ok_def MAX_CLAIM_def)
  with e l claim show ?thesis
    by (meson recovery_reachable.opened recovery_reachable.step recovery_step.transition)
qed

theorem recovery_books_hold_witness:
  "case_landed rc_example + rc_writtenOff rc_example \<le> 1000 \<and> rc_claim rc_example \<le> MAX_CLAIM"
  using recovery_books_hold [OF rc_example_reachable] by (simp add: rc_example_def)

theorem recovery_never_stranded_witness:
  "\<exists>amount c'. transition_case rc_example Record_landing (Some amount) = Inr c' \<and> case_landed c' + rc_writtenOff c' = rc_claim c'"
  using recovery_never_stranded [OF rc_example_reachable] by (auto simp: rc_example_def)

theorem recovery_refused_exactly_witness:
  "(\<exists>e. transition_case rc_example Record_landing (Some 601) = Inl e) \<and>
   \<not> (\<exists>e. transition_case rc_example Record_landing (Some 600) = Inl e)"
proof -
  have "pred_option claim_ok (Some 601)" "pred_option claim_ok (Some 600)" by (simp_all add: claim_ok_def MAX_CLAIM_def)
  note r = this [THEN recovery_refused_exactly [OF rc_example_reachable, of _ Record_landing, THEN conjunct1]]
  show ?thesis unfolding r by (simp add: rc_example_def)
qed

end
