(* ===== verification/Work_State.thy ===== *)
theory Work_State
  imports Schemas
begin

text \<open>
  Model of \<^verbatim>\<open>packages/core/src/job-work-state.ts\<close>: the facts recorded about the work on a job, their
  canonical order and the projection to the current finished and closed markers. A work-fact time is
  a canonical UTC text with exactly six fraction digits, which the source compares as text; here it is
  the number of microseconds since 1970, which orders the admitted texts in the same way. A raw value
  is \<open>None\<close> when it does not have the shape of the schema; identifiers are GUID texts, and
  \<^verbatim>\<open>JSON.stringify\<close> of all fields of two events is equal exactly if the events are.
\<close>

section \<open>Times\<close>

type_synonym work_time = int

text \<open>The first and the last microsecond of the years 0000 to 9999.\<close>

definition MIN_WORK_TIME :: work_time where
  "MIN_WORK_TIME = - 719528 * 86400 * 1000000"

definition MAX_WORK_TIME :: work_time where
  "MAX_WORK_TIME = 2932897 * 86400 * 1000000 - 1"

definition workFactTimeV1 :: "work_time \<Rightarrow> bool" where
  "workFactTimeV1 t \<longleftrightarrow> MIN_WORK_TIME \<le> t \<and> t \<le> MAX_WORK_TIME"

section \<open>Commands\<close>

datatype close_reason = Cancelled_by_customer | Abandoned | Completed_outside_jobguard | Other_reason

definition note_ok :: "string \<Rightarrow> bool" where
  "note_ok s \<longleftrightarrow> 1 \<le> length s \<and> length s \<le> 2000"

datatype work_action =
  Finish_work | Cancel_finish string | Close_work close_reason string | Reopen_work string | Resume_work

record work_command =
  wc_commandId :: string
  wc_expectedRevision :: int
  wc_action :: work_action

definition jobWorkStateCommandV1 :: "work_command \<Rightarrow> bool" where
  "jobWorkStateCommandV1 c \<longleftrightarrow> counter_ok (wc_expectedRevision c) \<and>
     (case wc_action c of Close_work r note \<Rightarrow> note_ok note | _ \<Rightarrow> True)"

record link_command =
  lc_commandId :: string
  lc_successorJobId :: string
  lc_expectedRevision :: int
  lc_predecessorBindingId :: string
  lc_successorBindingId :: string

definition jobLinkCommandV1 :: "link_command \<Rightarrow> bool" where
  "jobLinkCommandV1 c \<longleftrightarrow> counter_ok (lc_expectedRevision c)"

section \<open>Events\<close>

datatype work_fact_kind =
  First_site_evidence | Site_activity | Finished_on_site | Finished_cancelled | Work_closed | Work_reopened | Work_resumed

record work_event =
  we_id :: string
  we_jobId :: string
  we_sequence :: int
  we_kind :: work_fact_kind
  we_factAt :: work_time
  we_recordedAt :: work_time
  we_sourceReceiptId :: "string option"
  we_commandId :: "string option"
  we_predecessorId :: "string option"
  we_closeReason :: "close_reason option"
  we_closeNote :: "string option"

definition site_fact :: "work_fact_kind \<Rightarrow> bool" where
  "site_fact k \<longleftrightarrow> k = First_site_evidence \<or> k = Site_activity"

definition jobWorkStateEventV1 :: "work_event \<Rightarrow> bool" where
  "jobWorkStateEventV1 e \<longleftrightarrow> revision_safe (we_sequence e) \<and> workFactTimeV1 (we_factAt e) \<and> workFactTimeV1 (we_recordedAt e) \<and>
     pred_option note_ok (we_closeNote e) \<and>
     (we_kind e = Work_closed) = (we_closeReason e \<noteq> None \<and> we_closeNote e \<noteq> None) \<and>
     \<not> (we_kind e \<noteq> Work_closed \<and> (we_closeReason e \<noteq> None \<or> we_closeNote e \<noteq> None)) \<and>
     (we_kind e \<in> {Finished_cancelled, Work_reopened}) = (we_predecessorId e \<noteq> None) \<and>
     we_predecessorId e \<noteq> Some (we_id e) \<and>
     \<not> (site_fact (we_kind e) \<and> we_sourceReceiptId e = None) \<and>
     \<not> (\<not> site_fact (we_kind e) \<and> we_kind e \<noteq> Finished_cancelled \<and> (we_commandId e = None \<or> we_sourceReceiptId e \<noteq> None)) \<and>
     \<not> (we_kind e = Finished_cancelled \<and> (we_commandId e = None) = (we_sourceReceiptId e = None))"

section \<open>Site sources\<close>

datatype photo_purpose = Progress | Proof_photo | Snagging

record photo_source =
  ps_original :: bool
  ps_verified :: bool
  ps_invalidated :: bool
  ps_purpose :: photo_purpose
  ps_objectVersionId :: string
  ps_sha256 :: string
  ps_byteLength :: int

datatype site_source =
    Photo photo_source
  | Delivery_note bool string
  | Goods_receipt | Builder_extra | Stage_completion | Order | Supplier_invoice | Quote | Message | Readiness | Billing
  | Final_review | Jobguard_catch | Repricing | Approval | Rejection | Withdrawal

definition siteSourceV1 :: "site_source \<Rightarrow> bool" where
  "siteSourceV1 s = (case s of Photo p \<Rightarrow> 1 \<le> length (ps_objectVersionId p) \<and> length (ps_objectVersionId p) \<le> 1024 \<and>
     sha_text (ps_sha256 p) \<and> revision_safe (ps_byteLength p) | _ \<Rightarrow> True)"

datatype work_state_error =
  WORK_STATE_CONFLICT | JOB_NOT_LIVE | WORK_STATE_STALE_REVISION | CAPACITY_ADMISSION_UNAVAILABLE | METER_UPGRADE_REQUIRED
| METER_PROJECTION_MISMATCH | INVALID_WORK_STATE_INPUT | WORK_FACT_IDENTITY_CONFLICT | WORK_STATE_FORBIDDEN
| SYNTHETIC_MODE_REQUIRED | POST_LOCK_WORK_REQUIRES_LINKED_JOB | JOB_WORK_CLOSED

record site_classification =
  sc_firstEvidence :: bool
  sc_activity :: bool

definition classifySiteSource :: "site_source option \<Rightarrow> work_state_error + site_classification" where
  "classifySiteSource raw = (case raw of None \<Rightarrow> Inl INVALID_WORK_STATE_INPUT | Some s \<Rightarrow>
     (if \<not> siteSourceV1 s then Inl INVALID_WORK_STATE_INPUT
      else let firstEvidence = (case s of Goods_receipt \<Rightarrow> True | Delivery_note ready _ \<Rightarrow> ready
             | Photo p \<Rightarrow> ps_original p \<and> ps_verified p \<and> \<not> ps_invalidated p \<and> ps_purpose p \<noteq> Snagging | _ \<Rightarrow> False)
           in Inr \<lparr>sc_firstEvidence = firstEvidence,
                sc_activity = (firstEvidence \<or> s = Builder_extra \<or> s = Stage_completion)\<rparr>))"

section \<open>Ordering\<close>

definition before_fact :: "work_event \<Rightarrow> work_event \<Rightarrow> bool" where
  "before_fact a b \<longleftrightarrow> we_factAt a < we_factAt b \<or> (we_factAt a = we_factAt b \<and> we_id a < we_id b)"

definition collect_fact ::
  "(string \<times> work_event) list \<Rightarrow> work_event option \<Rightarrow> work_state_error + (string \<times> work_event) list" where
  "collect_fact unique raw = (case raw of None \<Rightarrow> Inl INVALID_WORK_STATE_INPUT | Some e \<Rightarrow>
     (if \<not> jobWorkStateEventV1 e then Inl INVALID_WORK_STATE_INPUT
      else (case map_of unique (we_id e) of
          Some prior \<Rightarrow> (if prior \<noteq> e then Inl WORK_FACT_IDENTITY_CONFLICT else Inr (AList.update (we_id e) e unique))
        | None \<Rightarrow> Inr (AList.update (we_id e) e unique))))"

definition orderWorkFacts :: "work_event option list \<Rightarrow> work_state_error + work_event list" where
  "orderWorkFacts raw = bind_r (fold_r collect_fact [] raw) (\<lambda>unique. Inr (sort_by before_fact (map snd unique)))"

section \<open>Projection\<close>

record work_lock =
  wl_id :: string
  wl_lockedAt :: work_time

definition lockV1 :: "work_lock \<Rightarrow> bool" where
  "lockV1 l \<longleftrightarrow> workFactTimeV1 (wl_lockedAt l)"

record work_markers =
  wm_finished :: "string option"
  wm_closed :: "string option"
  wm_seen :: "(string \<times> work_event) list"

definition predecessor :: "work_markers \<Rightarrow> work_event \<Rightarrow> work_event option" where
  "predecessor m e = Option.bind (we_predecessorId e) (map_of (wm_seen m))"

text \<open>The body of the loop over the events in sequence.\<close>

definition mark_fact :: "work_markers \<Rightarrow> work_event \<Rightarrow> work_state_error + work_markers" where
  "mark_fact m e =
     bind_r (case we_kind e of
         Finished_on_site \<Rightarrow> Inr (m\<lparr>wm_finished := Some (we_id e)\<rparr>)
       | Work_closed \<Rightarrow> Inr (m\<lparr>wm_closed := Some (we_id e)\<rparr>)
       | Finished_cancelled \<Rightarrow>
           (case predecessor m e of None \<Rightarrow> Inl INVALID_WORK_STATE_INPUT | Some p \<Rightarrow>
              (if we_kind p \<noteq> Finished_on_site \<or> wm_finished m \<noteq> we_predecessorId e \<or> we_factAt p > we_factAt e
               then Inl INVALID_WORK_STATE_INPUT else Inr (m\<lparr>wm_finished := None\<rparr>)))
       | Work_reopened \<Rightarrow>
           (case predecessor m e of None \<Rightarrow> Inl INVALID_WORK_STATE_INPUT | Some p \<Rightarrow>
              (if we_kind p \<noteq> Work_closed \<or> wm_closed m \<noteq> we_predecessorId e
               then Inl INVALID_WORK_STATE_INPUT else Inr (m\<lparr>wm_closed := None\<rparr>)))
       | _ \<Rightarrow> Inr m) (\<lambda>m.
     Inr (m\<lparr>wm_seen := AList.update (we_id e) e (wm_seen m)\<rparr>))"

record work_projection =
  wp_events :: "work_event list"
  wp_firstSiteEvidenceId :: "string option"
  wp_finishedMarkerId :: "string option"
  wp_closedEventId :: "string option"
  wp_lock :: "work_lock option"

text \<open>
  \<open>marker_stands\<close>: a finished marker is dropped when a site fact follows it, by time and then by
  identifier. A lock that does not have its shape makes \<^verbatim>\<open>lockV1.parse\<close> throw.
\<close>

definition marker_stands :: "work_event list \<Rightarrow> work_event \<Rightarrow> bool" where
  "marker_stands events marker \<longleftrightarrow> \<not> list_ex (\<lambda>e. site_fact (we_kind e) \<and>
     (we_factAt e > we_factAt marker \<or> (we_factAt e = we_factAt marker \<and> we_id e > we_id marker))) events"

datatype projection_error = Work_state work_state_error | Zod_error

definition finished_marker :: "work_event list \<Rightarrow> work_markers \<Rightarrow> string option" where
  "finished_marker events m = (case wm_finished m of None \<Rightarrow> None | Some k \<Rightarrow>
     (case map_of (wm_seen m) k of None \<Rightarrow> Some k | Some marker \<Rightarrow> if marker_stands events marker then Some k else None))"

definition by_sequence :: "work_event list \<Rightarrow> work_event list" where
  "by_sequence events = sort_by (\<lambda>a b. we_sequence a < we_sequence b) events"

definition projectWorkFacts :: "work_event option list \<Rightarrow> work_lock option \<Rightarrow> projection_error + work_projection" where
  "projectWorkFacts raw lock =
     bind_r (map_err Work_state (orderWorkFacts raw)) (\<lambda>events.
     bind_r (map_err Work_state (fold_r mark_fact \<lparr>wm_finished = None, wm_closed = None, wm_seen = []\<rparr> (by_sequence events))) (\<lambda>m.
     if \<not> pred_option lockV1 lock then Inl Zod_error
     else Inr \<lparr>wp_events = events,
       wp_firstSiteEvidenceId = map_option we_id (List.find (\<lambda>e. we_kind e = First_site_evidence) events),
       wp_finishedMarkerId = finished_marker events m, wp_closedEventId = wm_closed m, wp_lock = lock\<rparr>))"

section \<open>Transitions and facts after a lock\<close>

datatype post_lock_fact =
  Catch_confirmation | Invoice_fact | Payment_fact | Credit_fact | Retention_fact | Snagging_photo | Order_fact
| Supplier_invoice_fact | Progress_photo | Builder_extra_fact | Stage_work

datatype post_lock_class = No_activity | Linked_job_required

definition classifyPostLockFact :: "post_lock_fact \<Rightarrow> post_lock_class" where
  "classifyPostLockFact k =
     (if k \<in> set [Catch_confirmation, Invoice_fact, Payment_fact, Credit_fact, Retention_fact, Snagging_photo]
      then No_activity else Linked_job_required)"

definition assertWorkStateTransition ::
  "work_command option \<Rightarrow> string option \<Rightarrow> string option \<Rightarrow> work_state_error + work_command" where
  "assertWorkStateTransition raw finishedMarkerId closedEventId = (case raw of None \<Rightarrow> Inl INVALID_WORK_STATE_INPUT | Some c \<Rightarrow>
     if \<not> jobWorkStateCommandV1 c then Inl INVALID_WORK_STATE_INPUT
     else if (case wc_action c of Cancel_finish m \<Rightarrow> Some m \<noteq> finishedMarkerId | _ \<Rightarrow> False) then Inl INVALID_WORK_STATE_INPUT
     else if (case wc_action c of Reopen_work k \<Rightarrow> Some k \<noteq> closedEventId | _ \<Rightarrow> False) then Inl INVALID_WORK_STATE_INPUT
     else if (case wc_action c of Reopen_work k \<Rightarrow> False | _ \<Rightarrow> True) \<and> closedEventId \<noteq> None then Inl JOB_WORK_CLOSED
     else Inr c)"

definition assertCompletedWorkResultOpen :: "string option \<Rightarrow> work_state_error + unit" where
  "assertCompletedWorkResultOpen closedEventId = (if closedEventId \<noteq> None then Inl JOB_WORK_CLOSED else Inr ())"

definition LINKED_JOB_COPY :: string where
  "LINKED_JOB_COPY = ''Start a linked job for this customer and site''"

record linked_offer =
  lo_message :: string
  lo_jobId :: string
  lo_customerId :: string
  lo_siteId :: string

definition linkedJobOfferV1 :: "linked_offer \<Rightarrow> bool" where
  "linkedJobOfferV1 l \<longleftrightarrow> lo_message l = LINKED_JOB_COPY"

record job_link =
  jl_id :: string
  jl_predecessorJobId :: string
  jl_successorJobId :: string
  jl_linkedAt :: work_time

record work_read =
  wr_jobId :: string
  wr_events :: "work_event list"
  wr_links :: "job_link list"
  wr_lock :: "work_lock option"

definition jobWorkStateReadV1 :: "work_read \<Rightarrow> bool" where
  "jobWorkStateReadV1 r \<longleftrightarrow> list_all jobWorkStateEventV1 (wr_events r) \<and>
     list_all (\<lambda>l. workFactTimeV1 (jl_linkedAt l)) (wr_links r) \<and> pred_option lockV1 (wr_lock r)"

datatype work_mutation = State_mutation work_command | Link_mutation link_command

definition jobWorkStateMutationV1 :: "work_mutation \<Rightarrow> bool" where
  "jobWorkStateMutationV1 m = (case m of State_mutation c \<Rightarrow> jobWorkStateCommandV1 c | Link_mutation c \<Rightarrow> jobLinkCommandV1 c)"

section \<open>The canonical order does not depend on the delivery\<close>

text \<open>A list that is strictly sorted is determined by its elements.\<close>

lemma sorted_wrt_unique:
  assumes asym: "\<And>a b. lt a b \<Longrightarrow> \<not> lt b a"
    and "sorted_wrt lt xs" "sorted_wrt lt ys" "set xs = set ys"
  shows "xs = ys"
  using assms(2-4)
proof (induction xs arbitrary: ys)
  case (Cons x xs)
  have irrefl: "\<not> lt a a" for a using asym by blast
  from Cons.prems obtain y ys' where ys: "ys = y # ys'" by (cases ys) auto
  have "x = y"
  proof (rule ccontr)
    assume "x \<noteq> y"
    with Cons.prems ys have "lt x y" "lt y x" by auto
    then show False using asym by blast
  qed
  moreover have "x \<notin> set xs" "y \<notin> set ys'" using Cons.prems ys irrefl by auto
  then have "set xs = set ys'" using Cons.prems(3) ys \<open>x = y\<close> by auto
  with Cons ys have "xs = ys'" by simp
  ultimately show ?case using ys by simp
qed simp

lemma before_fact_asym: "before_fact a b \<Longrightarrow> \<not> before_fact b a"
  by (auto simp: before_fact_def)

lemma strictly_sorted_facts:
  "sorted_wrt (\<lambda>a b. \<not> before_fact b a) es \<Longrightarrow> distinct (map we_id es) \<Longrightarrow> sorted_wrt before_fact es"
proof (induction es)
  case (Cons e es)
  have "before_fact e x" if "x \<in> set es" for x
  proof -
    have "\<not> before_fact x e" "we_id x \<noteq> we_id e" using Cons.prems that by (auto simp: image_iff)
    then show ?thesis by (auto simp: before_fact_def)
  qed
  with Cons show ?case by simp
qed simp

lemma sort_facts_sorted:
  assumes "distinct (map we_id es)"
  shows "sorted_wrt before_fact (sort_by before_fact es)"
proof (rule strictly_sorted_facts)
  show "sorted_wrt (\<lambda>a b. \<not> before_fact b a) (sort_by before_fact es)"
    by (rule sorted_wrt_sort_by) (auto simp: before_fact_def)
qed (use assms in simp)

text \<open>What the loop of \<open>orderWorkFacts\<close> has collected.\<close>

definition keyed :: "work_event list \<Rightarrow> (string \<times> work_event) list" where
  "keyed es = map (\<lambda>e. (we_id e, e)) es"

lemma keyed_simps [simp]: "map snd (keyed es) = es" "map fst (keyed es) = map we_id es" "keyed (es @ [e]) = keyed es @ [(we_id e, e)]"
  by (simp_all add: keyed_def comp_def)

lemma update_member: "distinct (map fst m) \<Longrightarrow> (k, v) \<in> set m \<Longrightarrow> AList.update k v m = m"
  by (induction m) force+

lemma collect_fact_Inr_iff:
  assumes d: "distinct (map we_id es)"
  shows "collect_fact (keyed es) raw = Inr v \<longleftrightarrow>
    (\<exists>e. raw = Some e \<and> jobWorkStateEventV1 e \<and>
      (e \<in> set es \<and> v = keyed es \<or> we_id e \<notin> we_id ` set es \<and> v = keyed (es @ [e])))"
proof -
  have some: "map_of (keyed es) (we_id e) = Some p \<longleftrightarrow> p \<in> set es \<and> we_id p = we_id e" for e p
    using d by (force simp: keyed_def comp_def)
  have none: "map_of (keyed es) (we_id e) = None \<longleftrightarrow> we_id e \<notin> we_id ` set es" for e
    by (force simp: map_of_eq_None_iff keyed_def)
  have again: "AList.update (we_id e) e (keyed es) = keyed es" if "e \<in> set es" for e
    using that d by (intro update_member) (auto simp: keyed_def comp_def)
  have new: "AList.update (we_id e) e (keyed es) = keyed (es @ [e])" if "we_id e \<notin> we_id ` set es" for e
    using that by (subst update_fresh) (auto simp: keyed_def)
  have same: "p = e" if "p \<in> set es" "e \<in> set es" "we_id p = we_id e" for p e
    using d that by (auto simp: distinct_map inj_on_def)
  show ?thesis
  proof (cases raw)
    case (Some e)
    show ?thesis
    proof (cases "map_of (keyed es) (we_id e)")
      case None
      with none [of e] new [of e] Some show ?thesis by (auto simp: collect_fact_def)
    next
      case prior: (Some p)
      then have "p \<in> set es" "we_id p = we_id e" using some by blast+
      show ?thesis
      proof (cases "p = e")
        case True
        with again [of e] \<open>p \<in> set es\<close> prior Some show ?thesis by (auto simp: collect_fact_def)
      next
        case False
        then have "e \<notin> set es" using same \<open>p \<in> set es\<close> \<open>we_id p = we_id e\<close> by blast
        moreover have "we_id e \<in> we_id ` set es" using \<open>p \<in> set es\<close> \<open>we_id p = we_id e\<close> by (metis imageI)
        ultimately show ?thesis using False prior Some by (auto simp: collect_fact_def)
      qed
    qed
  qed (simp add: collect_fact_def)
qed

lemma collect_all:
  assumes "fold_r collect_fact (keyed es) raw = Inr v" "distinct (map we_id es)"
  shows "\<exists>es'. v = keyed es' \<and> distinct (map we_id es') \<and> set es' = set es \<union> {e. Some e \<in> set raw} \<and>
    (\<forall>r\<in>set raw. \<exists>e. r = Some e \<and> jobWorkStateEventV1 e)"
  using assms
proof (induction raw arbitrary: es)
  case (Cons r raw)
  then obtain w where w: "collect_fact (keyed es) r = Inr w" "fold_r collect_fact w raw = Inr v"
    by (auto simp: bind_r_Inr_iff)
  then obtain e where e: "r = Some e" "jobWorkStateEventV1 e"
    "e \<in> set es \<and> w = keyed es \<or> we_id e \<notin> we_id ` set es \<and> w = keyed (es @ [e])"
    using collect_fact_Inr_iff [OF Cons.prems(2)] by blast
  define es1 where "es1 = (if e \<in> set es then es else es @ [e])"
  have es1: "w = keyed es1" "distinct (map we_id es1)" "set es1 = insert e (set es)"
    using e(3) Cons.prems(2) by (auto simp: es1_def)
  from Cons.IH [OF w(2) [unfolded es1(1)] es1(2)] obtain es' where "v = keyed es'" "distinct (map we_id es')"
    "set es' = set es1 \<union> {e. Some e \<in> set raw}" "\<forall>r\<in>set raw. \<exists>e. r = Some e \<and> jobWorkStateEventV1 e" by blast
  with e(1,2) es1(3) show ?case by (intro exI [of _ es']) auto
qed auto

lemma collect_ok:
  assumes "distinct (map we_id es)" "\<forall>r\<in>set raw. \<exists>e. r = Some e \<and> jobWorkStateEventV1 e"
    and "inj_on we_id (set es \<union> {e. Some e \<in> set raw})"
  shows "\<exists>v. fold_r collect_fact (keyed es) raw = Inr v"
  using assms
proof (induction raw arbitrary: es)
  case (Cons r raw)
  then obtain e where e: "r = Some e" "jobWorkStateEventV1 e" by auto
  show ?case
  proof (cases "e \<in> set es")
    case True
    then have "collect_fact (keyed es) r = Inr (keyed es)" using e collect_fact_Inr_iff [OF Cons.prems(1)] by blast
    moreover have "set es \<union> {e. Some e \<in> set raw} = set es \<union> {e. Some e \<in> set (r # raw)}" using True e(1) by auto
    ultimately show ?thesis using Cons.IH [of es] Cons.prems by auto
  next
    case False
    have new: "we_id e \<notin> we_id ` set es" using False Cons.prems(3) e(1) by (force simp: inj_on_def)
    then have "collect_fact (keyed es) r = Inr (keyed (es @ [e]))" using e collect_fact_Inr_iff [OF Cons.prems(1)] by blast
    moreover have "set (es @ [e]) \<union> {e. Some e \<in> set raw} = set es \<union> {e. Some e \<in> set (r # raw)}" using e(1) by auto
    ultimately show ?thesis using Cons.IH [of "es @ [e]"] Cons.prems new by auto
  qed
qed simp

lemma keyed_Nil [simp]: "keyed [] = []"
  by (simp add: keyed_def)

lemma orderWorkFacts_InrD:
  assumes "orderWorkFacts raw = Inr es"
  shows "sorted_wrt before_fact es \<and> distinct (map we_id es) \<and> set raw = Some ` set es \<and> list_all jobWorkStateEventV1 es"
proof -
  from assms obtain v where v: "fold_r collect_fact (keyed []) raw = Inr v" "es = sort_by before_fact (map snd v)"
    by (auto simp: orderWorkFacts_def bind_r_Inr_iff)
  from collect_all [OF v(1)] obtain fs where fs: "v = keyed fs" "distinct (map we_id fs)" "set fs = {e. Some e \<in> set raw}"
    "\<forall>r\<in>set raw. \<exists>e. r = Some e \<and> jobWorkStateEventV1 e" by auto
  then have es: "es = sort_by before_fact fs" using v(2) by simp
  then have "sorted_wrt before_fact es" "distinct (map we_id es)" using fs(2) sort_facts_sorted by simp_all
  moreover have "set raw = Some ` set es" "list_all jobWorkStateEventV1 es" using es fs(3,4) by (auto simp: list_all_iff)
  ultimately show ?thesis by blast
qed

lemma orderWorkFacts_set:
  assumes "orderWorkFacts raw = Inr es" "set raw' = set raw"
  shows "orderWorkFacts raw' = Inr es"
proof -
  note D = orderWorkFacts_InrD [OF assms(1)]
  have members: "{e. Some e \<in> set raw'} = set es" using D assms(2) by auto
  have "\<forall>r\<in>set raw'. \<exists>e. r = Some e \<and> jobWorkStateEventV1 e" using D assms(2) by (auto simp: list_all_iff)
  moreover have "inj_on we_id (set [] \<union> {e. Some e \<in> set raw'})" using D members by (simp add: distinct_map)
  ultimately obtain v where "fold_r collect_fact (keyed []) raw' = Inr v" using collect_ok [of "[]" raw'] by auto
  then obtain es' where es': "orderWorkFacts raw' = Inr es'" by (simp add: orderWorkFacts_def)
  note D' = orderWorkFacts_InrD [OF es']
  have "set es' = set es" using D D' assms(2) by auto
  then have "es' = es" using D D' sorted_wrt_unique [of before_fact es' es] before_fact_asym by blast
  with es' show ?thesis by simp
qed

section \<open>The markers\<close>

text \<open>
  After the events \<open>ps\<close>: the markers name an event of their kind that nothing has cancelled, and every
  cancellation names an earlier event.
\<close>

definition undone_by :: "work_fact_kind \<Rightarrow> string \<Rightarrow> work_event list \<Rightarrow> bool" where
  "undone_by undo k ps \<longleftrightarrow> (\<exists>c\<in>set ps. we_kind c = undo \<and> we_predecessorId c = Some k)"

definition marks :: "work_event list \<Rightarrow> work_fact_kind \<Rightarrow> work_fact_kind \<Rightarrow> string option \<Rightarrow> bool" where
  "marks ps kind undo m \<longleftrightarrow>
     pred_option (\<lambda>k. (\<exists>e\<in>set ps. we_id e = k \<and> we_kind e = kind) \<and> \<not> undone_by undo k ps) m"

definition markers_ok :: "work_event list \<Rightarrow> work_markers \<Rightarrow> bool" where
  "markers_ok ps m \<longleftrightarrow> wm_seen m = keyed ps \<and> marks ps Finished_on_site Finished_cancelled (wm_finished m) \<and>
     marks ps Work_closed Work_reopened (wm_closed m) \<and>
     (\<forall>c\<in>set ps. we_kind c \<in> {Finished_cancelled, Work_reopened} \<longrightarrow> (\<exists>p\<in>set ps. we_predecessorId c = Some (we_id p)))"

lemma undone_by_snoc:
  "undone_by undo k (ps @ [e]) \<longleftrightarrow> undone_by undo k ps \<or> we_kind e = undo \<and> we_predecessorId e = Some k"
  by (auto simp: undone_by_def)

lemma marks_kept:
  "marks ps kind undo m \<Longrightarrow> we_kind e \<noteq> undo \<Longrightarrow> marks (ps @ [e]) kind undo m"
  by (cases m) (auto simp: marks_def undone_by_snoc)

lemma marks_new:
  "we_kind e = kind \<Longrightarrow> kind \<noteq> undo \<Longrightarrow> \<not> undone_by undo (we_id e) ps \<Longrightarrow> marks (ps @ [e]) kind undo (Some (we_id e))"
  by (simp add: marks_def undone_by_snoc)

lemma marks_None [simp]: "marks ps kind undo None"
  by (simp add: marks_def)

lemma predecessor_SomeD:
  "wm_seen m = keyed ps \<Longrightarrow> predecessor m e = Some p \<Longrightarrow> p \<in> set ps \<and> we_predecessorId e = Some (we_id p)"
  by (auto simp: predecessor_def keyed_def bind_eq_Some_conv dest!: map_of_SomeD)

lemma mark_fact_ok:
  assumes m: "markers_ok ps m" and fresh: "we_id e \<notin> we_id ` set ps" and step: "mark_fact m e = Inr m'"
  shows "markers_ok (ps @ [e]) m'"
proof -
  have seen: "AList.update (we_id e) e (wm_seen m) = keyed (ps @ [e])"
    using m fresh by (subst update_fresh) (auto simp: markers_ok_def keyed_def)
  have new: "\<not> undone_by undo (we_id e) ps" if "undo \<in> {Finished_cancelled, Work_reopened}" for undo
  proof
    assume "undone_by undo (we_id e) ps"
    then obtain c where "c \<in> set ps" "we_kind c = undo" "we_predecessorId c = Some (we_id e)" by (auto simp: undone_by_def)
    moreover from this m that obtain p where "p \<in> set ps" "we_predecessorId c = Some (we_id p)" by (auto simp: markers_ok_def)
    ultimately show False using fresh by (metis imageI option.inject)
  qed
  have pred: "\<exists>p\<in>set ps. we_predecessorId e = Some (we_id p)" if "predecessor m e = Some p" for p
    using predecessor_SomeD [OF _ that] m by (auto simp: markers_ok_def)
  show ?thesis
    using step m seen pred new [of Finished_cancelled] new [of Work_reopened]
    by (cases "we_kind e")
      (auto simp: mark_fact_def markers_ok_def if_Inl_Inr_iff bind_r_Inr_iff marks_kept marks_new split: option.splits)
qed

lemma mark_facts_ok:
  assumes "fold_r mark_fact m es = Inr m'" "markers_ok ps m" "distinct (map we_id (ps @ es))"
  shows "markers_ok (ps @ es) m'"
  using assms
proof (induction es arbitrary: ps m)
  case (Cons e es)
  then obtain n where n: "mark_fact m e = Inr n" "fold_r mark_fact n es = Inr m'" by (auto simp: bind_r_Inr_iff)
  have "markers_ok (ps @ [e]) n" using mark_fact_ok [OF Cons.prems(2) _ n(1)] Cons.prems(3) by simp
  with Cons.IH [OF n(2), of "ps @ [e]"] Cons.prems(3) show ?case by simp
qed simp

text \<open>
  C21. What is projected from the recorded work facts does not depend on the order in which they were
  delivered or on repeated deliveries. The events come out strictly sorted by time and identifier,
  each once. A finished marker names a finish of the job that no recorded cancellation takes back and
  no site fact follows; a closed marker names a closing that no recorded reopening takes back.
\<close>

theorem work_facts_delivery:
  assumes "projectWorkFacts raw lock = Inr p" and "set raw' = set raw"
  shows "projectWorkFacts raw' lock = Inr p \<and> orderWorkFacts raw' = Inr (wp_events p) \<and>
    sorted_wrt before_fact (wp_events p) \<and> distinct (map we_id (wp_events p)) \<and> set raw = Some ` set (wp_events p) \<and>
    (\<forall>k. wp_finishedMarkerId p = Some k \<longrightarrow> (\<exists>e\<in>set (wp_events p). we_id e = k \<and> we_kind e = Finished_on_site \<and>
      (\<forall>f\<in>set (wp_events p). (we_kind f = Finished_cancelled \<longrightarrow> we_predecessorId f \<noteq> Some k) \<and>
        (site_fact (we_kind f) \<longrightarrow> \<not> before_fact e f)))) \<and>
    (\<forall>k. wp_closedEventId p = Some k \<longrightarrow> (\<exists>e\<in>set (wp_events p). we_id e = k \<and> we_kind e = Work_closed \<and>
      (\<forall>f\<in>set (wp_events p). we_kind f = Work_reopened \<longrightarrow> we_predecessorId f \<noteq> Some k)))"
proof -
  let ?start = "\<lparr>wm_finished = None, wm_closed = None, wm_seen = []\<rparr>"
  from assms(1) obtain es m where es: "orderWorkFacts raw = Inr es"
    and m: "fold_r mark_fact ?start (by_sequence es) = Inr m"
    and p: "wp_events p = es" "wp_finishedMarkerId p = finished_marker es m" "wp_closedEventId p = wm_closed m"
    by (auto simp: projectWorkFacts_def bind_r_Inr_iff map_err_Inr_iff if_Inl_Inr_iff)
  note D = orderWorkFacts_InrD [OF es]
  have same: "orderWorkFacts raw' = Inr es" by (rule orderWorkFacts_set [OF es assms(2)])
  then have "projectWorkFacts raw' lock = projectWorkFacts raw lock" using es by (simp add: projectWorkFacts_def)
  moreover have "markers_ok ([] @ by_sequence es) m"
    by (rule mark_facts_ok [OF m]) (use D in \<open>auto simp: markers_ok_def by_sequence_def\<close>)
  then have ok: "markers_ok (by_sequence es) m" by simp
  have events: "set (by_sequence es) = set es" by (simp add: by_sequence_def)
  have "\<exists>e\<in>set es. we_id e = k \<and> we_kind e = Finished_on_site \<and>
      (\<forall>f\<in>set es. (we_kind f = Finished_cancelled \<longrightarrow> we_predecessorId f \<noteq> Some k) \<and>
        (site_fact (we_kind f) \<longrightarrow> \<not> before_fact e f))" if "finished_marker es m = Some k" for k
  proof -
    have k: "wm_finished m = Some k" using that by (auto simp: finished_marker_def split: option.splits if_splits)
    then obtain e where e: "e \<in> set es" "we_id e = k" "we_kind e = Finished_on_site" "\<not> undone_by Finished_cancelled k (by_sequence es)"
      using ok events by (auto simp: markers_ok_def marks_def)
    have "distinct (map fst (keyed (by_sequence es)))" using D by (simp add: by_sequence_def)
    moreover have "(k, e) \<in> set (keyed (by_sequence es))" using e events by (auto simp: keyed_def)
    ultimately have "map_of (wm_seen m) k = Some e" using ok by (simp add: markers_ok_def)
    with that k have "marker_stands es e" by (simp add: finished_marker_def split: if_splits)
    with e events show ?thesis
      by (intro bexI [of _ e]) (auto simp: marker_stands_def undone_by_def before_fact_def list_ex_iff)
  qed
  moreover have "\<exists>e\<in>set es. we_id e = k \<and> we_kind e = Work_closed \<and>
      (\<forall>f\<in>set es. we_kind f = Work_reopened \<longrightarrow> we_predecessorId f \<noteq> Some k)" if "wm_closed m = Some k" for k
    using that ok events by (auto simp: markers_ok_def marks_def undone_by_def)
  ultimately show ?thesis using assms(1) same D p by simp
qed

section \<open>A concrete history\<close>

definition work_example :: "work_event list" where
  "work_example = [
     \<lparr>we_id = ''e1'', we_jobId = ''j'', we_sequence = 1, we_kind = First_site_evidence, we_factAt = 5, we_recordedAt = 6,
      we_sourceReceiptId = Some ''r1'', we_commandId = None, we_predecessorId = None, we_closeReason = None, we_closeNote = None\<rparr>,
     \<lparr>we_id = ''e2'', we_jobId = ''j'', we_sequence = 2, we_kind = Finished_on_site, we_factAt = 8, we_recordedAt = 9,
      we_sourceReceiptId = None, we_commandId = Some ''c1'', we_predecessorId = None, we_closeReason = None, we_closeNote = None\<rparr>]"

lemma work_example_projection:
  "projectWorkFacts (map Some work_example) None = Inr \<lparr>wp_events = work_example, wp_firstSiteEvidenceId = Some ''e1'',
     wp_finishedMarkerId = Some ''e2'', wp_closedEventId = None, wp_lock = None\<rparr>"
  by (simp add: work_example_def projectWorkFacts_def orderWorkFacts_def collect_fact_def jobWorkStateEventV1_def
    revision_safe_def MAX_SAFE_def workFactTimeV1_def MIN_WORK_TIME_def MAX_WORK_TIME_def site_fact_def before_fact_def
    by_sequence_def mark_fact_def finished_marker_def marker_stands_def)

theorem work_facts_delivery_witness:
  "orderWorkFacts (rev (map Some (work_example @ work_example))) = Inr work_example \<and>
   (\<exists>e\<in>set work_example. we_id e = ''e2'' \<and> we_kind e = Finished_on_site)"
proof -
  have "set (rev (map Some (work_example @ work_example))) = set (map Some work_example)" by auto
  from work_facts_delivery [OF work_example_projection this] show ?thesis by auto
qed

end
