(* ===== verification/Work_Timing.thy ===== *)
theory Work_Timing
  imports Work_State
begin

text \<open>
  Model of \<^verbatim>\<open>packages/core/src/job-work-timing.ts\<close>: London calendar dates, London midnights and the
  deadlines computed from them. A date is the number of days since 1 January 1970. The time-zone
  database behind \<^verbatim>\<open>Intl.DateTimeFormat\<close> is not code of the repository: \<open>offset s\<close> is the offset of
  Europe/London, in seconds, at the UTC second \<open>s\<close>. The theorems ask only that an offset is shorter
  than a day.
\<close>

type_synonym work_date = int
type_synonym zone = "int \<Rightarrow> int"

definition zone_bounded :: "zone \<Rightarrow> bool" where
  "zone_bounded offset \<longleftrightarrow> (\<forall>s. \<bar>offset s\<bar> < 86400)"

datatype timing_error = INVALID_WORK_TIMING_INPUT | WORK_TIMING_CONVENTION_REQUIRED | Js_range_error

definition finishDays :: int where "finishDays = 7"
definition quietDays :: int where "quietDays = 30"
definition trialDays :: int where "trialDays = 90"

text \<open>Years 1 to 9999.\<close>

definition londonWorkDateV1 :: "work_date \<Rightarrow> bool" where
  "londonWorkDateV1 d \<longleftrightarrow> - 719162 \<le> d \<and> d \<le> 2932896"

definition second_of :: "work_time \<Rightarrow> int" where
  "second_of t = t div 1000000"

definition dated_time :: "work_time \<Rightarrow> bool" where
  "dated_time t \<longleftrightarrow> workFactTimeV1 t \<and> - 719162 * 86400 * 1000000 \<le> t"

text \<open>
  The formatter shows the year without its era, so the last day of 1 BC, which a western offset can
  give the first instants of year 1, is shown as the last day of year 1.
\<close>

definition shown_date :: "work_date \<Rightarrow> work_date" where
  "shown_date d = (if d < - 719162 then d + 365 else d)"

definition londonWorkDate :: "zone \<Rightarrow> work_time \<Rightarrow> timing_error + work_date" where
  "londonWorkDate offset t =
     (if \<not> dated_time t then Inl INVALID_WORK_TIMING_INPUT
      else let d = shown_date ((second_of t + offset (second_of t)) div 86400) in
        if londonWorkDateV1 d then Inr d else Inl INVALID_WORK_TIMING_INPUT)"

text \<open>
  A day beyond the range of \<^verbatim>\<open>Date\<close> (100 million days) makes \<^verbatim>\<open>toISOString\<close> throw; a day outside
  the years 1 to 9999 is refused by the schema.
\<close>

definition addWorkCalendarDays :: "work_date \<Rightarrow> int \<Rightarrow> timing_error + work_date" where
  "addWorkCalendarDays d days =
     (if \<not> londonWorkDateV1 d \<or> \<bar>days\<bar> > MAX_SAFE then Inl INVALID_WORK_TIMING_INPUT
      else if \<bar>d + days\<bar> > 100000000 then Inl Js_range_error
      else if londonWorkDateV1 (d + days) then Inr (d + days) else Inl INVALID_WORK_TIMING_INPUT)"

definition londonMidnight :: "zone \<Rightarrow> work_date \<Rightarrow> timing_error + work_time" where
  "londonMidnight offset d =
     (if \<not> londonWorkDateV1 d then Inl INVALID_WORK_TIMING_INPUT
      else Inr ((d * 86400 - offset (d * 86400)) * 1000000))"

record day31_candidate =
  d31_activatedAt :: work_time
  d31_date :: work_date
  d31_at :: work_time

definition workDay31CandidateV1 :: "day31_candidate \<Rightarrow> bool" where
  "workDay31CandidateV1 c \<longleftrightarrow> workFactTimeV1 (d31_activatedAt c) \<and> londonWorkDateV1 (d31_date c) \<and> workFactTimeV1 (d31_at c)"

definition workDay31Candidate :: "zone \<Rightarrow> work_time \<Rightarrow> timing_error + day31_candidate" where
  "workDay31Candidate offset activatedAt =
     (if \<not> dated_time activatedAt then Inl INVALID_WORK_TIMING_INPUT
      else bind_r (londonWorkDate offset activatedAt) (\<lambda>origin.
        bind_r (addWorkCalendarDays origin 30) (\<lambda>date.
        bind_r (londonMidnight offset date) (\<lambda>midnight.
          let c = \<lparr>d31_activatedAt = activatedAt, d31_date = date, d31_at = midnight\<rparr> in
          if workDay31CandidateV1 c then Inr c else Inl INVALID_WORK_TIMING_INPUT))))"

datatype deadline_kind = Finish_deadline | Quiet_deadline | Trial_deadline

fun work_deadline_days :: "deadline_kind \<Rightarrow> int" where
  "work_deadline_days Finish_deadline = finishDays"
| "work_deadline_days Quiet_deadline = quietDays"
| "work_deadline_days Trial_deadline = trialDays"

record deadline_candidate =
  dl_kind :: deadline_kind
  dl_originAt :: work_time
  dl_days :: int
  dl_date :: work_date

definition workDeadlineCandidate :: "zone \<Rightarrow> deadline_kind \<Rightarrow> work_time \<Rightarrow> timing_error + deadline_candidate" where
  "workDeadlineCandidate offset kind originAt =
     (if \<not> workFactTimeV1 originAt then Inl INVALID_WORK_TIMING_INPUT
      else bind_r (londonWorkDate offset originAt) (\<lambda>origin.
        bind_r (addWorkCalendarDays origin (work_deadline_days kind)) (\<lambda>date.
        Inr \<lparr>dl_kind = kind, dl_originAt = originAt, dl_days = work_deadline_days kind, dl_date = date\<rparr>)))"

definition resolveWorkDeadline :: "deadline_candidate \<Rightarrow> timing_error + unit" where
  "resolveWorkDeadline c = Inl WORK_TIMING_CONVENTION_REQUIRED"

definition compareWorkFactTimes :: "work_time \<Rightarrow> work_time \<Rightarrow> timing_error + int" where
  "compareWorkFactTimes a b =
     (if \<not> workFactTimeV1 a \<or> \<not> workFactTimeV1 b then Inl INVALID_WORK_TIMING_INPUT
      else Inr (if a < b then - 1 else if a > b then 1 else 0))"

record stopped_interval =
  si_startAt :: work_time
  si_stopAt :: work_time

definition stoppedInterval :: "stopped_interval \<Rightarrow> bool" where
  "stoppedInterval i \<longleftrightarrow> workFactTimeV1 (si_startAt i) \<and> workFactTimeV1 (si_stopAt i) \<and> si_startAt i \<le> si_stopAt i"

definition preserveStoppedIntervals :: "stopped_interval list \<Rightarrow> work_time \<Rightarrow> timing_error + stopped_interval list" where
  "preserveStoppedIntervals rows cancelAt =
     (if \<not> workFactTimeV1 cancelAt \<or> \<not> list_all stoppedInterval rows \<or> \<not> list_all (\<lambda>row. si_stopAt row < cancelAt) rows
      then Inl INVALID_WORK_TIMING_INPUT else Inr rows)"

record trial_facts =
  tf_switchedLiveAt :: work_time
  tf_lockedAt :: "work_time option"
  tf_closedAt :: "work_time option"
  tf_secondJobLiveAt :: "work_time option"

definition trialTimingFactsV1 :: "trial_facts \<Rightarrow> bool" where
  "trialTimingFactsV1 f \<longleftrightarrow> workFactTimeV1 (tf_switchedLiveAt f) \<and> pred_option workFactTimeV1 (tf_lockedAt f) \<and>
     pred_option workFactTimeV1 (tf_closedAt f) \<and> pred_option workFactTimeV1 (tf_secondJobLiveAt f)"

definition earlier_stops :: "trial_facts \<Rightarrow> work_time list" where
  "earlier_stops f = sort (List.map_filter id [tf_lockedAt f, tf_closedAt f, tf_secondJobLiveAt f])"

definition trialTimingFacts :: "zone \<Rightarrow> trial_facts \<Rightarrow> timing_error + (deadline_candidate \<times> work_time option)" where
  "trialTimingFacts offset f =
     (if \<not> trialTimingFactsV1 f then Inl INVALID_WORK_TIMING_INPUT
      else bind_r (workDeadlineCandidate offset Trial_deadline (tf_switchedLiveAt f)) (\<lambda>deadline.
        Inr (deadline, (case earlier_stops f of [] \<Rightarrow> None | x # _ \<Rightarrow> Some x))))"

section \<open>Midnights lie ahead\<close>

lemma londonWorkDate_InrD:
  assumes "londonWorkDate offset t = Inr d" "zone_bounded offset"
  shows "dated_time t \<and> londonWorkDateV1 d \<and> second_of t - 86400 * 2 < d * 86400"
proof -
  have off: "\<bar>offset (second_of t)\<bar> < 86400" using assms(2) by (simp add: zone_bounded_def)
  let ?d = "(second_of t + offset (second_of t)) div 86400"
  have "?d \<le> d" "dated_time t" "londonWorkDateV1 d"
    using assms(1) by (auto simp: londonWorkDate_def Let_def shown_date_def split: if_splits)
  moreover have "second_of t + offset (second_of t) < (?d + 1) * 86400"
    using mult_div_mod_eq [of 86400 "second_of t + offset (second_of t)"] pos_mod_bound [of 86400 "second_of t + offset (second_of t)"]
    by (simp add: algebra_simps)
  ultimately show ?thesis using off by (auto simp: abs_less_iff)
qed

text \<open>A London midnight at least four days after the date of an instant lies after the instant.\<close>

lemma midnight_ahead:
  assumes "londonWorkDate offset t = Inr d" "addWorkCalendarDays d n = Inr d'" "londonMidnight offset d' = Inr m"
    and "zone_bounded offset" "4 \<le> n"
  shows "t < m"
proof -
  have "d' = d + n" "m = (d' * 86400 - offset (d' * 86400)) * 1000000"
    using assms(2,3) by (auto simp: addWorkCalendarDays_def londonMidnight_def split: if_splits)
  moreover have "\<bar>offset (d' * 86400)\<bar> < 86400" using assms(4) by (simp add: zone_bounded_def)
  moreover have "second_of t - 86400 * 2 < d * 86400" using londonWorkDate_InrD [OF assms(1,4)] by blast
  ultimately have "(second_of t + 1) * 1000000 \<le> m" using assms(5) by (simp add: abs_less_iff)
  moreover have "t < (second_of t + 1) * 1000000"
    using mult_div_mod_eq [of 1000000 t] pos_mod_bound [of 1000000 t] by (simp add: second_of_def algebra_simps)
  ultimately show ?thesis by linarith
qed

end
