(* ===== verification/Meter_Places.thy ===== *)
theory Meter_Places
  imports Work_Timing "HOL-Library.Multiset"
begin

text \<open>
  Model of \<^verbatim>\<open>packages/core/src/jobs-on-the-go.ts\<close>: the grouping of jobs into places, the allowance of
  small places, the monthly principal of a supplied schedule, and corrections; and of
  \<^verbatim>\<open>packages/core/src/meter-place-admission.ts\<close>. Identifiers are GUIDs, which the schemas lower-case.
\<close>

section \<open>Input schemas\<close>

datatype meter_error = INVALID_METER_FOUNDATION_INPUT | METER_MAXIMUM_EXCEEDED | Meter_money money_error | Meter_range range_error
| Meter_zod_error

definition meterMoneyV1 :: "int \<Rightarrow> bool" where
  "meterMoneyV1 n \<longleftrightarrow> - MAX_MONEY_PENCE \<le> n \<and> n \<le> MAX_MONEY_PENCE"

definition principalMoney :: "int \<Rightarrow> bool" where
  "principalMoney n \<longleftrightarrow> meterMoneyV1 n \<and> n \<ge> 0"

definition as_meter :: "timing_error + 'a \<Rightarrow> meter_error + 'a" where
  "as_meter m = map_err (\<lambda>_. INVALID_METER_FOUNDATION_INPUT) m"

definition londonMeterDate :: "zone \<Rightarrow> work_time \<Rightarrow> meter_error + work_date" where
  "londonMeterDate offset t = as_meter (londonWorkDate offset t)"

definition meterDay31Candidate :: "zone \<Rightarrow> work_time \<Rightarrow> meter_error + day31_candidate" where
  "meterDay31Candidate offset t = bind_r (as_meter (workDay31Candidate offset t)) (\<lambda>c.
     if dated_time (d31_activatedAt c) \<and> londonWorkDateV1 (d31_date c) \<and> dated_time (d31_at c) then Inr c
     else Inl INVALID_METER_FOUNDATION_INPUT)"

section \<open>Places\<close>

record supplied_job =
  sj_tenantId :: string
  sj_jobId :: string
  sj_customerId :: string
  sj_siteId :: string
  sj_small :: bool

record supplied_place =
  sp_tenantId :: string
  sp_customerId :: string
  sp_siteId :: string
  sp_jobIds :: "string list"
  sp_small :: bool

definition job_key :: "supplied_job \<Rightarrow> string" where
  "job_key j = sj_tenantId j @ '':'' @ sj_jobId j"

definition place_key :: "supplied_job \<Rightarrow> string" where
  "place_key j = sj_tenantId j @ '':'' @ sj_customerId j @ '':'' @ sj_siteId j"

definition fixedMeterPlacesV1 :: "work_date \<Rightarrow> supplied_job list \<Rightarrow> bool" where
  "fixedMeterPlacesV1 date jobs \<longleftrightarrow> londonWorkDateV1 date \<and> length (remdups (map job_key jobs)) = length jobs"

definition add_to_place :: "(string \<times> supplied_place) list \<Rightarrow> supplied_job \<Rightarrow> (string \<times> supplied_place) list" where
  "add_to_place places j = (case map_of places (place_key j) of
     Some prior \<Rightarrow> AList.update (place_key j)
       (prior\<lparr>sp_jobIds := sp_jobIds prior @ [sj_jobId j], sp_small := sp_small prior \<and> sj_small j\<rparr>) places
   | None \<Rightarrow> AList.update (place_key j) \<lparr>sp_tenantId = sj_tenantId j, sp_customerId = sj_customerId j,
       sp_siteId = sj_siteId j, sp_jobIds = [sj_jobId j], sp_small = sj_small j\<rparr> places)"

definition fixedMeterPlacesResultV1 :: "work_date \<Rightarrow> supplied_place list \<Rightarrow> bool" where
  "fixedMeterPlacesResultV1 date places \<longleftrightarrow> londonWorkDateV1 date \<and> list_all (\<lambda>p. 1 \<le> length (sp_jobIds p)) places"

definition groupSuppliedMeterPlaces :: "work_date \<Rightarrow> supplied_job list \<Rightarrow> meter_error + supplied_place list" where
  "groupSuppliedMeterPlaces date jobs =
     (if \<not> fixedMeterPlacesV1 date jobs then Inl INVALID_METER_FOUNDATION_INPUT
      else let places = map (\<lambda>(k, p). p\<lparr>sp_jobIds := sort (sp_jobIds p)\<rparr>)
             (sort_by (\<lambda>a b. fst a < fst b) (foldl add_to_place [] jobs))
       in if fixedMeterPlacesResultV1 date places then Inr places else Inl INVALID_METER_FOUNDATION_INPUT)"

section \<open>The allowance of small places\<close>

datatype meter_plan = Solo | Builder

record plan_terms =
  pt_included :: int
  pt_extrasCap :: int
  pt_monthlyPence :: int
  pt_maximumPence :: int

definition extraPlacePence :: int where
  "extraPlacePence = 2000"

fun syntheticMeterPolicyV1 :: "meter_plan \<Rightarrow> plan_terms" where
  "syntheticMeterPolicyV1 Solo = \<lparr>pt_included = 4, pt_extrasCap = 1, pt_monthlyPence = 2900, pt_maximumPence = 4900\<rparr>"
| "syntheticMeterPolicyV1 Builder = \<lparr>pt_included = 7, pt_extrasCap = 5, pt_monthlyPence = 6900, pt_maximumPence = 16900\<rparr>"

record allowance =
  al_rawPlaces :: int
  al_freeSmallPlaces :: int
  al_countedPlaces :: int

definition smallPlaceAllowanceV1 :: "int \<Rightarrow> int \<Rightarrow> bool" where
  "smallPlaceAllowanceV1 rawPlaces smallPlaces \<longleftrightarrow> counter_ok rawPlaces \<and> counter_ok smallPlaces \<and> smallPlaces \<le> rawPlaces"

definition smallPlaceAllowanceResultV1 :: "allowance \<Rightarrow> bool" where
  "smallPlaceAllowanceResultV1 a \<longleftrightarrow> counter_ok (al_rawPlaces a) \<and> counter_ok (al_freeSmallPlaces a) \<and> counter_ok (al_countedPlaces a)"

definition computeSmallPlaceAllowance :: "meter_plan \<Rightarrow> int \<Rightarrow> int \<Rightarrow> meter_error + allowance" where
  "computeSmallPlaceAllowance plan rawPlaces smallPlaces =
     (if \<not> smallPlaceAllowanceV1 rawPlaces smallPlaces then Inl INVALID_METER_FOUNDATION_INPUT
      else let free = min smallPlaces (pt_included (syntheticMeterPolicyV1 plan));
               a = \<lparr>al_rawPlaces = rawPlaces, al_freeSmallPlaces = free, al_countedPlaces = rawPlaces - free\<rparr>
           in if smallPlaceAllowanceResultV1 a then Inr a else Inl INVALID_METER_FOUNDATION_INPUT)"

section \<open>Small jobs\<close>

text \<open>\<open>None\<close>: \<^verbatim>\<open>pence.parse\<close> throws the error of the schema library.\<close>

definition small_pence :: "int \<Rightarrow> bool" where
  "small_pence n \<longleftrightarrow> 0 \<le> n \<and> n \<le> MAX_MONEY_PENCE"

definition isSmallJobV3 :: "int \<Rightarrow> int \<Rightarrow> bool option" where
  "isSmallJobV3 acceptedNetPence highestSentNetPence =
     (if small_pence acceptedNetPence \<and> small_pence highestSentNetPence
      then Some (max acceptedNetPence highestSentNetPence < 200000) else None)"

definition classifyMeterActivation :: "int \<Rightarrow> int \<Rightarrow> meter_error + bool" where
  "classifyMeterActivation acceptedNet highestSentNet =
     (if \<not> principalMoney acceptedNet \<or> \<not> principalMoney highestSentNet then Inl INVALID_METER_FOUNDATION_INPUT
      else of_option Meter_zod_error (isSmallJobV3 acceptedNet highestSentNet))"

definition exceedsSmallJobTripThreshold :: "int \<Rightarrow> meter_error + bool" where
  "exceedsSmallJobTripThreshold n = (if \<not> meterMoneyV1 n then Inl INVALID_METER_FOUNDATION_INPUT else Inr (n > 400000))"

section \<open>Approvals, history and identity\<close>

datatype supplied_status = Qualifying_approved work_time | Proposed

record supplied_approval =
  sa_sourceId :: string
  sa_status :: supplied_status
  sa_processedAt :: work_time
  sa_net :: int

definition suppliedMeterApprovalV1 :: "supplied_approval \<Rightarrow> bool" where
  "suppliedMeterApprovalV1 a \<longleftrightarrow> dated_time (sa_processedAt a) \<and> meterMoneyV1 (sa_net a) \<and>
     (case sa_status a of Proposed \<Rightarrow> True | Qualifying_approved approvedAt \<Rightarrow> dated_time approvedAt \<and> approvedAt \<le> sa_processedAt a)"

record approval_date =
  ad_sourceId :: string
  ad_originalApprovedAt :: work_time
  ad_date :: work_date
  ad_net :: int

definition qualifyingApprovalMeterDate :: "zone \<Rightarrow> supplied_approval \<Rightarrow> meter_error + approval_date option" where
  "qualifyingApprovalMeterDate offset a =
     (if \<not> suppliedMeterApprovalV1 a then Inl INVALID_METER_FOUNDATION_INPUT
      else (case sa_status a of Proposed \<Rightarrow> Inr None
        | Qualifying_approved approvedAt \<Rightarrow> bind_r (londonMeterDate offset approvedAt) (\<lambda>date.
            Inr (Some \<lparr>ad_sourceId = sa_sourceId a, ad_originalApprovedAt = approvedAt, ad_date = date, ad_net = sa_net a\<rparr>))))"

record history_snapshot =
  hs_snapshotId :: string
  hs_date :: work_date
  hs_stoppedAt :: "work_time option"
  hs_principal :: int
  hs_places :: "supplied_place list"

definition historicalSnapshot :: "history_snapshot \<Rightarrow> bool" where
  "historicalSnapshot h \<longleftrightarrow> londonWorkDateV1 (hs_date h) \<and> pred_option dated_time (hs_stoppedAt h) \<and>
     principalMoney (hs_principal h) \<and> list_all (\<lambda>p. 1 \<le> length (sp_jobIds p)) (hs_places h)"

definition meter_history :: "history_snapshot list \<Rightarrow> bool" where
  "meter_history rows \<longleftrightarrow> list_all historicalSnapshot rows \<and> length (remdups (map hs_snapshotId rows)) = length rows"

definition preserveMeterHistory :: "zone \<Rightarrow> history_snapshot list \<Rightarrow> work_time \<Rightarrow> meter_error + history_snapshot list" where
  "preserveMeterHistory offset rows cancelledAt =
     (if \<not> meter_history rows \<or> \<not> dated_time cancelledAt then Inl INVALID_METER_FOUNDATION_INPUT
      else if rows = [] then Inr rows
      else bind_r (londonMeterDate offset cancelledAt) (\<lambda>cancelled.
        if list_all (\<lambda>row. hs_date row < cancelled \<and> pred_option (\<lambda>s. s < cancelledAt) (hs_stoppedAt row)) rows
        then Inr rows else Inl INVALID_METER_FOUNDATION_INPUT))"

record identity_correction =
  ic_history :: "history_snapshot list"
  ic_future :: "supplied_place list"
  ic_retrospectiveCorrection :: int

definition applyProspectiveMeterIdentityCorrection ::
  "history_snapshot list \<Rightarrow> work_date \<Rightarrow> supplied_job list \<Rightarrow> meter_error + identity_correction" where
  "applyProspectiveMeterIdentityCorrection rows date jobs =
     (if \<not> meter_history rows \<or> \<not> fixedMeterPlacesV1 date jobs \<or> \<not> list_all (\<lambda>row. hs_date row < date) rows
      then Inl INVALID_METER_FOUNDATION_INPUT
      else bind_r (groupSuppliedMeterPlaces date jobs) (\<lambda>places.
        Inr \<lparr>ic_history = rows, ic_future = places, ic_retrospectiveCorrection = 0\<rparr>))"

section \<open>The monthly principal of a supplied schedule\<close>

datatype meter_environment = Synthetic_demo | Pilot_no_charge

record supplied_day =
  sd_date :: work_date
  sd_plan :: meter_plan
  sd_annualPrepaid :: bool
  sd_trial :: bool
  sd_countedPlaces :: int

record supplied_period =
  pd_environment :: meter_environment
  pd_startDate :: work_date
  pd_endDateExclusive :: work_date
  pd_days :: "supplied_day list"

text \<open>The days, by date, are the calendar days from the start to the exclusive end, each once.\<close>

definition complete_schedule :: "supplied_period \<Rightarrow> bool" where
  "complete_schedule p \<longleftrightarrow>
     (let dates = sort (map sd_date (pd_days p)) in
      list_all (\<lambda>(i, d). addWorkCalendarDays (pd_startDate p) (int i) = Inr d) (zip [0..<length dates] dates) \<and>
      addWorkCalendarDays (pd_startDate p) (int (length dates)) = Inr (pd_endDateExclusive p))"

definition suppliedMeterPeriodV1 :: "supplied_period \<Rightarrow> bool" where
  "suppliedMeterPeriodV1 p \<longleftrightarrow> londonWorkDateV1 (pd_startDate p) \<and> londonWorkDateV1 (pd_endDateExclusive p) \<and>
     28 \<le> length (pd_days p) \<and> length (pd_days p) \<le> 31 \<and>
     list_all (\<lambda>d. londonWorkDateV1 (sd_date d) \<and> counter_ok (sd_countedPlaces d)) (pd_days p) \<and> complete_schedule p"

record daily_result =
  dy_day :: supplied_day
  dy_basePence :: int
  dy_paidExtraPlaces :: int
  dy_extraPence :: int
  dy_numeratorPence :: int

definition daily_of :: "supplied_day \<Rightarrow> daily_result" where
  "daily_of d =
     (let terms = syntheticMeterPolicyV1 (sd_plan d);
          base = (if sd_trial d \<or> sd_annualPrepaid d then 0 else pt_monthlyPence terms);
          paidExtraPlaces = (if sd_trial d then 0
            else min (max 0 (sd_countedPlaces d - pt_included terms)) (pt_extrasCap terms));
          extra = paidExtraPlaces * extraPlacePence
      in \<lparr>dy_day = d, dy_basePence = base, dy_paidExtraPlaces = paidExtraPlaces, dy_extraPence = extra,
           dy_numeratorPence = base + extra\<rparr>)"

record period_result =
  pr_environment :: meter_environment
  pr_startDate :: work_date
  pr_endDateExclusive :: work_date
  pr_principal :: int
  pr_maximum :: int
  pr_numeratorPence :: int
  pr_denominatorDays :: int
  pr_days :: "daily_result list"

definition dailyResult :: "daily_result \<Rightarrow> bool" where
  "dailyResult d \<longleftrightarrow> counter_ok (dy_basePence d) \<and> counter_ok (dy_paidExtraPlaces d) \<and> counter_ok (dy_extraPence d) \<and>
     0 \<le> dy_numeratorPence d"

definition suppliedMeterPeriodResultV1 :: "period_result \<Rightarrow> bool" where
  "suppliedMeterPeriodResultV1 r \<longleftrightarrow> londonWorkDateV1 (pr_startDate r) \<and> londonWorkDateV1 (pr_endDateExclusive r) \<and>
     principalMoney (pr_principal r) \<and> principalMoney (pr_maximum r) \<and> 0 \<le> pr_numeratorPence r \<and>
     28 \<le> pr_denominatorDays r \<and> pr_denominatorDays r \<le> 31 \<and>
     28 \<le> length (pr_days r) \<and> length (pr_days r) \<le> 31 \<and> list_all dailyResult (pr_days r)"

definition meter_pence :: "money_error + money \<Rightarrow> meter_error + int" where
  "meter_pence m = bind_r (map_err Meter_money m) (\<lambda>x. Inr (pence x))"

definition computeSuppliedMeterPeriod :: "supplied_period \<Rightarrow> meter_error + period_result" where
  "computeSuppliedMeterPeriod p =
     (if \<not> suppliedMeterPeriodV1 p then Inl INVALID_METER_FOUNDATION_INPUT
      else let days = map daily_of (sort_by (\<lambda>a b. sd_date a < sd_date b) (pd_days p));
               numerator = sum_list (map dy_numeratorPence days)
       in bind_r (map_err Meter_range (divideRounded numerator (int (length days)) Half_even)) (\<lambda>average.
          bind_r (meter_pence (moneyFromBigInt average)) (\<lambda>principal.
          bind_r (meter_pence (money_of (JInt (Max (set (map (\<lambda>d. pt_maximumPence (syntheticMeterPolicyV1 (sd_plan (dy_day d)))) days)))))) (\<lambda>maximum.
          if principal > maximum then Inl METER_MAXIMUM_EXCEEDED
          else let r = \<lparr>pr_environment = pd_environment p, pr_startDate = pd_startDate p, pr_endDateExclusive = pd_endDateExclusive p,
                 pr_principal = principal, pr_maximum = maximum, pr_numeratorPence = numerator,
                 pr_denominatorDays = int (length days), pr_days = days\<rparr>
            in if suppliedMeterPeriodResultV1 r then Inr r else Inl INVALID_METER_FOUNDATION_INPUT))))"

definition suppliedMeterCorrection :: "int \<Rightarrow> int \<Rightarrow> meter_error + int" where
  "suppliedMeterCorrection original recomputed =
     (if \<not> principalMoney original \<or> \<not> principalMoney recomputed then Inl INVALID_METER_FOUNDATION_INPUT
      else meter_pence (moneyFromBigInt (recomputed - original)))"

section \<open>Admission of a further place\<close>

datatype addition_kind =
  Switch_live | Resume_job | Reopen_job | Live_import | Day31_start | Small_trip | First_evidence

record place_addition =
  pa_plan :: meter_plan
  pa_planRevision :: int
  pa_date :: work_date
  pa_kind :: addition_kind
  pa_sourceId :: string
  pa_expectedRevision :: int
  pa_committedJobs :: "supplied_job list"
  pa_prospective :: supplied_job

definition existing_job :: "place_addition \<Rightarrow> supplied_job option" where
  "existing_job a = List.find (\<lambda>j. sj_jobId j = sj_jobId (pa_prospective a)) (pa_committedJobs a)"

definition same_place :: "supplied_job \<Rightarrow> supplied_job \<Rightarrow> bool" where
  "same_place a b \<longleftrightarrow> sj_customerId a = sj_customerId b \<and> sj_siteId a = sj_siteId b"

definition meterPlaceAdditionV1 :: "place_addition \<Rightarrow> bool" where
  "meterPlaceAdditionV1 a \<longleftrightarrow> revision_safe (pa_planRevision a) \<and> londonWorkDateV1 (pa_date a) \<and> counter_ok (pa_expectedRevision a) \<and>
     (let existing = existing_job a; trip = (pa_kind a = Small_trip); continuation = (pa_kind a = Day31_start) in
      \<not> (length (remdups (map sj_jobId (pa_committedJobs a))) \<noteq> length (pa_committedJobs a) \<or>
         list_ex (\<lambda>j. sj_tenantId j \<noteq> sj_tenantId (pa_prospective a)) (pa_committedJobs a) \<or>
         (existing \<noteq> None \<and> \<not> trip \<and> \<not> continuation) \<or>
         (continuation \<and> (case existing of None \<Rightarrow> True | Some e \<Rightarrow>
            \<not> same_place e (pa_prospective a) \<or> sj_small e \<noteq> sj_small (pa_prospective a))) \<or>
         (trip \<and> (case existing of None \<Rightarrow> True | Some e \<Rightarrow>
            \<not> sj_small e \<or> sj_small (pa_prospective a) \<or> \<not> same_place e (pa_prospective a)))))"

datatype admission_error = INVALID_METER_PLACE_ADMISSION | METER_FIRST_EVIDENCE_OVERLAP_HELD | Admission_meter meter_error

datatype admission = Admit | Admit_upgrade_due | Refuse_upgrade_required | Admit_track_review_due

record place_facts =
  pf_rawJobs :: int
  pf_groupedPlaces :: int
  pf_smallPlaces :: int
  pf_freeSmallPlaces :: int
  pf_chargeableCommittedPlaces :: int

definition place_facts_of :: "place_addition \<Rightarrow> supplied_job list \<Rightarrow> admission_error + place_facts" where
  "place_facts_of a jobs =
     bind_r (map_err Admission_meter (groupSuppliedMeterPlaces (pa_date a) jobs)) (\<lambda>places.
     let smallPlaces = int (length (filter sp_small places)) in
     bind_r (map_err Admission_meter (computeSmallPlaceAllowance (pa_plan a) (int (length places)) smallPlaces)) (\<lambda>al.
     Inr \<lparr>pf_rawJobs = int (length jobs), pf_groupedPlaces = int (length places), pf_smallPlaces = smallPlaces,
       pf_freeSmallPlaces = al_freeSmallPlaces al, pf_chargeableCommittedPlaces = al_countedPlaces al\<rparr>))"

record admission_result =
  ar_decision :: admission
  ar_before :: int
  ar_after :: int
  ar_planRevision :: int
  ar_sourceHash :: string
  ar_beforeFacts :: place_facts
  ar_afterFacts :: place_facts
  ar_maximumPence :: int

definition jobs_after :: "place_addition \<Rightarrow> supplied_job list" where
  "jobs_after a = filter (\<lambda>j. sj_jobId j \<noteq> sj_jobId (pa_prospective a)) (pa_committedJobs a) @ [pa_prospective a]"

definition automatic :: "place_addition \<Rightarrow> bool" where
  "automatic a \<longleftrightarrow> map_option sj_small (existing_job a) = Some True \<and> \<not> sj_small (pa_prospective a)"

definition admission_decision :: "place_addition \<Rightarrow> int \<Rightarrow> int \<Rightarrow> admission" where
  "admission_decision a before after =
     (let terms = syntheticMeterPolicyV1 (pa_plan a); cap = pt_included terms + pt_extrasCap terms in
      if after > before \<and> after > cap then
        (if pa_plan a = Builder \<and> after > cap + 1 then Admit_track_review_due
         else if pa_plan a = Solo \<and> after > cap + 1 \<and> \<not> automatic a then Refuse_upgrade_required
         else Admit_upgrade_due)
      else Admit)"

text \<open>\<open>digest\<close> is the SHA-256 of the canonical text of the addition with its committed jobs by identifier.\<close>

definition evaluateMeterPlaceAddition :: "(place_addition \<Rightarrow> string) \<Rightarrow> place_addition \<Rightarrow> admission_error + admission_result" where
  "evaluateMeterPlaceAddition digest a =
     (if \<not> meterPlaceAdditionV1 a then Inl INVALID_METER_PLACE_ADMISSION
      else if pa_kind a = First_evidence then Inl METER_FIRST_EVIDENCE_OVERLAP_HELD
      else bind_r (place_facts_of a (pa_committedJobs a)) (\<lambda>beforeFacts.
        bind_r (place_facts_of a (jobs_after a)) (\<lambda>afterFacts.
        let before = pf_chargeableCommittedPlaces beforeFacts; after = pf_chargeableCommittedPlaces afterFacts in
        Inr \<lparr>ar_decision = admission_decision a before after, ar_before = before, ar_after = after,
          ar_planRevision = pa_planRevision a,
          ar_sourceHash = digest (a\<lparr>pa_committedJobs := sort_by (\<lambda>x y. sj_jobId x < sj_jobId y) (pa_committedJobs a)\<rparr>),
          ar_beforeFacts = beforeFacts, ar_afterFacts = afterFacts,
          ar_maximumPence = pt_maximumPence (syntheticMeterPolicyV1 (pa_plan a))\<rparr>)))"

section \<open>Jobs and places\<close>

text \<open>The place of a key, as a function of the jobs: this is the specification of the grouping loop.\<close>

definition jobs_of :: "supplied_job list \<Rightarrow> string \<Rightarrow> supplied_job list" where
  "jobs_of jobs k = filter (\<lambda>j. place_key j = k) jobs"

definition place_of :: "supplied_job list \<Rightarrow> string \<Rightarrow> supplied_place" where
  "place_of jobs k = (let js = jobs_of jobs k in
     \<lparr>sp_tenantId = sj_tenantId (hd js), sp_customerId = sj_customerId (hd js), sp_siteId = sj_siteId (hd js),
      sp_jobIds = map sj_jobId js, sp_small = list_all sj_small js\<rparr>)"

lemma jobs_of_snoc: "jobs_of (jobs @ [j]) k = (if place_key j = k then jobs_of jobs k @ [j] else jobs_of jobs k)"
  by (simp add: jobs_of_def)

lemma jobs_of_Nil_iff: "jobs_of jobs k = [] \<longleftrightarrow> k \<notin> place_key ` set jobs"
  by (auto simp: jobs_of_def filter_empty_conv)

lemma grouped_places:
  "distinct (map fst (foldl add_to_place [] jobs)) \<and> fst ` set (foldl add_to_place [] jobs) = place_key ` set jobs \<and>
   (\<forall>k\<in>place_key ` set jobs. map_of (foldl add_to_place [] jobs) k = Some (place_of jobs k))"
proof (induction jobs rule: rev_induct)
  case (snoc j jobs)
  let ?m = "foldl add_to_place [] jobs" and ?k = "place_key j"
  have IH: "distinct (map fst ?m)" "fst ` set ?m = place_key ` set jobs"
    "\<And>k. k \<in> place_key ` set jobs \<Longrightarrow> map_of ?m k = Some (place_of jobs k)" using snoc.IH by blast+
  have other: "place_of (jobs @ [j]) k = place_of jobs k" if "k \<noteq> ?k" for k
    using that by (simp add: place_of_def jobs_of_snoc)
  have upd: "add_to_place ?m j = AList.update ?k (place_of (jobs @ [j]) ?k) ?m"
  proof (cases "?k \<in> place_key ` set jobs")
    case True
    then have "jobs_of jobs ?k \<noteq> []" by (simp add: jobs_of_Nil_iff)
    with IH(3) [OF True] show ?thesis by (simp add: add_to_place_def place_of_def jobs_of_snoc Let_def)
  next
    case False
    then have "jobs_of jobs ?k = []" "map_of ?m ?k = None" using IH(2) by (simp_all add: jobs_of_Nil_iff map_of_eq_None_iff)
    then show ?thesis by (simp add: add_to_place_def place_of_def jobs_of_snoc Let_def)
  qed
  have "map_of (AList.update ?k (place_of (jobs @ [j]) ?k) ?m) k = Some (place_of (jobs @ [j]) k)"
    if "k \<in> place_key ` set (jobs @ [j])" for k
    using that IH(3) other by (cases "k = ?k") auto
  moreover have "fst ` set (AList.update ?k (place_of (jobs @ [j]) ?k) ?m) = place_key ` set (jobs @ [j])"
    using IH(2) by (simp add: dom_update)
  ultimately show ?case using IH(1) by (simp add: upd distinct_keys_update)
qed (simp add: place_of_def)

text \<open>GUID texts have one length, so the key of a place determines its parts.\<close>

definition guid_shaped :: "supplied_job \<Rightarrow> bool" where
  "guid_shaped j \<longleftrightarrow> length (sj_tenantId j) = 36 \<and> length (sj_jobId j) = 36 \<and> length (sj_customerId j) = 36 \<and> length (sj_siteId j) = 36"

lemma place_key_inj:
  "guid_shaped a \<Longrightarrow> guid_shaped b \<Longrightarrow> place_key a = place_key b \<longleftrightarrow>
   sj_tenantId a = sj_tenantId b \<and> sj_customerId a = sj_customerId b \<and> sj_siteId a = sj_siteId b"
  by (auto simp: guid_shaped_def place_key_def)

definition grouped :: "supplied_job list \<Rightarrow> supplied_place list" where
  "grouped jobs = map (\<lambda>k. let p = place_of jobs k in p\<lparr>sp_jobIds := sort (sp_jobIds p)\<rparr>)
     (sorted_list_of_set (place_key ` set jobs))"

lemma sorted_entries:
  assumes "distinct (map fst m)"
  shows "map fst (sort_by (\<lambda>a b. fst a < fst b) m) = sorted_list_of_set (fst ` set m)"
proof -
  let ?xs = "sort_by (\<lambda>a b. fst a < fst b) m"
  have "sorted_wrt (\<lambda>a b. \<not> fst b < fst a) ?xs" by (rule sorted_wrt_sort_by) auto
  then have "sorted (map fst ?xs)" by (simp add: sorted_wrt_map not_less)
  moreover have "distinct (map fst ?xs)" using assms by simp
  ultimately show ?thesis by (metis set_map set_sort_by sorted_list_of_set.idem_if_sorted_distinct)
qed

lemma groupSuppliedMeterPlaces_eq:
  assumes "fixedMeterPlacesV1 date jobs"
  shows "groupSuppliedMeterPlaces date jobs = Inr (grouped jobs)"
proof -
  let ?m = "foldl add_to_place [] jobs" and ?f = "\<lambda>p. p\<lparr>sp_jobIds := sort (sp_jobIds p)\<rparr>"
  note g = grouped_places [of jobs]
  have "p = place_of jobs k" if "(k, p) \<in> set ?m" for k p
    using g that by (metis image_eqI fst_conv map_of_eq_Some_iff option.inject)
  then have "map (\<lambda>(k, p). ?f p) (sort_by (\<lambda>a b. fst a < fst b) ?m) =
      map (\<lambda>x. ?f (place_of jobs (fst x))) (sort_by (\<lambda>a b. fst a < fst b) ?m)"
    by (intro map_cong) auto
  also have "\<dots> = map (\<lambda>k. ?f (place_of jobs k)) (map fst (sort_by (\<lambda>a b. fst a < fst b) ?m))" by (simp add: comp_def)
  also have "map fst (sort_by (\<lambda>a b. fst a < fst b) ?m) = sorted_list_of_set (place_key ` set jobs)"
    using sorted_entries [of ?m] g by presburger
  also have "map (\<lambda>k. ?f (place_of jobs k)) \<dots> = grouped jobs" by (simp only: grouped_def Let_def)
  finally have places: "map (\<lambda>(k, p). ?f p) (sort_by (\<lambda>a b. fst a < fst b) ?m) = grouped jobs" .
  moreover have "fixedMeterPlacesResultV1 date (grouped jobs)"
    using assms by (auto simp: fixedMeterPlacesResultV1_def fixedMeterPlacesV1_def grouped_def list_all_iff Let_def
      place_of_def jobs_of_def Suc_le_eq filter_empty_conv length_greater_0_conv [symmetric] simp del: length_greater_0_conv)
  ultimately show ?thesis using assms by (simp add: groupSuppliedMeterPlaces_def Let_def)
qed

lemma jobs_of_perm: "mset jobs' = mset jobs \<Longrightarrow> mset (jobs_of jobs' k) = mset (jobs_of jobs k)"
  by (simp add: jobs_of_def mset_filter)

lemma place_parts:
  assumes "j \<in> set jobs" "\<forall>j\<in>set jobs. guid_shaped j"
  shows "sp_tenantId (place_of jobs (place_key j)) = sj_tenantId j \<and> sp_customerId (place_of jobs (place_key j)) = sj_customerId j \<and>
    sp_siteId (place_of jobs (place_key j)) = sj_siteId j"
proof -
  let ?h = "hd (jobs_of jobs (place_key j))"
  have "jobs_of jobs (place_key j) \<noteq> []" using assms(1) by (auto simp: jobs_of_Nil_iff)
  then have "?h \<in> set (jobs_of jobs (place_key j))" by (rule hd_in_set)
  then have "?h \<in> set jobs" "place_key ?h = place_key j" by (auto simp: jobs_of_def)
  with assms place_key_inj [of ?h j] show ?thesis by (simp add: place_of_def Let_def)
qed

lemma grouped_perm:
  assumes "mset jobs' = mset jobs" "\<forall>j\<in>set jobs. guid_shaped j"
  shows "grouped jobs' = grouped jobs"
proof -
  have sets: "set jobs' = set jobs" using assms(1) by (metis set_mset_mset)
  have "(let p = place_of jobs' k in p\<lparr>sp_jobIds := sort (sp_jobIds p)\<rparr>) = (let p = place_of jobs k in p\<lparr>sp_jobIds := sort (sp_jobIds p)\<rparr>)"
    if "k \<in> place_key ` set jobs" for k
  proof -
    from that obtain j where j: "j \<in> set jobs" "k = place_key j" by blast
    have m: "mset (jobs_of jobs' k) = mset (jobs_of jobs k)" by (rule jobs_of_perm [OF assms(1)])
    then have "set (jobs_of jobs' k) = set (jobs_of jobs k)" by (metis set_mset_mset)
    then have "sp_small (place_of jobs' k) = sp_small (place_of jobs k)" by (simp add: place_of_def Let_def list_all_iff)
    moreover have "sort (sp_jobIds (place_of jobs' k)) = sort (sp_jobIds (place_of jobs k))"
      using m by (intro properties_for_sort) (simp_all add: place_of_def Let_def)
    moreover have "\<forall>j\<in>set jobs'. guid_shaped j" using assms(2) sets by simp
    ultimately show ?thesis using place_parts [of j jobs'] place_parts [of j jobs] assms(2) j sets by (simp add: Let_def)
  qed
  with sets show ?thesis by (simp add: grouped_def)
qed

lemma sum_jobs_of: "distinct ks \<Longrightarrow> place_key ` set jobs \<subseteq> set ks \<Longrightarrow> (\<Sum>k\<leftarrow>ks. length (jobs_of jobs k)) = length jobs"
proof (induction jobs)
  case (Cons j jobs)
  have "jobs_of (j # jobs) k = (if k = place_key j then j # jobs_of jobs k else jobs_of jobs k)" for k by (simp add: jobs_of_def)
  then have "(\<Sum>k\<leftarrow>ks. length (jobs_of (j # jobs) k)) = (\<Sum>k\<leftarrow>ks. length (jobs_of jobs k) + (if k = place_key j then 1 else 0))"
    by (intro arg_cong [of _ _ sum_list] map_cong) auto
  also have "\<dots> = length jobs + (\<Sum>k\<leftarrow>ks. if k = place_key j then 1 else 0)" using Cons by (simp add: sum_list_addf)
  also have "(\<Sum>k\<leftarrow>ks. if k = place_key j then 1 else 0) = (1::nat)"
    using Cons.prems by (simp add: sum_list_distinct_conv_sum_set)
  finally show ?case by simp
qed (simp add: jobs_of_def)

lemma groupSuppliedMeterPlaces_perm:
  assumes "fixedMeterPlacesV1 date jobs" "\<forall>j\<in>set jobs. guid_shaped j" and m: "mset jobs' = mset jobs"
  shows "groupSuppliedMeterPlaces date jobs' = Inr (grouped jobs)"
proof -
  have "mset (map job_key jobs') = mset (map job_key jobs)" using m by simp
  then have "set (map job_key jobs') = set (map job_key jobs)" by (metis set_mset_mset)
  then have "length (remdups (map job_key jobs')) = length (remdups (map job_key jobs))" by (simp only: length_remdups_card_conv)
  moreover have "length jobs' = length jobs" using m by (metis size_mset)
  ultimately have "fixedMeterPlacesV1 date jobs'" using assms(1) by (simp add: fixedMeterPlacesV1_def)
  with grouped_perm [OF m assms(2)] groupSuppliedMeterPlaces_eq show ?thesis by simp
qed

lemma included_bounds: "0 \<le> pt_included (syntheticMeterPolicyV1 plan) \<and> pt_included (syntheticMeterPolicyV1 plan) \<le> MAX_SAFE"
  by (cases plan) (simp_all add: MAX_SAFE_def)

lemma computeSmallPlaceAllowance_eq:
  assumes "0 \<le> small" "small \<le> raw" "raw \<le> MAX_SAFE"
  shows "computeSmallPlaceAllowance plan raw small = Inr \<lparr>al_rawPlaces = raw,
    al_freeSmallPlaces = min small (pt_included (syntheticMeterPolicyV1 plan)),
    al_countedPlaces = raw - min small (pt_included (syntheticMeterPolicyV1 plan))\<rparr>"
  using assms included_bounds [of plan]
  by (auto simp: computeSmallPlaceAllowance_def smallPlaceAllowanceV1_def smallPlaceAllowanceResultV1_def counter_ok_def Let_def min_def)

text \<open>
  C19. Jobs are grouped into places without loss. Whatever the order of the supplied jobs, the places
  are the same list; every job belongs to exactly one place, the one of its tenant, customer and site,
  which lists it; no job is listed twice; and a place is small exactly if all its jobs are. Of the
  places, as many small ones as the plan includes are free, and all the others count.
\<close>

theorem meter_places_partition:
  assumes "fixedMeterPlacesV1 date jobs" and "\<forall>j\<in>set jobs. guid_shaped j"
  shows "\<exists>ps. groupSuppliedMeterPlaces date jobs = Inr ps \<and>
    (\<forall>jobs'. mset jobs' = mset jobs \<longrightarrow> groupSuppliedMeterPlaces date jobs' = Inr ps) \<and>
    (\<Sum>p\<leftarrow>ps. length (sp_jobIds p)) = length jobs \<and>
    (\<forall>j\<in>set jobs. \<exists>!p. p \<in> set ps \<and> sp_tenantId p = sj_tenantId j \<and> sp_customerId p = sj_customerId j \<and> sp_siteId p = sj_siteId j) \<and>
    (\<forall>p\<in>set ps. \<exists>js. js \<noteq> [] \<and> set js = {j \<in> set jobs. sj_tenantId j = sp_tenantId p \<and> sj_customerId j = sp_customerId p \<and> sj_siteId j = sp_siteId p} \<and>
       mset (sp_jobIds p) = mset (map sj_jobId js) \<and> (sp_small p \<longleftrightarrow> (\<forall>j\<in>set js. sj_small j))) \<and>
    (\<forall>plan. int (length ps) \<le> MAX_SAFE \<longrightarrow> computeSmallPlaceAllowance plan (int (length ps)) (int (length (filter sp_small ps))) =
      Inr \<lparr>al_rawPlaces = int (length ps), al_freeSmallPlaces = min (int (length (filter sp_small ps))) (pt_included (syntheticMeterPolicyV1 plan)),
        al_countedPlaces = int (length ps) - min (int (length (filter sp_small ps))) (pt_included (syntheticMeterPolicyV1 plan))\<rparr>)"
proof (intro exI [of _ "grouped jobs"] conjI allI impI ballI)
  let ?ks = "sorted_list_of_set (place_key ` set jobs)" and ?f = "\<lambda>k. let p = place_of jobs k in p\<lparr>sp_jobIds := sort (sp_jobIds p)\<rparr>"
  have ps: "grouped jobs = map ?f ?ks" by (simp add: grouped_def)
  have parts: "sp_tenantId (?f (place_key j)) = sj_tenantId j \<and> sp_customerId (?f (place_key j)) = sj_customerId j \<and>
      sp_siteId (?f (place_key j)) = sj_siteId j" if "j \<in> set jobs" for j
    using place_parts [OF that assms(2)] by (simp add: Let_def)
  show "groupSuppliedMeterPlaces date jobs = Inr (grouped jobs)" by (rule groupSuppliedMeterPlaces_eq [OF assms(1)])
  show "groupSuppliedMeterPlaces date jobs' = Inr (grouped jobs)" if "mset jobs' = mset jobs" for jobs'
    by (rule groupSuppliedMeterPlaces_perm [OF assms that])
  have "(\<Sum>p\<leftarrow>grouped jobs. length (sp_jobIds p)) = (\<Sum>k\<leftarrow>?ks. length (jobs_of jobs k))"
    by (simp add: ps comp_def Let_def place_of_def)
  then show "(\<Sum>p\<leftarrow>grouped jobs. length (sp_jobIds p)) = length jobs" by (simp add: sum_jobs_of)
  show "\<exists>!p. p \<in> set (grouped jobs) \<and> sp_tenantId p = sj_tenantId j \<and> sp_customerId p = sj_customerId j \<and> sp_siteId p = sj_siteId j"
    if j: "j \<in> set jobs" for j
  proof (rule ex1I [of _ "?f (place_key j)"])
    show "?f (place_key j) \<in> set (grouped jobs) \<and> sp_tenantId (?f (place_key j)) = sj_tenantId j \<and>
        sp_customerId (?f (place_key j)) = sj_customerId j \<and> sp_siteId (?f (place_key j)) = sj_siteId j"
      using j parts [OF j] by (simp add: ps)
    fix p assume "p \<in> set (grouped jobs) \<and> sp_tenantId p = sj_tenantId j \<and> sp_customerId p = sj_customerId j \<and> sp_siteId p = sj_siteId j"
    moreover from this obtain i where "i \<in> set jobs" "p = ?f (place_key i)" by (auto simp: ps)
    ultimately have "place_key i = place_key j" using parts [of i] assms(2) j by (simp add: place_key_def)
    with \<open>p = ?f (place_key i)\<close> show "p = ?f (place_key j)" by simp
  qed
  show "\<exists>js. js \<noteq> [] \<and> set js = {j \<in> set jobs. sj_tenantId j = sp_tenantId p \<and> sj_customerId j = sp_customerId p \<and> sj_siteId j = sp_siteId p} \<and>
       mset (sp_jobIds p) = mset (map sj_jobId js) \<and> (sp_small p \<longleftrightarrow> (\<forall>j\<in>set js. sj_small j))" if "p \<in> set (grouped jobs)" for p
  proof -
    from that obtain i where i: "i \<in> set jobs" "p = ?f (place_key i)" by (auto simp: ps)
    have "set (jobs_of jobs (place_key i)) = {j \<in> set jobs. sj_tenantId j = sp_tenantId p \<and> sj_customerId j = sp_customerId p \<and> sj_siteId j = sp_siteId p}"
      using i parts [OF i(1)] assms(2) place_key_inj by (auto simp: jobs_of_def)
    moreover have "jobs_of jobs (place_key i) \<noteq> []" using i(1) by (auto simp: jobs_of_Nil_iff)
    ultimately show ?thesis using i(2)
      by (intro exI [of _ "jobs_of jobs (place_key i)"]) (simp add: Let_def place_of_def list_all_iff)
  qed
  show "computeSmallPlaceAllowance plan (int (length (grouped jobs))) (int (length (filter sp_small (grouped jobs)))) =
      Inr \<lparr>al_rawPlaces = int (length (grouped jobs)),
        al_freeSmallPlaces = min (int (length (filter sp_small (grouped jobs)))) (pt_included (syntheticMeterPolicyV1 plan)),
        al_countedPlaces = int (length (grouped jobs)) - min (int (length (filter sp_small (grouped jobs)))) (pt_included (syntheticMeterPolicyV1 plan))\<rparr>"
    if "int (length (grouped jobs)) \<le> MAX_SAFE" for plan
    using that length_filter_le [of sp_small "grouped jobs"] by (simp add: computeSmallPlaceAllowance_eq)
qed

section \<open>The principal of a month\<close>

lemma daily_of_bounds:
  "0 \<le> dy_paidExtraPlaces (daily_of d) \<and> dy_paidExtraPlaces (daily_of d) \<le> pt_extrasCap (syntheticMeterPolicyV1 (sd_plan d)) \<and>
   0 \<le> dy_numeratorPence (daily_of d) \<and> dy_numeratorPence (daily_of d) \<le> pt_maximumPence (syntheticMeterPolicyV1 (sd_plan d)) \<and>
   pt_maximumPence (syntheticMeterPolicyV1 (sd_plan d)) \<le> 16900 \<and> dailyResult (daily_of d)"
  by (cases "sd_plan d")
    (auto simp: daily_of_def Let_def extraPlacePence_def dailyResult_def counter_ok_def MAX_SAFE_def min_def max_def)

lemma daily_of_day [simp]: "dy_day (daily_of d) = d"
  by (simp add: daily_of_def Let_def)

lemma daily_of_trial: "sd_trial d \<Longrightarrow> dy_numeratorPence (daily_of d) = 0"
  by (simp add: daily_of_def Let_def)

lemma sum_list_bounds_int: "\<forall>x\<in>set xs. l \<le> f x \<and> f x \<le> (u::int) \<Longrightarrow> int (length xs) * l \<le> sum_list (map f xs) \<and> sum_list (map f xs) \<le> int (length xs) * u"
  by (induction xs) (auto simp: distrib_right)

lemma round_between:
  assumes "0 < d" "d * l \<le> n" "n \<le> d * u"
  shows "l \<le> round_div mode n d \<and> round_div mode n d \<le> u"
proof -
  have "\<bar>2 * (n - d * round_div mode n d)\<bar> \<le> d" by (rule round_div_nearest [OF assms(1)])
  then have "2 * d * round_div mode n d \<le> 2 * n + d" "2 * n - d \<le> 2 * d * round_div mode n d" by (simp_all add: abs_le_iff algebra_simps)
  with assms have "d * (2 * round_div mode n d) < d * (2 * u + 2)" "d * (2 * l - 2) < d * (2 * round_div mode n d)"
    by (simp_all add: algebra_simps)
  with assms(1) show ?thesis by simp
qed

lemma mset_insert_by: "mset (insert_by lt x ys) = add_mset x (mset ys)"
  by (induction ys) auto

lemma mset_sort_by [simp]: "mset (sort_by lt xs) = mset xs"
  by (induction xs) (auto simp: mset_insert_by)

lemma sorted_dates: "map sd_date (sort_by (\<lambda>a b. sd_date a < sd_date b) days) = sort (map sd_date days)"
proof -
  have "sorted_wrt (\<lambda>a b. \<not> sd_date b < sd_date a) (sort_by (\<lambda>a b. sd_date a < sd_date b) days)" by (rule sorted_wrt_sort_by) auto
  then have "sorted (map sd_date (sort_by (\<lambda>a b. sd_date a < sd_date b) days))" by (simp add: sorted_wrt_map not_less)
  then show ?thesis by (intro properties_for_sort [symmetric]) simp_all
qed

lemma complete_schedule_dates:
  assumes "complete_schedule p"
  shows "sort (map sd_date (pd_days p)) = map (\<lambda>i. pd_startDate p + int i) [0..<length (pd_days p)]"
proof (rule nth_equalityI)
  fix i assume i: "i < length (sort (map sd_date (pd_days p)))"
  let ?dates = "sort (map sd_date (pd_days p))"
  have "(i, ?dates ! i) \<in> set (zip [0..<length ?dates] ?dates)" using i by (force simp: set_zip)
  then have "addWorkCalendarDays (pd_startDate p) (int i) = Inr (?dates ! i)"
    using assms by (auto simp: complete_schedule_def list_all_iff Let_def)
  then show "?dates ! i = map (\<lambda>i. pd_startDate p + int i) [0..<length (pd_days p)] ! i"
    using i by (simp add: addWorkCalendarDays_def split: if_splits)
qed simp

lemma max_plan:
  assumes "finite D" "D \<noteq> {}"
  shows "Max ((\<lambda>d. pt_maximumPence (syntheticMeterPolicyV1 (sd_plan d))) ` D) \<in> {4900, 16900}"
proof -
  have "Max ((\<lambda>d. pt_maximumPence (syntheticMeterPolicyV1 (sd_plan d))) ` D) \<in> (\<lambda>d. pt_maximumPence (syntheticMeterPolicyV1 (sd_plan d))) ` D"
    using assms by (intro Max_in) auto
  moreover have "pt_maximumPence (syntheticMeterPolicyV1 plan) \<in> {4900, 16900}" for plan by (cases plan) simp_all
  ultimately show ?thesis by (metis (no_types, lifting) imageE)
qed

text \<open>
  C20. A complete supplied month always has a principal: the computation never fails on a valid
  schedule, and its own check of the plan's maximum can never fire. The principal is the half-even
  rounded average of the daily amounts, so it lies between nothing and the highest plan maximum of the
  month; no day is charged for more extra places than the cap; days on trial are free; and the days
  of the result are the calendar days of the period, each once and in order.
\<close>

theorem meter_period_sound:
  assumes "suppliedMeterPeriodV1 p"
  shows "\<exists>r. computeSuppliedMeterPeriod p = Inr r \<and>
    \<bar>2 * (pr_numeratorPence r - pr_denominatorDays r * pr_principal r)\<bar> \<le> pr_denominatorDays r \<and>
    pr_numeratorPence r = sum_list (map dy_numeratorPence (pr_days r)) \<and> pr_denominatorDays r = int (length (pd_days p)) \<and>
    0 \<le> pr_principal r \<and> pr_principal r \<le> pr_maximum r \<and> pr_maximum r \<in> {4900, 16900} \<and>
    (\<forall>d\<in>set (pr_days r). dy_paidExtraPlaces d \<le> pt_extrasCap (syntheticMeterPolicyV1 (sd_plan (dy_day d))) \<and>
      (sd_trial (dy_day d) \<longrightarrow> dy_numeratorPence d = 0)) \<and>
    (list_all sd_trial (pd_days p) \<longrightarrow> pr_principal r = 0) \<and>
    map (sd_date \<circ> dy_day) (pr_days r) = map (\<lambda>i. pd_startDate p + int i) [0..<length (pd_days p)]"
proof -
  let ?sorted = "sort_by (\<lambda>a b. sd_date a < sd_date b) (pd_days p)"
  let ?days = "map daily_of ?sorted" and ?max = "\<lambda>d. pt_maximumPence (syntheticMeterPolicyV1 (sd_plan d))"
  let ?n = "int (length (pd_days p))" and ?num = "sum_list (map dy_numeratorPence (map daily_of ?sorted))"
  let ?M = "Max (?max ` set (pd_days p))" and ?r = "round_div Half_even ?num ?n"
  have n: "28 \<le> ?n" "?n \<le> 31" using assms by (simp_all add: suppliedMeterPeriodV1_def)
  then have pos: "0 < ?n" by linarith
  have ne: "set (pd_days p) \<noteq> {}" using pos by auto
  then have sorted_ne: "?sorted \<noteq> []" by (metis set_empty set_sort_by)
  have M: "?M \<in> {4900, 16900}" using ne by (simp only: max_plan finite_set not_False_eq_True)
  have each: "0 \<le> dy_numeratorPence (daily_of d) \<and> dy_numeratorPence (daily_of d) \<le> ?M" if "d \<in> set (pd_days p)" for d
    using daily_of_bounds [of d] that by (meson Max_ge finite_imageI finite_set imageI order_trans)
  have num: "?n * 0 \<le> ?num" "?num \<le> ?n * ?M"
    using sum_list_bounds_int [of ?sorted 0 "dy_numeratorPence \<circ> daily_of" ?M] each by (simp_all add: comp_def)
  have bounds: "0 \<le> ?r" "?r \<le> ?M" using round_between [OF pos num] by blast+
  have money: "meter_pence (moneyFromBigInt ?r) = Inr ?r" "meter_pence (money_of (JInt ?M)) = Inr ?M"
    using bounds M by (auto simp: meter_pence_def moneyFromBigInt_eq money_of_JInt MAX_MONEY_PENCE_def)
  let ?res = "\<lparr>pr_environment = pd_environment p, pr_startDate = pd_startDate p, pr_endDateExclusive = pd_endDateExclusive p,
     pr_principal = ?r, pr_maximum = ?M, pr_numeratorPence = ?num, pr_denominatorDays = ?n, pr_days = ?days\<rparr>"
  have "suppliedMeterPeriodResultV1 ?res"
    using assms bounds M num n daily_of_bounds
    by (auto simp: suppliedMeterPeriodResultV1_def suppliedMeterPeriodV1_def principalMoney_def meterMoneyV1_def
      MAX_MONEY_PENCE_def list_all_iff)
  then have res: "computeSuppliedMeterPeriod p = Inr ?res"
    using assms bounds n money sorted_ne
    by (simp add: computeSuppliedMeterPeriod_def divideRounded_def Let_def image_image comp_def)
  have near: "\<bar>2 * (?num - ?n * ?r)\<bar> \<le> ?n" by (rule round_div_nearest [OF pos])
  have trial: "?r = 0" if "list_all sd_trial (pd_days p)"
  proof -
    have "?num = sum_list (map (\<lambda>d. 0) ?sorted)"
      using that by (intro arg_cong [of _ _ sum_list]) (auto simp: list_all_iff daily_of_trial)
    then have "?num = 0" by (simp add: sum_list_triv)
    with round_between [OF pos, of 0 ?num 0 Half_even] show ?thesis by simp
  qed
  have dates: "map (sd_date \<circ> dy_day) ?days = map (\<lambda>i. pd_startDate p + int i) [0..<length (pd_days p)]"
    using assms complete_schedule_dates [of p] sorted_dates [of "pd_days p"] by (simp add: comp_def suppliedMeterPeriodV1_def)
  show ?thesis
    by (rule exI [of _ ?res]) (use res near bounds M trial dates daily_of_bounds daily_of_trial in auto)
qed

section \<open>Concrete inputs\<close>

definition sample_job :: "char \<Rightarrow> char \<Rightarrow> bool \<Rightarrow> supplied_job" where
  "sample_job j site small = \<lparr>sj_tenantId = replicate 36 CHR ''t'', sj_jobId = replicate 36 j,
     sj_customerId = replicate 36 CHR ''c'', sj_siteId = replicate 36 site, sj_small = small\<rparr>"

definition sample_jobs :: "supplied_job list" where
  "sample_jobs = [sample_job CHR ''2'' CHR ''x'' True, sample_job CHR ''1'' CHR ''x'' False, sample_job CHR ''3'' CHR ''y'' True]"

theorem meter_places_partition_witness:
  "\<exists>ps. groupSuppliedMeterPlaces 20000 sample_jobs = Inr ps \<and> groupSuppliedMeterPlaces 20000 (rev sample_jobs) = Inr ps \<and>
     (\<Sum>p\<leftarrow>ps. length (sp_jobIds p)) = 3"
proof -
  have "fixedMeterPlacesV1 20000 sample_jobs" by code_simp
  moreover have "\<forall>j\<in>set sample_jobs. guid_shaped j" by (simp add: sample_jobs_def sample_job_def guid_shaped_def)
  ultimately show ?thesis
    using meter_places_partition [of 20000 sample_jobs] by (auto simp: sample_jobs_def)
qed

definition sample_month :: supplied_period where
  "sample_month = \<lparr>pd_environment = Synthetic_demo, pd_startDate = 20000, pd_endDateExclusive = 20028,
     pd_days = map (\<lambda>i. \<lparr>sd_date = 20027 - int i, sd_plan = Solo, sd_annualPrepaid = False, sd_trial = i < 14,
       sd_countedPlaces = 6\<rparr>) [0..<28]\<rparr>"

theorem meter_period_sound_witness:
  "\<exists>r. computeSuppliedMeterPeriod sample_month = Inr r \<and> pr_principal r \<le> pr_maximum r \<and> pr_denominatorDays r = 28"
proof -
  have "suppliedMeterPeriodV1 sample_month" by code_simp
  from meter_period_sound [OF this] show ?thesis by (auto simp: sample_month_def)
qed

end
