(* ===== verification/Meter_Lifecycle.thy ===== *)
theory Meter_Lifecycle
  imports Meter_Places
begin

text \<open>
  Model of \<^verbatim>\<open>packages/core/src/meter-lifecycle.ts\<close>: the counting intervals of a job, the timeline
  projected from its facts, and the places counted on each London date. \<open>count_step\<close> is one turn of
  the \<^verbatim>\<open>for(;;)\<close> loop of \<open>countIntervals\<close>: a deadline that is due, the next fact, or the end.
\<close>

section \<open>Inputs\<close>

datatype meter_clock = Clock_held | Clock_approved

record meter_source =
  ms_id :: string
  ms_at :: work_time

record meter_activation =
  ma_id :: string
  ma_at :: work_time
  ma_termsId :: string
  ma_termsRevision :: int
  ma_partyBindingId :: string
  ma_customerId :: string
  ma_siteId :: string
  ma_small :: bool

record meter_input =
  mi_tenantId :: string
  mi_jobId :: string
  mi_sourceRevision :: int
  mi_activation :: meter_activation
  mi_events :: "work_event list"
  mi_lock :: "meter_source option"
  mi_trip :: "meter_source option"
  mi_clock :: meter_clock
  mi_asOf :: work_time
  mi_startDate :: work_date
  mi_endDateExclusive :: work_date

datatype lifecycle_error =
  INVALID_METER_LIFECYCLE_INPUT | Lifecycle_timing timing_error | Lifecycle_meter meter_error
| Lifecycle_facts projection_error

definition fact_ids :: "meter_input \<Rightarrow> string list" where
  "fact_ids i = [ma_id (mi_activation i), ma_termsId (mi_activation i), ma_partyBindingId (mi_activation i)] @
     remdups (map we_id (mi_events i)) @ map ms_id (List.map_filter id [mi_lock i, mi_trip i])"

definition meterLifecycleInputV1 :: "meter_input \<Rightarrow> bool" where
  "meterLifecycleInputV1 i \<longleftrightarrow> revision_safe (mi_sourceRevision i) \<and> dated_time (ma_at (mi_activation i)) \<and>
     revision_safe (ma_termsRevision (mi_activation i)) \<and> list_all jobWorkStateEventV1 (mi_events i) \<and>
     pred_option (\<lambda>s. dated_time (ms_at s)) (mi_lock i) \<and> pred_option (\<lambda>s. dated_time (ms_at s)) (mi_trip i) \<and>
     dated_time (mi_asOf i) \<and> londonWorkDateV1 (mi_startDate i) \<and> londonWorkDateV1 (mi_endDateExclusive i) \<and>
     \<not> (mi_startDate i \<ge> mi_endDateExclusive i \<or> mi_asOf i < ma_at (mi_activation i)) \<and>
     \<not> list_ex (\<lambda>e. we_jobId e \<noteq> mi_jobId i \<or> we_factAt e < ma_at (mi_activation i) \<or> we_recordedAt e < we_factAt e) (mi_events i) \<and>
     \<not> list_ex (\<lambda>f. ms_at f < ma_at (mi_activation i)) (List.map_filter id [mi_lock i, mi_trip i]) \<and>
     distinct (fact_ids i) \<and>
     (case (mi_lock i, mi_trip i) of (Some l, Some t) \<Rightarrow> ms_at t < ms_at l | _ \<Rightarrow> True)"

section \<open>Counting intervals\<close>

datatype start_cause = Start_day31 | Start_first_site_evidence | Start_restart
datatype end_cause = End_lock | End_closed | End_finished_plus_7 | End_quiet_30

record meter_interval =
  iv_start :: work_time
  iv_startCause :: start_cause
  iv_end :: "work_time option"
  iv_endCause :: "end_cause option"

datatype count_phase = Pre | Counting | Stopped | Closed

record count_state =
  ct_phase :: count_phase
  ct_cur :: "meter_interval option"
  ct_anchor :: "work_time option"
  ct_finishedAt :: "work_time option"
  ct_lastStop :: "work_time option"
  ct_day31Done :: bool
  ct_out :: "meter_interval list"

definition stopAt :: "zone \<Rightarrow> work_time \<Rightarrow> int \<Rightarrow> timing_error + work_time" where
  "stopAt offset originAt days =
     bind_r (londonWorkDate offset originAt) (\<lambda>d. bind_r (addWorkCalendarDays d days) (londonMidnight offset))"

definition begin_counting :: "work_time \<Rightarrow> start_cause \<Rightarrow> count_state \<Rightarrow> count_state" where
  "begin_counting t cause s =
     (if (case ct_lastStop s of None \<Rightarrow> False | Some l \<Rightarrow> t \<le> l) then s
      else s\<lparr>ct_cur := Some \<lparr>iv_start = t, iv_startCause = cause, iv_end = None, iv_endCause = None\<rparr>,
        ct_anchor := Some t, ct_finishedAt := None, ct_phase := Counting\<rparr>)"

definition end_counting :: "work_time \<Rightarrow> end_cause \<Rightarrow> count_phase \<Rightarrow> count_state \<Rightarrow> count_state" where
  "end_counting t cause next s = s\<lparr>
     ct_out := (case ct_cur s of Some c \<Rightarrow> if t > iv_start c then ct_out s @ [c\<lparr>iv_end := Some t, iv_endCause := Some cause\<rparr>] else ct_out s
       | None \<Rightarrow> ct_out s),
     ct_cur := None,
     ct_lastStop := (case ct_lastStop s of Some l \<Rightarrow> if l > t then Some l else Some t | None \<Rightarrow> Some t),
     ct_phase := next\<rparr>"

text \<open>The deadlines of a state, in the order in which the source collects them.\<close>

datatype deadline_event = Day31_due | Pre_finish_due | Quiet_due | Finish_due

record due =
  due_at :: work_time
  due_stop :: bool
  due_event :: deadline_event

definition apply_due :: "due \<Rightarrow> count_state \<Rightarrow> count_state" where
  "apply_due d s = (case due_event d of
     Day31_due \<Rightarrow> begin_counting (due_at d) Start_day31 (s\<lparr>ct_day31Done := True\<rparr>)
   | Pre_finish_due \<Rightarrow> s\<lparr>ct_finishedAt := None, ct_day31Done := True, ct_lastStop := Some (due_at d), ct_phase := Stopped\<rparr>
   | Quiet_due \<Rightarrow> end_counting (due_at d) End_quiet_30 Stopped s
   | Finish_due \<Rightarrow> end_counting (due_at d) End_finished_plus_7 Stopped s)"

text \<open>\<open>later\<close> collects the deadline a trigger sets, if there is one.\<close>

definition later :: "zone \<Rightarrow> work_time option \<Rightarrow> int \<Rightarrow> deadline_event \<Rightarrow> timing_error + due list" where
  "later offset trigger days ev = (case trigger of None \<Rightarrow> Inr []
     | Some t \<Rightarrow> bind_r (stopAt offset t days) (\<lambda>m. Inr [\<lparr>due_at = m, due_stop = True, due_event = ev\<rparr>]))"

definition deadlines :: "zone \<Rightarrow> work_time \<Rightarrow> count_state \<Rightarrow> timing_error + due list" where
  "deadlines offset day31At s = (case ct_phase s of
     Pre \<Rightarrow> bind_r (later offset (ct_finishedAt s) 7 Pre_finish_due) (\<lambda>fin.
       Inr ((if \<not> ct_day31Done s then [\<lparr>due_at = day31At, due_stop = False, due_event = Day31_due\<rparr>] else []) @ fin))
   | Counting \<Rightarrow> bind_r (later offset (ct_anchor s) 30 Quiet_due) (\<lambda>quiet.
       bind_r (later offset (ct_finishedAt s) 7 Finish_due) (\<lambda>fin. Inr (quiet @ fin)))
   | _ \<Rightarrow> Inr [])"

definition due_before :: "due \<Rightarrow> due \<Rightarrow> bool" where
  "due_before a b \<longleftrightarrow> due_at a < due_at b \<or> (due_at a = due_at b \<and> due_stop a \<and> \<not> due_stop b)"

definition deadline :: "zone \<Rightarrow> work_time \<Rightarrow> count_state \<Rightarrow> timing_error + due option" where
  "deadline offset day31At s = bind_r (deadlines offset day31At s) (\<lambda>ds.
     Inr (case sort_by due_before ds of [] \<Rightarrow> None | d # _ \<Rightarrow> Some d))"

definition apply_fact :: "work_event \<Rightarrow> count_state \<Rightarrow> count_state" where
  "apply_fact e s =
     (let t = we_factAt e in
      if we_kind e \<in> {First_site_evidence, Site_activity, Work_resumed} then
        (if ct_phase s = Pre \<and> we_kind e = First_site_evidence then begin_counting t Start_first_site_evidence s
         else if ct_phase s = Counting then s\<lparr>ct_anchor := Some t, ct_finishedAt := None\<rparr>
         else if ct_phase s = Stopped then begin_counting t Start_restart s else s)
      else if we_kind e = Finished_on_site then
        (if ct_phase s = Pre \<or> ct_phase s = Counting then s\<lparr>ct_finishedAt := Some t\<rparr> else s)
      else if we_kind e = Finished_cancelled then s\<lparr>ct_finishedAt := None\<rparr>
      else if we_kind e = Work_closed then (end_counting t End_closed Closed s)\<lparr>ct_finishedAt := None\<rparr>
      else if we_kind e = Work_reopened \<and> ct_phase s = Closed then s\<lparr>ct_phase := Stopped\<rparr> else s)"

text \<open>The instant up to which deadlines are applied: the next fact, the lock or the cut-off.\<close>

definition fixed_at :: "work_time option \<Rightarrow> work_time \<Rightarrow> work_event list \<Rightarrow> work_time" where
  "fixed_at lockAt asOf es = Min (set (asOf # (case lockAt of None \<Rightarrow> [] | Some l \<Rightarrow> [l]) @ map we_factAt (take 1 es)))"

definition count_step ::
  "zone \<Rightarrow> work_time \<Rightarrow> work_time option \<Rightarrow> work_time \<Rightarrow> work_event list \<Rightarrow> count_state \<Rightarrow>
   timing_error + (work_event list \<times> count_state) option" where
  "count_step offset day31At lockAt asOf es s =
     bind_r (deadline offset day31At s) (\<lambda>d. Inr (
       let fixed = fixed_at lockAt asOf es in
       case d of
         Some due \<Rightarrow> if due_at due \<le> fixed then Some (es, apply_due due s)
           else (case es of [] \<Rightarrow> None | e # es' \<Rightarrow> if fixed < we_factAt e then None else Some (es', apply_fact e s))
       | None \<Rightarrow> (case es of [] \<Rightarrow> None | e # es' \<Rightarrow> if fixed < we_factAt e then None else Some (es', apply_fact e s))))"

text \<open>A deadline takes the state down this rank, a fact leaves one fact fewer: the loop ends.\<close>

fun count_rank :: "count_state \<Rightarrow> nat" where
  "count_rank s = (case ct_phase s of Pre \<Rightarrow> if ct_day31Done s then 2 else 3 | Counting \<Rightarrow> 1 | Stopped \<Rightarrow> 0 | Closed \<Rightarrow> 0)"

lemma deadlines_event:
  assumes "deadlines offset day31At s = Inr ds" "d \<in> set ds"
  shows "(due_event d = Day31_due \<longrightarrow> ct_phase s = Pre \<and> \<not> ct_day31Done s \<and> due_at d = day31At) \<and>
    (due_event d = Pre_finish_due \<longrightarrow> ct_phase s = Pre \<and> (\<exists>t. ct_finishedAt s = Some t \<and> stopAt offset t 7 = Inr (due_at d))) \<and>
    (due_event d = Quiet_due \<longrightarrow> ct_phase s = Counting \<and> (\<exists>t. ct_anchor s = Some t \<and> stopAt offset t 30 = Inr (due_at d))) \<and>
    (due_event d = Finish_due \<longrightarrow> ct_phase s = Counting \<and> (\<exists>t. ct_finishedAt s = Some t \<and> stopAt offset t 7 = Inr (due_at d)))"
  using assms by (auto simp: deadlines_def later_def bind_r_Inr_iff split: count_phase.splits option.splits if_splits)

lemma deadline_SomeD: "deadline offset day31At s = Inr (Some d) \<Longrightarrow> \<exists>ds. deadlines offset day31At s = Inr ds \<and> d \<in> set ds"
proof -
  assume "deadline offset day31At s = Inr (Some d)"
  then obtain ds where ds: "deadlines offset day31At s = Inr ds"
    "(case sort_by due_before ds of [] \<Rightarrow> None | d # _ \<Rightarrow> Some d) = Some d"
    by (auto simp: deadline_def bind_r_Inr_iff)
  then have "d \<in> set (sort_by due_before ds)" by (cases "sort_by due_before ds") auto
  with ds(1) show ?thesis by auto
qed

lemma apply_due_rank:
  assumes "deadline offset day31At s = Inr (Some d)"
  shows "count_rank (apply_due d s) < count_rank s"
proof -
  obtain ds where "deadlines offset day31At s = Inr ds" "d \<in> set ds" using deadline_SomeD [OF assms] by blast
  from deadlines_event [OF this] show ?thesis
    by (cases "due_event d") (auto simp: apply_due_def begin_counting_def end_counting_def split: option.splits)
qed

lemma count_step_cases:
  assumes "count_step offset day31At lockAt asOf es s = Inr (Some (es', s'))"
  obtains (due) d where "deadline offset day31At s = Inr (Some d)" "due_at d \<le> fixed_at lockAt asOf es" "es' = es" "s' = apply_due d s"
  | (fact) e where "es = e # es'" "we_factAt e \<le> fixed_at lockAt asOf es" "s' = apply_fact e s"
  using assms by (auto simp: count_step_def bind_r_Inr_iff Let_def not_less split: option.splits if_splits list.splits)

function count_loop ::
  "zone \<Rightarrow> work_time \<Rightarrow> work_time option \<Rightarrow> work_time \<Rightarrow> work_event list \<Rightarrow> count_state \<Rightarrow> timing_error + count_state" where
  "count_loop offset day31At lockAt asOf es s = (case count_step offset day31At lockAt asOf es s of
     Inl e \<Rightarrow> Inl e
   | Inr None \<Rightarrow> Inr s
   | Inr (Some (es', s')) \<Rightarrow> count_loop offset day31At lockAt asOf es' s')"
  by pat_completeness auto
termination
  by (relation "measures [\<lambda>(_, _, _, _, es, _). length es, \<lambda>(_, _, _, _, _, s). count_rank s]")
    (auto elim!: count_step_cases dest: apply_due_rank simp del: count_rank.simps)

declare count_loop.simps [simp del]

definition count_start :: count_state where
  "count_start = \<lparr>ct_phase = Pre, ct_cur = None, ct_anchor = None, ct_finishedAt = None, ct_lastStop = None,
     ct_day31Done = False, ct_out = []\<rparr>"

definition visible_lock :: "meter_input \<Rightarrow> work_time option" where
  "visible_lock i = (case mi_lock i of Some l \<Rightarrow> if ms_at l \<le> mi_asOf i then Some (ms_at l) else None | None \<Rightarrow> None)"

definition visible_facts :: "meter_input \<Rightarrow> work_event list \<Rightarrow> work_event list" where
  "visible_facts i es = filter (\<lambda>e. we_factAt e \<le> mi_asOf i \<and> we_recordedAt e \<le> mi_asOf i \<and>
     (case visible_lock i of None \<Rightarrow> True | Some l \<Rightarrow> we_factAt e < l)) es"

definition finish_count :: "work_time option \<Rightarrow> count_state \<Rightarrow> meter_interval list" where
  "finish_count lockAt s =
     (let s' = (case lockAt of Some l \<Rightarrow> end_counting l End_lock Closed s | None \<Rightarrow> s)
      in ct_out s' @ (case ct_cur s' of Some c \<Rightarrow> [c] | None \<Rightarrow> []))"

definition countIntervals :: "zone \<Rightarrow> meter_input \<Rightarrow> work_event list \<Rightarrow> work_time \<Rightarrow> timing_error + meter_interval list" where
  "countIntervals offset i es day31At =
     bind_r (count_loop offset day31At (visible_lock i) (mi_asOf i) (visible_facts i es) count_start) (\<lambda>s.
     Inr (finish_count (visible_lock i) s))"

section \<open>The invariant of the counting loop\<close>

definition interval_before :: "meter_interval \<Rightarrow> meter_interval \<Rightarrow> bool" where
  "interval_before a b \<longleftrightarrow> (case iv_end a of None \<Rightarrow> False | Some e \<Rightarrow> e < iv_start b)"

text \<open>An ended interval of the period from \<open>lo\<close> to \<open>hi\<close> that ended no later than the last stop.\<close>

definition ended_within :: "work_time \<Rightarrow> work_time \<Rightarrow> work_time option \<Rightarrow> meter_interval \<Rightarrow> bool" where
  "ended_within lo hi stop iv \<longleftrightarrow> lo \<le> iv_start iv \<and>
     (case (iv_end iv, stop) of (Some e, Some l) \<Rightarrow> iv_start iv < e \<and> e \<le> l \<and> e \<le> hi | _ \<Rightarrow> False)"

definition running :: "work_time \<Rightarrow> work_time \<Rightarrow> work_time option \<Rightarrow> meter_interval \<Rightarrow> bool" where
  "running lo hi stop c \<longleftrightarrow> iv_end c = None \<and> lo \<le> iv_start c \<and> iv_start c \<le> hi \<and> pred_option (\<lambda>l. l < iv_start c) stop"

definition count_inv :: "work_time \<Rightarrow> work_time \<Rightarrow> count_state \<Rightarrow> bool" where
  "count_inv lo hi s \<longleftrightarrow> sorted_wrt interval_before (ct_out s) \<and> (\<forall>iv\<in>set (ct_out s). ended_within lo hi (ct_lastStop s) iv) \<and>
     pred_option (\<lambda>l. l \<le> hi) (ct_lastStop s) \<and> (ct_phase s = Counting \<longleftrightarrow> ct_cur s \<noteq> None) \<and>
     pred_option (running lo hi (ct_lastStop s)) (ct_cur s) \<and> (ct_phase s = Counting \<longrightarrow> ct_anchor s \<noteq> None) \<and>
     (ct_phase s = Pre \<longrightarrow> ct_out s = [] \<and> ct_lastStop s = None) \<and>
     pred_option (\<lambda>t. lo \<le> t \<and> t \<le> hi) (ct_anchor s) \<and> pred_option (\<lambda>t. lo \<le> t \<and> t \<le> hi) (ct_finishedAt s)"

lemma count_start_inv: "count_inv lo hi count_start"
  by (simp add: count_inv_def count_start_def)

lemma begin_counting_inv:
  "count_inv lo hi s \<Longrightarrow> lo \<le> t \<Longrightarrow> t \<le> hi \<Longrightarrow> count_inv lo hi (begin_counting t cause s)"
  by (auto simp: count_inv_def begin_counting_def running_def split: option.splits)

lemma ended_within_later:
  "ended_within lo hi stop iv \<Longrightarrow> pred_option (\<lambda>l. l \<le> m) stop \<Longrightarrow> ended_within lo hi (Some m) iv"
  by (auto simp: ended_within_def split: option.splits)

lemma ended_withinD:
  "ended_within lo hi stop iv \<Longrightarrow> \<exists>e. iv_end iv = Some e \<and> lo \<le> iv_start iv \<and> iv_start iv < e \<and> e \<le> hi \<and> iv_start iv \<le> hi"
  by (auto simp: ended_within_def split: option.splits)

lemma ended_before_running:
  "ended_within lo hi stop iv \<Longrightarrow> running lo hi stop c \<Longrightarrow> iv_start d = iv_start c \<Longrightarrow> interval_before iv d"
  by (auto simp: ended_within_def running_def interval_before_def split: option.splits)

lemma end_counting_inv:
  assumes inv: "count_inv lo hi s" and t: "t \<le> hi" and "next \<noteq> Counting" "next \<noteq> Pre"
  shows "count_inv lo hi (end_counting t cause next s)"
proof -
  let ?latest = "case ct_lastStop s of Some l \<Rightarrow> if l > t then Some l else Some t | None \<Rightarrow> Some t"
  have latest: "pred_option (\<lambda>l. l \<le> hi) ?latest" "\<exists>m. ?latest = Some m \<and> t \<le> m \<and> pred_option (\<lambda>l. l \<le> m) (ct_lastStop s)"
    using inv t by (auto simp: count_inv_def split: option.splits)
  have old: "ended_within lo hi ?latest iv" if "iv \<in> set (ct_out s)" for iv
    using inv latest(2) that ended_within_later by (auto simp: count_inv_def)
  show ?thesis
  proof (cases "ct_cur s")
    case None
    with inv latest old assms(3,4) show ?thesis by (simp add: count_inv_def end_counting_def)
  next
    case (Some c)
    then have c: "running lo hi (ct_lastStop s) c" using inv by (simp add: count_inv_def)
    let ?new = "c\<lparr>iv_end := Some t, iv_endCause := Some cause\<rparr>"
    have new: "ended_within lo hi ?latest ?new" if "iv_start c < t"
      using c that latest(2) t by (auto simp: ended_within_def running_def)
    have "interval_before iv ?new" if "iv \<in> set (ct_out s)" for iv
      using inv c that ended_before_running [of lo hi "ct_lastStop s" iv c ?new] by (simp add: count_inv_def)
    with Some inv latest old new assms(3,4) show ?thesis
      by (auto simp: count_inv_def end_counting_def sorted_wrt_append)
  qed
qed

lemma apply_fact_inv:
  assumes "count_inv lo hi s" "lo \<le> we_factAt e" "we_factAt e \<le> hi"
  shows "count_inv lo hi (apply_fact e s)"
proof -
  have closed: "count_inv lo hi ((end_counting (we_factAt e) End_closed Closed s)\<lparr>ct_finishedAt := None\<rparr>)"
    using end_counting_inv [OF assms(1,3), of Closed End_closed] by (simp add: count_inv_def)
  show ?thesis
    using assms closed begin_counting_inv [OF assms]
    by (cases "we_kind e") (auto simp: apply_fact_def Let_def count_inv_def)
qed

lemma apply_due_inv:
  assumes "count_inv lo hi s" "due_at d \<le> hi" "lo \<le> day31At" "deadline offset day31At s = Inr (Some d)"
  shows "count_inv lo hi (apply_due d s)"
proof -
  obtain ds where "deadlines offset day31At s = Inr ds" "d \<in> set ds" using deadline_SomeD [OF assms(4)] by blast
  note E = deadlines_event [OF this]
  have marked: "count_inv lo hi (s\<lparr>ct_day31Done := True\<rparr>)" using assms(1) by (simp add: count_inv_def)
  show ?thesis
  proof (cases "due_event d")
    case Day31_due
    with E assms(2,3) begin_counting_inv [OF marked] show ?thesis by (simp add: apply_due_def)
  next
    case Pre_finish_due
    with E assms(1,2) show ?thesis by (auto simp: count_inv_def apply_due_def)
  next
    case Quiet_due
    then show ?thesis using end_counting_inv [OF assms(1,2)] by (simp add: apply_due_def)
  next
    case Finish_due
    then show ?thesis using end_counting_inv [OF assms(1,2)] by (simp add: apply_due_def)
  qed
qed

lemma fixed_at_le: "fixed_at lockAt asOf es \<le> asOf \<and> pred_option (\<lambda>l. fixed_at lockAt asOf es \<le> l) lockAt"
  by (cases lockAt) (auto simp: fixed_at_def intro: Min_le min.coboundedI2)

definition horizon :: "work_time option \<Rightarrow> work_time \<Rightarrow> work_time" where
  "horizon lockAt asOf = (case lockAt of None \<Rightarrow> asOf | Some l \<Rightarrow> min l asOf)"

lemma fixed_at_horizon: "fixed_at lockAt asOf es \<le> horizon lockAt asOf"
  using fixed_at_le [of lockAt asOf es] by (auto simp: horizon_def split: option.splits)

lemma count_step_inv:
  assumes "count_step offset day31At lockAt asOf es s = Inr (Some (es', s'))"
    and "count_inv lo (horizon lockAt asOf) s" "lo \<le> day31At" "\<forall>e\<in>set es. lo \<le> we_factAt e"
  shows "count_inv lo (horizon lockAt asOf) s' \<and> (\<forall>e\<in>set es'. lo \<le> we_factAt e)"
  using assms(1)
proof (cases rule: count_step_cases)
  case (due d)
  then have "due_at d \<le> horizon lockAt asOf" using fixed_at_horizon order_trans by blast
  with due assms apply_due_inv show ?thesis by blast
next
  case (fact e)
  then have "we_factAt e \<le> horizon lockAt asOf" using fixed_at_horizon order_trans by blast
  with fact assms apply_fact_inv show ?thesis by simp
qed

lemma count_loop_inv:
  assumes "count_loop offset day31At lockAt asOf es s = Inr t"
    and "count_inv lo (horizon lockAt asOf) s" "lo \<le> day31At" "\<forall>e\<in>set es. lo \<le> we_factAt e"
  shows "count_inv lo (horizon lockAt asOf) t"
  using assms
proof (induction offset day31At lockAt asOf es s rule: count_loop.induct)
  case (1 offset day31At lockAt asOf es s)
  from "1.prems"(1) consider "count_step offset day31At lockAt asOf es s = Inr None" "t = s"
    | es' s' where "count_step offset day31At lockAt asOf es s = Inr (Some (es', s'))" "count_loop offset day31At lockAt asOf es' s' = Inr t"
    by (auto simp: count_loop.simps [of offset day31At lockAt asOf es s] split: sum.splits option.splits)
  then show ?case
  proof cases
    case 2
    from count_step_inv [OF 2(1) "1.prems"(2-4)] "1.IH" 2 "1.prems"(3) show ?thesis by blast
  qed (use "1.prems"(2) in simp)
qed

text \<open>Away from the end of the calendar every deadline can be computed, so the loop returns.\<close>

definition SAFE_TIME :: work_time where
  "SAFE_TIME = (2932896 - 40) * 86400 * 1000000"

lemma stopAt_defined:
  assumes "zone_bounded offset" "dated_time t" "t \<le> SAFE_TIME" "0 \<le> days" "days \<le> 30"
  shows "\<exists>m. stopAt offset t days = Inr m"
proof -
  let ?raw = "(second_of t + offset (second_of t)) div 86400"
  have off: "\<bar>offset (second_of t)\<bar> < 86400" using assms(1) by (simp add: zone_bounded_def)
  have "- 719162 * 86400 \<le> second_of t" "second_of t \<le> (2932896 - 40) * 86400"
    using assms(2,3) by (auto simp: dated_time_def SAFE_TIME_def second_of_def)
  with off have "- 719163 * 86400 \<le> second_of t + offset (second_of t)" "second_of t + offset (second_of t) < (2932896 - 39) * 86400" by auto
  then have raw: "- 719163 \<le> ?raw" "?raw \<le> 2932896 - 40" by auto
  then have "londonWorkDateV1 (shown_date ?raw)" "shown_date ?raw + 30 \<le> 2932896" "- 719162 \<le> shown_date ?raw"
    by (auto simp: londonWorkDateV1_def shown_date_def)
  with assms(2,4,5) show ?thesis
    by (auto simp: stopAt_def londonWorkDate_def Let_def addWorkCalendarDays_def londonMidnight_def MAX_SAFE_def londonWorkDateV1_def)
qed

lemma deadline_defined:
  assumes "zone_bounded offset" "count_inv lo hi s" "- 719162 * 86400 * 1000000 \<le> lo" "hi \<le> SAFE_TIME"
  shows "\<exists>d. deadline offset day31At s = Inr d"
proof -
  have origin: "dated_time t \<and> t \<le> SAFE_TIME" if "lo \<le> t" "t \<le> hi" for t
    using that assms(3,4) by (auto simp: dated_time_def workFactTimeV1_def SAFE_TIME_def MIN_WORK_TIME_def MAX_WORK_TIME_def)
  have l: "\<exists>ds. later offset trigger days ev = Inr ds" if t: "pred_option (\<lambda>t. lo \<le> t \<and> t \<le> hi) trigger" and d: "0 \<le> days" "days \<le> 30"
    for trigger days ev
  proof (cases trigger)
    case (Some a)
    with t origin obtain m where "stopAt offset a days = Inr m"
      using stopAt_defined [OF assms(1) _ _ d, of a] by auto
    with Some show ?thesis by (simp add: later_def)
  qed (simp add: later_def)
  have o: "pred_option (\<lambda>t. lo \<le> t \<and> t \<le> hi) (ct_anchor s)" "pred_option (\<lambda>t. lo \<le> t \<and> t \<le> hi) (ct_finishedAt s)"
    using assms(2) by (simp_all add: count_inv_def)
  obtain a where "later offset (ct_anchor s) 30 Quiet_due = Inr a" using l [OF o(1)] by fastforce
  moreover obtain b where "later offset (ct_finishedAt s) 7 Finish_due = Inr b" using l [OF o(2)] by fastforce
  moreover obtain c where "later offset (ct_finishedAt s) 7 Pre_finish_due = Inr c" using l [OF o(2)] by fastforce
  ultimately have "\<exists>ds. deadlines offset day31At s = Inr ds" by (cases "ct_phase s") (auto simp: deadlines_def)
  then show ?thesis by (auto simp: deadline_def)
qed

lemma count_loop_returns:
  assumes "zone_bounded offset" "count_inv lo (horizon lockAt asOf) s" "lo \<le> day31At" "\<forall>e\<in>set es. lo \<le> we_factAt e"
    and "- 719162 * 86400 * 1000000 \<le> lo" "asOf \<le> SAFE_TIME"
  shows "\<exists>t. count_loop offset day31At lockAt asOf es s = Inr t"
  using assms
proof (induction offset day31At lockAt asOf es s rule: count_loop.induct)
  case (1 offset day31At lockAt asOf es s)
  have "horizon lockAt asOf \<le> SAFE_TIME" using "1.prems"(6) by (auto simp: horizon_def split: option.splits)
  then obtain d where "deadline offset day31At s = Inr d" using deadline_defined "1.prems"(1,2,5) by blast
  then obtain r where r: "count_step offset day31At lockAt asOf es s = Inr r" by (simp add: count_step_def)
  show ?case
  proof (cases r)
    case None
    with r show ?thesis by (simp add: count_loop.simps [of offset day31At lockAt asOf es s])
  next
    case (Some p)
    then obtain es' s' where p: "r = Some (es', s')" by (cases p) auto
    with r have st: "count_step offset day31At lockAt asOf es s = Inr (Some (es', s'))" by simp
    from count_step_inv [OF st "1.prems"(2-4)] have "\<exists>t. count_loop offset day31At lockAt asOf es' s' = Inr t"
      using "1.IH" [OF r p refl] "1.prems" by blast
    with st show ?thesis by (simp add: count_loop.simps [of offset day31At lockAt asOf es s])
  qed
qed

lemma finish_count_sound:
  assumes inv: "count_inv lo (horizon lockAt asOf) s" and lock: "pred_option (\<lambda>l. l \<le> asOf) lockAt"
  shows "sorted_wrt interval_before (finish_count lockAt s) \<and>
    (\<forall>iv\<in>set (finish_count lockAt s). lo \<le> iv_start iv \<and> iv_start iv \<le> horizon lockAt asOf \<and>
      (case iv_end iv of None \<Rightarrow> lockAt = None | Some e \<Rightarrow> iv_start iv < e \<and> e \<le> horizon lockAt asOf))"
proof -
  define s' where "s' = (case lockAt of Some l \<Rightarrow> end_counting l End_lock Closed s | None \<Rightarrow> s)"
  have "count_inv lo (horizon lockAt asOf) s'"
  proof (cases lockAt)
    case (Some l)
    then have "l \<le> horizon lockAt asOf" using lock by (simp add: horizon_def)
    with Some end_counting_inv [OF inv, of l Closed End_lock] show ?thesis by (simp add: s'_def)
  qed (use inv in \<open>simp add: s'_def\<close>)
  moreover have "lockAt \<noteq> None \<longrightarrow> ct_cur s' = None" by (auto simp: s'_def end_counting_def)
  ultimately have s': "count_inv lo (horizon lockAt asOf) s'" "lockAt \<noteq> None \<longrightarrow> ct_cur s' = None" by blast+
  have out: "finish_count lockAt s = ct_out s' @ (case ct_cur s' of Some c \<Rightarrow> [c] | None \<Rightarrow> [])"
    by (simp add: finish_count_def s'_def Let_def)
  show ?thesis
  proof (cases "ct_cur s'")
    case None
    with s'(1) show ?thesis by (fastforce simp: out count_inv_def dest!: ended_withinD)
  next
    case (Some c)
    with s' have c: "running lo (horizon lockAt asOf) (ct_lastStop s') c" "lockAt = None" by (auto simp: count_inv_def)
    have "interval_before iv c" if "iv \<in> set (ct_out s')" for iv
      using s'(1) that ended_before_running [OF _ c(1) refl] by (simp add: count_inv_def)
    moreover have "sorted_wrt interval_before (ct_out s')" using s'(1) by (simp add: count_inv_def)
    ultimately have "sorted_wrt interval_before (finish_count lockAt s)" by (simp add: out Some sorted_wrt_append)
    moreover have "\<exists>e. iv_end iv = Some e \<and> lo \<le> iv_start iv \<and> iv_start iv < e \<and> e \<le> horizon lockAt asOf \<and>
        iv_start iv \<le> horizon lockAt asOf" if "iv \<in> set (ct_out s')" for iv
      using s'(1) that unfolding count_inv_def by (blast dest: ended_withinD)
    then have "\<forall>iv\<in>set (ct_out s'). lo \<le> iv_start iv \<and> iv_start iv \<le> horizon lockAt asOf \<and>
        (case iv_end iv of None \<Rightarrow> lockAt = None | Some e \<Rightarrow> iv_start iv < e \<and> e \<le> horizon lockAt asOf)" by fastforce
    moreover have "set (finish_count lockAt s) = insert c (set (ct_out s'))" by (simp add: out Some)
    ultimately show ?thesis using c by (auto simp: running_def)
  qed
qed

section \<open>The timeline of a job\<close>

text \<open>The London dates an interval touches; a stop exactly at London midnight does not touch the new day.\<close>

definition touchedDates :: "zone \<Rightarrow> meter_interval \<Rightarrow> work_time \<Rightarrow> timing_error + (work_date \<times> work_date)" where
  "touchedDates offset iv asOf =
     bind_r (londonWorkDate offset (iv_start iv)) (\<lambda>first.
     bind_r (londonWorkDate offset (case iv_end iv of Some e \<Rightarrow> e | None \<Rightarrow> asOf)) (\<lambda>endDate.
     (case iv_end iv of None \<Rightarrow> Inr (first, endDate)
      | Some e \<Rightarrow> bind_r (londonMidnight offset endDate) (\<lambda>m.
          if m = e then bind_r (addWorkCalendarDays endDate (- 1)) (\<lambda>d. Inr (first, d)) else Inr (first, endDate)))))"

text \<open>The causes of a boundary, in the order of their texts, by which ties are broken.\<close>

datatype boundary_cause = Bound_closed | Bound_day31 | Bound_first_site_evidence | Bound_lock

fun cause_rank :: "boundary_cause \<Rightarrow> nat" where
  "cause_rank Bound_closed = 0"
| "cause_rank Bound_day31 = 1"
| "cause_rank Bound_first_site_evidence = 2"
| "cause_rank Bound_lock = 3"

lemma cause_rank_inject [simp]: "cause_rank a = cause_rank b \<longleftrightarrow> a = b"
  by (cases a; cases b) simp_all

instantiation boundary_cause :: linorder
begin

definition less_eq_boundary_cause :: "boundary_cause \<Rightarrow> boundary_cause \<Rightarrow> bool" where
  "less_eq_boundary_cause a b \<longleftrightarrow> cause_rank a \<le> cause_rank b"

definition less_boundary_cause :: "boundary_cause \<Rightarrow> boundary_cause \<Rightarrow> bool" where
  "less_boundary_cause a b \<longleftrightarrow> cause_rank a < cause_rank b"

instance by standard (auto simp: less_eq_boundary_cause_def less_boundary_cause_def dest: antisym)

end

record boundary =
  bd_at :: work_time
  bd_cause :: boundary_cause
  bd_sourceIds :: "string list"

definition boundary_before :: "boundary \<Rightarrow> boundary \<Rightarrow> bool" where
  "boundary_before a b \<longleftrightarrow> bd_at a < bd_at b \<or> (bd_at a = bd_at b \<and> bd_cause a < bd_cause b)"

definition earliest :: "boundary list \<Rightarrow> boundary option" where
  "earliest values = (case sort_by boundary_before values of [] \<Rightarrow> None
     | first # _ \<Rightarrow> Some (first\<lparr>bd_sourceIds :=
         sort (remdups (concat (map bd_sourceIds (filter (\<lambda>v. bd_at v = bd_at first) (sort_by boundary_before values)))))\<rparr>))"

datatype source_ref =
    Ref_activation string work_time
  | Ref_terms string int
  | Ref_party_binding string
  | Ref_fact work_fact_kind string work_time work_time
  | Ref_lock meter_source
  | Ref_trip meter_source

datatype commitment = Candidate "string list" | Stopped_candidate "string list"

record timeline =
  tl_tenantId :: string
  tl_jobId :: string
  tl_sourceRevision :: int
  tl_clock :: meter_clock
  tl_asOf :: work_time
  tl_holds :: "string list"
  tl_start :: "boundary option"
  tl_stop :: "boundary option"
  tl_day31Candidate :: day31_candidate
  tl_events :: "work_event list"
  tl_sourceRefs :: "source_ref list"
  tl_commitment :: commitment
  tl_intervals :: "meter_interval list"

definition known_facts :: "meter_input \<Rightarrow> work_event list \<Rightarrow> work_event list" where
  "known_facts i es = filter (\<lambda>e. we_factAt e \<le> mi_asOf i \<and> we_recordedAt e \<le> mi_asOf i) es"

definition stop_boundaries :: "meter_input \<Rightarrow> work_event list \<Rightarrow> boundary list" where
  "stop_boundaries i visible =
     map (\<lambda>e. \<lparr>bd_at = we_factAt e, bd_cause = Bound_closed, bd_sourceIds = [we_id e]\<rparr>) (filter (\<lambda>e. we_kind e = Work_closed) visible) @
     (case mi_lock i of Some l \<Rightarrow> if ms_at l \<le> mi_asOf i then [\<lparr>bd_at = ms_at l, bd_cause = Bound_lock, bd_sourceIds = [ms_id l]\<rparr>] else []
      | None \<Rightarrow> [])"

definition before_stop :: "boundary option \<Rightarrow> work_time \<Rightarrow> bool" where
  "before_stop stop t = (case stop of None \<Rightarrow> True | Some b \<Rightarrow> t < bd_at b)"

definition start_boundaries :: "meter_input \<Rightarrow> work_event list \<Rightarrow> boundary option \<Rightarrow> day31_candidate \<Rightarrow> boundary list" where
  "start_boundaries i visible stop candidate =
     map (\<lambda>e. \<lparr>bd_at = we_factAt e, bd_cause = Bound_first_site_evidence, bd_sourceIds = [we_id e]\<rparr>)
       (filter (\<lambda>e. we_kind e = First_site_evidence \<and> before_stop stop (we_factAt e)) visible) @
     (if d31_at candidate \<le> mi_asOf i \<and> before_stop stop (d31_at candidate)
      then [\<lparr>bd_at = d31_at candidate, bd_cause = Bound_day31, bd_sourceIds = [ma_id (mi_activation i)]\<rparr>] else [])"

definition holds_of :: "meter_input \<Rightarrow> work_event list \<Rightarrow> string list" where
  "holds_of i visible = sort (
     (if mi_clock i = Clock_approved then [] else [''H-METER-CLOCK'']) @
     (case mi_lock i of None \<Rightarrow> [] | Some l \<Rightarrow>
        if list_ex (\<lambda>e. we_kind e \<in> set [Site_activity, First_site_evidence, Work_resumed, Work_reopened] \<and> we_factAt e \<ge> ms_at l) visible
        then [''POST_LOCK_WORK_REQUIRES_LINKED_JOB''] else []) @
     (if mi_clock i \<noteq> Clock_approved \<and> list_ex (\<lambda>e. we_kind e \<in> set [Work_reopened, Work_resumed, Finished_cancelled]) visible
      then [''H-CH4''] else []))"

definition source_refs :: "meter_input \<Rightarrow> work_event list \<Rightarrow> source_ref list" where
  "source_refs i es =
     [Ref_activation (ma_id (mi_activation i)) (ma_at (mi_activation i)),
      Ref_terms (ma_termsId (mi_activation i)) (ma_termsRevision (mi_activation i)),
      Ref_party_binding (ma_partyBindingId (mi_activation i))] @
     map (\<lambda>e. Ref_fact (we_kind e) (we_id e) (we_factAt e) (we_recordedAt e)) es @
     (case mi_lock i of Some l \<Rightarrow> [Ref_lock l] | None \<Rightarrow> []) @ (case mi_trip i of Some t \<Rightarrow> [Ref_trip t] | None \<Rightarrow> [])"

definition timeline_of :: "meter_input \<Rightarrow> work_event list \<Rightarrow> day31_candidate \<Rightarrow> meter_interval list \<Rightarrow> timeline" where
  "timeline_of i es candidate intervals =
     (let visible = known_facts i es; stop = earliest (stop_boundaries i visible)
      in \<lparr>tl_tenantId = mi_tenantId i, tl_jobId = mi_jobId i, tl_sourceRevision = mi_sourceRevision i, tl_clock = mi_clock i,
           tl_asOf = mi_asOf i, tl_holds = holds_of i visible, tl_start = earliest (start_boundaries i visible stop candidate),
           tl_stop = stop, tl_day31Candidate = candidate, tl_events = es, tl_sourceRefs = source_refs i es,
           tl_commitment = (case stop of Some b \<Rightarrow> Stopped_candidate (bd_sourceIds b) | None \<Rightarrow> Candidate [ma_id (mi_activation i)]),
           tl_intervals = intervals\<rparr>)"

definition project :: "zone \<Rightarrow> meter_input \<Rightarrow> lifecycle_error + timeline" where
  "project offset i =
     bind_r (map_err (\<lambda>e. Lifecycle_facts (Work_state e)) (orderWorkFacts (map Some (mi_events i)))) (\<lambda>es.
     bind_r (map_err Lifecycle_facts (projectWorkFacts (map Some es)
       (map_option (\<lambda>l. \<lparr>wl_id = ms_id l, wl_lockedAt = ms_at l\<rparr>) (mi_lock i)))) (\<lambda>_.
     bind_r (map_err Lifecycle_meter (meterDay31Candidate offset (ma_at (mi_activation i)))) (\<lambda>candidate.
     bind_r (if mi_clock i = Clock_approved then map_err Lifecycle_timing (countIntervals offset i es (d31_at candidate)) else Inr [])
       (\<lambda>intervals. Inr (timeline_of i es candidate intervals)))))"

definition projectMeterJobTimeline :: "zone \<Rightarrow> meter_input option \<Rightarrow> lifecycle_error + timeline" where
  "projectMeterJobTimeline offset raw = (case raw of None \<Rightarrow> Inl INVALID_METER_LIFECYCLE_INPUT
     | Some i \<Rightarrow> if meterLifecycleInputV1 i then project offset i else Inl INVALID_METER_LIFECYCLE_INPUT)"

section \<open>Places counted on each London date\<close>

record days_input =
  di_plan :: meter_plan
  di_jobs :: "meter_input list"

definition daysInput :: "days_input \<Rightarrow> bool" where
  "daysInput d \<longleftrightarrow> list_all meterLifecycleInputV1 (di_jobs d) \<and> (case di_jobs d of [] \<Rightarrow> False | first # _ \<Rightarrow>
     \<not> (length (remdups (map mi_jobId (di_jobs d))) \<noteq> length (di_jobs d) \<or>
        list_ex (\<lambda>j. mi_tenantId j \<noteq> mi_tenantId first \<or> mi_startDate j \<noteq> mi_startDate first \<or>
          mi_endDateExclusive j \<noteq> mi_endDateExclusive first \<or> mi_asOf j \<noteq> mi_asOf first) (di_jobs d)))"

definition parse_days :: "meter_clock \<Rightarrow> days_input option \<Rightarrow> lifecycle_error + days_input" where
  "parse_days clock raw = (case raw of None \<Rightarrow> Inl INVALID_METER_LIFECYCLE_INPUT
     | Some d \<Rightarrow> if \<not> daysInput d \<or> list_ex (\<lambda>j. mi_clock j \<noteq> clock) (di_jobs d) then Inl INVALID_METER_LIFECYCLE_INPUT else Inr d)"

definition by_job_id :: "meter_input list \<Rightarrow> meter_input list" where
  "by_job_id jobs = sort_by (\<lambda>a b. mi_jobId a < mi_jobId b) jobs"

text \<open>
  A job on a date: it stops being small on the London date of its trip. Both loops over the dates of
  the range run over the days from the start to the day before the exclusive end: every date after the
  first is at most that end, which the schema bounds, so the increment cannot leave the calendar.
\<close>

definition classify_on :: "zone \<Rightarrow> work_date \<Rightarrow> meter_input \<Rightarrow> meter_error + supplied_job" where
  "classify_on offset date i =
     bind_r (if ma_small (mi_activation i) then (case mi_trip i of None \<Rightarrow> Inr True
         | Some t \<Rightarrow> if ms_at t \<le> mi_asOf i then bind_r (londonMeterDate offset (ms_at t)) (\<lambda>d. Inr (\<not> d \<le> date)) else Inr True)
       else Inr False) (\<lambda>small.
     Inr \<lparr>sj_tenantId = mi_tenantId i, sj_jobId = mi_jobId i, sj_customerId = ma_customerId (mi_activation i),
       sj_siteId = ma_siteId (mi_activation i), sj_small = small\<rparr>)"

definition range_of :: "meter_input list \<Rightarrow> work_date list" where
  "range_of jobs = [mi_startDate (hd jobs)..mi_endDateExclusive (hd jobs) - 1]"

record held_day =
  hd_date :: work_date
  hd_classifications :: "supplied_job list"
  hd_candidatePlaces :: "supplied_place list"

record 'd lifecycle_days =
  ld_plan :: meter_plan
  ld_tenantId :: string
  ld_startDate :: work_date
  ld_endDateExclusive :: work_date
  ld_asOf :: work_time
  ld_timelines :: "timeline list"
  ld_days :: "'d list"

definition days_result :: "days_input \<Rightarrow> timeline list \<Rightarrow> 'd list \<Rightarrow> 'd lifecycle_days" where
  "days_result d timelines days = (let first = hd (by_job_id (di_jobs d)) in
     \<lparr>ld_plan = di_plan d, ld_tenantId = mi_tenantId first, ld_startDate = mi_startDate first,
       ld_endDateExclusive = mi_endDateExclusive first, ld_asOf = mi_asOf first, ld_timelines = timelines, ld_days = days\<rparr>)"

definition project_day :: "zone \<Rightarrow> meter_input list \<Rightarrow> work_date \<Rightarrow> meter_error + held_day" where
  "project_day offset jobs date =
     bind_r (map_r (classify_on offset date) jobs) (\<lambda>cs. bind_r (groupSuppliedMeterPlaces date cs) (\<lambda>places.
     Inr \<lparr>hd_date = date, hd_classifications = cs, hd_candidatePlaces = places\<rparr>))"

definition projectMeterDays :: "zone \<Rightarrow> days_input option \<Rightarrow> lifecycle_error + held_day lifecycle_days" where
  "projectMeterDays offset raw = bind_r (parse_days Clock_held raw) (\<lambda>d. let jobs = by_job_id (di_jobs d) in
     bind_r (map_r (project offset) jobs) (\<lambda>timelines.
     bind_r (map_err Lifecycle_meter (map_r (project_day offset jobs) (range_of jobs))) (\<lambda>days. Inr (days_result d timelines days))))"

record counted_day =
  cd_date :: work_date
  cd_places :: "supplied_place list"
  cd_rawPlaces :: int
  cd_freeSmallPlaces :: int
  cd_countedPlaces :: int

type_synonym touched = "(work_date \<times> work_date) list"

definition touches :: "work_date \<Rightarrow> touched \<Rightarrow> bool" where
  "touches date ds \<longleftrightarrow> list_ex (\<lambda>(a, b). a \<le> date \<and> date \<le> b) ds"

definition touched_by :: "zone \<Rightarrow> work_time \<Rightarrow> timeline \<Rightarrow> timing_error + touched" where
  "touched_by offset asOf t = map_r (\<lambda>iv. touchedDates offset iv asOf) (tl_intervals t)"

definition counting_on :: "work_date \<Rightarrow> meter_input list \<Rightarrow> touched list \<Rightarrow> meter_input list" where
  "counting_on date jobs touched = map fst (filter (\<lambda>(job, ds). touches date ds) (zip jobs touched))"

definition count_day :: "zone \<Rightarrow> meter_plan \<Rightarrow> meter_input list \<Rightarrow> touched list \<Rightarrow> work_date \<Rightarrow> meter_error + counted_day" where
  "count_day offset plan jobs touched date =
     bind_r (map_r (classify_on offset date) (counting_on date jobs touched)) (\<lambda>cs.
     bind_r (groupSuppliedMeterPlaces date cs) (\<lambda>places.
     bind_r (computeSmallPlaceAllowance plan (int (length places)) (int (length (filter sp_small places)))) (\<lambda>a.
     Inr \<lparr>cd_date = date, cd_places = places, cd_rawPlaces = al_rawPlaces a, cd_freeSmallPlaces = al_freeSmallPlaces a,
       cd_countedPlaces = al_countedPlaces a\<rparr>)))"

definition countMeterDays :: "zone \<Rightarrow> days_input option \<Rightarrow> lifecycle_error + counted_day lifecycle_days" where
  "countMeterDays offset raw = bind_r (parse_days Clock_approved raw) (\<lambda>d. let jobs = by_job_id (di_jobs d) in
     bind_r (map_r (project offset) jobs) (\<lambda>timelines.
     bind_r (map_err Lifecycle_timing (map_r (touched_by offset (mi_asOf (hd jobs))) timelines)) (\<lambda>touched.
     bind_r (map_err Lifecycle_meter (map_r (count_day offset (di_plan d) jobs touched) (range_of jobs))) (\<lambda>days.
     Inr (days_result d timelines days)))))"

section \<open>The intervals of a timeline\<close>

lemma day31_defined:
  assumes "zone_bounded offset" "dated_time t" "t \<le> SAFE_TIME"
  shows "\<exists>c. meterDay31Candidate offset t = Inr c \<and> t < d31_at c"
proof -
  obtain m where "stopAt offset t 30 = Inr m" using stopAt_defined [OF assms, of 30] by auto
  then obtain d d' where d: "londonWorkDate offset t = Inr d" "addWorkCalendarDays d 30 = Inr d'" "londonMidnight offset d' = Inr m"
    by (auto simp: stopAt_def bind_r_Inr_iff)
  have m: "t < m" using midnight_ahead [OF d assms(1)] by simp
  have "londonWorkDateV1 d'" "m = (d' * 86400 - offset (d' * 86400)) * 1000000" "d' = d + 30"
    using d(2,3) by (auto simp: addWorkCalendarDays_def londonMidnight_def split: if_splits)
  moreover have "\<bar>offset (d' * 86400)\<bar> < 86400" using assms(1) by (simp add: zone_bounded_def)
  ultimately have "m \<le> (2932896 * 86400 + 86400 - 1) * 1000000" by (simp add: londonWorkDateV1_def abs_less_iff)
  with m assms(2) have "dated_time m" by (auto simp: dated_time_def workFactTimeV1_def MAX_WORK_TIME_def)
  with d m assms(2) \<open>londonWorkDateV1 d'\<close> show ?thesis
    by (simp add: meterDay31Candidate_def workDay31Candidate_def as_meter_def Let_def workDay31CandidateV1_def dated_time_def)
qed

lemma countIntervals_sound:
  assumes "zone_bounded offset" "- 719162 * 86400 * 1000000 \<le> lo" "lo \<le> day31At" "\<forall>e\<in>set es. lo \<le> we_factAt e"
    and "mi_asOf i \<le> SAFE_TIME"
  shows "\<exists>ivs. countIntervals offset i es day31At = Inr ivs \<and> sorted_wrt interval_before ivs \<and>
    (\<forall>iv\<in>set ivs. lo \<le> iv_start iv \<and> iv_start iv \<le> horizon (visible_lock i) (mi_asOf i) \<and>
      (case iv_end iv of None \<Rightarrow> visible_lock i = None
       | Some e \<Rightarrow> iv_start iv < e \<and> e \<le> horizon (visible_lock i) (mi_asOf i)))"
proof -
  have facts: "\<forall>e\<in>set (visible_facts i es). lo \<le> we_factAt e" using assms(4) by (simp add: visible_facts_def)
  note start = count_start_inv [of lo "horizon (visible_lock i) (mi_asOf i)"]
  obtain s where s: "count_loop offset day31At (visible_lock i) (mi_asOf i) (visible_facts i es) count_start = Inr s"
    using count_loop_returns [OF assms(1) start assms(3) facts assms(2,5)] by blast
  have "pred_option (\<lambda>l. l \<le> mi_asOf i) (visible_lock i)" by (auto simp: visible_lock_def split: option.splits)
  with finish_count_sound [OF count_loop_inv [OF s start assms(3) facts]] s show ?thesis by (simp add: countIntervals_def)
qed

text \<open>
  C7. The timeline of a job whose clock is approved always exists when the recorded facts are
  consistent, and its counting intervals are sound: they lie strictly one after the other; none starts
  before the activation or after the cut-off or the lock; every ended interval is a proper one and
  ends by the cut-off and by the lock; and an interval is open only if no lock is in sight. So a
  locked job never counts past its lock, and no instant is counted twice.
\<close>

theorem meter_timeline_sound:
  assumes "zone_bounded offset" and "meterLifecycleInputV1 i" and "mi_clock i = Clock_approved" and "mi_asOf i \<le> SAFE_TIME"
    and "projectWorkFacts (map Some (mi_events i)) (map_option (\<lambda>l. \<lparr>wl_id = ms_id l, wl_lockedAt = ms_at l\<rparr>) (mi_lock i)) = Inr p"
  shows "\<exists>t. projectMeterJobTimeline offset (Some i) = Inr t \<and> tl_events t = wp_events p \<and>
    sorted_wrt interval_before (tl_intervals t) \<and>
    (\<forall>iv\<in>set (tl_intervals t). ma_at (mi_activation i) \<le> iv_start iv \<and> iv_start iv \<le> mi_asOf i \<and>
      (\<forall>l. visible_lock i = Some l \<longrightarrow> iv_start iv \<le> l \<and> iv_end iv \<noteq> None) \<and>
      (\<forall>e. iv_end iv = Some e \<longrightarrow> iv_start iv < e \<and> e \<le> mi_asOf i \<and> pred_option (\<lambda>l. e \<le> l) (visible_lock i)))"
proof -
  let ?at = "ma_at (mi_activation i)"
  let ?lock = "map_option (\<lambda>l. \<lparr>wl_id = ms_id l, wl_lockedAt = ms_at l\<rparr>) (mi_lock i)"
  have valid: "dated_time ?at" "?at \<le> mi_asOf i" "\<forall>e\<in>set (mi_events i). ?at \<le> we_factAt e"
    using assms(2) by (auto simp: meterLifecycleInputV1_def list_ex_iff not_less)
  from assms(5) obtain es where es: "orderWorkFacts (map Some (mi_events i)) = Inr es" "wp_events p = es"
    by (auto simp: projectWorkFacts_def bind_r_Inr_iff map_err_Inr_iff if_Inl_Inr_iff)
  have same: "set (map Some es) = set (map Some (mi_events i))" using orderWorkFacts_InrD [OF es(1)] by simp
  then have "orderWorkFacts (map Some es) = Inr es" by (rule orderWorkFacts_set [OF es(1)])
  then have again: "projectWorkFacts (map Some es) ?lock = Inr p" using assms(5) es(1) by (simp add: projectWorkFacts_def)
  have "set es = set (mi_events i)" using same by (simp add: inj_image_eq_iff)
  with valid(3) have facts: "\<forall>e\<in>set es. ?at \<le> we_factAt e" by simp
  obtain c where c: "meterDay31Candidate offset ?at = Inr c" "?at \<le> d31_at c"
    using day31_defined [OF assms(1) valid(1)] valid(2) assms(4) by force
  have "- 719162 * 86400 * 1000000 \<le> ?at" using valid(1) by (simp add: dated_time_def)
  from countIntervals_sound [OF assms(1) this c(2) facts assms(4)]
  obtain ivs where ivs: "countIntervals offset i es (d31_at c) = Inr ivs" "sorted_wrt interval_before ivs"
    "\<forall>iv\<in>set ivs. ?at \<le> iv_start iv \<and> iv_start iv \<le> horizon (visible_lock i) (mi_asOf i) \<and>
      (case iv_end iv of None \<Rightarrow> visible_lock i = None
       | Some e \<Rightarrow> iv_start iv < e \<and> e \<le> horizon (visible_lock i) (mi_asOf i))" by blast
  have t: "projectMeterJobTimeline offset (Some i) = Inr (timeline_of i es c ivs)"
    using assms(2,3) es(1) again c(1) ivs(1) by (simp add: projectMeterJobTimeline_def project_def)
  have "tl_events (timeline_of i es c ivs) = es" "tl_intervals (timeline_of i es c ivs) = ivs" by (simp_all add: timeline_of_def Let_def)
  with t es(2) ivs(2,3) show ?thesis
    by (intro exI [of _ "timeline_of i es c ivs"]) (auto simp: horizon_def split: option.splits)
qed

section \<open>The jobs counted on a date\<close>

lemma project_jobId: "project offset i = Inr t \<Longrightarrow> tl_jobId t = mi_jobId i"
  by (auto simp: project_def bind_r_Inr_iff timeline_of_def Let_def)

definition touching :: "zone \<Rightarrow> work_time \<Rightarrow> work_date \<Rightarrow> timeline \<Rightarrow> bool" where
  "touching offset asOf date t \<longleftrightarrow> (\<exists>iv\<in>set (tl_intervals t). \<exists>a b. touchedDates offset iv asOf = Inr (a, b) \<and> a \<le> date \<and> date \<le> b)"

lemma touches_iff:
  assumes "touched_by offset asOf t = Inr ds"
  shows "touches date ds \<longleftrightarrow> touching offset asOf date t"
proof -
  have "touches date ds \<longleftrightarrow> (\<exists>iv\<in>set ivs. \<exists>a b. touchedDates offset iv asOf = Inr (a, b) \<and> a \<le> date \<and> date \<le> b)"
    if "map_r (\<lambda>iv. touchedDates offset iv asOf) ivs = Inr ds" for ivs
    using that by (induction ivs arbitrary: ds) (auto simp: touches_def bind_r_Inr_iff)
  from this [OF assms [unfolded touched_by_def]] show ?thesis by (simp add: touching_def)
qed

lemma counting_jobs:
  assumes "map_r (project offset) jobs = Inr ts" "map_r (touched_by offset asOf) ts = Inr tds"
  shows "mi_jobId ` set (counting_on date jobs tds) = tl_jobId ` {t \<in> set ts. touching offset asOf date t}"
  using assms
proof (induction jobs arbitrary: ts tds)
  case (Cons j jobs)
  then obtain t ts' d tds' where step: "ts = t # ts'" "tds = d # tds'" "project offset j = Inr t" "touched_by offset asOf t = Inr d"
    "map_r (project offset) jobs = Inr ts'" "map_r (touched_by offset asOf) ts' = Inr tds'"
    by (auto simp: bind_r_Inr_iff)
  have "{u \<in> set ts. touching offset asOf date u} =
      (if touches date d then insert t else id) {u \<in> set ts'. touching offset asOf date u}"
    using step(1) touches_iff [OF step(4)] by auto
  moreover have "mi_jobId ` set (counting_on date (j # jobs) tds) =
      (if touches date d then insert (mi_jobId j) else id) (mi_jobId ` set (counting_on date jobs tds'))"
    using step(2) by (simp add: counting_on_def)
  ultimately show ?case using Cons.IH [OF step(5,6)] project_jobId [OF step(3)] by simp
qed (auto simp: counting_on_def)

lemma grouped_jobIds: "(\<Union>p\<in>set (grouped cs). set (sp_jobIds p)) = sj_jobId ` set cs"
  by (auto simp: grouped_def Let_def place_of_def jobs_of_def)

lemma classify_jobIds: "map_r (classify_on offset date) jobs = Inr cs \<Longrightarrow> map sj_jobId cs = map mi_jobId jobs"
  by (erule map_r_Inr_sum) (auto simp: classify_on_def bind_r_Inr_iff)

lemma count_day_sound:
  assumes "count_day offset plan jobs touched date = Inr day"
  shows "cd_date day = date \<and> cd_rawPlaces day = int (length (cd_places day)) \<and>
    cd_freeSmallPlaces day = min (int (length (filter sp_small (cd_places day)))) (pt_included (syntheticMeterPolicyV1 plan)) \<and>
    cd_countedPlaces day = cd_rawPlaces day - cd_freeSmallPlaces day \<and> 0 \<le> cd_countedPlaces day \<and>
    (\<Union>p\<in>set (cd_places day). set (sp_jobIds p)) = mi_jobId ` set (counting_on date jobs touched)"
proof -
  from assms obtain cs places a where step: "map_r (classify_on offset date) (counting_on date jobs touched) = Inr cs"
    "groupSuppliedMeterPlaces date cs = Inr places"
    "computeSmallPlaceAllowance plan (int (length places)) (int (length (filter sp_small places))) = Inr a"
    "day = \<lparr>cd_date = date, cd_places = places, cd_rawPlaces = al_rawPlaces a, cd_freeSmallPlaces = al_freeSmallPlaces a,
       cd_countedPlaces = al_countedPlaces a\<rparr>"
    by (auto simp: count_day_def bind_r_Inr_iff)
  have "fixedMeterPlacesV1 date cs" using step(2) by (simp add: groupSuppliedMeterPlaces_def split: if_splits)
  with step(2) have "places = grouped cs" using groupSuppliedMeterPlaces_eq by simp
  moreover have "sj_jobId ` set cs = mi_jobId ` set (counting_on date jobs touched)"
    using classify_jobIds [OF step(1)] by (metis set_map)
  ultimately have "(\<Union>p\<in>set places. set (sp_jobIds p)) = mi_jobId ` set (counting_on date jobs touched)"
    by (simp add: grouped_jobIds)
  moreover have "int (length (filter sp_small places)) \<le> int (length places)" by simp
  ultimately show ?thesis
    using step(3,4) by (auto simp: computeSmallPlaceAllowance_def Let_def min.coboundedI1 split: if_splits)
qed

text \<open>
  C18. The count of a range of dates is a count of exactly the calendar days of the range, in order.
  On each day the places hold exactly the jobs that have an interval touching that day; of the places,
  as many small ones as the plan includes are free and all others count.
\<close>

theorem meter_days_sound:
  assumes "countMeterDays offset (Some d) = Inr r"
  shows "map cd_date (ld_days r) = [ld_startDate r..ld_endDateExclusive r - 1] \<and>
    map tl_jobId (ld_timelines r) = map mi_jobId (by_job_id (di_jobs d)) \<and>
    (\<forall>day\<in>set (ld_days r).
      (\<Union>p\<in>set (cd_places day). set (sp_jobIds p)) =
        tl_jobId ` {t \<in> set (ld_timelines r). touching offset (ld_asOf r) (cd_date day) t} \<and>
      cd_rawPlaces day = int (length (cd_places day)) \<and>
      cd_freeSmallPlaces day = min (int (length (filter sp_small (cd_places day)))) (pt_included (syntheticMeterPolicyV1 (di_plan d))) \<and>
      cd_countedPlaces day = cd_rawPlaces day - cd_freeSmallPlaces day \<and> 0 \<le> cd_countedPlaces day)"
proof -
  let ?jobs = "by_job_id (di_jobs d)"
  from assms obtain ts tds days where step: "map_r (project offset) ?jobs = Inr ts"
    "map_r (touched_by offset (mi_asOf (hd ?jobs))) ts = Inr tds"
    "map_r (count_day offset (di_plan d) ?jobs tds) (range_of ?jobs) = Inr days" "r = days_result d ts days"
    by (auto simp: countMeterDays_def parse_days_def bind_r_Inr_iff map_err_Inr_iff Let_def split: if_splits)
  have r: "ld_timelines r = ts" "ld_days r = days" "ld_asOf r = mi_asOf (hd ?jobs)"
    "[ld_startDate r..ld_endDateExclusive r - 1] = range_of ?jobs"
    using step(4) by (simp_all add: days_result_def Let_def range_of_def)
  have "map cd_date days = map id (range_of ?jobs)"
    by (rule map_r_Inr_sum [OF step(3)]) (use count_day_sound in simp)
  then have "map cd_date days = range_of ?jobs" by simp
  moreover have "map tl_jobId ts = map mi_jobId ?jobs" by (rule map_r_Inr_sum [OF step(1)]) (rule project_jobId)
  moreover have "(\<Union>p\<in>set (cd_places day). set (sp_jobIds p)) = tl_jobId ` {t \<in> set ts. touching offset (ld_asOf r) (cd_date day) t} \<and>
      cd_rawPlaces day = int (length (cd_places day)) \<and>
      cd_freeSmallPlaces day = min (int (length (filter sp_small (cd_places day)))) (pt_included (syntheticMeterPolicyV1 (di_plan d))) \<and>
      cd_countedPlaces day = cd_rawPlaces day - cd_freeSmallPlaces day \<and> 0 \<le> cd_countedPlaces day" if "day \<in> set days" for day
  proof -
    from map_r_InrD [OF step(3) that] obtain date where "count_day offset (di_plan d) ?jobs tds date = Inr day" by blast
    from count_day_sound [OF this] counting_jobs [OF step(1,2)] show ?thesis by (simp add: r(3))
  qed
  ultimately show ?thesis unfolding r by blast
qed

section \<open>A concrete job\<close>

definition meter_fact :: "string \<Rightarrow> int \<Rightarrow> work_fact_kind \<Rightarrow> work_time \<Rightarrow> work_event" where
  "meter_fact k n kind t = \<lparr>we_id = k, we_jobId = ''j'', we_sequence = n, we_kind = kind, we_factAt = t, we_recordedAt = t,
     we_sourceReceiptId = (if site_fact kind then Some ''r'' else None), we_commandId = (if site_fact kind then None else Some ''c''),
     we_predecessorId = None, we_closeReason = None, we_closeNote = None\<rparr>"

definition DAY :: int where
  "DAY = 86400 * 1000000"

definition sample_meter :: meter_input where
  "sample_meter = \<lparr>mi_tenantId = ''t'', mi_jobId = ''j'', mi_sourceRevision = 1,
     mi_activation = \<lparr>ma_id = ''a'', ma_at = 20000 * DAY, ma_termsId = ''b'', ma_termsRevision = 1, ma_partyBindingId = ''c'',
       ma_customerId = ''cu'', ma_siteId = ''s'', ma_small = True\<rparr>,
     mi_events = [meter_fact ''e1'' 1 First_site_evidence (20002 * DAY), meter_fact ''e2'' 2 Finished_on_site (20005 * DAY)],
     mi_lock = None, mi_trip = None, mi_clock = Clock_approved, mi_asOf = 20020 * DAY,
     mi_startDate = 20000, mi_endDateExclusive = 20015\<rparr>"

text \<open>With London at UTC the job counts from its first evidence to the midnight seven days after its finish.\<close>

lemma sample_meter_valid: "meterLifecycleInputV1 sample_meter"
  by (simp add: sample_meter_def meterLifecycleInputV1_def fact_ids_def meter_fact_def DAY_def revision_safe_def MAX_SAFE_def
    dated_time_def workFactTimeV1_def MIN_WORK_TIME_def MAX_WORK_TIME_def jobWorkStateEventV1_def site_fact_def
    londonWorkDateV1_def List.map_filter_def)

definition sample_range :: days_input where
  "sample_range = \<lparr>di_plan = Solo, di_jobs = [sample_meter]\<rparr>"

theorem meter_timeline_sound_witness:
  "\<exists>t. projectMeterJobTimeline (\<lambda>_. 0) (Some sample_meter) = Inr t \<and> sorted_wrt interval_before (tl_intervals t)"
proof -
  have "\<not> isl (projectWorkFacts (map Some (mi_events sample_meter)) (map_option (\<lambda>l. \<lparr>wl_id = ms_id l, wl_lockedAt = ms_at l\<rparr>) (mi_lock sample_meter)))"
    by code_simp
  then obtain p where "projectWorkFacts (map Some (mi_events sample_meter))
      (map_option (\<lambda>l. \<lparr>wl_id = ms_id l, wl_lockedAt = ms_at l\<rparr>) (mi_lock sample_meter)) = Inr p"
    using sum.collapse(2) by metis
  from meter_timeline_sound [OF _ sample_meter_valid _ _ this, of "\<lambda>_. 0"] show ?thesis
    by (auto simp: zone_bounded_def sample_meter_def SAFE_TIME_def DAY_def)
qed

theorem meter_days_sound_witness:
  "\<exists>r. countMeterDays (\<lambda>_. 0) (Some sample_range) = Inr r \<and>
     map cd_date (ld_days r) = [20000..20014] \<and> map cd_rawPlaces (ld_days r) = replicate 2 0 @ replicate 10 1 @ replicate 3 0"
proof -
  have "case countMeterDays (\<lambda>_. 0) (Some sample_range) of Inl e \<Rightarrow> False
    | Inr r \<Rightarrow> ld_startDate r = 20000 \<and> ld_endDateExclusive r = 20015 \<and>
        map cd_rawPlaces (ld_days r) = replicate 2 0 @ replicate 10 1 @ replicate 3 0" by code_simp
  then obtain r where "countMeterDays (\<lambda>_. 0) (Some sample_range) = Inr r" "ld_startDate r = 20000" "ld_endDateExclusive r = 20015"
    "map cd_rawPlaces (ld_days r) = replicate 2 0 @ replicate 10 1 @ replicate 3 0"
    by (auto split: sum.splits)
  with meter_days_sound [of "\<lambda>_. 0" sample_range r] show ?thesis by auto
qed

end
