(* ===== verification/Subscription.thy ===== *)
theory Subscription
  imports Meter_Places Allocation
begin

text \<open>
  Model of \<^verbatim>\<open>packages/core/src/subscription.ts\<close>, \<^verbatim>\<open>subscription-period.ts\<close> and
  \<^verbatim>\<open>subscription-allocation.ts\<close>: the catalogue and the selection of terms, the preview of a period, the
  attribution of the places of a day, the allocation of a period's pennies to its lines and the
  disposition of corrections under the plan's maximum.
\<close>

datatype subscription_error = INVALID_SUBSCRIPTION_INPUT | ANNUAL_SUBSCRIPTION_UNAVAILABLE | SUBSCRIPTION_MAGNITUDE_EXCEEDED
| Subscription_meter meter_error | Subscription_range range_error | Subscription_money money_error | Subscription_type_error

section \<open>Catalogue and terms\<close>

definition policy_version :: string where
  "policy_version = ''subscription_pricing_policy_v4''"

fun annual_pence :: "meter_plan \<Rightarrow> int" where
  "annual_pence Solo = 29000"
| "annual_pence Builder = 69000"

record catalogue_row =
  cat_plan :: meter_plan
  cat_terms :: plan_terms
  cat_extraPlacePence :: int
  cat_annualPence :: int

definition subscription_catalogue :: "catalogue_row list" where
  "subscription_catalogue = map (\<lambda>plan. \<lparr>cat_plan = plan, cat_terms = syntheticMeterPolicyV1 plan,
     cat_extraPlacePence = extraPlacePence, cat_annualPence = annual_pence plan\<rparr>) [Solo, Builder]"

definition getSubscriptionCatalogue :: "string \<Rightarrow> subscription_error + catalogue_row list" where
  "getSubscriptionCatalogue policyVersion =
     (if policyVersion \<noteq> policy_version then Inl INVALID_SUBSCRIPTION_INPUT else Inr subscription_catalogue)"

datatype cadence = Monthly | Annual

record terms_request =
  tm_catalogueVersion :: string
  tm_plan :: meter_plan
  tm_cadence :: "cadence option"
  tm_expectedRevision :: int
  tm_termsVersion :: string

definition cadence_of :: "terms_request \<Rightarrow> cadence" where
  "cadence_of t = (case tm_cadence t of None \<Rightarrow> Monthly | Some c \<Rightarrow> c)"

definition subscriptionTermsSelectionV1 :: "terms_request \<Rightarrow> bool" where
  "subscriptionTermsSelectionV1 t \<longleftrightarrow> tm_catalogueVersion t = policy_version \<and> counter_ok (tm_expectedRevision t) \<and>
     1 \<le> length (tm_termsVersion t) \<and> length (tm_termsVersion t) \<le> 100"

definition selectSubscriptionTerms :: "terms_request \<Rightarrow> subscription_error + terms_request" where
  "selectSubscriptionTerms t =
     (if \<not> subscriptionTermsSelectionV1 t then Inl INVALID_SUBSCRIPTION_INPUT
      else if cadence_of t = Annual then Inl ANNUAL_SUBSCRIPTION_UNAVAILABLE
      else Inr (t\<lparr>tm_cadence := Some (cadence_of t)\<rparr>))"

record plan_change =
  ch_catalogueVersion :: string
  ch_fromPlan :: meter_plan
  ch_toPlan :: meter_plan
  ch_cadence :: "cadence option"
  ch_expectedRevision :: int
  ch_termsVersion :: string

definition subscriptionPlanChangeSelectionV1 :: "plan_change \<Rightarrow> bool" where
  "subscriptionPlanChangeSelectionV1 c \<longleftrightarrow> ch_catalogueVersion c = policy_version \<and> counter_ok (ch_expectedRevision c) \<and>
     1 \<le> length (ch_termsVersion c) \<and> length (ch_termsVersion c) \<le> 100"

section \<open>Previews of a period\<close>

definition computeSubscriptionPeriod :: "supplied_period \<Rightarrow> subscription_error + period_result" where
  "computeSubscriptionPeriod p =
     (if \<not> suppliedMeterPeriodV1 p then Inl INVALID_SUBSCRIPTION_INPUT
      else bind_r (map_err Subscription_meter (computeSuppliedMeterPeriod p)) (\<lambda>r.
        if suppliedMeterPeriodResultV1 r then Inr r else Inl INVALID_SUBSCRIPTION_INPUT))"

text \<open>The numerator is the text of a canonical integer.\<close>

definition signed_text :: "string \<Rightarrow> bool" where
  "signed_text s \<longleftrightarrow> canonical_whole s \<or> (case s of c # t \<Rightarrow> c = CHR ''-'' \<and> canonical_whole t \<and> t \<noteq> ''0'' | [] \<Rightarrow> False)"

definition signed_val :: "string \<Rightarrow> int" where
  "signed_val s = (case s of c # t \<Rightarrow> if c = CHR ''-'' then - digits_val t else digits_val s | [] \<Rightarrow> 0)"

definition subscriptionExactContributionV1 :: "string \<Rightarrow> int \<Rightarrow> bool" where
  "subscriptionExactContributionV1 numeratorPence denominator \<longleftrightarrow>
     length numeratorPence \<le> 16 \<and> signed_text numeratorPence \<and> 1 \<le> denominator \<and> denominator \<le> 366"

definition roundSubscriptionContribution :: "string \<Rightarrow> int \<Rightarrow> subscription_error + money" where
  "roundSubscriptionContribution numeratorPence denominator =
     (if \<not> subscriptionExactContributionV1 numeratorPence denominator then Inl INVALID_SUBSCRIPTION_INPUT
      else let numerator = signed_val numeratorPence; limit = MAX_MONEY_PENCE * denominator in
        if numerator > limit \<or> numerator < - limit then Inl SUBSCRIPTION_MAGNITUDE_EXCEEDED
        else bind_r (map_err Subscription_range (divideRounded numerator denominator Half_even)) (\<lambda>n.
          map_err Subscription_money (moneyFromBigInt n)))"

section \<open>The places of a day\<close>

record allocation_day =
  ay_date :: work_date
  ay_plan :: meter_plan
  ay_sourceRevision :: int
  ay_jobs :: "supplied_job list"

definition subscriptionAllocationDayV1 :: "allocation_day \<Rightarrow> bool" where
  "subscriptionAllocationDayV1 d \<longleftrightarrow> londonWorkDateV1 (ay_date d) \<and> revision_safe (ay_sourceRevision d) \<and>
     length (remdups (map sj_tenantId (ay_jobs d))) \<le> 1"

datatype attribution = Small_allowance | Included_place | Paid_extra | Grace

record day_place =
  dp_place :: supplied_place
  dp_placeKey :: string
  dp_representativeJobId :: string
  dp_sourceRevision :: int
  dp_attribution :: attribution

definition counted_as :: "plan_terms \<Rightarrow> int \<Rightarrow> attribution" where
  "counted_as terms counted = (if counted \<le> pt_included terms then Included_place
     else if counted \<le> pt_included terms + pt_extrasCap terms then Paid_extra else Grace)"

definition day_place_of :: "int \<Rightarrow> supplied_place \<Rightarrow> attribution \<Rightarrow> day_place" where
  "day_place_of revision place a = \<lparr>dp_place = place,
     dp_placeKey = sp_tenantId place @ '':'' @ sp_customerId place @ '':'' @ sp_siteId place,
     dp_representativeJobId = hd (sp_jobIds place), dp_sourceRevision = revision, dp_attribution = a\<rparr>"

text \<open>The callback of the loop, with its two counters.\<close>

fun attribute_places :: "plan_terms \<Rightarrow> int \<Rightarrow> int \<Rightarrow> int \<Rightarrow> supplied_place list \<Rightarrow> day_place list" where
  "attribute_places terms revision smallRemaining counted [] = []"
| "attribute_places terms revision smallRemaining counted (place # places) =
     (if sp_small place \<and> smallRemaining > 0
      then day_place_of revision place Small_allowance # attribute_places terms revision (smallRemaining - 1) counted places
      else day_place_of revision place (counted_as terms (counted + 1)) #
        attribute_places terms revision smallRemaining (counted + 1) places)"

definition allocateSubscriptionDay :: "allocation_day \<Rightarrow> subscription_error + (int \<times> day_place list)" where
  "allocateSubscriptionDay d =
     (if \<not> subscriptionAllocationDayV1 d then Inl INVALID_SUBSCRIPTION_INPUT
      else bind_r (map_err Subscription_meter (groupSuppliedMeterPlaces (ay_date d) (ay_jobs d))) (\<lambda>places.
        bind_r (map_err Subscription_meter (computeSmallPlaceAllowance (ay_plan d) (int (length places))
          (int (length (filter sp_small places))))) (\<lambda>allowance.
        Inr (al_countedPlaces allowance, attribute_places (syntheticMeterPolicyV1 (ay_plan d)) (ay_sourceRevision d)
          (al_freeSmallPlaces allowance) 0 places))))"

section \<open>The pennies of a period\<close>

record penny_line =
  pl_lineKey :: string
  pl_numeratorPence :: string

record penny_allocation =
  pa_lines :: "penny_line list"
  pa_denominatorDays :: int
  pa_targetPence :: int

definition subscriptionPennyAllocationV1 :: "penny_allocation \<Rightarrow> bool" where
  "subscriptionPennyAllocationV1 p \<longleftrightarrow>
     list_all (\<lambda>l. 1 \<le> length (pl_lineKey l) \<and> length (pl_lineKey l) \<le> 300 \<and>
       length (pl_numeratorPence l) \<le> 20 \<and> canonical_whole (pl_numeratorPence l)) (pa_lines p) \<and>
     1 \<le> length (pa_lines p) \<and> 1 \<le> pa_denominatorDays p \<and> pa_denominatorDays p \<le> 31 \<and>
     0 \<le> pa_targetPence p \<and> pa_targetPence p \<le> MAX_MONEY_PENCE \<and>
     length (remdups (map pl_lineKey (pa_lines p))) = length (pa_lines p)"

record penny_row =
  pw_lineKey :: string
  pw_pence :: int
  pw_remainder :: int

definition penny_row_of :: "int \<Rightarrow> penny_line \<Rightarrow> penny_row" where
  "penny_row_of denominator l = (let n = digits_val (pl_numeratorPence l) in
     \<lparr>pw_lineKey = pl_lineKey l, pw_pence = n div denominator, pw_remainder = n mod denominator\<rparr>)"

definition remainder_before :: "penny_row \<Rightarrow> penny_row \<Rightarrow> bool" where
  "remainder_before a b \<longleftrightarrow> pw_remainder a > pw_remainder b \<or> (pw_remainder a = pw_remainder b \<and> pw_lineKey a < pw_lineKey b)"

text \<open>
  The ordered array holds the same row objects, so the increment of its first rows is seen in
  \<open>rows\<close>; rows are identified by their unique key. Reading past the end of the array throws.
\<close>

function give_pennies :: "penny_row list \<Rightarrow> int \<Rightarrow> penny_row list \<Rightarrow> subscription_error + penny_row list" where
  "give_pennies order remaining rows =
     (if remaining \<le> 0 then Inr rows
      else (case order of [] \<Rightarrow> Inl Subscription_type_error
        | row # order' \<Rightarrow> give_pennies order' (remaining - 1)
            (map (\<lambda>r. if pw_lineKey r = pw_lineKey row then r\<lparr>pw_pence := pw_pence r + 1\<rparr> else r) rows)))"
  by pat_completeness auto
termination by (relation "measure (\<lambda>(_, n, _). nat n)") auto

declare give_pennies.simps [simp del]

definition allocateSubscriptionPennies :: "penny_allocation \<Rightarrow> subscription_error + (string \<times> int) list" where
  "allocateSubscriptionPennies p =
     (if \<not> subscriptionPennyAllocationV1 p then Inl INVALID_SUBSCRIPTION_INPUT
      else let denominator = pa_denominatorDays p;
               summed = sum_list (map (\<lambda>l. digits_val (pl_numeratorPence l)) (pa_lines p))
       in if summed > MAX_MONEY_PENCE * denominator then Inl INVALID_SUBSCRIPTION_INPUT
       else bind_r (map_err Subscription_range (divideRounded summed denominator Half_even)) (\<lambda>rounded.
         if rounded \<noteq> pa_targetPence p then Inl INVALID_SUBSCRIPTION_INPUT
         else let rows = map (penny_row_of denominator) (pa_lines p);
                  remaining = pa_targetPence p - sum_list (map pw_pence rows)
           in bind_r (give_pennies (sort_by remainder_before rows) remaining rows) (\<lambda>rows.
             Inr (map (\<lambda>r. (pw_lineKey r, pw_pence r)) (sort_by (\<lambda>a b. pw_lineKey a < pw_lineKey b) rows)))))"

section \<open>Corrections\<close>

record correction =
  co_correctionId :: string
  co_pence :: int

record correction_input =
  ci_principalPence :: int
  ci_maximumPence :: int
  ci_corrections :: "correction list"

definition subscription_pence :: "int \<Rightarrow> bool" where
  "subscription_pence n \<longleftrightarrow> 0 \<le> n \<and> n \<le> MAX_MONEY_PENCE"

definition subscriptionCorrectionDispositionV1 :: "correction_input \<Rightarrow> bool" where
  "subscriptionCorrectionDispositionV1 c \<longleftrightarrow> subscription_pence (ci_principalPence c) \<and> subscription_pence (ci_maximumPence c) \<and>
     list_all (\<lambda>x. - MAX_MONEY_PENCE \<le> co_pence x \<and> co_pence x \<le> MAX_MONEY_PENCE) (ci_corrections c) \<and>
     ci_principalPence c \<le> ci_maximumPence c \<and>
     length (remdups (map co_correctionId (ci_corrections c))) = length (ci_corrections c)"

record disposition =
  ds_correctionId :: string
  ds_fullPence :: int
  ds_appliedPence :: int
  ds_uncollectedPence :: int
  ds_requiresAlert :: bool
  ds_negativeHeld :: bool

fun dispose :: "int \<Rightarrow> int \<Rightarrow> correction list \<Rightarrow> int \<times> disposition list" where
  "dispose maximum issued [] = (issued, [])"
| "dispose maximum issued (c # cs) =
     (let applied = min (max 0 (co_pence c)) (maximum - issued);
          uncollected = max 0 (co_pence c) - applied
      in case dispose maximum (issued + applied) cs of (issuedPence, ds) \<Rightarrow>
        (issuedPence, \<lparr>ds_correctionId = co_correctionId c, ds_fullPence = co_pence c, ds_appliedPence = applied,
          ds_uncollectedPence = uncollected, ds_requiresAlert = uncollected > 0, ds_negativeHeld = co_pence c < 0\<rparr> # ds))"

definition disposeSubscriptionCorrections :: "correction_input \<Rightarrow> subscription_error + (int \<times> disposition list)" where
  "disposeSubscriptionCorrections c =
     (if \<not> subscriptionCorrectionDispositionV1 c then Inl INVALID_SUBSCRIPTION_INPUT
      else Inr (dispose (ci_maximumPence c) (ci_principalPence c)
        (sort_by (\<lambda>a b. co_correctionId a < co_correctionId b) (ci_corrections c))))"

section \<open>The pennies are handed out exactly\<close>

text \<open>The loop as one map: the first \<open>n\<close> rows of the order gain a penny.\<close>

lemma give_pennies_eq:
  assumes "distinct (map pw_lineKey order)" "n \<le> length order"
  shows "give_pennies order (int n) rows = Inr (map (\<lambda>r. if pw_lineKey r \<in> pw_lineKey ` set (take n order)
     then r\<lparr>pw_pence := pw_pence r + 1\<rparr> else r) rows)"
  using assms
proof (induction n arbitrary: order rows)
  case 0
  then show ?case by (simp add: give_pennies.simps)
next
  case (Suc n)
  then obtain row rest where order: "order = row # rest" by (cases order) auto
  have new: "pw_lineKey row \<notin> pw_lineKey ` set (take n rest)" using Suc.prems order set_take_subset by fastforce
  let ?rows = "map (\<lambda>r. if pw_lineKey r = pw_lineKey row then r\<lparr>pw_pence := pw_pence r + 1\<rparr> else r) rows"
  have "give_pennies order (int (Suc n)) rows = give_pennies rest (int n) ?rows"
    by (simp add: order give_pennies.simps [of "row # rest"])
  also have "\<dots> = Inr (map (\<lambda>r. if pw_lineKey r \<in> pw_lineKey ` set (take n rest) then r\<lparr>pw_pence := pw_pence r + 1\<rparr> else r) ?rows)"
    by (rule Suc.IH) (use Suc.prems order in auto)
  also have "\<dots> = Inr (map (\<lambda>r. if pw_lineKey r \<in> pw_lineKey ` set (take (Suc n) order)
      then r\<lparr>pw_pence := pw_pence r + 1\<rparr> else r) rows)"
    using new by (auto simp: order)
  finally show ?case .
qed

lemma sum_bumped:
  assumes "distinct (map pw_lineKey rows)" "K \<subseteq> pw_lineKey ` set rows"
  shows "sum_list (map pw_pence (map (\<lambda>r. if pw_lineKey r \<in> K then r\<lparr>pw_pence := pw_pence r + 1\<rparr> else r) rows)) =
    sum_list (map pw_pence rows) + int (card K)"
proof -
  have "sum_list (map (\<lambda>r. if pw_lineKey r \<in> K then 1 else 0 :: int) rows) = (\<Sum>k\<in>pw_lineKey ` set rows. if k \<in> K then 1 else 0)"
    using assms(1) by (simp add: sum_list_distinct_conv_sum_set distinct_map sum.reindex)
  also have "\<dots> = int (card K)" using assms(2) by (simp add: sum.If_cases Int_absorb1 inf.absorb2)
  finally have "sum_list (map (\<lambda>r. if pw_lineKey r \<in> K then 1 else 0 :: int) rows) = int (card K)" .
  moreover have "map pw_pence (map (\<lambda>r. if pw_lineKey r \<in> K then r\<lparr>pw_pence := pw_pence r + 1\<rparr> else r) rows) =
      map (\<lambda>r. pw_pence r + (if pw_lineKey r \<in> K then 1 else 0)) rows" by auto
  ultimately show ?thesis by (simp only: sum_list_addf)
qed

lemma remainder_before_order:
  "remainder_before a b \<Longrightarrow> \<not> remainder_before b a"
  "\<not> remainder_before b a \<Longrightarrow> \<not> remainder_before c b \<Longrightarrow> \<not> remainder_before c a"
  by (auto simp: remainder_before_def)

text \<open>
  The half-even rounded sum lies between the sum of the floors and one more penny for every line, so
  the order is long enough.
\<close>

lemma pennies_remaining:
  assumes "0 < d"
  shows "sum_list (map (\<lambda>l. f l div d) ls) \<le> round_div mode (sum_list (map f ls)) d \<and>
    round_div mode (sum_list (map f ls)) d \<le> sum_list (map (\<lambda>l. f l div d) ls) + int (length ls)"
proof -
  have s: "sum_list (map f ls) = sum_list (map (\<lambda>l. f l div d) ls) * d + sum_list (map (\<lambda>l. f l mod d) ls)"
    using sum_div_mod [of f d ls] by simp
  have "0 \<le> sum_list (map (\<lambda>l. f l mod d) ls)" "sum_list (map (\<lambda>l. f l mod d) ls) \<le> int (length ls) * (d - 1)"
    using assms by (rule sum_mod_nonneg, intro sum_mod_less)
  moreover from this(2) have "sum_list (map (\<lambda>l. f l mod d) ls) \<le> d * int (length ls)" by (simp add: algebra_simps)
  ultimately show ?thesis
    using round_between [OF assms, of "sum_list (map (\<lambda>l. f l div d) ls)" "sum_list (map f ls)" "sum_list (map (\<lambda>l. f l div d) ls) + int (length ls)" mode]
    by (simp add: s algebra_simps)
qed

lemma length_remdups_map: "length (remdups (map f xs)) = length xs \<longleftrightarrow> distinct (map f xs)"
  by (metis distinct_remdups_id length_map length_remdups_eq remdups_id_iff_distinct)

text \<open>A sort by a strict order that is total on distinct keys does not depend on the order of its input.\<close>

lemma sort_by_unique:
  assumes asym: "\<And>a b. lt a b \<Longrightarrow> \<not> lt b a" and trans: "\<And>a b c. \<not> lt b a \<Longrightarrow> \<not> lt c b \<Longrightarrow> \<not> lt c a"
    and linear: "\<And>a b. f a \<noteq> f b \<Longrightarrow> lt a b \<or> lt b a"
    and "distinct (map f xs)" "mset ys = mset xs"
  shows "sort_by lt ys = sort_by lt xs"
proof -
  have strict: "sorted_wrt lt (sort_by lt zs)" if "distinct (map f zs)" for zs
  proof -
    have "sorted_wrt lt us" if "sorted_wrt (\<lambda>a b. \<not> lt b a) us" "distinct (map f us)" for us
      using that linear by (induction us) (auto simp: image_iff)
    moreover have "sorted_wrt (\<lambda>a b. \<not> lt b a) (sort_by lt zs)" using asym trans by (rule sorted_wrt_sort_by)
    ultimately show ?thesis using that by simp
  qed
  have "mset (map f ys) = mset (map f xs)" using assms(5) by simp
  then have "distinct (map f ys)" using assms(4) by (metis mset_eq_imp_distinct_iff)
  moreover have "set ys = set xs" using assms(5) by (metis set_mset_mset)
  ultimately show ?thesis using strict assms(4) sorted_wrt_unique [of lt] asym by (metis set_sort_by)
qed

definition penny_rows :: "penny_allocation \<Rightarrow> penny_row list" where
  "penny_rows p = map (penny_row_of (pa_denominatorDays p)) (pa_lines p)"

definition penny_sum :: "penny_allocation \<Rightarrow> int" where
  "penny_sum p = sum_list (map (\<lambda>l. digits_val (pl_numeratorPence l)) (pa_lines p))"

definition gaining :: "penny_allocation \<Rightarrow> string set" where
  "gaining p = pw_lineKey ` set (take (nat (pa_targetPence p - sum_list (map pw_pence (penny_rows p)))) (sort_by remainder_before (penny_rows p)))"

definition shared_rows :: "penny_allocation \<Rightarrow> (string \<times> int) list" where
  "shared_rows p = map (\<lambda>r. (pw_lineKey r, pw_pence r)) (sort_by (\<lambda>a b. pw_lineKey a < pw_lineKey b)
     (map (\<lambda>r. if pw_lineKey r \<in> gaining p then r\<lparr>pw_pence := pw_pence r + 1\<rparr> else r) (penny_rows p)))"

lemma penny_rows_facts:
  "map pw_lineKey (penny_rows p) = map pl_lineKey (pa_lines p)"
  "sum_list (map pw_pence (penny_rows p)) = sum_list (map (\<lambda>l. digits_val (pl_numeratorPence l) div pa_denominatorDays p) (pa_lines p))"
  "length (penny_rows p) = length (pa_lines p)"
  by (simp_all add: penny_rows_def penny_row_of_def comp_def Let_def)

lemma allocateSubscriptionPennies_eq:
  assumes "subscriptionPennyAllocationV1 p"
  shows "allocateSubscriptionPennies p =
    (if penny_sum p \<le> MAX_MONEY_PENCE * pa_denominatorDays p \<and> round_div Half_even (penny_sum p) (pa_denominatorDays p) = pa_targetPence p
     then Inr (shared_rows p) else Inl INVALID_SUBSCRIPTION_INPUT)"
proof (cases "penny_sum p \<le> MAX_MONEY_PENCE * pa_denominatorDays p \<and> round_div Half_even (penny_sum p) (pa_denominatorDays p) = pa_targetPence p")
  case True
  have d: "0 < pa_denominatorDays p" and keys: "distinct (map pl_lineKey (pa_lines p))"
    using assms by (simp_all add: subscriptionPennyAllocationV1_def length_remdups_map)
  let ?n = "pa_targetPence p - sum_list (map pw_pence (penny_rows p))"
  have n: "0 \<le> ?n" "?n \<le> int (length (penny_rows p))"
    using pennies_remaining [OF d, of "\<lambda>l. digits_val (pl_numeratorPence l)" "pa_lines p" Half_even] True
    by (simp_all add: penny_rows_facts penny_sum_def)
  have "give_pennies (sort_by remainder_before (penny_rows p)) (int (nat ?n)) (penny_rows p) =
      Inr (map (\<lambda>r. if pw_lineKey r \<in> gaining p then r\<lparr>pw_pence := pw_pence r + 1\<rparr> else r) (penny_rows p))"
    unfolding gaining_def by (rule give_pennies_eq) (use n keys in \<open>auto simp: penny_rows_facts\<close>)
  with assms True d n(1) show ?thesis
    by (simp add: allocateSubscriptionPennies_def Let_def divideRounded_def penny_sum_def shared_rows_def penny_rows_def)
next
  case False
  with assms show ?thesis
    by (auto simp: allocateSubscriptionPennies_def Let_def divideRounded_def penny_sum_def subscriptionPennyAllocationV1_def)
qed

lemma sum_list_same_mset: "mset xs = mset ys \<Longrightarrow> sum_list (map f xs) = (sum_list (map f ys) :: int)"
  by (metis mset_map sum_mset_sum_list)

lemma shared_rows_perm:
  assumes "subscriptionPennyAllocationV1 p" "mset ls = mset (pa_lines p)"
  shows "shared_rows (p\<lparr>pa_lines := ls\<rparr>) = shared_rows p \<and> penny_sum (p\<lparr>pa_lines := ls\<rparr>) = penny_sum p"
proof -
  let ?q = "p\<lparr>pa_lines := ls\<rparr>" and ?bump = "\<lambda>K r. if pw_lineKey r \<in> K then r\<lparr>pw_pence := pw_pence r + 1\<rparr> else r"
  have keys: "distinct (map pw_lineKey (penny_rows p))"
    using assms(1) by (simp add: penny_rows_facts subscriptionPennyAllocationV1_def length_remdups_map)
  have rows: "mset (penny_rows ?q) = mset (penny_rows p)" using assms(2) by (simp add: penny_rows_def)
  have order: "sort_by remainder_before (penny_rows ?q) = sort_by remainder_before (penny_rows p)"
    by (rule sort_by_unique [where f = pw_lineKey]) (use keys rows in \<open>auto simp: remainder_before_def\<close>)
  have "sum_list (map pw_pence (penny_rows ?q)) = sum_list (map pw_pence (penny_rows p))"
    using rows by (rule sum_list_same_mset)
  with order have gain: "gaining ?q = gaining p" by (simp add: gaining_def)
  have "sort_by (\<lambda>a b. pw_lineKey a < pw_lineKey b) (map (?bump (gaining p)) (penny_rows ?q)) =
      sort_by (\<lambda>a b. pw_lineKey a < pw_lineKey b) (map (?bump (gaining p)) (penny_rows p))"
  proof (rule sort_by_unique [where f = pw_lineKey])
    show "distinct (map pw_lineKey (map (?bump (gaining p)) (penny_rows p)))"
      using keys by (simp add: comp_def if_distrib cong: if_cong)
    show "mset (map (?bump (gaining p)) (penny_rows ?q)) = mset (map (?bump (gaining p)) (penny_rows p))" using rows by simp
  qed auto
  then have "shared_rows ?q = shared_rows p" by (simp add: shared_rows_def gain)
  moreover have "penny_sum ?q = penny_sum p" unfolding penny_sum_def by (rule sum_list_same_mset) (use assms(2) in simp)
  ultimately show ?thesis by simp
qed

text \<open>
  C25. The pennies of a period are allocated exactly. The request is refused exactly if the lines
  exceed the money limit or the target is not their half-even rounded sum; then every line gets its
  exact share rounded down, or one penny more, the shares add up to the target, every line appears
  once, in the order of the keys, and the result does not depend on the order of the lines. The loop
  that hands out the remaining pennies never reads past the end of the lines.
\<close>

theorem subscription_pennies_exact:
  assumes "subscriptionPennyAllocationV1 p"
  shows "(if penny_sum p \<le> MAX_MONEY_PENCE * pa_denominatorDays p \<and> round_div Half_even (penny_sum p) (pa_denominatorDays p) = pa_targetPence p
     then \<exists>rows. allocateSubscriptionPennies p = Inr rows \<and> sum_list (map snd rows) = pa_targetPence p \<and>
       map fst rows = sort (map pl_lineKey (pa_lines p)) \<and>
       (\<forall>(k, n)\<in>set rows. \<exists>l\<in>set (pa_lines p). pl_lineKey l = k \<and>
         (n = digits_val (pl_numeratorPence l) div pa_denominatorDays p \<or> n = digits_val (pl_numeratorPence l) div pa_denominatorDays p + 1)) \<and>
       (\<forall>ls. mset ls = mset (pa_lines p) \<and> subscriptionPennyAllocationV1 (p\<lparr>pa_lines := ls\<rparr>) \<longrightarrow>
         allocateSubscriptionPennies (p\<lparr>pa_lines := ls\<rparr>) = Inr rows)
     else allocateSubscriptionPennies p = Inl INVALID_SUBSCRIPTION_INPUT)"
proof (cases "penny_sum p \<le> MAX_MONEY_PENCE * pa_denominatorDays p \<and> round_div Half_even (penny_sum p) (pa_denominatorDays p) = pa_targetPence p")
  case True
  let ?rows = "penny_rows p" and ?lt = "\<lambda>a b. pw_lineKey a < pw_lineKey b"
  let ?bump = "\<lambda>r. if pw_lineKey r \<in> gaining p then r\<lparr>pw_pence := pw_pence r + 1\<rparr> else r"
  let ?n = "pa_targetPence p - sum_list (map pw_pence ?rows)"
  have d: "0 < pa_denominatorDays p" and keys: "distinct (map pw_lineKey ?rows)"
    using assms by (simp_all add: penny_rows_facts subscriptionPennyAllocationV1_def length_remdups_map)
  have n: "0 \<le> ?n" "?n \<le> int (length ?rows)"
    using pennies_remaining [OF d, of "\<lambda>l. digits_val (pl_numeratorPence l)" "pa_lines p" Half_even] True
    by (simp_all add: penny_rows_facts penny_sum_def)
  let ?first = "take (nat ?n) (sort_by remainder_before ?rows)"
  have "gaining p \<subseteq> pw_lineKey ` set ?rows" using set_take_subset [of _ "sort_by remainder_before ?rows"] by (auto simp: gaining_def)
  moreover have "distinct (map pw_lineKey ?first)" using keys by (metis distinct_map_sort_by distinct_take take_map)
  then have "card (gaining p) = nat ?n" using n(2) distinct_card [of "map pw_lineKey ?first"] by (simp add: gaining_def)
  ultimately have "sum_list (map pw_pence (map ?bump ?rows)) = pa_targetPence p" using sum_bumped [OF keys] n(1) by simp
  then have sum: "sum_list (map snd (shared_rows p)) = pa_targetPence p" by (simp add: shared_rows_def comp_def)
  have bumped: "map pw_lineKey (map ?bump ?rows) = map pl_lineKey (pa_lines p)"
    using penny_rows_facts(1) [of p] by (simp add: comp_def if_distrib cong: if_cong)
  have "sorted_wrt (\<lambda>a b. \<not> ?lt b a) (sort_by ?lt (map ?bump ?rows))" by (rule sorted_wrt_sort_by) auto
  then have "sorted (map fst (shared_rows p))" by (simp add: shared_rows_def sorted_wrt_map not_less comp_def)
  moreover have "mset (map fst (shared_rows p)) = mset (map pl_lineKey (pa_lines p))"
  proof -
    have "map fst (shared_rows p) = map pw_lineKey (sort_by ?lt (map ?bump ?rows))" by (simp add: shared_rows_def)
    then have "mset (map fst (shared_rows p)) = mset (map pw_lineKey (map ?bump ?rows))" by (simp only: mset_map mset_sort_by)
    then show ?thesis by (simp only: bumped)
  qed
  ultimately have fsts: "map fst (shared_rows p) = sort (map pl_lineKey (pa_lines p))" by (metis properties_for_sort)
  have each: "\<exists>l\<in>set (pa_lines p). pl_lineKey l = k \<and>
      (m = digits_val (pl_numeratorPence l) div pa_denominatorDays p \<or> m = digits_val (pl_numeratorPence l) div pa_denominatorDays p + 1)"
    if "(k, m) \<in> set (shared_rows p)" for k m
    using that by (auto simp: shared_rows_def penny_rows_def penny_row_of_def Let_def split: if_splits)
  have "allocateSubscriptionPennies (p\<lparr>pa_lines := ls\<rparr>) = Inr (shared_rows p)"
    if "mset ls = mset (pa_lines p)" "subscriptionPennyAllocationV1 (p\<lparr>pa_lines := ls\<rparr>)" for ls
    using shared_rows_perm [OF assms that(1)] allocateSubscriptionPennies_eq [OF that(2)] True by simp
  with True sum fsts each allocateSubscriptionPennies_eq [OF assms] show ?thesis by auto
next
  case False
  with allocateSubscriptionPennies_eq [OF assms] show ?thesis by auto
qed

section \<open>The attribution of a day's places\<close>

definition count_of :: "attribution \<Rightarrow> day_place list \<Rightarrow> int" where
  "count_of a rows = int (length (filter (\<lambda>r. dp_attribution r = a) rows))"

definition paid_upto :: "plan_terms \<Rightarrow> int \<Rightarrow> int" where
  "paid_upto t n = min (max 0 (n - pt_included t)) (pt_extrasCap t)"

lemma count_of_simps [simp]:
  "count_of a [] = 0"
  "count_of a (day_place_of revision place b # rows) = (if a = b then 1 else 0) + count_of a rows"
  by (auto simp: count_of_def day_place_of_def)

lemma counted_as_simps:
  "0 \<le> pt_extrasCap t \<Longrightarrow> paid_upto t (c + 1) = paid_upto t c + (if counted_as t (c + 1) = Paid_extra then 1 else 0)"
  "min (c + 1) (pt_included t) = min c (pt_included t) + (if counted_as t (c + 1) = Included_place then 1 else 0)"
  "counted_as t c \<noteq> Small_allowance"
  by (auto simp: paid_upto_def counted_as_def min_def max_def)

lemma attribute_counts:
  assumes "0 \<le> pt_extrasCap t" "0 \<le> k"
  shows "map dp_place (attribute_places t revision k c ps) = ps \<and> count_of Small_allowance (attribute_places t revision k c ps) = min k (int (length (filter sp_small ps))) \<and>
    count_of Included_place (attribute_places t revision k c ps) = min (c + int (length ps) - count_of Small_allowance (attribute_places t revision k c ps)) (pt_included t) - min c (pt_included t) \<and>
    count_of Paid_extra (attribute_places t revision k c ps) = paid_upto t (c + int (length ps) - count_of Small_allowance (attribute_places t revision k c ps)) - paid_upto t c \<and>
    (\<forall>r\<in>set (attribute_places t revision k c ps). dp_attribution r = Small_allowance \<longrightarrow> sp_small (dp_place r))"
  using assms(2)
proof (induction ps arbitrary: k c)
  case (Cons place ps)
  show ?case
  proof (cases "sp_small place \<and> k > 0")
    case True
    with Cons.IH [of "k - 1" c] show ?thesis by (simp add: algebra_simps) (simp add: day_place_of_def min_def)
  next
    case False
    note IH = Cons.IH [OF Cons.prems, of "c + 1"]
    have smalls: "min k (int (length (filter sp_small (place # ps)))) = min k (int (length (filter sp_small ps)))"
      using False Cons.prems by auto
    have rows: "attribute_places t revision k c (place # ps) =
        day_place_of revision place (counted_as t (c + 1)) # attribute_places t revision k (c + 1) ps" using False by auto
    have shift: "c + int (length (place # ps)) - n = c + 1 + int (length ps) - n" for n by simp
    have fields: "dp_attribution (day_place_of revision place a) = a" "dp_place (day_place_of revision place a) = place" for a
      by (simp_all add: day_place_of_def)
    show ?thesis unfolding rows smalls shift
      using IH counted_as_simps(1) [OF assms(1), of c] counted_as_simps(2) [of c t] counted_as_simps(3) [of t "c + 1"]
      by (simp add: fields)
  qed
qed simp

text \<open>
  C27. Every place of a day is attributed once. As many small places as the plan includes are free;
  all other places are counted; of these the included ones come first, and the number of paid extras
  is exactly the number the meter charges for a day with that count of places.
\<close>

theorem subscription_day_attribution:
  assumes "allocateSubscriptionDay d = Inr (counted, rows)"
  shows "groupSuppliedMeterPlaces (ay_date d) (ay_jobs d) = Inr (map dp_place rows) \<and>
    count_of Small_allowance rows = min (int (length (filter sp_small (map dp_place rows)))) (pt_included (syntheticMeterPolicyV1 (ay_plan d))) \<and>
    counted = int (length rows) - count_of Small_allowance rows \<and>
    count_of Included_place rows = min counted (pt_included (syntheticMeterPolicyV1 (ay_plan d))) \<and>
    (\<forall>day. sd_plan day = ay_plan d \<and> \<not> sd_trial day \<and> sd_countedPlaces day = counted \<longrightarrow>
      count_of Paid_extra rows = dy_paidExtraPlaces (daily_of day)) \<and>
    (\<forall>r\<in>set rows. dp_attribution r = Small_allowance \<longrightarrow> sp_small (dp_place r))"
proof -
  let ?t = "syntheticMeterPolicyV1 (ay_plan d)"
  from assms obtain places a where step: "groupSuppliedMeterPlaces (ay_date d) (ay_jobs d) = Inr places"
    "computeSmallPlaceAllowance (ay_plan d) (int (length places)) (int (length (filter sp_small places))) = Inr a"
    "counted = al_countedPlaces a" "rows = attribute_places ?t (ay_sourceRevision d) (al_freeSmallPlaces a) 0 places"
    by (auto simp: allocateSubscriptionDay_def bind_r_Inr_iff map_err_Inr_iff if_Inl_Inr_iff)
  have t: "0 \<le> pt_extrasCap ?t" "0 \<le> pt_included ?t" by (cases "ay_plan d"; simp)+
  have a: "al_freeSmallPlaces a = min (int (length (filter sp_small places))) (pt_included ?t)"
    "al_countedPlaces a = int (length places) - al_freeSmallPlaces a"
    using step(2) by (auto simp: computeSmallPlaceAllowance_def Let_def split: if_splits)
  have k: "0 \<le> al_freeSmallPlaces a" using a t by simp
  note counts = attribute_counts [OF t(1) k, of "ay_sourceRevision d" 0 places, folded step(4)]
  have places: "map dp_place rows = places" using counts by blast
  then have "length rows = length places" by (metis length_map)
  moreover have "count_of Small_allowance rows = al_freeSmallPlaces a" using counts a by (simp add: min_def)
  moreover have "paid_upto ?t 0 = 0" using t by (simp add: paid_upto_def)
  ultimately show ?thesis
    using counts step a t places by (auto simp: paid_upto_def daily_of_def Let_def min.absorb2)
qed

section \<open>Corrections under the plan's maximum\<close>

lemma dispose_sound:
  assumes "issued \<le> maximum" "dispose maximum issued cs = (issuedPence, ds)"
  shows "issuedPence = min maximum (issued + sum_list (map (\<lambda>c. max 0 (co_pence c)) cs)) \<and>
    issuedPence = issued + sum_list (map ds_appliedPence ds) \<and>
    map (\<lambda>d. (ds_correctionId d, ds_fullPence d)) ds = map (\<lambda>c. (co_correctionId c, co_pence c)) cs \<and>
    (\<forall>d\<in>set ds. 0 \<le> ds_appliedPence d \<and> 0 \<le> ds_uncollectedPence d \<and>
      ds_appliedPence d + ds_uncollectedPence d = max 0 (ds_fullPence d) \<and>
      (ds_requiresAlert d \<longleftrightarrow> 0 < ds_uncollectedPence d) \<and> (ds_negativeHeld d \<longleftrightarrow> ds_fullPence d < 0))"
  using assms
proof (induction cs arbitrary: issued issuedPence ds)
  case (Cons c cs)
  let ?applied = "min (max 0 (co_pence c)) (maximum - issued)"
  obtain issued' ds' where step: "dispose maximum (issued + ?applied) cs = (issued', ds')" by fastforce
  have le: "issued + ?applied \<le> maximum" "0 \<le> ?applied" using Cons.prems(1) by auto
  note IH = Cons.IH [OF le(1) step]
  have "0 \<le> sum_list (map (\<lambda>c. max 0 (co_pence c)) cs)" by (rule sum_list_nonneg_int) simp
  with IH step Cons.prems le show ?case by (auto simp: Let_def min_def max_def)
qed simp

text \<open>A first part of the corrections is disposed of as if the others did not exist.\<close>

lemma dispose_take:
  "dispose maximum issued cs = (issuedPence, ds) \<Longrightarrow>
   dispose maximum issued (take n cs) = (issued + sum_list (map ds_appliedPence (take n ds)), take n ds)"
proof (induction cs arbitrary: issued issuedPence ds n)
  case (Cons c cs)
  let ?applied = "min (max 0 (co_pence c)) (maximum - issued)"
  obtain issued' ds' where step: "dispose maximum (issued + ?applied) cs = (issued', ds')" by fastforce
  show ?case
  proof (cases n)
    case (Suc k)
    then show ?thesis using Cons.IH [OF step, of k] Cons.prems step by (auto simp: Let_def)
  qed (use Cons.prems in simp)
qed simp

text \<open>
  C26. Corrections are disposed of under the plan's maximum in the order of their identities, whatever the order in
  which they are supplied. The dispositions are those of the corrections supplied, one each, with the full
  correction; what is issued is the principal plus all positive corrections, cut off at the
  maximum, and so it is after every first part of them: a correction is applied in full while there is room,
  then in part, then not at all. The parts applied, which are what is issued beyond the principal, and the uncollected parts make up the full
  positive corrections; an alert is raised exactly for an uncollected part; and a negative correction
  is held and changes nothing.
\<close>

theorem subscription_corrections_capped:
  assumes "subscriptionCorrectionDispositionV1 c"
  shows "\<exists>issuedPence ds. disposeSubscriptionCorrections c = Inr (issuedPence, ds) \<and>
    map ds_correctionId ds = sort (map co_correctionId (ci_corrections c)) \<and>
    (\<lambda>d. (ds_correctionId d, ds_fullPence d)) ` set ds = (\<lambda>x. (co_correctionId x, co_pence x)) ` set (ci_corrections c) \<and>
    issuedPence = min (ci_maximumPence c) (ci_principalPence c + sum_list (map (\<lambda>x. max 0 (co_pence x)) (ci_corrections c))) \<and>
    issuedPence = ci_principalPence c + sum_list (map ds_appliedPence ds) \<and>
    (\<forall>n. ci_principalPence c + sum_list (map ds_appliedPence (take n ds)) =
      min (ci_maximumPence c) (ci_principalPence c + sum_list (map (\<lambda>d. max 0 (ds_fullPence d)) (take n ds)))) \<and>
    (\<forall>d\<in>set ds. 0 \<le> ds_appliedPence d \<and> 0 \<le> ds_uncollectedPence d \<and>
      ds_appliedPence d + ds_uncollectedPence d = max 0 (ds_fullPence d) \<and>
      (ds_requiresAlert d \<longleftrightarrow> 0 < ds_uncollectedPence d) \<and> (ds_negativeHeld d \<longleftrightarrow> ds_fullPence d < 0)) \<and>
    (\<forall>cs. mset cs = mset (ci_corrections c) \<and> subscriptionCorrectionDispositionV1 (c\<lparr>ci_corrections := cs\<rparr>) \<longrightarrow>
      disposeSubscriptionCorrections (c\<lparr>ci_corrections := cs\<rparr>) = Inr (issuedPence, ds))"
proof -
  let ?lt = "\<lambda>a b. co_correctionId a < co_correctionId b" and ?max = "ci_maximumPence c" and ?prin = "ci_principalPence c"
  let ?sorted = "sort_by ?lt (ci_corrections c)"
  have distinct: "distinct (map co_correctionId (ci_corrections c))" and le: "?prin \<le> ?max"
    using assms by (simp_all add: subscriptionCorrectionDispositionV1_def length_remdups_map)
  obtain issuedPence ds where d: "dispose ?max ?prin ?sorted = (issuedPence, ds)" by fastforce
  have same: "sort_by ?lt cs = ?sorted" if "mset cs = mset (ci_corrections c)" for cs
    by (rule sort_by_unique [where f = co_correctionId]) (use distinct that in auto)
  have "sorted_wrt (\<lambda>a b. \<not> ?lt b a) ?sorted" by (rule sorted_wrt_sort_by) auto
  then have "sorted (map co_correctionId ?sorted)" by (simp add: sorted_wrt_map not_less)
  then have order: "map co_correctionId ?sorted = sort (map co_correctionId (ci_corrections c))"
    by (intro properties_for_sort [symmetric]) simp_all
  note sound = dispose_sound [OF le d]
  have full: "map (\<lambda>d. (ds_correctionId d, ds_fullPence d)) ds = map (\<lambda>x. (co_correctionId x, co_pence x)) ?sorted" using sound by simp
  have "map ds_correctionId ds = map co_correctionId ?sorted" using arg_cong [OF full, of "map fst"] by (simp add: comp_def)
  then have ids: "map ds_correctionId ds = sort (map co_correctionId (ci_corrections c))" using order by simp
  have "set (map (\<lambda>d. (ds_correctionId d, ds_fullPence d)) ds) = set (map (\<lambda>x. (co_correctionId x, co_pence x)) ?sorted)" by (simp only: full)
  then have pairs: "(\<lambda>d. (ds_correctionId d, ds_fullPence d)) ` set ds = (\<lambda>x. (co_correctionId x, co_pence x)) ` set (ci_corrections c)" by simp
  have prefix: "?prin + sum_list (map ds_appliedPence (take n ds)) =
      min ?max (?prin + sum_list (map (\<lambda>d. max 0 (ds_fullPence d)) (take n ds)))" for n
  proof -
    note s = dispose_sound [OF le dispose_take [OF d, of n]]
    have "map (\<lambda>d. (ds_correctionId d, ds_fullPence d)) (take n ds) = map (\<lambda>x. (co_correctionId x, co_pence x)) (take n ?sorted)" using s by simp
    from arg_cong [OF this, of "map (\<lambda>p. max 0 (snd p))"]
    have "map (\<lambda>d. max 0 (ds_fullPence d)) (take n ds) = map (\<lambda>x. max 0 (co_pence x)) (take n ?sorted)" by (simp add: comp_def)
    with s show ?thesis by simp
  qed
  have issued: "issuedPence = min ?max (?prin + sum_list (map (\<lambda>x. max 0 (co_pence x)) (ci_corrections c)))"
    using sound by (simp only: sum_list_sort_by)
  have run: "disposeSubscriptionCorrections c = Inr (issuedPence, ds)" using assms d by (simp add: disposeSubscriptionCorrections_def)
  have perm: "disposeSubscriptionCorrections (c\<lparr>ci_corrections := cs\<rparr>) = Inr (issuedPence, ds)"
    if "mset cs = mset (ci_corrections c)" "subscriptionCorrectionDispositionV1 (c\<lparr>ci_corrections := cs\<rparr>)" for cs
    using that(2) d same [OF that(1)] by (simp add: disposeSubscriptionCorrections_def)
  have each: "issuedPence = ?prin + sum_list (map ds_appliedPence ds)"
    "\<forall>d\<in>set ds. 0 \<le> ds_appliedPence d \<and> 0 \<le> ds_uncollectedPence d \<and>
      ds_appliedPence d + ds_uncollectedPence d = max 0 (ds_fullPence d) \<and>
      (ds_requiresAlert d \<longleftrightarrow> 0 < ds_uncollectedPence d) \<and> (ds_negativeHeld d \<longleftrightarrow> ds_fullPence d < 0)" using sound by simp_all
  show ?thesis
    by (intro exI [of _ issuedPence] exI [of _ ds] conjI allI impI; (elim conjE)?)
      (rule run ids pairs issued each prefix perm; assumption?)+
qed

section \<open>Concrete inputs\<close>

definition sample_pennies :: penny_allocation where
  "sample_pennies = \<lparr>pa_lines = [\<lparr>pl_lineKey = ''b'', pl_numeratorPence = ''100''\<rparr>, \<lparr>pl_lineKey = ''a'', pl_numeratorPence = ''101''\<rparr>,
     \<lparr>pl_lineKey = ''c'', pl_numeratorPence = ''0''\<rparr>], pa_denominatorDays = 30, pa_targetPence = 7\<rparr>"

theorem subscription_pennies_exact_witness:
  "\<exists>rows. allocateSubscriptionPennies sample_pennies = Inr rows \<and> sum_list (map snd rows) = 7 \<and> map fst rows = [''a'', ''b'', ''c'']"
proof -
  have valid: "subscriptionPennyAllocationV1 sample_pennies" by code_simp
  have target: "penny_sum sample_pennies \<le> MAX_MONEY_PENCE * pa_denominatorDays sample_pennies \<and>
      round_div Half_even (penny_sum sample_pennies) (pa_denominatorDays sample_pennies) = pa_targetPence sample_pennies" by code_simp
  have facts: "sort (map pl_lineKey (pa_lines sample_pennies)) = [''a'', ''b'', ''c'']" "pa_targetPence sample_pennies = 7" by code_simp+
  from subscription_pennies_exact [OF valid, unfolded if_P [OF target]] show ?thesis
    unfolding facts by (elim exE conjE) (intro exI conjI; assumption)
qed

definition sample_day :: allocation_day where
  "sample_day = \<lparr>ay_date = 20000, ay_plan = Solo, ay_sourceRevision = 1, ay_jobs = sample_jobs\<rparr>"

theorem subscription_day_attribution_witness:
  "\<exists>counted rows. allocateSubscriptionDay sample_day = Inr (counted, rows) \<and> counted = int (length rows) - 1 \<and>
     count_of Small_allowance rows = 1"
proof -
  have "case allocateSubscriptionDay sample_day of Inl e \<Rightarrow> False | Inr (counted, rows) \<Rightarrow> count_of Small_allowance rows = 1" by code_simp
  then obtain counted rows where r: "allocateSubscriptionDay sample_day = Inr (counted, rows)" "count_of Small_allowance rows = 1"
    by (auto split: sum.splits)
  from subscription_day_attribution [OF r(1)] r show ?thesis by auto
qed

definition sample_corrections :: correction_input where
  "sample_corrections = \<lparr>ci_principalPence = 4000, ci_maximumPence = 4900,
     ci_corrections = [\<lparr>co_correctionId = ''y'', co_pence = 600\<rparr>, \<lparr>co_correctionId = ''x'', co_pence = 500\<rparr>, \<lparr>co_correctionId = ''z'', co_pence = - 50\<rparr>]\<rparr>"

theorem subscription_corrections_capped_witness:
  "\<exists>ds. disposeSubscriptionCorrections sample_corrections = Inr (4900, ds) \<and> sum_list (map ds_appliedPence ds) = 900"
proof -
  have "subscriptionCorrectionDispositionV1 sample_corrections" by code_simp
  from subscription_corrections_capped [OF this] show ?thesis by (auto simp: sample_corrections_def)
qed

end
