(* ===== verification/Shadow_Signal.thy ===== *)
theory Shadow_Signal
  imports Schemas Receipt_Allocation
begin

text \<open>
  Model of \<^verbatim>\<open>packages/core/src/shadow-domain/types.ts\<close>, \<^verbatim>\<open>signal.ts\<close> and \<^verbatim>\<open>must-surface.ts\<close>: the
  signals of the shadow pilot, which records what it would have surfaced and reveals it only after
  the final account is locked. A signal is created from a proposal, moved by events and merged with a
  duplicate; what may become a recovery case depends on what the builder could see before the lock.
  A spread of \<^verbatim>\<open>shadowBinding\<close> into a schema is an extension of the record \<open>shadow_binding\<close>.
\<close>

section \<open>Vocabulary\<close>

datatype shadow_error =
  Sh_invalid_input | Sh_invalid_transition | Sh_stale_revision | Sh_source_binding_mismatch | Sh_duplicate_identity

datatype signal_state =
  Sg_candidate | Sg_held_for_final_check | Sg_reconciled | Sg_revealed | Sg_dismissed | Sg_confirmed_extra
| Sg_attribution_disputed | Sg_recovery_case_created | Sg_surfaced_early

datatype reconciled_outcome =
  Out_already_in_original_scope | Out_builder_captured | Out_already_on_final_account | Out_duplicate_signal
| Out_not_enough_evidence

datatype dismissal_reason =
  Dis_already_included | Dis_in_original_scope | Dis_not_completed | Dis_not_chargeable | Dis_wrong_job_or_evidence

datatype disclosure_route =
  Via_must_surface_override | Via_support_conversation | Via_export | Via_data_subject_access | Via_defect
| Via_tell_me_now | Via_trial_job_live | Via_paid_human_review | Via_drawing_review | Via_upgrade_bridge

datatype ineligibility_reason =
  Why_disclosed_before_lock | Why_surfaced_early | Why_evidence_after_lock | Why_pre_adoption_evidence
| Why_attribution_disputed

datatype lock_timing = Before_lock | After_lock
datatype adoption_timing = Before_adoption | After_adoption
datatype detector_kind = Deterministic | Ai_proposal
datatype confidence_band = Band_low | Band_medium | Band_high
datatype lock_phase = Pre_lock | Post_lock

record shadow_binding =
  sh_tenantId :: string
  sh_jobId :: string
  sh_workId :: string

definition sameShadowBinding :: "'a shadow_binding_scheme \<Rightarrow> 'b shadow_binding_scheme \<Rightarrow> bool" where
  "sameShadowBinding a b \<longleftrightarrow> sh_tenantId a = sh_tenantId b \<and> sh_jobId a = sh_jobId b \<and> sh_workId a = sh_workId b"

definition shadowRef :: "string \<Rightarrow> bool" where
  "shadowRef s \<longleftrightarrow> text_within 300 s"

record shadow_ineligibility =
  in_reason :: ineligibility_reason
  in_sourceRef :: string
  in_at :: string
  in_disclosureRoute :: "disclosure_route option"

definition shadowIneligibilityV1 :: "shadow_ineligibility \<Rightarrow> bool" where
  "shadowIneligibilityV1 i \<longleftrightarrow> shadowRef (in_sourceRef i) \<and> instantV1 (in_at i)"

record shadow_evidence = shadow_binding +
  sv_signalId :: string
  sv_evidenceId :: string
  sv_objectVersionId :: string
  sv_sha256 :: string
  sv_sourceReceivedAt :: string
  sv_lockTiming :: lock_timing
  sv_adoptionTiming :: adoption_timing

definition shadowEvidenceV1 :: "shadow_evidence \<Rightarrow> bool" where
  "shadowEvidenceV1 e \<longleftrightarrow> shadowRef (sv_objectVersionId e) \<and> sha_text (sv_sha256 e) \<and> instantV1 (sv_sourceReceivedAt e)"

record shadow_proposal = shadow_binding +
  sp_signalId :: string
  sp_signalType :: string
  sp_detectorKind :: detector_kind
  sp_detectorVersion :: string
  sp_createdAt :: string
  sp_evidenceCutoffAt :: string
  sp_description :: string
  sp_estimatedValuePence :: "int option"
  sp_confidenceBand :: confidence_band
  sp_mustSurfaceNow :: bool
  sp_evidence :: "shadow_evidence list"

definition shadowProposalV1 :: "'a shadow_proposal_scheme \<Rightarrow> bool" where
  "shadowProposalV1 p \<longleftrightarrow> shadowRef (sp_signalType p) \<and> shadowRef (sp_detectorVersion p) \<and>
     instantV1 (sp_createdAt p) \<and> instantV1 (sp_evidenceCutoffAt p) \<and> text_within 4000 (sp_description p) \<and>
     pred_option amount_ok (sp_estimatedValuePence p) \<and> sp_evidence p \<noteq> [] \<and> list_all shadowEvidenceV1 (sp_evidence p)"

definition uniqueShadowIds :: "string list \<Rightarrow> shadow_error + unit" where
  "uniqueShadowIds ids = guard_r (distinct ids) Sh_duplicate_identity"

definition evidence_key :: "shadow_evidence \<Rightarrow> string" where
  "evidence_key e = sv_signalId e @ '':'' @ sv_evidenceId e @ '':'' @ sv_objectVersionId e"

definition cited_in :: "shadow_evidence list \<Rightarrow> shadow_evidence \<Rightarrow> bool" where
  "cited_in inventory link =
     (case filter (\<lambda>v. sv_evidenceId v = sv_evidenceId link \<and> sv_objectVersionId v = sv_objectVersionId link) inventory of
        [found] \<Rightarrow> found = link
      | _ \<Rightarrow> False)"

definition validateShadowEvidence :: "shadow_evidence list \<Rightarrow> shadow_evidence list \<Rightarrow> shadow_error + shadow_evidence list" where
  "validateShadowEvidence links inventory =
     (if \<not> (links \<noteq> [] \<and> list_all shadowEvidenceV1 links) then Inl Sh_invalid_input
      else if \<not> list_all (cited_in inventory) links then Inl Sh_source_binding_mismatch
      else bind_r (uniqueShadowIds (map evidence_key links)) (\<lambda>_. Inr links))"

section \<open>Signals\<close>

record phase_fact =
  pf_phase :: lock_phase
  pf_lockId :: "string option"

definition shadowPhaseV1 :: "phase_fact \<Rightarrow> bool" where
  "shadowPhaseV1 p \<longleftrightarrow> (pf_phase p = Pre_lock) = (pf_lockId p = None)"

record shadow_dismissal =
  sd_reason :: dismissal_reason
  sd_referenceId :: "string option"

record shadow_signal = shadow_proposal +
  sg_revision :: int
  sg_state :: signal_state
  sg_lockId :: "string option"
  sg_disclosedBeforeLock :: bool
  sg_firstBuilderVisibleAt :: "string option"
  sg_outcome :: "reconciled_outcome option"
  sg_matchReferenceId :: "string option"
  sg_dismissal :: "shadow_dismissal option"
  sg_coalescedIntoSignalId :: "string option"
  sg_humanReviewRef :: "string option"
  sg_ineligibility :: "shadow_ineligibility list"

definition has_reason :: "ineligibility_reason \<Rightarrow> shadow_signal \<Rightarrow> bool" where
  "has_reason r s \<longleftrightarrow> list_ex (\<lambda>i. in_reason i = r) (sg_ineligibility s)"

definition shadowSignalV1 :: "shadow_signal \<Rightarrow> bool" where
  "shadowSignalV1 s \<longleftrightarrow> shadowProposalV1 s \<and> counter_ok (sg_revision s) \<and>
     pred_option instantV1 (sg_firstBuilderVisibleAt s) \<and> pred_option shadowRef (sg_humanReviewRef s) \<and>
     list_all shadowIneligibilityV1 (sg_ineligibility s) \<and>
     (\<not> sg_disclosedBeforeLock s \<or> (sg_firstBuilderVisibleAt s \<noteq> None \<and> has_reason Why_disclosed_before_lock s)) \<and>
     sg_disclosedBeforeLock s = has_reason Why_disclosed_before_lock s \<and>
     (sg_state s \<noteq> Sg_surfaced_early \<or> sg_disclosedBeforeLock s)"

definition parse_signal :: "shadow_signal \<Rightarrow> shadow_error + shadow_signal" where
  "parse_signal s = (if shadowSignalV1 s then Inr s else Inl Sh_invalid_input)"

text \<open>\<^verbatim>\<open>add\<close> of \<^verbatim>\<open>createShadowSignal\<close> and the list it builds.\<close>

definition creation_reason :: "shadow_proposal \<Rightarrow> ineligibility_reason \<Rightarrow> string \<Rightarrow> shadow_ineligibility" where
  "creation_reason p r ref = \<lparr>in_reason = r, in_sourceRef = ref, in_at = sp_createdAt p,
     in_disclosureRoute = (if r = Why_disclosed_before_lock \<or> r = Why_surfaced_early then Some Via_must_surface_override else None)\<rparr>"

definition creation_reasons :: "shadow_proposal \<Rightarrow> phase_fact \<Rightarrow> shadow_ineligibility list" where
  "creation_reasons p ph =
     (if pf_phase ph = Post_lock \<or> list_ex (\<lambda>e. sv_lockTiming e = After_lock) (sp_evidence p)
      then [creation_reason p Why_evidence_after_lock (sv_evidenceId (hd (sp_evidence p)))] else []) @
     (case find (\<lambda>e. sv_adoptionTiming e = Before_adoption) (sp_evidence p) of
        Some e \<Rightarrow> [creation_reason p Why_pre_adoption_evidence (sv_evidenceId e)] | None \<Rightarrow> []) @
     (if sp_mustSurfaceNow p \<and> pf_phase ph = Pre_lock
      then [creation_reason p Why_surfaced_early ''must_surface_override'',
            creation_reason p Why_disclosed_before_lock ''must_surface_override''] else [])"

definition new_signal :: "shadow_proposal \<Rightarrow> phase_fact \<Rightarrow> shadow_signal" where
  "new_signal p ph = shadow_proposal.extend p
     \<lparr>sg_revision = 0,
      sg_state = (if sp_mustSurfaceNow p \<and> pf_phase ph = Pre_lock then Sg_surfaced_early
        else if pf_phase ph = Post_lock then Sg_revealed else Sg_candidate),
      sg_lockId = pf_lockId ph,
      sg_disclosedBeforeLock = (sp_mustSurfaceNow p \<and> pf_phase ph = Pre_lock),
      sg_firstBuilderVisibleAt = (if sp_mustSurfaceNow p \<or> pf_phase ph = Post_lock then Some (sp_createdAt p) else None),
      sg_outcome = None, sg_matchReferenceId = None, sg_dismissal = None, sg_coalescedIntoSignalId = None,
      sg_humanReviewRef = None, sg_ineligibility = creation_reasons p ph\<rparr>"

definition createShadowSignal :: "shadow_proposal \<Rightarrow> phase_fact \<Rightarrow> shadow_evidence list \<Rightarrow> shadow_error + shadow_signal" where
  "createShadowSignal p ph inventory =
     (if \<not> (shadowProposalV1 p \<and> shadowPhaseV1 ph) then Inl Sh_invalid_input
      else bind_r (validateShadowEvidence (sp_evidence p) inventory) (\<lambda>_.
      if list_ex (\<lambda>e. \<not> sameShadowBinding e p \<or> sv_signalId e \<noteq> sp_signalId p) (sp_evidence p)
      then Inl Sh_source_binding_mismatch
      else parse_signal (new_signal p ph)))"

section \<open>Events\<close>

datatype shadow_event_type =
  Se_hold | Se_reveal | Se_reconcile reconciled_outcome "string option" | Se_dismiss dismissal_reason "string option"
| Se_confirm | Se_dispute | Se_human_confirm string | Se_human_dismiss dismissal_reason "string option" string
| Se_mark_recovery_case | Se_disclose disclosure_route

record shadow_event = shadow_binding +
  se_signalId :: string
  se_expectedRevision :: int
  se_phase :: lock_phase
  se_lockId :: "string option"
  se_at :: string
  se_sourceRef :: string
  se_type :: shadow_event_type

definition shadowEventV1 :: "shadow_event \<Rightarrow> bool" where
  "shadowEventV1 e \<longleftrightarrow> counter_ok (se_expectedRevision e) \<and> instantV1 (se_at e) \<and> shadowRef (se_sourceRef e) \<and>
     (case se_type e of Se_human_confirm r \<Rightarrow> shadowRef r | Se_human_dismiss _ _ r \<Rightarrow> shadowRef r | _ \<Rightarrow> True) \<and>
     (se_phase e = Pre_lock) = (se_lockId e = None)"

record shadow_references =
  sr_lockedLineIds :: "string list"
  sr_baselineItemIds :: "string list"

definition event_reason :: "shadow_event \<Rightarrow> ineligibility_reason \<Rightarrow> shadow_ineligibility" where
  "event_reason e r = \<lparr>in_reason = r, in_sourceRef = se_sourceRef e, in_at = se_at e,
     in_disclosureRoute = (case se_type e of Se_disclose route \<Rightarrow> Some route | _ \<Rightarrow> None)\<rparr>"

definition refers_to :: "string list \<Rightarrow> string option \<Rightarrow> bool" where
  "refers_to ids r \<longleftrightarrow> (case r of None \<Rightarrow> '''' | Some i \<Rightarrow> i) \<in> set ids"

definition disclosed :: "shadow_signal \<Rightarrow> shadow_event \<Rightarrow> shadow_signal" where
  "disclosed s e = s\<lparr>sg_revision := sg_revision s + 1, sg_state := Sg_surfaced_early, sg_disclosedBeforeLock := True,
     sg_firstBuilderVisibleAt := (case sg_firstBuilderVisibleAt s of None \<Rightarrow> Some (se_at e) | Some t \<Rightarrow> Some t),
     sg_ineligibility := sg_ineligibility s @ [event_reason e Why_disclosed_before_lock, event_reason e Why_surfaced_early]\<rparr>"

definition reconciled_with :: "shadow_signal \<Rightarrow> shadow_references \<Rightarrow> reconciled_outcome \<Rightarrow> string option \<Rightarrow> shadow_error + shadow_signal" where
  "reconciled_with n refs oc ref =
     (if oc \<noteq> Out_not_enough_evidence \<and> ref = None then Inl Sh_invalid_transition
      else if oc = Out_already_in_original_scope \<and> \<not> refers_to (sr_baselineItemIds refs) ref then Inl Sh_invalid_transition
      else if oc = Out_already_on_final_account \<and> \<not> refers_to (sr_lockedLineIds refs) ref then Inl Sh_invalid_transition
      else Inr (n\<lparr>sg_state := Sg_reconciled, sg_outcome := Some oc, sg_matchReferenceId := ref\<rparr>))"

definition dismissal_matched :: "shadow_references \<Rightarrow> dismissal_reason \<Rightarrow> string option \<Rightarrow> bool" where
  "dismissal_matched refs r ref =
     (if r = Dis_already_included then refers_to (sr_lockedLineIds refs) ref
      else if r = Dis_in_original_scope then refers_to (sr_baselineItemIds refs) ref else True)"

definition disputed :: "shadow_signal \<Rightarrow> shadow_event \<Rightarrow> shadow_signal" where
  "disputed n e = n\<lparr>sg_state := Sg_attribution_disputed,
     sg_ineligibility := sg_ineligibility n @ [event_reason e Why_attribution_disputed]\<rparr>"

definition dismissed :: "shadow_signal \<Rightarrow> shadow_event \<Rightarrow> shadow_references \<Rightarrow> dismissal_reason \<Rightarrow> string option \<Rightarrow> shadow_signal" where
  "dismissed n e refs r ref =
     (if dismissal_matched refs r ref
      then n\<lparr>sg_state := Sg_dismissed, sg_dismissal := Some \<lparr>sd_reason = r, sd_referenceId = ref\<rparr>\<rparr>
      else (disputed n e)\<lparr>sg_dismissal := None\<rparr>)"

text \<open>The \<^verbatim>\<open>switch\<close> over the events of the phase after the lock; \<open>n\<close> is \<^verbatim>\<open>next\<close> with its lock set.\<close>

definition post_lock_event :: "shadow_signal \<Rightarrow> shadow_event \<Rightarrow> shadow_references \<Rightarrow> shadow_error + shadow_signal" where
  "post_lock_event n e refs =
     (let from_state = (\<lambda>st r. if sg_state n \<noteq> st then Inl Sh_invalid_transition else r) in
      case se_type e of
        Se_reveal \<Rightarrow> from_state Sg_held_for_final_check
          (Inr (n\<lparr>sg_state := Sg_revealed, sg_firstBuilderVisibleAt := Some (se_at e)\<rparr>))
      | Se_reconcile oc ref \<Rightarrow> from_state Sg_held_for_final_check (reconciled_with n refs oc ref)
      | Se_dismiss r ref \<Rightarrow> from_state Sg_revealed (Inr (dismissed n e refs r ref))
      | Se_human_dismiss r ref review \<Rightarrow> from_state Sg_attribution_disputed
          (Inr (dismissed (n\<lparr>sg_humanReviewRef := Some review\<rparr>) e refs r ref))
      | Se_confirm \<Rightarrow> from_state Sg_revealed (Inr (n\<lparr>sg_state := Sg_confirmed_extra\<rparr>))
      | Se_human_confirm review \<Rightarrow> from_state Sg_attribution_disputed
          (Inr (n\<lparr>sg_state := Sg_confirmed_extra, sg_humanReviewRef := Some review\<rparr>))
      | Se_dispute \<Rightarrow> from_state Sg_revealed (Inr (disputed n e))
      | Se_mark_recovery_case \<Rightarrow> from_state Sg_confirmed_extra (Inr (n\<lparr>sg_state := Sg_recovery_case_created\<rparr>))
      | _ \<Rightarrow> Inr n)"

definition moved :: "shadow_signal \<Rightarrow> shadow_event \<Rightarrow> shadow_references \<Rightarrow> shadow_error + shadow_signal" where
  "moved s e refs =
     (let n = s\<lparr>sg_revision := sg_revision s + 1\<rparr> in
      case se_type e of
        Se_disclose _ \<Rightarrow> if se_phase e \<noteq> Pre_lock then Inl Sh_invalid_transition else Inr (disclosed s e)
      | Se_hold \<Rightarrow> if sg_state s = Sg_surfaced_early then Inl Sh_invalid_transition
          else if sg_state s \<noteq> Sg_candidate \<or> se_phase e \<noteq> Pre_lock then Inl Sh_invalid_transition
          else Inr (n\<lparr>sg_state := Sg_held_for_final_check\<rparr>)
      | _ \<Rightarrow> if sg_state s = Sg_surfaced_early then Inl Sh_invalid_transition
          else if se_phase e \<noteq> Post_lock then Inl Sh_invalid_transition
          else post_lock_event (n\<lparr>sg_lockId := se_lockId e\<rparr>) e refs)"

definition transitionShadowSignal :: "shadow_signal \<Rightarrow> shadow_event \<Rightarrow> shadow_references \<Rightarrow> shadow_error + shadow_signal" where
  "transitionShadowSignal s e refs =
     (if \<not> (shadowSignalV1 s \<and> shadowEventV1 e) then Inl Sh_invalid_input
      else if \<not> sameShadowBinding s e \<or> sp_signalId s \<noteq> se_signalId e then Inl Sh_source_binding_mismatch
      else if sg_revision s \<noteq> se_expectedRevision e then Inl Sh_stale_revision
      else if sg_lockId s \<noteq> None \<and> sg_lockId s \<noteq> se_lockId e then Inl Sh_invalid_transition
      else bind_r (moved s e refs) parse_signal)"

section \<open>Duplicates\<close>

record coalescing_facts = shadow_binding +
  cf_sourceRef :: string
  cf_expectedPrimaryRevision :: int
  cf_expectedDuplicateRevision :: int

definition shadowCoalescingV1 :: "coalescing_facts \<Rightarrow> bool" where
  "shadowCoalescingV1 f \<longleftrightarrow> shadowRef (cf_sourceRef f) \<and> counter_ok (cf_expectedPrimaryRevision f) \<and>
     counter_ok (cf_expectedDuplicateRevision f)"

definition mergeable :: "shadow_signal \<Rightarrow> bool" where
  "mergeable s \<longleftrightarrow> sg_state s \<in> {Sg_candidate, Sg_held_for_final_check, Sg_surfaced_early}"

definition add_evidence ::
  "(string \<times> shadow_evidence) list \<Rightarrow> shadow_evidence \<Rightarrow> shadow_error + (string \<times> shadow_evidence) list" where
  "add_evidence m e = (case map_of m (evidence_key e) of
       Some previous \<Rightarrow> if previous \<noteq> e then Inl Sh_source_binding_mismatch else Inr (AList.update (evidence_key e) e m)
     | None \<Rightarrow> Inr (AList.update (evidence_key e) e m))"

definition merged_primary :: "shadow_signal \<Rightarrow> shadow_signal \<Rightarrow> shadow_evidence list \<Rightarrow> shadow_signal" where
  "merged_primary a b es = a\<lparr>sg_revision := sg_revision a + 1, sp_evidence := es,
     sg_ineligibility := sg_ineligibility a @ sg_ineligibility b,
     sg_disclosedBeforeLock := (sg_disclosedBeforeLock a \<or> sg_disclosedBeforeLock b),
     sg_firstBuilderVisibleAt := (case sg_firstBuilderVisibleAt a of None \<Rightarrow> sg_firstBuilderVisibleAt b | Some t \<Rightarrow> Some t),
     sg_state := (if sg_disclosedBeforeLock a \<or> sg_disclosedBeforeLock b then Sg_surfaced_early else sg_state a)\<rparr>"

definition merged_duplicate :: "shadow_signal \<Rightarrow> shadow_signal \<Rightarrow> shadow_signal" where
  "merged_duplicate a b = b\<lparr>sg_revision := sg_revision b + 1,
     sg_state := (if sg_disclosedBeforeLock a \<or> sg_disclosedBeforeLock b then Sg_surfaced_early else Sg_reconciled),
     sg_outcome := Some Out_duplicate_signal, sg_coalescedIntoSignalId := Some (sp_signalId a),
     sg_ineligibility := sg_ineligibility a @ sg_ineligibility b,
     sg_disclosedBeforeLock := (sg_disclosedBeforeLock a \<or> sg_disclosedBeforeLock b),
     sg_firstBuilderVisibleAt := (case sg_firstBuilderVisibleAt b of None \<Rightarrow> sg_firstBuilderVisibleAt a | Some t \<Rightarrow> Some t)\<rparr>"

definition coalesceShadowSignals ::
  "shadow_signal \<Rightarrow> shadow_signal \<Rightarrow> coalescing_facts \<Rightarrow> shadow_error + shadow_signal \<times> shadow_signal" where
  "coalesceShadowSignals a b f =
     (if \<not> (shadowSignalV1 a \<and> shadowSignalV1 b \<and> shadowCoalescingV1 f) then Inl Sh_invalid_input
      else if \<not> sameShadowBinding a b \<or> \<not> sameShadowBinding a f \<or> sp_signalId a = sp_signalId b \<or> sg_lockId a \<noteq> sg_lockId b \<or>
        sg_coalescedIntoSignalId a \<noteq> None \<or> sg_coalescedIntoSignalId b \<noteq> None then Inl Sh_source_binding_mismatch
      else if sg_revision a \<noteq> cf_expectedPrimaryRevision f \<or> sg_revision b \<noteq> cf_expectedDuplicateRevision f
      then Inl Sh_stale_revision
      else if \<not> mergeable a \<or> \<not> mergeable b then Inl Sh_invalid_transition
      else bind_r (fold_r add_evidence [] (sp_evidence a @ sp_evidence b)) (\<lambda>byIdentity.
           bind_r (parse_signal (merged_primary a b (map snd byIdentity))) (\<lambda>p.
           bind_r (parse_signal (merged_duplicate a b)) (\<lambda>d. Inr (p, d)))))"

section \<open>What must surface at once\<close>

record significance =
  sw_sourceRef :: string
  sw_significant :: bool

record must_surface =
  ms_safetyImplication :: bool
  ms_customerClearlyRequested :: bool
  ms_needsPriorWrittenAgreement :: bool
  ms_significantWork :: "significance option"
  ms_activeDispute :: bool
  ms_silenceMateriallyWorsensDispute :: bool
  ms_disclosureDuty :: bool
  ms_sourceRef :: string

datatype surface_rule = Rule_safety | Rule_prior_written_agreement | Rule_worsening_dispute | Rule_disclosure_duty

record fired_rule =
  fr_rule :: surface_rule
  fr_sourceRef :: string
  fr_policyFactRef :: "string option"

definition shadowMustSurfaceV1 :: "must_surface \<Rightarrow> bool" where
  "shadowMustSurfaceV1 f \<longleftrightarrow> shadowRef (ms_sourceRef f) \<and> pred_option (\<lambda>w. shadowRef (sw_sourceRef w)) (ms_significantWork f) \<and>
     \<not> (ms_customerClearlyRequested f \<and> ms_needsPriorWrittenAgreement f \<and> ms_significantWork f = None)"

definition fires :: "must_surface \<Rightarrow> surface_rule \<Rightarrow> bool" where
  "fires f r = (case r of
       Rule_safety \<Rightarrow> ms_safetyImplication f
     | Rule_prior_written_agreement \<Rightarrow> ms_customerClearlyRequested f \<and> ms_needsPriorWrittenAgreement f \<and>
         (case ms_significantWork f of None \<Rightarrow> False | Some w \<Rightarrow> sw_significant w)
     | Rule_worsening_dispute \<Rightarrow> ms_activeDispute f \<and> ms_silenceMateriallyWorsensDispute f
     | Rule_disclosure_duty \<Rightarrow> ms_disclosureDuty f)"

definition evaluateMustSurface ::
  "must_surface \<Rightarrow> shadow_error + fired_rule list \<times> (ineligibility_reason \<times> string) list" where
  "evaluateMustSurface f =
     (if \<not> shadowMustSurfaceV1 f then Inl Sh_invalid_input
      else let fired = map (\<lambda>r. \<lparr>fr_rule = r, fr_sourceRef = ms_sourceRef f,
             fr_policyFactRef = (if r = Rule_prior_written_agreement then map_option sw_sourceRef (ms_significantWork f) else None)\<rparr>)
             (filter (fires f) [Rule_safety, Rule_prior_written_agreement, Rule_worsening_dispute, Rule_disclosure_duty]) in
        Inr (fired, if fired = [] then [] else
          [(Why_surfaced_early, ms_sourceRef f), (Why_disclosed_before_lock, ms_sourceRef f)]))"

lemma evaluateMustSurface_reasons:
  assumes "evaluateMustSurface f = Inr (fired, reasons)"
  shows "(reasons = [] \<longleftrightarrow> (\<forall>r. \<not> fires f r)) \<and> distinct (map fr_rule fired) \<and> (\<forall>x\<in>set fired. fires f (fr_rule x))"
proof -
  let ?rs = "[Rule_safety, Rule_prior_written_agreement, Rule_worsening_dispute, Rule_disclosure_duty]"
  have all: "(\<forall>r. \<not> fires f r) \<longleftrightarrow> filter (fires f) ?rs = []"
    by (auto simp: filter_empty_conv) (metis surface_rule.exhaust)
  have "distinct (filter (fires f) ?rs)" by (intro distinct_filter) simp
  moreover from assms have m: "map fr_rule fired = filter (fires f) ?rs" and r: "reasons = [] \<longleftrightarrow> fired = []"
    unfolding evaluateMustSurface_def by (auto simp del: filter.simps simp: Let_def comp_def split: if_splits)
  moreover have "fires f (fr_rule x)" if "x \<in> set fired" for x
  proof -
    from that have "fr_rule x \<in> set (map fr_rule fired)" by simp
    then show ?thesis unfolding m set_filter by simp
  qed
  moreover have "fired = [] \<longleftrightarrow> filter (fires f) ?rs = []" unfolding m [symmetric] by simp
  ultimately show ?thesis unfolding all r by (simp del: filter.simps)
qed

section \<open>What a reachable signal is\<close>

text \<open>A signal the code can produce: created, moved by an event, or either result of a merge.\<close>

inductive shadow_reachable :: "shadow_signal \<Rightarrow> bool" where
  created: "createShadowSignal p ph inventory = Inr s \<Longrightarrow> shadow_reachable s"
| moved_on: "shadow_reachable s \<Longrightarrow> transitionShadowSignal s e refs = Inr t \<Longrightarrow> shadow_reachable t"
| primary_of: "shadow_reachable a \<Longrightarrow> shadow_reachable b \<Longrightarrow> coalesceShadowSignals a b f = Inr (p, d) \<Longrightarrow> shadow_reachable p"
| duplicate_of: "shadow_reachable a \<Longrightarrow> shadow_reachable b \<Longrightarrow> coalesceShadowSignals a b f = Inr (p, d) \<Longrightarrow> shadow_reachable d"

abbreviation after_reveal :: "signal_state \<Rightarrow> bool" where
  "after_reveal st \<equiv> st \<in> {Sg_revealed, Sg_dismissed, Sg_confirmed_extra, Sg_attribution_disputed, Sg_recovery_case_created}"

definition signal_inv :: "shadow_signal \<Rightarrow> bool" where
  "signal_inv s \<longleftrightarrow> (sg_disclosedBeforeLock s \<longleftrightarrow> sg_state s = Sg_surfaced_early) \<and>
     (sg_state s \<in> {Sg_candidate, Sg_held_for_final_check, Sg_surfaced_early} \<longrightarrow> sg_lockId s = None) \<and>
     (sg_state s \<in> {Sg_candidate, Sg_held_for_final_check} \<longrightarrow> sg_firstBuilderVisibleAt s = None \<and> sg_coalescedIntoSignalId s = None) \<and>
     (after_reveal (sg_state s) \<longrightarrow> sg_lockId s \<noteq> None \<and> sg_firstBuilderVisibleAt s \<noteq> None \<and> sg_coalescedIntoSignalId s = None) \<and>
     (has_reason Why_attribution_disputed s \<longrightarrow> sg_state s = Sg_attribution_disputed \<or>
        (sg_state s \<in> {Sg_dismissed, Sg_confirmed_extra, Sg_recovery_case_created} \<and> sg_humanReviewRef s \<noteq> None)) \<and>
     (sg_state s = Sg_attribution_disputed \<longrightarrow> has_reason Why_attribution_disputed s) \<and>
     (sg_dismissal s \<noteq> None \<longleftrightarrow> sg_state s = Sg_dismissed)"

lemma parse_signal_InrD: "parse_signal s = Inr t \<Longrightarrow> t = s \<and> shadowSignalV1 s"
  by (simp add: parse_signal_def split: if_splits)

lemma has_reason_simps [simp]:
  "has_reason r (s\<lparr>sg_state := st\<rparr>) = has_reason r s"
  "has_reason r (s\<lparr>sg_revision := n\<rparr>) = has_reason r s"
  "has_reason r (s\<lparr>sg_lockId := l\<rparr>) = has_reason r s"
  "has_reason r (s\<lparr>sg_disclosedBeforeLock := b\<rparr>) = has_reason r s"
  "has_reason r (s\<lparr>sg_firstBuilderVisibleAt := v\<rparr>) = has_reason r s"
  "has_reason r (s\<lparr>sg_outcome := oc\<rparr>) = has_reason r s"
  "has_reason r (s\<lparr>sg_matchReferenceId := m\<rparr>) = has_reason r s"
  "has_reason r (s\<lparr>sg_dismissal := dm\<rparr>) = has_reason r s"
  "has_reason r (s\<lparr>sg_coalescedIntoSignalId := c\<rparr>) = has_reason r s"
  "has_reason r (s\<lparr>sg_humanReviewRef := h\<rparr>) = has_reason r s"
  "has_reason r (s\<lparr>sg_ineligibility := is\<rparr>) = list_ex (\<lambda>i. in_reason i = r) is"
  "has_reason r (s\<lparr>sp_evidence := es\<rparr>) = has_reason r s"
  by (simp_all add: has_reason_def)

lemma list_ex_reasons: "list_ex (\<lambda>i. in_reason i = r) (sg_ineligibility s) = has_reason r s"
  by (simp add: has_reason_def)

lemma created_inv:
  assumes "createShadowSignal p ph inventory = Inr s"
  shows "signal_inv s"
proof -
  from assms have s: "s = new_signal p ph" and ph: "shadowPhaseV1 ph"
    unfolding createShadowSignal_def by (auto simp: result_simps dest: parse_signal_InrD split: if_splits)
  have "\<not> has_reason Why_attribution_disputed s"
    by (auto simp: s has_reason_def new_signal_def creation_reasons_def creation_reason_def shadow_proposal.defs split: option.splits)
  then show ?thesis using ph by (cases "pf_phase ph") (auto simp: s signal_inv_def new_signal_def shadowPhaseV1_def shadow_proposal.defs)
qed

lemma transition_InrD:
  assumes "transitionShadowSignal s e refs = Inr t"
  shows "moved s e refs = Inr t \<and> shadowSignalV1 s \<and> shadowSignalV1 t \<and> shadowEventV1 e \<and> (sg_lockId s \<noteq> None \<longrightarrow> sg_lockId s = se_lockId e)"
  using assms unfolding transitionShadowSignal_def result_simps by (auto dest: parse_signal_InrD split: if_splits)

lemmas move_defs = moved_def post_lock_event_def reconciled_with_def dismissed_def disputed_def disclosed_def Let_def

lemma moved_inv:
  assumes "signal_inv s" and "moved s e refs = Inr t" and "(se_phase e = Pre_lock) = (se_lockId e = None)"
    and "sg_lockId s \<noteq> None \<longrightarrow> sg_lockId s = se_lockId e"
  shows "signal_inv t"
proof (cases "se_type e")
  case (Se_disclose route)
  with assms(2) have t: "t = disclosed s e" and pre: "se_phase e = Pre_lock" by (simp_all add: moved_def split: if_splits)
  with assms(3,4) have l: "sg_lockId s = None" by auto
  with assms(1) have "\<not> after_reveal (sg_state s)" "sg_dismissal s = None" "\<not> has_reason Why_attribution_disputed s"
    unfolding signal_inv_def by (auto 4 0)
  then show ?thesis unfolding t signal_inv_def by (simp add: disclosed_def event_reason_def list_ex_reasons l)
next
  case (Se_dismiss r ref)
  with assms(2) have "sg_state s = Sg_revealed" by (simp add: move_defs split: if_splits)
  with Se_dismiss assms show ?thesis
    by (auto simp: signal_inv_def move_defs event_reason_def list_ex_reasons split: if_splits)
next
  case (Se_human_dismiss r ref review)
  with assms(2) have "sg_state s = Sg_attribution_disputed" by (simp add: move_defs split: if_splits)
  with Se_human_dismiss assms show ?thesis
    by (auto simp: signal_inv_def move_defs event_reason_def list_ex_reasons split: if_splits)
next
  case Se_hold
  with assms(2) have "sg_state s = Sg_candidate" by (simp add: move_defs split: if_splits)
  with Se_hold assms show ?thesis by (auto simp: signal_inv_def move_defs split: if_splits)
next
  case Se_reveal
  with assms(2) have "sg_state s = Sg_held_for_final_check" by (simp add: move_defs split: if_splits)
  with Se_reveal assms show ?thesis by (auto simp: signal_inv_def move_defs split: if_splits)
next
  case (Se_reconcile oc ref)
  with assms(2) have "sg_state s = Sg_held_for_final_check" by (simp add: move_defs split: if_splits)
  moreover from this Se_reconcile assms(2) have t: "t = s\<lparr>sg_revision := sg_revision s + 1, sg_lockId := se_lockId e,
      sg_state := Sg_reconciled, sg_outcome := Some oc, sg_matchReferenceId := ref\<rparr>"
    by (simp add: move_defs split: if_splits)
  ultimately show ?thesis using assms(1) unfolding t signal_inv_def by simp
next
  case Se_confirm
  with assms(2) have "sg_state s = Sg_revealed" by (simp add: move_defs split: if_splits)
  with Se_confirm assms show ?thesis by (auto simp: signal_inv_def move_defs split: if_splits)
next
  case (Se_human_confirm review)
  with assms(2) have "sg_state s = Sg_attribution_disputed" by (simp add: move_defs split: if_splits)
  with Se_human_confirm assms show ?thesis by (auto simp: signal_inv_def move_defs split: if_splits)
next
  case Se_dispute
  with assms(2) have "sg_state s = Sg_revealed" by (simp add: move_defs split: if_splits)
  with Se_dispute assms show ?thesis
    by (auto simp: signal_inv_def move_defs event_reason_def list_ex_reasons split: if_splits)
next
  case Se_mark_recovery_case
  with assms(2) have "sg_state s = Sg_confirmed_extra" by (simp add: move_defs split: if_splits)
  with Se_mark_recovery_case assms show ?thesis by (auto simp: signal_inv_def move_defs split: if_splits)
qed

lemma coalesceE:
  assumes "coalesceShadowSignals a b f = Inr (p, d)"
  obtains m where "fold_r add_evidence [] (sp_evidence a @ sp_evidence b) = Inr m" "p = merged_primary a b (map snd m)"
    "d = merged_duplicate a b" "shadowSignalV1 p" "shadowSignalV1 d" "mergeable a" "mergeable b"
    "sg_coalescedIntoSignalId a = None"
  using assms unfolding coalesceShadowSignals_def by (auto simp: result_simps split: if_splits dest: parse_signal_InrD)

lemma mergeable_inv:
  assumes "signal_inv x" "mergeable x"
  shows "sg_lockId x = None \<and> \<not> has_reason Why_attribution_disputed x \<and> sg_dismissal x = None \<and>
    (if sg_disclosedBeforeLock x then sg_state x = Sg_surfaced_early
     else (sg_state x = Sg_candidate \<or> sg_state x = Sg_held_for_final_check) \<and> sg_firstBuilderVisibleAt x = None)"
  using assms unfolding signal_inv_def mergeable_def by (elim conjE) (cases "sg_state x"; simp)

lemma merged_simps:
  "sg_state (merged_primary a b es) = (if sg_disclosedBeforeLock a \<or> sg_disclosedBeforeLock b then Sg_surfaced_early else sg_state a)"
  "sg_state (merged_duplicate a b) = (if sg_disclosedBeforeLock a \<or> sg_disclosedBeforeLock b then Sg_surfaced_early else Sg_reconciled)"
  "sg_disclosedBeforeLock (merged_primary a b es) = (sg_disclosedBeforeLock a \<or> sg_disclosedBeforeLock b)"
  "sg_disclosedBeforeLock (merged_duplicate a b) = (sg_disclosedBeforeLock a \<or> sg_disclosedBeforeLock b)"
  "has_reason r (merged_primary a b es) = (has_reason r a \<or> has_reason r b)"
  "has_reason r (merged_duplicate a b) = (has_reason r a \<or> has_reason r b)"
  "sg_firstBuilderVisibleAt (merged_primary a b es) =
     (case sg_firstBuilderVisibleAt a of None \<Rightarrow> sg_firstBuilderVisibleAt b | Some t \<Rightarrow> Some t)"
  "sg_lockId (merged_primary a b es) = sg_lockId a" "sg_lockId (merged_duplicate a b) = sg_lockId b"
  "sg_dismissal (merged_primary a b es) = sg_dismissal a" "sg_dismissal (merged_duplicate a b) = sg_dismissal b"
  "sg_coalescedIntoSignalId (merged_primary a b es) = sg_coalescedIntoSignalId a"
  by (simp_all add: merged_primary_def merged_duplicate_def list_ex_reasons)

lemma merged_inv:
  assumes a: "signal_inv a" "mergeable a" "sg_coalescedIntoSignalId a = None" and b: "signal_inv b" "mergeable b"
  shows "signal_inv (merged_primary a b es)" "signal_inv (merged_duplicate a b)"
proof -
  note x = mergeable_inv [OF a(1,2)] and y = mergeable_inv [OF b]
  show "signal_inv (merged_primary a b es)"
  proof (cases "sg_disclosedBeforeLock a \<or> sg_disclosedBeforeLock b")
    case True
    then show ?thesis using x y a(3) unfolding signal_inv_def merged_simps by simp
  next
    case False
    then show ?thesis using x y a(3) unfolding signal_inv_def merged_simps by auto
  qed
  show "signal_inv (merged_duplicate a b)"
    using x y unfolding signal_inv_def merged_simps by (cases "sg_disclosedBeforeLock a \<or> sg_disclosedBeforeLock b") simp_all
qed

lemma coalesce_inv:
  assumes "signal_inv a" "signal_inv b" "coalesceShadowSignals a b f = Inr (p, d)"
  shows "signal_inv p \<and> signal_inv d \<and> shadowSignalV1 p \<and> shadowSignalV1 d"
  using assms(3) by (rule coalesceE) (simp add: merged_inv assms(1,2))

lemma reachable_inv: "shadow_reachable s \<Longrightarrow> signal_inv s \<and> shadowSignalV1 s"
proof (induction rule: shadow_reachable.induct)
  case (created p ph inventory s)
  then have "shadowSignalV1 s" unfolding createShadowSignal_def
    by (auto simp: result_simps dest: parse_signal_InrD split: if_splits)
  with created_inv [OF created] show ?case ..
next
  case (moved_on s e refs t)
  note t = transition_InrD [OF moved_on(2)]
  from t have "(se_phase e = Pre_lock) = (se_lockId e = None)" unfolding shadowEventV1_def by blast
  from moved_inv [OF conjunct1 [OF moved_on(3)] _ this] t show ?case by blast
next
  case (primary_of a b f p d)
  then show ?case using coalesce_inv by metis
next
  case (duplicate_of a b f p d)
  then show ?case using coalesce_inv by metis
qed

text \<open>
  C10. What the builder saw before the lock never becomes chargeable. Of every signal the code can
  produce, by creation, events and merges of duplicates in any order: it is marked as disclosed
  before the lock exactly when it is surfaced early, and the mark is recorded among its
  reasons. A confirmed extra or a recovery case is therefore never such a signal; it belongs to a
  lock, was made visible to the builder, is no merged duplicate, and if its attribution was ever
  disputed a human review is recorded. A signal that waits for the lock has not been shown.
\<close>

theorem shadow_signal_sound:
  assumes "shadow_reachable s"
  shows "(sg_disclosedBeforeLock s \<longleftrightarrow> sg_state s = Sg_surfaced_early) \<and>
    (sg_disclosedBeforeLock s \<longleftrightarrow> has_reason Why_disclosed_before_lock s) \<and>
    (sg_state s \<in> {Sg_confirmed_extra, Sg_recovery_case_created} \<longrightarrow>
       \<not> sg_disclosedBeforeLock s \<and> sg_lockId s \<noteq> None \<and> sg_firstBuilderVisibleAt s \<noteq> None \<and>
       sg_coalescedIntoSignalId s = None \<and>
       (has_reason Why_attribution_disputed s \<longrightarrow> sg_humanReviewRef s \<noteq> None)) \<and>
    (sg_state s \<in> {Sg_candidate, Sg_held_for_final_check} \<longrightarrow> sg_lockId s = None \<and> sg_firstBuilderVisibleAt s = None)"
proof -
  from reachable_inv [OF assms] have i: "signal_inv s" and v: "shadowSignalV1 s" by (rule conjunct1, rule conjunct2)
  from v have r: "sg_disclosedBeforeLock s \<longleftrightarrow> has_reason Why_disclosed_before_lock s" unfolding shadowSignalV1_def by (elim conjE)
  from i show ?thesis unfolding r [symmetric] unfolding signal_inv_def by (elim conjE) (cases "sg_state s"; simp)
qed

definition sample_signal_evidence :: shadow_evidence where
  "sample_signal_evidence = \<lparr>sh_tenantId = ''t'', sh_jobId = ''j'', sh_workId = ''w'', sv_signalId = ''s'', sv_evidenceId = ''e'',
     sv_objectVersionId = ''v1'', sv_sha256 = sample_hash, sv_sourceReceivedAt = ''2026-10-10T09:30Z'',
     sv_lockTiming = Before_lock, sv_adoptionTiming = After_adoption\<rparr>"

definition sample_proposal :: shadow_proposal where
  "sample_proposal = \<lparr>sh_tenantId = ''t'', sh_jobId = ''j'', sh_workId = ''w'', sp_signalId = ''s'', sp_signalType = ''extra'',
     sp_detectorKind = Deterministic, sp_detectorVersion = ''1'', sp_createdAt = ''2026-10-10T09:30Z'',
     sp_evidenceCutoffAt = ''2026-10-10T09:30Z'', sp_description = ''wall'', sp_estimatedValuePence = Some 100,
     sp_confidenceBand = Band_low, sp_mustSurfaceNow = False, sp_evidence = [sample_signal_evidence]\<rparr>"

definition sample_move :: "int \<Rightarrow> lock_phase \<Rightarrow> shadow_event_type \<Rightarrow> shadow_event" where
  "sample_move n ph ty = \<lparr>sh_tenantId = ''t'', sh_jobId = ''j'', sh_workId = ''w'', se_signalId = ''s'', se_expectedRevision = n,
     se_phase = ph, se_lockId = (if ph = Pre_lock then None else Some ''lock''), se_at = ''2026-10-11T09:30Z'',
     se_sourceRef = ''src'', se_type = ty\<rparr>"

definition sample_moves :: "shadow_event list" where
  "sample_moves = [sample_move 0 Pre_lock Se_hold, sample_move 1 Post_lock Se_reveal,
     sample_move 2 Post_lock (Se_dismiss Dis_already_included (Some ''l'')),
     sample_move 3 Post_lock (Se_human_confirm ''review''), sample_move 4 Post_lock Se_mark_recovery_case]"

definition sample_refs :: shadow_references where
  "sample_refs = \<lparr>sr_lockedLineIds = [''k''], sr_baselineItemIds = []\<rparr>"

definition sample_case :: shadow_signal where
  "sample_case = (case bind_r (createShadowSignal sample_proposal \<lparr>pf_phase = Pre_lock, pf_lockId = None\<rparr> [sample_signal_evidence])
     (\<lambda>s. fold_r (\<lambda>s e. transitionShadowSignal s e sample_refs) s sample_moves) of Inr t \<Rightarrow> t | Inl _ \<Rightarrow> undefined)"

lemma reachable_fold:
  "shadow_reachable s \<Longrightarrow> fold_r (\<lambda>s e. transitionShadowSignal s e refs) s es = Inr t \<Longrightarrow> shadow_reachable t"
  by (induction es arbitrary: s) (auto simp: result_simps intro: moved_on)

lemma sample_case_reached: "case bind_r (createShadowSignal sample_proposal \<lparr>pf_phase = Pre_lock, pf_lockId = None\<rparr> [sample_signal_evidence])
     (\<lambda>s. fold_r (\<lambda>s e. transitionShadowSignal s e sample_refs) s sample_moves) of
     Inr t \<Rightarrow> sg_state t = Sg_recovery_case_created \<and> has_reason Why_attribution_disputed t | Inl _ \<Rightarrow> False"
  by code_simp

lemma sample_case_run: "bind_r (createShadowSignal sample_proposal \<lparr>pf_phase = Pre_lock, pf_lockId = None\<rparr> [sample_signal_evidence])
     (\<lambda>s. fold_r (\<lambda>s e. transitionShadowSignal s e sample_refs) s sample_moves) = Inr sample_case"
  unfolding sample_case_def using sample_case_reached by (auto split: sum.splits)

lemma sample_case_reachable: "shadow_reachable sample_case"
  using sample_case_run reachable_fold created unfolding bind_r_Inr_iff by blast

lemma sample_case_state: "sg_state sample_case = Sg_recovery_case_created \<and> has_reason Why_attribution_disputed sample_case"
  using sample_case_reached unfolding sample_case_run by simp

theorem shadow_signal_sound_witness:
  "\<exists>s. shadow_reachable s \<and> sg_state s = Sg_recovery_case_created \<and> \<not> sg_disclosedBeforeLock s \<and> sg_humanReviewRef s \<noteq> None"
  using shadow_signal_sound [OF sample_case_reachable] sample_case_state sample_case_reachable by auto

text \<open>
  C28. The history of a signal is append-only. An accepted event raises the revision by one and
  keeps the identity, the evidence and the merge of the signal; reasons are only appended; the instant at which
  the builder first saw it and the lock it belongs to are never changed once set; a disclosure is
  never taken back. A dismissed signal and a recovery case accept no event at all.
\<close>

theorem shadow_history_kept:
  assumes "shadow_reachable s" and "transitionShadowSignal s e refs = Inr t"
  shows "sg_revision t = sg_revision s + 1 \<and> sp_signalId t = sp_signalId s \<and> sameShadowBinding t s \<and>
    sp_evidence t = sp_evidence s \<and> sg_coalescedIntoSignalId t = sg_coalescedIntoSignalId s \<and>
    (\<exists>new. sg_ineligibility t = sg_ineligibility s @ new) \<and>
    (sg_firstBuilderVisibleAt s \<noteq> None \<longrightarrow> sg_firstBuilderVisibleAt t = sg_firstBuilderVisibleAt s) \<and>
    (sg_lockId s \<noteq> None \<longrightarrow> sg_lockId t = sg_lockId s) \<and>
    (sg_disclosedBeforeLock s \<longrightarrow> sg_disclosedBeforeLock t) \<and>
    sg_state s \<notin> {Sg_dismissed, Sg_recovery_case_created}"
proof -
  from reachable_inv [OF assms(1)] have i: "signal_inv s" by (rule conjunct1)
  note t = transition_InrD [OF assms(2)]
  then have m: "moved s e refs = Inr t" and l: "sg_lockId s \<noteq> None \<longrightarrow> sg_lockId s = se_lockId e"
    and p: "(se_phase e = Pre_lock) = (se_lockId e = None)" unfolding shadowEventV1_def by (simp, simp, simp)
  have n: "sg_state s \<in> {Sg_candidate, Sg_held_for_final_check} \<longrightarrow> sg_firstBuilderVisibleAt s = None"
    "sg_state s \<in> {Sg_dismissed, Sg_recovery_case_created} \<longrightarrow> sg_lockId s \<noteq> None"
    using i unfolding signal_inv_def by simp_all
  from m l n p show ?thesis unfolding sameShadowBinding_def
    by (cases "se_type e") (auto simp: move_defs split: if_splits option.splits)
qed

lemma first_sample_move: "\<exists>s t. shadow_reachable s \<and> transitionShadowSignal s (sample_move 0 Pre_lock Se_hold) sample_refs = Inr t"
proof -
  from sample_case_run obtain s where "createShadowSignal sample_proposal \<lparr>pf_phase = Pre_lock, pf_lockId = None\<rparr> [sample_signal_evidence] = Inr s"
    "fold_r (\<lambda>s e. transitionShadowSignal s e sample_refs) s sample_moves = Inr sample_case" unfolding bind_r_Inr_iff by blast
  moreover from this(2) obtain t where "transitionShadowSignal s (sample_move 0 Pre_lock Se_hold) sample_refs = Inr t"
    unfolding sample_moves_def fold_r.simps bind_r_Inr_iff by blast
  ultimately show ?thesis using shadow_reachable.created by blast
qed

theorem shadow_history_kept_witness:
  "\<exists>s t. transitionShadowSignal s (sample_move 0 Pre_lock Se_hold) sample_refs = Inr t \<and> sg_revision t = sg_revision s + 1 \<and>
     sp_evidence t = sp_evidence s"
proof -
  from first_sample_move obtain s t where "shadow_reachable s" "transitionShadowSignal s (sample_move 0 Pre_lock Se_hold) sample_refs = Inr t"
    by blast
  with shadow_history_kept [OF this] show ?thesis by blast
qed

lemma add_evidence_InrD:
  assumes "fold_r add_evidence m es = Inr m'" "\<forall>(k, v)\<in>set m. k = evidence_key v" "distinct (map fst m)"
  shows "set (map snd m') = set (map snd m) \<union> set es \<and> distinct (map evidence_key (map snd m'))"
  using assms
proof (induction es arbitrary: m)
  case Nil
  have "map evidence_key (map snd m) = map fst m" using Nil.prems(2) by (induction m) auto
  moreover have "m' = m" using Nil.prems(1) by simp
  ultimately show ?case using Nil.prems(3) by (simp del: map_map)
next
  case (Cons e es)
  then obtain m1 where m1: "add_evidence m e = Inr m1" "fold_r add_evidence m1 es = Inr m'" by (auto simp: result_simps)
  then have u: "m1 = AList.update (evidence_key e) e m" and same: "map_of m (evidence_key e) = None \<or> map_of m (evidence_key e) = Some e"
    by (auto simp: add_evidence_def split: option.splits if_splits)
  have "set m1 = insert (evidence_key e, e) (set m)"
  proof (cases "map_of m (evidence_key e)")
    case None
    then show ?thesis unfolding u by (auto simp: set_update_fresh map_of_eq_None_iff)
  next
    case (Some v)
    with same have k: "map_of m (evidence_key e) = Some e" by simp
    have "AList.update k v m = m" if "map_of m k = Some v" for k v using that by (induction m) (auto split: if_splits)
    with k show ?thesis unfolding u by (auto dest: map_of_SomeD)
  qed
  moreover have "distinct (map fst m1)" unfolding u by (rule distinct_keys_update [OF Cons.prems(3)])
  ultimately show ?case using Cons.IH [OF m1(2)] Cons.prems(2) by auto
qed

text \<open>
  A merge keeps every piece of evidence of both signals, once, and every reason of both, and sends the
  duplicate to the primary.
\<close>

lemma coalesce_keeps_evidence:
  assumes "coalesceShadowSignals a b f = Inr (p, d)"
  shows "set (sp_evidence p) = set (sp_evidence a) \<union> set (sp_evidence b) \<and> distinct (map evidence_key (sp_evidence p)) \<and>
    sg_ineligibility p = sg_ineligibility a @ sg_ineligibility b \<and> sg_coalescedIntoSignalId d = Some (sp_signalId p)"
proof (rule coalesceE [OF assms])
  fix m :: "(string \<times> shadow_evidence) list"
  assume m: "fold_r add_evidence [] (sp_evidence a @ sp_evidence b) = Inr m" "p = merged_primary a b (map snd m)"
    "d = merged_duplicate a b"
  from add_evidence_InrD [OF m(1)] show ?thesis by (simp add: m(2,3) merged_primary_def merged_duplicate_def)
qed

end
