(* ===== verification/Shadow_Eligibility.thy ===== *)
theory Shadow_Eligibility
  imports Shadow_Signal
begin

text \<open>
  Model of \<^verbatim>\<open>packages/core/src/shadow-domain/attribution.ts\<close> and \<^verbatim>\<open>eligibility.ts\<close>: the facts that
  attribute an extra to the product, and the rules that decide whether a recovered amount counts
  towards a success fee. The facts are supplied by verified records; the functions only check that
  they are bound to one line and evaluate them.
\<close>

datatype shadow_fee_error = Fe_shadow shadow_error | Fe_shared shared_error

section \<open>Attribution\<close>

datatype attribution_predicate =
  Received_before_lock | Not_disclosed_before_lock | Absent_from_accepted_scope | Absent_from_builder_captures_at_lock
| Absent_from_locked_final_account | Revealed_after_lock | Builder_confirmed_genuine_extra_and_completed
| Billed_through_a_final_account_revision_and_invoice | Customer_payment_settled_and_allocated_to_that_line
| Qualifying_allocated_principal_remains

definition attributionPredicates :: "attribution_predicate list" where
  "attributionPredicates = [Received_before_lock, Not_disclosed_before_lock, Absent_from_accepted_scope,
     Absent_from_builder_captures_at_lock, Absent_from_locked_final_account, Revealed_after_lock,
     Builder_confirmed_genuine_extra_and_completed, Billed_through_a_final_account_revision_and_invoice,
     Customer_payment_settled_and_allocated_to_that_line, Qualifying_allocated_principal_remains]"

record fact_binding = shadow_binding +
  fb_lineId :: string
  fb_lockId :: string

record attribution_fact = fact_binding +
  af_holds :: bool
  af_sourceRef :: string

datatype review_resolution = Review_confirmed_extra | Review_dismissed

record dispute_review = fact_binding +
  rw_resolution :: review_resolution
  rw_sourceRef :: string

text \<open>The object \<^verbatim>\<open>facts\<close> has one key for each predicate, in the order of \<^verbatim>\<open>attributionPredicates\<close>.\<close>

datatype attribution_facts = Attribution_facts
  attribution_fact attribution_fact attribution_fact attribution_fact attribution_fact
  attribution_fact attribution_fact attribution_fact attribution_fact attribution_fact

fun fact_at :: "attribution_facts \<Rightarrow> attribution_predicate \<Rightarrow> attribution_fact" where
  "fact_at (Attribution_facts a b c d e f g h i j) k = (case k of
     Received_before_lock \<Rightarrow> a | Not_disclosed_before_lock \<Rightarrow> b | Absent_from_accepted_scope \<Rightarrow> c
   | Absent_from_builder_captures_at_lock \<Rightarrow> d | Absent_from_locked_final_account \<Rightarrow> e | Revealed_after_lock \<Rightarrow> f
   | Builder_confirmed_genuine_extra_and_completed \<Rightarrow> g | Billed_through_a_final_account_revision_and_invoice \<Rightarrow> h
   | Customer_payment_settled_and_allocated_to_that_line \<Rightarrow> i | Qualifying_allocated_principal_remains \<Rightarrow> j)"

record shadow_attribution = fact_binding +
  at_revisionId :: string
  at_disputeReview :: "dispute_review option"
  at_exclusions :: "shadow_ineligibility list"
  at_facts :: attribution_facts

definition same_fact_binding :: "'a fact_binding_scheme \<Rightarrow> 'b fact_binding_scheme \<Rightarrow> bool" where
  "same_fact_binding v f \<longleftrightarrow> sameShadowBinding v f \<and> fb_lineId v = fb_lineId f \<and> fb_lockId v = fb_lockId f"

definition shadowAttributionV1 :: "shadow_attribution \<Rightarrow> bool" where
  "shadowAttributionV1 v \<longleftrightarrow> list_all shadowIneligibilityV1 (at_exclusions v) \<and>
     list_all (\<lambda>k. shadowRef (af_sourceRef (fact_at (at_facts v) k)) \<and> same_fact_binding v (fact_at (at_facts v) k))
       attributionPredicates \<and>
     (case at_disputeReview v of None \<Rightarrow> True
      | Some rw \<Rightarrow> shadowRef (rw_sourceRef rw) \<and> same_fact_binding v rw \<and>
          list_ex (\<lambda>e. in_reason e = Why_attribution_disputed) (at_exclusions v))"

definition createAttributionFacts :: "shadow_attribution \<Rightarrow> shadow_fee_error + shadow_attribution" where
  "createAttributionFacts a = (if shadowAttributionV1 a then Inr a else Inl (Fe_shadow Sh_invalid_input))"

definition resolution_of :: "shadow_attribution \<Rightarrow> review_resolution option" where
  "resolution_of a = map_option rw_resolution (at_disputeReview a)"

definition qualifiesAttribution :: "shadow_attribution \<Rightarrow> shadow_fee_error + bool" where
  "qualifiesAttribution facts = bind_r (createAttributionFacts facts) (\<lambda>a.
     Inr (resolution_of a \<noteq> Some Review_dismissed \<and>
          \<not> list_ex (\<lambda>e. in_reason e \<noteq> Why_attribution_disputed \<or> resolution_of a \<noteq> Some Review_confirmed_extra) (at_exclusions a) \<and>
          list_all (\<lambda>k. af_holds (fact_at (at_facts a) k)) attributionPredicates))"

section \<open>Eligibility facts\<close>

datatype proof_status = Verified_settled | Proof_pending | Proof_unverified
datatype eligibility_origin_kind = From_approved_supplier_case | From_builder_opened_case | From_shadow_confirmed_extra

record shadow_line = shadow_binding +
  lb_lineId :: string

record settlement_proof = shadow_line +
  spf_status :: proof_status
  spf_sourceRef :: string

record eligibility_origin = shadow_line +
  eor_kind :: eligibility_origin_kind
  eor_sourceRef :: string

datatype overcharge_mode = Cash_refund | Applied_credit
datatype invoice_payment = Later_unpaid | Later_partial | Later_full

record credit_facts =
  cfa_consumedNetPence :: int
  cfa_laterInvoiceId :: string
  cfa_laterInvoicePayment :: invoice_payment
  cfa_sourceRef :: string

datatype refund_form = Form_cash | Form_future_credit
datatype reminder_response = Resp_refused | Resp_disputed | Resp_ignored | Resp_normal_reminder | Resp_ordinary_lateness
datatype payment_timing = Before_opening | After_opening
datatype proceeds_kind = Customer_cash | Insurer
datatype debt_component = Comp_principal | Comp_statutory_interest | Comp_fixed_compensation | Comp_retention
datatype debtor_kind = Business_debtor | Individual_debtor

datatype overdue_basis = Synthetic_fixture | Evaluated_structured_predicate

record withheld_facts =
  wf_builderOpened :: bool
  wf_feeTermsApprovedBeforePursuit :: bool
  wf_overdueBasis :: overdue_basis
  wf_thresholdMet :: bool
  wf_overdueSourceRef :: string
  wf_ownReminderResponse :: reminder_response
  wf_paymentTiming :: payment_timing
  wf_proceeds :: proceeds_kind
  wf_component :: debt_component
  wf_debtor :: debtor_kind

datatype eligibility_category =
  Cat_missed_variation_final_account shadow_attribution
| Cat_merchant_overcharge overcharge_mode "credit_facts option"
| Cat_duplicate_supplier_payment bool refund_form
| Cat_withheld_customer_payment withheld_facts
| Cat_prevention

record shadow_eligibility = shadow_line +
  el_caseId :: string
  el_approvedCase :: bool
  el_unresolvedDispute :: bool
  el_proof :: settlement_proof
  el_origin :: eligibility_origin
  el_principalNet :: exact_text
  el_category :: eligibility_category

definition same_line_binding :: "'a shadow_line_scheme \<Rightarrow> 'b shadow_line_scheme \<Rightarrow> bool" where
  "same_line_binding v f \<longleftrightarrow> sameShadowBinding v f \<and> lb_lineId v = lb_lineId f"

fun category_ok :: "eligibility_category \<Rightarrow> bool" where
  "category_ok (Cat_missed_variation_final_account a) = shadowAttributionV1 a"
| "category_ok (Cat_merchant_overcharge m c) = (pred_option (\<lambda>c. amount_ok (cfa_consumedNetPence c) \<and> shadowRef (cfa_sourceRef c)) c \<and>
     (m = Cash_refund) = (c = None))"
| "category_ok (Cat_withheld_customer_payment w) = shadowRef (wf_overdueSourceRef w)"
| "category_ok _ = True"

fun required_origin :: "eligibility_category \<Rightarrow> eligibility_origin_kind option" where
  "required_origin Cat_prevention = None"
| "required_origin (Cat_missed_variation_final_account _) = Some From_shadow_confirmed_extra"
| "required_origin (Cat_withheld_customer_payment _) = Some From_builder_opened_case"
| "required_origin _ = Some From_approved_supplier_case"

definition shadowEligibilityV1 :: "shadow_eligibility \<Rightarrow> bool" where
  "shadowEligibilityV1 v \<longleftrightarrow> shadowRef (lb_lineId v) \<and> shadowRef (spf_sourceRef (el_proof v)) \<and> shadowRef (eor_sourceRef (el_origin v)) \<and>
     exactPenceV1 (el_principalNet v) \<and> category_ok (el_category v) \<and>
     same_line_binding v (el_proof v) \<and> same_line_binding v (el_origin v) \<and>
     (case required_origin (el_category v) of None \<Rightarrow> True | Some k \<Rightarrow> eor_kind (el_origin v) = k)"

definition assertAttributionBinding :: "shadow_attribution \<Rightarrow> shadow_eligibility \<Rightarrow> shadow_fee_error + unit" where
  "assertAttributionBinding a b =
     guard_r (sameShadowBinding a b \<and> fb_lineId a = lb_lineId b) (Fe_shadow Sh_source_binding_mismatch)"

definition shared_fee :: "shared_error + 'a \<Rightarrow> shadow_fee_error + 'a" where
  "shared_fee = map_err Fe_shared"

definition category_consistent :: "shadow_eligibility \<Rightarrow> exact_pence \<Rightarrow> shadow_fee_error + unit" where
  "category_consistent f amount = (case el_category f of
       Cat_missed_variation_final_account a \<Rightarrow> assertAttributionBinding a f
     | Cat_merchant_overcharge m (Some c) \<Rightarrow> bind_r (shared_fee (exactPence (cfa_consumedNetPence c) 1)) (\<lambda>q.
         guard_r (compareExactPence amount q = 0) (Fe_shadow Sh_invalid_input))
     | _ \<Rightarrow> Inr ())"

definition createEligibilityFacts :: "shadow_eligibility \<Rightarrow> shadow_fee_error + shadow_eligibility" where
  "createEligibilityFacts f =
     (if \<not> shadowEligibilityV1 f then Inl (Fe_shadow Sh_invalid_input)
      else bind_r (shared_fee (parseExactPence exactPenceV1 (el_principalNet f))) (\<lambda>amount.
      if numerator amount < 0 then Inl (Fe_shadow Sh_invalid_input)
      else bind_r (category_consistent f amount) (\<lambda>_. Inr f)))"

section \<open>Evaluation\<close>

record eligibility_result = shadow_line +
  er_eligible :: bool
  er_terminal :: bool
  er_qualifyingPrincipal :: exact_text
  er_sourceRef :: string
  er_originRef :: string

definition withheld_eligible :: "withheld_facts \<Rightarrow> bool" where
  "withheld_eligible w \<longleftrightarrow> wf_builderOpened w \<and> wf_feeTermsApprovedBeforePursuit w \<and> wf_thresholdMet w \<and>
     wf_ownReminderResponse w \<in> {Resp_refused, Resp_disputed, Resp_ignored} \<and> wf_paymentTiming w = After_opening \<and>
     wf_proceeds w = Customer_cash \<and>
     (wf_component w = Comp_principal \<or> (wf_component w = Comp_statutory_interest \<and> wf_debtor w = Business_debtor))"

text \<open>The \<^verbatim>\<open>switch\<close>: \<^verbatim>\<open>&&\<close> decides the general conditions before it looks at the attribution.\<close>

definition category_eligible :: "bool \<Rightarrow> eligibility_category \<Rightarrow> shadow_fee_error + bool" where
  "category_eligible eligible c = (case c of
       Cat_missed_variation_final_account a \<Rightarrow> if eligible then qualifiesAttribution a else Inr False
     | Cat_merchant_overcharge m cr \<Rightarrow> Inr (eligible \<and> (m = Cash_refund \<or>
         (case cr of None \<Rightarrow> False | Some x \<Rightarrow> cfa_laterInvoicePayment x = Later_full \<and> cfa_consumedNetPence x \<ge> 25000)))
     | Cat_duplicate_supplier_payment evidenced form \<Rightarrow> Inr (eligible \<and> evidenced \<and> form = Form_cash)
     | Cat_withheld_customer_payment w \<Rightarrow> Inr (eligible \<and> withheld_eligible w)
     | Cat_prevention \<Rightarrow> Inr False)"

definition zero_text :: exact_text where
  "zero_text = \<lparr>numerator_text = ''0'', denominator_text = ''1''\<rparr>"

definition evaluateRecoveryEligibility :: "shadow_eligibility \<Rightarrow> shadow_fee_error + eligibility_result" where
  "evaluateRecoveryEligibility facts =
     bind_r (createEligibilityFacts facts) (\<lambda>f.
     bind_r (category_eligible (el_approvedCase f \<and> \<not> el_unresolvedDispute f \<and> spf_status (el_proof f) = Verified_settled)
       (el_category f)) (\<lambda>eligible.
     Inr \<lparr>sh_tenantId = sh_tenantId f, sh_jobId = sh_jobId f, sh_workId = sh_workId f, lb_lineId = lb_lineId f,
       er_eligible = eligible, er_terminal = (el_category f = Cat_prevention),
       er_qualifyingPrincipal = (if eligible then el_principalNet f else zero_text),
       er_sourceRef = spf_sourceRef (el_proof f), er_originRef = eor_sourceRef (el_origin f)\<rparr>))"

lemma zero_text_serialized: "shared_fee (exactPence 0 1) = Inr q \<Longrightarrow> serializeExactPence q = zero_text"
proof -
  assume "shared_fee (exactPence 0 1) = Inr q"
  then have "q = \<lparr>numerator = 0, denominator = 1\<rparr>"
    by (simp add: shared_fee_def exactPence_def gcd_big_def gcd_loop.simps js_div_def js_rem_def)
  then show ?thesis by (simp add: serializeExactPence_def zero_text_def int_text_def nat_text.simps) code_simp
qed

lemma createEligibilityFacts_InrD: "createEligibilityFacts f = Inr g \<Longrightarrow> g = f \<and> shadowEligibilityV1 f \<and>
  (\<exists>v. parseExactPence exactPenceV1 (el_principalNet f) = Inr v \<and> 0 \<le> numerator v)"
  by (auto simp: createEligibilityFacts_def shared_fee_def result_simps split: if_splits)

definition attribution_complete :: "shadow_attribution \<Rightarrow> bool" where
  "attribution_complete a \<longleftrightarrow> (\<forall>k. af_holds (fact_at (at_facts a) k) \<and> same_fact_binding a (fact_at (at_facts a) k)) \<and>
     (\<forall>e\<in>set (at_exclusions a). in_reason e = Why_attribution_disputed) \<and>
     (at_exclusions a \<noteq> [] \<longrightarrow> resolution_of a = Some Review_confirmed_extra)"

lemma all_predicates: "set attributionPredicates = UNIV"
proof -
  have "k \<in> set attributionPredicates" for k by (cases k) (simp_all add: attributionPredicates_def)
  then show ?thesis by blast
qed

lemma qualifiesAttribution_True: "qualifiesAttribution a = Inr True \<longleftrightarrow> shadowAttributionV1 a \<and> attribution_complete a"
proof -
  have d: "shadowAttributionV1 a \<Longrightarrow> resolution_of a = Some Review_dismissed \<Longrightarrow> at_exclusions a \<noteq> []"
    by (auto simp: shadowAttributionV1_def resolution_of_def split: option.splits)
  have b: "shadowAttributionV1 a \<Longrightarrow> same_fact_binding a (fact_at (at_facts a) k)" for k
    unfolding shadowAttributionV1_def list_all_iff all_predicates by simp
  have ne: "(xs \<noteq> [] \<longrightarrow> P) \<longleftrightarrow> (\<forall>x\<in>set xs. P)" for xs :: "shadow_ineligibility list" and P by (cases xs) auto
  show ?thesis using b d unfolding attribution_complete_def ne
    by (auto simp: qualifiesAttribution_def createAttributionFacts_def list_all_iff list_ex_iff all_predicates)
qed

text \<open>
  What the evaluation means: an amount qualifies exactly when the case is approved and undisputed, the
  money is verified as settled, and the condition of its category holds; then the qualifying
  principal is the supplied net amount, which is not negative, and otherwise it is zero.
\<close>

fun category_condition :: "eligibility_category \<Rightarrow> bool" where
  "category_condition (Cat_missed_variation_final_account a) = attribution_complete a"
| "category_condition (Cat_merchant_overcharge m c) = (m = Cash_refund \<or>
     (\<exists>x. c = Some x \<and> cfa_laterInvoicePayment x = Later_full \<and> 25000 \<le> cfa_consumedNetPence x))"
| "category_condition (Cat_duplicate_supplier_payment evidenced form) = (evidenced \<and> form = Form_cash)"
| "category_condition (Cat_withheld_customer_payment w) = withheld_eligible w"
| "category_condition Cat_prevention = False"

lemma category_eligible_InrD:
  assumes "category_eligible b c = Inr e" "category_ok c"
  shows "e \<longleftrightarrow> b \<and> category_condition c"
proof (cases c)
  case (Cat_missed_variation_final_account a)
  with assms show ?thesis using qualifiesAttribution_True [of a]
    by (auto simp: category_eligible_def split: if_splits)
qed (use assms in \<open>auto simp: category_eligible_def split: option.splits\<close>)

lemma eligibility_exact:
  assumes "evaluateRecoveryEligibility f = Inr r"
  shows "(er_eligible r \<longleftrightarrow> el_approvedCase f \<and> \<not> el_unresolvedDispute f \<and> spf_status (el_proof f) = Verified_settled \<and>
      category_condition (el_category f)) \<and>
    er_qualifyingPrincipal r = (if er_eligible r then el_principalNet f else zero_text) \<and>
    0 \<le> text_val (er_qualifyingPrincipal r) \<and> same_line_binding r f \<and>
    (\<forall>a. el_category f = Cat_missed_variation_final_account a \<longrightarrow> sameShadowBinding a f \<and> fb_lineId a = lb_lineId f)"
proof -
  let ?b = "el_approvedCase f \<and> \<not> el_unresolvedDispute f \<and> spf_status (el_proof f) = Verified_settled"
  from assms obtain e where c: "createEligibilityFacts f = Inr f" and e: "category_eligible ?b (el_category f) = Inr e"
    and r: "r = \<lparr>sh_tenantId = sh_tenantId f, sh_jobId = sh_jobId f, sh_workId = sh_workId f, lb_lineId = lb_lineId f,
       er_eligible = e, er_terminal = (el_category f = Cat_prevention),
       er_qualifyingPrincipal = (if e then el_principalNet f else zero_text),
       er_sourceRef = spf_sourceRef (el_proof f), er_originRef = eor_sourceRef (el_origin f)\<rparr>"
    unfolding evaluateRecoveryEligibility_def by (auto simp: result_simps dest: createEligibilityFacts_InrD)
  from createEligibilityFacts_InrD [OF c] obtain v where v: "shadowEligibilityV1 f"
    "parseExactPence exactPenceV1 (el_principalNet f) = Inr v" "0 \<le> numerator v" by blast
  have z: "text_val zero_text = 0" by (simp add: text_val_def zero_text_def int_of_text_def digits_val_def digit_val_def)
  have "0 \<le> text_val (el_principalNet f)" using v(2,3)
    by (auto simp: parseExactPence_def text_val_def exactPenceV1_def exact_text_ok_def positiveOf_def Let_def
        dest!: int_of_text_positive split: if_splits)
  moreover have "\<forall>a. el_category f = Cat_missed_variation_final_account a \<longrightarrow> sameShadowBinding a f \<and> fb_lineId a = lb_lineId f"
    using c by (auto simp: createEligibilityFacts_def category_consistent_def assertAttributionBinding_def result_simps split: if_splits)
  moreover have "e \<longleftrightarrow> ?b \<and> category_condition (el_category f)"
    using category_eligible_InrD [OF e] v(1) unfolding shadowEligibilityV1_def by blast
  ultimately show ?thesis unfolding r by (simp add: z same_line_binding_def sameShadowBinding_def)
qed

end
