(* ===== verification/Success_Fee.thy ===== *)
theory Success_Fee
  imports Shadow_Eligibility Exact_Sum
begin

text \<open>
  Model of \<^verbatim>\<open>packages/core/src/shadow-domain/success-fee.ts\<close>: the success fee proposed from receipts,
  their reversals, and amounts recovered without a receipt allocation. Two ledgers are kept while the
  history is read: what remains of each receipt's shares after its reversals, and what remains of
  each directly recovered principal. The fee is ten per cent of what the eligible lines still hold.
\<close>

section \<open>Input and result\<close>

record allocation_event =
  ae_receipt :: receipt_allocation_input
  ae_qualifyingLines :: "shadow_eligibility list"
  ae_reversesSourceRef :: "string option"

datatype entry_direction = Entry_recovery | Entry_reversal

record principal_entry =
  pe_facts :: shadow_eligibility
  pe_sourceRef :: string
  pe_direction :: entry_direction
  pe_compensatesSourceRef :: "string option"

record success_fee_input =
  sf_tenantId :: string
  sf_jobId :: string
  sf_derivationId :: string
  sf_allocationEvents :: "allocation_event list"
  sf_principalEntries :: "principal_entry list"
  sf_priorNetPostedPence :: int
  sf_compensatesDerivationId :: "string option"

definition fee_policy :: string where
  "fee_policy = ''reference_fee_policy_v3''"

definition allocation_event_ok :: "allocation_event \<Rightarrow> bool" where
  "allocation_event_ok e \<longleftrightarrow> receiptAllocationV1 (ae_receipt e) \<and> list_all shadowEligibilityV1 (ae_qualifyingLines e) \<and>
     pred_option shadowRef (ae_reversesSourceRef e)"

definition principal_entry_ok :: "principal_entry \<Rightarrow> bool" where
  "principal_entry_ok e \<longleftrightarrow> shadowEligibilityV1 (pe_facts e) \<and>
     (case el_category (pe_facts e) of Cat_missed_variation_final_account _ \<Rightarrow> False | _ \<Rightarrow> True) \<and>
     shadowRef (pe_sourceRef e) \<and> pred_option shadowRef (pe_compensatesSourceRef e)"

definition shadowSuccessFeeV1 :: "success_fee_input \<Rightarrow> bool" where
  "shadowSuccessFeeV1 f \<longleftrightarrow> list_all allocation_event_ok (sf_allocationEvents f) \<and>
     list_all principal_entry_ok (sf_principalEntries f) \<and> amount_ok (sf_priorNetPostedPence f)"

datatype journal_proposal = Journal_none | Journal_linked_compensation | Journal_requires_approval

record success_fee_proposal =
  sfp_Q :: exact_pence
  sfp_F :: money
  sfp_J :: money
  sfp_delta :: money
  sfp_compensatesDerivationId :: "string option"
  sfp_compensationPrincipal :: money
  sfp_journalProposal :: journal_proposal
  sfp_allocations :: "line_allocation list"
  sfp_sourceRefs :: "string list"

abbreviation mismatch :: "shadow_fee_error + 'a" where
  "mismatch \<equiv> Inl (Fe_shadow Sh_source_binding_mismatch)"

definition unique_ids :: "string list \<Rightarrow> shadow_fee_error + unit" where
  "unique_ids ids = map_err Fe_shadow (uniqueShadowIds ids)"

section \<open>The order of receipts\<close>

text \<open>
  \<^verbatim>\<open>assertReceiptOrder\<close> compares two instants by asking the receipt allocator to give a zero share to a
  line that existed at the earlier one.
\<close>

definition order_probe :: "string \<Rightarrow> string \<Rightarrow> receipt_allocation_input" where
  "order_probe earlier later = \<lparr>ra_sourceRef = ''shadow-internal-instant-order'', ra_receiptGross = zero_text,
     ra_effectiveAt = later, ra_direction = Dir_receipt, ra_invoiceId = ''instant-order'', ra_separateInvoiceId = None,
     ra_explicit = Some [\<lparr>es_lineId = ''instant-order'', es_gross = zero_text\<rparr>],
     ra_lines = [\<lparr>rl_id = ''instant-order'', rl_invoiceId = ''instant-order'', rl_existedAt = earlier,
       rl_outstandingGross = \<lparr>numerator_text = ''1'', denominator_text = ''1''\<rparr>, rl_netPence = 1, rl_grossPence = 1\<rparr>]\<rparr>"

definition assertReceiptOrder :: "string \<Rightarrow> string \<Rightarrow> shadow_fee_error + unit" where
  "assertReceiptOrder earlier later = (case allocateReceiptToLines (order_probe earlier later) of
       Inl _ \<Rightarrow> mismatch | Inr _ \<Rightarrow> Inr ())"

section \<open>Validation of facts\<close>

definition validate_facts :: "success_fee_input \<Rightarrow> shadow_eligibility \<Rightarrow> shadow_fee_error + shadow_eligibility \<times> eligibility_result" where
  "validate_facts f raw = bind_r (createEligibilityFacts raw) (\<lambda>facts.
     if sh_tenantId facts \<noteq> sf_tenantId f \<or> sh_jobId facts \<noteq> sf_jobId f then mismatch
     else bind_r (evaluateRecoveryEligibility facts) (\<lambda>result. Inr (facts, result)))"

fun category_tag :: "eligibility_category \<Rightarrow> nat" where
  "category_tag (Cat_missed_variation_final_account _) = 0"
| "category_tag (Cat_merchant_overcharge _ _) = 1"
| "category_tag (Cat_duplicate_supplier_payment _ _) = 2"
| "category_tag (Cat_withheld_customer_payment _) = 3"
| "category_tag Cat_prevention = 4"

text \<open>\<^verbatim>\<open>identity\<close>, a tuple where the code uses its JSON text; the tag stands for the name of the category.\<close>

definition claim_identity :: "shadow_eligibility \<Rightarrow> nat \<times> string \<times> string \<times> string" where
  "claim_identity q = (category_tag (el_category q), el_caseId q, sh_workId q, lb_lineId q)"

section \<open>The ledger of receipts\<close>

record settled_receipt =
  or_event :: allocation_event
  or_remaining :: "(string \<times> exact_pence) list"
  or_allocations :: "line_allocation list"

record success_state =
  st_originals :: "(string \<times> settled_receipt) list"
  st_current :: "(string \<times> receipt_line \<times> exact_pence) list"
  st_allocations :: "line_allocation list"
  st_terms :: "exact_pence list"
  st_sources :: "string list"
  st_allocatedNet :: "(string \<times> exact_pence) list"
  st_lastReceiptAt :: "string option"

definition empty_fee_state :: success_state where
  "empty_fee_state = \<lparr>st_originals = [], st_current = [], st_allocations = [], st_terms = [], st_sources = [],
     st_allocatedNet = [], st_lastReceiptAt = None\<rparr>"

text \<open>\<^verbatim>\<open>compareExactPence(balance, parseExactPence(line.outstandingGross)) !== 0\<close> fails.\<close>

definition balance_is :: "exact_pence \<Rightarrow> receipt_line \<Rightarrow> shadow_fee_error + unit" where
  "balance_is balance l = bind_r (shared_fee (parseExactPence exactPenceV1 (rl_outstandingGross l))) (\<lambda>q.
     if compareExactPence balance q \<noteq> 0 then mismatch else Inr ())"

definition same_invoice_line :: "receipt_line \<Rightarrow> receipt_line \<Rightarrow> bool" where
  "same_invoice_line a b \<longleftrightarrow> rl_invoiceId a = rl_invoiceId b \<and> rl_netPence a = rl_netPence b \<and> rl_grossPence a = rl_grossPence b \<and>
     rl_existedAt a = rl_existedAt b"

definition check_known_line :: "success_state \<Rightarrow> receipt_line \<Rightarrow> shadow_fee_error + unit" where
  "check_known_line st l = (case map_of (st_current st) (rl_id l) of
       None \<Rightarrow> Inr ()
     | Some (line, remaining) \<Rightarrow> if \<not> same_invoice_line line l then mismatch else balance_is remaining l)"

definition check_original_line :: "settled_receipt \<Rightarrow> receipt_line \<Rightarrow> shadow_fee_error + unit" where
  "check_original_line og l =
     (case (find (\<lambda>x. rl_id x = rl_id l) (ra_lines (ae_receipt (or_event og))), map_of (or_remaining og) (rl_id l)) of
        (Some line, Some remaining) \<Rightarrow> if \<not> same_invoice_line line l then mismatch else balance_is remaining l
      | _ \<Rightarrow> mismatch)"

fun each_r :: "('x \<Rightarrow> 'e + unit) \<Rightarrow> 'x list \<Rightarrow> 'e + unit" where
  "each_r f [] = Inr ()"
| "each_r f (x # xs) = bind_r (f x) (\<lambda>_. each_r f xs)"

fun some_r :: "('x \<Rightarrow> 'e + bool) \<Rightarrow> 'x list \<Rightarrow> 'e + bool" where
  "some_r f [] = Inr False"
| "some_r f (x # xs) = bind_r (f x) (\<lambda>b. if b then Inr True else some_r f xs)"

definition principal_of_line :: "allocation_event \<Rightarrow> shadow_eligibility \<Rightarrow> shadow_fee_error + unit" where
  "principal_of_line e q = bind_r (some_r (\<lambda>l. if rl_id l \<noteq> lb_lineId q then Inr False
       else bind_r (shared_fee (parseExactPence exactPenceV1 (el_principalNet q))) (\<lambda>p.
            bind_r (shared_fee (exactPence (rl_netPence l) 1)) (\<lambda>n. Inr (compareExactPence p n = 0)))) (ra_lines (ae_receipt e)))
     (\<lambda>found. if found then Inr () else mismatch)"

definition check_receipt :: "success_state \<Rightarrow> allocation_event \<Rightarrow> shadow_fee_error + success_state" where
  "check_receipt st e =
     (if ae_reversesSourceRef e \<noteq> None then mismatch
      else bind_r (case st_lastReceiptAt st of None \<Rightarrow> Inr ()
                   | Some t \<Rightarrow> assertReceiptOrder t (ra_effectiveAt (ae_receipt e))) (\<lambda>_.
      bind_r (each_r (check_known_line st) (ra_lines (ae_receipt e))) (\<lambda>_.
      Inr (st\<lparr>st_lastReceiptAt := Some (ra_effectiveAt (ae_receipt e))\<rparr>))))"

text \<open>\<^verbatim>\<open>event.reversesSourceRef ?? ""\<close>.\<close>

definition reversed_ref :: "allocation_event \<Rightarrow> string" where
  "reversed_ref e = (case ae_reversesSourceRef e of None \<Rightarrow> '''' | Some s \<Rightarrow> s)"

definition check_reversal_event :: "success_state \<Rightarrow> allocation_event \<Rightarrow> shadow_fee_error + success_state" where
  "check_reversal_event st e = (case map_of (st_originals st) (reversed_ref e) of
       None \<Rightarrow> mismatch
     | Some og \<Rightarrow>
         (let r = ae_receipt e; r0 = ae_receipt (or_event og) in
          if ra_effectiveAt r \<noteq> ra_effectiveAt r0 \<or> ra_invoiceId r \<noteq> ra_invoiceId r0 \<or>
             ra_separateInvoiceId r \<noteq> ra_separateInvoiceId r0 \<or> ae_qualifyingLines e \<noteq> ae_qualifyingLines (or_event og)
          then mismatch
          else if length (ra_lines r) \<noteq> length (or_allocations og) then mismatch
          else bind_r (each_r (check_original_line og) (ra_lines r)) (\<lambda>_. Inr st)))"

definition exact_zero :: exact_pence where
  "exact_zero = \<lparr>numerator = 0, denominator = 1\<rparr>"

text \<open>
  The body of the loop over the shares. The line of a share is always found (\<^verbatim>\<open>find(...)!\<close>): the allocator
  only pays lines of the receipt; likewise \<^verbatim>\<open>get(a.lineId)!\<close> in \<open>give_back\<close>, whose lines were checked before.
\<close>

definition take_share ::
  "allocation_event \<Rightarrow> (shadow_eligibility \<times> eligibility_result) list \<Rightarrow> success_state \<Rightarrow> line_allocation \<Rightarrow> shadow_fee_error + success_state" where
  "take_share e quals st a =
     (case find (\<lambda>l. rl_id l = la_lineId a) (ra_lines (ae_receipt e)) of
        None \<Rightarrow> mismatch
      | Some line \<Rightarrow>
          bind_r (shared_fee (addExactPence (case map_of (st_allocatedNet st) (la_lineId a) of None \<Rightarrow> exact_zero | Some v \<Rightarrow> v)
            (la_net a))) (\<lambda>cumulative.
          bind_r (shared_fee (exactPence (rl_netPence line) 1)) (\<lambda>net.
          if compareExactPence cumulative exact_zero < 0 \<or> compareExactPence cumulative net > 0 then mismatch
          else let st' = st\<lparr>st_allocatedNet := AList.update (la_lineId a) cumulative (st_allocatedNet st)\<rparr> in
            (case map_of (map (\<lambda>q. (lb_lineId (fst q), q)) quals) (la_lineId a) of
               None \<Rightarrow> Inr st'
             | Some q \<Rightarrow> if er_eligible (snd q)
                 then Inr (st'\<lparr>st_terms := st_terms st @ [la_net a],
                      st_sources := st_sources st @ [spf_sourceRef (el_proof (fst q)), eor_sourceRef (el_origin (fst q))]\<rparr>)
                 else Inr st'))))"

definition settle_line :: "line_allocation list \<Rightarrow> success_state \<Rightarrow> receipt_line \<Rightarrow> shadow_fee_error + success_state" where
  "settle_line allocated st l =
     bind_r (shared_fee (exactPence (int_of_text (numerator_text (rl_outstandingGross l)))
       (int_of_text (denominator_text (rl_outstandingGross l))))) (\<lambda>open_balance.
     bind_r (case find (\<lambda>a. la_lineId a = rl_id l) allocated of
         Some a \<Rightarrow> shared_fee (exactPence (- numerator (la_gross a)) (denominator (la_gross a)))
       | None \<Rightarrow> Inr exact_zero) (\<lambda>taken.
     bind_r (shared_fee (addExactPence open_balance taken)) (\<lambda>remaining.
     Inr (st\<lparr>st_current := AList.update (rl_id l) (l, remaining) (st_current st)\<rparr>))))"

definition give_back :: "settled_receipt \<Rightarrow> line_allocation \<Rightarrow> shadow_fee_error + settled_receipt" where
  "give_back og a = (case map_of (or_remaining og) (la_lineId a) of
       None \<Rightarrow> mismatch
     | Some v \<Rightarrow> bind_r (shared_fee (addExactPence v (la_gross a))) (\<lambda>w.
         Inr (og\<lparr>or_remaining := AList.update (la_lineId a) w (or_remaining og)\<rparr>)))"

definition keep_books :: "allocation_event \<Rightarrow> line_allocation list \<Rightarrow> success_state \<Rightarrow> shadow_fee_error + success_state" where
  "keep_books e allocated st = (case ra_direction (ae_receipt e) of
       Dir_receipt \<Rightarrow> bind_r (fold_r (settle_line allocated) st (ra_lines (ae_receipt e))) (\<lambda>st'.
         Inr (st'\<lparr>st_originals := AList.update (ra_sourceRef (ae_receipt e))
           \<lparr>or_event = e, or_remaining = map (\<lambda>a. (la_lineId a, la_gross a)) allocated, or_allocations = allocated\<rparr>
           (st_originals st')\<rparr>))
     | Dir_reversal \<Rightarrow> (case map_of (st_originals st) (reversed_ref e) of
           None \<Rightarrow> mismatch
         | Some og \<Rightarrow> bind_r (fold_r give_back og allocated) (\<lambda>og'.
             Inr (st\<lparr>st_originals := AList.update (reversed_ref e) og' (st_originals st)\<rparr>))))"

definition settle_event :: "success_fee_input \<Rightarrow> success_state \<Rightarrow> allocation_event \<Rightarrow> shadow_fee_error + success_state" where
  "settle_event f st e =
     bind_r (unique_ids (map lb_lineId (ae_qualifyingLines e))) (\<lambda>_.
     bind_r (map_r (validate_facts f) (ae_qualifyingLines e)) (\<lambda>quals.
     bind_r (each_r (principal_of_line e) (ae_qualifyingLines e)) (\<lambda>_.
     bind_r (if ra_direction (ae_receipt e) = Dir_receipt then check_receipt st e else check_reversal_event st e) (\<lambda>st1.
     bind_r (shared_fee (allocateReceiptToLines (ae_receipt e))) (\<lambda>allocated.
     bind_r (fold_r (take_share e quals)
       (st1\<lparr>st_allocations := st_allocations st1 @ allocated, st_sources := st_sources st1 @ [ra_sourceRef (ae_receipt e)]\<rparr>)
       allocated) (keep_books e allocated))))))"

section \<open>The ledger of recovered principal\<close>

record entry_state =
  en_originals :: "(string \<times> shadow_eligibility \<times> exact_pence) list"
  en_terms :: "exact_pence list"
  en_sources :: "string list"

definition negate :: "exact_pence \<Rightarrow> shadow_fee_error + exact_pence" where
  "negate p = shared_fee (exactPence (- numerator p) (denominator p))"

definition settle_entry :: "success_fee_input \<Rightarrow> entry_state \<Rightarrow> principal_entry \<Rightarrow> shadow_fee_error + entry_state" where
  "settle_entry f st e =
     bind_r (validate_facts f (pe_facts e)) (\<lambda>q.
     bind_r (shared_fee (parseExactPence exactPenceV1 (er_qualifyingPrincipal (snd q)))) (\<lambda>amount.
     let st1 = st\<lparr>en_sources := en_sources st @ [pe_sourceRef e, spf_sourceRef (el_proof (fst q)), eor_sourceRef (el_origin (fst q))]\<rparr> in
     case pe_direction e of
       Entry_recovery \<Rightarrow> if pe_compensatesSourceRef e \<noteq> None then mismatch
         else Inr (st1\<lparr>en_terms := en_terms st @ [amount],
           en_originals := AList.update (pe_sourceRef e) (fst q, amount) (en_originals st)\<rparr>)
     | Entry_reversal \<Rightarrow>
         (let key = (case pe_compensatesSourceRef e of None \<Rightarrow> '''' | Some s \<Rightarrow> s) in
          case map_of (en_originals st) key of
            None \<Rightarrow> mismatch
          | Some (facts, remaining) \<Rightarrow>
              if facts \<noteq> fst q \<or> compareExactPence amount remaining > 0 then mismatch
              else bind_r (negate amount) (\<lambda>neg.
                   bind_r (shared_fee (addExactPence remaining neg)) (\<lambda>left.
                   Inr (st1\<lparr>en_terms := en_terms st @ [neg],
                     en_originals := AList.update key (facts, left) (en_originals st)\<rparr>))))))"

section \<open>The proposal\<close>

definition success_rate_input :: "success_fee_input \<Rightarrow> exact_pence \<Rightarrow> cumulative_fee_input" where
  "success_rate_input f q = \<lparr>cf_rate = \<lparr>fr_policyVersion = fee_policy, fr_numerator = ''10'', fr_denominator = ''100''\<rparr>,
     cf_principal = serializeExactPence q, cf_priorNetPostedPence = sf_priorNetPostedPence f,
     cf_priorPolicyVersion = fee_policy, cf_compensatesDerivationId = sf_compensatesDerivationId f\<rparr>"

definition recovery_proofs :: "success_fee_input \<Rightarrow> string list" where
  "recovery_proofs f = map (\<lambda>e. spf_sourceRef (el_proof (pe_facts e)))
     (filter (\<lambda>e. pe_direction e = Entry_recovery) (sf_principalEntries f))"

definition propose :: "success_fee_input \<Rightarrow> success_state \<Rightarrow> entry_state \<Rightarrow> shadow_fee_error + success_fee_proposal" where
  "propose f st en =
     bind_r (shared_fee (sumExactPence0 (en_terms en))) (\<lambda>q.
     bind_r (shared_fee (calculateCumulativeFee (success_rate_input f q))) (\<lambda>c.
     bind_r (shared_fee (map_err Shared_money (money_of (JInt (sf_priorNetPostedPence f))))) (\<lambda>j.
     bind_r (shared_fee (map_err Shared_money (money_of (JInt (if pence (cr_postingDelta c) < 0 then - pence (cr_postingDelta c) else 0)))))
       (\<lambda>compensation.
     Inr \<lparr>sfp_Q = q, sfp_F = cr_cumulativeFee c, sfp_J = j, sfp_delta = cr_postingDelta c,
       sfp_compensatesDerivationId = cr_compensatesDerivationId c, sfp_compensationPrincipal = compensation,
       sfp_journalProposal = (if pence (cr_postingDelta c) = 0 then Journal_none
         else if pence (cr_postingDelta c) < 0 then Journal_linked_compensation else Journal_requires_approval),
       sfp_allocations = st_allocations st, sfp_sourceRefs = rev (remdups (rev (en_sources en)))\<rparr>))))"

definition deriveShadowSuccessFee :: "success_fee_input \<Rightarrow> shadow_fee_error + success_fee_proposal" where
  "deriveShadowSuccessFee f =
     (if \<not> shadowSuccessFeeV1 f then Inl (Fe_shadow Sh_invalid_input)
      else bind_r (unique_ids (map (ra_sourceRef \<circ> ae_receipt) (sf_allocationEvents f) @ map pe_sourceRef (sf_principalEntries f))) (\<lambda>_.
      if list_ex (\<lambda>e. list_ex (\<lambda>q. claim_identity q \<in> set (map (claim_identity \<circ> pe_facts) (sf_principalEntries f)))
           (ae_qualifyingLines e)) (sf_allocationEvents f) then mismatch
      else bind_r (fold_r (settle_event f) empty_fee_state (sf_allocationEvents f)) (\<lambda>st.
      bind_r (unique_ids (recovery_proofs f)) (\<lambda>_.
      if list_ex (\<lambda>e. list_ex (\<lambda>q. spf_sourceRef (el_proof q) \<in> set (recovery_proofs f)) (ae_qualifyingLines e)) (sf_allocationEvents f)
      then mismatch
      else bind_r (fold_r (settle_entry f) \<lparr>en_originals = [], en_terms = st_terms st, en_sources = st_sources st\<rparr>
             (sf_principalEntries f)) (propose f st)))))"

section \<open>Sums over association lists\<close>

lemma sum_update_known:
  fixes g :: "'k \<Rightarrow> 'v \<Rightarrow> 'a :: ab_group_add"
  assumes "distinct (map fst m)" "map_of m k = Some old"
  shows "sum_list (map (\<lambda>p. g (fst p) (snd p)) (AList.update k v m)) =
    sum_list (map (\<lambda>p. g (fst p) (snd p)) m) - g k old + g k v"
  using assms
proof (induction m)
  case (Cons p m)
  show ?case
  proof (cases "fst p = k")
    case True
    moreover have "AList.update k v (p # m) = (k, v) # m" using True by (cases p) simp
    ultimately show ?thesis using Cons.prems by (cases p) (simp add: algebra_simps)
  next
    case False
    then show ?thesis using Cons by (cases p) (simp add: algebra_simps)
  qed
qed simp

lemma update_new: "k \<notin> fst ` set m \<Longrightarrow> AList.update k v m = m @ [(k, v)]"
  by (induction m) auto

lemma update_set: "set (AList.update k v m) \<subseteq> insert (k, v) (set m)"
  by (induction m) auto

lemma update_keys: "map_of m k = Some old \<Longrightarrow> map fst (AList.update k v m) = map fst m"
  by (induction m) (auto split: if_splits)

text \<open>A sum of fractions that need not be reduced: \<open>addExactPence\<close> still adds their values.\<close>

lemma addExactPence_pos:
  assumes a: "0 < denominator a" and b: "0 < denominator b"
  shows "\<exists>c. addExactPence a b = Inr c \<and> 0 < denominator c \<and> val c = val a + val b"
proof -
  let ?da = "denominator a" and ?db = "denominator b"
  define g where "g = gcd ?da ?db"
  have g: "0 < g" "g dvd ?da" "g dvd ?db" using a b by (simp_all add: g_def)
  obtain l where l: "?da = g * l" using g(2) by (elim dvdE)
  obtain r where r: "?db = g * r" using g(3) by (elim dvdE)
  have lr: "0 < l" "0 < r" using a b g(1) l r by (simp_all add: zero_less_mult_iff)
  define n where "n = numerator a * r + numerator b * l"
  define c where "c = gcd n g"
  have c: "0 < c" "c dvd n" "c dvd g" using g(1) by (simp_all add: c_def)
  obtain n' where n': "n = c * n'" using c(2) by (elim dvdE)
  obtain h where h: "g = c * h" using c(3) by (elim dvdE)
  have hp: "0 < h" using g(1) c(1) h by (simp add: zero_less_mult_iff)
  have sh: "gcd_big ?da ?db = g" using b by (simp add: gcd_big_eq g_def)
  have dl: "js_div ?da g = l" "js_div ?db g = r" using g by (simp_all add: js_div_dvd l r)
  have dc: "js_div n c = n'" "js_div ?db c = h * r" using c(1) by (simp_all add: js_div_dvd n' r h)
  have "gcd_big n g = c" using g(1) by (simp add: gcd_big_eq c_def)
  then have "addExactPence a b = Inr \<lparr>numerator = n', denominator = l * (h * r)\<rparr>"
    using a b by (simp add: addExactPence_def Let_def sh dl n_def [symmetric] dc)
  moreover have "0 < l * (h * r)" using lr hp by simp
  moreover have "val \<lparr>numerator = n', denominator = l * (h * r)\<rparr> = val a + val b"
  proof -
    have "(of_int n :: rat) = of_int (numerator a) * of_int r + of_int (numerator b) * of_int l" by (simp add: n_def)
    then have "of_int c * of_int n' = of_int (numerator a) * of_int r + of_int (numerator b) * (of_int l :: rat)" by (simp add: n')
    moreover have nz: "(of_int c :: rat) \<noteq> 0" "(of_int h :: rat) \<noteq> 0" "(of_int l :: rat) \<noteq> 0" "(of_int r :: rat) \<noteq> 0"
      using c(1) hp lr by simp_all
    ultimately show ?thesis by (simp add: val_def l r h field_simps)
  qed
  ultimately show ?thesis by (intro exI [of _ "\<lparr>numerator = n', denominator = l * (h * r)\<rparr>"]) simp
qed

lemma shared_fee_Inr [result_simps]: "shared_fee x = Inr v \<longleftrightarrow> x = Inr v"
  by (simp add: shared_fee_def result_simps)

lemma add_valueD: "addExactPence a b = Inr c \<Longrightarrow> 0 < denominator a \<Longrightarrow> 0 < denominator b \<Longrightarrow>
  0 < denominator c \<and> val c = val a + val b"
  using addExactPence_pos [of a b] by auto

lemma parse_valueD: "parseExactPence exactPenceV1 t = Inr v \<Longrightarrow> 0 < denominator v \<and> val v = text_val t"
  by (auto simp: parseExactPence_def exactPenceV1_def exact_text_ok_def positiveOf_def int_of_text_positive
      text_val_def val_def Let_def split: if_splits)

lemma balance_is_InrD:
  assumes "balance_is v l = Inr ()" "0 < denominator v"
  shows "val v = text_val (rl_outstandingGross l)"
proof -
  from assms(1) obtain q where q: "parseExactPence exactPenceV1 (rl_outstandingGross l) = Inr q" "compareExactPence v q = 0"
    by (auto simp: balance_is_def result_simps split: if_splits)
  with parse_valueD [OF q(1)] compareExactPence_val [OF assms(2), of q] show ?thesis by (simp split: if_splits)
qed

lemma each_r_InrD: "each_r f xs = Inr u \<Longrightarrow> \<forall>x\<in>set xs. f x = Inr ()"
  by (induction xs) (auto simp: result_simps)

section \<open>What the receipt ledger holds\<close>

definition eligible_at :: "allocation_event \<Rightarrow> string \<Rightarrow> bool" where
  "eligible_at e k \<longleftrightarrow> list_ex (\<lambda>q. lb_lineId q = k \<and>
     (case evaluateRecoveryEligibility q of Inl _ \<Rightarrow> False | Inr r \<Rightarrow> er_eligible r)) (ae_qualifyingLines e)"

definition line_at :: "allocation_event \<Rightarrow> string \<Rightarrow> receipt_line option" where
  "line_at e k = find (\<lambda>l. rl_id l = k) (ra_lines (ae_receipt e))"

definition net_ratio :: "allocation_event \<Rightarrow> string \<Rightarrow> rat" where
  "net_ratio e k = (case line_at e k of None \<Rightarrow> 0 | Some l \<Rightarrow> of_int (rl_netPence l) / of_int (rl_grossPence l))"

definition counted :: "allocation_event \<Rightarrow> string \<Rightarrow> exact_pence \<Rightarrow> rat" where
  "counted e k v = (if eligible_at e k then val v * net_ratio e k else 0)"

definition held :: "settled_receipt \<Rightarrow> rat" where
  "held og = sum_list (map (\<lambda>p. counted (or_event og) (fst p) (snd p)) (or_remaining og))"

lemma find_distinct: "distinct (map g xs) \<Longrightarrow> x \<in> set xs \<Longrightarrow> find (\<lambda>y. g y = g x) xs = Some x"
  by (induction xs) (auto simp: image_iff)

lemma line_atD: "line_at e k = Some l \<Longrightarrow> l \<in> set (ra_lines (ae_receipt e)) \<and> rl_id l = k"
  by (auto simp: line_at_def find_Some_iff)

text \<open>The facts of a validated list and the map the loop looks a line up in.\<close>

lemma validate_facts_InrD: "validate_facts f raw = Inr q \<Longrightarrow> fst q = raw \<and> evaluateRecoveryEligibility raw = Inr (snd q)"
  by (auto simp: validate_facts_def result_simps dest!: createEligibilityFacts_InrD split: if_splits)

lemma quals_lookup:
  assumes "map_r (validate_facts f) qs = Inr quals" and "distinct (map lb_lineId qs)"
  shows "(case map_of (map (\<lambda>q. (lb_lineId (fst q), q)) quals) k of None \<Rightarrow> False | Some q \<Rightarrow> er_eligible (snd q)) \<longleftrightarrow>
    list_ex (\<lambda>q. lb_lineId q = k \<and> (case evaluateRecoveryEligibility q of Inl _ \<Rightarrow> False | Inr r \<Rightarrow> er_eligible r)) qs"
  using assms
proof (induction qs arbitrary: quals)
  case (Cons q qs)
  then obtain v vs where v: "validate_facts f q = Inr v" "map_r (validate_facts f) qs = Inr vs" "quals = v # vs"
    by (auto simp: result_simps)
  note d = validate_facts_InrD [OF v(1)]
  show ?case
  proof (cases "lb_lineId q = k")
    case True
    moreover have "\<not> list_ex (\<lambda>q. lb_lineId q = k \<and> (case evaluateRecoveryEligibility q of Inl _ \<Rightarrow> False | Inr r \<Rightarrow> er_eligible r)) qs"
      using Cons.prems(2) True by (simp add: list_ex_iff) (metis image_eqI)
    ultimately show ?thesis using d v(3) by simp
  next
    case False
    then show ?thesis using Cons.IH [OF v(2)] Cons.prems(2) d v(3) by simp
  qed
qed simp

definition nets_ok :: "(string \<times> exact_pence) list \<Rightarrow> bool" where
  "nets_ok m \<longleftrightarrow> (\<forall>p\<in>set m. 0 < denominator (snd p) \<and> 0 \<le> val (snd p))"

lemma net_ok_lookup: "nets_ok m \<Longrightarrow> map_of m k = Some v \<Longrightarrow> 0 < denominator v"
  by (auto simp: nets_ok_def dest!: map_of_SomeD)

lemma take_share_InrD:
  assumes "take_share e quals st a = Inr st'" and "exact_ok (la_net a)" and "nets_ok (st_allocatedNet st)"
    and q: "\<And>k. (case map_of (map (\<lambda>q. (lb_lineId (fst q), q)) quals) k of None \<Rightarrow> False | Some q \<Rightarrow> er_eligible (snd q)) \<longleftrightarrow> eligible_at e k"
  shows "st_originals st' = st_originals st \<and> st_allocations st' = st_allocations st \<and>
    st_terms st' = st_terms st @ (if eligible_at e (la_lineId a) then [la_net a] else []) \<and> nets_ok (st_allocatedNet st')"
proof -
  let ?prior = "case map_of (st_allocatedNet st) (la_lineId a) of None \<Rightarrow> exact_zero | Some v \<Rightarrow> v"
  from assms(1) obtain line c net where c: "addExactPence ?prior (la_net a) = Inr c"
    and le: "\<not> compareExactPence c exact_zero < 0"
    and st': "(let st1 = st\<lparr>st_allocatedNet := AList.update (la_lineId a) c (st_allocatedNet st)\<rparr> in
            (case map_of (map (\<lambda>q. (lb_lineId (fst q), q)) quals) (la_lineId a) of
               None \<Rightarrow> Inr st1
             | Some q \<Rightarrow> if er_eligible (snd q)
                 then Inr (st1\<lparr>st_terms := st_terms st @ [la_net a],
                      st_sources := st_sources st @ [spf_sourceRef (el_proof (fst q)), eor_sourceRef (el_origin (fst q))]\<rparr>)
                 else Inr st1)) = (Inr st' :: shadow_fee_error + success_state)"
    unfolding take_share_def by (auto simp: result_simps split: option.splits if_splits)
  have "0 < denominator ?prior" using net_ok_lookup [OF assms(3)] by (auto simp: exact_zero_def split: option.split)
  with add_valueD [OF c] assms(2) have c': "0 < denominator c" by simp
  moreover have "0 \<le> val c"
    using le compareExactPence_val [OF c', of exact_zero] by (auto simp: exact_zero_def val_def split: if_splits)
  ultimately have ok: "nets_ok (AList.update (la_lineId a) c (st_allocatedNet st))"
    using assms(3) update_set [of "la_lineId a" c "st_allocatedNet st"] unfolding nets_ok_def by auto
  show ?thesis
  proof (cases "map_of (map (\<lambda>q. (lb_lineId (fst q), q)) quals) (la_lineId a)")
    case None
    with q [of "la_lineId a"] st' ok show ?thesis by (auto simp: Let_def)
  next
    case (Some x)
    with q [of "la_lineId a"] st' ok show ?thesis by (auto simp: Let_def split: if_splits)
  qed
qed

lemma take_shares_InrD:
  assumes "fold_r (take_share e quals) st as = Inr st'" and "\<forall>a\<in>set as. exact_ok (la_net a)" and "nets_ok (st_allocatedNet st)"
    and q: "\<And>k. (case map_of (map (\<lambda>q. (lb_lineId (fst q), q)) quals) k of None \<Rightarrow> False | Some q \<Rightarrow> er_eligible (snd q)) \<longleftrightarrow> eligible_at e k"
  shows "st_originals st' = st_originals st \<and> st_allocations st' = st_allocations st \<and>
    sum_list (map val (st_terms st')) = sum_list (map val (st_terms st)) +
      sum_list (map (\<lambda>a. if eligible_at e (la_lineId a) then val (la_net a) else 0) as) \<and> nets_ok (st_allocatedNet st')"
  using assms(1,2,3)
proof (induction as arbitrary: st)
  case (Cons a as)
  then obtain s1 where s1: "take_share e quals st a = Inr s1" "fold_r (take_share e quals) s1 as = Inr st'"
    by (auto simp: result_simps)
  have "exact_ok (la_net a)" using Cons.prems(2) by simp
  from take_share_InrD [OF s1(1) this Cons.prems(3) q] Cons.IH [OF s1(2)] Cons.prems(2) show ?case by auto
qed simp

lemma settle_lines_books:
  "fold_r (settle_line allocated) st ls = Inr st' \<Longrightarrow>
    st_originals st' = st_originals st \<and> st_terms st' = st_terms st \<and> st_allocatedNet st' = st_allocatedNet st \<and>
    st_allocations st' = st_allocations st"
proof (induction ls arbitrary: st)
  case (Cons l ls)
  then obtain s1 where s1: "settle_line allocated st l = Inr s1" "fold_r (settle_line allocated) s1 ls = Inr st'"
    by (auto simp: result_simps)
  then have "st_originals s1 = st_originals st \<and> st_terms s1 = st_terms st \<and> st_allocatedNet s1 = st_allocatedNet st \<and>
    st_allocations s1 = st_allocations st"
    by (auto simp: settle_line_def result_simps)
  with Cons.IH [OF s1(2)] show ?case by simp
qed simp

text \<open>The rows of the allocator, restated for one event.\<close>

lemma shares_of_event:
  assumes "allocateReceiptToLines (ae_receipt e) = Inr as"
  shows "distinct (map la_lineId as)" and "distinct (map rl_id (ra_lines (ae_receipt e)))"
    and "\<forall>a\<in>set as. exact_ok (la_gross a) \<and> exact_ok (la_net a) \<and> (\<exists>l. line_at e (la_lineId a) = Some l \<and>
      0 \<le> direction_sign (ae_receipt e) * val (la_gross a) \<and>
      direction_sign (ae_receipt e) * val (la_gross a) \<le> text_val (rl_outstandingGross l)) \<and>
      val (la_net a) = val (la_gross a) * net_ratio e (la_lineId a)"
proof -
  note s = allocateReceiptToLines_sound [OF assms]
  then show "distinct (map la_lineId as)" by blast
  show d: "distinct (map rl_id (ra_lines (ae_receipt e)))"
    using assms unfolding allocateReceiptToLines_def by (auto simp: result_simps split: if_splits)
  show "\<forall>a\<in>set as. exact_ok (la_gross a) \<and> exact_ok (la_net a) \<and> (\<exists>l. line_at e (la_lineId a) = Some l \<and>
      0 \<le> direction_sign (ae_receipt e) * val (la_gross a) \<and>
      direction_sign (ae_receipt e) * val (la_gross a) \<le> text_val (rl_outstandingGross l)) \<and>
      val (la_net a) = val (la_gross a) * net_ratio e (la_lineId a)"
  proof
    fix a assume "a \<in> set as"
    with s obtain l where l: "l \<in> set (ra_lines (ae_receipt e))" "share_sound (ae_receipt e) l a" by blast
    then have "line_at e (la_lineId a) = Some l"
      using find_distinct [OF d l(1)] by (simp add: line_at_def share_sound_def)
    with l(2) show "exact_ok (la_gross a) \<and> exact_ok (la_net a) \<and> (\<exists>l. line_at e (la_lineId a) = Some l \<and>
      0 \<le> direction_sign (ae_receipt e) * val (la_gross a) \<and>
      direction_sign (ae_receipt e) * val (la_gross a) \<le> text_val (rl_outstandingGross l)) \<and>
      val (la_net a) = val (la_gross a) * net_ratio e (la_lineId a)"
      by (simp add: share_sound_def net_ratio_def)
  qed
qed

definition original_ok :: "settled_receipt \<Rightarrow> bool" where
  "original_ok og \<longleftrightarrow> distinct (map fst (or_remaining og)) \<and>
     (\<forall>p\<in>set (or_remaining og). 0 < denominator (snd p) \<and> 0 \<le> val (snd p) \<and>
        (\<exists>a\<in>set (or_allocations og). la_lineId a = fst p \<and> val (snd p) \<le> val (la_gross a)))"

definition ledger_ok :: "string set \<Rightarrow> success_state \<Rightarrow> bool" where
  "ledger_ok seen st \<longleftrightarrow> distinct (map fst (st_originals st)) \<and> fst ` set (st_originals st) \<subseteq> seen \<and>
     (\<forall>p\<in>set (st_originals st). original_ok (snd p)) \<and> nets_ok (st_allocatedNet st) \<and>
     sum_list (map val (st_terms st)) = sum_list (map (\<lambda>p. held (snd p)) (st_originals st))"

abbreviation share_counted :: "allocation_event \<Rightarrow> line_allocation \<Rightarrow> rat" where
  "share_counted e a \<equiv> counted e (la_lineId a) (la_gross a)"

lemma give_back_InrD:
  assumes "give_back og a = Inr og'" "original_ok og" "exact_ok (la_gross a)" "val (la_gross a) \<le> 0"
    and room: "\<And>v. map_of (or_remaining og) (la_lineId a) = Some v \<Longrightarrow> - val (la_gross a) \<le> val v"
  shows "original_ok og' \<and> or_event og' = or_event og \<and> or_allocations og' = or_allocations og \<and>
    held og' = held og + share_counted (or_event og) a \<and>
    (\<forall>k. k \<noteq> la_lineId a \<longrightarrow> map_of (or_remaining og') k = map_of (or_remaining og) k)"
proof -
  let ?k = "la_lineId a" and ?m = "or_remaining og"
  from assms(1) obtain v w where v: "map_of ?m ?k = Some v" and w: "addExactPence v (la_gross a) = Inr w"
    and og': "og' = og\<lparr>or_remaining := AList.update ?k w ?m\<rparr>"
    by (auto simp: give_back_def result_simps split: option.splits)
  note ok = assms(2) [unfolded original_ok_def]
  have "(?k, v) \<in> set ?m" using v by (rule map_of_SomeD)
  with ok have vp: "0 < denominator v" "0 \<le> val v" and b: "\<exists>x\<in>set (or_allocations og). la_lineId x = ?k \<and> val v \<le> val (la_gross x)"
    by (metis snd_conv, metis snd_conv, metis fst_conv snd_conv)
  have w': "0 < denominator w" "val w = val v + val (la_gross a)" using add_valueD [OF w vp(1)] assms(3) by simp_all
  have wb: "0 \<le> val w" "val w \<le> val v" using w'(2) room [OF v] assms(4) by simp_all
  then have new: "\<exists>x\<in>set (or_allocations og). la_lineId x = ?k \<and> val w \<le> val (la_gross x)" using b by force
  have keys: "map fst (AList.update ?k w ?m) = map fst ?m" by (rule update_keys [OF v])
  have "original_ok og'" unfolding original_ok_def
  proof (intro conjI ballI)
    show "distinct (map fst (or_remaining og'))" using ok by (simp add: og' keys)
    fix p assume "p \<in> set (or_remaining og')"
    then have "p = (?k, w) \<or> p \<in> set ?m" using update_set [of ?k w ?m] unfolding og' by auto
    then show "0 < denominator (snd p)" "0 \<le> val (snd p)"
      "\<exists>x\<in>set (or_allocations og'). la_lineId x = fst p \<and> val (snd p) \<le> val (la_gross x)"
      using ok w'(1) wb(1) new unfolding og' by auto
  qed
  moreover have "held og' = held og - counted (or_event og) ?k v + counted (or_event og) ?k w"
    unfolding held_def og' using sum_update_known [OF _ v, of "counted (or_event og)" w] ok by simp
  moreover have "counted (or_event og) ?k w = counted (or_event og) ?k v + counted (or_event og) ?k (la_gross a)"
    by (simp add: counted_def w'(2) algebra_simps)
  ultimately show ?thesis by (simp add: og')
qed

lemma give_backs_InrD:
  assumes "fold_r give_back og as = Inr og'" "original_ok og" "distinct (map la_lineId as)"
    and "\<forall>a\<in>set as. exact_ok (la_gross a) \<and> val (la_gross a) \<le> 0 \<and>
      (\<forall>v. map_of (or_remaining og) (la_lineId a) = Some v \<longrightarrow> - val (la_gross a) \<le> val v)"
  shows "original_ok og' \<and> or_event og' = or_event og \<and> or_allocations og' = or_allocations og \<and>
    held og' = held og + sum_list (map (share_counted (or_event og)) as)"
  using assms
proof (induction as arbitrary: og)
  case (Cons a as)
  then obtain g where g: "give_back og a = Inr g" "fold_r give_back g as = Inr og'" by (auto simp: result_simps)
  have a: "exact_ok (la_gross a)" "val (la_gross a) \<le> 0"
    and room: "\<And>v. map_of (or_remaining og) (la_lineId a) = Some v \<Longrightarrow> - val (la_gross a) \<le> val v"
    using Cons.prems(4) by simp_all
  note s = give_back_InrD [OF g(1) Cons.prems(2) a room]
  have "\<forall>x\<in>set as. exact_ok (la_gross x) \<and> val (la_gross x) \<le> 0 \<and>
      (\<forall>v. map_of (or_remaining g) (la_lineId x) = Some v \<longrightarrow> - val (la_gross x) \<le> val v)"
  proof
    fix x assume x: "x \<in> set as"
    then have "la_lineId x \<noteq> la_lineId a" using Cons.prems(3) by simp (metis image_eqI)
    with s have "map_of (or_remaining g) (la_lineId x) = map_of (or_remaining og) (la_lineId x)" by blast
    with x Cons.prems(4) show "exact_ok (la_gross x) \<and> val (la_gross x) \<le> 0 \<and>
      (\<forall>v. map_of (or_remaining g) (la_lineId x) = Some v \<longrightarrow> - val (la_gross x) \<le> val v)" by simp
  qed
  with Cons.IH [OF g(2)] s Cons.prems(3) show ?case by simp
qed simp

lemma check_reversal_event_InrD:
  assumes "check_reversal_event st e = Inr st'"
  shows "st' = st \<and> (\<exists>og. map_of (st_originals st) (reversed_ref e) = Some og \<and>
    ae_qualifyingLines e = ae_qualifyingLines (or_event og) \<and> (\<forall>l\<in>set (ra_lines (ae_receipt e)). check_original_line og l = Inr ()))"
  using assms by (auto simp: check_reversal_event_def Let_def result_simps split: option.splits if_splits dest!: each_r_InrD)

lemma check_receipt_InrD: "check_receipt st e = Inr st' \<Longrightarrow> st_originals st' = st_originals st \<and> st_terms st' = st_terms st \<and>
  st_allocatedNet st' = st_allocatedNet st"
  by (auto simp: check_receipt_def result_simps split: if_splits option.splits)

lemma check_original_line_InrD:
  assumes "check_original_line og l = Inr ()" "original_ok og"
  shows "\<exists>l0 v. line_at (or_event og) (rl_id l) = Some l0 \<and> rl_netPence l0 = rl_netPence l \<and> rl_grossPence l0 = rl_grossPence l \<and>
    map_of (or_remaining og) (rl_id l) = Some v \<and> val v = text_val (rl_outstandingGross l)"
proof -
  from assms(1) obtain l0 v where v: "find (\<lambda>x. rl_id x = rl_id l) (ra_lines (ae_receipt (or_event og))) = Some l0"
    "map_of (or_remaining og) (rl_id l) = Some v" "same_invoice_line l0 l" "balance_is v l = Inr ()"
    by (auto simp: check_original_line_def split: option.splits if_splits)
  have "0 < denominator v" using assms(2) map_of_SomeD [OF v(2)] by (auto simp: original_ok_def)
  from balance_is_InrD [OF v(4) this] v show ?thesis by (auto simp: line_at_def same_invoice_line_def)
qed

text \<open>A receipt opens an original that holds its eligible shares; a reversal gives back to one.\<close>

lemma settle_event_InrD:
  assumes "settle_event f st e = Inr st'"
  shows "\<exists>quals st1 as st2. map_r (validate_facts f) (ae_qualifyingLines e) = Inr quals \<and>
    distinct (map lb_lineId (ae_qualifyingLines e)) \<and>
    (if ra_direction (ae_receipt e) = Dir_receipt then check_receipt st e else check_reversal_event st e) = Inr st1 \<and>
    allocateReceiptToLines (ae_receipt e) = Inr as \<and>
    fold_r (take_share e quals) (st1\<lparr>st_allocations := st_allocations st1 @ as,
      st_sources := st_sources st1 @ [ra_sourceRef (ae_receipt e)]\<rparr>) as = Inr st2 \<and> keep_books e as st2 = Inr st'"
  using assms unfolding settle_event_def unique_ids_def uniqueShadowIds_def result_simps
  by (elim exE conjE) (intro exI conjI; assumption)

lemma counted_share:
  assumes "allocateReceiptToLines (ae_receipt e) = Inr as"
  shows "sum_list (map (\<lambda>a. if eligible_at e (la_lineId a) then val (la_net a) else 0) as) = sum_list (map (share_counted e) as)"
  using shares_of_event(3) [OF assms] by (intro arg_cong [where f = sum_list] map_cong) (auto simp: counted_def)

lemma new_original:
  assumes "allocateReceiptToLines (ae_receipt e) = Inr as" "ra_direction (ae_receipt e) = Dir_receipt"
  defines "og \<equiv> \<lparr>or_event = e, or_remaining = map (\<lambda>a. (la_lineId a, la_gross a)) as, or_allocations = as\<rparr>"
  shows "original_ok og \<and> held og = sum_list (map (share_counted e) as)"
proof -
  have "map fst (map (\<lambda>a. (la_lineId a, la_gross a)) as) = map la_lineId as" by simp
  then have "distinct (map fst (or_remaining og))" using shares_of_event(1) [OF assms(1)] by (simp add: og_def comp_def)
  moreover have "0 < denominator (la_gross a) \<and> 0 \<le> val (la_gross a)" if "a \<in> set as" for a
    using shares_of_event(3) [OF assms(1)] that assms(2) by (auto simp: direction_sign_def)
  ultimately show ?thesis by (auto simp: og_def original_ok_def held_def comp_def)
qed

lemma keep_receipt:
  assumes "keep_books e as st = Inr st'" "ra_direction (ae_receipt e) = Dir_receipt"
    and "ra_sourceRef (ae_receipt e) \<notin> fst ` set (st_originals st)"
  shows "st_terms st' = st_terms st \<and> st_allocatedNet st' = st_allocatedNet st \<and>
    st_originals st' = st_originals st @ [(ra_sourceRef (ae_receipt e),
      \<lparr>or_event = e, or_remaining = map (\<lambda>a. (la_lineId a, la_gross a)) as, or_allocations = as\<rparr>)]"
proof -
  from assms(1,2) obtain s1 where s1: "fold_r (settle_line as) st (ra_lines (ae_receipt e)) = Inr s1"
    and st': "st' = s1\<lparr>st_originals := AList.update (ra_sourceRef (ae_receipt e))
           \<lparr>or_event = e, or_remaining = map (\<lambda>a. (la_lineId a, la_gross a)) as, or_allocations = as\<rparr> (st_originals s1)\<rparr>"
    by (auto simp: keep_books_def result_simps)
  from settle_lines_books [OF s1] assms(3) show ?thesis by (simp add: st' update_new)
qed

lemma settle_receipt_ok:
  assumes "settle_event f st e = Inr st'" "ledger_ok seen st" "ra_direction (ae_receipt e) = Dir_receipt"
    and fresh: "ra_sourceRef (ae_receipt e) \<notin> seen"
  shows "ledger_ok (insert (ra_sourceRef (ae_receipt e)) seen) st'"
proof -
  from settle_event_InrD [OF assms(1)] assms(3) obtain quals st1 as st2 where
    q: "map_r (validate_facts f) (ae_qualifyingLines e) = Inr quals" "distinct (map lb_lineId (ae_qualifyingLines e))"
    and st1: "check_receipt st e = Inr st1" and as: "allocateReceiptToLines (ae_receipt e) = Inr as"
    and st2: "fold_r (take_share e quals) (st1\<lparr>st_allocations := st_allocations st1 @ as,
      st_sources := st_sources st1 @ [ra_sourceRef (ae_receipt e)]\<rparr>) as = Inr st2" and st': "keep_books e as st2 = Inr st'"
    unfolding if_P [OF assms(3)] by (elim exE conjE)
  note c = check_receipt_InrD [OF st1]
  have qs: "(case map_of (map (\<lambda>q. (lb_lineId (fst q), q)) quals) k of None \<Rightarrow> False | Some q \<Rightarrow> er_eligible (snd q)) \<longleftrightarrow> eligible_at e k" for k
    unfolding eligible_at_def by (rule quals_lookup [OF q])
  have ok: "\<forall>a\<in>set as. exact_ok (la_net a)" using shares_of_event(3) [OF as] by blast
  note t = take_shares_InrD [OF st2 ok _ qs, simplified, unfolded counted_share [OF as]]
  note l = assms(2) [unfolded ledger_ok_def]
  have t': "st_originals st2 = st_originals st"
    "sum_list (map val (st_terms st2)) = sum_list (map val (st_terms st)) + sum_list (map (share_counted e) as)"
    "nets_ok (st_allocatedNet st2)" using t c l by simp_all
  have "ra_sourceRef (ae_receipt e) \<notin> fst ` set (st_originals st2)" using fresh l t'(1) by auto
  note k = keep_receipt [OF st' assms(3) this]
  show ?thesis unfolding ledger_ok_def using k t' l fresh new_original [OF as assms(3)] by auto
qed

lemma sum_list_map_update:
  fixes g :: "'v \<Rightarrow> rat"
  assumes "distinct (map fst m)" "map_of m k = Some old"
  shows "sum_list (map (\<lambda>p. g (snd p)) (AList.update k v m)) = sum_list (map (\<lambda>p. g (snd p)) m) - g old + g v"
  using sum_update_known [OF assms, of "\<lambda>_. g" v] .

text \<open>The lines of a reversal are the lines of its original, with what remains of them.\<close>

lemma reversal_shares:
  assumes as: "allocateReceiptToLines (ae_receipt e) = Inr as" and dir: "ra_direction (ae_receipt e) = Dir_reversal"
    and og: "original_ok og" "ae_qualifyingLines e = ae_qualifyingLines (or_event og)"
    and lines: "\<forall>l\<in>set (ra_lines (ae_receipt e)). check_original_line og l = Inr ()" and a: "a \<in> set as"
  shows "exact_ok (la_gross a) \<and> val (la_gross a) \<le> 0 \<and>
    (\<forall>v. map_of (or_remaining og) (la_lineId a) = Some v \<longrightarrow> - val (la_gross a) \<le> val v) \<and>
    share_counted e a = share_counted (or_event og) a"
proof -
  from shares_of_event(3) [OF as] a obtain l where x: "exact_ok (la_gross a)" and l: "line_at e (la_lineId a) = Some l"
    and b: "0 \<le> direction_sign (ae_receipt e) * val (la_gross a)"
      "direction_sign (ae_receipt e) * val (la_gross a) \<le> text_val (rl_outstandingGross l)" by blast
  from line_atD [OF l] lines have "check_original_line og l = Inr ()" by blast
  from check_original_line_InrD [OF this og(1)] line_atD [OF l] obtain l0 v where
    o: "line_at (or_event og) (la_lineId a) = Some l0" "rl_netPence l0 = rl_netPence l" "rl_grossPence l0 = rl_grossPence l"
      "map_of (or_remaining og) (la_lineId a) = Some v" "val v = text_val (rl_outstandingGross l)" by auto
  have "net_ratio e (la_lineId a) = net_ratio (or_event og) (la_lineId a)" using l o by (simp add: net_ratio_def)
  moreover have "eligible_at e = eligible_at (or_event og)" by (intro ext) (simp add: eligible_at_def og(2))
  ultimately have "share_counted e a = share_counted (or_event og) a" by (simp add: counted_def)
  with x b o dir show ?thesis by (simp add: direction_sign_def)
qed

lemma settle_reversal_ok:
  assumes "settle_event f st e = Inr st'" "ledger_ok seen st" "ra_direction (ae_receipt e) = Dir_reversal"
  shows "ledger_ok seen st'"
proof -
  have nd: "ra_direction (ae_receipt e) \<noteq> Dir_receipt" using assms(3) by simp
  from settle_event_InrD [OF assms(1)] obtain quals st1 as st2 where
    q: "map_r (validate_facts f) (ae_qualifyingLines e) = Inr quals" "distinct (map lb_lineId (ae_qualifyingLines e))"
    and st1: "check_reversal_event st e = Inr st1" and as: "allocateReceiptToLines (ae_receipt e) = Inr as"
    and st2: "fold_r (take_share e quals) (st1\<lparr>st_allocations := st_allocations st1 @ as,
      st_sources := st_sources st1 @ [ra_sourceRef (ae_receipt e)]\<rparr>) as = Inr st2" and st': "keep_books e as st2 = Inr st'"
    unfolding if_not_P [OF nd] by (elim exE conjE)
  from check_reversal_event_InrD [OF st1] obtain og where eq: "st1 = st" and og: "map_of (st_originals st) (reversed_ref e) = Some og"
    "ae_qualifyingLines e = ae_qualifyingLines (or_event og)" "\<forall>l\<in>set (ra_lines (ae_receipt e)). check_original_line og l = Inr ()"
    by (elim exE conjE)
  note l = assms(2) [unfolded ledger_ok_def]
  have ogok: "original_ok og" using l map_of_SomeD [OF og(1)] by (metis snd_conv)
  have qs: "(case map_of (map (\<lambda>q. (lb_lineId (fst q), q)) quals) k of None \<Rightarrow> False | Some q \<Rightarrow> er_eligible (snd q)) \<longleftrightarrow> eligible_at e k" for k
    unfolding eligible_at_def by (rule quals_lookup [OF q])
  have ok: "\<forall>a\<in>set as. exact_ok (la_net a)" using shares_of_event(3) [OF as] by blast
  note t = take_shares_InrD [OF st2 ok _ qs, simplified, unfolded counted_share [OF as]]
  have t': "st_originals st2 = st_originals st"
    "sum_list (map val (st_terms st2)) = sum_list (map val (st_terms st)) + sum_list (map (share_counted e) as)"
    "nets_ok (st_allocatedNet st2)" using t eq l by simp_all
  note sh = reversal_shares [OF as assms(3) ogok og(2,3)]
  from st' og(1) assms(3) t'(1) obtain g where g: "fold_r give_back og as = Inr g"
    and st': "st' = st2\<lparr>st_originals := AList.update (reversed_ref e) g (st_originals st2)\<rparr>"
    by (auto simp: keep_books_def result_simps)
  have "\<forall>a\<in>set as. exact_ok (la_gross a) \<and> val (la_gross a) \<le> 0 \<and>
      (\<forall>v. map_of (or_remaining og) (la_lineId a) = Some v \<longrightarrow> - val (la_gross a) \<le> val v)" using sh by blast
  note gb = give_backs_InrD [OF g ogok shares_of_event(1) [OF as] this]
  have "sum_list (map (share_counted e) as) = sum_list (map (share_counted (or_event og)) as)"
    using sh by (intro arg_cong [where f = sum_list] map_cong) auto
  then have hg: "held g = held og + sum_list (map (share_counted e) as)" using gb by simp
  have "sum_list (map (\<lambda>p. held (snd p)) (st_originals st')) = sum_list (map (\<lambda>p. held (snd p)) (st_originals st)) - held og + held g"
    using sum_list_map_update [OF _ og(1), of held g] l by (simp add: st' t'(1))
  then have terms: "sum_list (map val (st_terms st')) = sum_list (map (\<lambda>p. held (snd p)) (st_originals st'))"
    using hg t'(2) l by (simp add: st')
  have keys: "map fst (st_originals st') = map fst (st_originals st)" using update_keys [OF og(1)] by (simp add: st' t'(1))
  then have "fst ` set (st_originals st') = fst ` set (st_originals st)" by (metis list.set_map)
  moreover have "\<forall>p\<in>set (st_originals st'). original_ok (snd p)"
    using update_set [of "reversed_ref e" g "st_originals st"] l gb by (auto simp: st' t'(1))
  ultimately show ?thesis unfolding ledger_ok_def using keys terms l t'(3) by (simp add: st')
qed

lemma settle_event_ok:
  assumes "settle_event f st e = Inr st'" "ledger_ok seen st" "ra_sourceRef (ae_receipt e) \<notin> seen"
  shows "ledger_ok (insert (ra_sourceRef (ae_receipt e)) seen) st'"
proof (cases "ra_direction (ae_receipt e)")
  case Dir_receipt
  from settle_receipt_ok [OF assms(1,2) this assms(3)] show ?thesis .
next
  case Dir_reversal
  from settle_reversal_ok [OF assms(1,2) this] show ?thesis unfolding ledger_ok_def by blast
qed

lemma settle_events_ok:
  assumes "fold_r (settle_event f) st es = Inr st'" "ledger_ok seen st"
    and "distinct (map (ra_sourceRef \<circ> ae_receipt) es)" "set (map (ra_sourceRef \<circ> ae_receipt) es) \<inter> seen = {}"
  shows "\<exists>seen'. ledger_ok seen' st'"
  using assms
proof (induction es arbitrary: st seen)
  case (Cons e es)
  then obtain s1 where s1: "settle_event f st e = Inr s1" "fold_r (settle_event f) s1 es = Inr st'" by (auto simp: result_simps)
  have fresh: "ra_sourceRef (ae_receipt e) \<notin> seen" using Cons.prems(4) by simp
  have "set (map (ra_sourceRef \<circ> ae_receipt) es) \<inter> insert (ra_sourceRef (ae_receipt e)) seen = {}"
    using Cons.prems(3,4) by auto
  with Cons.IH [OF s1(2) settle_event_ok [OF s1(1) Cons.prems(2) fresh]] Cons.prems(3) show ?case by simp
qed auto

lemma ledger_empty: "ledger_ok {} empty_fee_state"
  by (simp add: ledger_ok_def empty_fee_state_def nets_ok_def)

section \<open>What the principal ledger holds\<close>

definition qualifying_value :: "shadow_eligibility \<Rightarrow> rat" where
  "qualifying_value q = (case evaluateRecoveryEligibility q of Inl _ \<Rightarrow> 0 | Inr r \<Rightarrow> text_val (er_qualifyingPrincipal r))"

definition entries_ok :: "rat \<Rightarrow> string set \<Rightarrow> entry_state \<Rightarrow> bool" where
  "entries_ok b seen en \<longleftrightarrow> distinct (map fst (en_originals en)) \<and> fst ` set (en_originals en) \<subseteq> seen \<and>
     (\<forall>p\<in>set (en_originals en). 0 < denominator (snd (snd p)) \<and> 0 \<le> val (snd (snd p)) \<and>
        val (snd (snd p)) \<le> qualifying_value (fst (snd p))) \<and>
     sum_list (map val (en_terms en)) = b + sum_list (map (\<lambda>p. val (snd (snd p))) (en_originals en))"

lemma entry_amount:
  assumes "validate_facts f raw = Inr q" "parseExactPence exactPenceV1 (er_qualifyingPrincipal (snd q)) = Inr amount"
  shows "fst q = raw \<and> 0 < denominator amount \<and> 0 \<le> val amount \<and> val amount = qualifying_value raw"
proof -
  note d = validate_facts_InrD [OF assms(1)]
  from d eligibility_exact [of raw "snd q"] have "0 \<le> text_val (er_qualifyingPrincipal (snd q))" by blast
  with d parse_valueD [OF assms(2)] show ?thesis by (simp add: qualifying_value_def)
qed

lemma settle_entry_ok:
  assumes "settle_entry f en e = Inr en'" "entries_ok b seen en" "pe_sourceRef e \<notin> seen"
  shows "entries_ok b (insert (pe_sourceRef e) seen) en'"
proof -
  from assms(1) obtain q amount where q: "validate_facts f (pe_facts e) = Inr q"
    "parseExactPence exactPenceV1 (er_qualifyingPrincipal (snd q)) = Inr amount"
    unfolding settle_entry_def result_simps by (elim exE conjE)
  note a = entry_amount [OF q] and ok = assms(2) [unfolded entries_ok_def]
  show ?thesis
  proof (cases "pe_direction e")
    case Entry_recovery
    with assms(1) q have t: "en_terms en' = en_terms en @ [amount]"
      "en_originals en' = AList.update (pe_sourceRef e) (fst q, amount) (en_originals en)"
      by (auto simp: settle_entry_def Let_def shared_fee_def split: if_splits)
    have "pe_sourceRef e \<notin> fst ` set (en_originals en)" using ok assms(3) by auto
    with t(2) have o: "en_originals en' = en_originals en @ [(pe_sourceRef e, fst q, amount)]" by (simp add: update_new)
    show ?thesis unfolding entries_ok_def using ok a assms(3) by (auto simp: t(1) o)
  next
    case Entry_reversal
    define key where "key = (case pe_compensatesSourceRef e of None \<Rightarrow> '''' | Some s \<Rightarrow> s)"
    from assms(1) q Entry_reversal obtain facts remaining neg left where
      old: "map_of (en_originals en) key = Some (facts, remaining)" and le: "\<not> compareExactPence amount remaining > 0"
      and neg: "exactPence (- numerator amount) (denominator amount) = Inr neg"
      and left: "addExactPence remaining neg = Inr left"
      and t: "en_terms en' = en_terms en @ [neg]" "en_originals en' = AList.update key (facts, left) (en_originals en)"
      by (auto simp: settle_entry_def Let_def key_def [symmetric] negate_def result_simps split: option.splits if_splits prod.splits)
    have r: "0 < denominator remaining" "0 \<le> val remaining" "val remaining \<le> qualifying_value facts"
      using ok map_of_SomeD [OF old] by fastforce+
    have n: "0 < denominator neg" "val neg = - val amount" using exactPence_InrD [OF neg] by (simp_all add: val_def)
    have "val amount \<le> val remaining" using le compareExactPence_val [OF _ r(1), of amount] a by (auto split: if_splits)
    then have l: "0 < denominator left" "0 \<le> val left" "val left = val remaining - val amount"
      using add_valueD [OF left r(1) n(1)] n(2) by simp_all
    have keys: "map fst (en_originals en') = map fst (en_originals en)" using update_keys [OF old] by (simp add: t(2))
    then have "fst ` set (en_originals en') = fst ` set (en_originals en)" by (metis list.set_map)
    moreover have "sum_list (map (\<lambda>p. val (snd (snd p))) (en_originals en')) =
        sum_list (map (\<lambda>p. val (snd (snd p))) (en_originals en)) - val remaining + val left"
      using sum_list_map_update [OF _ old, of "\<lambda>x. val (snd x)" "(facts, left)"] ok by (simp add: t(2))
    moreover have "val left \<le> qualifying_value facts" using l(3) r(3) a by simp
    ultimately show ?thesis unfolding entries_ok_def
      using ok l n(2) keys update_set [of key "(facts, left)" "en_originals en"] by (auto simp: t)
  qed
qed

lemma settle_entries_ok:
  assumes "fold_r (settle_entry f) en es = Inr en'" "entries_ok b seen en"
    and "distinct (map pe_sourceRef es)" "set (map pe_sourceRef es) \<inter> seen = {}"
  shows "\<exists>seen'. entries_ok b seen' en'"
  using assms
proof (induction es arbitrary: en seen)
  case (Cons e es)
  then obtain s1 where s1: "settle_entry f en e = Inr s1" "fold_r (settle_entry f) s1 es = Inr en'" by (auto simp: result_simps)
  have fresh: "pe_sourceRef e \<notin> seen" using Cons.prems(4) by simp
  have "set (map pe_sourceRef es) \<inter> insert (pe_sourceRef e) seen = {}" using Cons.prems(3,4) by auto
  with Cons.IH [OF s1(2) settle_entry_ok [OF s1(1) Cons.prems(2) fresh]] Cons.prems(3) show ?case by simp
qed auto

section \<open>The fee\<close>

lemma exact_sum_InrD:
  assumes "sumExactPence0 vs = Inr q"
  shows "exact_ok q \<and> val q = sum_list (map val vs)"
proof (cases "\<exists>v\<in>set vs. denominator v \<le> 0")
  case True
  then show ?thesis using assms by_denominator_bad [OF True] by (simp add: sumExactPence0_def sumExactPence_def)
next
  case False
  then have "\<forall>v\<in>set vs. 0 < denominator v" by (auto simp: not_le)
  from sumExactPence_unfold [OF this] assms show ?thesis unfolding sumExactPence0_def
    by (metis (no_types, lifting) Inl_Inr_False Inr_inject)
qed

lemma ten_per_cent:
  assumes "calculateCumulativeFee (success_rate_input f q) = Inr c" "exact_ok q"
  shows "\<bar>val q / 10 - of_int (pence (cr_cumulativeFee c))\<bar> \<le> 1 / 2 \<and> 0 \<le> val q \<and>
    sf_priorNetPostedPence f + pence (cr_postingDelta c) = pence (cr_cumulativeFee c) \<and>
    (pence (cr_postingDelta c) < 0 \<longrightarrow> cr_compensatesDerivationId c \<noteq> None)"
proof -
  let ?n = "numerator q" and ?d = "denominator q"
  have v: "cumulativeFeeInputV1 (success_rate_input f q)"
    and p: "fr_policyVersion (cf_rate (success_rate_input f q)) = cf_priorPolicyVersion (success_rate_input f q)"
    using assms(1) by (auto simp: calculateCumulativeFee_def success_rate_input_def split: if_splits)
  have t: "int_of_text ''10'' = 10" "int_of_text ''100'' = 100" by (simp_all add: int_of_text_def digits_val_def digit_val_def)
  have parts: "int_of_text (numerator_text (cf_principal (success_rate_input f q))) = ?n"
    "int_of_text (denominator_text (cf_principal (success_rate_input f q))) = ?d"
    by (simp_all add: success_rate_input_def serializeExactPence_def int_of_int_text)
  have d: "0 < ?d" using assms(2) by simp
  define fee where "fee = fee_of ?n ?d (cf_rate (success_rate_input f q))"
  from assms(1) have n: "0 \<le> ?n" and c: "pence (cr_cumulativeFee c) = fee"
    "pence (cr_postingDelta c) = fee - sf_priorNetPostedPence f"
    "pence (cr_postingDelta c) < 0 \<longrightarrow> cr_compensatesDerivationId c \<noteq> None"
    unfolding calculateCumulativeFee_valid [OF v p] parts fee_def [symmetric]
    by (auto simp: Let_def success_rate_input_def split: if_splits)
  have fe: "fee = round_div Half_even (?n * 10) (?d * 100)" by (simp add: fee_def fee_of_def success_rate_input_def t)
  have "\<bar>2 * (?n * 10 - ?d * 100 * fee)\<bar> \<le> ?d * 100"
    unfolding fe using d by (intro round_div_nearest) simp
  then have "\<bar>2 * (of_int (?n * 10) - of_int (?d * 100) * (of_int fee :: rat))\<bar> \<le> of_int (?d * 100)"
    by (metis (mono_tags, lifting) of_int_abs of_int_diff of_int_le_iff of_int_mult of_int_numeral)
  then have "\<bar>val q / 10 - of_int fee\<bar> \<le> 1 / 2"
    using d by (simp add: val_def abs_le_iff field_simps)
  moreover have "0 \<le> val q" using n d by (simp add: val_def)
  ultimately show ?thesis using c by simp
qed

section \<open>The property\<close>

lemma derive_InrD:
  assumes "deriveShadowSuccessFee f = Inr p"
  shows "\<exists>st en. distinct (map (ra_sourceRef \<circ> ae_receipt) (sf_allocationEvents f)) \<and> distinct (map pe_sourceRef (sf_principalEntries f)) \<and>
    fold_r (settle_event f) empty_fee_state (sf_allocationEvents f) = Inr st \<and>
    fold_r (settle_entry f) \<lparr>en_originals = [], en_terms = st_terms st, en_sources = st_sources st\<rparr> (sf_principalEntries f) = Inr en \<and>
    propose f st en = Inr p"
proof -
  from assms obtain st en where d: "distinct (map (ra_sourceRef \<circ> ae_receipt) (sf_allocationEvents f) @ map pe_sourceRef (sf_principalEntries f))"
    and r: "fold_r (settle_event f) empty_fee_state (sf_allocationEvents f) = Inr st"
    "fold_r (settle_entry f) \<lparr>en_originals = [], en_terms = st_terms st, en_sources = st_sources st\<rparr> (sf_principalEntries f) = Inr en"
    "propose f st en = Inr p"
    unfolding deriveShadowSuccessFee_def unique_ids_def uniqueShadowIds_def result_simps by (elim exE conjE)
  have d': "distinct (map (ra_sourceRef \<circ> ae_receipt) (sf_allocationEvents f))" "distinct (map pe_sourceRef (sf_principalEntries f))"
    using d unfolding distinct_append by simp_all
  show ?thesis by (intro exI conjI) (fact d' r)+
qed

lemma propose_InrD:
  assumes "propose f st en = Inr p"
  shows "exact_ok (sfp_Q p) \<and> val (sfp_Q p) = sum_list (map val (en_terms en)) \<and> pence (sfp_J p) = sf_priorNetPostedPence f \<and>
    sfp_allocations p = st_allocations st \<and>
    (sfp_journalProposal p = Journal_linked_compensation \<longleftrightarrow> pence (sfp_delta p) < 0) \<and>
    (\<exists>c. calculateCumulativeFee (success_rate_input f (sfp_Q p)) = Inr c \<and> sfp_F p = cr_cumulativeFee c \<and> sfp_delta p = cr_postingDelta c \<and>
      sfp_compensatesDerivationId p = cr_compensatesDerivationId c)"
proof -
  from assms obtain q c j k where q: "sumExactPence0 (en_terms en) = Inr q" and c: "calculateCumulativeFee (success_rate_input f q) = Inr c"
    and j: "money_of (JInt (sf_priorNetPostedPence f)) = Inr j"
    and p: "p = \<lparr>sfp_Q = q, sfp_F = cr_cumulativeFee c, sfp_J = j, sfp_delta = cr_postingDelta c,
       sfp_compensatesDerivationId = cr_compensatesDerivationId c, sfp_compensationPrincipal = k,
       sfp_journalProposal = (if pence (cr_postingDelta c) = 0 then Journal_none
         else if pence (cr_postingDelta c) < 0 then Journal_linked_compensation else Journal_requires_approval),
       sfp_allocations = st_allocations st, sfp_sourceRefs = rev (remdups (rev (en_sources en)))\<rparr>"
    unfolding propose_def by (auto simp: result_simps)
  have "pence j = sf_priorNetPostedPence f" using j by (auto simp: money_of_def split: if_splits)
  with exact_sum_InrD [OF q] c show ?thesis unfolding p by simp
qed

text \<open>
  C2. The success fee is ten per cent of what is still held. Whenever a proposal is derived, the two
  ledgers the history leaves are sound: of every receipt, each line still holds between nothing and
  what that receipt gave it, however often it was reversed, and of every directly recovered principal
  between nothing and its qualifying amount remains. The principal \<open>Q\<close> is exactly the sum of what
  the eligible lines still hold, net of tax in the line's own ratio, and of the remaining recovered
  principals; the cumulative fee \<open>F\<close> is within half a penny of a tenth of \<open>Q\<close>, what was posted before plus the
  proposed change is \<open>F\<close>, and a negative change names the derivation it compensates.
\<close>

theorem success_fee_sound:
  assumes "deriveShadowSuccessFee f = Inr p"
  shows "\<exists>st en. fold_r (settle_event f) empty_fee_state (sf_allocationEvents f) = Inr st \<and>
    fold_r (settle_entry f) \<lparr>en_originals = [], en_terms = st_terms st, en_sources = st_sources st\<rparr> (sf_principalEntries f) = Inr en \<and>
    (\<forall>og\<in>snd ` set (st_originals st). original_ok og) \<and>
    (\<forall>x\<in>snd ` set (en_originals en). 0 \<le> val (snd x) \<and> val (snd x) \<le> qualifying_value (fst x)) \<and>
    val (sfp_Q p) = sum_list (map (held \<circ> snd) (st_originals st)) + sum_list (map (val \<circ> snd \<circ> snd) (en_originals en)) \<and>
    0 \<le> val (sfp_Q p) \<and> \<bar>val (sfp_Q p) / 10 - of_int (pence (sfp_F p))\<bar> \<le> 1 / 2 \<and>
    sf_priorNetPostedPence f + pence (sfp_delta p) = pence (sfp_F p) \<and>
    (pence (sfp_delta p) < 0 \<longrightarrow> sfp_compensatesDerivationId p \<noteq> None)"
proof -
  from derive_InrD [OF assms] obtain st en where d: "distinct (map (ra_sourceRef \<circ> ae_receipt) (sf_allocationEvents f))"
    "distinct (map pe_sourceRef (sf_principalEntries f))"
    and st: "fold_r (settle_event f) empty_fee_state (sf_allocationEvents f) = Inr st"
    and en: "fold_r (settle_entry f) \<lparr>en_originals = [], en_terms = st_terms st, en_sources = st_sources st\<rparr> (sf_principalEntries f) = Inr en"
    and p: "propose f st en = Inr p" by (elim exE conjE)
  from settle_events_ok [OF st ledger_empty d(1)] obtain seen where l: "ledger_ok seen st" by auto
  have "entries_ok (sum_list (map val (st_terms st))) {} \<lparr>en_originals = [], en_terms = st_terms st, en_sources = st_sources st\<rparr>"
    by (simp add: entries_ok_def)
  from settle_entries_ok [OF en this d(2)] obtain seen' where e: "entries_ok (sum_list (map val (st_terms st))) seen' en" by auto
  note r = propose_InrD [OF p]
  from r obtain c where c: "calculateCumulativeFee (success_rate_input f (sfp_Q p)) = Inr c" "sfp_F p = cr_cumulativeFee c"
    "sfp_delta p = cr_postingDelta c" "sfp_compensatesDerivationId p = cr_compensatesDerivationId c" by (elim exE conjE)
  have q: "exact_ok (sfp_Q p)" using r by (elim conjE)
  note fee = ten_per_cent [OF c(1) q, folded c(2,3,4)]
  have "val (sfp_Q p) = sum_list (map (held \<circ> snd) (st_originals st)) + sum_list (map (val \<circ> snd \<circ> snd) (en_originals en))"
    using r l e by (simp add: ledger_ok_def entries_ok_def comp_def)
  moreover have "\<forall>og\<in>snd ` set (st_originals st). original_ok og" using l by (auto simp: ledger_ok_def)
  moreover have "\<forall>x\<in>snd ` set (en_originals en). 0 \<le> val (snd x) \<and> val (snd x) \<le> qualifying_value (fst x)"
    using e by (auto simp: entries_ok_def)
  ultimately show ?thesis using st en fee by (intro exI conjI) simp_all
qed

section \<open>The order of receipts, decided\<close>

lemma zero_total: "allocation_total [\<lparr>numerator = 0, denominator = 1\<rparr>] = Inr \<lparr>numerator = 0, denominator = 1\<rparr>"
  by (rule allocation_total_eq) (simp_all add: exact_ok_def val_def)

lemma probe_parts:
  "read_exact zero_text = Inr \<lparr>numerator = 0, denominator = 1\<rparr>"
  "read_exact \<lparr>numerator_text = ''1'', denominator_text = ''1''\<rparr> = Inr \<lparr>numerator = 1, denominator = 1\<rparr>"
  "exactPenceInputV1 zero_text" "exactPenceInputV1 \<lparr>numerator_text = ''1'', denominator_text = ''1''\<rparr>"
  "exactPence 1 1 = Inr \<lparr>numerator = 1, denominator = 1\<rparr>"
  "multiplyExactPence \<lparr>numerator = 0, denominator = 1\<rparr> \<lparr>numerator = 1, denominator = 1\<rparr> = Inr \<lparr>numerator = 0, denominator = 1\<rparr>"
  by code_simp+

lemma probe_ok: "receiptAllocationV1 (order_probe a b) \<longleftrightarrow> instantV1 a \<and> instantV1 b"
  by (auto simp: receiptAllocationV1_def order_probe_def receipt_line_ok_def text_within_def probe_parts amount_ok_def
      MAX_MONEY_PENCE_def MAX_ALLOCATION_LINES_def int_of_text_def digits_val_def digit_val_def)

text \<open>
  The comment of the code holds: the probe accepts exactly \<^verbatim>\<open>earlier <= later\<close>, on exact instants with any
  offset and precision.
\<close>

lemma assertReceiptOrder_exact:
  "assertReceiptOrder a b = Inr () \<longleftrightarrow> instantV1 a \<and> instantV1 b \<and>
     (\<exists>t u. parseInstant a = Inr t \<and> parseInstant b = Inr u \<and> instant_value t \<le> instant_value u)"
proof (cases "instantV1 a \<and> instantV1 b")
  case False
  then show ?thesis using probe_ok [of a b] by (auto simp: assertReceiptOrder_def allocateReceiptToLines_def)
next
  case True
  then obtain t u where t: "parseInstant a = Inr t" "parseInstant b = Inr u" using parseInstant_of_instantV1 by blast
  let ?z = "\<lparr>numerator = 0, denominator = 1\<rparr>" and ?i = "order_probe a b"
  let ?l = "\<lparr>rl_id = ''instant-order'', rl_invoiceId = ''instant-order'', rl_existedAt = a,
       rl_outstandingGross = \<lparr>numerator_text = ''1'', denominator_text = ''1''\<rparr>, rl_netPence = 1, rl_grossPence = 1\<rparr>"
  let ?el = "if compareInstants t u \<le> 0 then [(?l, \<lparr>numerator = 1, denominator = 1\<rparr>)] else []"
  have s: "ra_explicit ?i = Some [\<lparr>es_lineId = ''instant-order'', es_gross = zero_text\<rparr>]" "ra_lines ?i = [?l]"
    "ra_receiptGross ?i = zero_text" "ra_effectiveAt ?i = b" "ra_separateInvoiceId ?i = None" "ra_invoiceId ?i = ''instant-order''"
    "ra_direction ?i = Dir_receipt" by (simp_all add: order_probe_def)
  have el: "filter_r (eligible_line ?i u) [(?l, \<lparr>numerator = 1, denominator = 1\<rparr>)] = Inr ?el"
    by (simp add: eligible_line_def s t)
  have e: "(\<exists>out. allocate_explicit ?i ?z ?el [\<lparr>es_lineId = ''instant-order'', es_gross = zero_text\<rparr>] = Inr out) \<longleftrightarrow>
      compareInstants t u \<le> 0"
    by (simp add: allocate_explicit_def read_share_def append_explicit_def append_share_def s probe_parts zero_total
        compareExactPence_def)
  have "allocateReceiptToLines ?i = allocate_explicit ?i ?z ?el [\<lparr>es_lineId = ''instant-order'', es_gross = zero_text\<rparr>]"
    using True probe_ok [of a b] unfolding allocateReceiptToLines_def
    by (simp add: s probe_parts read_line_def t el del: filter_r.simps)
  then have "assertReceiptOrder a b = Inr () \<longleftrightarrow> compareInstants t u \<le> 0"
    using e by (auto simp: assertReceiptOrder_def split: sum.splits)
  moreover have "compareInstants t u \<le> 0 \<longleftrightarrow> instant_value t \<le> instant_value u"
    using compareInstants_value [OF parseInstant_ok [OF t(1)] parseInstant_ok [OF t(2)]] by (simp split: if_splits)
  ultimately show ?thesis using True t by simp
qed

section \<open>An example\<close>

definition sample_fact :: attribution_fact where
  "sample_fact = \<lparr>sh_tenantId = ''t'', sh_jobId = ''j'', sh_workId = ''w'', fb_lineId = ''a'', fb_lockId = ''k'', af_holds = True,
     af_sourceRef = ''s''\<rparr>"

definition sample_attribution :: shadow_attribution where
  "sample_attribution = \<lparr>sh_tenantId = ''t'', sh_jobId = ''j'', sh_workId = ''w'', fb_lineId = ''a'', fb_lockId = ''k'',
     at_revisionId = ''v'', at_disputeReview = None, at_exclusions = [], at_facts = Attribution_facts sample_fact sample_fact
       sample_fact sample_fact sample_fact sample_fact sample_fact sample_fact sample_fact sample_fact\<rparr>"

definition sample_eligibility :: "string \<Rightarrow> string \<Rightarrow> eligibility_origin_kind \<Rightarrow> eligibility_category \<Rightarrow> shadow_eligibility" where
  "sample_eligibility line amt origin cat = \<lparr>sh_tenantId = ''t'', sh_jobId = ''j'', sh_workId = ''w'', lb_lineId = line,
     el_caseId = ''c'', el_approvedCase = True, el_unresolvedDispute = False,
     el_proof = \<lparr>sh_tenantId = ''t'', sh_jobId = ''j'', sh_workId = ''w'', lb_lineId = line, spf_status = Verified_settled,
       spf_sourceRef = ''proof:'' @ line\<rparr>,
     el_origin = \<lparr>sh_tenantId = ''t'', sh_jobId = ''j'', sh_workId = ''w'', lb_lineId = line, eor_kind = origin, eor_sourceRef = ''o''\<rparr>,
     el_principalNet = \<lparr>numerator_text = amt, denominator_text = ''1''\<rparr>, el_category = cat\<rparr>"

definition sample_missed :: shadow_eligibility where
  "sample_missed = sample_eligibility ''a'' ''100'' From_shadow_confirmed_extra (Cat_missed_variation_final_account sample_attribution)"

definition sample_duplicate :: shadow_eligibility where
  "sample_duplicate = sample_eligibility ''b'' ''2345'' From_approved_supplier_case (Cat_duplicate_supplier_payment True Form_cash)"

definition sample_line :: receipt_line where
  "sample_line = \<lparr>rl_id = ''a'', rl_invoiceId = ''inv'', rl_existedAt = ''2026-10-10T09:30Z'',
     rl_outstandingGross = \<lparr>numerator_text = ''120'', denominator_text = ''1''\<rparr>, rl_netPence = 100, rl_grossPence = 120\<rparr>"

definition sample_receipt :: receipt_allocation_input where
  "sample_receipt = \<lparr>ra_sourceRef = ''bank:1'', ra_receiptGross = \<lparr>numerator_text = ''60'', denominator_text = ''1''\<rparr>,
     ra_effectiveAt = ''2026-10-11T09:30Z'', ra_direction = Dir_receipt, ra_invoiceId = ''inv'',
     ra_separateInvoiceId = None, ra_explicit = None, ra_lines = [sample_line]\<rparr>"

definition sample_event :: allocation_event where
  "sample_event = \<lparr>ae_receipt = sample_receipt, ae_qualifyingLines = [sample_missed], ae_reversesSourceRef = None\<rparr>"

definition sample_entry :: principal_entry where
  "sample_entry = \<lparr>pe_facts = sample_duplicate, pe_sourceRef = ''refund:1'', pe_direction = Entry_recovery, pe_compensatesSourceRef = None\<rparr>"

definition sample_fee :: success_fee_input where
  "sample_fee = \<lparr>sf_tenantId = ''t'', sf_jobId = ''j'', sf_derivationId = ''d'', sf_allocationEvents = [sample_event],
     sf_principalEntries = [sample_entry], sf_priorNetPostedPence = 0, sf_compensatesDerivationId = None\<rparr>"

abbreviation whole :: "int \<Rightarrow> exact_pence" where
  "whole n \<equiv> \<lparr>numerator = n, denominator = 1\<rparr>"

lemma texts_ok:
  "exactPenceV1 \<lparr>numerator_text = ''100'', denominator_text = ''1''\<rparr>" "exactPenceV1 \<lparr>numerator_text = ''2345'', denominator_text = ''1''\<rparr>"
proof -
  have "integer_text ''100''" "integer_text ''2345''" "positive_text ''1''" by code_simp+
  then show "exactPenceV1 \<lparr>numerator_text = ''100'', denominator_text = ''1''\<rparr>"
    "exactPenceV1 \<lparr>numerator_text = ''2345'', denominator_text = ''1''\<rparr>"
    by (simp_all add: exactPenceV1_def exact_text_ok_def integerOf_def positiveOf_def MAX_EXACT_PENCE_DIGITS_eq)
qed

lemma texts_parse:
  "parseExactPence exactPenceV1 \<lparr>numerator_text = ''100'', denominator_text = ''1''\<rparr> = Inr (whole 100)"
  "parseExactPence exactPenceV1 \<lparr>numerator_text = ''2345'', denominator_text = ''1''\<rparr> = Inr (whole 2345)"
  by (simp_all add: parseExactPence_def texts_ok int_of_text_def digits_val_def digit_val_def MAX_MONEY_PENCE_def)

lemma sample_facts_valid:
  "shadowEligibilityV1 sample_missed" "shadowEligibilityV1 sample_duplicate" "shadowAttributionV1 sample_attribution"
proof -
  show a: "shadowAttributionV1 sample_attribution"
    by (simp add: shadowAttributionV1_def sample_attribution_def attributionPredicates_def sample_fact_def shadowRef_def
        text_within_def same_fact_binding_def sameShadowBinding_def)
  show "shadowEligibilityV1 sample_missed" "shadowEligibilityV1 sample_duplicate"
    by (simp_all add: shadowEligibilityV1_def sample_missed_def sample_duplicate_def sample_eligibility_def shadowRef_def
        text_within_def texts_ok same_line_binding_def sameShadowBinding_def a)
qed

lemma sample_validated:
  "\<exists>r. validate_facts sample_fee sample_missed = Inr (sample_missed, r) \<and> er_eligible r"
  "\<exists>r. validate_facts sample_fee sample_duplicate = Inr (sample_duplicate, r) \<and>
     er_qualifyingPrincipal r = \<lparr>numerator_text = ''2345'', denominator_text = ''1''\<rparr>"
proof -
  have q: "qualifiesAttribution sample_attribution = Inr True"
    by (simp add: qualifiesAttribution_def createAttributionFacts_def sample_facts_valid)
      (simp add: sample_attribution_def resolution_of_def attributionPredicates_def sample_fact_def)
  have c: "createEligibilityFacts sample_missed = Inr sample_missed" "createEligibilityFacts sample_duplicate = Inr sample_duplicate"
    by (simp_all add: createEligibilityFacts_def sample_facts_valid shared_fee_def)
      (simp_all add: sample_missed_def sample_duplicate_def sample_eligibility_def texts_parse category_consistent_def
        assertAttributionBinding_def sample_attribution_def sameShadowBinding_def)
  show "\<exists>r. validate_facts sample_fee sample_missed = Inr (sample_missed, r) \<and> er_eligible r"
    "\<exists>r. validate_facts sample_fee sample_duplicate = Inr (sample_duplicate, r) \<and>
       er_qualifyingPrincipal r = \<lparr>numerator_text = ''2345'', denominator_text = ''1''\<rparr>"
    by (simp_all add: validate_facts_def c evaluateRecoveryEligibility_def)
      (simp_all add: sample_missed_def sample_duplicate_def sample_eligibility_def category_eligible_def q sample_fee_def)
qed

definition sample_share :: line_allocation where
  "sample_share = \<lparr>la_lineId = ''a'', la_rule = Rule_pro_rata, la_sourceRef = ''bank:1'', la_gross = whole 60, la_net = whole 50\<rparr>"

lemma sample_allocated: "allocateReceiptToLines sample_receipt = Inr [sample_share]"
proof -
  have ok: "receiptAllocationV1 sample_receipt"
    by (simp add: receiptAllocationV1_def sample_receipt_def MAX_ALLOCATION_LINES_def) code_simp
  have r: "read_exact (ra_receiptGross sample_receipt) = Inr (whole 60)" by code_simp
  have l: "bind_r (map_r read_line (ra_lines sample_receipt)) (\<lambda>ls. bind_r (parseInstant (ra_effectiveAt sample_receipt))
      (\<lambda>t. if list_ex (\<lambda>l. numerator (snd l) < 0) ls then Inl INVALID_ALLOCATION
        else filter_r (eligible_line sample_receipt t) ls)) = Inr [(sample_line, whole 120)]" by code_simp
  have t: "allocation_total [whole 120] = Inr (whole 120)" by (rule allocation_total_eq) (simp_all add: exact_ok_def val_def)
  have q: "exactPence 1 120 = Inr \<lparr>numerator = 1, denominator = 120\<rparr>" "compareExactPence (whole 60) (whole 120) = - 1" by code_simp+
  have m: "append_proportion sample_receipt (whole 60) \<lparr>numerator = 1, denominator = 120\<rparr> (sample_line, whole 120) = Inr sample_share"
    by code_simp
  have pr: "allocate_pro_rata sample_receipt (whole 60) [(sample_line, whole 120)] = Inr [sample_share]"
    unfolding allocate_pro_rata_def by (simp add: t q m)
  from l obtain ls u where "map_r read_line (ra_lines sample_receipt) = Inr ls" "parseInstant (ra_effectiveAt sample_receipt) = Inr u"
    "\<not> list_ex (\<lambda>l. numerator (snd l) < 0) ls" "filter_r (eligible_line sample_receipt u) ls = Inr [(sample_line, whole 120)]"
    unfolding result_simps by blast
  moreover have "ra_separateInvoiceId sample_receipt = None" "ra_explicit sample_receipt = None"
    "distinct (map rl_id (ra_lines sample_receipt))" by (simp_all add: sample_receipt_def)
  ultimately show ?thesis unfolding allocateReceiptToLines_def using pr by (simp add: ok r)
qed

lemma sample_event_settled: "\<exists>st. settle_event sample_fee empty_fee_state sample_event = Inr st \<and> st_terms st = [whole 50]"
proof -
  from sample_validated(1) obtain r where r: "validate_facts sample_fee sample_missed = Inr (sample_missed, r)" "er_eligible r" by blast
  have f: "lb_lineId sample_missed = ''a''" "el_principalNet sample_missed = \<lparr>numerator_text = ''100'', denominator_text = ''1''\<rparr>"
    by (simp_all add: sample_missed_def sample_eligibility_def)
  have e: "exactPence 100 1 = Inr (whole 100)" "compareExactPence (whole 100) (whole 100) = 0"
    "addExactPence exact_zero (whole 50) = Inr (whole 50)" "compareExactPence (whole 50) exact_zero = 1"
    "compareExactPence (whole 50) (whole 100) = - 1" "exactPence 120 1 = Inr (whole 120)" "exactPence (- 60) 1 = Inr (whole (- 60))"
    "addExactPence (whole 120) (whole (- 60)) = Inr (whole 60)" "int_of_text ''120'' = 120" "int_of_text ''1'' = 1" by code_simp+
  have x: "ae_receipt sample_event = sample_receipt" "ae_qualifyingLines sample_event = [sample_missed]"
    "ae_reversesSourceRef sample_event = None" "ra_direction sample_receipt = Dir_receipt" "ra_lines sample_receipt = [sample_line]"
    "ra_sourceRef sample_receipt = ''bank:1''" by (simp_all add: sample_event_def sample_receipt_def)
  have l: "rl_id sample_line = ''a''" "rl_netPence sample_line = 100"
    "rl_outstandingGross sample_line = \<lparr>numerator_text = ''120'', denominator_text = ''1''\<rparr>" by (simp_all add: sample_line_def)
  have s: "la_lineId sample_share = ''a''" "la_gross sample_share = whole 60" "la_net sample_share = whole 50"
    by (simp_all add: sample_share_def)
  have z: "st_lastReceiptAt empty_fee_state = None" "st_current empty_fee_state = []" "st_terms empty_fee_state = []"
    "st_allocatedNet empty_fee_state = []" "st_originals empty_fee_state = []" by (simp_all add: empty_fee_state_def)
  have p: "principal_of_line sample_event sample_missed = Inr ()"
    by (simp add: principal_of_line_def x l f texts_parse shared_fee_def e)
  have c: "check_receipt empty_fee_state sample_event = Inr (empty_fee_state\<lparr>st_lastReceiptAt := Some (ra_effectiveAt sample_receipt)\<rparr>)"
    by (simp add: check_receipt_def x z check_known_line_def)
  show ?thesis unfolding settle_event_def
    by (simp add: x unique_ids_def uniqueShadowIds_def r p c sample_allocated shared_fee_def take_share_def l s e f z
        keep_books_def settle_line_def)
qed

lemma sum_two: "sumExactPence0 [whole 50, whole 2345] = Inr (whole 2395)"
proof -
  have k: "(10::int) ^ 4 \<le> 10 ^ MAX_EXACT_PENCE_DIGITS" unfolding MAX_EXACT_PENCE_DIGITS_eq by (rule power_increasing) simp_all
  have "\<forall>v\<in>set [whole 50, whole 2345]. 0 < denominator v" by simp
  from sumExactPence_unfold [OF this, of MAX_EXACT_PENCE_DIGITS "max MAX_EXACT_PENCE_DIGITS MAX_EXACT_PENCE_DIGITS"] obtain q where
    q: "exact_ok q" "val q = sum_list (map val [whole 50, whole 2345])" and
    eq: "sumExactPence [whole 50, whole 2345] MAX_EXACT_PENCE_DIGITS (max MAX_EXACT_PENCE_DIGITS MAX_EXACT_PENCE_DIGITS) =
      (if [whole 50, whole 2345] \<noteq> [] \<and> 10 ^ max MAX_EXACT_PENCE_DIGITS MAX_EXACT_PENCE_DIGITS \<le> Lcm (denominator ` set [whole 50, whole 2345])
       then Inl INVALID_SHARED_MONEY
       else if denominator q \<ge> 10 ^ MAX_EXACT_PENCE_DIGITS \<or> \<bar>numerator q\<bar> \<ge> 10 ^ MAX_EXACT_PENCE_DIGITS then Inl INVALID_SHARED_MONEY
       else Inr q)" by blast
  have "q = whole 2395" using q by (intro exact_ok_unique) (simp_all add: exact_ok_def val_def)
  with eq k show ?thesis unfolding sumExactPence0_def by simp
qed

lemma sample_proposed: "\<exists>p. deriveShadowSuccessFee sample_fee = Inr p \<and> sfp_Q p = whole 2395 \<and> pence (sfp_F p) = 240"
proof -
  from sample_event_settled obtain st where st: "settle_event sample_fee empty_fee_state sample_event = Inr st" "st_terms st = [whole 50]" by blast
  from sample_validated(2) obtain r where r: "validate_facts sample_fee sample_duplicate = Inr (sample_duplicate, r)"
    "er_qualifyingPrincipal r = \<lparr>numerator_text = ''2345'', denominator_text = ''1''\<rparr>" by blast
  have en: "\<exists>en. settle_entry sample_fee \<lparr>en_originals = [], en_terms = st_terms st, en_sources = st_sources st\<rparr> sample_entry = Inr en \<and>
      en_terms en = [whole 50, whole 2345]"
    by (simp add: settle_entry_def sample_entry_def r texts_parse shared_fee_def st(2))
  then obtain en where en: "settle_entry sample_fee \<lparr>en_originals = [], en_terms = st_terms st, en_sources = st_sources st\<rparr> sample_entry = Inr en"
      "en_terms en = [whole 50, whole 2345]" by blast
  have v: "cumulativeFeeInputV1 (success_rate_input sample_fee (whole 2395))" and
    sv: "fr_policyVersion (cf_rate (success_rate_input sample_fee (whole 2395))) = cf_priorPolicyVersion (success_rate_input sample_fee (whole 2395))"
  proof -
    have "canonical_whole ''10''" "positive_text ''100''" "integer_text (int_text 2395)" "positive_text (int_text 1)"
      "int_of_text ''10'' = 10" "int_of_text ''100'' = 100" "length (int_text 2395) = 4" "length (int_text 1) = 1" by code_simp+
    then show "cumulativeFeeInputV1 (success_rate_input sample_fee (whole 2395))"
      by (simp add: success_rate_input_def sample_fee_def cumulativeFeeInputV1_def feeRateV1_def exactPenceV1_def exact_text_ok_def
        integerOf_def positiveOf_def MAX_EXACT_PENCE_DIGITS_eq MAX_MONEY_PENCE_def serializeExactPence_def fee_policy_def)
  qed (simp add: success_rate_input_def)
  have n: "round_div Half_even 23950 100 = 240" by (simp add: round_div_def)
  have t: "int_of_text ''10'' = 10" "int_of_text ''100'' = 100" by code_simp+
  have c: "calculateCumulativeFee (success_rate_input sample_fee (whole 2395)) = Inr \<lparr>cr_policyVersion = fee_policy,
     cr_cumulativeFee = gbp 240, cr_postingDelta = gbp 240, cr_compensatesDerivationId = None\<rparr>"
    unfolding calculateCumulativeFee_valid [OF v sv]
    by (simp add: success_rate_input_def sample_fee_def serializeExactPence_def int_of_int_text MAX_MONEY_PENCE_def fee_of_def t n)
  have m: "money_of (JInt 0) = Inr (gbp 0)" by (simp add: money_of_JInt MAX_MONEY_PENCE_def)
  have p: "\<exists>p. propose sample_fee st en = Inr p \<and> sfp_Q p = whole 2395 \<and> pence (sfp_F p) = 240"
    by (simp add: propose_def en(2) sum_two shared_fee_def c m) (simp add: sample_fee_def m)
  have w: "shadowSuccessFeeV1 sample_fee"
  proof -
    have "receiptAllocationV1 sample_receipt"
      by (simp add: receiptAllocationV1_def sample_receipt_def MAX_ALLOCATION_LINES_def) code_simp
    then show ?thesis
      by (simp add: shadowSuccessFeeV1_def sample_fee_def allocation_event_ok_def sample_event_def sample_facts_valid
        principal_entry_ok_def sample_entry_def shadowRef_def text_within_def amount_ok_def MAX_MONEY_PENCE_def)
        (simp add: sample_duplicate_def sample_eligibility_def)
  qed
  have ev: "sf_allocationEvents sample_fee = [sample_event]" "sf_principalEntries sample_fee = [sample_entry]" by (simp_all add: sample_fee_def)
  have i: "claim_identity sample_missed \<noteq> claim_identity sample_duplicate" "recovery_proofs sample_fee = [''proof:b'']"
    "spf_sourceRef (el_proof sample_missed) = ''proof:a''" "pe_facts sample_entry = sample_duplicate"
    "ae_qualifyingLines sample_event = [sample_missed]" "ra_sourceRef (ae_receipt sample_event) = ''bank:1''" "pe_sourceRef sample_entry = ''refund:1''"
    by (simp_all add: claim_identity_def sample_missed_def sample_duplicate_def sample_eligibility_def recovery_proofs_def sample_fee_def
      sample_entry_def sample_event_def sample_receipt_def)
  show ?thesis unfolding deriveShadowSuccessFee_def using p by (simp add: w ev i st(1) en(1) unique_ids_def uniqueShadowIds_def)
qed

theorem success_fee_sound_witness:
  "\<exists>p. deriveShadowSuccessFee sample_fee = Inr p \<and> val (sfp_Q p) = 2395 \<and> pence (sfp_F p) = 240 \<and>
     sf_priorNetPostedPence sample_fee + pence (sfp_delta p) = 240"
proof -
  from sample_proposed obtain p where p: "deriveShadowSuccessFee sample_fee = Inr p" "sfp_Q p = whole 2395" "pence (sfp_F p) = 240" by blast
  from success_fee_sound [OF p(1)] p(2,3) show ?thesis using p(1) by (intro exI [of _ p]) (auto simp: val_def)
qed

end
