(* ===== verification/Trials.thy ===== *)
theory Trials
  imports Work_Timing
begin

text \<open>
  Model of \<^verbatim>\<open>packages/core/src/free-first-job.ts\<close> and \<^verbatim>\<open>free-first-job-calendar.ts\<close>: who may have a free
  first job, and when the trial of a job ends. The preview computes with millisecond instants (an
  \<open>int\<close>, the number of milliseconds since 1970); the calendar with the microsecond times of work
  facts and the London dates of \<^verbatim>\<open>Work_Timing\<close>.
\<close>

section \<open>Identities and their keys\<close>

datatype trial_preview_error = INVALID_FREE_FIRST_JOB_INPUT

text \<open>\<^verbatim>\<open>/^[\x21-\x7e]+$/u\<close>, at most 200 characters.\<close>

definition opaque :: "string \<Rightarrow> bool" where
  "opaque s \<longleftrightarrow> 1 \<le> length s \<and> length s \<le> 200 \<and> list_all (\<lambda>c. CHR ''!'' \<le> c \<and> c \<le> CHR ''~'') s"

definition starts_with :: "string \<Rightarrow> string \<Rightarrow> bool" where
  "starts_with p s \<longleftrightarrow> take (length p) s = p"

record trial_identity =
  id_companyNumber :: "string option"
  id_normalizedPhone :: "string option"
  id_cardFingerprint :: "string option"

definition freeFirstJobIdentityV1 :: "trial_identity \<Rightarrow> bool" where
  "freeFirstJobIdentityV1 i \<longleftrightarrow> pred_option opaque (id_companyNumber i) \<and> pred_option opaque (id_normalizedPhone i) \<and>
     pred_option (\<lambda>s. opaque s \<and> starts_with ''sim_fp_'' s) (id_cardFingerprint i)"

text \<open>\<^verbatim>\<open>JSON.stringify\<close> of an array of strings of printable ASCII characters: quotes and backslashes are escaped.\<close>

definition json_char :: "char \<Rightarrow> string" where
  "json_char c = (if c = CHR 0x22 then [CHR 0x5C, CHR 0x22] else if c = CHR 0x5C then [CHR 0x5C, CHR 0x5C] else [c])"

definition json_string :: "string \<Rightarrow> string" where
  "json_string s = CHR 0x22 # concat (map json_char s) @ [CHR 0x22]"

fun json_items :: "string list \<Rightarrow> string" where
  "json_items [] = ''''"
| "json_items [s] = json_string s"
| "json_items (s # ss) = json_string s @ '','' @ json_items ss"

definition json_array :: "string list \<Rightarrow> string" where
  "json_array ss = ''['' @ json_items ss @ '']''"

definition company_key :: "string \<Rightarrow> string" where
  "company_key c = json_array [''free-first-job.v1'', ''company'', c]"

definition phone_card_key :: "string \<Rightarrow> string \<Rightarrow> string" where
  "phone_card_key p f = json_array [''free-first-job.v1'', ''phone_card'', p, ''simulated'', f]"

definition identity_keys :: "trial_identity \<Rightarrow> string list" where
  "identity_keys i = (case id_companyNumber i of None \<Rightarrow> [] | Some c \<Rightarrow> [company_key c]) @
     (case (id_normalizedPhone i, id_cardFingerprint i) of (Some p, Some f) \<Rightarrow> [phone_card_key p f] | _ \<Rightarrow> [])"

definition freeFirstJobKeys :: "trial_identity \<Rightarrow> trial_preview_error + string list" where
  "freeFirstJobKeys i = (if freeFirstJobIdentityV1 i then Inr (identity_keys i) else Inl INVALID_FREE_FIRST_JOB_INPUT)"

text \<open>The deprecated \<^verbatim>\<open>freeFirstJobKey\<close>: one key or none.\<close>

definition freeFirstJobKey :: "trial_identity \<Rightarrow> trial_preview_error + string option" where
  "freeFirstJobKey i = (if \<not> freeFirstJobIdentityV1 i then Inl INVALID_FREE_FIRST_JOB_INPUT
     else Inr (case id_companyNumber i of Some c \<Rightarrow> Some (company_key c)
       | None \<Rightarrow> (case (id_normalizedPhone i, id_cardFingerprint i) of (Some p, Some f) \<Rightarrow> Some (phone_card_key p f) | _ \<Rightarrow> None)))"

section \<open>The preview of a first job\<close>

datatype card_status = Card_completed string string | Card_requested | Card_cancelled | Card_failed | Card_outcome_unknown | Card_redirect_only

record trial_card =
  ca_tenantId :: string
  ca_status :: card_status

definition freeFirstJobCardV1 :: "trial_card \<Rightarrow> bool" where
  "freeFirstJobCardV1 c \<longleftrightarrow> (case ca_status c of
      Card_completed ref print \<Rightarrow> opaque ref \<and> starts_with ''sim_ref_'' ref \<and> opaque print \<and> starts_with ''sim_fp_'' print
    | _ \<Rightarrow> True)"

record preview_input =
  pi_tenantId :: string
  pi_jobId :: string
  pi_identity :: trial_identity
  pi_priorLiveJobIds :: "string list"
  pi_consumedKeys :: "string list"
  pi_card :: "trial_card option"

definition freeFirstJobPreviewInputV1 :: "preview_input \<Rightarrow> bool" where
  "freeFirstJobPreviewInputV1 i \<longleftrightarrow> freeFirstJobIdentityV1 (pi_identity i) \<and> length (pi_priorLiveJobIds i) \<le> 10000 \<and>
     length (pi_consumedKeys i) \<le> 10000 \<and> list_all (\<lambda>k. 1 \<le> length k \<and> length k \<le> 1000) (pi_consumedKeys i) \<and>
     pred_option (\<lambda>c. freeFirstJobCardV1 c \<and> ca_tenantId c = pi_tenantId i) (pi_card i)"

datatype trial_status = Ts_existing_job | Ts_not_first_job | Ts_identity_required | Ts_already_consumed | Ts_candidate
datatype card_gate = Gate_existing_job | Gate_card_required | Gate_satisfied | Gate_first_job_optional

record preview_result =
  pv_trial :: trial_status
  pv_offerCard :: bool
  pv_offerSkip :: bool
  pv_cardGate :: card_gate
  pv_nextAction :: bool

definition card_completed :: "preview_input \<Rightarrow> bool" where
  "card_completed i = (case pi_card i of Some c \<Rightarrow> (case ca_status c of Card_completed _ _ \<Rightarrow> True | _ \<Rightarrow> False) | None \<Rightarrow> False)"

definition trial_of :: "preview_input \<Rightarrow> string list \<Rightarrow> trial_status" where
  "trial_of i keys = (if pi_jobId i \<in> set (pi_priorLiveJobIds i) then Ts_existing_job
     else if pi_priorLiveJobIds i \<noteq> [] then Ts_not_first_job
     else if keys = [] then Ts_identity_required
     else if list_ex (\<lambda>k. k \<in> set (pi_consumedKeys i)) keys then Ts_already_consumed else Ts_candidate)"

definition previewFreeFirstJob :: "preview_input \<Rightarrow> trial_preview_error + preview_result" where
  "previewFreeFirstJob i =
     (if \<not> freeFirstJobPreviewInputV1 i then Inl INVALID_FREE_FIRST_JOB_INPUT
      else bind_r (freeFirstJobKeys (pi_identity i)) (\<lambda>keys.
        let existing = pi_jobId i \<in> set (pi_priorLiveJobIds i);
            first = (pi_priorLiveJobIds i = []);
            requiresCard = \<not> existing \<and> \<not> first \<and> \<not> card_completed i
        in Inr \<lparr>pv_trial = trial_of i keys, pv_offerCard = (first \<and> \<not> card_completed i), pv_offerSkip = first,
             pv_cardGate = (if existing then Gate_existing_job else if requiresCard then Gate_card_required
               else if card_completed i then Gate_satisfied else Gate_first_job_optional),
             pv_nextAction = requiresCard\<rparr>))"

section \<open>The preview of the end of a trial\<close>

definition preview_instant :: "int \<Rightarrow> bool" where
  "preview_instant t \<longleftrightarrow> 946684800000 \<le> t \<and> t < 253370764800000"

datatype trial_event_kind = Tk_lock | Tk_close | Tk_switch_live

record trial_event =
  te_tenantId :: string
  te_jobId :: string
  te_kind :: trial_event_kind
  te_occurredAt :: int

record end_preview_input =
  ei_tenantId :: string
  ei_jobId :: string
  ei_startedAt :: int
  ei_now :: int
  ei_events :: "trial_event list"

definition freeFirstJobEndPreviewInputV1 :: "end_preview_input \<Rightarrow> bool" where
  "freeFirstJobEndPreviewInputV1 i \<longleftrightarrow> preview_instant (ei_startedAt i) \<and> preview_instant (ei_now i) \<and>
     length (ei_events i) \<le> 10000 \<and> list_all (\<lambda>e. preview_instant (te_occurredAt e)) (ei_events i) \<and>
     ei_now i \<ge> ei_startedAt i \<and>
     list_all (\<lambda>e. te_tenantId e = ei_tenantId i \<and> te_occurredAt e \<ge> ei_startedAt i \<and>
       (te_kind e \<noteq> Tk_switch_live \<or> te_jobId e \<noteq> ei_jobId i \<or> te_occurredAt e = ei_startedAt i)) (ei_events i)"

datatype end_reason = End_lock | End_close | End_day_90 | End_second_job

text \<open>The order of the reasons as texts.\<close>

fun reason_rank :: "end_reason \<Rightarrow> nat" where
  "reason_rank End_close = 0"
| "reason_rank End_day_90 = 1"
| "reason_rank End_lock = 2"
| "reason_rank End_second_job = 3"

definition end_candidates :: "end_preview_input \<Rightarrow> trial_event \<Rightarrow> (int \<times> end_reason) list" where
  "end_candidates i e =
     (if te_kind e = Tk_switch_live \<and> te_jobId e \<noteq> ei_jobId i then [(te_occurredAt e, End_second_job)] else []) @
     (if te_jobId e = ei_jobId i \<and> te_kind e \<noteq> Tk_switch_live
      then [(te_occurredAt e, if te_kind e = Tk_lock then End_lock else End_close)] else [])"

definition candidate_before :: "int \<times> end_reason \<Rightarrow> int \<times> end_reason \<Rightarrow> bool" where
  "candidate_before a b \<longleftrightarrow> fst a < fst b \<or> (fst a = fst b \<and> reason_rank (snd a) < reason_rank (snd b))"

record end_preview =
  ep_deadlineAt :: int
  ep_active :: bool
  ep_endedAt :: "int option"
  ep_endReason :: "end_reason option"

definition preview_deadline :: "end_preview_input \<Rightarrow> int" where
  "preview_deadline i = ei_startedAt i + 90 * 86400000"

definition previewFreeFirstJobEnd :: "end_preview_input \<Rightarrow> trial_preview_error + end_preview" where
  "previewFreeFirstJobEnd i =
     (if \<not> freeFirstJobEndPreviewInputV1 i then Inl INVALID_FREE_FIRST_JOB_INPUT
      else let candidates = (preview_deadline i, End_day_90) # concat (map (end_candidates i) (ei_events i));
               end_at = hd (sort_by candidate_before candidates);
               active = fst end_at > ei_now i
           in Inr \<lparr>ep_deadlineAt = preview_deadline i, ep_active = active,
                ep_endedAt = (if active then None else Some (fst end_at)),
                ep_endReason = (if active then None else Some (snd end_at))\<rparr>)"

section \<open>The trial calendar\<close>

datatype trial_calendar_error = INVALID_TRIAL_CALENDAR_INPUT | TRIAL_CLOCK_POLICY_HOLD | TRIAL_SOURCE_CONFLICT

text \<open>
  \<^verbatim>\<open>localParts\<close>: the London date, the time of day in seconds and the offset shown, at a whole second; an
  instant of an era before year 1 is refused. The policy object has one value, so it is no argument;
  \<open>policy_ok\<close> is the answer of its schema for the object supplied.
\<close>

definition localParts :: "zone \<Rightarrow> int \<Rightarrow> trial_calendar_error + work_date \<times> int \<times> int" where
  "localParts offset s = (let l = s + offset s in
     if l div 86400 < - 719162 then Inl INVALID_TRIAL_CALENDAR_INPUT else Inr (l div 86400, l mod 86400, offset s))"

record trial_deadline =
  td_startedAt :: work_time
  td_startLondonDate :: work_date
  td_startLondonClock :: int
  td_deadlineLondonDate :: work_date
  td_deadlineAt :: work_time

definition trialDeadlineSchemaV1 :: "trial_deadline \<Rightarrow> bool" where
  "trialDeadlineSchemaV1 d \<longleftrightarrow> dated_time (td_startedAt d) \<and> londonWorkDateV1 (td_startLondonDate d) \<and>
     londonWorkDateV1 (td_deadlineLondonDate d) \<and> dated_time (td_deadlineAt d)"

definition trialDeadlineV1 :: "zone \<Rightarrow> bool \<Rightarrow> work_time \<Rightarrow> trial_calendar_error + trial_deadline" where
  "trialDeadlineV1 offset policy_ok startedAt =
     (if \<not> policy_ok then Inl TRIAL_CLOCK_POLICY_HOLD
      else if \<not> dated_time startedAt then Inl INVALID_TRIAL_CALENDAR_INPUT
      else bind_r (localParts offset (second_of startedAt)) (\<lambda>(date, clock, _).
      if \<not> londonWorkDateV1 date then Inl INVALID_TRIAL_CALENDAR_INPUT
      else bind_r (map_err (\<lambda>_. INVALID_TRIAL_CALENDAR_INPUT) (addWorkCalendarDays date 90)) (\<lambda>target.
      bind_r (localParts offset (target * 86400)) (\<lambda>(_, _, seconds).
      let deadline = target * 86400 - seconds in
      bind_r (localParts offset deadline) (\<lambda>(date', clock', _).
      if date' \<noteq> target \<or> clock' \<noteq> 0 then Inl TRIAL_CLOCK_POLICY_HOLD
      else let d = \<lparr>td_startedAt = startedAt, td_startLondonDate = date,
             td_startLondonClock = clock * 1000000 + startedAt mod 1000000,
             td_deadlineLondonDate = target, td_deadlineAt = deadline * 1000000\<rparr>
           in if trialDeadlineSchemaV1 d then Inr d else Inl INVALID_TRIAL_CALENDAR_INPUT)))))"

datatype end_source_kind = Src_lock | Src_close | Src_second_activation

record trial_end_source =
  es_sourceId :: string
  es_kind :: end_source_kind
  es_tenantId :: string
  es_jobId :: string
  es_effectiveAt :: work_time
  es_recordedAt :: work_time

record trial_end_input =
  tei_trialId :: string
  tei_tenantId :: string
  tei_jobId :: string
  tei_startedAt :: work_time
  tei_deadline :: trial_deadline
  tei_asOf :: work_time
  tei_events :: "trial_end_source list"

definition trialEndInputV1 :: "trial_end_input \<Rightarrow> bool" where
  "trialEndInputV1 i \<longleftrightarrow> dated_time (tei_startedAt i) \<and> trialDeadlineSchemaV1 (tei_deadline i) \<and> dated_time (tei_asOf i) \<and>
     length (tei_events i) \<le> 10000 \<and> list_all (\<lambda>e. dated_time (es_effectiveAt e) \<and> dated_time (es_recordedAt e)) (tei_events i)"

record trial_end_projection =
  tp_active :: bool
  tp_endedAt :: "work_time option"
  tp_deadlineReachedAtEnd :: bool
  tp_sourceIds :: "string list"

definition end_source_ok :: "trial_end_input \<Rightarrow> trial_end_source \<Rightarrow> bool" where
  "end_source_ok i e \<longleftrightarrow> es_tenantId e = tei_tenantId i \<and> es_effectiveAt e \<ge> tei_startedAt i \<and> es_recordedAt e \<ge> es_effectiveAt e \<and>
     \<not> (es_kind e = Src_second_activation \<and> es_jobId e = tei_jobId i)"

definition add_source :: "trial_end_input \<Rightarrow> (string \<times> trial_end_source) list \<Rightarrow> trial_end_source \<Rightarrow>
    trial_calendar_error + (string \<times> trial_end_source) list" where
  "add_source i m e =
     (if \<not> end_source_ok i e then Inl INVALID_TRIAL_CALENDAR_INPUT
      else case map_of m (es_sourceId e) of
        Some prior \<Rightarrow> if prior \<noteq> e then Inl TRIAL_SOURCE_CONFLICT else Inr (AList.update (es_sourceId e) e m)
      | None \<Rightarrow> Inr (AList.update (es_sourceId e) e m))"

definition visible_source :: "trial_end_input \<Rightarrow> trial_end_source \<Rightarrow> bool" where
  "visible_source i e \<longleftrightarrow> es_effectiveAt e \<le> tei_asOf i \<and> es_recordedAt e \<le> tei_asOf i \<and>
     (es_kind e = Src_second_activation \<or> es_jobId e = tei_jobId i)"

definition earliest_end :: "work_time \<Rightarrow> trial_end_source list \<Rightarrow> work_time" where
  "earliest_end deadline es = fold (\<lambda>e t. if es_effectiveAt e < t then es_effectiveAt e else t) es deadline"

definition reduceTrialEndsV1 :: "zone \<Rightarrow> trial_end_input \<Rightarrow> trial_calendar_error + trial_end_projection" where
  "reduceTrialEndsV1 offset i =
     (if \<not> trialEndInputV1 i then Inl INVALID_TRIAL_CALENDAR_INPUT
      else bind_r (trialDeadlineV1 offset True (tei_startedAt i)) (\<lambda>expected.
      if tei_deadline i \<noteq> expected \<or> tei_asOf i < tei_startedAt i then Inl INVALID_TRIAL_CALENDAR_INPUT
      else bind_r (fold_r (add_source i) [] (tei_events i)) (\<lambda>sources.
        let candidates = filter (visible_source i) (map snd sources);
            end_at = earliest_end (td_deadlineAt (tei_deadline i)) candidates;
            active = tei_asOf i < end_at
        in Inr \<lparr>tp_active = active, tp_endedAt = (if active then None else Some end_at),
             tp_deadlineReachedAtEnd = (\<not> active \<and> end_at = td_deadlineAt (tei_deadline i)),
             tp_sourceIds = (if active then [] else sort (map es_sourceId (filter (\<lambda>e. es_effectiveAt e = end_at) candidates)))\<rparr>)))"

section \<open>Keys identify\<close>

lemma json_body_inj:
  "concat (map json_char s) @ CHR 0x22 # r = concat (map json_char t) @ CHR 0x22 # r' \<Longrightarrow> s = t \<and> r = r'"
proof (induction s arbitrary: t)
  case Nil
  then show ?case by (cases t) (auto simp: json_char_def split: if_splits)
next
  case (Cons c s)
  then show ?case by (cases t) (auto simp: json_char_def split: if_splits)
qed

lemma json_string_inj: "json_string s @ r = json_string t @ r' \<longleftrightarrow> s = t \<and> r = r'"
  using json_body_inj [of s r t r'] by (auto simp: json_string_def)

lemma json_string_eq: "json_string s = json_string t \<longleftrightarrow> s = t"
  using json_string_inj [of s "[]" t "[]"] by simp

lemma key_inj:
  "company_key c = company_key d \<longleftrightarrow> c = d"
  "phone_card_key p f = phone_card_key q g \<longleftrightarrow> p = q \<and> f = g"
  "company_key c \<noteq> phone_card_key p f" "phone_card_key p f \<noteq> company_key c"
  by (simp_all add: company_key_def phone_card_key_def json_array_def json_string_inj json_string_eq)

text \<open>
  A key identifies a company or a phone with a card. Two valid identities share a key exactly
  if they have the same company number or the same phone and card, whatever characters these texts
  contain: the text of a key cannot be forged by quotes or separators in a value. The deprecated single key is
  one of the keys, and an identity has no key exactly if it has neither.
\<close>

lemma trial_keys_identify:
  assumes "freeFirstJobKeys i = Inr ks" and "freeFirstJobKeys j = Inr ls"
  shows "(set ks \<inter> set ls \<noteq> {} \<longleftrightarrow>
      (id_companyNumber i \<noteq> None \<and> id_companyNumber i = id_companyNumber j) \<or>
      (id_normalizedPhone i \<noteq> None \<and> id_cardFingerprint i \<noteq> None \<and>
       id_normalizedPhone i = id_normalizedPhone j \<and> id_cardFingerprint i = id_cardFingerprint j)) \<and>
    freeFirstJobKey i = Inr (case ks of [] \<Rightarrow> None | k # _ \<Rightarrow> Some k)"
proof -
  from assms have k: "ks = identity_keys i" "ls = identity_keys j" "freeFirstJobIdentityV1 i"
    by (auto simp: freeFirstJobKeys_def split: if_splits)
  show ?thesis unfolding k(1,2) freeFirstJobKey_def using k(3)
    by (auto simp: identity_keys_def key_inj split: option.splits)
qed

definition sample_identity :: trial_identity where
  "sample_identity = \<lparr>id_companyNumber = Some ''01234567'', id_normalizedPhone = Some ''+44'', id_cardFingerprint = Some ''sim_fp_a''\<rparr>"

lemma trial_keys_identify_witness:
  "\<exists>ks. freeFirstJobKeys sample_identity = Inr ks \<and> length ks = 2 \<and>
     freeFirstJobKey sample_identity = Inr (case ks of [] \<Rightarrow> None | k # _ \<Rightarrow> Some k)"
proof -
  have "freeFirstJobIdentityV1 sample_identity" by code_simp
  then have k: "freeFirstJobKeys sample_identity = Inr (identity_keys sample_identity)" by (simp add: freeFirstJobKeys_def)
  moreover have "length (identity_keys sample_identity) = 2" by (simp add: identity_keys_def sample_identity_def)
  ultimately show ?thesis using trial_keys_identify [OF k k] by blast
qed

section \<open>The first job\<close>

lemma preview_candidate:
  assumes "previewFreeFirstJob i = Inr r"
  shows "(pv_trial r = Ts_candidate \<longleftrightarrow> pi_priorLiveJobIds i = [] \<and> identity_keys (pi_identity i) \<noteq> [] \<and>
      set (identity_keys (pi_identity i)) \<inter> set (pi_consumedKeys i) = {}) \<and>
    (pv_nextAction r \<longleftrightarrow> pv_cardGate r = Gate_card_required) \<and>
    (pv_nextAction r \<longrightarrow> pi_priorLiveJobIds i \<noteq> [] \<and> pi_jobId i \<notin> set (pi_priorLiveJobIds i)) \<and>
    (pv_cardGate r = Gate_satisfied \<longrightarrow> card_completed i)"
proof -
  from assms have r: "r = \<lparr>pv_trial = trial_of i (identity_keys (pi_identity i)),
      pv_offerCard = (pi_priorLiveJobIds i = [] \<and> \<not> card_completed i), pv_offerSkip = (pi_priorLiveJobIds i = []),
      pv_cardGate = (if pi_jobId i \<in> set (pi_priorLiveJobIds i) then Gate_existing_job
        else if \<not> pi_jobId i \<in> set (pi_priorLiveJobIds i) \<and> \<not> pi_priorLiveJobIds i = [] \<and> \<not> card_completed i then Gate_card_required
        else if card_completed i then Gate_satisfied else Gate_first_job_optional),
      pv_nextAction = (\<not> pi_jobId i \<in> set (pi_priorLiveJobIds i) \<and> \<not> pi_priorLiveJobIds i = [] \<and> \<not> card_completed i)\<rparr>"
    by (auto simp: previewFreeFirstJob_def freeFirstJobKeys_def Let_def split: if_splits)
  show ?thesis unfolding r by (auto simp: trial_of_def list_ex_iff)
qed

section \<open>The end of a trial\<close>

text \<open>The first element of a list sorted by a total order on its keys is a least one.\<close>

lemma hd_sort_least:
  fixes key :: "'a \<Rightarrow> 'k :: linorder"
  assumes "xs \<noteq> []" and lt: "\<And>a b. lt a b \<Longrightarrow> key a \<le> key b" "\<And>a b. \<not> lt a b \<Longrightarrow> key b \<le> key a"
  shows "hd (sort_by lt xs) \<in> set xs \<and> (\<forall>x\<in>set xs. key (hd (sort_by lt xs)) \<le> key x)"
proof -
  have ins: "hd (insert_by lt x ys) \<in> insert x (set ys) \<and> (\<forall>y\<in>insert x (set ys). key (hd (insert_by lt x ys)) \<le> key y)"
    if "ys = [] \<or> (hd ys \<in> set ys \<and> (\<forall>y\<in>set ys. key (hd ys) \<le> key y))" for x ys
  proof (cases ys)
    case (Cons y zs)
    with that have "\<forall>z\<in>set ys. key y \<le> key z" by simp
    moreover have "key x \<le> key y \<or> lt y x" "lt y x \<longrightarrow> key y \<le> key x" using lt by blast+
    ultimately show ?thesis using Cons lt by (auto intro: order_trans)
  qed simp
  have "xs = [] \<or> (hd (sort_by lt xs) \<in> set (sort_by lt xs) \<and> (\<forall>x\<in>set (sort_by lt xs). key (hd (sort_by lt xs)) \<le> key x))"
  proof (induction xs)
    case (Cons x xs)
    then have "sort_by lt xs = [] \<or> (hd (sort_by lt xs) \<in> set (sort_by lt xs) \<and>
      (\<forall>y\<in>set (sort_by lt xs). key (hd (sort_by lt xs)) \<le> key y))" by (cases xs) auto
    from ins [OF this, of x] show ?case by simp
  qed simp
  with assms(1) show ?thesis by simp
qed

lemma preview_end_earliest:
  assumes "previewFreeFirstJobEnd i = Inr r"
  shows "(\<forall>e\<in>set (ei_events i). end_candidates i e \<noteq> [] \<and> te_occurredAt e \<le> ei_now i \<longrightarrow> \<not> ep_active r) \<and>
    (ep_deadlineAt r = ei_startedAt i + 90 * 86400000) \<and> (ep_deadlineAt r \<le> ei_now i \<longrightarrow> \<not> ep_active r) \<and>
    (case ep_endedAt r of None \<Rightarrow> ep_active r
     | Some t \<Rightarrow> \<not> ep_active r \<and> ei_startedAt i \<le> t \<and> t \<le> ei_now i \<and> t \<le> ep_deadlineAt r \<and>
        (\<forall>e\<in>set (ei_events i). end_candidates i e \<noteq> [] \<longrightarrow> t \<le> te_occurredAt e))"
proof -
  let ?cs = "(preview_deadline i, End_day_90) # concat (map (end_candidates i) (ei_events i))"
  let ?e = "hd (sort_by candidate_before ?cs)"
  have l: "?e \<in> set ?cs \<and> (\<forall>x\<in>set ?cs. fst ?e \<le> fst x)"
    by (rule hd_sort_least) (auto simp: candidate_before_def)
  from assms have v: "freeFirstJobEndPreviewInputV1 i" and r: "r = \<lparr>ep_deadlineAt = preview_deadline i, ep_active = (fst ?e > ei_now i),
      ep_endedAt = (if fst ?e > ei_now i then None else Some (fst ?e)), ep_endReason = (if fst ?e > ei_now i then None else Some (snd ?e))\<rparr>"
    by (simp_all add: previewFreeFirstJobEnd_def Let_def split: if_splits)
  have c: "end_candidates i e \<noteq> [] \<Longrightarrow> \<exists>w. end_candidates i e = [(te_occurredAt e, w)]" for e
    by (auto simp: end_candidates_def split: if_splits)
  have at: "fst ?e \<le> te_occurredAt e" if "e \<in> set (ei_events i)" "end_candidates i e \<noteq> []" for e
    using l c [OF that(2)] that(1) by fastforce
  have dl: "fst ?e \<le> preview_deadline i" using l by simp
  have "ei_startedAt i \<le> fst x" if "x \<in> set ?cs" for x
    using that v by (auto simp: preview_deadline_def end_candidates_def freeFirstJobEndPreviewInputV1_def list_all_iff split: if_splits)
  then have "ei_startedAt i \<le> fst ?e" using l by blast
  with at dl show ?thesis unfolding r by (auto simp: preview_deadline_def) (meson order_trans not_less)+
qed

section \<open>The deadline of the calendar\<close>

lemma localParts_InrD: "localParts z s = Inr (d, c, w) \<Longrightarrow> d = (s + z s) div 86400 \<and> c = (s + z s) mod 86400 \<and> w = z s \<and> - 719162 \<le> d"
  by (auto simp: localParts_def Let_def split: if_splits)

lemma trialDeadlineV1_InrD:
  assumes "trialDeadlineV1 z ok s = Inr d"
  shows "td_startedAt d = s \<and> td_startLondonDate d = (second_of s + z (second_of s)) div 86400 \<and>
    td_deadlineLondonDate d = td_startLondonDate d + 90 \<and>
    (\<exists>t. td_deadlineAt d = t * 1000000 \<and> t + z t = td_deadlineLondonDate d * 86400 \<and>
      t = td_deadlineLondonDate d * 86400 - z (td_deadlineLondonDate d * 86400))"
proof -
  from assms obtain date clock w target w1 w2 seconds date' clock' w' where
    p: "localParts z (second_of s) = Inr (date, clock, w)" and t: "addWorkCalendarDays date 90 = Inr target"
    and m: "localParts z (target * 86400) = Inr (w1, w2, seconds)"
    and l: "localParts z (target * 86400 - seconds) = Inr (date', clock', w')" "date' = target" "clock' = 0"
    and d: "d = \<lparr>td_startedAt = s, td_startLondonDate = date, td_startLondonClock = clock * 1000000 + s mod 1000000,
             td_deadlineLondonDate = target, td_deadlineAt = (target * 86400 - seconds) * 1000000\<rparr>"
    unfolding trialDeadlineV1_def by (auto simp: result_simps Let_def split: if_splits prod.splits)
  have "target = date + 90" using t by (auto simp: addWorkCalendarDays_def split: if_splits)
  moreover have "(target * 86400 - seconds) + z (target * 86400 - seconds) = target * 86400"
    using localParts_InrD [OF l(1)] l(2,3) by (metis add.right_neutral mult.commute mult_div_mod_eq)
  ultimately show ?thesis using localParts_InrD [OF p] localParts_InrD [OF m] unfolding d by simp
qed

text \<open>The deadline is a London midnight, ninety dates after the date of the start, and after the start itself.\<close>

lemma trial_deadline_ahead:
  assumes "trialDeadlineV1 z ok s = Inr d" "zone_bounded z"
  shows "s < td_deadlineAt d"
proof -
  note d = trialDeadlineV1_InrD [OF assms(1)]
  let ?s = "second_of s" and ?D = "td_startLondonDate d"
  have z: "- 86400 < z ?s" "z (td_deadlineLondonDate d * 86400) < 86400"
    using assms(2) unfolding zone_bounded_def abs_less_iff by (metis minus_less_iff, blast)
  have D: "?D = (?s + z ?s) div 86400" "td_deadlineLondonDate d = ?D + 90" using d by simp_all
  have "?s + z ?s < (?D + 1) * 86400" unfolding D(1) using mult_div_mod_eq [of 86400 "?s + z ?s"] pos_mod_bound [of 86400 "?s + z ?s"]
    by (simp add: algebra_simps)
  then have "?s + 1 \<le> td_deadlineLondonDate d * 86400 - z (td_deadlineLondonDate d * 86400)" using z unfolding D(2)
    by (simp add: algebra_simps)
  then have "(?s + 1) * 1000000 \<le> td_deadlineAt d" using d by (elim conjE exE) simp
  moreover have "s < (?s + 1) * 1000000"
    unfolding second_of_def using pos_mod_bound [of 1000000 s] mult_div_mod_eq [of 1000000 s] by (simp add: algebra_simps)
  ultimately show ?thesis by simp
qed

section \<open>Reading the sources\<close>

definition sources_match :: "(string \<times> trial_end_source) list \<Rightarrow> trial_end_source set \<Rightarrow> bool" where
  "sources_match m S \<longleftrightarrow> distinct (map fst m) \<and> set (map snd m) = S \<and> (\<forall>p\<in>set m. fst p = es_sourceId (snd p)) "

lemma update_same: "map_of m k = Some v \<Longrightarrow> AList.update k v m = m"
  by (induction m) (auto split: if_splits)

lemma update_fresh_end: "map_of m k = None \<Longrightarrow> AList.update k v m = m @ [(k, v)]"
  by (induction m) (auto split: if_splits)

lemma add_source_InrD:
  assumes "add_source i m e = Inr m'" "sources_match m S"
  shows "sources_match m' (insert e S) \<and> end_source_ok i e"
proof (cases "map_of m (es_sourceId e)")
  case None
  with assms(1) have "m' = m @ [(es_sourceId e, e)]" "end_source_ok i e"
    by (auto simp: add_source_def update_fresh_end split: if_splits)
  with None assms(2) show ?thesis by (auto simp: sources_match_def map_of_eq_None_iff)
next
  case (Some v)
  with assms(1) have "v = e" "m' = m" "end_source_ok i e" by (auto simp: add_source_def update_same split: if_splits)
  moreover have "e \<in> S" using map_of_SomeD [OF Some] assms(2) calculation(1) by (force simp: sources_match_def)
  ultimately show ?thesis using assms(2) by (simp add: insert_absorb)
qed

lemma add_sources_InrD:
  assumes "fold_r (add_source i) m es = Inr m'" "sources_match m S"
  shows "sources_match m' (S \<union> set es) \<and> (\<forall>e\<in>set es. end_source_ok i e)"
  using assms
proof (induction es arbitrary: m S)
  case (Cons e es)
  then obtain m1 where m1: "add_source i m e = Inr m1" "fold_r (add_source i) m1 es = Inr m'" by (auto simp: result_simps)
  note a = add_source_InrD [OF m1(1) Cons.prems(2)]
  from Cons.IH [OF m1(2)] a show ?case by fastforce
qed simp

text \<open>Conversely, sources that agree on their identities are all taken, in any order and any number of times.\<close>

lemma sources_match_lookup: "sources_match m S \<Longrightarrow> map_of m k = Some v \<Longrightarrow> v \<in> S \<and> es_sourceId v = k"
  by (force simp: sources_match_def dest: map_of_SomeD)

lemma add_sources_total:
  assumes "\<forall>e\<in>T. end_source_ok i e" "inj_on es_sourceId T" "set es \<subseteq> T" "sources_match m S" "S \<subseteq> T"
  shows "\<exists>m'. fold_r (add_source i) m es = Inr m' \<and> sources_match m' (S \<union> set es)"
  using assms(3-5)
proof (induction es arbitrary: m S)
  case (Cons e es)
  then have e: "e \<in> T" by simp
  have "\<exists>m1. add_source i m e = Inr m1"
  proof (cases "map_of m (es_sourceId e)")
    case (Some v)
    from sources_match_lookup [OF Cons.prems(2) Some] Cons.prems(3) e assms(2) have "v = e" by (auto dest: inj_onD)
    with Some assms(1) e show ?thesis by (auto simp: add_source_def)
  qed (use assms(1) e in \<open>auto simp: add_source_def\<close>)
  then obtain m1 where m1: "add_source i m e = Inr m1" by blast
  with add_source_InrD [OF m1 Cons.prems(2)] Cons.IH [of m1 "insert e S"] Cons.prems(1,3) e show ?case by auto
qed auto

lemma sources_inj:
  assumes "sources_match m S"
  shows "inj_on es_sourceId S"
proof (rule inj_onI)
  fix a b assume "a \<in> S" "b \<in> S" and k: "es_sourceId a = es_sourceId b"
  with assms have "(es_sourceId a, a) \<in> set m" "(es_sourceId a, b) \<in> set m" by (force simp: sources_match_def)+
  with assms show "a = b" unfolding sources_match_def by (metis eq_key_imp_eq_value)
qed

lemma earliest_end_least:
  "earliest_end d es \<in> insert d (es_effectiveAt ` set es) \<and> (\<forall>t\<in>insert d (es_effectiveAt ` set es). earliest_end d es \<le> t)"
  unfolding earliest_end_def
proof (induction es arbitrary: d)
  case (Cons e es)
  show ?case
  proof (cases "es_effectiveAt e < d")
    case True
    with Cons [of "es_effectiveAt e"] show ?thesis by auto
  next
    case False
    with Cons [of d] show ?thesis by auto
  qed
qed simp

lemma earliest_end_cong: "set es = set fs \<Longrightarrow> earliest_end d es = earliest_end d fs"
  using earliest_end_least [of d es] earliest_end_least [of d fs] by (metis order_antisym)

definition trial_end_of :: "trial_end_input \<Rightarrow> work_time" where
  "trial_end_of i = earliest_end (td_deadlineAt (tei_deadline i)) (filter (visible_source i) (tei_events i))"

lemma distinct_map_sources: "sources_match m S \<Longrightarrow> distinct (map snd m) \<and> distinct (map es_sourceId (map snd m))"
proof -
  assume a: "sources_match m S"
  have "map es_sourceId (map snd m) = map fst m" using a by (auto simp: sources_match_def)
  then have "distinct (map es_sourceId (map snd m))" using a by (simp add: sources_match_def del: map_map)
  then show ?thesis by (metis distinct_map)
qed

lemma sorted_ids_cong:
  assumes "sources_match m S" "sources_match m' S"
  shows "sort (map es_sourceId (filter P (map snd m))) = sort (map es_sourceId (filter P (map snd m')))"
proof -
  have d: "distinct (map es_sourceId (filter P (map snd x)))" if "sources_match x S" for x
    using distinct_map_sources [OF that] by (intro distinct_map_filter) simp
  have "set (map es_sourceId (filter P (map snd m))) = set (map es_sourceId (filter P (map snd m')))"
    using assms by (auto simp: sources_match_def)
  then show ?thesis using d [OF assms(1)] d [OF assms(2)] by (intro sorted_distinct_set_unique) simp_all
qed

lemma reduceTrialEndsV1_InrD:
  assumes "reduceTrialEndsV1 z i = Inr p"
  shows "\<exists>m. sources_match m (set (tei_events i)) \<and> fold_r (add_source i) [] (tei_events i) = Inr m \<and>
    (\<forall>e\<in>set (tei_events i). end_source_ok i e) \<and> trialEndInputV1 i \<and> trialDeadlineV1 z True (tei_startedAt i) = Inr (tei_deadline i) \<and>
    tei_startedAt i \<le> tei_asOf i \<and>
    p = \<lparr>tp_active = (tei_asOf i < trial_end_of i), tp_endedAt = (if tei_asOf i < trial_end_of i then None else Some (trial_end_of i)),
      tp_deadlineReachedAtEnd = (\<not> tei_asOf i < trial_end_of i \<and> trial_end_of i = td_deadlineAt (tei_deadline i)),
      tp_sourceIds = (if tei_asOf i < trial_end_of i then []
        else sort (map es_sourceId (filter (\<lambda>e. es_effectiveAt e = trial_end_of i) (filter (visible_source i) (map snd m)))))\<rparr>"
proof -
  from assms obtain m where m: "fold_r (add_source i) [] (tei_events i) = Inr m" and v: "trialEndInputV1 i"
    "trialDeadlineV1 z True (tei_startedAt i) = Inr (tei_deadline i)" "tei_startedAt i \<le> tei_asOf i"
    and p: "(let candidates = filter (visible_source i) (map snd m);
            end_at = earliest_end (td_deadlineAt (tei_deadline i)) candidates;
            active = tei_asOf i < end_at
        in \<lparr>tp_active = active, tp_endedAt = (if active then None else Some end_at),
             tp_deadlineReachedAtEnd = (\<not> active \<and> end_at = td_deadlineAt (tei_deadline i)),
             tp_sourceIds = (if active then [] else sort (map es_sourceId (filter (\<lambda>e. es_effectiveAt e = end_at) candidates)))\<rparr>) = p"
    unfolding reduceTrialEndsV1_def by (auto simp: result_simps Let_def not_less split: if_splits)
  have s: "sources_match m (set (tei_events i))" "\<forall>e\<in>set (tei_events i). end_source_ok i e"
    using add_sources_InrD [OF m, of "{}"] by (simp_all add: sources_match_def)
  have "set (filter (visible_source i) (map snd m)) = set (filter (visible_source i) (tei_events i))"
    using s(1) unfolding sources_match_def set_filter by simp
  then have t: "earliest_end (td_deadlineAt (tei_deadline i)) (filter (visible_source i) (map snd m)) = trial_end_of i"
    unfolding trial_end_of_def by (rule earliest_end_cong)
  show ?thesis using m s v p unfolding Let_def t by (intro exI [of _ m] conjI) simp_all
qed

text \<open>
  C24. The end of a trial does not depend on how its sources arrive. A projection that succeeds ends
  the trial at the earliest of the deadline and the effective instants of the sources that are
  effective and recorded by then and concern the job, and is active exactly before that; it lies
  between the start and the time of the reading. The same sources in another order, or delivered more than once,
  give the same projection, and once a trial has ended, every later reading with the same or more
  sources that succeeds shows it ended, no later than before.
\<close>

theorem trial_end_projection_sound:
  assumes "reduceTrialEndsV1 z i = Inr p" and z: "zone_bounded z"
  shows "(tp_active p \<longleftrightarrow> tp_endedAt p = None) \<and> (tp_active p \<longleftrightarrow> tei_asOf i < trial_end_of i) \<and>
    (\<forall>t. tp_endedAt p = Some t \<longrightarrow> t = trial_end_of i \<and> tei_startedAt i \<le> t \<and> t \<le> tei_asOf i) \<and>
    (\<forall>es. set es = set (tei_events i) \<and> length es \<le> 10000 \<longrightarrow> reduceTrialEndsV1 z (i\<lparr>tei_events := es\<rparr>) = Inr p) \<and>
    (\<forall>j q t. tp_endedAt p = Some t \<and> tei_startedAt j = tei_startedAt i \<and> tei_jobId j = tei_jobId i \<and> tei_asOf i \<le> tei_asOf j \<and>
      set (tei_events i) \<subseteq> set (tei_events j) \<and> reduceTrialEndsV1 z j = Inr q \<longrightarrow>
      (\<exists>u. tp_endedAt q = Some u \<and> u \<le> t))"
proof -
  from reduceTrialEndsV1_InrD [OF assms(1)] obtain m where m: "sources_match m (set (tei_events i))"
    and ok: "\<forall>e\<in>set (tei_events i). end_source_ok i e" and v: "trialEndInputV1 i" "trialDeadlineV1 z True (tei_startedAt i) = Inr (tei_deadline i)"
      "tei_startedAt i \<le> tei_asOf i"
    and p: "p = \<lparr>tp_active = (tei_asOf i < trial_end_of i), tp_endedAt = (if tei_asOf i < trial_end_of i then None else Some (trial_end_of i)),
      tp_deadlineReachedAtEnd = (\<not> tei_asOf i < trial_end_of i \<and> trial_end_of i = td_deadlineAt (tei_deadline i)),
      tp_sourceIds = (if tei_asOf i < trial_end_of i then []
        else sort (map es_sourceId (filter (\<lambda>e. es_effectiveAt e = trial_end_of i) (filter (visible_source i) (map snd m)))))\<rparr>"
    by (elim exE conjE)
  have lower: "tei_startedAt i \<le> trial_end_of i"
    using earliest_end_least [of "td_deadlineAt (tei_deadline i)" "filter (visible_source i) (tei_events i)"]
      trial_deadline_ahead [OF v(2) z] ok by (auto simp: trial_end_of_def end_source_ok_def)
  have perm: "reduceTrialEndsV1 z (i\<lparr>tei_events := es\<rparr>) = Inr p" if es: "set es = set (tei_events i)" "length es \<le> 10000" for es
  proof -
    let ?j = "i\<lparr>tei_events := es\<rparr>"
    have same: "end_source_ok ?j = end_source_ok i" "visible_source ?j = visible_source i"
      by (intro ext; simp add: end_source_ok_def visible_source_def)+
    have add: "add_source ?j = add_source i" by (intro ext) (simp add: add_source_def same)
    have "sources_match [] {}" by (simp add: sources_match_def)
    from add_sources_total [OF ok sources_inj [OF m] _ this, of es] obtain m' where
      m': "fold_r (add_source ?j) [] es = Inr m'" "sources_match m' (set (tei_events i))" unfolding add by (auto simp: es(1))
    have v': "trialEndInputV1 ?j" using v(1) es by (simp add: trialEndInputV1_def list_all_iff)
    have "\<exists>q. reduceTrialEndsV1 z ?j = Inr q" using v' v(2,3) m'(1) by (simp add: reduceTrialEndsV1_def Let_def)
    then obtain q where q: "reduceTrialEndsV1 z ?j = Inr q" by blast
    have f: "tei_deadline ?j = tei_deadline i" "tei_events ?j = es" by simp_all
    have e: "trial_end_of ?j = trial_end_of i"
      unfolding trial_end_of_def same f by (rule earliest_end_cong) (simp add: es(1))
    from reduceTrialEndsV1_InrD [OF q] m'(1) have qq: "q = \<lparr>tp_active = (tei_asOf i < trial_end_of i), tp_endedAt = (if tei_asOf i < trial_end_of i then None else Some (trial_end_of i)),
      tp_deadlineReachedAtEnd = (\<not> tei_asOf i < trial_end_of i \<and> trial_end_of i = td_deadlineAt (tei_deadline i)),
      tp_sourceIds = (if tei_asOf i < trial_end_of i then []
        else sort (map es_sourceId (filter (\<lambda>e. es_effectiveAt e = trial_end_of i) (filter (visible_source i) (map snd m')))))\<rparr>"
      unfolding e same by auto
    have "p = q" unfolding p qq using sorted_ids_cong [OF m m'(2), of "\<lambda>e. visible_source i e \<and> es_effectiveAt e = trial_end_of i"]
      by (simp add: conj_commute)
    with q show ?thesis by simp
  qed
  have later: "\<exists>u. tp_endedAt q = Some u \<and> u \<le> t" if j: "tp_endedAt p = Some t" "tei_startedAt j = tei_startedAt i" "tei_jobId j = tei_jobId i"
    "tei_asOf i \<le> tei_asOf j" "set (tei_events i) \<subseteq> set (tei_events j)" "reduceTrialEndsV1 z j = Inr q" for j q t
  proof -
    have t: "t = trial_end_of i" "trial_end_of i \<le> tei_asOf i" using j(1) unfolding p by (auto split: if_splits)
    from reduceTrialEndsV1_InrD [OF j(6)] v(2) j(2) have d: "tei_deadline j = tei_deadline i"
      and q: "tp_endedAt q = (if tei_asOf j < trial_end_of j then None else Some (trial_end_of j))" by auto
    have "set (filter (visible_source i) (tei_events i)) \<subseteq> set (filter (visible_source j) (tei_events j))"
      using j(3,4,5) by (auto simp: visible_source_def)
    then have "trial_end_of j \<le> trial_end_of i" unfolding trial_end_of_def d
      using earliest_end_least [of "td_deadlineAt (tei_deadline i)" "filter (visible_source j) (tei_events j)"]
        earliest_end_least [of "td_deadlineAt (tei_deadline i)" "filter (visible_source i) (tei_events i)"] by (metis image_mono insert_mono subsetD)
    then show ?thesis using q t j(4) by auto
  qed
  have "tp_active p \<longleftrightarrow> tei_asOf i < trial_end_of i" "tp_endedAt p = (if tei_asOf i < trial_end_of i then None else Some (trial_end_of i))"
    by (simp_all add: p)
  then show ?thesis using lower perm later by (intro conjI allI impI) (auto simp: not_less split: if_splits)
qed

definition sample_trial :: trial_end_input where
  "sample_trial = \<lparr>tei_trialId = ''r'', tei_tenantId = ''t'', tei_jobId = ''j'', tei_startedAt = 10 * 86400000000 + 5,
     tei_deadline = \<lparr>td_startedAt = 10 * 86400000000 + 5, td_startLondonDate = 10, td_startLondonClock = 5,
       td_deadlineLondonDate = 100, td_deadlineAt = 100 * 86400000000\<rparr>,
     tei_asOf = 60 * 86400000000,
     tei_events = [\<lparr>es_sourceId = ''a'', es_kind = Src_lock, es_tenantId = ''t'', es_jobId = ''j'',
       es_effectiveAt = 50 * 86400000000, es_recordedAt = 51 * 86400000000\<rparr>]\<rparr>"

lemma sample_trial_projected: "reduceTrialEndsV1 (\<lambda>_. 0) sample_trial =
    Inr \<lparr>tp_active = False, tp_endedAt = Some (50 * 86400000000), tp_deadlineReachedAtEnd = False, tp_sourceIds = [''a'']\<rparr>"
  by code_simp

theorem trial_end_projection_sound_witness:
  "reduceTrialEndsV1 (\<lambda>_. 0) (sample_trial\<lparr>tei_events := tei_events sample_trial @ tei_events sample_trial\<rparr>) =
     Inr \<lparr>tp_active = False, tp_endedAt = Some (50 * 86400000000), tp_deadlineReachedAtEnd = False, tp_sourceIds = [''a'']\<rparr>"
proof -
  have z: "zone_bounded (\<lambda>_. 0)" by (simp add: zone_bounded_def)
  have "set (tei_events sample_trial @ tei_events sample_trial) = set (tei_events sample_trial) \<and>
    length (tei_events sample_trial @ tei_events sample_trial) \<le> 10000" by (simp add: sample_trial_def)
  with trial_end_projection_sound [OF sample_trial_projected z] show ?thesis by blast
qed

end
