(* ===== verification/Recoveries.thy ===== *)
theory Recoveries
  imports Exact_Sum Receipt_Allocation Construction_Notices Event_Machine
begin

text \<open>
  Model of \<^verbatim>\<open>packages/core/src/recovery-allocation.ts\<close>, the part of a receipt that a recovery case may
  take and the lines it is deemed to pay, and of \<^verbatim>\<open>managed-recovery.ts\<close>, the election of a managed
  service for a case and the preview of its charge. The digest of an election is the parameter
  \<open>digest\<close>; the theorems ask only that it is a SHA-256 text.
\<close>

section \<open>Commands\<close>

datatype recovery_allocation_error =
  Ra_invalid_command | Ra_invalid_facts | Ra_invalid_case_split | Ra_exceeds_claim | Ra_exceeds_evidence
| Ra_shared shared_error

datatype recovery_action =
  Act_review | Act_allocate string | Act_review_reverse | Act_reverse string

record allocation_target =
  rt_caseId :: string
  rt_paymentId :: string
  rt_evidenceId :: string
  rt_remittanceEvidenceId :: "string option"

record reversal_target =
  rv_allocationId :: string
  rv_creditNoteId :: "string option"
  rv_remittanceEvidenceId :: "string option"

datatype recovery_target = To_case allocation_target | To_allocation reversal_target

record recovery_allocation_command =
  rc_commandId :: string
  rc_expectedCaseRevision :: int
  rc_grossPence :: int
  rc_action :: recovery_action
  rc_target :: recovery_target

definition positive_amount :: "int \<Rightarrow> bool" where
  "positive_amount v \<longleftrightarrow> amount_ok v \<and> v > 0"

text \<open>The discriminated union: the action decides which target and whether an approval hash is given.\<close>

definition recoveryAllocationCommandV1 :: "recovery_allocation_command \<Rightarrow> bool" where
  "recoveryAllocationCommandV1 c \<longleftrightarrow> 0 < rc_expectedCaseRevision c \<and> rc_expectedCaseRevision c \<le> 1000000 \<and>
     positive_amount (rc_grossPence c) \<and>
     (case (rc_action c, rc_target c) of
        (Act_review, To_case _) \<Rightarrow> True
      | (Act_allocate h, To_case _) \<Rightarrow> sha_text h
      | (Act_review_reverse, To_allocation _) \<Rightarrow> True
      | (Act_reverse h, To_allocation _) \<Rightarrow> sha_text h
      | _ \<Rightarrow> False)"

definition parseRecoveryAllocationCommand :: "recovery_allocation_command \<Rightarrow> recovery_allocation_error + recovery_allocation_command" where
  "parseRecoveryAllocationCommand c = (if recoveryAllocationCommandV1 c then Inr c else Inl Ra_invalid_command)"

section \<open>The split of a case\<close>

record allocation_split =
  sl_grossPence :: int
  sl_eligibleNetPence :: int
  sl_taxPence :: int
  sl_evidencedNetPence :: int
  sl_evidencedGrossPence :: int
  sl_claimRemainingNetPence :: int

definition splitV1 :: "allocation_split \<Rightarrow> bool" where
  "splitV1 s \<longleftrightarrow> positive_amount (sl_grossPence s) \<and> positive_amount (sl_eligibleNetPence s) \<and> amount_ok (sl_taxPence s) \<and>
     positive_amount (sl_evidencedNetPence s) \<and> positive_amount (sl_evidencedGrossPence s) \<and> amount_ok (sl_claimRemainingNetPence s)"

definition ra_shared :: "shared_error + 'a \<Rightarrow> recovery_allocation_error + 'a" where
  "ra_shared = map_err Ra_shared"

definition assertRecoveryAllocationSplit :: "allocation_split \<Rightarrow> recovery_allocation_error + unit" where
  "assertRecoveryAllocationSplit s =
     (if \<not> splitV1 s then Inl Ra_invalid_case_split
      else bind_r (ra_shared (exactPence (sl_grossPence s) 1)) (\<lambda>gross.
      bind_r (ra_shared (exactPence (sl_eligibleNetPence s) 1)) (\<lambda>net.
      bind_r (ra_shared (exactPence (sl_taxPence s) 1)) (\<lambda>tax.
      bind_r (ra_shared (sumExactPence0 [net, tax])) (\<lambda>parts.
      if compareExactPence gross parts \<noteq> 0 \<or> sl_evidencedNetPence s > sl_evidencedGrossPence s \<or>
         sl_eligibleNetPence s * sl_evidencedGrossPence s \<noteq> sl_grossPence s * sl_evidencedNetPence s
      then Inl Ra_invalid_case_split
      else if sl_eligibleNetPence s > sl_claimRemainingNetPence s then Inl Ra_exceeds_claim
      else if sl_eligibleNetPence s > sl_evidencedNetPence s then Inl Ra_exceeds_evidence
      else Inr ())))))"

section \<open>Deemed lines\<close>

record recovery_receipt =
  rr_id :: string
  rr_invoiceId :: string
  rr_gross :: exact_text
  rr_effectiveAt :: string
  rr_sourceRef :: string

record explicit_source =
  xs_sourceRef :: string
  xs_shares :: "explicit_share list"

record separate_invoice =
  si_invoiceId :: string
  si_sourceRef :: string

record recovery_receipt_facts =
  rf_direction :: allocation_direction
  rf_receipt :: recovery_receipt
  rf_lines :: "receipt_line list"
  rf_explicit :: "explicit_source option"
  rf_separateInvoice :: "separate_invoice option"

definition recoveryReceiptFactsV1 :: "recovery_receipt_facts \<Rightarrow> bool" where
  "recoveryReceiptFactsV1 f \<longleftrightarrow> text_within 200 (rr_id (rf_receipt f)) \<and> text_within 200 (rr_invoiceId (rf_receipt f)) \<and>
     exactPenceInputV1 (rr_gross (rf_receipt f)) \<and> instantV1 (rr_effectiveAt (rf_receipt f)) \<and> text_within 300 (rr_sourceRef (rf_receipt f)) \<and>
     length (rf_lines f) \<le> MAX_ALLOCATION_LINES \<and> list_all receipt_line_ok (rf_lines f) \<and>
     pred_option (\<lambda>x. text_within 300 (xs_sourceRef x) \<and> length (xs_shares x) \<le> MAX_ALLOCATION_LINES \<and>
       list_all (\<lambda>e. text_within 200 (es_lineId e) \<and> exactPenceInputV1 (es_gross e)) (xs_shares x)) (rf_explicit f) \<and>
     pred_option (\<lambda>x. text_within 200 (si_invoiceId x) \<and> text_within 300 (si_sourceRef x)) (rf_separateInvoice f)"

definition receipt_of_facts :: "recovery_receipt_facts \<Rightarrow> receipt_allocation_input" where
  "receipt_of_facts f = \<lparr>
     ra_sourceRef = (case rf_explicit f of Some x \<Rightarrow> xs_sourceRef x
       | None \<Rightarrow> (case rf_separateInvoice f of Some x \<Rightarrow> si_sourceRef x | None \<Rightarrow> rr_sourceRef (rf_receipt f))),
     ra_receiptGross = rr_gross (rf_receipt f), ra_effectiveAt = rr_effectiveAt (rf_receipt f), ra_direction = rf_direction f,
     ra_invoiceId = rr_invoiceId (rf_receipt f), ra_separateInvoiceId = map_option si_invoiceId (rf_separateInvoice f),
     ra_explicit = map_option xs_shares (rf_explicit f), ra_lines = rf_lines f\<rparr>"

record deemed_line =
  dm_lineId :: string
  dm_rule :: allocation_rule
  dm_sourceRef :: string
  dm_gross :: exact_text
  dm_net :: exact_text

definition deemed_of :: "line_allocation \<Rightarrow> deemed_line" where
  "deemed_of a = \<lparr>dm_lineId = la_lineId a, dm_rule = la_rule a, dm_sourceRef = la_sourceRef a,
     dm_gross = serializeExactPence (la_gross a), dm_net = serializeExactPence (la_net a)\<rparr>"

definition mapRecoveryReceiptToLines :: "recovery_receipt_facts \<Rightarrow> recovery_allocation_error + deemed_line list" where
  "mapRecoveryReceiptToLines f =
     (if \<not> recoveryReceiptFactsV1 f then Inl Ra_invalid_facts
      else (case allocateReceiptToLines (receipt_of_facts f) of
          Inl _ \<Rightarrow> Inl Ra_invalid_facts
        | Inr rows \<Rightarrow> Inr (map deemed_of rows)))"

definition sumRecoveryDeemedNet :: "deemed_line list \<Rightarrow> string list option \<Rightarrow> recovery_allocation_error + exact_text" where
  "sumRecoveryDeemedNet rows lineIds =
     (case bind_r (map_r (\<lambda>r. parseExactPence exactPenceV1 (dm_net r))
             (filter (\<lambda>r. case lineIds of None \<Rightarrow> True | Some ids \<Rightarrow> dm_lineId r \<in> set ids) rows)) (\<lambda>nets.
           bind_r (sumExactPence0 nets) (\<lambda>s.
           bind_r (exactPence MAX_MONEY_PENCE 1) (\<lambda>hi.
           bind_r (exactPence (- MAX_MONEY_PENCE) 1) (\<lambda>lo.
           if compareExactPence s hi > 0 \<or> compareExactPence s lo < 0 then Inl INVALID_ALLOCATION else Inr s)))) of
        Inl _ \<Rightarrow> Inl Ra_invalid_facts
      | Inr s \<Rightarrow> Inr (serializeExactPence s))"

section \<open>Managed recovery\<close>

datatype managed_error = INVALID_MANAGED_RECOVERY | MANAGED_RECOVERY_CONFLICT | PURSUIT_ALREADY_STARTED
| Managed_shared shared_error | Managed_range range_error | Managed_money money_error

datatype managed_service = Drafted_for_you | Solicitor_letter

record service_selection =
  sn_service :: managed_service
  sn_points :: int

definition selection_ok :: "service_selection \<Rightarrow> bool" where
  "selection_ok s \<longleftrightarrow> sn_points s = (case sn_service s of Drafted_for_you \<Rightarrow> 5 | Solicitor_letter \<Rightarrow> 10)"

text \<open>Identifiers are read in lower case.\<close>

definition lower_char :: "char \<Rightarrow> char" where
  "lower_char c = (if CHR ''A'' \<le> c \<and> c \<le> CHR ''Z'' then char_of (of_char c + 32 :: nat) else c)"

definition lower_text :: "string \<Rightarrow> string" where
  "lower_text s = map lower_char s"

record case_scope =
  cs_tenantId :: string
  cs_jobId :: string
  cs_caseId :: string

definition lower_scope :: "'a case_scope_scheme \<Rightarrow> 'a case_scope_scheme" where
  "lower_scope s = s\<lparr>cs_tenantId := lower_text (cs_tenantId s), cs_jobId := lower_text (cs_jobId s), cs_caseId := lower_text (cs_caseId s)\<rparr>"

definition same_scope :: "'a case_scope_scheme \<Rightarrow> 'b case_scope_scheme \<Rightarrow> bool" where
  "same_scope a b \<longleftrightarrow> cs_tenantId a = cs_tenantId b \<and> cs_jobId a = cs_jobId b \<and> cs_caseId a = cs_caseId b"

record election_core = case_scope +
  ec_commandId :: string
  ec_actorMembershipId :: string
  ec_electedAt :: string
  ec_selection :: service_selection

record managed_election = election_core +
  me_bindingHash :: string

definition core_of :: "managed_election \<Rightarrow> election_core" where
  "core_of e = election_core.truncate e"

definition parse_election :: "managed_election \<Rightarrow> managed_error + managed_election" where
  "parse_election e =
     (if utcDatetimeV1 (ec_electedAt e) \<and> selection_ok (ec_selection e) \<and> sha_text (me_bindingHash e)
      then Inr ((lower_scope e)\<lparr>ec_commandId := lower_text (ec_commandId e), ec_actorMembershipId := lower_text (ec_actorMembershipId e)\<rparr>)
      else Inl INVALID_MANAGED_RECOVERY)"

record managed_state = case_scope +
  mr_pursuitStartedAt :: "string option"
  mr_election :: "managed_election option"

definition parse_managed_state :: "managed_state \<Rightarrow> managed_error + managed_state" where
  "parse_managed_state s =
     (if \<not> pred_option utcDatetimeV1 (mr_pursuitStartedAt s) then Inl INVALID_MANAGED_RECOVERY
      else (case mr_election s of
          None \<Rightarrow> Inr (lower_scope s)
        | Some e \<Rightarrow> bind_r (parse_election e) (\<lambda>e'. Inr ((lower_scope s)\<lparr>mr_election := Some e'\<rparr>))))"

definition election_bound :: "(election_core \<Rightarrow> string) \<Rightarrow> managed_state \<Rightarrow> managed_election \<Rightarrow> bool" where
  "election_bound digest s e \<longleftrightarrow> same_scope e s \<and> digest (core_of e) = me_bindingHash e \<and>
     (case mr_pursuitStartedAt s of None \<Rightarrow> True | Some t \<Rightarrow> date_parse (ec_electedAt e) \<le> date_parse t)"

text \<open>\<^verbatim>\<open>state(raw)\<close>.\<close>

definition managed_state_of :: "(election_core \<Rightarrow> string) \<Rightarrow> managed_state \<Rightarrow> managed_error + managed_state" where
  "managed_state_of digest raw = bind_r (parse_managed_state raw) (\<lambda>s.
     (case mr_election s of None \<Rightarrow> Inr s
      | Some e \<Rightarrow> if election_bound digest s e then Inr s else Inl INVALID_MANAGED_RECOVERY))"

record managed_context = case_scope +
  mx_actorMembershipId :: string
  mx_canApprove :: bool
  mx_now :: string

definition parse_context :: "managed_context \<Rightarrow> managed_error + managed_context" where
  "parse_context c = (if mx_canApprove c \<and> utcDatetimeV1 (mx_now c)
     then Inr ((lower_scope c)\<lparr>mx_actorMembershipId := lower_text (mx_actorMembershipId c)\<rparr>) else Inl INVALID_MANAGED_RECOVERY)"

definition authorized :: "(election_core \<Rightarrow> string) \<Rightarrow> managed_state \<Rightarrow> managed_context \<Rightarrow> managed_error + managed_state \<times> managed_context" where
  "authorized digest rawState rawContext =
     bind_r (managed_state_of digest rawState) (\<lambda>s. bind_r (parse_context rawContext) (\<lambda>c.
     if same_scope s c then Inr (s, c) else Inl INVALID_MANAGED_RECOVERY))"

record managed_command =
  mc_commandId :: string
  mc_caseId :: string
  mc_selection :: service_selection

definition parse_managed_command :: "managed_command \<Rightarrow> managed_error + managed_command" where
  "parse_managed_command c = (if selection_ok (mc_selection c)
     then Inr (c\<lparr>mc_commandId := lower_text (mc_commandId c), mc_caseId := lower_text (mc_caseId c)\<rparr>) else Inl INVALID_MANAGED_RECOVERY)"

definition new_election :: "(election_core \<Rightarrow> string) \<Rightarrow> managed_state \<Rightarrow> managed_command \<Rightarrow> managed_context \<Rightarrow> managed_election" where
  "new_election digest s m c =
     (let e = \<lparr>cs_tenantId = cs_tenantId s, cs_jobId = cs_jobId s, cs_caseId = cs_caseId s, ec_commandId = mc_commandId m,
            ec_actorMembershipId = mx_actorMembershipId c, ec_electedAt = mx_now c, ec_selection = mc_selection m\<rparr>
      in election_core.extend e \<lparr>me_bindingHash = digest e\<rparr>)"

definition same_election :: "managed_election \<Rightarrow> managed_command \<Rightarrow> managed_context \<Rightarrow> bool" where
  "same_election e m c \<longleftrightarrow> ec_commandId e = mc_commandId m \<and> ec_actorMembershipId e = mx_actorMembershipId c \<and>
     sn_service (ec_selection e) = sn_service (mc_selection m) \<and> sn_points (ec_selection e) = sn_points (mc_selection m)"

definition electManagedRecovery ::
  "(election_core \<Rightarrow> string) \<Rightarrow> managed_state \<Rightarrow> managed_command \<Rightarrow> managed_context \<Rightarrow> managed_error + managed_state" where
  "electManagedRecovery digest rawState rawCommand rawContext =
     bind_r (authorized digest rawState rawContext) (\<lambda>(s, c).
     bind_r (parse_managed_command rawCommand) (\<lambda>m.
     if mc_caseId m \<noteq> cs_caseId s then Inl INVALID_MANAGED_RECOVERY
     else case mr_election s of
       Some e \<Rightarrow> if same_election e m c then Inr s else Inl MANAGED_RECOVERY_CONFLICT
     | None \<Rightarrow> if mr_pursuitStartedAt s \<noteq> None then Inl PURSUIT_ALREADY_STARTED
         else managed_state_of digest (s\<lparr>mr_election := Some (new_election digest s m c)\<rparr>)))"

definition startManagedRecoveryPursuit ::
  "(election_core \<Rightarrow> string) \<Rightarrow> managed_state \<Rightarrow> managed_context \<Rightarrow> managed_error + managed_state" where
  "startManagedRecoveryPursuit digest rawState rawContext =
     bind_r (authorized digest rawState rawContext) (\<lambda>(s, c).
     managed_state_of digest (s\<lparr>mr_pursuitStartedAt := (case mr_pursuitStartedAt s of None \<Rightarrow> Some (mx_now c) | Some t \<Rightarrow> Some t)\<rparr>))"

record managed_invoice_input = case_scope +
  mi_principal :: exact_text

record service_charge =
  sc_electionHash :: string
  sc_service :: managed_service
  sc_points :: int
  sc_principal :: money

record managed_preview =
  mp_successFee :: cumulative_fee_result
  mp_serviceCharge :: "service_charge option"

definition managed_fee_input :: "exact_text \<Rightarrow> cumulative_fee_input" where
  "managed_fee_input principal_text = \<lparr>cf_rate = \<lparr>fr_policyVersion = ''reference_fee_policy_v3'', fr_numerator = ''10'', fr_denominator = ''100''\<rparr>,
     cf_principal = principal_text, cf_priorNetPostedPence = 0, cf_priorPolicyVersion = ''reference_fee_policy_v3'',
     cf_compensatesDerivationId = None\<rparr>"

definition service_charge_of :: "exact_pence \<Rightarrow> managed_election \<Rightarrow> managed_error + service_charge" where
  "service_charge_of q e =
     bind_r (map_err Managed_range (divideRounded (numerator q * sn_points (ec_selection e)) (denominator q * 100) Half_even)) (\<lambda>n.
     bind_r (map_err Managed_money (moneyFromBigInt n)) (\<lambda>m.
     Inr \<lparr>sc_electionHash = me_bindingHash e, sc_service = sn_service (ec_selection e), sc_points = sn_points (ec_selection e),
          sc_principal = m\<rparr>))"

definition previewManagedRecoveryInvoice ::
  "(election_core \<Rightarrow> string) \<Rightarrow> managed_state \<Rightarrow> managed_invoice_input \<Rightarrow> managed_error + managed_preview" where
  "previewManagedRecoveryInvoice digest rawState rawInput =
     bind_r (managed_state_of digest rawState) (\<lambda>s.
     if \<not> exactPenceV1 (mi_principal rawInput) then Inl INVALID_MANAGED_RECOVERY
     else let i = lower_scope rawInput in
       if \<not> same_scope s i then Inl INVALID_MANAGED_RECOVERY
       else bind_r (map_err Managed_shared (parseExactPence exactPenceV1 (mi_principal i))) (\<lambda>q.
         if numerator q < 0 then Inl INVALID_MANAGED_RECOVERY
         else bind_r (map_err Managed_shared (calculateCumulativeFee (managed_fee_input (mi_principal i)))) (\<lambda>fee.
         bind_r (case mr_election s of None \<Rightarrow> Inr None | Some e \<Rightarrow> bind_r (service_charge_of q e) (\<lambda>x. Inr (Some x))) (\<lambda>charge.
         Inr \<lparr>mp_successFee = fee, mp_serviceCharge = charge\<rparr>))))"

section \<open>The split, decided\<close>

lemma exact_whole: "exactPence n 1 = Inr \<lparr>numerator = n, denominator = 1\<rparr>"
proof -
  obtain q where q: "exactPence n 1 = Inr q" "exact_ok q" "val q = of_int n" using exactPence_val [of 1 n] by auto
  moreover have "exact_ok \<lparr>numerator = n, denominator = 1\<rparr>" "val \<lparr>numerator = n, denominator = 1\<rparr> = of_int n"
    by (simp_all add: exact_ok_def val_def)
  ultimately have "q = \<lparr>numerator = n, denominator = 1\<rparr>" by (intro exact_ok_unique) simp_all
  with q show ?thesis by simp
qed

lemma sum_whole:
  assumes "\<bar>a + b\<bar> < 10 ^ 20"
  shows "sumExactPence0 [\<lparr>numerator = a, denominator = 1\<rparr>, \<lparr>numerator = b, denominator = 1\<rparr>] =
    Inr \<lparr>numerator = a + b, denominator = 1\<rparr>"
proof -
  let ?vs = "[\<lparr>numerator = a, denominator = 1\<rparr>, \<lparr>numerator = b, denominator = 1\<rparr>]"
  have k: "(10::int) ^ 20 \<le> 10 ^ MAX_EXACT_PENCE_DIGITS" unfolding MAX_EXACT_PENCE_DIGITS_eq by (rule power_increasing) simp_all
  then have one: "\<not> (10::int) ^ MAX_EXACT_PENCE_DIGITS \<le> 1" by simp
  have "\<forall>v\<in>set ?vs. 0 < denominator v" by simp
  from sumExactPence_unfold [OF this, of MAX_EXACT_PENCE_DIGITS "max MAX_EXACT_PENCE_DIGITS MAX_EXACT_PENCE_DIGITS"] obtain q where
    q: "exact_ok q" "val q = sum_list (map val ?vs)" and
    eq: "sumExactPence ?vs MAX_EXACT_PENCE_DIGITS (max MAX_EXACT_PENCE_DIGITS MAX_EXACT_PENCE_DIGITS) =
      (if ?vs \<noteq> [] \<and> 10 ^ max MAX_EXACT_PENCE_DIGITS MAX_EXACT_PENCE_DIGITS \<le> Lcm (denominator ` set ?vs)
       then Inl INVALID_SHARED_MONEY
       else if denominator q \<ge> 10 ^ MAX_EXACT_PENCE_DIGITS \<or> \<bar>numerator q\<bar> \<ge> 10 ^ MAX_EXACT_PENCE_DIGITS then Inl INVALID_SHARED_MONEY
       else Inr q)" by blast
  have "q = \<lparr>numerator = a + b, denominator = 1\<rparr>" using q by (intro exact_ok_unique) (simp_all add: exact_ok_def val_def)
  moreover have "\<not> 10 ^ MAX_EXACT_PENCE_DIGITS \<le> \<bar>a + b\<bar>" using assms k by linarith
  ultimately show ?thesis using eq one unfolding sumExactPence0_def by simp
qed

text \<open>
  A split is accepted exactly if its parts add up, the evidence has the same net-to-gross ratio, and
  neither the rest of the claim nor the evidence is exceeded; then the gross amount does not exceed the
  evidenced gross amount either.
\<close>

lemma split_accepted:
  "assertRecoveryAllocationSplit s = Inr () \<longleftrightarrow> splitV1 s \<and> sl_grossPence s = sl_eligibleNetPence s + sl_taxPence s \<and>
     sl_evidencedNetPence s \<le> sl_evidencedGrossPence s \<and>
     sl_eligibleNetPence s * sl_evidencedGrossPence s = sl_grossPence s * sl_evidencedNetPence s \<and>
     sl_eligibleNetPence s \<le> sl_claimRemainingNetPence s \<and> sl_eligibleNetPence s \<le> sl_evidencedNetPence s"
proof (cases "splitV1 s")
  case True
  then have "\<bar>sl_eligibleNetPence s + sl_taxPence s\<bar> < 10 ^ 20"
    by (simp add: splitV1_def positive_amount_def amount_ok_def MAX_MONEY_PENCE_def)
  from True sum_whole [OF this] show ?thesis
    by (auto simp: assertRecoveryAllocationSplit_def ra_shared_def exact_whole compareExactPence_def not_less)
qed (simp add: assertRecoveryAllocationSplit_def)

lemma split_gross_evidenced:
  assumes "assertRecoveryAllocationSplit s = Inr ()"
  shows "sl_grossPence s \<le> sl_evidencedGrossPence s"
proof -
  from assms have e: "sl_eligibleNetPence s * sl_evidencedGrossPence s = sl_grossPence s * sl_evidencedNetPence s"
    and le: "sl_eligibleNetPence s \<le> sl_evidencedNetPence s" and p: "0 < sl_evidencedNetPence s" "0 < sl_evidencedGrossPence s"
    unfolding split_accepted splitV1_def positive_amount_def by auto
  have "sl_grossPence s * sl_evidencedNetPence s \<le> sl_evidencedGrossPence s * sl_evidencedNetPence s"
    unfolding e [symmetric] using le p(2) by (simp add: mult.commute mult_left_mono)
  then show ?thesis using p(1) by simp
qed

section \<open>Deemed lines, summed\<close>

lemma text_val_serialized: "text_val (serializeExactPence q) = val q"
  by (simp add: text_val_def serializeExactPence_def int_of_int_text val_def)

lemma parse_value: "parseExactPence exactPenceV1 t = Inr v \<Longrightarrow> 0 < denominator v \<and> val v = text_val t"
  by (auto simp: parseExactPence_def exactPenceV1_def exact_text_ok_def positiveOf_def int_of_text_positive
      text_val_def val_def Let_def split: if_splits)

lemma sum_value:
  assumes "sumExactPence0 vs = Inr q" "\<forall>v\<in>set vs. 0 < denominator v"
  shows "exact_ok q \<and> val q = sum_list (map val vs)"
  using sumExactPence_unfold [OF assms(2)] assms(1) unfolding sumExactPence0_def
  by (metis (no_types, lifting) Inl_Inr_False Inr_inject)

lemma sumRecoveryDeemedNet_InrD:
  assumes "sumRecoveryDeemedNet rows ids = Inr t"
  shows "text_val t = sum_list (map (text_val \<circ> dm_net) (filter (\<lambda>r. case ids of None \<Rightarrow> True | Some is \<Rightarrow> dm_lineId r \<in> set is) rows)) \<and>
    \<bar>text_val t\<bar> \<le> of_int MAX_MONEY_PENCE"
proof -
  let ?rs = "filter (\<lambda>r. case ids of None \<Rightarrow> True | Some is \<Rightarrow> dm_lineId r \<in> set is) rows"
  from assms obtain nets s where n: "map_r (\<lambda>r. parseExactPence exactPenceV1 (dm_net r)) ?rs = Inr nets"
    and s: "sumExactPence0 nets = Inr s" "\<not> compareExactPence s \<lparr>numerator = MAX_MONEY_PENCE, denominator = 1\<rparr> > 0"
      "\<not> compareExactPence s \<lparr>numerator = - MAX_MONEY_PENCE, denominator = 1\<rparr> < 0" and t: "t = serializeExactPence s"
    unfolding sumRecoveryDeemedNet_def by (auto simp: result_simps exact_whole split: sum.splits if_splits)
  from n have "list_all2 (\<lambda>r v. text_val (dm_net r) = val v) ?rs nets"
    unfolding map_r_Inr_list_all2 by (rule list_all2_mono) (simp add: parse_value)
  then have m: "map (text_val \<circ> dm_net) ?rs = map val nets" unfolding list_all2_map_eq by (simp add: comp_def)
  have "\<forall>v\<in>set nets. 0 < denominator v" using map_r_InrD [OF n] parse_value by blast
  from sum_value [OF s(1) this] have v: "exact_ok s" "val s = sum_list (map val nets)" by simp_all
  have "val s \<le> of_int MAX_MONEY_PENCE" "- of_int MAX_MONEY_PENCE \<le> val s"
    using s(2,3) compareExactPence_val [of s "\<lparr>numerator = MAX_MONEY_PENCE, denominator = 1\<rparr>"]
      compareExactPence_val [of s "\<lparr>numerator = - MAX_MONEY_PENCE, denominator = 1\<rparr>"] v(1)
    by (auto simp: val_def split: if_splits)
  with v(2) show ?thesis unfolding t text_val_serialized m [symmetric] by (simp add: abs_le_iff)
qed

lemma mapRecovery_conserves:
  assumes "mapRecoveryReceiptToLines f = Inr rows"
  shows "sum_list (map (text_val \<circ> dm_gross) rows) =
      (if rf_direction f = Dir_reversal then - 1 else 1) * text_val (rr_gross (rf_receipt f)) \<and>
    distinct (map dm_lineId rows) \<and> dm_lineId ` set rows \<subseteq> rl_id ` set (rf_lines f)"
proof -
  from assms obtain out where out: "allocateReceiptToLines (receipt_of_facts f) = Inr out" "rows = map deemed_of out"
    by (auto simp: mapRecoveryReceiptToLines_def split: if_splits sum.splits)
  have g: "map (text_val \<circ> dm_gross) rows = map (val \<circ> la_gross) out" "map dm_lineId rows = map la_lineId out"
    by (simp_all add: out(2) deemed_of_def comp_def text_val_serialized)
  have r: "ra_direction (receipt_of_facts f) = rf_direction f" "ra_receiptGross (receipt_of_facts f) = rr_gross (rf_receipt f)"
    "ra_lines (receipt_of_facts f) = rf_lines f" by (simp_all add: receipt_of_facts_def)
  have "dm_lineId ` set rows = la_lineId ` set out" using g(2) by (metis list.set_map)
  then show ?thesis using allocateReceiptToLines_sound [OF out(1)] unfolding g direction_sign_def r
    by (auto simp: share_sound_def)
qed

section \<open>Elections and pursuit\<close>

lemma lower_char_idem: "lower_char (lower_char c) = lower_char c"
  by (auto simp: lower_char_def less_eq_char_def)

lemma lower_text_idem [simp]: "lower_text (lower_text s) = lower_text s"
  by (simp add: lower_text_def lower_char_idem)

lemma lower_scope_idem [simp]: "lower_scope (lower_scope s) = lower_scope s"
  by (simp add: lower_scope_def)

lemma parse_election_InrD: "parse_election e = Inr e' \<Longrightarrow> parse_election e' = Inr e'"
  by (auto simp: parse_election_def lower_scope_def split: if_splits)

lemma parse_managed_state_InrD: "parse_managed_state r = Inr s \<Longrightarrow> parse_managed_state s = Inr s"
  by (auto simp: parse_managed_state_def lower_scope_def result_simps split: if_splits option.splits dest: parse_election_InrD)

lemma managed_state_of_idem: "managed_state_of digest r = Inr s \<Longrightarrow> managed_state_of digest s = Inr s"
  by (auto simp: managed_state_of_def result_simps split: if_splits option.splits dest: parse_managed_state_InrD)

lemma parse_managed_state_fields:
  "parse_managed_state r = Inr s \<Longrightarrow> mr_pursuitStartedAt s = mr_pursuitStartedAt r \<and> cs_caseId s = lower_text (cs_caseId r) \<and>
     (mr_election s = None \<longleftrightarrow> mr_election r = None)"
  by (auto simp: parse_managed_state_def lower_scope_def result_simps split: if_splits option.splits)

text \<open>What one accepted state keeps of an earlier one.\<close>

definition inherits :: "managed_state \<Rightarrow> managed_state \<Rightarrow> bool" where
  "inherits a s \<longleftrightarrow> same_scope a s \<and>
     (\<forall>e. mr_election a = Some e \<longrightarrow> mr_election s = Some e) \<and>
     (\<forall>t. mr_pursuitStartedAt a = Some t \<longrightarrow> mr_pursuitStartedAt s = Some t \<and> mr_election s = mr_election a)"

datatype managed_call = Elect managed_command managed_context | Pursue managed_context

definition managed_call :: "(election_core \<Rightarrow> string) \<Rightarrow> managed_state \<Rightarrow> managed_call \<Rightarrow> managed_error + (managed_state \<times> unit)" where
  "managed_call digest s call =
     (case call of
        Elect m c \<Rightarrow> bind_r (electManagedRecovery digest s m c) (\<lambda>s'. Inr (s', ()))
      | Pursue c \<Rightarrow> bind_r (startManagedRecoveryPursuit digest s c) (\<lambda>s'. Inr (s', ())))"

lemma managed_state_ofE:
  assumes "managed_state_of digest r = Inr s"
  shows "same_scope (lower_scope r) s" "mr_pursuitStartedAt s = mr_pursuitStartedAt r"
    "map_option parse_election (mr_election r) = map_option Inr (mr_election s)"
  using assms by (auto simp: managed_state_of_def parse_managed_state_def same_scope_def lower_scope_def result_simps
      split: if_splits option.splits)

lemma authorized_InrD: "authorized digest r c = Inr (s, c') \<Longrightarrow> managed_state_of digest r = Inr s"
  by (auto simp: authorized_def result_simps split: if_splits)

lemma managed_ok_fields:
  assumes "managed_state_of digest s = Inr s"
  shows "lower_text (cs_tenantId s) = cs_tenantId s \<and> lower_text (cs_jobId s) = cs_jobId s \<and> lower_text (cs_caseId s) = cs_caseId s"
    "\<And>e. mr_election s = Some e \<Longrightarrow> parse_election e = Inr e"
  using managed_state_ofE [OF assms] by (auto simp: lower_scope_def same_scope_def)

lemma managed_call_InrD:
  assumes ok: "managed_state_of digest s = Inr s" and call: "managed_call digest s k = Inr (s', u)"
  shows "managed_state_of digest s' = Inr s' \<and> inherits s s'"
proof (cases k)
  case (Elect m c)
  with call have e: "electManagedRecovery digest s m c = Inr s'" by (auto simp: managed_call_def result_simps)
  show ?thesis
  proof (cases "mr_election s")
    case None
    with e obtain c' m' where n: "managed_state_of digest (s\<lparr>mr_election := Some (new_election digest s m' c')\<rparr>) = Inr s'"
      "mr_pursuitStartedAt s = None"
      unfolding electManagedRecovery_def using ok by (auto simp: result_simps authorized_def split: if_splits)
    then show ?thesis using managed_state_of_idem [OF n(1)] managed_state_ofE(1) [OF n(1)] managed_ok_fields(1) [OF ok] None
      by (auto simp: inherits_def same_scope_def lower_scope_def)
  next
    case (Some e')
    with e have "s' = s" unfolding electManagedRecovery_def using ok
      by (auto simp: result_simps authorized_def split: if_splits)
    with ok show ?thesis by (simp add: inherits_def same_scope_def)
  qed
next
  case (Pursue c)
  with call have p: "startManagedRecoveryPursuit digest s c = Inr s'" by (auto simp: managed_call_def result_simps)
  have "\<exists>c'. authorized digest s c = Inr (s, c') \<and> managed_state_of digest
      (s\<lparr>mr_pursuitStartedAt := (case mr_pursuitStartedAt s of None \<Rightarrow> Some (mx_now c') | Some t \<Rightarrow> Some t)\<rparr>) = Inr s'"
    using p unfolding startManagedRecoveryPursuit_def bind_r_Inr_iff split_paired_Ex authorized_def
    by (cases "parse_context c") (simp_all add: ok split: if_splits)
  then obtain c' :: managed_context where n: "managed_state_of digest
      (s\<lparr>mr_pursuitStartedAt := (case mr_pursuitStartedAt s of None \<Rightarrow> Some (mx_now c') | Some t \<Rightarrow> Some t)\<rparr>) = Inr s'"
    by (elim exE conjE)
  have "mr_election s' = mr_election s"
    using managed_state_ofE(3) [OF n] managed_ok_fields(2) [OF ok] by (cases "mr_election s"; cases "mr_election s'") auto
  then show ?thesis using managed_state_of_idem [OF n] managed_state_ofE(1,2) [OF n] managed_ok_fields(1) [OF ok]
    by (auto simp: inherits_def same_scope_def lower_scope_def split: option.splits)
qed

lemma inherits_trans: "inherits a b \<Longrightarrow> inherits b c \<Longrightarrow> inherits a c"
  by (auto simp: inherits_def same_scope_def)

interpretation managed: latched_machine "managed_call digest" "\<lambda>s. managed_state_of digest s = Inr s" "inherits a"
  for digest a
  by unfold_locales (use managed_call_InrD inherits_trans in blast)+

text \<open>
  C23. A managed case decides once. From any accepted stored state, whatever elections and pursuit
  markers are sent by whomever, accepted or refused, the state stays acceptable and its scope the same; an
  election once taken is never replaced, a pursuit marker never moves, and once pursuit has started no
  election is added. An election on file is bound to the case by its hash and was made no later than
  pursuit started.
\<close>

theorem managed_recovery_decided_once:
  assumes "managed_state_of digest raw = Inr s" and "s' = run_events (managed_call digest) s calls"
  shows "managed_state_of digest s' = Inr s' \<and> inherits s s' \<and>
    (\<forall>more. inherits s' (run_events (managed_call digest) s' more)) \<and>
    (\<forall>e. mr_election s' = Some e \<longrightarrow> same_scope e s' \<and> digest (core_of e) = me_bindingHash e \<and> selection_ok (ec_selection e) \<and>
      (\<forall>t. mr_pursuitStartedAt s' = Some t \<longrightarrow> date_parse (ec_electedAt e) \<le> date_parse t))"
proof -
  have i: "inherits a a" for a by (simp add: inherits_def same_scope_def)
  note ok = managed_state_of_idem [OF assms(1)]
  from managed.run_keeps [OF ok] have ok': "managed_state_of digest s' = Inr s'" by (simp add: assms(2))
  have "same_scope e s' \<and> digest (core_of e) = me_bindingHash e \<and> selection_ok (ec_selection e) \<and>
      (\<forall>t. mr_pursuitStartedAt s' = Some t \<longrightarrow> date_parse (ec_electedAt e) \<le> date_parse t)" if e: "mr_election s' = Some e" for e
  proof -
    have "election_bound digest s' e" using ok' e
      by (auto simp: managed_state_of_def result_simps split: option.splits if_splits)
    moreover have "selection_ok (ec_selection e)"
      using managed_ok_fields(2) [OF ok' e] by (simp add: parse_election_def split: if_splits)
    ultimately show ?thesis by (auto simp: election_bound_def)
  qed
  then show ?thesis using ok' managed.run_latched [OF ok i] managed.run_latched [OF ok' i] by (auto simp: assms(2))
qed

section \<open>Receipts of a case\<close>

lemma mapRecovery_rows:
  assumes "mapRecoveryReceiptToLines f = Inr rows" "r \<in> set rows"
  shows "\<exists>l\<in>set (rf_lines f). dm_lineId r = rl_id l \<and> rl_invoiceId l = rr_invoiceId (rf_receipt f) \<and>
    \<bar>text_val (dm_net r)\<bar> \<le> \<bar>text_val (dm_gross r)\<bar> \<and> \<bar>text_val (dm_gross r)\<bar> \<le> text_val (rl_outstandingGross l)"
proof -
  from assms(1) obtain out where v: "recoveryReceiptFactsV1 f" and out: "allocateReceiptToLines (receipt_of_facts f) = Inr out" "rows = map deemed_of out"
    by (auto simp: mapRecoveryReceiptToLines_def split: if_splits sum.splits)
  from assms(2) out(2) obtain a where a: "a \<in> set out" "r = deemed_of a" by auto
  from allocateReceiptToLines_sound [OF out(1)] a(1) obtain l where l: "l \<in> set (ra_lines (receipt_of_facts f))"
    "line_open (receipt_of_facts f) l" "share_sound (receipt_of_facts f) l a" by blast
  have m: "l \<in> set (rf_lines f)" using l(1) by (simp add: receipt_of_facts_def)
  with v have k: "0 \<le> rl_netPence l" "0 < rl_grossPence l" "rl_netPence l \<le> rl_grossPence l"
    by (auto simp: recoveryReceiptFactsV1_def list_all_iff receipt_line_ok_def amount_ok_def)
  have "\<bar>val (la_net a)\<bar> = \<bar>val (la_gross a)\<bar> * (of_int (rl_netPence l) / of_int (rl_grossPence l))"
    using l(3) k by (simp add: share_sound_def abs_mult)
  also have "\<dots> \<le> \<bar>val (la_gross a)\<bar> * 1" using k by (intro mult_left_mono) simp_all
  finally have n: "\<bar>val (la_net a)\<bar> \<le> \<bar>val (la_gross a)\<bar>" by simp
  have "\<bar>val (la_gross a)\<bar> \<le> text_val (rl_outstandingGross l)" using l(3)
    by (auto simp: share_sound_def direction_sign_def abs_le_iff split: if_splits)
  with n m l(2,3) show ?thesis
    by (intro bexI [of _ l]) (simp_all add: a(2) deemed_of_def text_val_serialized line_open_def share_sound_def receipt_of_facts_def)
qed

lemma sum_abs_le: "(\<And>x. x \<in> set xs \<Longrightarrow> \<bar>f x\<bar> \<le> \<bar>g x\<bar>) \<Longrightarrow> \<bar>sum_list (map f xs)\<bar> \<le> sum_list (map (\<lambda>x. \<bar>g x :: rat\<bar>) xs)"
proof (induction xs)
  case (Cons x xs)
  have "\<bar>f x + sum_list (map f xs)\<bar> \<le> \<bar>f x\<bar> + \<bar>sum_list (map f xs)\<bar>" by (rule abs_triangle_ineq)
  also have "\<dots> \<le> \<bar>g x\<bar> + sum_list (map (\<lambda>x. \<bar>g x\<bar>) xs)" using Cons by (intro add_mono) simp_all
  finally show ?case by simp
qed simp

lemma filter_split_sum:
  "set as \<inter> set bs = {} \<Longrightarrow>
   sum_list (map h (filter (\<lambda>r. dm_lineId r \<in> set (as @ bs)) rows)) =
     sum_list (map h (filter (\<lambda>r. dm_lineId r \<in> set as) rows)) + sum_list (map (h :: deemed_line \<Rightarrow> rat) (filter (\<lambda>r. dm_lineId r \<in> set bs) rows))"
  by (induction rows) auto

lemma mapRecovery_signs:
  assumes "mapRecoveryReceiptToLines f = Inr rows"
  shows "sum_list (map (\<lambda>r. \<bar>text_val (dm_gross r)\<bar>) rows) = \<bar>text_val (rr_gross (rf_receipt f))\<bar>"
proof -
  let ?d = "(if rf_direction f = Dir_reversal then - 1 else 1) :: rat"
  from assms obtain out where out: "allocateReceiptToLines (receipt_of_facts f) = Inr out" "rows = map deemed_of out"
    by (auto simp: mapRecoveryReceiptToLines_def split: if_splits sum.splits)
  have p: "0 \<le> ?d * text_val (dm_gross r)" if "r \<in> set rows" for r
    using allocateReceiptToLines_sound [OF out(1)] that
    by (force simp: out(2) deemed_of_def text_val_serialized share_sound_def direction_sign_def receipt_of_facts_def)
  have "sum_list (map (\<lambda>r. \<bar>text_val (dm_gross r)\<bar>) rows) = sum_list (map (\<lambda>r. ?d * text_val (dm_gross r)) rows)"
    using p by (intro arg_cong [of _ _ sum_list] map_cong refl) (auto split: if_splits)
  also have "\<dots> = ?d * sum_list (map (text_val \<circ> dm_gross) rows)" by (simp add: sum_list_const_mult comp_def)
  also have "\<dots> = ?d * (?d * text_val (rr_gross (rf_receipt f)))" using mapRecovery_conserves [OF assms] by simp
  also have "\<dots> = text_val (rr_gross (rf_receipt f))" by simp
  finally have e: "sum_list (map (\<lambda>r. \<bar>text_val (dm_gross r)\<bar>) rows) = text_val (rr_gross (rf_receipt f))" .
  moreover have "0 \<le> sum_list (map (\<lambda>r. \<bar>text_val (dm_gross r)\<bar>) rows)" by (rule sum_list_nonneg) auto
  ultimately show ?thesis by simp
qed

text \<open>
  C22. The deemed lines of a receipt account for it exactly. They name different lines of the facts, all of
  the receipt's invoice, their gross amounts add up to the receipt, taken negatively for a reversal, and no line is deemed
  more than it has outstanding nor more net than gross. Read as net amounts, the total is never more than the
  receipt, and the totals of two groups of lines without a common line add up to the total of both.
\<close>

theorem recovery_receipt_accounted:
  assumes "mapRecoveryReceiptToLines f = Inr rows"
  shows "sum_list (map (text_val \<circ> dm_gross) rows) =
      (if rf_direction f = Dir_reversal then - 1 else 1) * text_val (rr_gross (rf_receipt f)) \<and>
    distinct (map dm_lineId rows) \<and>
    (\<forall>r\<in>set rows. \<exists>l\<in>set (rf_lines f). dm_lineId r = rl_id l \<and> rl_invoiceId l = rr_invoiceId (rf_receipt f) \<and>
      \<bar>text_val (dm_net r)\<bar> \<le> \<bar>text_val (dm_gross r)\<bar> \<and> \<bar>text_val (dm_gross r)\<bar> \<le> text_val (rl_outstandingGross l)) \<and>
    (\<forall>t. sumRecoveryDeemedNet rows None = Inr t \<longrightarrow> \<bar>text_val t\<bar> \<le> \<bar>text_val (rr_gross (rf_receipt f))\<bar>) \<and>
    (\<forall>as bs t u v. set as \<inter> set bs = {} \<and> sumRecoveryDeemedNet rows (Some as) = Inr t \<and> sumRecoveryDeemedNet rows (Some bs) = Inr u \<and>
      sumRecoveryDeemedNet rows (Some (as @ bs)) = Inr v \<longrightarrow> text_val v = text_val t + text_val u)"
proof -
  have t: "\<bar>text_val t\<bar> \<le> \<bar>text_val (rr_gross (rf_receipt f))\<bar>" if s: "sumRecoveryDeemedNet rows None = Inr t" for t
  proof -
    have "text_val t = sum_list (map (text_val \<circ> dm_net) rows)" using sumRecoveryDeemedNet_InrD [OF s] by simp
    also have "\<bar>\<dots>\<bar> \<le> sum_list (map (\<lambda>r. \<bar>text_val (dm_gross r)\<bar>) rows)"
      using mapRecovery_rows [OF assms] by (intro sum_abs_le) auto
    finally show ?thesis using mapRecovery_signs [OF assms] by simp
  qed
  have parts: "text_val v = text_val t + text_val u" if "set as \<inter> set bs = {}" "sumRecoveryDeemedNet rows (Some as) = Inr t"
    "sumRecoveryDeemedNet rows (Some bs) = Inr u" "sumRecoveryDeemedNet rows (Some (as @ bs)) = Inr v" for as bs t u v
    using that(2-4) [THEN sumRecoveryDeemedNet_InrD] filter_split_sum [OF that(1), of "text_val \<circ> dm_net" rows] by simp
  note c = mapRecovery_conserves [OF assms]
  show ?thesis
    by (intro conjI ballI allI impI; (elim conjE)?)
      (rule c [THEN conjunct1] c [THEN conjunct2, THEN conjunct1] mapRecovery_rows [OF assms] t parts; assumption)+
qed

definition sample_facts :: recovery_receipt_facts where
  "sample_facts = \<lparr>rf_direction = Dir_reversal,
     rf_receipt = \<lparr>rr_id = ''r'', rr_invoiceId = ''inv'', rr_gross = \<lparr>numerator_text = ''60'', denominator_text = ''1''\<rparr>,
       rr_effectiveAt = ''2026-10-11T09:30:00Z'', rr_sourceRef = ''bank:1''\<rparr>,
     rf_lines = [\<lparr>rl_id = ''a'', rl_invoiceId = ''inv'', rl_existedAt = ''2026-10-10T09:30Z'',
       rl_outstandingGross = \<lparr>numerator_text = ''120'', denominator_text = ''1''\<rparr>, rl_netPence = 100, rl_grossPence = 120\<rparr>],
     rf_explicit = None, rf_separateInvoice = None\<rparr>"

lemma sample_mapped: "mapRecoveryReceiptToLines sample_facts = Inr
   [\<lparr>dm_lineId = ''a'', dm_rule = Rule_pro_rata, dm_sourceRef = ''bank:1'',
     dm_gross = \<lparr>numerator_text = ''-60'', denominator_text = ''1''\<rparr>, dm_net = \<lparr>numerator_text = ''-50'', denominator_text = ''1''\<rparr>\<rparr>]"
proof -
  let ?i = "receipt_of_facts sample_facts" and ?l = "hd (rf_lines sample_facts)"
  let ?w = "\<lambda>n. \<lparr>numerator = n, denominator = 1\<rparr>"
  let ?a = "\<lparr>la_lineId = ''a'', la_rule = Rule_pro_rata, la_sourceRef = ''bank:1'', la_gross = ?w (- 60), la_net = ?w (- 50)\<rparr>"
  have v: "recoveryReceiptFactsV1 sample_facts" "receiptAllocationV1 ?i"
    by (simp_all add: recoveryReceiptFactsV1_def receiptAllocationV1_def receipt_of_facts_def sample_facts_def MAX_ALLOCATION_LINES_def) code_simp+
  have r: "read_exact (ra_receiptGross ?i) = Inr (?w 60)" by code_simp
  have l: "bind_r (map_r read_line (ra_lines ?i)) (\<lambda>ls. bind_r (parseInstant (ra_effectiveAt ?i))
      (\<lambda>t. if list_ex (\<lambda>l. numerator (snd l) < 0) ls then Inl INVALID_ALLOCATION
        else filter_r (eligible_line ?i t) ls)) = Inr [(?l, ?w 120)]" by code_simp
  have t: "allocation_total [?w 120] = Inr (?w 120)" by (rule allocation_total_eq) (simp_all add: exact_ok_def val_def)
  have q: "exactPence 1 120 = Inr \<lparr>numerator = 1, denominator = 120\<rparr>" "compareExactPence (?w 60) (?w 120) = - 1" by code_simp+
  have m: "append_proportion ?i (?w 60) \<lparr>numerator = 1, denominator = 120\<rparr> (?l, ?w 120) = Inr ?a" by code_simp
  have pr: "allocate_pro_rata ?i (?w 60) [(?l, ?w 120)] = Inr [?a]" unfolding allocate_pro_rata_def by (simp add: t q m)
  from l obtain ls u where "map_r read_line (ra_lines ?i) = Inr ls" "parseInstant (ra_effectiveAt ?i) = Inr u"
    "\<not> list_ex (\<lambda>l. numerator (snd l) < 0) ls" "filter_r (eligible_line ?i u) ls = Inr [(?l, ?w 120)]"
    unfolding result_simps by blast
  moreover have "ra_separateInvoiceId ?i = None" "ra_explicit ?i = None" "distinct (map rl_id (ra_lines ?i))"
    by (simp_all add: sample_facts_def receipt_of_facts_def)
  ultimately have "allocateReceiptToLines ?i = Inr [?a]" unfolding allocateReceiptToLines_def using pr by (simp add: v(2) r)
  moreover have "serializeExactPence (?w (- 60)) = \<lparr>numerator_text = ''-60'', denominator_text = ''1''\<rparr>"
    "serializeExactPence (?w (- 50)) = \<lparr>numerator_text = ''-50'', denominator_text = ''1''\<rparr>" by code_simp+
  ultimately show ?thesis by (simp add: mapRecoveryReceiptToLines_def v(1) deemed_of_def)
qed

theorem recovery_receipt_accounted_witness:
  "\<exists>rows. mapRecoveryReceiptToLines sample_facts = Inr rows \<and> length rows = 1 \<and> sum_list (map (text_val \<circ> dm_gross) rows) = - 60"
proof -
  have "text_val (rr_gross (rf_receipt sample_facts)) = 60"
    by (simp add: sample_facts_def text_val_def int_of_text_def digits_val_def digit_val_def)
  moreover have "rf_direction sample_facts = Dir_reversal" by (simp add: sample_facts_def)
  ultimately show ?thesis using recovery_receipt_accounted [OF sample_mapped] sample_mapped by simp
qed

definition sample_managed :: managed_state where
  "sample_managed = \<lparr>cs_tenantId = ''t'', cs_jobId = ''j'', cs_caseId = ''c'', mr_pursuitStartedAt = None, mr_election = None\<rparr>"

definition sample_approver :: "string \<Rightarrow> managed_context" where
  "sample_approver now = \<lparr>cs_tenantId = ''T'', cs_jobId = ''J'', cs_caseId = ''C'', mx_actorMembershipId = ''m'', mx_canApprove = True, mx_now = now\<rparr>"

definition sample_choice :: "string \<Rightarrow> managed_command" where
  "sample_choice cid = \<lparr>mc_commandId = cid, mc_caseId = ''c'', mc_selection = \<lparr>sn_service = Solicitor_letter, sn_points = 10\<rparr>\<rparr>"

definition sample_digest :: "election_core \<Rightarrow> string" where
  "sample_digest e = replicate 64 CHR ''a''"

definition sample_elected :: managed_state where
  "sample_elected = run_events (managed_call sample_digest) sample_managed [Elect (sample_choice ''x'') (sample_approver ''2026-10-11T09:30:00Z'')]"

lemma sample_elected_facts: "managed_state_of sample_digest sample_elected = Inr sample_elected"
  "map_option ec_commandId (mr_election sample_elected) = Some ''x''"
  by code_simp+

theorem managed_recovery_decided_once_witness:
  "map_option ec_commandId (mr_election (run_events (managed_call sample_digest) sample_elected
     [Elect (sample_choice ''y'') (sample_approver ''2026-10-12T09:30:00Z''), Pursue (sample_approver ''2026-10-13T09:30:00Z'')])) = Some ''x''"
  (is "map_option ec_commandId (mr_election ?s) = _")
proof -
  from sample_elected_facts(2) obtain e where e: "mr_election sample_elected = Some e" "ec_commandId e = ''x''" by auto
  from managed_recovery_decided_once [OF sample_elected_facts(1) refl] have "inherits sample_elected ?s" by blast
  with e show ?thesis by (simp add: inherits_def)
qed

end
