(* ===== verification/Spec2Isabelle.thy ===== *)
theory Spec2Isabelle
  imports Receipt_Allocation Interim Cis Direct_Debit Dunning Offline_Queue Construction_Notices
    Enterprise_Receipt Enterprise_Statement Recovery_Case Meter_Lifecycle Subscription Success_Fee Trials Recoveries
begin

text \<open>
  A verification library of the core of JobGuard, a system for small builders and contractors that
  records jobs, extra work, invoices and receipts, computes fees from what was really received, and
  keeps append-only books of retentions, interim applications, VAT and CIS deductions. The code is
  TypeScript; the core logic is \<^verbatim>\<open>src/packages/core/src\<close>, a set of pure modules that the database
  package, the API and the web application call. This library models those modules.

  \<^bold>\<open>How the code is modelled.\<close>
  A function that may throw returns \<open>'e + 'a\<close>, with one constructor of \<open>'e\<close> for each error code of the
  module; a throw of the language or of the schema library has a constructor too (\<open>Js_range_error\<close>,
  \<open>Zod_error\<close>). \<open>bind_r\<close>, \<open>fold_r\<close>, \<open>map_r\<close>, \<open>filter_r\<close> of \<^verbatim>\<open>Jobguard_Prelude\<close> are sequencing and loops
  whose body may throw. Interfaces are records, unions are datatypes, \<^verbatim>\<open>Map\<close>s are association lists in
  insertion order, \<^verbatim>\<open>sort\<close> with a comparison is the stable \<open>sort_by\<close>. Numbers that the schemas bound
  to safe integers and big integers are \<open>int\<close>, with every bound of the code written out
  (\<open>MAX_MONEY_PENCE\<close>, \<open>MAX_SAFE\<close>, the digit limits of exact fractions), so overflow is an error value
  and not a wrap. A schema is a predicate over the typed record: its numeric bounds, lengths,
  regular expressions and refinements are modelled; the format checks the schema library itself
  provides (GUIDs, dates, strictness of objects) are not code of the repository, and a raw value
  without the shape of its schema is \<open>None\<close>. Dates are days since 1970, instants of work facts
  microseconds since 1970, which order the canonical texts as the code's comparison of texts does.
  Identifiers and texts that a schema lower-cases or
  trims before it checks them (\<^verbatim>\<open>toLowerCase\<close>, \<^verbatim>\<open>trim\<close>) arrive in that normal form: the books, the notices, the meter, the work facts
  and the subscription take normalised texts, and only \<^verbatim>\<open>Recoveries\<close> models the lower-casing itself.
  Freezing an object has no effect on values. A comparison of \<^verbatim>\<open>JSON.stringify\<close> texts of two records
  of the same schema is equality.

  \<^bold>\<open>Parameters.\<close> Code outside the repository is an argument of the definitions that use it: SHA-256
  over the JSON text of a value (\<open>digest\<close>, \<open>print_of\<close>), the host's \<^verbatim>\<open>localeCompare\<close> (\<open>before\<close>), the hash of a managed-recovery election, the reader
  of stored decisions, the rendered text of a notice, and the time-zone database (\<open>offset\<close>, of which
  the theorems ask only \<open>zone_bounded\<close>: an offset is shorter than a day).

  \<^bold>\<open>Theories and the modules they model.\<close>
  \<^item> \<^verbatim>\<open>Jobguard_Prelude\<close>, \<^verbatim>\<open>Schemas\<close>: the shared vocabulary and the scalar schemas.
  \<^item> \<^verbatim>\<open>Rounding\<close> (rational.ts), \<^verbatim>\<open>Money\<close> (money.ts, the invoice balance of customer-billing.ts),
    \<^verbatim>\<open>Allocation\<close> (allocation.ts, quantity.ts, fee.ts, tax.ts): pence, rounding once, largest remainders.
  \<^item> \<^verbatim>\<open>Exact_Pence\<close>, \<^verbatim>\<open>Exact_Sum\<close> (cumulative-fee.ts), \<^verbatim>\<open>Instants\<close>, \<^verbatim>\<open>Receipt_Allocation\<close>
    (receipt-allocation.ts): exact fractions of pence, their sums and fees, exact timestamps, and the
    allocation of a receipt to invoice lines.
  \<^item> \<^verbatim>\<open>Append_Book\<close>, \<^verbatim>\<open>Retention\<close> (retention-balances.ts), \<^verbatim>\<open>Interim\<close> (interim-applications.ts), \<^verbatim>\<open>Vat\<close>
    (vat-treatments.ts), \<^verbatim>\<open>Cis\<close> (cis-deductions.ts): append-only books. The locale \<open>append_book\<close> is the
    contract of a book (replay, history, refusal of a reused identity), interpreted on each of them.
  \<^item> \<^verbatim>\<open>Event_Machine\<close>, \<^verbatim>\<open>Direct_Debit\<close> (direct-debit-lifecycle.ts), \<^verbatim>\<open>Fee_Collection\<close> (fee-collection.ts),
    \<^verbatim>\<open>Dunning\<close> (dunning.ts): objects driven by calls; the locales \<open>kept_machine\<close>, \<open>latched_machine\<close> and
    \<open>monotone_lifecycle\<close> are their contracts.
  \<^item> \<^verbatim>\<open>Offline_Queue\<close> (offline-client-queue.ts, offline-reconciliation.ts): the queue of commands captured
    without a connection, as a step relation of the client.
  \<^item> \<^verbatim>\<open>Construction_Notices\<close> (construction-notices.ts): deadlines over working days and service books.
  \<^item> \<^verbatim>\<open>Enterprise_Contracts\<close>, \<^verbatim>\<open>Enterprise_Origin\<close>, \<^verbatim>\<open>Enterprise_Transitions\<close>, \<^verbatim>\<open>Enterprise_Fee\<close>,
    \<^verbatim>\<open>Enterprise_Receipt\<close>, \<^verbatim>\<open>Enterprise_Statement\<close> (enterprise-domain/*.ts, extra-origin.ts): extras, their
    approval chain, duplicate groups, qualifying principal, and fee statements.
  \<^item> \<^verbatim>\<open>Recovery_Case\<close> (recovery-case.ts): the life cycle and the books of a recovery case.
  \<^item> \<^verbatim>\<open>Work_State\<close> (job-work-state.ts), \<^verbatim>\<open>Work_Timing\<close> (job-work-timing.ts), \<^verbatim>\<open>Meter_Places\<close>
    (jobs-on-the-go.ts, meter-place-admission.ts, small-job-v3.ts), \<^verbatim>\<open>Meter_Lifecycle\<close>
    (meter-lifecycle.ts): facts of work on site, London dates, the places a subscription counts, and the
    intervals in which a job counts.
  \<^item> \<^verbatim>\<open>Subscription\<close> (subscription.ts, subscription-period.ts, subscription-allocation.ts): the price of a
    period, its days, the split of its pennies over jobs and the corrections of later periods.
  \<^item> \<^verbatim>\<open>Trials\<close> (free-first-job.ts, free-first-job-calendar.ts): who may have a free first job, and when its
    trial ends.
  \<^item> \<^verbatim>\<open>Shadow_Signal\<close>, \<^verbatim>\<open>Shadow_Eligibility\<close>, \<^verbatim>\<open>Success_Fee\<close> (shadow-domain/types.ts, signal.ts,
    must-surface.ts, attribution.ts, eligibility.ts, success-fee.ts): the signals found in a job, which
    recoveries qualify, and the success fee on them.
  \<^item> \<^verbatim>\<open>Recoveries\<close> (recovery-allocation.ts, managed-recovery.ts): the part of a receipt that a case may take,
    the lines it is deemed to pay, and the choice of a managed service.

  \<^bold>\<open>How the parts interact.\<close> Every money component calls \<open>divideRounded\<close> through the contract \<open>rounding\<close>;
  receipts, cumulative fees and statements calculate through the contract \<open>exact_arithmetic\<close>. A VAT
  book is checked against the retention book it releases from, a CIS book against both. The
  enterprise statement uses the receipt allocator, the penny allocator and the fee kernel. The
  workbench of dunning reads fee collection attempts. The meter projects the work facts of a job to
  counting intervals and groups the jobs of a day into places. A subscription splits its pennies with the
  largest-remainder allocator. The success fee and the deemed lines of a recovery take their shares from the
  receipt allocator and their fees from the fee kernel; trials read London dates as the meter does.

  \<^bold>\<open>What the lemmas show.\<close> For every component: what each operation returns on every branch, as inversion
  lemmas (\<open>..._InrD\<close>, \<open>..._Inr_iff\<close>); an invariant of its state and that each operation keeps it
  (\<open>..._inv\<close>, \<open>..._ok\<close>); and the properties, which are the theorems with an identifier C1 to C40 in the
  text before them: conservation and bounds of money, soundness of the books, approval chains,
  independence of delivery order, refusal exactly on the stated conditions, termination, and progress.
  A theorem with hypotheses is followed by its application to a concrete input.

  \<^bold>\<open>Termination and bounds.\<close> All definitions are total; no fuel is used except in the exact readers, where
  it is the length of the text. The loop of \<open>countIntervals\<close> ends because each turn uses up a fact or
  takes the phase down a rank; the search of the notice calculator for a working day ends because
  every profile has one in each week. \<open>SAFE_TIME\<close> is forty days before the end of the year 9999: before
  it every deadline the meter computes is a date of the calendar.

  \<^bold>\<open>Not modelled.\<close> The SQL repositories and migrations of packages/db, the HTTP handlers and workers of
  apps/api, the pages of apps/web, the language-model gateway of packages/ai, configuration, storage
  and the repository's own tools: they are input, output and glue around the modules above, and their
  rules live in SQL or in libraries. Of packages/core, the demonstration scenarios and traces,
  schema-only modules and strict unions of stored events (jobs and
  captures), whose content is a shape and no behaviour; modules with logic of their own that this library leaves out
  (contractor permissions and mandates, the derivation of contractor billing from reported facts, the reconciliation reports over
  posted amounts, the platform's tax invoices, fee statements and the simulated runs); builders of texts, documents and evidence packs,
  whose content is wording and a hash; read models that rename fields of the modelled domain; and the
  matching and pricing of supplier texts, which rests on tokenisation and locale rules of the host. The
  manifest lists each of them with its reason.
\<close>

end
